(* ===== verification/Prelude.thy ===== *)
theory Prelude
  imports Main "HOL-Library.Word" "HOL-Library.Monad_Syntax"
begin

unbundle bit_operations_syntax

text \<open>
  Shared vocabulary of the development: the C integer types, the faults that a C program
  can run into where HOL would return an unspecified value, the byte buffers that the
  run-time functions work on, and the generic lemmas on words, lists and option that the
  component theories use.
\<close>

section \<open>C integer types\<close>

type_synonym uchar = "8 word"
type_synonym ushort = "16 word"
type_synonym ulong = "32 word"
type_synonym ulonglong = "64 word"

named_theorems c_arith \<open>facts that turn word comparisons and sums into facts on nat\<close>

section \<open>Faults\<close>

text \<open>
  A fault is a step the C code must never take. \<open>Int3\<close> is the breakpoint that a failed
  \<open>assert\<close> executes, \<open>StackOverrun\<close> an index past one of the fixed search-path arrays,
  \<open>OutOfBounds\<close> an access outside a buffer, \<open>NullDeref\<close> a use of a null pointer,
  \<open>DivByZero\<close> a division the processor traps and \<open>Overlap\<close> a \<open>memcpy\<close> between overlapping ranges,
  which C leaves undefined.
\<close>

datatype fault = Int3 | StackOverrun | OutOfBounds | NullDeref | DivByZero | Overlap

type_synonym 'a res = "fault + 'a"

text \<open>The status codes that the modelled functions of \<open>ntdll\<close> return.\<close>

datatype ntstatus =
    STATUS_SUCCESS
  | STATUS_INVALID_PARAMETER
  | STATUS_BUFFER_OVERFLOW
  | STATUS_ACCESS_VIOLATION
  | STATUS_PRIVILEGE_NOT_HELD
  | STATUS_NOT_IMPLEMENTED
  | STATUS_BUFFER_TOO_SMALL
  | STATUS_INVALID_SID
  | STATUS_NO_MEMORY
  | STATUS_INVALID_PARAMETER_2

definition bind_res :: "'a res \<Rightarrow> ('a \<Rightarrow> 'b res) \<Rightarrow> 'b res" where
  "bind_res m f = (case m of Inl e \<Rightarrow> Inl e | Inr x \<Rightarrow> f x)"

lemma bind_res_simps [simp]:
  "bind_res (Inl e) f = Inl e"
  "bind_res (Inr x) f = f x"
  by (simp_all add: bind_res_def)

lemma bind_res_eq_Inr: "bind_res m f = Inr y \<longleftrightarrow> (\<exists>x. m = Inr x \<and> f x = Inr y)"
  by (cases m) auto

lemma bind_res_assoc: "bind_res (bind_res m f) g = bind_res m (\<lambda>x. bind_res (f x) g)"
  by (cases m) auto

section \<open>Words read as natural numbers\<close>

lemma unat_add_small [c_arith]:
  "unat (a :: 'n::len word) + unat b < 2 ^ LENGTH('n) \<Longrightarrow> unat (a + b) = unat a + unat b"
  by (simp add: unat_word_ariths)

lemma unat_plus_one_uchar [c_arith]: "unat (h :: uchar) < 255 \<Longrightarrow> unat (1 + h) = Suc (unat h)"
  by (simp add: unat_word_ariths)

lemma unat_plus_one_below:
  "unat (a :: 'n::len word) < unat (b :: 'n word) \<Longrightarrow> unat (a + 1) = Suc (unat a)"
proof -
  assume "unat a < unat b"
  moreover have "unat b < 2 ^ LENGTH('n)" by (rule unsigned_less)
  ultimately have "Suc (unat a) < 2 ^ LENGTH('n)" by linarith
  then show ?thesis by (simp add: unat_word_ariths)
qed

lemma unat_max_word: "unat (max a b :: 'n::len word) = max (unat a) (unat b)"
  by (simp add: max_def word_le_nat_alt)

end
