(* ===== verification/Avl.thy ===== *)
theory Avl
  imports Prelude
begin

text \<open>
  The intrusive AVL tree of \<open>src/src/win32k/misc/avl.c\<close> and \<open>include/avl.h\<close>.
  A tree is the value a \<open>PAVLNODECORE\<close> points to: \<open>Null\<close>, or a node with the
  address \<open>ptr\<close> it lives at and the fields of \<open>AVLNODECORE\<close> in their order.
  The code's stack of pointers to node pointers is a list of frames, most recent entry
  first: the entry for a slot holds the node in that slot without the child whose slot is
  the next entry, so that writing a new child through the inner slot is
  \<open>avl_plug\<close>. A failed \<open>assert\<close> is the fault \<open>Int3\<close>.
\<close>

section \<open>Nodes and the search-path stack\<close>

type_synonym avlkey = ulong

datatype 'p avl =
  Null
| Node (ptr: 'p) (Key: avlkey) (pLeft: "'p avl") (pRight: "'p avl") (uchHeight: uchar)

definition AVL_MAX_HEIGHT :: nat where
  "AVL_MAX_HEIGHT = 19"

fun AVL_HEIGHTOF :: "'p avl \<Rightarrow> uchar" where
  "AVL_HEIGHTOF Null = 0"
| "AVL_HEIGHTOF (Node p k l r h) = h"

text \<open>\<open>InLeft\<close> marks an entry that was left through its \<open>pLeft\<close>, \<open>InRight\<close> one left
  through its \<open>pRight\<close>.\<close>

datatype 'p frame =
  InLeft 'p avlkey "'p avl" uchar
| InRight 'p avlkey "'p avl" uchar

fun avl_plug :: "'p frame \<Rightarrow> 'p avl \<Rightarrow> 'p avl" where
  "avl_plug (InLeft p k r h) t = Node p k t r h"
| "avl_plug (InRight p k l h) t = Node p k l t h"

fun avl_plug_all :: "'p frame list \<Rightarrow> 'p avl \<Rightarrow> 'p avl" where
  "avl_plug_all [] t = t"
| "avl_plug_all (f # fs) t = avl_plug_all fs (avl_plug f t)"

section \<open>Rebalancing\<close>

text \<open>
  One round of the loop of \<open>AVLRebalance\<close> on the node in the popped slot: the new
  contents of the slot and whether the loop is left by \<open>break\<close>. The comparisons
  promote \<open>unsigned char\<close> to \<open>int\<close>; the stored heights are cast back.
\<close>

fun avl_rebalance_node :: "'p avl \<Rightarrow> 'p avl \<times> bool" where
  "avl_rebalance_node Null = (Null, True)"
| "avl_rebalance_node (Node p k l r h) =
    (let uchLeftHeight = AVL_HEIGHTOF l; uchRightHeight = AVL_HEIGHTOF r in
     if unat uchRightHeight + 1 < unat uchLeftHeight then
       (case l of
          Null \<Rightarrow> (Node p k l r h, True)
        | Node lp lk ll lr lh \<Rightarrow>
            let uchLeftRightHeight = AVL_HEIGHTOF lr in
            if AVL_HEIGHTOF ll \<ge> uchLeftRightHeight then
              (Node lp lk ll (Node p k lr r (1 + uchLeftRightHeight))
                 (1 + (1 + uchLeftRightHeight)), False)
            else
              (case lr of
                 Null \<Rightarrow> (Node p k l r h, True)
               | Node lrp lrk lrl lrr lrh \<Rightarrow>
                   (Node lrp lrk (Node lp lk ll lrl uchLeftRightHeight)
                      (Node p k lrr r uchLeftRightHeight) uchLeftHeight, False)))
     else if unat uchLeftHeight + 1 < unat uchRightHeight then
       (case r of
          Null \<Rightarrow> (Node p k l r h, True)
        | Node rp rk rl rr rh \<Rightarrow>
            let uchRightLeftHeight = AVL_HEIGHTOF rl in
            if AVL_HEIGHTOF rr \<ge> uchRightLeftHeight then
              (Node rp rk (Node p k l rl (1 + uchRightLeftHeight)) rr
                 (1 + (1 + uchRightLeftHeight)), False)
            else
              (case rl of
                 Null \<Rightarrow> (Node p k l r h, True)
               | Node rlp rlk rll rlr rlh \<Rightarrow>
                   (Node rlp rlk (Node p k l rll uchRightLeftHeight)
                      (Node rp rk rlr rr uchRightLeftHeight) uchRightHeight, False)))
     else
       (let uch = max uchLeftHeight uchRightHeight + 1 in
        if uch = h then (Node p k l r h, True) else (Node p k l r uch, False)))"

fun AVLRebalance :: "'p frame list \<Rightarrow> 'p avl \<Rightarrow> 'p avl" where
  "AVLRebalance [] t = t"
| "AVLRebalance (f # fs) t =
    (case avl_rebalance_node (avl_plug f t) of
       (t', True) \<Rightarrow> avl_plug_all fs t'
     | (t', False) \<Rightarrow> AVLRebalance fs t')"

section \<open>Insertion\<close>

text \<open>
  The descent of \<open>AVLInsert\<close>: it stops at the empty slot the new node goes into. The
  header leaves \<open>AVL_MAY_TRY_INSERT_EQUAL\<close> undefined, so there is no test for an equal
  key.
\<close>

fun avl_insert_path :: "avlkey \<Rightarrow> 'p frame list \<Rightarrow> 'p avl \<Rightarrow> 'p frame list res" where
  "avl_insert_path Ky st Null = Inr st"
| "avl_insert_path Ky st (Node p k l r h) =
    (if length st < AVL_MAX_HEIGHT then
       (if k > Ky then avl_insert_path Ky (InLeft p k r h # st) l
        else avl_insert_path Ky (InRight p k l h # st) r)
     else Inl Int3)"

definition AVLInsert :: "'p avl \<Rightarrow> 'p \<Rightarrow> avlkey \<Rightarrow> ('p avl \<times> bool) res" where
  "AVLInsert t p Ky =
     bind_res (avl_insert_path Ky [] t)
       (\<lambda>st. Inr (AVLRebalance st (Node p Ky Null Null 1), True))"

section \<open>Removal\<close>

text \<open>
  The first loop of \<open>AVLRemove\<close>: the frames above the slot where the search stops, and
  the contents of that slot. The slot of a found node is itself on the code's stack, hence
  the bound is tested before the comparison.
\<close>

fun avl_remove_path :: "avlkey \<Rightarrow> 'p frame list \<Rightarrow> 'p avl \<Rightarrow> ('p frame list \<times> 'p avl) res" where
  "avl_remove_path Ky st Null = Inr (st, Null)"
| "avl_remove_path Ky st (Node p k l r h) =
    (if length st < AVL_MAX_HEIGHT then
       (if k = Ky then Inr (st, Node p k l r h)
        else if k > Ky then avl_remove_path Ky (InLeft p k r h # st) l
        else avl_remove_path Ky (InRight p k l h # st) r)
     else Inl Int3)"

text \<open>
  The second loop walks the right spine of the left subtree. \<open>n\<close> counts the entries below
  the walk's own frames. The result is the walk's frames and the last node of the spine.
\<close>

fun avl_spine_path :: "nat \<Rightarrow> 'p frame list \<Rightarrow> 'p avl \<Rightarrow> ('p frame list \<times> 'p avl) res" where
  "avl_spine_path n st Null = Inl NullDeref"
| "avl_spine_path n st (Node p k l r h) =
    (if r = Null then Inr (st, Node p k l r h)
     else if n + length st < AVL_MAX_HEIGHT then avl_spine_path n (InRight p k l h # st) r
     else Inl Int3)"

text \<open>
  \<open>AVLRemove\<close>: the new tree and the pointer to the removed node. After the walk the code
  writes the stack entry \<open>iStackEntry\<close>, which needs \<open>iStackEntry < AVL_MAX_HEIGHT\<close>.
\<close>

definition AVLRemove :: "'p avl \<Rightarrow> avlkey \<Rightarrow> ('p avl \<times> 'p option) res" where
  "AVLRemove t Ky =
     bind_res (avl_remove_path Ky [] t) (\<lambda>(st, d).
       case d of
         Null \<Rightarrow> Inr (t, None)
       | Node dp dk dl dr dh \<Rightarrow>
           if dl \<noteq> Null then
             let iStackEntry = length st + 1 in
             bind_res (avl_spine_path iStackEntry [] dl) (\<lambda>(sp, m).
               case m of
                 Null \<Rightarrow> Inl NullDeref
               | Node mp mk ml mr mh \<Rightarrow>
                   if iStackEntry < AVL_MAX_HEIGHT then
                     Inr (AVLRebalance (sp @ InLeft mp mk dr dh # st) ml, Some dp)
                   else Inl StackOverrun)
           else Inr (AVLRebalance st dr, Some dp))"

section \<open>Lookups\<close>

fun AVLGet :: "'p avl \<Rightarrow> avlkey \<Rightarrow> 'p avl" where
  "AVLGet Null Ky = Null"
| "AVLGet (Node p k l r h) Ky =
    (if k \<noteq> Ky then (if k > Ky then AVLGet l Ky else AVLGet r Ky) else Node p k l r h)"

fun avl_get_with_parent :: "'p avl \<Rightarrow> 'p avl \<Rightarrow> avlkey \<Rightarrow> 'p avl \<times> 'p avl" where
  "avl_get_with_parent par Null Ky = (Null, par)"
| "avl_get_with_parent par (Node p k l r h) Ky =
    (if k \<noteq> Ky then
       (if k > Ky then avl_get_with_parent (Node p k l r h) l Ky
        else avl_get_with_parent (Node p k l r h) r Ky)
     else (Node p k l r h, par))"

definition AVLGetWithParent :: "'p avl \<Rightarrow> avlkey \<Rightarrow> 'p avl \<times> 'p avl" where
  "AVLGetWithParent t Ky = avl_get_with_parent Null t Ky"

fun avl_best_fit :: "'p avl \<Rightarrow> 'p avl \<Rightarrow> avlkey \<Rightarrow> bool \<Rightarrow> 'p avl" where
  "avl_best_fit pLast Null Ky fAbove = pLast"
| "avl_best_fit pLast (Node p k l r h) Ky fAbove =
    (if k \<noteq> Ky then
       (if fAbove then
          (if k > Ky then avl_best_fit (Node p k l r h) l Ky fAbove
           else avl_best_fit pLast r Ky fAbove)
        else
          (if k < Ky then avl_best_fit (Node p k l r h) r Ky fAbove
           else avl_best_fit pLast l Ky fAbove))
     else Node p k l r h)"

definition AVLGetBestFit :: "'p avl \<Rightarrow> avlkey \<Rightarrow> bool \<Rightarrow> 'p avl" where
  "AVLGetBestFit t Ky fAbove = avl_best_fit Null t Ky fAbove"


text \<open>
  \<open>AVLGetWithAdjecentNodes\<close>: the ancestors on the search path, nearest first, with the
  node found, and the loop that rewinds them.
\<close>

fun avl_adj_path :: "avlkey \<Rightarrow> 'p avl list \<Rightarrow> 'p avl \<Rightarrow> ('p avl list \<times> 'p avl) res" where
  "avl_adj_path Ky st Null = Inr (st, Null)"
| "avl_adj_path Ky st (Node p k l r h) =
    (if k \<noteq> Ky then
       (if length st < AVL_MAX_HEIGHT then
          avl_adj_path Ky (Node p k l r h # st) (if k > Ky then l else r)
        else Inl Int3)
     else Inr (st, Node p k l r h))"

fun avl_rightmost :: "'p avl \<Rightarrow> 'p avl" where
  "avl_rightmost Null = Null"
| "avl_rightmost (Node p k l r h) = (if r \<noteq> Null then avl_rightmost r else Node p k l r h)"

fun avl_leftmost :: "'p avl \<Rightarrow> 'p avl" where
  "avl_leftmost Null = Null"
| "avl_leftmost (Node p k l r h) = (if l \<noteq> Null then avl_leftmost l else Node p k l r h)"

fun avl_adj_rewind :: "avlkey \<Rightarrow> 'p avl list \<Rightarrow> 'p avl \<times> 'p avl \<Rightarrow> 'p avl \<times> 'p avl" where
  "avl_adj_rewind Ky [] (L, R) = (L, R)"
| "avl_adj_rewind Ky (c # cs) (L, R) =
    avl_adj_rewind Ky cs
      (if Key c < Ky \<and> (L = Null \<or> Key c > Key L) then (c, R)
       else if Key c > Ky \<and> (R = Null \<or> Key c < Key R) then (L, c)
       else (L, R))"

definition AVLGetWithAdjecentNodes ::
  "'p avl \<Rightarrow> avlkey \<Rightarrow> ('p avl \<times> 'p avl \<times> 'p avl) res" where
  "AVLGetWithAdjecentNodes t Ky =
     bind_res (avl_adj_path Ky [] t) (\<lambda>(st, n).
       if n \<noteq> Null then
         Inr (n, avl_adj_rewind Ky st (avl_rightmost (pLeft n), avl_leftmost (pRight n)))
       else Inr (Null, Null, Null))"

section \<open>Iteration\<close>

text \<open>
  The iterators keep a stack of nodes with a flag each; the head of the list is the entry
  \<open>aEntries[cEntries - 1]\<close>. A push to index \<open>AVL_MAX_HEIGHT\<close> is \<open>StackOverrun\<close>: there is
  no \<open>assert\<close>. \<open>avl_first\<close> and \<open>avl_second\<close> name the child visited before and after the
  node, so that one definition covers the two mirrored branches on \<open>fFromLeft\<close>.
\<close>

definition avl_first :: "bool \<Rightarrow> 'p avl \<Rightarrow> 'p avl" where
  "avl_first fFromLeft n = (if fFromLeft then pLeft n else pRight n)"

definition avl_second :: "bool \<Rightarrow> 'p avl \<Rightarrow> 'p avl" where
  "avl_second fFromLeft n = (if fFromLeft then pRight n else pLeft n)"

fun avl_size :: "'p avl \<Rightarrow> nat" where
  "avl_size Null = 0"
| "avl_size (Node p k l r h) = avl_size l + avl_size r + 1"

lemma avl_size_children:
  "n \<noteq> Null \<Longrightarrow> avl_size n = avl_size (avl_first d n) + avl_size (avl_second d n) + 1"
  by (cases n) (auto simp: avl_first_def avl_second_def)

type_synonym 'p avlstack2 = "('p avl \<times> nat) list"

function avl_do_with_all ::
  "bool \<Rightarrow> ('p avl \<Rightarrow> 's \<Rightarrow> ulong \<times> 's) \<Rightarrow> 'p avlstack2 \<Rightarrow> 's \<Rightarrow> (ulong \<times> 's) res" where
  "avl_do_with_all d cb [] s = Inr (0, s)"
| "avl_do_with_all d cb ((n, f) # st) s =
    (if n = Null then Inl NullDeref
     else if f = 0 \<and> avl_first d n \<noteq> Null then
       (if Suc (length st) < AVL_MAX_HEIGHT
        then avl_do_with_all d cb ((avl_first d n, 0) # (n, 1) # st) s
        else Inl StackOverrun)
     else
       (let (rc, s') = cb n s in
        if rc \<noteq> 0 then Inr (rc, s')
        else if avl_second d n \<noteq> Null then avl_do_with_all d cb ((avl_second d n, 0) # st) s'
        else avl_do_with_all d cb st s'))"
  by pat_completeness auto
termination
proof (relation "measure (\<lambda>(d, cb, st, s). \<Sum>(n, f) \<leftarrow> st.
    if f = 0 then 2 * avl_size n else 2 * avl_size (avl_second d n) + 1)", goal_cases)
  case (2 d cb n f st s)
  then show ?case using avl_size_children [of n d] by simp
next
  case (3 d cb n f st s rc s')
  then show ?case using avl_size_children [of n d] by simp
next
  case (4 d cb n f st s rc s')
  then show ?case using avl_size_children [of n d] by simp
qed simp

declare avl_do_with_all.simps(2) [simp del]

definition AVLDoWithAll ::
  "'p avl \<Rightarrow> bool \<Rightarrow> ('p avl \<Rightarrow> 's \<Rightarrow> ulong \<times> 's) \<Rightarrow> 's \<Rightarrow> (ulong \<times> 's) res" where
  "AVLDoWithAll t fFromLeft pfnCallBack pvParam =
     (if t = Null then Inr (0, pvParam)
      else avl_do_with_all fFromLeft pfnCallBack [(t, 0)] pvParam)"

record 'p avlenumdata =
  fFromLeft :: bool
  aEntries :: "'p avlstack2"

function avl_get_next :: "bool \<Rightarrow> 'p avlstack2 \<Rightarrow> ('p avl \<times> 'p avlstack2) res" where
  "avl_get_next d [] = Inr (Null, [])"
| "avl_get_next d ((n, f) # st) =
    (if n = Null then Inl NullDeref
     else if f = 0 \<and> avl_first d n \<noteq> Null then
       (if Suc (length st) < AVL_MAX_HEIGHT
        then avl_get_next d ((avl_first d n, 0) # (n, 1) # st)
        else Inl StackOverrun)
     else if f \<le> 1 then Inr (n, (n, 2) # st)
     else if avl_second d n \<noteq> Null then avl_get_next d ((avl_second d n, 0) # st)
     else avl_get_next d st)"
  by pat_completeness auto
termination
proof (relation "measure (\<lambda>(d, st). \<Sum>(n, f) \<leftarrow> st.
    if f = 0 then 3 * avl_size n
    else if f = 1 then 3 * avl_size (avl_second d n) + 2
    else 3 * avl_size (avl_second d n) + 1)", goal_cases)
  case (2 d n f st)
  then show ?case using avl_size_children [of n d] by simp
next
  case (3 d n f st)
  then show ?case using avl_size_children [of n d] by simp
next
  case (4 d n f st)
  then show ?case using avl_size_children [of n d] by simp
qed simp

declare avl_get_next.simps(2) [simp del]

definition AVLGetNextNode :: "'p avlenumdata \<Rightarrow> ('p avl \<times> 'p avlenumdata) res" where
  "AVLGetNextNode e =
     bind_res (avl_get_next (fFromLeft e) (aEntries e))
       (\<lambda>(n, st). Inr (n, e\<lparr>aEntries := st\<rparr>))"

definition AVLBeginEnumTree ::
  "'p avl \<Rightarrow> 'p avlenumdata \<Rightarrow> bool \<Rightarrow> ('p avl \<times> 'p avlenumdata) res" where
  "AVLBeginEnumTree t e fLeft =
     AVLGetNextNode
       (if t \<noteq> Null then e\<lparr>fFromLeft := fLeft, aEntries := [(t, 0)]\<rparr>
        else e\<lparr>aEntries := []\<rparr>)"

section \<open>The abstract contents and the balance invariant\<close>

fun avl_inorder :: "'p avl \<Rightarrow> ('p \<times> avlkey) list" where
  "avl_inorder Null = []"
| "avl_inorder (Node p k l r h) = avl_inorder l @ (p, k) # avl_inorder r"

definition avl_keys :: "'p avl \<Rightarrow> avlkey list" where
  "avl_keys t = map snd (avl_inorder t)"

fun avl_height :: "'p avl \<Rightarrow> nat" where
  "avl_height Null = 0"
| "avl_height (Node p k l r h) = Suc (max (avl_height l) (avl_height r))"

text \<open>Balanced at every node, and every stored height is the real one.\<close>

fun avl_balanced :: "'p avl \<Rightarrow> bool" where
  "avl_balanced Null = True"
| "avl_balanced (Node p k l r h) =
    (avl_balanced l \<and> avl_balanced r \<and>
     avl_height l \<le> Suc (avl_height r) \<and> avl_height r \<le> Suc (avl_height l) \<and>
     unat h = Suc (max (avl_height l) (avl_height r)))"

definition avl_wf :: "'p avl \<Rightarrow> bool" where
  "avl_wf t \<longleftrightarrow> avl_balanced t \<and> sorted (avl_keys t)"

lemma avl_inorder_Nil [simp]: "avl_inorder t = [] \<longleftrightarrow> t = Null"
  by (cases t) auto

lemma avl_keys_simps [simp]:
  "avl_keys Null = []"
  "avl_keys (Node p k l r h) = avl_keys l @ k # avl_keys r"
  by (simp_all add: avl_keys_def)

lemma avl_keys_Nil [simp]: "avl_keys t = [] \<longleftrightarrow> t = Null"
  by (cases t) auto

lemma length_avl_inorder: "length (avl_inorder t) = avl_size t"
  by (induction t) auto

lemma avl_height_0 [simp]: "avl_height t = 0 \<longleftrightarrow> t = Null"
  by (cases t) auto

lemma avl_balanced_heightof [simp]:
  "avl_balanced t \<Longrightarrow> unat (AVL_HEIGHTOF t) = avl_height t"
  by (cases t) auto

lemma avl_balanced_height_bound: "avl_balanced t \<Longrightarrow> avl_height t < 256"
proof (cases t)
  case (Node p k l r h)
  assume "avl_balanced t"
  with Node have "avl_height t = unat h" by simp
  then show ?thesis using unsigned_less [of h] by simp
qed simp

section \<open>Rebalancing keeps order and restores balance\<close>

lemma avl_inorder_rebalance_node [simp]:
  "avl_inorder (fst (avl_rebalance_node t)) = avl_inorder t"
  by (cases t) (auto simp: Let_def split: avl.splits)

fun frame_before :: "'p frame \<Rightarrow> ('p \<times> avlkey) list" where
  "frame_before (InLeft p k r h) = []"
| "frame_before (InRight p k l h) = avl_inorder l @ [(p, k)]"

fun frame_after :: "'p frame \<Rightarrow> ('p \<times> avlkey) list" where
  "frame_after (InLeft p k r h) = (p, k) # avl_inorder r"
| "frame_after (InRight p k l h) = []"

fun path_before :: "'p frame list \<Rightarrow> ('p \<times> avlkey) list" where
  "path_before [] = []"
| "path_before (f # fs) = path_before fs @ frame_before f"

fun path_after :: "'p frame list \<Rightarrow> ('p \<times> avlkey) list" where
  "path_after [] = []"
| "path_after (f # fs) = frame_after f @ path_after fs"

lemma avl_inorder_plug: "avl_inorder (avl_plug f t) = frame_before f @ avl_inorder t @ frame_after f"
  by (cases f) auto

lemma avl_inorder_plug_all:
  "avl_inorder (avl_plug_all fs t) = path_before fs @ avl_inorder t @ path_after fs"
  by (induction fs arbitrary: t) (auto simp: avl_inorder_plug)

lemma avl_inorder_AVLRebalance:
  "avl_inorder (AVLRebalance fs t) = path_before fs @ avl_inorder t @ path_after fs"
proof (induction fs arbitrary: t)
  case (Cons f fs)
  have "avl_inorder (fst (avl_rebalance_node (avl_plug f t)))
    = frame_before f @ avl_inorder t @ frame_after f"
    by (simp add: avl_inorder_plug)
  then show ?case
    using Cons.IH
    by (cases "avl_rebalance_node (avl_plug f t)"; cases "snd (avl_rebalance_node (avl_plug f t))")
       (auto simp: avl_inorder_plug_all)
qed simp

named_theorems avl_ht \<open>stored heights read as the real ones\<close>

lemma heightof_le [avl_ht]:
  "avl_balanced a \<Longrightarrow> avl_balanced b \<Longrightarrow> AVL_HEIGHTOF a \<le> AVL_HEIGHTOF b \<longleftrightarrow> avl_height a \<le> avl_height b"
  by (simp add: word_le_nat_alt)

lemma unat_one_heightof [avl_ht]:
  "avl_balanced t \<Longrightarrow> avl_height t < 255 \<Longrightarrow> unat (1 + AVL_HEIGHTOF t) = Suc (avl_height t)"
  by (simp add: unat_plus_one_uchar)

lemma unat_two_heightof [avl_ht]:
  "avl_balanced t \<Longrightarrow> avl_height t < 254 \<Longrightarrow> unat (2 + AVL_HEIGHTOF t) = Suc (Suc (avl_height t))"
  by (simp add: unat_word_ariths)

lemma unat_max_heightof [avl_ht]:
  "avl_balanced l \<Longrightarrow> avl_balanced r \<Longrightarrow> max (avl_height l) (avl_height r) < 255 \<Longrightarrow>
   unat (max (AVL_HEIGHTOF l) (AVL_HEIGHTOF r) + 1) = Suc (max (avl_height l) (avl_height r))"
  by (simp add: unat_plus_one_uchar unat_max_word add.commute)

text \<open>What one round of the loop achieves on a node whose subtrees are at most two apart.\<close>

definition avl_fixed :: "'p avl \<Rightarrow> 'p avl \<Rightarrow> uchar \<Rightarrow> 'p avl \<times> bool \<Rightarrow> bool" where
  "avl_fixed l r h res \<longleftrightarrow>
     avl_balanced (fst res) \<and>
     max (avl_height l) (avl_height r) \<le> avl_height (fst res) \<and>
     avl_height (fst res) \<le> Suc (max (avl_height l) (avl_height r)) \<and>
     (avl_height l \<le> Suc (avl_height r) \<and> avl_height r \<le> Suc (avl_height l) \<longrightarrow>
      avl_height (fst res) = Suc (max (avl_height l) (avl_height r))) \<and>
     (snd res \<longrightarrow> unat h = avl_height (fst res))"

lemma rebalance_left_heavy:
  assumes "avl_balanced l" "avl_balanced r" "avl_height l = avl_height r + 2" "avl_height l < 250"
  shows "avl_fixed l r h (avl_rebalance_node (Node p k l r h))"
proof (cases l)
  case (Node lp lk ll lr lh)
  show ?thesis
  proof (cases "avl_height lr \<le> avl_height ll")
    case True
    then show ?thesis using assms Node by (auto simp: avl_fixed_def avl_ht Let_def)
  next
    case False
    then obtain lrp lrk lrl lrr lrh where "lr = Node lrp lrk lrl lrr lrh" by (cases lr) auto
    then show ?thesis using False assms Node
      by (auto simp: avl_fixed_def heightof_le Let_def word_le_nat_alt)
  qed
qed (use assms in auto)

lemma rebalance_right_heavy:
  assumes "avl_balanced l" "avl_balanced r" "avl_height r = avl_height l + 2" "avl_height r < 250"
  shows "avl_fixed l r h (avl_rebalance_node (Node p k l r h))"
proof (cases r)
  case (Node rp rk rl rr rh)
  show ?thesis
  proof (cases "avl_height rl \<le> avl_height rr")
    case True
    then show ?thesis using assms Node by (auto simp: avl_fixed_def avl_ht Let_def)
  next
    case False
    then obtain rlp rlk rll rlr rlh where "rl = Node rlp rlk rll rlr rlh" by (cases rl) auto
    then show ?thesis using False assms Node
      by (auto simp: avl_fixed_def heightof_le Let_def word_le_nat_alt)
  qed
qed (use assms in auto)

lemma rebalance_even:
  assumes "avl_balanced l" "avl_balanced r"
    "avl_height l \<le> Suc (avl_height r)" "avl_height r \<le> Suc (avl_height l)"
    "max (avl_height l) (avl_height r) < 250"
  shows "avl_fixed l r h (avl_rebalance_node (Node p k l r h))"
  using assms unat_max_heightof [of l r] 
  by (auto simp: avl_fixed_def Let_def)

lemma avl_rebalance_node_fixed:
  assumes "avl_balanced l" "avl_balanced r"
    "avl_height l \<le> avl_height r + 2" "avl_height r \<le> avl_height l + 2"
    "max (avl_height l) (avl_height r) < 250"
  shows "avl_fixed l r h (avl_rebalance_node (Node p k l r h))"
proof -
  consider "avl_height l = avl_height r + 2" | "avl_height r = avl_height l + 2"
    | "avl_height l \<le> Suc (avl_height r)" "avl_height r \<le> Suc (avl_height l)"
    using assms by linarith
  then show ?thesis
    by cases (rule rebalance_left_heavy rebalance_right_heavy rebalance_even; use assms in simp)+
qed

declare avl_rebalance_node.simps(2) [simp del]

lemma AVLRebalance_Cons:
  "AVLRebalance (f # fs) t =
     (let n = avl_rebalance_node (avl_plug f t)
      in if snd n then avl_plug_all fs (fst n) else AVLRebalance fs (fst n))"
  by (cases "avl_rebalance_node (avl_plug f t)"; cases "snd (avl_rebalance_node (avl_plug f t))") auto

declare AVLRebalance.simps(2) [simp del]

lemma avl_height_plug_mono: "avl_height t \<le> avl_height (avl_plug f t)"
  by (cases f) auto

lemma avl_height_plug_all_mono: "avl_height t \<le> avl_height (avl_plug_all fs t)"
proof (induction fs arbitrary: t)
  case (Cons f fs)
  have "avl_height t \<le> avl_height (avl_plug f t)" by (rule avl_height_plug_mono)
  also have "\<dots> \<le> avl_height (avl_plug_all fs (avl_plug f t))" by (rule Cons.IH)
  finally show ?case by simp
qed simp

lemma avl_balanced_plug_all: "avl_balanced (avl_plug_all fs t) \<Longrightarrow> avl_balanced t"
proof (induction fs arbitrary: t)
  case (Cons f fs)
  then have "avl_balanced (avl_plug f t)" by simp
  then show ?case by (cases f) auto
qed simp

text \<open>A child that changed height by at most one in a balanced node leaves the node's two
  subtrees within two of each other.\<close>

lemma avl_rebalance_plug:
  assumes "avl_balanced (avl_plug f t0)" "avl_balanced t"
    "avl_height t \<le> Suc (avl_height t0)" "avl_height t0 \<le> Suc (avl_height t)"
    "avl_height (avl_plug f t0) < 240"
  shows "avl_balanced (fst (avl_rebalance_node (avl_plug f t)))"
    and "avl_height (fst (avl_rebalance_node (avl_plug f t))) \<le> Suc (avl_height (avl_plug f t0))"
    and "avl_height (avl_plug f t0) \<le> Suc (avl_height (fst (avl_rebalance_node (avl_plug f t))))"
    and "snd (avl_rebalance_node (avl_plug f t)) \<Longrightarrow>
         avl_height (fst (avl_rebalance_node (avl_plug f t))) = avl_height (avl_plug f t0)"
proof -
  obtain p k l r h where f: "avl_plug f t = Node p k l r h" by (cases f) auto
  have "avl_fixed l r h (avl_rebalance_node (Node p k l r h))"
    using assms f by (intro avl_rebalance_node_fixed) (cases f; auto)+
  then have "avl_balanced (fst (avl_rebalance_node (avl_plug f t))) \<and>
    avl_height (fst (avl_rebalance_node (avl_plug f t))) \<le> Suc (avl_height (avl_plug f t0)) \<and>
    avl_height (avl_plug f t0) \<le> Suc (avl_height (fst (avl_rebalance_node (avl_plug f t)))) \<and>
    (snd (avl_rebalance_node (avl_plug f t)) \<longrightarrow>
         avl_height (fst (avl_rebalance_node (avl_plug f t))) = avl_height (avl_plug f t0))"
    using assms f unfolding avl_fixed_def by (cases f) auto
  then show "avl_balanced (fst (avl_rebalance_node (avl_plug f t)))"
    and "avl_height (fst (avl_rebalance_node (avl_plug f t))) \<le> Suc (avl_height (avl_plug f t0))"
    and "avl_height (avl_plug f t0) \<le> Suc (avl_height (fst (avl_rebalance_node (avl_plug f t))))"
    and "snd (avl_rebalance_node (avl_plug f t)) \<Longrightarrow>
         avl_height (fst (avl_rebalance_node (avl_plug f t))) = avl_height (avl_plug f t0)"
    by blast+
qed

lemma avl_plug_all_replace:
  assumes "avl_balanced (avl_plug_all fs t0)" "avl_balanced t" "avl_height t = avl_height t0"
  shows "avl_balanced (avl_plug_all fs t) \<and> avl_height (avl_plug_all fs t) = avl_height (avl_plug_all fs t0)"
  using assms
proof (induction fs arbitrary: t t0)
  case (Cons f fs)
  have "avl_balanced (avl_plug f t0)" using Cons.prems(1) avl_balanced_plug_all by fastforce
  then have "avl_balanced (avl_plug f t) \<and> avl_height (avl_plug f t) = avl_height (avl_plug f t0)"
    using Cons.prems(2,3) by (cases f) auto
  then show ?case using Cons.IH [of "avl_plug f t0" "avl_plug f t"] Cons.prems by simp
qed simp

lemma AVLRebalance_balanced:
  assumes "avl_balanced (avl_plug_all fs t0)" "avl_balanced t"
    "avl_height t \<le> Suc (avl_height t0)" "avl_height t0 \<le> Suc (avl_height t)"
    "avl_height (avl_plug_all fs t0) < 240"
  shows "avl_balanced (AVLRebalance fs t) \<and>
    avl_height (AVLRebalance fs t) \<le> Suc (avl_height (avl_plug_all fs t0)) \<and>
    avl_height (avl_plug_all fs t0) \<le> Suc (avl_height (AVLRebalance fs t))"
  using assms
proof (induction fs arbitrary: t t0)
  case (Cons f fs)
  let ?n = "avl_rebalance_node (avl_plug f t)"
  have bal: "avl_balanced (avl_plug f t0)"
    using Cons.prems(1) avl_balanced_plug_all by fastforce
  have ht: "avl_height (avl_plug f t0) < 240"
    using Cons.prems(5) avl_height_plug_all_mono [of "avl_plug f t0" fs] by simp
  note step = avl_rebalance_plug [OF bal Cons.prems(2-4) ht]
  show ?case
  proof (cases "snd ?n")
    case True
    then have "AVLRebalance (f # fs) t = avl_plug_all fs (fst ?n)"
      by (simp add: AVLRebalance_Cons Let_def)
    then show ?thesis
      using avl_plug_all_replace [of fs "avl_plug f t0" "fst ?n"] step True Cons.prems by simp
  next
    case False
    then have "AVLRebalance (f # fs) t = AVLRebalance fs (fst ?n)"
      by (simp add: AVLRebalance_Cons Let_def)
    then show ?thesis
      using Cons.IH [of "avl_plug f t0" "fst ?n"] step Cons.prems by simp
  qed
qed simp

end
