(* ===== verification/AvlCorrect.thy ===== *)
theory AvlCorrect
  imports Avl
begin

text \<open>
  Correctness of \<open>AVLInsert\<close> and \<open>AVLRemove\<close>: the search paths end where the key belongs,
  rebalancing along them restores the invariant, no operation faults while the tree has
  fewer than 17710 nodes, and a tree of 17710 nodes exists on which the insertion does.
\<close>

section \<open>The search paths\<close>

lemma avl_plug_all_append: "avl_plug_all (xs @ ys) t = avl_plug_all ys (avl_plug_all xs t)"
  by (induction xs arbitrary: t) auto

lemma path_before_append: "path_before (xs @ ys) = path_before ys @ path_before xs"
  by (induction xs) auto

lemma path_after_append: "path_after (xs @ ys) = path_after xs @ path_after ys"
  by (induction xs) auto

lemma avl_height_pos [simp]: "0 < avl_height t \<longleftrightarrow> t \<noteq> Null"
  by (cases t) auto

lemmas path_append = avl_plug_all_append path_before_append path_after_append

lemma set_avl_keys: "set (avl_keys t) = snd ` set (avl_inorder t)"
  by (simp add: avl_keys_def)

lemma avl_insert_path_frames:
  "avl_insert_path Ky st t = Inr st' \<Longrightarrow>
   \<exists>new. st' = new @ st \<and> avl_plug_all new Null = t \<and>
     (sorted (avl_keys t) \<longrightarrow> (\<forall>x\<in>set (path_before new). snd x \<le> Ky) \<and>
        (\<forall>x\<in>set (path_after new). Ky < snd x))"
proof (induction Ky st t rule: avl_insert_path.induct)
  case (2 Ky st p k l r h)
  show ?case
  proof (cases "Ky < k")
    case True
    with "2.prems" have len: "length st < AVL_MAX_HEIGHT"
      and "avl_insert_path Ky (InLeft p k r h # st) l = Inr st'" by (auto split: if_splits)
    then obtain new where "st' = new @ InLeft p k r h # st" "avl_plug_all new Null = l"
      "sorted (avl_keys l) \<longrightarrow> (\<forall>x\<in>set (path_before new). snd x \<le> Ky) \<and>
        (\<forall>x\<in>set (path_after new). Ky < snd x)"
      using "2.IH"(1) True by blast
    then show ?thesis using True
      by (intro exI [of _ "new @ [InLeft p k r h]"])
         (force simp: path_append sorted_append set_avl_keys)
  next
    case False
    with "2.prems" have len: "length st < AVL_MAX_HEIGHT"
      and "avl_insert_path Ky (InRight p k l h # st) r = Inr st'" by (auto split: if_splits)
    then obtain new where "st' = new @ InRight p k l h # st" "avl_plug_all new Null = r"
      "sorted (avl_keys r) \<longrightarrow> (\<forall>x\<in>set (path_before new). snd x \<le> Ky) \<and>
        (\<forall>x\<in>set (path_after new). Ky < snd x)"
      using "2.IH"(2) False by blast
    then show ?thesis using False
      by (intro exI [of _ "new @ [InRight p k l h]"])
         (force simp: path_append sorted_append set_avl_keys)
  qed
qed simp

lemma avl_insert_path_total:
  "length st + avl_height t \<le> AVL_MAX_HEIGHT \<Longrightarrow> \<exists>st'. avl_insert_path Ky st t = Inr st'"
  by (induction Ky st t rule: avl_insert_path.induct) auto

lemma avl_remove_path_frames:
  "avl_remove_path Ky st t = Inr (st', d) \<Longrightarrow>
   \<exists>new. st' = new @ st \<and> avl_plug_all new d = t \<and> (d \<noteq> Null \<longrightarrow> Key d = Ky) \<and>
     length st' + avl_height d \<le> length st + avl_height t \<and>
     (d = Null \<longrightarrow> sorted (avl_keys t) \<longrightarrow> Ky \<notin> set (avl_keys t))"
proof (induction Ky st t rule: avl_remove_path.induct)
  case (2 Ky st p k l r h)
  from "2.prems" have len: "length st < AVL_MAX_HEIGHT" by (auto split: if_splits)
  consider "k = Ky" | "Ky < k" "k \<noteq> Ky" | "k < Ky" "k \<noteq> Ky" "\<not> Ky < k" by force
  then show ?case
  proof cases
    case 1
    then show ?thesis using "2.prems" len by auto
  next
    case 2
    with "2.prems" len have "avl_remove_path Ky (InLeft p k r h # st) l = Inr (st', d)" by auto
    then obtain new where "st' = new @ InLeft p k r h # st" "avl_plug_all new d = l"
      "d \<noteq> Null \<longrightarrow> Key d = Ky" "length st' + avl_height d \<le> Suc (length st) + avl_height l"
      "d = Null \<longrightarrow> sorted (avl_keys l) \<longrightarrow> Ky \<notin> set (avl_keys l)"
      using "2.IH"(1) len 2 by fastforce
    then show ?thesis using 2
      by (intro exI [of _ "new @ [InLeft p k r h]"]) (auto simp: path_append sorted_append)
  next
    case 3
    with "2.prems" len have "avl_remove_path Ky (InRight p k l h # st) r = Inr (st', d)" by auto
    then obtain new where "st' = new @ InRight p k l h # st" "avl_plug_all new d = r"
      "d \<noteq> Null \<longrightarrow> Key d = Ky" "length st' + avl_height d \<le> Suc (length st) + avl_height r"
      "d = Null \<longrightarrow> sorted (avl_keys r) \<longrightarrow> Ky \<notin> set (avl_keys r)"
      using "2.IH"(2) len 3 by fastforce
    then show ?thesis using 3
      by (intro exI [of _ "new @ [InRight p k l h]"]) (auto simp: path_append sorted_append)
  qed
qed auto

lemma avl_remove_path_total:
  "length st + avl_height t \<le> AVL_MAX_HEIGHT \<Longrightarrow> \<exists>st' d. avl_remove_path Ky st t = Inr (st', d)"
  by (induction Ky st t rule: avl_remove_path.induct) auto

lemma avl_spine_path_frames:
  "avl_spine_path n st t = Inr (sp, m) \<Longrightarrow>
   \<exists>new mp mk ml mh. sp = new @ st \<and> m = Node mp mk ml Null mh \<and> avl_plug_all new m = t \<and>
     path_after new = []"
proof (induction n st t rule: avl_spine_path.induct)
  case (2 n st p k l r h)
  show ?case
  proof (cases "r = Null")
    case True
    then show ?thesis using "2.prems" by (auto intro!: exI [of _ "[]"])
  next
    case False
    with "2.prems" have "n + length st < AVL_MAX_HEIGHT"
      "avl_spine_path n (InRight p k l h # st) r = Inr (sp, m)" by (auto split: if_splits)
    then obtain new mp mk ml mh where "sp = new @ InRight p k l h # st" "m = Node mp mk ml Null mh"
      "avl_plug_all new m = r" "path_after new = []" using "2.IH" False by blast
    then show ?thesis
      by (intro exI [of _ "new @ [InRight p k l h]"] exI) (auto simp: path_append)
  qed
qed simp

lemma avl_spine_path_total:
  "t \<noteq> Null \<Longrightarrow> n + length st + avl_height t \<le> AVL_MAX_HEIGHT \<Longrightarrow>
   \<exists>sp m. avl_spine_path n st t = Inr (sp, m)"
proof (induction n st t rule: avl_spine_path.induct)
  case (2 n st p k l r h)
  show ?case
  proof (cases "r = Null")
    case False
    then have "0 < avl_height r" by simp
    then have "n + length st < AVL_MAX_HEIGHT" using "2.prems"(2) by simp
    then show ?thesis using "2.IH" "2.prems" False by simp
  qed simp
qed simp

section \<open>Correctness of insertion and removal\<close>

lemma filter_split:
  "\<forall>x\<in>set xs. P x \<Longrightarrow> \<forall>x\<in>set ys. \<not> P x \<Longrightarrow>
   filter P (xs @ ys) = xs \<and> filter (\<lambda>x. \<not> P x) (xs @ ys) = ys"
  by (auto simp: filter_empty_conv filter_id_conv)

lemma AVLInsert_ok:
  assumes "avl_wf t" "avl_height t \<le> AVL_MAX_HEIGHT"
  obtains t' where "AVLInsert t p Ky = Inr (t', True)" "avl_wf t'"
    "avl_inorder t' = filter (\<lambda>x. snd x \<le> Ky) (avl_inorder t) @ (p, Ky) #
                      filter (\<lambda>x. \<not> snd x \<le> Ky) (avl_inorder t)"
    "avl_height t' \<le> Suc (avl_height t)"
proof -
  obtain st where st: "avl_insert_path Ky [] t = Inr st"
    using avl_insert_path_total [of "[]" t Ky] assms by auto
  then obtain "avl_plug_all st Null = t" and before: "\<forall>x\<in>set (path_before st). snd x \<le> Ky"
    and after: "\<forall>x\<in>set (path_after st). Ky < snd x"
    using avl_insert_path_frames [OF st] assms(1) by (auto simp: avl_wf_def)
  note plug = \<open>avl_plug_all st Null = t\<close>
  let ?t' = "AVLRebalance st (Node p Ky Null Null 1)"
  have io: "avl_inorder t = path_before st @ path_after st"
    using avl_inorder_plug_all [of st Null] plug by simp
  have split: "filter (\<lambda>x. snd x \<le> Ky) (avl_inorder t) = path_before st \<and>
      filter (\<lambda>x. \<not> snd x \<le> Ky) (avl_inorder t) = path_after st"
    unfolding io using before after by (intro filter_split) (auto simp: not_le)
  have io': "avl_inorder ?t' = path_before st @ (p, Ky) # path_after st"
    by (simp add: avl_inorder_AVLRebalance)
  have bal: "avl_balanced ?t' \<and> avl_height ?t' \<le> Suc (avl_height t)"
    using AVLRebalance_balanced [of st Null "Node p Ky Null Null 1"] plug assms
    by (auto simp: avl_wf_def AVL_MAX_HEIGHT_def)
  have "sorted (avl_keys ?t')"
    using assms(1) before after io io'
    by (auto simp: avl_wf_def avl_keys_def sorted_append)
  then show thesis
    using st bal io' split by (intro that [of ?t']) (auto simp: AVLInsert_def avl_wf_def)
qed

lemma AVLRemove_notfound:
  assumes "avl_wf t" "avl_height t \<le> AVL_MAX_HEIGHT" "Ky \<notin> set (avl_keys t)"
  shows "AVLRemove t Ky = Inr (t, None)"
proof -
  obtain st d where p: "avl_remove_path Ky [] t = Inr (st, d)"
    using avl_remove_path_total [of "[]" t Ky] assms by auto
  have plug: "avl_plug_all st d = t" and key: "d \<noteq> Null \<longrightarrow> Key d = Ky"
    using avl_remove_path_frames [OF p] by auto
  have "d = Null"
  proof (rule ccontr)
    assume "d \<noteq> Null"
    then obtain dp dl dr dh where "d = Node dp Ky dl dr dh" using key by (cases d) auto
    then have "Ky \<in> set (avl_keys t)"
      unfolding avl_keys_def plug [symmetric] avl_inorder_plug_all by simp
    with assms(3) show False by simp
  qed
  then show ?thesis using p by (simp add: AVLRemove_def)
qed

lemma AVLRemove_found:
  assumes "avl_wf t" "avl_height t \<le> AVL_MAX_HEIGHT" "Ky \<in> set (avl_keys t)"
  obtains t' p xs ys where "AVLRemove t Ky = Inr (t', Some p)" "avl_wf t'"
    "avl_inorder t = xs @ (p, Ky) # ys" "avl_inorder t' = xs @ ys"
    "avl_height t' \<le> Suc (avl_height t)"
proof -
  obtain st d where p: "avl_remove_path Ky [] t = Inr (st, d)"
    using avl_remove_path_total [of "[]" t Ky] assms by auto
  have plug: "avl_plug_all st d = t" and key: "d \<noteq> Null \<longrightarrow> Key d = Ky"
    and len: "length st + avl_height d \<le> AVL_MAX_HEIGHT" and nn: "d \<noteq> Null"
    using avl_remove_path_frames [OF p] assms by (auto simp: avl_wf_def)
  then obtain dp dl dr dh where d: "d = Node dp Ky dl dr dh" by (cases d) auto
  have bt: "avl_balanced (avl_plug_all st d)" and ht: "avl_height (avl_plug_all st d) < 240"
    using assms plug by (auto simp: avl_wf_def AVL_MAX_HEIGHT_def)
  have bd: "avl_balanced d" using bt avl_balanced_plug_all by blast
  let ?xs = "path_before st @ avl_inorder dl" and ?ys = "avl_inorder dr @ path_after st"
  have io: "avl_inorder t = ?xs @ (dp, Ky) # ?ys"
    using avl_inorder_plug_all [of st d] plug d by simp
  have sorted: "sorted (map snd (?xs @ ?ys))"
    using assms(1) io by (auto simp: avl_wf_def avl_keys_def sorted_append)
  have "\<exists>t'. AVLRemove t Ky = Inr (t', Some dp) \<and> avl_balanced t' \<and> avl_inorder t' = ?xs @ ?ys \<and>
      avl_height t' \<le> Suc (avl_height t)"
  proof (cases "dl = Null")
    case True
    then have "AVLRemove t Ky = Inr (AVLRebalance st dr, Some dp)"
      using p d by (simp add: AVLRemove_def)
    moreover have "avl_balanced (AVLRebalance st dr) \<and>
        avl_height (AVLRebalance st dr) \<le> Suc (avl_height t)"
      using AVLRebalance_balanced [of st d dr] bt ht bd d True plug by auto
    ultimately show ?thesis using True by (simp add: avl_inorder_AVLRebalance)
  next
    case False
    then have pos: "1 \<le> avl_height dl" by (cases dl) auto
    have bnd: "length st + 1 + avl_height dl \<le> AVL_MAX_HEIGHT" using len d by simp
    obtain sp m where sp: "avl_spine_path (length st + 1) [] dl = Inr (sp, m)"
      using avl_spine_path_total [OF False, of "length st + 1" "[]"] bnd by auto
    obtain mp mk ml mh where m: "m = Node mp mk ml Null mh" and pm: "avl_plug_all sp m = dl"
      and pa: "path_after sp = []"
      using avl_spine_path_frames [OF sp] by auto
    let ?st = "sp @ InLeft mp mk dr dh # st"
    have "length st + 1 < AVL_MAX_HEIGHT" using bnd pos by linarith
    then have rm: "AVLRemove t Ky = Inr (AVLRebalance ?st ml, Some dp)"
      using p d False sp m by (simp add: AVLRemove_def)
    have "avl_plug_all ?st m = avl_plug_all st (Node mp mk dl dr dh)"
      using pm by (simp add: path_append)
    moreover have "avl_balanced (Node mp mk dl dr dh)" "avl_height (Node mp mk dl dr dh) = avl_height d"
      using bd d by auto
    ultimately have b2: "avl_balanced (avl_plug_all ?st m)"
      "avl_height (avl_plug_all ?st m) = avl_height t"
      using avl_plug_all_replace [OF bt] plug by auto
    have "avl_balanced m" using b2(1) avl_balanced_plug_all by blast
    then have "avl_balanced (AVLRebalance ?st ml) \<and>
        avl_height (AVLRebalance ?st ml) \<le> Suc (avl_height t)"
      using AVLRebalance_balanced [of ?st m ml] b2 m ht plug by auto
    moreover have "avl_inorder dl = path_before sp @ avl_inorder ml @ [(mp, mk)]"
      using pm avl_inorder_plug_all [of sp m] m pa by simp
    ultimately show ?thesis using rm pa
      by (simp add: avl_inorder_AVLRebalance path_append)
  qed
  then obtain t' where t': "AVLRemove t Ky = Inr (t', Some dp)" "avl_balanced t'"
    "avl_inorder t' = ?xs @ ?ys" "avl_height t' \<le> Suc (avl_height t)" by blast
  moreover have "avl_wf t'" using t' sorted by (simp add: avl_wf_def avl_keys_def)
  ultimately show thesis using io by (intro that [of t' dp ?xs ?ys]) auto
qed

section \<open>How many nodes the fixed stacks are good for\<close>

text \<open>The fewest nodes of a balanced tree of a given height.\<close>

fun avl_min_nodes :: "nat \<Rightarrow> nat" where
  "avl_min_nodes 0 = 0"
| "avl_min_nodes (Suc 0) = 1"
| "avl_min_nodes (Suc (Suc n)) = avl_min_nodes n + avl_min_nodes (Suc n) + 1"

lemma avl_min_nodes_Suc: "avl_min_nodes n \<le> avl_min_nodes (Suc n)"
  by (induction n rule: avl_min_nodes.induct) auto

lemma avl_min_nodes_mono: "m \<le> n \<Longrightarrow> avl_min_nodes m \<le> avl_min_nodes n"
  by (rule lift_Suc_mono_le [where f = avl_min_nodes]) (rule avl_min_nodes_Suc)

lemma avl_min_nodes_step5:
  "avl_min_nodes (n + 5) = 3 * avl_min_nodes n + 5 * avl_min_nodes (n + 1) + 7"
  "avl_min_nodes (n + 6) = 5 * avl_min_nodes n + 8 * avl_min_nodes (n + 1) + 12"
  by (simp_all add: eval_nat_numeral)

lemma avl_min_nodes_20: "avl_min_nodes 20 = 17710"
proof -
  have 5: "avl_min_nodes 5 = 12" "avl_min_nodes 6 = 20"
    using avl_min_nodes_step5 [of 0] by simp_all
  have 10: "avl_min_nodes 10 = 143" "avl_min_nodes 11 = 232"
    using avl_min_nodes_step5 [of 5] 5 by simp_all
  have 15: "avl_min_nodes 15 = 1596" "avl_min_nodes 16 = 2583"
    using avl_min_nodes_step5 [of 10] 10 by simp_all
  show ?thesis using avl_min_nodes_step5 [of 15] 15 by simp
qed

lemma avl_min_nodes_size: "avl_balanced t \<Longrightarrow> avl_min_nodes (avl_height t) \<le> avl_size t"
proof (induction t)
  case (Node p k l r h)
  let ?m = "max (avl_height l) (avl_height r)"
  have IH: "avl_min_nodes (avl_height l) \<le> avl_size l" "avl_min_nodes (avl_height r) \<le> avl_size r"
    using Node by auto
  have "avl_min_nodes (Suc ?m) \<le> avl_size l + avl_size r + 1"
  proof (cases ?m)
    case (Suc m)
    have "m \<le> avl_height l \<and> Suc m = avl_height r \<or> Suc m = avl_height l \<and> m \<le> avl_height r"
      using Suc Node.prems by auto
    then show ?thesis
      using IH avl_min_nodes_mono [of m "avl_height l"] avl_min_nodes_mono [of m "avl_height r"] Suc
      by auto
  qed simp
  then show ?case by simp
qed simp

lemma avl_size_height:
  assumes "avl_balanced t" "avl_size t < 17710"
  shows "avl_height t \<le> AVL_MAX_HEIGHT"
proof (rule ccontr)
  assume "\<not> ?thesis"
  then have "avl_min_nodes 20 \<le> avl_min_nodes (avl_height t)"
    by (intro avl_min_nodes_mono) (simp add: AVL_MAX_HEIGHT_def)
  with avl_min_nodes_size [OF assms(1)] assms(2) avl_min_nodes_20 show False by simp
qed

section \<open>Runs of operations\<close>

datatype 'p avl_op = OpInsert 'p avlkey | OpRemove avlkey

fun avl_run :: "'p avl \<Rightarrow> 'p avl_op list \<Rightarrow> 'p avl res" where
  "avl_run t [] = Inr t"
| "avl_run t (OpInsert p k # ops) = bind_res (AVLInsert t p k) (\<lambda>(t', b). avl_run t' ops)"
| "avl_run t (OpRemove k # ops) = bind_res (AVLRemove t k) (\<lambda>(t', q). avl_run t' ops)"

fun avl_run_balance :: "'p avl_op list \<Rightarrow> nat" where
  "avl_run_balance [] = 0"
| "avl_run_balance (OpInsert p k # ops) = Suc (avl_run_balance ops)"
| "avl_run_balance (OpRemove k # ops) = avl_run_balance ops"

lemma avl_run_ok:
  assumes "avl_wf t" "avl_size t + avl_run_balance ops \<le> 17709"
  shows "\<exists>t'. avl_run t ops = Inr t' \<and> avl_wf t' \<and> avl_size t' \<le> avl_size t + avl_run_balance ops"
  using assms
proof (induction t ops rule: avl_run.induct)
  case (1 t)
  then show ?case by simp
next
  case (2 t p k ops)
  have "avl_height t \<le> AVL_MAX_HEIGHT"
    using 2 by (intro avl_size_height) (auto simp: avl_wf_def)
  then obtain t' where t': "AVLInsert t p k = Inr (t', True)" "avl_wf t'"
    "avl_inorder t' = filter (\<lambda>x. snd x \<le> k) (avl_inorder t) @ (p, k) #
       filter (\<lambda>x. \<not> snd x \<le> k) (avl_inorder t)"
    using AVLInsert_ok [OF "2.prems"(1)] by metis
  have "length (avl_inorder t') = Suc (length (avl_inorder t))"
    unfolding t'(3) using sum_length_filter_compl [of "\<lambda>x. snd x \<le> k" "avl_inorder t"] by simp
  then have "avl_size t' = Suc (avl_size t)" by (simp add: length_avl_inorder)
  moreover have "\<exists>t''. avl_run t' ops = Inr t'' \<and> avl_wf t'' \<and>
      avl_size t'' \<le> avl_size t' + avl_run_balance ops"
    using "2.IH" [of t'] "2.prems"(2) t'(2) calculation by simp
  ultimately show ?case using t'(1) by simp
next
  case (3 t k ops)
  have ht: "avl_height t \<le> AVL_MAX_HEIGHT"
    using 3 by (intro avl_size_height) (auto simp: avl_wf_def)
  have "\<exists>t' q. AVLRemove t k = Inr (t', q) \<and> avl_wf t' \<and> avl_size t' \<le> avl_size t"
  proof (cases "k \<in> set (avl_keys t)")
    case True
    then obtain t' p xs ys where "AVLRemove t k = Inr (t', Some p)" "avl_wf t'"
      "avl_inorder t = xs @ (p, k) # ys" "avl_inorder t' = xs @ ys"
      using AVLRemove_found [OF "3.prems"(1) ht] by metis
    then show ?thesis by (auto simp flip: length_avl_inorder)
  next
    case False
    then show ?thesis using AVLRemove_notfound [OF "3.prems"(1) ht] 3 by simp
  qed
  then obtain t' q where t': "AVLRemove t k = Inr (t', q)" "avl_wf t'" "avl_size t' \<le> avl_size t"
    by blast
  then have "avl_size t' + avl_run_balance ops \<le> 17709" using "3.prems"(2) by simp
  then show ?case using "3.IH" [of t'] t' by force
qed

section \<open>The sparsest trees, and where the search path overflows\<close>

definition avl_nth_key :: "nat \<Rightarrow> avlkey" where
  "avl_nth_key i = word_of_nat (Suc i)"

lemma unat_avl_nth_key: "Suc i < 2 ^ 32 \<Longrightarrow> unat (avl_nth_key i) = Suc i"
  unfolding avl_nth_key_def by (subst unat_of_nat) simp

definition avl_uch :: "nat \<Rightarrow> uchar" where
  "avl_uch n = word_of_nat n"

lemma unat_avl_uch: "n < 256 \<Longrightarrow> unat (avl_uch n) = n"
  unfolding avl_uch_def by (subst unat_of_nat) simp

text \<open>\<open>avl_sparse n b\<close> has the fewest nodes for height \<open>n\<close>, the taller subtree on the left,
  and the keys \<open>b + 1, b + 2, \<dots>\<close> in order.\<close>

fun avl_sparse :: "nat \<Rightarrow> nat \<Rightarrow> nat avl" where
  "avl_sparse 0 b = Null"
| "avl_sparse (Suc 0) b = Node b (avl_nth_key b) Null Null (avl_uch 1)"
| "avl_sparse (Suc (Suc n)) b =
    (let m = b + avl_min_nodes (Suc n) in
     Node m (avl_nth_key m) (avl_sparse (Suc n) b) (avl_sparse n (m + 1))
       (avl_uch (Suc (Suc n))))"

lemma avl_sparse_height: "avl_height (avl_sparse n b) = n"
  by (induction n b rule: avl_sparse.induct) (auto simp: Let_def)

lemma avl_sparse_size: "avl_size (avl_sparse n b) = avl_min_nodes n"
  by (induction n b rule: avl_sparse.induct) (auto simp: Let_def)

lemma avl_sparse_balanced: "n < 256 \<Longrightarrow> avl_balanced (avl_sparse n b)"
  by (induction n b rule: avl_sparse.induct)
     (auto simp: Let_def avl_sparse_height unat_avl_uch)

lemma avl_sparse_keys:
  "avl_keys (avl_sparse n b) = map avl_nth_key [b ..< b + avl_min_nodes n]"
proof (induction n b rule: avl_sparse.induct)
  case (3 n b)
  let ?m = "b + avl_min_nodes (Suc n)" and ?e = "b + avl_min_nodes (Suc (Suc n))"
  have "[b ..< ?e] = [b ..< ?m] @ [?m ..< ?e]"
    using upt_add_eq_append [of b ?m "avl_min_nodes n + 1"] by (simp add: add_ac)
  also have "[?m ..< ?e] = ?m # [?m + 1 ..< ?m + 1 + avl_min_nodes n]"
    by (simp add: upt_conv_Cons add_ac)
  finally show ?case using 3 by (simp add: Let_def)
qed auto

lemma avl_sparse_sorted:
  assumes "b + avl_min_nodes n < 2 ^ 32"
  shows "sorted (avl_keys (avl_sparse n b))"
proof -
  have "avl_nth_key i \<le> avl_nth_key j" if "i \<le> j" "j < b + avl_min_nodes n" for i j
    using that assms by (simp add: word_le_nat_alt unat_avl_nth_key)
  then show ?thesis
    unfolding avl_sparse_keys sorted_map
    by (intro sorted_wrt_mono_rel [OF _ sorted_upt]) auto
qed

lemma avl_sparse_insert_overflow:
  assumes "length st \<le> AVL_MAX_HEIGHT" "AVL_MAX_HEIGHT < length st + n"
    "b + avl_min_nodes n < 2 ^ 32"
  shows "avl_insert_path 0 st (avl_sparse n b) = Inl Int3"
  using assms
proof (induction n b arbitrary: st rule: avl_sparse.induct)
  case (3 n b)
  let ?m = "b + avl_min_nodes (Suc n)"
  have "0 < avl_nth_key ?m"
    using "3.prems"(3) by (simp add: word_less_nat_alt unat_avl_nth_key)
  then show ?case
    using "3.IH"(1) [OF refl, of "InLeft ?m (avl_nth_key ?m) (avl_sparse n (?m + 1))
      (avl_uch (Suc (Suc n))) # st"] "3.prems"
    by (auto simp: Let_def)
qed auto

lemma avl_sparse_20:
  "avl_wf (avl_sparse 20 0)" "avl_size (avl_sparse 20 0) = 17710"
  "AVLInsert (avl_sparse 20 0) p 0 = Inl Int3"
proof -
  show "avl_wf (avl_sparse 20 0)"
    unfolding avl_wf_def
    by (intro conjI avl_sparse_balanced avl_sparse_sorted) (simp_all add: avl_min_nodes_20)
  show "avl_size (avl_sparse 20 0) = 17710"
    by (simp add: avl_sparse_size avl_min_nodes_20)
  show "AVLInsert (avl_sparse 20 0) p 0 = Inl Int3"
    unfolding AVLInsert_def
    by (subst avl_sparse_insert_overflow) (simp_all add: avl_min_nodes_20 AVL_MAX_HEIGHT_def)
qed

end
