(* ===== verification/AvlQuery.thy ===== *)
theory AvlQuery
  imports AvlCorrect
begin

text \<open>
  Correctness of the lookups and of the two iterators: \<open>AVLGet\<close>, \<open>AVLGetWithParent\<close>,
  \<open>AVLGetBestFit\<close>, \<open>AVLGetWithAdjecentNodes\<close>, \<open>AVLDoWithAll\<close>, \<open>AVLBeginEnumTree\<close> and
  \<open>AVLGetNextNode\<close>.
\<close>


section \<open>Lookups\<close>

text \<open>What a returned node pointer says to the caller: nothing, or an address with its key.\<close>

fun avl_entry :: "'p avl \<Rightarrow> ('p \<times> avlkey) option" where
  "avl_entry Null = None"
| "avl_entry (Node p k l r h) = Some (p, k)"

lemma avl_entry_None [simp]: "avl_entry t = None \<longleftrightarrow> t = Null"
  by (cases t) auto

lemma AVLGet_Null: "sorted (avl_keys t) \<Longrightarrow> AVLGet t Ky = Null \<longleftrightarrow> Ky \<notin> set (avl_keys t)"
proof (induction t)
  case (Node p k l r h)
  consider "Ky = k" | "Ky < k" "Ky \<noteq> k" "k \<noteq> Ky" | "k < Ky" "\<not> Ky < k" "Ky \<noteq> k" "k \<noteq> Ky" by force
  then show ?case
    by cases (use Node in \<open>auto simp: sorted_append\<close>)
qed simp

lemma AVLGet_entry: "AVLGet t Ky = n \<Longrightarrow> n \<noteq> Null \<Longrightarrow> Key n = Ky \<and> avl_entry n = Some (ptr n, Ky) \<and>
   (ptr n, Ky) \<in> set (avl_inorder t)"
  by (induction t) (auto split: if_splits)

lemma avl_get_with_parent_fst: "fst (avl_get_with_parent par t Ky) = AVLGet t Ky"
  by (induction par t Ky rule: avl_get_with_parent.induct) auto

text \<open>\<open>n\<close> is the left or the right child of \<open>par\<close>, on the side of its key.\<close>

definition avl_child_of :: "'p avl \<Rightarrow> 'p avl \<Rightarrow> avlkey \<Rightarrow> bool" where
  "avl_child_of par n Ky \<longleftrightarrow>
     par \<noteq> Null \<and> Key par \<noteq> Ky \<and> n = (if Key par > Ky then pLeft par else pRight par)"

fun avl_nodes :: "bool \<Rightarrow> 'p avl \<Rightarrow> 'p avl list" where
  "avl_nodes d Null = []"
| "avl_nodes d (Node p k l r h) =
    (if d then avl_nodes d l @ Node p k l r h # avl_nodes d r
     else avl_nodes d r @ Node p k l r h # avl_nodes d l)"

lemma avl_nodes_inorder: "map (\<lambda>n. (ptr n, Key n)) (avl_nodes True t) = avl_inorder t"
  by (induction t) auto

lemma avl_nodes_rev: "avl_nodes False t = rev (avl_nodes True t)"
  by (induction t) auto

lemma avl_get_with_parent_child:
  "avl_get_with_parent par0 t Ky = (n, par) \<Longrightarrow>
   (n = t \<and> par = par0) \<or> (avl_child_of par n Ky \<and> par \<in> set (avl_nodes True t))"
  by (induction par0 t Ky rule: avl_get_with_parent.induct)
     (auto simp: avl_child_of_def split: if_splits)

text \<open>\<open>n\<close> is a node of \<open>t\<close> with the least key that is at least \<open>Ky\<close>, or \<open>dflt\<close> when there is
  none; and the mirror image.\<close>

definition avl_least_above :: "'p avl \<Rightarrow> avlkey \<Rightarrow> 'p avl \<Rightarrow> 'p avl \<Rightarrow> bool" where
  "avl_least_above t Ky dflt n \<longleftrightarrow>
     (if \<exists>k\<in>set (avl_keys t). Ky \<le> k
      then n \<in> set (avl_nodes True t) \<and> Ky \<le> Key n \<and> (\<forall>k\<in>set (avl_keys t). Ky \<le> k \<longrightarrow> Key n \<le> k)
      else n = dflt)"

definition avl_greatest_below :: "'p avl \<Rightarrow> avlkey \<Rightarrow> 'p avl \<Rightarrow> 'p avl \<Rightarrow> bool" where
  "avl_greatest_below t Ky dflt n \<longleftrightarrow>
     (if \<exists>k\<in>set (avl_keys t). k \<le> Ky
      then n \<in> set (avl_nodes True t) \<and> Key n \<le> Ky \<and> (\<forall>k\<in>set (avl_keys t). k \<le> Ky \<longrightarrow> k \<le> Key n)
      else n = dflt)"

lemma avl_best_fit_above:
  "sorted (avl_keys t) \<Longrightarrow> avl_least_above t Ky L (avl_best_fit L t Ky True)"
proof (induction t arbitrary: L)
  case (Node p k l r h)
  have s: "sorted (avl_keys l)" "sorted (avl_keys r)" "\<forall>x\<in>set (avl_keys l). x \<le> k"
    "\<forall>x\<in>set (avl_keys r). k \<le> x"
    using Node.prems by (auto simp: sorted_append)
  consider "Ky = k" | "Ky < k" "Ky \<noteq> k" | "k < Ky" "Ky \<noteq> k" by force
  then show ?case
  proof cases
    case 1
    then show ?thesis using s by (auto simp: avl_least_above_def)
  next
    case 2
    then show ?thesis
      using Node.IH(1) [OF s(1), of "Node p k l r h"] s
      by (auto simp: avl_least_above_def less_imp_le split: if_splits; meson order.trans)
  next
    case 3
    then have "\<not> Ky \<le> x" if "x \<in> set (avl_keys l)" for x
      using s(3) that by force
    then show ?thesis
      using Node.IH(2) [OF s(2), of L] s 3
      by (auto simp: avl_least_above_def split: if_splits)
  qed
qed (simp add: avl_least_above_def)

lemma avl_best_fit_below:
  "sorted (avl_keys t) \<Longrightarrow> avl_greatest_below t Ky L (avl_best_fit L t Ky False)"
proof (induction t arbitrary: L)
  case (Node p k l r h)
  have s: "sorted (avl_keys l)" "sorted (avl_keys r)" "\<forall>x\<in>set (avl_keys l). x \<le> k"
    "\<forall>x\<in>set (avl_keys r). k \<le> x"
    using Node.prems by (auto simp: sorted_append)
  consider "Ky = k" | "Ky < k" "Ky \<noteq> k" | "k < Ky" "Ky \<noteq> k" by force
  then show ?case
  proof cases
    case 1
    then show ?thesis using s by (auto simp: avl_greatest_below_def)
  next
    case 2
    then have "\<not> x \<le> Ky" if "x \<in> set (avl_keys r)" for x
      using s(4) that by force
    then show ?thesis
      using Node.IH(1) [OF s(1), of L] s 2
      by (auto simp: avl_greatest_below_def split: if_splits)
  next
    case 3
    then show ?thesis
      using Node.IH(2) [OF s(2), of "Node p k l r h"] s
      by (auto simp: avl_greatest_below_def less_imp_le split: if_splits; meson order.trans)
  qed
qed (simp add: avl_greatest_below_def)


section \<open>Neighbours\<close>

lemma avl_keys_nodes: "set (avl_keys t) = Key ` set (avl_nodes True t)"
  by (induction t) auto

lemma avl_nodes_not_Null: "n \<in> set (avl_nodes d t) \<Longrightarrow> n \<noteq> Null"
  by (induction t) (auto split: if_splits)

lemma avl_rightmost_node:
  "t \<noteq> Null \<Longrightarrow> sorted (avl_keys t) \<Longrightarrow>
   avl_rightmost t \<in> set (avl_nodes True t) \<and> (\<forall>k\<in>set (avl_keys t). k \<le> Key (avl_rightmost t))"
proof (induction t)
  case (Node p k l r h)
  then show ?case
    by (cases "r = Null") (auto simp: sorted_append avl_keys_nodes intro: order.trans)
qed simp

lemma avl_leftmost_node:
  "t \<noteq> Null \<Longrightarrow> sorted (avl_keys t) \<Longrightarrow>
   avl_leftmost t \<in> set (avl_nodes True t) \<and> (\<forall>k\<in>set (avl_keys t). Key (avl_leftmost t) \<le> k)"
proof (induction t)
  case (Node p k l r h)
  then show ?case
    by (cases "l = Null") (auto simp: sorted_append avl_keys_nodes intro: order.trans)
qed simp

text \<open>The rewinding loop picks the greatest smaller and the least greater candidate.\<close>

lemma avl_adj_rewind_left:
  "\<forall>c\<in>set cs. Key c \<noteq> Ky \<Longrightarrow> Null \<notin> set cs \<Longrightarrow> (L \<noteq> Null \<longrightarrow> Key L < Ky) \<Longrightarrow>
   avl_adj_rewind Ky cs (L, R) = (L', R') \<Longrightarrow>
   (L' = Null \<longleftrightarrow> L = Null \<and> (\<forall>c\<in>set cs. \<not> Key c < Ky)) \<and>
   (L' \<noteq> Null \<longrightarrow> L' \<in> insert L (set cs) \<and> Key L' < Ky \<and> (L \<noteq> Null \<longrightarrow> Key L \<le> Key L') \<and>
      (\<forall>c\<in>set cs. Key c < Ky \<longrightarrow> Key c \<le> Key L'))"
proof (induction Ky cs "(L, R)" arbitrary: L R rule: avl_adj_rewind.induct)
  case (2 Ky c cs L R)
  consider "Key c < Ky" "L = Null \<or> Key L < Key c"
    | "Key c < Ky" "L \<noteq> Null" "\<not> Key L < Key c" "\<not> Ky < Key c" | "Ky < Key c" "\<not> Key c < Ky"
    using "2.prems"(1) by (force simp: neq_iff)
  then show ?case
  proof cases
    case 1
    then show ?thesis using "2.hyps" [of c R] "2.prems" by force
  next
    case 2
    then show ?thesis using "2.hyps" [of L R] "2.prems" by force
  next
    case 3
    then show ?thesis
      using "2.hyps" [of L c] "2.hyps" [of L R] "2.prems" by (auto split: if_splits)
  qed
qed auto

lemma avl_adj_rewind_right:
  "\<forall>c\<in>set cs. Key c \<noteq> Ky \<Longrightarrow> Null \<notin> set cs \<Longrightarrow> (R \<noteq> Null \<longrightarrow> Ky < Key R) \<Longrightarrow>
   avl_adj_rewind Ky cs (L, R) = (L', R') \<Longrightarrow>
   (R' = Null \<longleftrightarrow> R = Null \<and> (\<forall>c\<in>set cs. \<not> Ky < Key c)) \<and>
   (R' \<noteq> Null \<longrightarrow> R' \<in> insert R (set cs) \<and> Ky < Key R' \<and> (R \<noteq> Null \<longrightarrow> Key R' \<le> Key R) \<and>
      (\<forall>c\<in>set cs. Ky < Key c \<longrightarrow> Key R' \<le> Key c))"
proof (induction Ky cs "(L, R)" arbitrary: L R rule: avl_adj_rewind.induct)
  case (2 Ky c cs L R)
  consider "Ky < Key c" "R = Null \<or> Key c < Key R" "\<not> Key c < Ky"
    | "Ky < Key c" "R \<noteq> Null" "\<not> Key c < Key R" "\<not> Key c < Ky" | "Key c < Ky" "\<not> Ky < Key c"
    using "2.prems"(1) by (force simp: neq_iff)
  then show ?case
  proof cases
    case 1
    then show ?thesis using "2.hyps" [of L c] "2.prems" by force
  next
    case 2
    then show ?thesis using "2.hyps" [of L R] "2.prems" by force
  next
    case 3
    then show ?thesis
      using "2.hyps" [of c R] "2.hyps" [of L R] "2.prems" by (auto split: if_splits)
  qed
qed auto

lemma avl_adj_path_frames:
  "avl_adj_path Ky st t = Inr (st', n) \<Longrightarrow> sorted (avl_keys t) \<Longrightarrow>
   \<exists>new. st' = new @ st \<and>
     (\<forall>c\<in>set new. c \<in> set (avl_nodes True t) \<and> Key c \<noteq> Ky) \<and>
     (n \<noteq> Null \<longrightarrow> n \<in> set (avl_nodes True t) \<and> Key n = Ky \<and> sorted (avl_keys n)) \<and>
     (n = Null \<longrightarrow> Ky \<notin> set (avl_keys t)) \<and>
     (\<forall>k\<in>set (avl_keys t). k \<in> set (avl_keys n) \<or>
        (k \<le> Ky \<longrightarrow> (\<exists>c\<in>set new. Key c < Ky \<and> k \<le> Key c)) \<and>
        (Ky \<le> k \<longrightarrow> (\<exists>c\<in>set new. Ky < Key c \<and> Key c \<le> k)))"
proof (induction Ky st t rule: avl_adj_path.induct)
  case (2 Ky st p k l r h)
  have s: "sorted (avl_keys l)" "sorted (avl_keys r)" "\<forall>x\<in>set (avl_keys l). x \<le> k"
    "\<forall>x\<in>set (avl_keys r). k \<le> x"
    using "2.prems"(2) by (auto simp: sorted_append)
  consider "Ky = k" | "Ky < k" "k \<noteq> Ky" | "k < Ky" "k \<noteq> Ky" "\<not> Ky < k" by force
  then show ?case
  proof cases
    case 1
    then show ?thesis using "2.prems" by auto
  next
    case 2
    with "2.prems" have "avl_adj_path Ky (Node p k l r h # st) l = Inr (st', n)" "length st < AVL_MAX_HEIGHT"
      by (auto split: if_splits)
    then obtain new where new: "st' = new @ Node p k l r h # st"
      "\<forall>c\<in>set new. c \<in> set (avl_nodes True l) \<and> Key c \<noteq> Ky"
      "n \<noteq> Null \<longrightarrow> n \<in> set (avl_nodes True l) \<and> Key n = Ky \<and> sorted (avl_keys n)"
      "n = Null \<longrightarrow> Ky \<notin> set (avl_keys l)"
      "\<forall>k\<in>set (avl_keys l). k \<in> set (avl_keys n) \<or>
        (k \<le> Ky \<longrightarrow> (\<exists>c\<in>set new. Key c < Ky \<and> k \<le> Key c)) \<and>
        (Ky \<le> k \<longrightarrow> (\<exists>c\<in>set new. Ky < Key c \<and> Key c \<le> k))"
      using "2.IH" 2 s by (auto split: if_splits)
    show ?thesis
      by (rule exI [of _ "new @ [Node p k l r h]"]) (use new 2 s in \<open>force simp: not_le\<close>)
  next
    case 3
    with "2.prems" have "avl_adj_path Ky (Node p k l r h # st) r = Inr (st', n)" "length st < AVL_MAX_HEIGHT"
      by (auto split: if_splits)
    then obtain new where new: "st' = new @ Node p k l r h # st"
      "\<forall>c\<in>set new. c \<in> set (avl_nodes True r) \<and> Key c \<noteq> Ky"
      "n \<noteq> Null \<longrightarrow> n \<in> set (avl_nodes True r) \<and> Key n = Ky \<and> sorted (avl_keys n)"
      "n = Null \<longrightarrow> Ky \<notin> set (avl_keys r)"
      "\<forall>k\<in>set (avl_keys r). k \<in> set (avl_keys n) \<or>
        (k \<le> Ky \<longrightarrow> (\<exists>c\<in>set new. Key c < Ky \<and> k \<le> Key c)) \<and>
        (Ky \<le> k \<longrightarrow> (\<exists>c\<in>set new. Ky < Key c \<and> Key c \<le> k))"
      using "2.IH" 3 s by (auto split: if_splits)
    show ?thesis
      by (rule exI [of _ "new @ [Node p k l r h]"]) (use new 3 s in \<open>force simp: not_le\<close>)
  qed
qed simp

lemma avl_adj_path_total:
  "length st + avl_height t \<le> AVL_MAX_HEIGHT \<Longrightarrow> \<exists>st' n. avl_adj_path Ky st t = Inr (st', n)"
  by (induction Ky st t rule: avl_adj_path.induct) auto

text \<open>The nearest neighbours of a key in a tree without duplicates.\<close>

definition avl_neighbours :: "'p avl \<Rightarrow> avlkey \<Rightarrow> 'p avl \<Rightarrow> 'p avl \<Rightarrow> bool" where
  "avl_neighbours t Ky L R \<longleftrightarrow>
     (if \<exists>k\<in>set (avl_keys t). k < Ky
      then L \<in> set (avl_nodes True t) \<and> Key L < Ky \<and> (\<forall>k\<in>set (avl_keys t). k < Ky \<longrightarrow> k \<le> Key L)
      else L = Null) \<and>
     (if \<exists>k\<in>set (avl_keys t). Ky < k
      then R \<in> set (avl_nodes True t) \<and> Ky < Key R \<and> (\<forall>k\<in>set (avl_keys t). Ky < k \<longrightarrow> Key R \<le> k)
      else R = Null)"

lemma avl_nodes_trans:
  "n \<in> set (avl_nodes True t) \<Longrightarrow> m \<in> set (avl_nodes True n) \<Longrightarrow> m \<in> set (avl_nodes True t)"
  by (induction t) auto

lemma avl_nodes_sub_distinct:
  "n \<in> set (avl_nodes True t) \<Longrightarrow> distinct (avl_keys t) \<Longrightarrow> distinct (avl_keys n)"
  by (induction t) auto

lemma AVLGetWithAdjecentNodes_ok:
  assumes "sorted (avl_keys t)" "distinct (avl_keys t)" "avl_height t \<le> AVL_MAX_HEIGHT"
    "Ky \<in> set (avl_keys t)"
  shows "\<exists>n L R. AVLGetWithAdjecentNodes t Ky = Inr (n, L, R) \<and>
    n \<in> set (avl_nodes True t) \<and> Key n = Ky \<and> avl_neighbours t Ky L R"
proof -
  obtain st n where p: "avl_adj_path Ky [] t = Inr (st, n)"
    using avl_adj_path_total [of "[]" t Ky] assms by auto
  from avl_adj_path_frames [OF p assms(1)]
  have st: "\<forall>c\<in>set st. c \<in> set (avl_nodes True t) \<and> Key c \<noteq> Ky"
    and nn: "n \<noteq> Null" and n: "n \<in> set (avl_nodes True t)" "Key n = Ky" "sorted (avl_keys n)"
    and cover: "\<forall>k\<in>set (avl_keys t). k \<in> set (avl_keys n) \<or>
        (k \<le> Ky \<longrightarrow> (\<exists>c\<in>set st. Key c < Ky \<and> k \<le> Key c)) \<and>
        (Ky \<le> k \<longrightarrow> (\<exists>c\<in>set st. Ky < Key c \<and> Key c \<le> k))"
    using assms(4) by auto
  obtain q l r h where nd: "n = Node q Ky l r h" using nn n(2) by (cases n) auto
  have dn: "distinct (avl_keys n)" using avl_nodes_sub_distinct [OF n(1) assms(2)] .
  have kl: "\<forall>k\<in>set (avl_keys l). k < Ky" and kr: "\<forall>k\<in>set (avl_keys r). Ky < k"
    and sl: "sorted (avl_keys l)" "sorted (avl_keys r)"
    using n(3) dn nd by (auto simp: sorted_append order_less_le)
  have ln: "l \<noteq> Null \<longrightarrow> avl_rightmost l \<in> set (avl_nodes True l) \<and>
      (\<forall>k\<in>set (avl_keys l). k \<le> Key (avl_rightmost l))"
    using avl_rightmost_node sl by blast
  have rn: "r \<noteq> Null \<longrightarrow> avl_leftmost r \<in> set (avl_nodes True r) \<and>
      (\<forall>k\<in>set (avl_keys r). Key (avl_leftmost r) \<le> k)"
    using avl_leftmost_node sl by blast
  have lN: "avl_rightmost l = Null \<longleftrightarrow> l = Null" and rN: "avl_leftmost r = Null \<longleftrightarrow> r = Null"
    using ln rn avl_nodes_not_Null by fastforce+
  obtain L R where LR: "avl_adj_rewind Ky st (avl_rightmost l, avl_leftmost r) = (L, R)" by fastforce
  have "Null \<notin> set st" and "\<forall>c\<in>set st. Key c \<noteq> Ky" using st avl_nodes_not_Null by blast+
  note left = avl_adj_rewind_left [OF this(2,1) _ LR] and right = avl_adj_rewind_right [OF this(2,1) _ LR]
  have sub: "m \<in> set (avl_nodes True t)" if "m \<in> set (avl_nodes True l) \<or> m \<in> set (avl_nodes True r)" for m
    using that avl_nodes_trans [OF n(1)] nd by auto
  have keyin: "Key m \<in> set (avl_keys t)" if "m \<in> set (avl_nodes True t)" for m
    using that by (simp add: avl_keys_nodes)
  have pl: "avl_rightmost l \<noteq> Null \<longrightarrow> Key (avl_rightmost l) < Ky"
    using ln lN kl by (auto simp: avl_keys_nodes)
  have pr: "avl_leftmost r \<noteq> Null \<longrightarrow> Ky < Key (avl_leftmost r)"
    using rn rN kr by (auto simp: avl_keys_nodes)
  have below: "(\<exists>c\<in>set st. Key c < Ky \<and> k \<le> Key c) \<or> l \<noteq> Null \<and> k \<le> Key (avl_rightmost l)"
    if "k \<in> set (avl_keys t)" "k < Ky" for k
  proof -
    have "k \<notin> set (avl_keys r)" "k \<noteq> Ky" "k \<le> Ky" using kr that by force+
    then show ?thesis using bspec [OF cover that(1)] nd ln by (cases "l = Null") auto
  qed
  have above: "(\<exists>c\<in>set st. Ky < Key c \<and> Key c \<le> k) \<or> r \<noteq> Null \<and> Key (avl_leftmost r) \<le> k"
    if "k \<in> set (avl_keys t)" "Ky < k" for k
  proof -
    have "k \<notin> set (avl_keys l)" "k \<noteq> Ky" "Ky \<le> k" using kl that by force+
    then show ?thesis using bspec [OF cover that(1)] nd rn by (cases "r = Null") auto
  qed
  have L: "L \<noteq> Null \<longrightarrow> L \<in> set (avl_nodes True t) \<and> Key L < Ky"
    using left [OF pl] ln lN st sub by auto
  have R: "R \<noteq> Null \<longrightarrow> R \<in> set (avl_nodes True t) \<and> Ky < Key R"
    using right [OF pr] rn rN st sub by auto
  have L2: "k \<le> Key L \<and> L \<noteq> Null" if "k \<in> set (avl_keys t)" "k < Ky" for k
    using left [OF pl] below [OF that] lN by (meson order.trans)
  have R2: "Key R \<le> k \<and> R \<noteq> Null" if "k \<in> set (avl_keys t)" "Ky < k" for k
    using right [OF pr] above [OF that] rN by (meson order.trans)
  have "(\<exists>k\<in>set (avl_keys t). k < Ky) \<longleftrightarrow> L \<noteq> Null" using L L2 keyin by blast
  moreover have "(\<exists>k\<in>set (avl_keys t). Ky < k) \<longleftrightarrow> R \<noteq> Null" using R R2 keyin by blast
  ultimately have "avl_neighbours t Ky L R"
    unfolding avl_neighbours_def using L R L2 R2 by simp
  then show ?thesis
    using p nn n LR nd by (auto simp: AVLGetWithAdjecentNodes_def)
qed

section \<open>Iteration in key order\<close>

lemma avl_nodes_unfold:
  "n \<noteq> Null \<Longrightarrow> avl_nodes d n = avl_nodes d (avl_first d n) @ n # avl_nodes d (avl_second d n)"
  by (cases n) (auto simp: avl_first_def avl_second_def)

lemma avl_nodes_Null [simp]: "avl_nodes d n = [] \<longleftrightarrow> n = Null"
  by (cases n) auto

lemma avl_height_ge1: "t \<noteq> Null \<Longrightarrow> 1 \<le> avl_height t"
  by (cases t) auto

lemma avl_height_children:
  "n \<noteq> Null \<Longrightarrow> avl_height (avl_first d n) < avl_height n \<and> avl_height (avl_second d n) < avl_height n"
  by (cases n) (auto simp: avl_first_def avl_second_def)

text \<open>The nodes still to be visited from a stack of \<open>AVLDoWithAll\<close>, respectively of
  \<open>AVLGetNextNode\<close>, whose flag counts one more stage.\<close>

fun avl_rest :: "bool \<Rightarrow> 'p avlstack2 \<Rightarrow> 'p avl list" where
  "avl_rest d [] = []"
| "avl_rest d ((n, f) # st) =
    (if f = 0 then avl_nodes d n else n # avl_nodes d (avl_second d n)) @ avl_rest d st"

fun avl_enum_rest :: "bool \<Rightarrow> 'p avlstack2 \<Rightarrow> 'p avl list" where
  "avl_enum_rest d [] = []"
| "avl_enum_rest d ((n, f) # st) =
    (if f = 0 then avl_nodes d n else if f = 1 then n # avl_nodes d (avl_second d n)
     else avl_nodes d (avl_second d n)) @ avl_enum_rest d st"

text \<open>The stack never needs more than \<open>AVL_MAX_HEIGHT\<close> entries.\<close>

fun avl_stack_ok :: "bool \<Rightarrow> 'p avlstack2 \<Rightarrow> bool" where
  "avl_stack_ok d [] = True"
| "avl_stack_ok d ((n, f) # st) =
    (n \<noteq> Null \<and> Suc (length st) \<le> AVL_MAX_HEIGHT \<and>
     length st + (if f = 0 then avl_height n else avl_height (avl_second d n)) \<le> AVL_MAX_HEIGHT \<and>
     avl_stack_ok d st)"

fun avl_foreach :: "('p avl \<Rightarrow> 's \<Rightarrow> ulong \<times> 's) \<Rightarrow> 'p avl list \<Rightarrow> 's \<Rightarrow> ulong \<times> 's" where
  "avl_foreach cb [] s = (0, s)"
| "avl_foreach cb (n # ns) s =
    (case cb n s of (rc, s') \<Rightarrow> if rc \<noteq> 0 then (rc, s') else avl_foreach cb ns s')"

lemma avl_do_with_all_rest:
  "avl_stack_ok d st \<Longrightarrow> avl_do_with_all d cb st s = Inr (avl_foreach cb (avl_rest d st) s)"
proof (induction d cb st s rule: avl_do_with_all.induct)
  case (2 d cb n f st s)
  have nn: "n \<noteq> Null" using "2.prems" by simp
  note ht = avl_height_children [OF nn, of d]
  note unf = avl_nodes_unfold [OF nn, of d]
  show ?case
  proof (cases "f = 0 \<and> avl_first d n \<noteq> Null")
    case True
    then have "1 \<le> avl_height (avl_first d n)" using avl_height_ge1 by blast
    then have "Suc (length st) < AVL_MAX_HEIGHT" using "2.prems" True ht by simp
    then show ?thesis
      using "2.IH"(1) "2.prems" True nn ht unf unfolding avl_do_with_all.simps(2) [of d cb n f st s] by simp
  next
    case False
    obtain rc s' where cb: "cb n s = (rc, s')" by fastforce
    have rest: "avl_rest d ((n, f) # st) = n # avl_nodes d (avl_second d n) @ avl_rest d st"
      using False unf by auto
    show ?thesis
    proof (cases "rc = 0 \<and> avl_second d n \<noteq> Null")
      case True
      then have "avl_stack_ok d ((avl_second d n, 0) # st)" using "2.prems" ht by (auto split: if_splits)
      then show ?thesis
        using "2.IH"(2) False nn cb True rest
        unfolding avl_do_with_all.simps(2) [of d cb n f st s] by (auto simp del: avl_stack_ok.simps)
    next
      case F2: False
      then show ?thesis
        using "2.IH"(3) False nn cb rest "2.prems"
        unfolding avl_do_with_all.simps(2) [of d cb n f st s] by auto
    qed
  qed
qed simp

lemma AVLDoWithAll_ok:
  assumes "avl_height t \<le> AVL_MAX_HEIGHT"
  shows "AVLDoWithAll t d cb s = Inr (avl_foreach cb (avl_nodes d t) s)"
  using assms avl_do_with_all_rest [of d "[(t, 0)]" cb s]
  by (auto simp: AVLDoWithAll_def AVL_MAX_HEIGHT_def)

lemma avl_get_next_rest:
  "avl_stack_ok d st \<Longrightarrow>
   \<exists>n st'. avl_get_next d st = Inr (n, st') \<and> avl_stack_ok d st' \<and>
     (case avl_enum_rest d st of [] \<Rightarrow> n = Null \<and> st' = []
      | m # ms \<Rightarrow> n = m \<and> avl_enum_rest d st' = ms)"
proof (induction d st rule: avl_get_next.induct)
  case (2 d n f st)
  have nn: "n \<noteq> Null" using "2.prems" by simp
  note ht = avl_height_children [OF nn, of d]
  note unf = avl_nodes_unfold [OF nn, of d]
  consider "f = 0 \<and> avl_first d n \<noteq> Null" | "\<not> (f = 0 \<and> avl_first d n \<noteq> Null)" "f \<le> 1"
    | "1 < f" "avl_second d n \<noteq> Null" | "1 < f" "avl_second d n = Null" by linarith
  then show ?case
  proof cases
    case 1
    then have "1 \<le> avl_height (avl_first d n)" using avl_height_ge1 by blast
    then have "Suc (length st) < AVL_MAX_HEIGHT" using "2.prems" 1 ht by simp
    then show ?thesis
      using "2.IH"(1) "2.prems" 1 nn ht unf unfolding avl_get_next.simps(2) [of d n f st] by simp
  next
    case 2
    have "avl_enum_rest d ((n, f) # st) = n # avl_nodes d (avl_second d n) @ avl_enum_rest d st"
      using 2 unf by auto
    moreover have "avl_stack_ok d ((n, 2) # st)" using "2.prems" ht by (auto split: if_splits)
    moreover have "avl_get_next d ((n, f) # st) = Inr (n, (n, 2) # st)"
      using 2 nn unfolding avl_get_next.simps(2) [of d n f st] by auto
    ultimately show ?thesis by simp
  next
    case 3
    then have "avl_stack_ok d ((avl_second d n, 0) # st)" using "2.prems" by auto
    then show ?thesis
      using "2.IH"(2) 3 nn unfolding avl_get_next.simps(2) [of d n f st] by (simp del: avl_stack_ok.simps)
  next
    case 4
    then show ?thesis
      using "2.IH"(3) nn "2.prems" unfolding avl_get_next.simps(2) [of d n f st] by simp
  qed
qed simp

lemma avl_enum_rest_not_Null: "avl_stack_ok d st \<Longrightarrow> n \<in> set (avl_enum_rest d st) \<Longrightarrow> n \<noteq> Null"
  by (induction d st rule: avl_enum_rest.induct) (auto split: if_splits dest: avl_nodes_not_Null)

text \<open>The client's loop \<open>for (p = AVLBeginEnumTree(..); p != NULL; p = AVLGetNextNode(..))\<close>,
  with a bound on its rounds.\<close>

fun avl_enum_loop :: "nat \<Rightarrow> ('p avl \<times> 'p avlenumdata) res \<Rightarrow> 'p avl list res" where
  "avl_enum_loop fuel (Inl e) = Inl e"
| "avl_enum_loop 0 (Inr (n, e)) = (if n = Null then Inr [] else Inl OutOfBounds)"
| "avl_enum_loop (Suc fuel) (Inr (n, e)) =
    (if n = Null then Inr []
     else bind_res (avl_enum_loop fuel (AVLGetNextNode e)) (\<lambda>ns. Inr (n # ns)))"

lemma AVLGetNextNode_rest:
  assumes "avl_stack_ok (fFromLeft e) (aEntries e)" "length (avl_enum_rest (fFromLeft e) (aEntries e)) \<le> fuel"
  shows "avl_enum_loop fuel (AVLGetNextNode e) = Inr (avl_enum_rest (fFromLeft e) (aEntries e))"
  using assms
proof (induction fuel arbitrary: e)
  case 0
  then show ?case using avl_get_next_rest [OF "0.prems"(1)] by (auto simp: AVLGetNextNode_def)
next
  case (Suc fuel)
  obtain n st' where g: "avl_get_next (fFromLeft e) (aEntries e) = Inr (n, st')"
    "avl_stack_ok (fFromLeft e) st'"
    "case avl_enum_rest (fFromLeft e) (aEntries e) of [] \<Rightarrow> n = Null \<and> st' = []
      | m # ms \<Rightarrow> n = m \<and> avl_enum_rest (fFromLeft e) st' = ms"
    using avl_get_next_rest [OF Suc.prems(1)] by blast
  show ?case
  proof (cases "avl_enum_rest (fFromLeft e) (aEntries e)")
    case Nil
    then show ?thesis using g by (simp add: AVLGetNextNode_def)
  next
    case (Cons m ms)
    have "m \<noteq> Null"
      using avl_enum_rest_not_Null [OF Suc.prems(1)] Cons by simp
    then show ?thesis
      using g Cons Suc.prems Suc.IH [of "e\<lparr>aEntries := st'\<rparr>"] by (simp add: AVLGetNextNode_def)
  qed
qed

end
