(* ===== verification/AvlProps.thy ===== *)
theory AvlProps
  imports AvlQuery "HOL-Library.Multiset"
begin

text \<open>
  The tree of \<open>Avl\<close> as an index: what sequences of operations do to its sorted keys, and the
  properties of each operation a client relies on.
\<close>

section \<open>Refinement of a sorted list of keys\<close>

text \<open>The abstract index of the tree: its keys in order.\<close>

fun avl_run_keys :: "avlkey list \<Rightarrow> 'p avl_op list \<Rightarrow> avlkey list" where
  "avl_run_keys ks [] = ks"
| "avl_run_keys ks (OpInsert p k # ops) = avl_run_keys (insort k ks) ops"
| "avl_run_keys ks (OpRemove k # ops) = avl_run_keys (remove1 k ks) ops"

lemma sorted_mset_unique: "sorted xs \<Longrightarrow> sorted ys \<Longrightarrow> mset xs = mset ys \<Longrightarrow> xs = ys"
  by (metis properties_for_sort)

lemma AVLInsert_keys:
  assumes "avl_wf t" "avl_height t \<le> AVL_MAX_HEIGHT" "AVLInsert t p k = Inr (t', b)"
  shows "avl_keys t' = insort k (avl_keys t)"
proof -
  obtain t2 where t2: "AVLInsert t p k = Inr (t2, True)" "avl_wf t2"
    "avl_inorder t2 = filter (\<lambda>x. snd x \<le> k) (avl_inorder t) @ (p, k) # filter (\<lambda>x. \<not> snd x \<le> k) (avl_inorder t)"
    using AVLInsert_ok [OF assms(1,2)] by metis
  have "mset (avl_inorder t2) = add_mset (p, k) (mset (avl_inorder t))" 
    unfolding t2(3) using multiset_partition [of "mset (avl_inorder t)" "\<lambda>x. snd x \<le> k"] by simp
  then have "mset (map snd (avl_inorder t2)) = add_mset k (mset (map snd (avl_inorder t)))"
    by (metis image_mset_add_mset mset_map snd_conv)
  then have "mset (avl_keys t2) = mset (insort k (avl_keys t))" by (simp add: avl_keys_def)
  moreover have "sorted (avl_keys t2)" "sorted (insort k (avl_keys t))"
    using t2(2) assms(1) by (auto simp: avl_wf_def sorted_insort)
  ultimately show ?thesis using t2(1) assms(3) by (simp add: sorted_mset_unique)
qed

lemma AVLRemove_keys:
  assumes "avl_wf t" "avl_height t \<le> AVL_MAX_HEIGHT" "AVLRemove t k = Inr (t', q)"
  shows "avl_keys t' = remove1 k (avl_keys t)"
proof (cases "k \<in> set (avl_keys t)")
  case False
  then show ?thesis using AVLRemove_notfound [OF assms(1,2)] assms(3) by (simp add: remove1_idem)
next
  case True
  obtain t2 p xs ys where r: "AVLRemove t k = Inr (t2, Some p)" "avl_wf t2"
    "avl_inorder t = xs @ (p, k) # ys" "avl_inorder t2 = xs @ ys"
    using AVLRemove_found [OF assms(1,2) True] by metis
  have "mset (avl_keys t2) = mset (remove1 k (avl_keys t))" 
    using r(3,4) by (simp add: avl_keys_def del: remove1_append)
  moreover have "sorted (avl_keys t2)" "sorted (remove1 k (avl_keys t))"
    using r(2) assms(1) by (auto simp: avl_wf_def intro: sorted_remove1)
  ultimately show ?thesis using r(1) assms(3) by (simp add: sorted_mset_unique)
qed

lemma avl_size_keys: "avl_size t = length (avl_keys t)"
  by (simp add: avl_keys_def length_avl_inorder)

lemma AVLRemove_total:
  assumes "avl_wf t" "avl_height t \<le> AVL_MAX_HEIGHT"
  obtains t' q where "AVLRemove t k = Inr (t', q)" "avl_wf t'"
  using AVLRemove_found [OF assms] AVLRemove_notfound [OF assms] assms(1) by metis

lemma avl_run_keys_ok:
  assumes "avl_wf t" "avl_size t + avl_run_balance ops \<le> 17709"
  shows "\<exists>t'. avl_run t ops = Inr t' \<and> avl_wf t' \<and> avl_keys t' = avl_run_keys (avl_keys t) ops"
  using assms
proof (induction t ops rule: avl_run.induct)
  case (2 t p k ops)
  have h: "avl_height t \<le> AVL_MAX_HEIGHT"
    using 2 by (intro avl_size_height) (auto simp: avl_wf_def)
  obtain t1 where t1: "AVLInsert t p k = Inr (t1, True)" "avl_wf t1"
    using AVLInsert_ok [OF "2.prems"(1) h] by metis
  note k1 = AVLInsert_keys [OF "2.prems"(1) h t1(1)]
  then have "avl_size t1 = Suc (avl_size t)" by (simp add: avl_size_keys)
  then show ?case using "2.IH" [OF t1(2)] "2.prems"(2) t1(1) k1 by simp
next
  case (3 t k ops)
  have h: "avl_height t \<le> AVL_MAX_HEIGHT"
    using 3 by (intro avl_size_height) (auto simp: avl_wf_def)
  obtain t1 q where t1: "AVLRemove t k = Inr (t1, q)" "avl_wf t1"
    using AVLRemove_total [OF "3.prems"(1) h] by metis
  note k1 = AVLRemove_keys [OF "3.prems"(1) h t1(1)]
  then have "avl_size t1 \<le> avl_size t" by (simp add: avl_size_keys length_remove1)
  then show ?case using "3.IH" [OF t1(2)] "3.prems"(2) t1(1) k1 by simp
qed simp

section \<open>Properties\<close>

definition avl_example :: "nat avl" where
  "avl_example = Node 1 5 (Node 2 3 Null Null 1) (Node 3 8 Null Null 1) 2"

lemma avl_example_facts:
  "avl_wf avl_example" "avl_size avl_example = 3" "avl_height avl_example = 2"
  "avl_keys avl_example = [3, 5, 8]"
  by (simp_all add: avl_example_def avl_wf_def)

text \<open>C1. Any sequence of insertions and removals on a well-formed tree runs without a fault as
  long as at most 17709 nodes can be in it, keeps it well formed (ordered, every height byte
  exact, every pair of siblings within one level), and acts on its keys like insertion
  into and deletion from a sorted list.\<close>

theorem avl_run_refines_sorted_list:
  assumes "avl_wf t" "avl_size t + avl_run_balance ops \<le> 17709"
  shows "\<exists>t'. avl_run t ops = Inr t' \<and> avl_wf t' \<and> avl_keys t' = avl_run_keys (avl_keys t) ops"
  by (rule avl_run_keys_ok [OF assms])

theorem avl_run_refines_sorted_list_witness:
  "\<exists>t'. avl_run avl_example [OpInsert 4 4, OpRemove 5] = Inr t' \<and> avl_wf t' \<and> avl_keys t' = [3, 4, 8]"
  using avl_run_refines_sorted_list [of avl_example "[OpInsert 4 4, OpRemove 5]"]
  by (simp add: avl_example_facts)

text \<open>\<open>AVLInsert\<close> on a well-formed tree of at most 17709 nodes returns \<open>TRUE\<close>, puts the new node
  behind every node with a key not above its own and before the others, changes nothing else
  in the order, and rebalances.\<close>

theorem AVLInsert_inserts:
  assumes "avl_wf t" "avl_size t \<le> 17709"
  shows "\<exists>t'. AVLInsert t p Ky = Inr (t', True) \<and> avl_wf t' \<and>
    avl_inorder t' = filter (\<lambda>x. snd x \<le> Ky) (avl_inorder t) @ (p, Ky) #
                     filter (\<lambda>x. \<not> snd x \<le> Ky) (avl_inorder t)"
proof -
  have "avl_height t \<le> AVL_MAX_HEIGHT"
    using assms by (intro avl_size_height) (simp_all add: avl_wf_def)
  from AVLInsert_ok [OF assms(1) this] show ?thesis by metis
qed

theorem AVLInsert_inserts_witness:
  "\<exists>t'. AVLInsert avl_example 9 5 = Inr (t', True) \<and> avl_wf t' \<and>
    avl_inorder t' = [(2, 3), (1, 5), (9, 5), (3, 8)]"
  using AVLInsert_inserts [of avl_example 9 5] by (simp add: avl_example_facts) (simp add: avl_example_def)

text \<open>C26. \<open>AVLRemove\<close> on a well-formed tree of at most 17709 nodes takes exactly one node with the
  given key out of the order and returns it, or returns \<open>NULL\<close> and leaves the tree as it was when
  no node has the key.\<close>

theorem AVLRemove_removes:
  assumes "avl_wf t" "avl_size t \<le> 17709"
  shows "\<exists>t' q. AVLRemove t Ky = Inr (t', q) \<and> avl_wf t' \<and>
    (case q of None \<Rightarrow> t' = t \<and> Ky \<notin> set (avl_keys t)
     | Some p \<Rightarrow> \<exists>xs ys. avl_inorder t = xs @ (p, Ky) # ys \<and> avl_inorder t' = xs @ ys)"
proof -
  have h: "avl_height t \<le> AVL_MAX_HEIGHT"
    using assms by (intro avl_size_height) (simp_all add: avl_wf_def)
  show ?thesis
  proof (cases "Ky \<in> set (avl_keys t)")
    case True
    obtain t' p xs ys where
      "AVLRemove t Ky = Inr (t', Some p)" "avl_wf t'"
      "avl_inorder t = xs @ (p, Ky) # ys" "avl_inorder t' = xs @ ys"
      using AVLRemove_found [OF assms(1) h True] by metis
    then show ?thesis by auto
  next
    case False
    then show ?thesis using AVLRemove_notfound [OF assms(1) h] assms(1) by simp
  qed
qed

theorem AVLRemove_removes_witness:
  "\<exists>t' q. AVLRemove avl_example 5 = Inr (t', q) \<and> avl_wf t' \<and> q \<noteq> None"
  using AVLRemove_removes [of avl_example 5] by (force simp: avl_example_facts split: option.splits)

text \<open>\<open>AVLGetBestFit\<close> with \<open>fAbove\<close> returns a node with the least key that is not below the given
  one, without it a node with the greatest key not above it, and \<open>NULL\<close> when there is none.\<close>

theorem AVLGetBestFit_best:
  assumes "avl_wf t"
  shows "avl_least_above t Ky Null (AVLGetBestFit t Ky True) \<and>
    avl_greatest_below t Ky Null (AVLGetBestFit t Ky False)"
  using assms avl_best_fit_above avl_best_fit_below by (auto simp: avl_wf_def AVLGetBestFit_def)

theorem AVLGetBestFit_best_witness:
  "avl_least_above avl_example 6 Null (AVLGetBestFit avl_example 6 True) \<and>
   Key (AVLGetBestFit avl_example 6 True) = 8 \<and> Key (AVLGetBestFit avl_example 6 False) = 5"
  using AVLGetBestFit_best [of avl_example 6] avl_example_facts(1)
  by (simp add: avl_example_def AVLGetBestFit_def)

text \<open>In a well-formed tree without duplicate keys, \<open>AVLGetWithAdjecentNodes\<close> on a present key
  returns its node together with the nodes of the next smaller and the next greater key,
  \<open>NULL\<close> at either end.\<close>

theorem AVLGetWithAdjecentNodes_neighbours:
  assumes "avl_wf t" "distinct (avl_keys t)" "avl_size t \<le> 17709" "Ky \<in> set (avl_keys t)"
  shows "\<exists>n L R. AVLGetWithAdjecentNodes t Ky = Inr (n, L, R) \<and>
    n \<in> set (avl_nodes True t) \<and> Key n = Ky \<and> avl_neighbours t Ky L R"
proof -
  have "avl_height t \<le> AVL_MAX_HEIGHT"
    using assms by (intro avl_size_height) (simp_all add: avl_wf_def)
  then show ?thesis using AVLGetWithAdjecentNodes_ok [of t Ky] assms
    by (auto simp: avl_wf_def)
qed

theorem AVLGetWithAdjecentNodes_neighbours_witness:
  "\<exists>n L R. AVLGetWithAdjecentNodes avl_example 8 = Inr (n, L, R) \<and> Key n = 8 \<and>
    avl_neighbours avl_example 8 L R"
  using AVLGetWithAdjecentNodes_neighbours [of avl_example 8] by (force simp: avl_example_facts)

text \<open>C28. The enumeration loop (\<open>AVLBeginEnumTree\<close>, then \<open>AVLGetNextNode\<close> until it returns \<open>NULL\<close>)
  visits every node exactly once, in key order or in the reverse order, and ends without a
  fault; \<open>AVLDoWithAll\<close> calls back for the same nodes in the same order, up to the
  first nonzero result.\<close>

theorem AVL_enumeration_complete:
  assumes "avl_wf t" "avl_size t \<le> 17709"
  shows "avl_enum_loop (avl_size t) (AVLBeginEnumTree t e d) = Inr (avl_nodes d t) \<and>
    AVLDoWithAll t d cb s = Inr (avl_foreach cb (avl_nodes d t) s)"
proof -
  have h: "avl_height t \<le> AVL_MAX_HEIGHT"
    using assms by (intro avl_size_height) (simp_all add: avl_wf_def)
  have len: "length (avl_nodes d t) = avl_size t"
    by (induction t) (auto split: if_splits)
  show ?thesis
  proof (cases "t = Null")
    case True
    then show ?thesis using AVLDoWithAll_ok [OF h]
      by (cases "fFromLeft e") (simp_all add: AVLBeginEnumTree_def AVLGetNextNode_def)
  next
    case False
    then show ?thesis
      using AVLDoWithAll_ok [OF h] len h
        AVLGetNextNode_rest [of "e\<lparr>fFromLeft := d, aEntries := [(t, 0)]\<rparr>" "avl_size t"]
      by (simp add: AVLBeginEnumTree_def AVL_MAX_HEIGHT_def)
  qed
qed

theorem AVL_enumeration_complete_witness:
  "avl_enum_loop 3 (AVLBeginEnumTree avl_example \<lparr>fFromLeft = True, aEntries = []\<rparr> True) =
   Inr (avl_nodes True avl_example)"
  using AVL_enumeration_complete [of avl_example "\<lparr>fFromLeft = True, aEntries = []\<rparr>" True
      "\<lambda>n s. (0, s)" "()"] by (simp add: avl_example_facts)

text \<open>C38. The limit is sharp and far below the 65536 nodes the header promises: there is a
  well-formed tree of 17710 nodes, of height 20, on which \<open>AVLInsert\<close> runs over its path
  stack of \<open>AVL_MAX_HEIGHT\<close> entries and stops in \<open>Int3\<close>.\<close>

theorem AVLInsert_overflows_at_17710:
  "\<exists>t :: nat avl. avl_wf t \<and> avl_size t = 17710 \<and> (\<forall>p. AVLInsert t p 0 = Inl Int3)"
  using avl_sparse_20 by blast

end
