(* ===== verification/Bitmap.thy ===== *)
theory Bitmap
  imports Prelude
begin

text \<open>
  The bitmaps of \<open>src/src/ntdll/rtlbitmap.c\<close>. A \<open>RTL_BITMAP\<close> is its size in bits and the
  bytes from \<open>BitMapBuffer\<close> up to the end of the memory the caller supplied; a byte access
  outside them is the fault \<open>OutOfBounds\<close>. A null \<open>lpBits\<close> is \<open>None\<close>. Byte pointers are
  indices into the buffer.
\<close>

section \<open>Buffer accesses\<close>

type_synonym buf = "uchar list"

definition rd :: "buf \<Rightarrow> nat \<Rightarrow> uchar res" where
  "rd b i = (if i < length b then Inr (b ! i) else Inl OutOfBounds)"

definition wr_or :: "buf \<Rightarrow> nat \<Rightarrow> uchar \<Rightarrow> buf res" where
  "wr_or b i m = (if i < length b then Inr (b[i := b ! i OR m]) else Inl OutOfBounds)"

definition wr_and :: "buf \<Rightarrow> nat \<Rightarrow> uchar \<Rightarrow> buf res" where
  "wr_and b i m = (if i < length b then Inr (b[i := b ! i AND m]) else Inl OutOfBounds)"

definition mem_set :: "buf \<Rightarrow> nat \<Rightarrow> uchar \<Rightarrow> nat \<Rightarrow> buf res" where
  "mem_set b i v n =
     (if i + n \<le> length b then Inr (take i b @ replicate n v @ drop (i + n) b) else Inl OutOfBounds)"

section \<open>Tables\<close>

definition NTDLL_maskBits :: "uchar list" where
  "NTDLL_maskBits = [0, 1, 3, 7, 15, 31, 63, 127]"

definition NTDLL_nibbleBitCount :: "nat list" where
  "NTDLL_nibbleBitCount = [0, 1, 1, 2, 1, 2, 2, 3, 1, 2, 2, 3, 2, 3, 3, 4]"

definition NTDLL_leastSignificant :: "nat list" where
  "NTDLL_leastSignificant = [0, 0, 1, 0, 2, 0, 1, 0, 3, 0, 1, 0, 2, 0, 1, 0]"

definition NTDLL_mostSignificant :: "int list" where
  "NTDLL_mostSignificant = [-1, 0, 1, 1, 2, 2, 2, 2, 3, 3, 3, 3, 3, 3, 3, 3]"

section \<open>Setting and clearing\<close>

record rtl_bitmap =
  SizeOfBitMap :: ulong
  BitMapBuffer :: buf

definition RtlInitializeBitMap :: "buf \<Rightarrow> ulong \<Rightarrow> rtl_bitmap" where
  "RtlInitializeBitMap lpBuff ulSize = \<lparr>SizeOfBitMap = ulSize, BitMapBuffer = lpBuff\<rparr>"

definition put_buf :: "rtl_bitmap \<Rightarrow> buf res \<Rightarrow> rtl_bitmap res" where
  "put_buf b r = bind_res r (\<lambda>d. Inr (b\<lparr>BitMapBuffer := d\<rparr>))"

definition RtlSetAllBits :: "rtl_bitmap \<Rightarrow> rtl_bitmap res" where
  "RtlSetAllBits b =
     put_buf b (mem_set (BitMapBuffer b) 0 255 (unat (drop_bit 3 ((SizeOfBitMap b + 31) AND 0xffffffe0))))"

definition RtlClearAllBits :: "rtl_bitmap \<Rightarrow> rtl_bitmap res" where
  "RtlClearAllBits b =
     put_buf b (mem_set (BitMapBuffer b) 0 0 (unat (drop_bit 3 ((SizeOfBitMap b + 31) AND 0xffffffe0))))"

text \<open>The part of \<open>RtlSetBits\<close> after the first byte: whole bytes, then the remainder, which
  is written even when it is empty.\<close>

definition set_tail :: "buf \<Rightarrow> nat \<Rightarrow> ulong \<Rightarrow> buf res" where
  "set_tail d lpOut ulCount =
     (let n = unat (drop_bit 3 ulCount) in
      bind_res (if n \<noteq> 0 then mem_set d lpOut 255 n else Inr d)
        (\<lambda>d. wr_or d (lpOut + n) (NTDLL_maskBits ! unat (ulCount AND 7))))"

definition RtlSetBits :: "rtl_bitmap option \<Rightarrow> ulong \<Rightarrow> ulong \<Rightarrow> rtl_bitmap option res" where
  "RtlSetBits lpBits ulStart ulCount =
     (case lpBits of None \<Rightarrow> Inr None
      | Some b \<Rightarrow>
          if ulCount = 0 \<or> ulStart + ulCount > SizeOfBitMap b then Inr (Some b)
          else
            let lpOut = unat (drop_bit 3 ulStart); sh = unat (ulStart AND 7); d = BitMapBuffer b in
            bind_res
              (put_buf b
                 (if sh \<noteq> 0 then
                    if ulCount > 7 then
                      bind_res (wr_or d lpOut (push_bit sh 255))
                        (\<lambda>d. set_tail d (lpOut + 1) (ulCount - word_of_nat (8 - sh)))
                    else
                      let initialWord = (push_bit sh (ucast (NTDLL_maskBits ! unat ulCount)) :: ushort) in
                      bind_res (wr_or d lpOut (ucast (initialWord AND 255)))
                        (\<lambda>d. wr_or d (lpOut + 1) (ucast (drop_bit 8 initialWord)))
                  else set_tail d lpOut ulCount))
              (\<lambda>b. Inr (Some b)))"

definition clear_tail :: "buf \<Rightarrow> nat \<Rightarrow> ulong \<Rightarrow> buf res" where
  "clear_tail d lpOut ulCount =
     (let n = unat (drop_bit 3 ulCount) in
      bind_res (if n \<noteq> 0 then mem_set d lpOut 0 n else Inr d)
        (\<lambda>d. if ulCount AND 7 \<noteq> 0
             then wr_and d (lpOut + n) (NOT (NTDLL_maskBits ! unat (ulCount AND 7)))
             else Inr d))"

definition RtlClearBits :: "rtl_bitmap option \<Rightarrow> ulong \<Rightarrow> ulong \<Rightarrow> rtl_bitmap option res" where
  "RtlClearBits lpBits ulStart ulCount =
     (case lpBits of None \<Rightarrow> Inr None
      | Some b \<Rightarrow>
          if ulCount = 0 \<or> ulStart + ulCount > SizeOfBitMap b then Inr (Some b)
          else
            let lpOut = unat (drop_bit 3 ulStart); sh = unat (ulStart AND 7); d = BitMapBuffer b in
            bind_res
              (put_buf b
                 (if sh \<noteq> 0 then
                    if ulCount > 7 then
                      bind_res (wr_and d lpOut (NOT (push_bit sh 255)))
                        (\<lambda>d. clear_tail d (lpOut + 1) (ulCount - word_of_nat (8 - sh)))
                    else
                      let initialWord = NOT (push_bit sh (ucast (NTDLL_maskBits ! unat ulCount)) :: ushort) in
                      bind_res (wr_and d lpOut (ucast (initialWord AND 255)))
                        (\<lambda>d. wr_and d (lpOut + 1) (ucast (drop_bit 8 initialWord)))
                  else clear_tail d lpOut ulCount))
              (\<lambda>b. Inr (Some b)))"

section \<open>Testing\<close>

text \<open>The loop over whole bytes: every one of the next \<open>n\<close> bytes satisfies \<open>P\<close>.\<close>

fun all_bytes :: "(uchar \<Rightarrow> bool) \<Rightarrow> buf \<Rightarrow> nat \<Rightarrow> nat \<Rightarrow> bool res" where
  "all_bytes P d lpOut 0 = Inr True"
| "all_bytes P d lpOut (Suc n) =
    bind_res (rd d lpOut) (\<lambda>x. if P x then all_bytes P d (lpOut + 1) n else Inr False)"

definition test_tail :: "(uchar \<Rightarrow> bool) \<Rightarrow> (uchar \<Rightarrow> uchar \<Rightarrow> bool) \<Rightarrow> buf \<Rightarrow> nat \<Rightarrow> ulong \<Rightarrow> bool res" where
  "test_tail P Q d lpOut ulCount =
     (let ulRemainder = unat (ulCount AND 7); n = unat (drop_bit 3 ulCount) in
      bind_res (all_bytes P d lpOut n) (\<lambda>ok.
        if \<not> ok then Inr False
        else if ulRemainder \<noteq> 0 then
          bind_res (rd d (lpOut + n)) (\<lambda>x. Inr (Q x (NTDLL_maskBits ! ulRemainder)))
        else Inr True))"

definition RtlAreBitsSet :: "rtl_bitmap option \<Rightarrow> ulong \<Rightarrow> ulong \<Rightarrow> bool res" where
  "RtlAreBitsSet lpBits ulStart ulCount =
     (case lpBits of None \<Rightarrow> Inr False
      | Some b \<Rightarrow>
          if ulCount = 0 \<or> ulStart + ulCount > SizeOfBitMap b then Inr False
          else
            let lpOut = unat (drop_bit 3 ulStart); sh = unat (ulStart AND 7); d = BitMapBuffer b;
                tail = test_tail (\<lambda>x. x = 255) (\<lambda>x m. x AND m = m) d in
            if sh \<noteq> 0 then
              if ulCount > 7 then
                bind_res (rd d lpOut) (\<lambda>x.
                  if x AND push_bit sh 255 \<noteq> push_bit sh 255 then Inr False
                  else tail (lpOut + 1) (ulCount - word_of_nat (8 - sh)))
              else
                let initialWord = (push_bit sh (ucast (NTDLL_maskBits ! unat ulCount)) :: ushort);
                    lo = ucast (initialWord AND 255) :: uchar; hi = ucast (drop_bit 8 initialWord) :: uchar in
                bind_res (rd d lpOut) (\<lambda>x.
                  if x AND lo \<noteq> lo then Inr False
                  else if initialWord AND 0xff00 \<noteq> 0 then
                    bind_res (rd d (lpOut + 1)) (\<lambda>y. Inr (y AND hi = hi))
                  else Inr True)
            else tail lpOut ulCount)"

definition RtlAreBitsClear :: "rtl_bitmap option \<Rightarrow> ulong \<Rightarrow> ulong \<Rightarrow> bool res" where
  "RtlAreBitsClear lpBits ulStart ulCount =
     (case lpBits of None \<Rightarrow> Inr False
      | Some b \<Rightarrow>
          if ulCount = 0 \<or> ulStart + ulCount > SizeOfBitMap b then Inr False
          else
            let lpOut = unat (drop_bit 3 ulStart); sh = unat (ulStart AND 7); d = BitMapBuffer b;
                tail = test_tail (\<lambda>x. x = 0) (\<lambda>x m. x AND m = 0) d in
            if sh \<noteq> 0 then
              if ulCount > 7 then
                bind_res (rd d lpOut) (\<lambda>x.
                  if x AND push_bit sh 255 \<noteq> 0 then Inr False
                  else tail (lpOut + 1) (ulCount - word_of_nat (8 - sh)))
              else
                let initialWord = (push_bit sh (ucast (NTDLL_maskBits ! unat ulCount)) :: ushort);
                    lo = ucast (initialWord AND 255) :: uchar; hi = ucast (drop_bit 8 initialWord) :: uchar in
                bind_res (rd d lpOut) (\<lambda>x.
                  if x AND lo \<noteq> 0 then Inr False
                  else if initialWord AND 0xff00 \<noteq> 0 then
                    bind_res (rd d (lpOut + 1)) (\<lambda>y. Inr (y AND hi = 0))
                  else Inr True)
            else tail lpOut ulCount)"

section \<open>Searching\<close>

text \<open>The loop shared by \<open>RtlFindSetBits\<close> and \<open>RtlFindClearBits\<close>, which differ in the test.\<close>

function find_loop :: "(ulong \<Rightarrow> bool res) \<Rightarrow> ulong \<Rightarrow> ulong \<Rightarrow> ulong \<Rightarrow> ulong res" where
  "find_loop test ulHint ulEnd ulPos =
     (if ulPos < ulEnd then
        (case test ulPos of
           Inl e \<Rightarrow> Inl e
         | Inr True \<Rightarrow> Inr ulPos
         | Inr False \<Rightarrow>
             if ulPos = ulEnd - 1 \<and> ulHint \<noteq> 0 then find_loop test 0 ulHint 0
             else find_loop test ulHint ulEnd (ulPos + 1))
      else Inr (-1))"
  by pat_completeness auto
termination
proof (relation "measure (\<lambda>(t, h, e, p). unat h + (unat e - unat p))", goal_cases)
  case (2 test h e p)
  then show ?case by (simp add: word_less_nat_alt)
next
  case (3 test h e p)
  then have "unat p < unat e" by (simp add: word_less_nat_alt)
  moreover have "unat (p + 1) = Suc (unat p)"
    using \<open>unat p < unat e\<close> by (rule unat_plus_one_below)
  ultimately show ?case by simp
qed simp

declare find_loop.simps [simp del]

definition RtlFindSetBits :: "rtl_bitmap option \<Rightarrow> ulong \<Rightarrow> ulong \<Rightarrow> ulong res" where
  "RtlFindSetBits lpBits ulCount ulHint =
     (case lpBits of None \<Rightarrow> Inr (-1)
      | Some b \<Rightarrow>
          if ulCount = 0 \<or> ulCount > SizeOfBitMap b then Inr (-1)
          else
            let ulHint = (if ulHint + ulCount > SizeOfBitMap b then 0 else ulHint) in
            find_loop (\<lambda>ulPos. RtlAreBitsSet lpBits ulPos ulCount) ulHint (SizeOfBitMap b) ulHint)"

definition RtlFindClearBits :: "rtl_bitmap option \<Rightarrow> ulong \<Rightarrow> ulong \<Rightarrow> ulong res" where
  "RtlFindClearBits lpBits ulCount ulHint =
     (case lpBits of None \<Rightarrow> Inr (-1)
      | Some b \<Rightarrow>
          if ulCount = 0 \<or> ulCount > SizeOfBitMap b then Inr (-1)
          else
            let ulHint = (if ulHint + ulCount > SizeOfBitMap b then 0 else ulHint) in
            find_loop (\<lambda>ulPos. RtlAreBitsClear lpBits ulPos ulCount) ulHint (SizeOfBitMap b) ulHint)"

definition RtlFindSetBitsAndClear ::
  "rtl_bitmap option \<Rightarrow> ulong \<Rightarrow> ulong \<Rightarrow> (ulong \<times> rtl_bitmap option) res" where
  "RtlFindSetBitsAndClear lpBits ulCount ulHint =
     bind_res (RtlFindSetBits lpBits ulCount ulHint) (\<lambda>ulPos.
       if ulPos \<noteq> -1 then bind_res (RtlClearBits lpBits ulPos ulCount) (\<lambda>b. Inr (ulPos, b))
       else Inr (ulPos, lpBits))"

definition RtlFindClearBitsAndSet ::
  "rtl_bitmap option \<Rightarrow> ulong \<Rightarrow> ulong \<Rightarrow> (ulong \<times> rtl_bitmap option) res" where
  "RtlFindClearBitsAndSet lpBits ulCount ulHint =
     bind_res (RtlFindClearBits lpBits ulCount ulHint) (\<lambda>ulPos.
       if ulPos \<noteq> -1 then bind_res (RtlSetBits lpBits ulPos ulCount) (\<lambda>b. Inr (ulPos, b))
       else Inr (ulPos, lpBits))"

section \<open>Counting\<close>

fun count_bytes :: "buf \<Rightarrow> nat \<Rightarrow> nat \<Rightarrow> ulong \<Rightarrow> (nat \<times> ulong) res" where
  "count_bytes d lpOut 0 ulSet = Inr (lpOut, ulSet)"
| "count_bytes d lpOut (Suc ulCount) ulSet =
    bind_res (rd d lpOut) (\<lambda>x.
      count_bytes d (lpOut + 1) ulCount
        (ulSet + word_of_nat (NTDLL_nibbleBitCount ! unat (drop_bit 4 x))
               + word_of_nat (NTDLL_nibbleBitCount ! unat (x AND 0xf))))"

definition RtlNumberOfSetBits :: "rtl_bitmap option \<Rightarrow> ulong res" where
  "RtlNumberOfSetBits lpBits =
     (case lpBits of None \<Rightarrow> Inr 0
      | Some b \<Rightarrow>
          let d = BitMapBuffer b; ulCount = unat (drop_bit 3 (SizeOfBitMap b));
              ulRemainder = unat (SizeOfBitMap b AND 7) in
          bind_res (count_bytes d 0 ulCount 0) (\<lambda>(lpOut, ulSet).
          bind_res (rd d lpOut) (\<lambda>x.
            let bMasked = x AND NTDLL_maskBits ! ulRemainder in
            Inr (ulSet + word_of_nat (NTDLL_nibbleBitCount ! unat (drop_bit 4 bMasked))
                       + word_of_nat (NTDLL_nibbleBitCount ! unat (bMasked AND 0xf))))))"

definition RtlNumberOfClearBits :: "rtl_bitmap option \<Rightarrow> ulong res" where
  "RtlNumberOfClearBits lpBits =
     (case lpBits of None \<Rightarrow> Inr 0
      | Some b \<Rightarrow> bind_res (RtlNumberOfSetBits lpBits) (\<lambda>n. Inr (SizeOfBitMap b - n)))"

definition RtlFindMostSignificantBit :: "ulonglong \<Rightarrow> int" where
  "RtlFindMostSignificantBit ulLong =
     (let ret = 32; dw = (ucast (drop_bit 32 ulLong) :: ulong);
          (ret, dw) = (if dw = 0 then (0, ucast ulLong) else (ret, dw));
          (ret, dw) = (if dw AND 0xffff0000 \<noteq> 0 then (ret + 16, drop_bit 16 dw) else (ret, dw));
          (ret, dw) = (if dw AND 0xff00 \<noteq> 0 then (ret + 8, drop_bit 8 dw) else (ret, dw));
          (ret, dw) = (if dw AND 0xf0 \<noteq> 0 then (ret + 4, drop_bit 4 dw) else (ret, dw))
      in ret + NTDLL_mostSignificant ! unat dw)"

definition RtlFindLeastSignificantBit :: "ulonglong \<Rightarrow> int" where
  "RtlFindLeastSignificantBit ulLong =
     (let ret = 0; dw = (ucast ulLong :: ulong);
          (ret, dw) = (if dw = 0 then (32, ucast (drop_bit 32 ulLong)) else (ret, dw))
      in if dw = 0 then -1
         else
           let (ret, dw) = (if dw AND 0xffff = 0 then (ret + 16, drop_bit 16 dw) else (ret, dw));
               (ret, dw) = (if dw AND 0xff = 0 then (ret + 8, drop_bit 8 dw) else (ret, dw));
               (ret, dw) = (if dw AND 0x0f = 0 then (ret + 4, drop_bit 4 dw) else (ret, dw))
           in ret + int (NTDLL_leastSignificant ! unat (dw AND 0x0f)))"

section \<open>Runs\<close>

text \<open>\<open>NTDLL_FindSetRun\<close> and \<open>NTDLL_FindClearRun\<close> are the same text over \<open>*lpOut\<close> and
  \<open>~*lpOut\<close>; \<open>f\<close> is that reading. The first phase ends without a run, with a complete run
  (its start and size), or with a run that reaches the end of its byte and is counted on
  from \<open>lpOut\<close> at bit \<open>ulStart\<close>.\<close>

datatype run_phase =
    NoRun
  | RunDone (foundAt: ulong) (runSize: ulong)
  | RunOn (nextByte: nat) (nextBit: ulong) (foundAt: ulong) (runSize: ulong)

definition first_offset :: "uchar \<Rightarrow> nat" where
  "first_offset bFirst =
     (if bFirst AND 0x0f \<noteq> 0 then NTDLL_leastSignificant ! unat (bFirst AND 0x0f)
      else 4 + NTDLL_leastSignificant ! unat (drop_bit 4 bFirst))"

function run_in_byte :: "uchar \<Rightarrow> nat \<Rightarrow> nat \<Rightarrow> ulong \<Rightarrow> ulong \<Rightarrow> ulong \<Rightarrow> run_phase" where
  "run_in_byte bFirst ulOffset lpOut ulStart ulFoundAt ulCount =
     (if ulOffset < 8 then
        if bFirst AND push_bit ulOffset 1 = 0 then RunDone ulFoundAt ulCount
        else run_in_byte bFirst (ulOffset + 1) lpOut (ulStart + 1) ulFoundAt (ulCount + 1)
      else RunOn (lpOut + 1) ulStart ulFoundAt ulCount)"
  by pat_completeness auto
termination by (relation "measure (\<lambda>(_, k, _). 8 - k)") auto

declare run_in_byte.simps [simp del]

function run_first :: "(uchar \<Rightarrow> uchar) \<Rightarrow> buf \<Rightarrow> ulong \<Rightarrow> nat \<Rightarrow> ulong \<Rightarrow> run_phase res" where
  "run_first f d ulSize lpOut ulStart =
     (if lpOut < length d then
        let bMask = push_bit (unat (ulStart AND 7)) 255 :: uchar; bFirst = f (d ! lpOut) AND bMask in
        if bFirst \<noteq> 0 then
          if bFirst \<noteq> bMask then
            let ulOffset = first_offset bFirst; ulStart = ulStart + word_of_nat ulOffset in
            Inr (run_in_byte bFirst ulOffset lpOut ulStart ulStart 0)
          else Inr (RunOn (lpOut + 1) ((ulStart AND NOT 7) + 8) ulStart (8 - (ulStart AND 7)))
        else
          let ulStart = (ulStart AND NOT 7) + 8 in
          if ulStart \<ge> ulSize then Inr NoRun else run_first f d ulSize (lpOut + 1) ulStart
      else Inl OutOfBounds)"
  by pat_completeness auto
termination by (relation "measure (\<lambda>(_, d, _, i, _). length d - i)") auto

declare run_first.simps [simp del]

function run_low_bits :: "uchar \<Rightarrow> nat \<Rightarrow> ulong \<Rightarrow> ulong" where
  "run_low_bits x ulOffset ulCount =
     (if ulOffset < 7 then
        if x AND push_bit ulOffset 1 = 0 then ulCount else run_low_bits x (ulOffset + 1) (ulCount + 1)
      else ulCount)"
  by pat_completeness auto
termination by (relation "measure (\<lambda>(_, k, _). 7 - k)") auto

declare run_low_bits.simps [simp del]

text \<open>The second phase: whole bytes, then the low bits of the next one.\<close>

function run_rest :: "(uchar \<Rightarrow> uchar) \<Rightarrow> buf \<Rightarrow> ulong \<Rightarrow> nat \<Rightarrow> ulong \<Rightarrow> ulong \<Rightarrow> ulong res" where
  "run_rest f d ulSize lpOut ulStart ulCount =
     (if lpOut < length d then
        let x = f (d ! lpOut) in
        if x = 255 then
          let ulCount = ulCount + 8; ulStart = ulStart + 8 in
          if ulStart \<ge> ulSize then Inr (ulCount - (ulStart - ulSize))
          else run_rest f d ulSize (lpOut + 1) ulStart ulCount
        else if x AND 1 \<noteq> 0 then Inr (run_low_bits x 0 ulCount) else Inr ulCount
      else Inl OutOfBounds)"
  by pat_completeness auto
termination by (relation "measure (\<lambda>(_, d, _, i, _). length d - i)") auto

declare run_rest.simps [simp del]

text \<open>The return value (\<open>None\<close> for \<open>-1\<close>) and \<open>*lpSize\<close>.\<close>

definition find_run :: "(uchar \<Rightarrow> uchar) \<Rightarrow> rtl_bitmap \<Rightarrow> ulong \<Rightarrow> (ulong \<times> ulong) option res" where
  "find_run f b ulStart =
     bind_res (run_first f (BitMapBuffer b) (SizeOfBitMap b) (unat (drop_bit 3 ulStart)) ulStart)
       (\<lambda>r. case r of
          NoRun \<Rightarrow> Inr None
        | RunDone ulFoundAt ulCount \<Rightarrow> Inr (Some (ulFoundAt, ulCount))
        | RunOn lpOut ulStart ulFoundAt ulCount \<Rightarrow>
            bind_res (run_rest f (BitMapBuffer b) (SizeOfBitMap b) lpOut ulStart ulCount)
              (\<lambda>n. Inr (Some (ulFoundAt, n))))"

definition NTDLL_FindSetRun :: "rtl_bitmap \<Rightarrow> ulong \<Rightarrow> (ulong \<times> ulong) option res" where
  "NTDLL_FindSetRun b ulStart = find_run (\<lambda>x. x) b ulStart"

definition NTDLL_FindClearRun :: "rtl_bitmap \<Rightarrow> ulong \<Rightarrow> (ulong \<times> ulong) option res" where
  "NTDLL_FindClearRun b ulStart = find_run (\<lambda>x. NOT x) b ulStart"

text \<open>The result is \<open>ulSize\<close> and \<open>*lpPos\<close>; a null \<open>lpPos\<close> is \<open>None\<close>.\<close>

definition next_run ::
  "(rtl_bitmap \<Rightarrow> ulong \<Rightarrow> (ulong \<times> ulong) option res) \<Rightarrow> rtl_bitmap option \<Rightarrow> ulong \<Rightarrow> ulong option \<Rightarrow>
   (ulong \<times> ulong option) res" where
  "next_run fn lpBits ulStart lpPos =
     (case lpBits of
        Some b \<Rightarrow>
          if ulStart < SizeOfBitMap b \<and> lpPos \<noteq> None then
            bind_res (fn b ulStart) (\<lambda>r.
              case r of None \<Rightarrow> Inr (0, Some (-1)) | Some (p, n) \<Rightarrow> Inr (n, Some p))
          else Inr (0, lpPos)
      | None \<Rightarrow> Inr (0, lpPos))"

definition RtlFindNextForwardRunSet ::
  "rtl_bitmap option \<Rightarrow> ulong \<Rightarrow> ulong option \<Rightarrow> (ulong \<times> ulong option) res" where
  "RtlFindNextForwardRunSet lpBits ulStart lpPos = next_run NTDLL_FindSetRun lpBits ulStart lpPos"

definition RtlFindNextForwardRunClear ::
  "rtl_bitmap option \<Rightarrow> ulong \<Rightarrow> ulong option \<Rightarrow> (ulong \<times> ulong option) res" where
  "RtlFindNextForwardRunClear lpBits ulStart lpPos = next_run NTDLL_FindClearRun lpBits ulStart lpPos"

definition RtlFindLastBackwardRunSet :: "rtl_bitmap option \<Rightarrow> ulong \<Rightarrow> ulong option \<Rightarrow> ulong" where
  "RtlFindLastBackwardRunSet lpBits ulStart lpPos = 0"

definition RtlFindLastBackwardRunClear :: "rtl_bitmap option \<Rightarrow> ulong \<Rightarrow> ulong option \<Rightarrow> ulong" where
  "RtlFindLastBackwardRunClear lpBits ulStart lpPos = 0"

record rtl_bitmap_run =
  StartOfRun :: ulong
  SizeOfRun :: ulong

definition NTDLL_RunSortFn :: "rtl_bitmap_run \<Rightarrow> rtl_bitmap_run \<Rightarrow> int" where
  "NTDLL_RunSortFn lhs rhs = (if SizeOfRun lhs > SizeOfRun rhs then -1 else 1)"

text \<open>\<open>qsort\<close> with \<open>NTDLL_RunSortFn\<close>, as an insertion sort over the same comparison.\<close>

fun run_insert :: "rtl_bitmap_run \<Rightarrow> rtl_bitmap_run list \<Rightarrow> rtl_bitmap_run list" where
  "run_insert r [] = [r]"
| "run_insert r (s # rs) = (if NTDLL_RunSortFn r s < 0 then r # s # rs else s # run_insert r rs)"

fun run_qsort :: "rtl_bitmap_run list \<Rightarrow> rtl_bitmap_run list" where
  "run_qsort [] = []"
| "run_qsort (r # rs) = run_insert r (run_qsort rs)"

text \<open>The loop of \<open>NTDLL_FindRuns\<close>. The runs found so far are the first \<open>ulRuns\<close> entries of
  \<open>lpSeries\<close>, of which \<open>room\<close> exist. Each round starts behind the last run, so
  \<open>fuel\<close> rounds are enough when it exceeds \<open>SizeOfBitMap\<close>; running out of it is \<open>StackOverrun\<close>.\<close>

definition replace_shortest :: "rtl_bitmap_run \<Rightarrow> rtl_bitmap_run list \<Rightarrow> rtl_bitmap_run list" where
  "replace_shortest r runs =
     (if SizeOfRun r > SizeOfRun (last runs) then butlast runs @ [r] else runs)"

definition needs_sort :: "rtl_bitmap_run \<Rightarrow> rtl_bitmap_run list \<Rightarrow> bool \<Rightarrow> bool" where
  "needs_sort r runs bNeedSort =
     (bNeedSort \<or> SizeOfRun r > SizeOfRun (last runs) \<and> length runs > 1 \<and>
        SizeOfRun r > SizeOfRun (runs ! (length runs - 2)))"

fun find_runs_loop ::
  "nat \<Rightarrow> (rtl_bitmap \<Rightarrow> ulong \<Rightarrow> (ulong \<times> ulong) option res) \<Rightarrow> rtl_bitmap \<Rightarrow> nat \<Rightarrow> ulong \<Rightarrow> bool \<Rightarrow>
   bool \<Rightarrow> ulong \<Rightarrow> rtl_bitmap_run list \<Rightarrow> rtl_bitmap_run list res" where
  "find_runs_loop 0 fn b room ulCount bLongest bNeedSort ulPos runs = Inl StackOverrun"
| "find_runs_loop (Suc fuel) fn b room ulCount bLongest bNeedSort ulPos runs =
    (if ulPos < SizeOfBitMap b then
       bind_res (fn b ulPos) (\<lambda>res. case res of
         None \<Rightarrow> Inr runs
       | Some (ulNextPos, ulSize) \<Rightarrow>
           let r = \<lparr>StartOfRun = ulNextPos, SizeOfRun = ulSize\<rparr> in
           if bLongest \<and> length runs = unat ulCount then
             let runs = (if bNeedSort then run_qsort runs else runs) in
             find_runs_loop fuel fn b room ulCount bLongest (needs_sort r runs bNeedSort)
               (ulNextPos + ulSize) (replace_shortest r runs)
           else if length runs \<ge> room then Inl OutOfBounds
           else
             let runs = runs @ [r] in
             if \<not> bLongest \<and> length runs = unat ulCount then Inr runs
             else find_runs_loop fuel fn b room ulCount bLongest bNeedSort (ulNextPos + ulSize) runs)
     else Inr runs)"

text \<open>The result is the entries written; the return value is their number, \<open>-1\<close> (\<open>None\<close>) for a
  zero \<open>ulCount\<close>.\<close>

definition NTDLL_FindRuns ::
  "rtl_bitmap \<Rightarrow> nat \<Rightarrow> ulong \<Rightarrow> bool \<Rightarrow> (rtl_bitmap \<Rightarrow> ulong \<Rightarrow> (ulong \<times> ulong) option res) \<Rightarrow>
   rtl_bitmap_run list option res" where
  "NTDLL_FindRuns b room ulCount bLongest fn =
     (if ulCount = 0 then Inr None
      else bind_res
        (find_runs_loop (Suc (unat (SizeOfBitMap b))) fn b room ulCount bLongest (ulCount > 1) 0 [])
        (\<lambda>runs. Inr (Some runs)))"

definition RtlFindSetRuns ::
  "rtl_bitmap \<Rightarrow> nat \<Rightarrow> ulong \<Rightarrow> bool \<Rightarrow> rtl_bitmap_run list option res" where
  "RtlFindSetRuns b room ulCount bLongest = NTDLL_FindRuns b room ulCount bLongest NTDLL_FindSetRun"

definition RtlFindClearRuns ::
  "rtl_bitmap \<Rightarrow> nat \<Rightarrow> ulong \<Rightarrow> bool \<Rightarrow> rtl_bitmap_run list option res" where
  "RtlFindClearRuns b room ulCount bLongest = NTDLL_FindRuns b room ulCount bLongest NTDLL_FindClearRun"

text \<open>The result is the size and, when the call stores one, the start; a null \<open>pulStart\<close> only
  drops the latter.\<close>

definition longest_run :: "rtl_bitmap_run list option res \<Rightarrow> (ulong \<times> ulong option) res" where
  "longest_run r =
     bind_res r (\<lambda>s. case s of
       Some [br] \<Rightarrow> Inr (SizeOfRun br, Some (StartOfRun br)) | _ \<Rightarrow> Inr (0, None))"

definition RtlFindLongestRunSet :: "rtl_bitmap \<Rightarrow> (ulong \<times> ulong option) res" where
  "RtlFindLongestRunSet b = longest_run (RtlFindSetRuns b 1 1 True)"

definition RtlFindLongestRunClear :: "rtl_bitmap \<Rightarrow> (ulong \<times> ulong option) res" where
  "RtlFindLongestRunClear b = longest_run (RtlFindClearRuns b 1 1 True)"

end
