(* ===== verification/BitmapCorrect.thy ===== *)
theory BitmapCorrect
  imports Bitmap
begin

text \<open>
  What the routines of \<open>Bitmap\<close> do to the single bits of a bitmap.
\<close>

section \<open>Bits of a buffer\<close>

definition bm_bit :: "buf \<Rightarrow> nat \<Rightarrow> bool" where
  "bm_bit d j = bit (d ! (j div 8)) (j mod 8)"

text \<open>\<open>d'\<close> is \<open>d\<close> with the \<open>c\<close> bits from \<open>s\<close> on set to \<open>v\<close>.\<close>

definition bm_upd :: "bool \<Rightarrow> buf \<Rightarrow> buf \<Rightarrow> nat \<Rightarrow> nat \<Rightarrow> bool" where
  "bm_upd v d d' s c \<longleftrightarrow> length d' = length d \<and>
     (\<forall>j < 8 * length d. bm_bit d' j = (if s \<le> j \<and> j < s + c then v else bm_bit d j))"

lemma bm_upd_refl: "bm_upd v d d s 0"
  by (auto simp: bm_upd_def)

lemma bm_upd_trans:
  "bm_upd v d d1 s c1 \<Longrightarrow> bm_upd v d1 d2 (s + c1) c2 \<Longrightarrow> bm_upd v d d2 s (c1 + c2)"
  by (auto simp: bm_upd_def)

named_theorems bm_word \<open>C shifts and masks read on nat\<close>

lemma and_7_mod [bm_word]: "unat ((w :: ulong) AND 7) = unat w mod 8"
proof -
  have "w AND 7 = take_bit 3 w" by (simp add: take_bit_eq_mask mask_eq_exp_minus_1)
  then show ?thesis by (simp add: take_bit_eq_mod unat_mod)
qed

lemma drop_3_div [bm_word]: "unat (drop_bit 3 (w :: ulong)) = unat w div 8"
  by (simp add: drop_bit_eq_div unat_div)

lemma unat_le_7 [bm_word]: "(w :: ulong) > 7 \<longleftrightarrow> unat w > 7"
  by (simp add: word_less_nat_alt)

lemma unat_minus_nat [bm_word]:
  "n \<le> unat (w :: ulong) \<Longrightarrow> unat (w - word_of_nat n) = unat w - n"
proof -
  assume n: "n \<le> unat w"
  moreover have "unat w < 2 ^ LENGTH(32)" by (rule unsigned_less)
  ultimately have "unat (word_of_nat n :: ulong) = n" by (subst unat_of_nat) simp
  then show ?thesis using n by (simp add: unat_sub word_le_nat_alt)
qed

lemma nat_less_8: "n < 8 \<Longrightarrow> n \<in> {0, 1, 2, 3, 4, 5, 6, 7 :: nat}"
  by auto

lemma maskBits_mask: "n < 8 \<Longrightarrow> NTDLL_maskBits ! n = mask n"
  by (drule nat_less_8) (auto simp: NTDLL_maskBits_def mask_eq_exp_minus_1)

lemma bit_maskBits: "n < 8 \<Longrightarrow> bit (NTDLL_maskBits ! n) k \<longleftrightarrow> k < n"
  by (auto simp: maskBits_mask bit_mask_iff)

lemma bit_ff_shift: "bit (push_bit sh (255 :: uchar)) k \<longleftrightarrow> sh \<le> k \<and> k < 8"
proof -
  have "(255 :: uchar) = mask 8" by (simp add: mask_eq_exp_minus_1)
  then show ?thesis unfolding \<open>255 = mask 8\<close> by (auto simp: bit_push_bit_iff bit_mask_iff)
qed

text \<open>The 16-bit \<open>initialWord\<close> that covers a run of at most 7 bits in one or two bytes.\<close>

lemma bit_initialWord:
  "n < 8 \<Longrightarrow> sh < 8 \<Longrightarrow>
   bit (push_bit sh (ucast (NTDLL_maskBits ! n)) :: ushort) k \<longleftrightarrow> sh \<le> k \<and> k < sh + n"
  by (auto simp: maskBits_mask bit_push_bit_iff bit_mask_iff bit_unsigned_iff bit_ucast_iff)

lemma bit_low_byte: "bit (ucast ((w :: ushort) AND 255) :: uchar) k \<longleftrightarrow> k < 8 \<and> bit w k"
proof -
  have "(255 :: ushort) = mask 8" by (simp add: mask_eq_exp_minus_1)
  then show ?thesis unfolding \<open>255 = mask 8\<close> by (auto simp: bit_ucast_iff bit_and_iff bit_mask_iff)
qed

lemma bit_high_byte: "bit (ucast (drop_bit 8 (w :: ushort)) :: uchar) k \<longleftrightarrow> k < 8 \<and> bit w (8 + k)"
  by (auto simp: bit_ucast_iff bit_drop_bit_eq)

lemma div_8_le: "8 * i \<le> j \<longleftrightarrow> i \<le> j div (8 :: nat)"
  by (simp add: less_eq_div_iff_mult_less_eq mult.commute)

lemma less_div_8: "j < 8 * i \<longleftrightarrow> j div 8 < (i :: nat)"
  by (simp add: div_less_iff_less_mult mult.commute)

lemma mem_set_upd:
  assumes "i + n \<le> length d" "\<forall>k<8. bit v k = b"
  shows "\<exists>d'. mem_set d i v n = Inr d' \<and> bm_upd b d d' (8 * i) (8 * n)"
proof -
  have "bm_bit (take i d @ replicate n v @ drop (i + n) d) j =
      (if 8 * i \<le> j \<and> j < 8 * i + 8 * n then b else bm_bit d j)" if "j < 8 * length d" for j
  proof -
    have "8 * i + 8 * n = 8 * (i + n)" by simp
    then have eq: "8 * i \<le> j \<and> j < 8 * i + 8 * n \<longleftrightarrow> i \<le> j div 8 \<and> j div 8 < i + n"
      by (simp only: div_8_le less_div_8)
    show ?thesis unfolding eq using assms that by (auto simp: bm_bit_def nth_append less_div_8)
  qed
  then show ?thesis using assms by (auto simp: mem_set_def bm_upd_def)
qed

lemma byte_range:
  fixes i j lo n :: nat
  assumes "lo + n \<le> 8"
  shows "8 * i + lo \<le> j \<and> j < 8 * i + lo + n \<longleftrightarrow> j div 8 = i \<and> lo \<le> j mod 8 \<and> j mod 8 < lo + n"
proof -
  obtain q m where j: "j = 8 * q + m" "m < 8" "j div 8 = q" "j mod 8 = m"
    by (metis mod_less_divisor mult_div_mod_eq zero_less_numeral)
  have "8 * i + lo \<le> 8 * q + m \<and> 8 * q + m < 8 * i + lo + n \<longleftrightarrow> q = i \<and> lo \<le> m \<and> m < lo + n"
    using assms j(2) by (cases q i rule: linorder_cases) auto
  then show ?thesis using j by simp
qed

lemma wr_or_upd:
  assumes "i < length d" "lo + n \<le> 8" "\<forall>k<8. bit m k \<longleftrightarrow> lo \<le> k \<and> k < lo + n"
  shows "\<exists>d'. wr_or d i m = Inr d' \<and> bm_upd True d d' (8 * i + lo) n"
  using assms(1,3) unfolding wr_or_def bm_upd_def byte_range [OF assms(2)]
  by (auto simp: bm_bit_def nth_list_update bit_or_iff)

lemma wr_and_upd:
  assumes "i < length d" "lo + n \<le> 8" "\<forall>k<8. bit m k \<longleftrightarrow> \<not> (lo \<le> k \<and> k < lo + n)"
  shows "\<exists>d'. wr_and d i m = Inr d' \<and> bm_upd False d d' (8 * i + lo) n"
  using assms(1,3) unfolding wr_and_def bm_upd_def byte_range [OF assms(2)]
  by (auto simp: bm_bit_def nth_list_update bit_and_iff)

section \<open>Setting and clearing a range\<close>

lemma set_tail_upd:
  assumes "8 * i + unat c < 8 * length d"
  shows "\<exists>d'. set_tail d i c = Inr d' \<and> bm_upd True d d' (8 * i) (unat c)"
proof -
  let ?n = "unat c div 8" and ?r = "unat c mod 8"
  have len: "i + ?n < length d" using assms by linarith
  obtain d1 where d1: "(if ?n \<noteq> 0 then mem_set d i 255 ?n else Inr d) = Inr d1"
    "bm_upd True d d1 (8 * i) (8 * ?n)"
    using mem_set_upd [of i ?n d 255 True] len bm_upd_refl [of True d "8 * i"] bit_ff_shift [of 0]
    by (cases "?n = 0") auto
  have "length d1 = length d" using d1(2) by (simp add: bm_upd_def)
  then obtain d2 where d2: "wr_or d1 (i + ?n) (NTDLL_maskBits ! ?r) = Inr d2"
    "bm_upd True d1 d2 (8 * (i + ?n) + 0) ?r"
    using wr_or_upd [of "i + ?n" d1 0 ?r "NTDLL_maskBits ! ?r"] len by (auto simp: bit_maskBits)
  have "bm_upd True d d2 (8 * i) (8 * ?n + ?r)"
    using bm_upd_trans [OF d1(2), of d2 ?r] d2(2) by (simp add: algebra_simps)
  then show ?thesis using d1(1) d2(1) by (simp add: set_tail_def bm_word Let_def)
qed

lemma clear_tail_upd:
  assumes "8 * i + unat c \<le> 8 * length d"
  shows "\<exists>d'. clear_tail d i c = Inr d' \<and> bm_upd False d d' (8 * i) (unat c)"
proof -
  let ?n = "unat c div 8" and ?r = "unat c mod 8"
  have len: "i + ?n \<le> length d" "?r \<noteq> 0 \<longrightarrow> i + ?n < length d"
    using assms mult_div_mod_eq [of 8 "unat c"] by (linarith, arith)
  obtain d1 where d1: "(if ?n \<noteq> 0 then mem_set d i 0 ?n else Inr d) = Inr d1"
    "bm_upd False d d1 (8 * i) (8 * ?n)"
    using mem_set_upd [of i ?n d 0 False] len bm_upd_refl [of False d "8 * i"]
    by (cases "?n = 0") auto
  have l1: "length d1 = length d" using d1(2) by (simp add: bm_upd_def)
  have r0: "c AND 7 \<noteq> 0 \<longleftrightarrow> ?r \<noteq> 0"
    using bm_word(1) [of c] by (metis unat_eq_zero)
  have "\<exists>d2. (if ?r \<noteq> 0 then wr_and d1 (i + ?n) (NOT (NTDLL_maskBits ! ?r)) else Inr d1) = Inr d2 \<and>
      bm_upd False d1 d2 (8 * (i + ?n) + 0) ?r"
  proof (cases "?r = 0")
    case False
    then show ?thesis
      using wr_and_upd [of "i + ?n" d1 0 ?r "NOT (NTDLL_maskBits ! ?r)"] len l1
      by (auto simp: bit_maskBits bit_not_iff)
  qed (auto simp: bm_upd_def)
  then obtain d2 where d2: "(if ?r \<noteq> 0 then wr_and d1 (i + ?n) (NOT (NTDLL_maskBits ! ?r)) else Inr d1) = Inr d2"
    "bm_upd False d1 d2 (8 * (i + ?n) + 0) ?r" by blast
  have "bm_upd False d d2 (8 * i) (8 * ?n + ?r)"
    using bm_upd_trans [OF d1(2), of d2 ?r] d2(2) by (simp add: algebra_simps)
  then show ?thesis using d1(1) d2(1) r0 by (auto simp: clear_tail_def bm_word Let_def)
qed

text \<open>One byte beyond the bits of the bitmap: what the unconditional last write of
  \<open>RtlSetBits\<close> and the two-byte write of both functions need.\<close>

definition bm_slack :: "rtl_bitmap \<Rightarrow> bool" where
  "bm_slack b \<longleftrightarrow> unat (SizeOfBitMap b) + 8 \<le> 8 * length (BitMapBuffer b)"

definition bm_range :: "rtl_bitmap \<Rightarrow> ulong \<Rightarrow> ulong \<Rightarrow> bool" where
  "bm_range b s c \<longleftrightarrow> c \<noteq> 0 \<and> unat s + unat c \<le> unat (SizeOfBitMap b)"

lemma bm_range_test:
  "bm_range b s c \<Longrightarrow> c \<noteq> 0 \<and> \<not> s + c > SizeOfBitMap b"
proof -
  assume r: "bm_range b s c"
  moreover have "unat (SizeOfBitMap b) < 2 ^ LENGTH(32)" by (rule unsigned_less)
  ultimately have "unat (s + c) = unat s + unat c"
    by (intro unat_add_small) (simp add: bm_range_def)
  then show ?thesis using r by (simp add: bm_range_def word_less_nat_alt)
qed

lemma next_byte: "(s :: nat) + (8 - s mod 8) = 8 * (s div 8 + 1)"
  by presburger

lemma tail_bound:
  fixes i sh s c m len :: nat
  assumes "s = 8 * i + sh" "sh < 8" "m + (8 - sh) = c" "s + c + e \<le> 8 * len"
  shows "8 * (i + 1) + m + e \<le> 8 * len"
  using assms by simp

lemma split_run:
  "(sh :: nat) < 8 \<Longrightarrow> sh + min c (8 - sh) \<le> 8 \<and> (\<forall>k<8. k < sh + c \<longleftrightarrow> k < sh + min c (8 - sh))"
  by auto

lemma split_run_hi:
  "(sh :: nat) < 8 \<Longrightarrow> c \<le> 7 \<Longrightarrow>
   c - (8 - sh) \<le> 8 \<and> (\<forall>k<8. sh \<le> 8 + k \<and> 8 + k < sh + c \<longleftrightarrow> k < c - (8 - sh))"
  by auto

text \<open>A run written as the rest of its first byte and the bytes after it, and one of at most
  seven bits written to two bytes.\<close>

lemma bm_upd_head_tail:
  assumes "bm_upd v d d1 s (8 - s mod 8)" "bm_upd v d1 d2 (8 * (s div 8 + 1)) m" "m + (8 - s mod 8) = c"
  shows "bm_upd v d d2 s c"
  using bm_upd_trans [OF assms(1), of d2 m] assms(2,3) by (simp add: next_byte add.commute)

lemma bm_upd_two_bytes:
  assumes "bm_upd v d d1 s (min c (8 - s mod 8))"
    "bm_upd v d1 d2 (8 * (s div 8 + 1)) (c - (8 - s mod 8))"
  shows "bm_upd v d d2 s c"
proof (cases "c \<le> 8 - s mod 8")
  case True
  then have "bm_upd v d d1 s c" "bm_upd v d1 d2 (s + c) 0"
    using assms by (auto simp: bm_upd_def min_def)
  then show ?thesis using bm_upd_trans [of v d d1 s c d2 0] by simp
next
  case False
  then show ?thesis using assms by (intro bm_upd_head_tail [of v d d1 s d2]) (auto simp: min_def)
qed

lemma bm_head_c:
  assumes "unat (c :: ulong) > 7"
  shows "unat (c - word_of_nat (8 - sh)) + (8 - sh) = unat c"
proof -
  have "unat (c - word_of_nat (8 - sh)) = unat c - (8 - sh)"
    using assms by (intro unat_minus_nat) linarith
  then show ?thesis using assms by linarith
qed

lemma RtlSetBits_upd:
  assumes "bm_range b s c" "bm_slack b"
  shows "\<exists>d'. RtlSetBits (Some b) s c = Inr (Some (b\<lparr>BitMapBuffer := d'\<rparr>)) \<and>
    bm_upd True (BitMapBuffer b) d' (unat s) (unat c)"
proof -
  let ?d = "BitMapBuffer b" and ?i = "unat s div 8" and ?sh = "unat s mod 8"
  have s: "unat s = 8 * ?i + ?sh" and sh: "?sh < 8" by simp_all
  have c0: "unat c \<noteq> 0" using assms(1) by (simp add: bm_range_def unat_eq_zero)
  have bnd: "unat s + unat c + 8 \<le> 8 * length ?d"
    using assms by (simp add: bm_range_def bm_slack_def)
  then have len: "?i < length ?d" "?i + 1 < length ?d" using s c0 by linarith+
  note simps = RtlSetBits_def bm_range_test [OF assms(1)] bm_word Let_def put_buf_def
  consider "?sh = 0" | "?sh \<noteq> 0" "unat c > 7" | "?sh \<noteq> 0" "unat c \<le> 7" by linarith
  then show ?thesis
  proof cases
    case 1
    then have "8 * ?i + unat c < 8 * length ?d" using bnd by linarith
    from set_tail_upd [OF this] show ?thesis using 1 s by (auto simp: simps)
  next
    case 2
    let ?c = "c - word_of_nat (8 - ?sh)"
    obtain d1 where d1: "wr_or ?d ?i (push_bit ?sh 255) = Inr d1" "bm_upd True ?d d1 (unat s) (8 - ?sh)"
      using wr_or_upd [of ?i ?d ?sh "8 - ?sh" "push_bit ?sh 255"] len s by (auto simp: bit_ff_shift)
    then have "8 * (?i + 1) + unat ?c < 8 * length d1"
      using tail_bound [OF s sh bm_head_c [OF 2(2)] bnd] by (simp add: bm_upd_def)
    from set_tail_upd [OF this] obtain d2 where
      d2: "set_tail d1 (?i + 1) ?c = Inr d2" "bm_upd True d1 d2 (8 * (?i + 1)) (unat ?c)" by blast
    then show ?thesis using bm_upd_head_tail [OF d1(2) d2(2) bm_head_c [OF 2(2)]] d1(1) 2
      by (auto simp: simps)
  next
    case 3
    let ?w = "push_bit ?sh (ucast (NTDLL_maskBits ! unat c)) :: ushort"
    let ?n1 = "min (unat c) (8 - ?sh)" and ?n2 = "unat c - (8 - ?sh)"
    note w = bit_initialWord [of "unat c" ?sh]
    obtain d1 where d1: "wr_or ?d ?i (ucast (?w AND 255)) = Inr d1" "bm_upd True ?d d1 (unat s) ?n1"
      using wr_or_upd [OF len(1), of ?sh ?n1 "ucast (?w AND 255)"] split_run [OF sh, of "unat c"] 3 s
      by (auto simp: bit_low_byte w)
    have l1: "?i + 1 < length d1" using d1(2) len by (simp add: bm_upd_def)
    obtain d2 where d2: "wr_or d1 (?i + 1) (ucast (drop_bit 8 ?w)) = Inr d2"
      "bm_upd True d1 d2 (8 * (?i + 1)) ?n2"
      using wr_or_upd [OF l1, of 0 ?n2 "ucast (drop_bit 8 ?w)"] split_run_hi [OF sh 3(2)] 3
      by (auto simp: bit_high_byte w)
    show ?thesis using bm_upd_two_bytes [OF d1(2) d2(2)] d1(1) d2(1) 3 by (auto simp: simps)
  qed
qed

lemma RtlClearBits_upd:
  assumes "bm_range b s c" "bm_slack b"
  shows "\<exists>d'. RtlClearBits (Some b) s c = Inr (Some (b\<lparr>BitMapBuffer := d'\<rparr>)) \<and>
    bm_upd False (BitMapBuffer b) d' (unat s) (unat c)"
proof -
  let ?d = "BitMapBuffer b" and ?i = "unat s div 8" and ?sh = "unat s mod 8"
  have s: "unat s = 8 * ?i + ?sh" and sh: "?sh < 8" by simp_all
  have c0: "unat c \<noteq> 0" using assms(1) by (simp add: bm_range_def unat_eq_zero)
  have bnd: "unat s + unat c + 8 \<le> 8 * length ?d"
    using assms by (simp add: bm_range_def bm_slack_def)
  then have len: "?i < length ?d" "?i + 1 < length ?d" using s c0 by linarith+
  note simps = RtlClearBits_def bm_range_test [OF assms(1)] bm_word Let_def put_buf_def
  consider "?sh = 0" | "?sh \<noteq> 0" "unat c > 7" | "?sh \<noteq> 0" "unat c \<le> 7" by linarith
  then show ?thesis
  proof cases
    case 1
    then have "8 * ?i + unat c \<le> 8 * length ?d" using bnd by linarith
    from clear_tail_upd [OF this] show ?thesis using 1 s by (auto simp: simps)
  next
    case 2
    let ?c = "c - word_of_nat (8 - ?sh)"
    obtain d1 where d1: "wr_and ?d ?i (NOT (push_bit ?sh 255)) = Inr d1" "bm_upd False ?d d1 (unat s) (8 - ?sh)"
      using wr_and_upd [of ?i ?d ?sh "8 - ?sh" "NOT (push_bit ?sh 255)"] len s
      by (auto simp: bit_ff_shift bit_not_iff)
    then have "8 * (?i + 1) + unat ?c \<le> 8 * length d1"
      using tail_bound [OF s sh bm_head_c [OF 2(2)] bnd] by (simp add: bm_upd_def)
    from clear_tail_upd [OF this] obtain d2 where
      d2: "clear_tail d1 (?i + 1) ?c = Inr d2" "bm_upd False d1 d2 (8 * (?i + 1)) (unat ?c)" by blast
    then show ?thesis using bm_upd_head_tail [OF d1(2) d2(2) bm_head_c [OF 2(2)]] d1(1) 2
      by (auto simp: simps)
  next
    case 3
    let ?w = "NOT (push_bit ?sh (ucast (NTDLL_maskBits ! unat c)) :: ushort)"
    let ?n1 = "min (unat c) (8 - ?sh)" and ?n2 = "unat c - (8 - ?sh)"
    note w = bit_initialWord [of "unat c" ?sh]
    obtain d1 where d1: "wr_and ?d ?i (ucast (?w AND 255)) = Inr d1" "bm_upd False ?d d1 (unat s) ?n1"
      using wr_and_upd [OF len(1), of ?sh ?n1 "ucast (?w AND 255)"] split_run [OF sh, of "unat c"] 3 s
      by (auto simp: bit_low_byte bit_not_iff w)
    have l1: "?i + 1 < length d1" using d1(2) len by (simp add: bm_upd_def)
    obtain d2 where d2: "wr_and d1 (?i + 1) (ucast (drop_bit 8 ?w)) = Inr d2"
      "bm_upd False d1 d2 (8 * (?i + 1)) ?n2"
      using wr_and_upd [OF l1, of 0 ?n2 "ucast (drop_bit 8 ?w)"] split_run_hi [OF sh 3(2)] 3
      by (auto simp: bit_high_byte bit_not_iff w)
    show ?thesis using bm_upd_two_bytes [OF d1(2) d2(2)] d1(1) d2(1) 3 by (auto simp: simps)
  qed
qed

end
