(* ===== verification/BitmapScan.thy ===== *)
theory BitmapScan
  imports BitmapCorrect
begin

text \<open>
  The scanning routines of \<open>Bitmap\<close>: the bit scans, the tests and searches for a range
  of equal bits, the counts and the runs.
\<close>

section \<open>Most and least significant bit\<close>

lemma and_mask_eq_0:
  fixes w :: "'a::len word"
  assumes "n + m \<le> LENGTH('a)"
  shows "w AND push_bit n (mask m) = 0 \<longleftrightarrow> take_bit m (drop_bit n w) = 0"
proof
  assume l: "w AND push_bit n (mask m) = 0"
  show "take_bit m (drop_bit n w) = 0"
  proof (rule bit_word_eqI)
    fix k
    have "\<not> bit (w AND push_bit n (mask m)) (n + k)" unfolding l by simp
    then show "bit (take_bit m (drop_bit n w)) k = bit (0 :: 'a word) k"
      using assms by (auto simp: bit_take_bit_iff bit_drop_bit_eq bit_and_iff bit_push_bit_iff bit_mask_iff
          dest: bit_imp_le_length)
  qed
next
  assume l: "take_bit m (drop_bit n w) = 0"
  show "w AND push_bit n (mask m) = 0"
  proof (rule bit_word_eqI)
    fix k
    have "\<not> bit (take_bit m (drop_bit n w)) (k - n)" unfolding l by simp
    then show "bit (w AND push_bit n (mask m)) k = bit (0 :: 'a word) k"
      by (auto simp: bit_take_bit_iff bit_drop_bit_eq bit_and_iff bit_push_bit_iff bit_mask_iff)
  qed
qed

lemma unat_drop: "unat (drop_bit n (w :: 'a::len word)) = unat w div 2 ^ n"
  by (rule bit_eqI) (simp add: bit_unsigned_iff bit_drop_bit_eq drop_bit_eq_div [symmetric])

lemma and_mask_unat:
  fixes w :: ulong
  assumes "n + m \<le> 32"
  shows "w AND push_bit n (mask m) = 0 \<longleftrightarrow> unat w div 2 ^ n mod 2 ^ m = 0"
proof -
  have "w AND push_bit n (mask m) = 0 \<longleftrightarrow> unat (take_bit m (drop_bit n w)) = 0"
    using assms by (subst and_mask_eq_0) (auto simp: unat_eq_zero)
  also have "unat (take_bit m (drop_bit n w)) = unat w div 2 ^ n mod 2 ^ m"
    by (simp add: unsigned_take_bit_eq unat_drop take_bit_nat_def)
  finally show ?thesis .
qed

lemma msb_masks:
  fixes dw :: ulong
  shows "dw AND 0xffff0000 = 0 \<longleftrightarrow> unat dw div 2 ^ 16 mod 2 ^ 16 = 0"
    "dw AND 0xff00 = 0 \<longleftrightarrow> unat dw div 2 ^ 8 mod 2 ^ 8 = 0"
    "dw AND 0xf0 = 0 \<longleftrightarrow> unat dw div 2 ^ 4 mod 2 ^ 4 = 0"
  using and_mask_unat [of 16 16 dw] and_mask_unat [of 8 8 dw] and_mask_unat [of 4 4 dw]
  by (simp_all add: mask_eq_exp_minus_1 push_bit_eq_mult)

lemma lsb_masks:
  fixes dw :: ulong
  shows "dw AND 0xffff = 0 \<longleftrightarrow> unat dw mod 2 ^ 16 = 0"
    "dw AND 0xff = 0 \<longleftrightarrow> unat dw mod 2 ^ 8 = 0"
    "dw AND 0x0f = 0 \<longleftrightarrow> unat dw mod 2 ^ 4 = 0"
  using and_mask_unat [of 0 16 dw] and_mask_unat [of 0 8 dw] and_mask_unat [of 0 4 dw]
  by (simp_all add: mask_eq_exp_minus_1)

text \<open>\<open>r\<close> is the position of the most significant bit of \<open>n\<close>, of the least significant one.\<close>

definition msb_at :: "nat \<Rightarrow> int \<Rightarrow> bool" where
  "msb_at n r \<longleftrightarrow> 0 \<le> r \<and> 2 ^ nat r \<le> n \<and> n < 2 ^ Suc (nat r)"

definition lsb_at :: "nat \<Rightarrow> int \<Rightarrow> bool" where
  "lsb_at n r \<longleftrightarrow> 0 \<le> r \<and> 2 ^ nat r dvd n \<and> \<not> 2 ^ Suc (nat r) dvd n"

lemma msb_at_div: "msb_at (n div 2 ^ k) r \<Longrightarrow> msb_at n (int k + r)"
  by (auto simp: msb_at_def nat_add_distrib power_add less_mult_imp_div_less div_less_iff_less_mult
      less_eq_div_iff_mult_less_eq algebra_simps)

lemma lsb_at_div:
  assumes "n mod 2 ^ k = 0" "lsb_at (n div 2 ^ k) r"
  shows "lsb_at n (int k + r)"
proof -
  obtain m where "n = 2 ^ k * m" using assms(1) by auto
  then show ?thesis using assms(2) by (auto simp: lsb_at_def nat_add_distrib power_add)
qed

lemma mostSignificant_table: "0 < n \<Longrightarrow> n < 16 \<Longrightarrow> msb_at n (NTDLL_mostSignificant ! n)"
proof -
  have "\<forall>n\<in>set [1..<16]. msb_at n (NTDLL_mostSignificant ! n)" by code_simp
  then show "0 < n \<Longrightarrow> n < 16 \<Longrightarrow> msb_at n (NTDLL_mostSignificant ! n)" by simp
qed

lemma lsb_at_mod_exp:
  assumes "lsb_at (n mod 2 ^ e) r"
  shows "lsb_at n r"
proof -
  have "n mod 2 ^ e \<noteq> 0"
  proof
    assume "n mod 2 ^ e = 0"
    with assms show False unfolding lsb_at_def by simp
  qed
  then have "2 ^ nat r \<le> n mod 2 ^ e" using assms by (intro dvd_imp_le) (auto simp: lsb_at_def simp del: power_Suc mod_greater_zero_iff_not_dvd mod_eq_0_iff_dvd)
  then have "(2 :: nat) ^ nat r < 2 ^ e" by (rule le_less_trans) simp
  then have r: "nat r < e" by (rule power_less_imp_less_exp [rotated]) simp
  have "2 ^ m dvd n mod 2 ^ e \<longleftrightarrow> 2 ^ m dvd n" if "m \<le> e" for m
    using le_imp_power_dvd [OF that, of "2 :: nat"] by (rule dvd_mod_iff)
  moreover have "nat r \<le> e" "Suc (nat r) \<le> e" using r by arith+
  ultimately show ?thesis using assms by (simp add: lsb_at_def del: power_Suc)
qed

lemma less_16: "0 < n \<Longrightarrow> n < 16 \<Longrightarrow> n \<in> {1,2,3,4,5,6,7,8,9,10,11,12,13,14,15 :: nat}"
  by simp arith

lemma leastSignificant_nibble:
  assumes "0 < n" "n < 16"
  shows "lsb_at n (int (NTDLL_leastSignificant ! n)) \<and> NTDLL_leastSignificant ! n < 4"
  using less_16 [OF assms]
  by (elim insertE emptyE) (simp_all add: lsb_at_def NTDLL_leastSignificant_def)

lemma leastSignificant_table:
  assumes "n mod 16 \<noteq> 0"
  shows "lsb_at n (int (NTDLL_leastSignificant ! (n mod 16)))"
proof -
  have "n mod 16 < 16" by simp
  from leastSignificant_nibble [OF _ this] assms
  have "lsb_at (n mod 2 ^ 4) (int (NTDLL_leastSignificant ! (n mod 16)))" by simp
  then show ?thesis by (rule lsb_at_mod_exp)
qed

lemma and_0f_mod: "unat ((dw :: ulong) AND 0x0f) = unat dw mod 16"
proof -
  have "dw AND 0x0f = take_bit 4 dw" by (simp add: take_bit_eq_mask mask_eq_exp_minus_1)
  then show ?thesis by (simp add: take_bit_eq_mod unat_mod)
qed

text \<open>One halving step of each scan: the half with the bit, as a smaller number, and how far
  it is shifted.\<close>

definition msb_state :: "nat \<Rightarrow> nat \<Rightarrow> int \<times> ulong \<Rightarrow> bool" where
  "msb_state N e s \<longleftrightarrow> (case s of (ret, dw) \<Rightarrow>
     0 < unat dw \<and> unat dw < 2 ^ e \<and> (\<forall>r. msb_at (unat dw) r \<longrightarrow> msb_at N (ret + r)))"

lemma msb_state_step:
  assumes "msb_state N (2 * e) (ret, dw)" "dw AND m = 0 \<longleftrightarrow> unat dw div 2 ^ e mod 2 ^ e = 0"
  shows "msb_state N e (if dw AND m \<noteq> 0 then (ret + int e, drop_bit e dw) else (ret, dw))"
proof -
  have "unat dw div 2 ^ e < 2 ^ e"
    using assms(1) by (simp add: msb_state_def div_less_iff_less_mult mult_2 power_add)
  then have m: "dw AND m = 0 \<longleftrightarrow> unat dw div 2 ^ e = 0" using assms(2) by simp
  show ?thesis
  proof (cases "unat dw div 2 ^ e = 0")
    case True
    then have "unat dw < 2 ^ e" by (simp add: div_eq_0_iff)
    then show ?thesis using assms(1) m True by (simp add: msb_state_def)
  next
    case False
    moreover have "msb_at N (ret + int e + r)" if "msb_at (unat dw div 2 ^ e) r" for r
      using msb_at_div [OF that] assms(1) by (auto simp: msb_state_def add.assoc)
    ultimately show ?thesis using m \<open>unat dw div 2 ^ e < 2 ^ e\<close>
      by (auto simp: msb_state_def unat_drop)
  qed
qed

lemma msb_state_end:
  "msb_state N 4 s \<Longrightarrow> msb_at N (case s of (ret, dw) \<Rightarrow> ret + NTDLL_mostSignificant ! unat dw)"
  using mostSignificant_table by (auto simp: msb_state_def)

lemma unat_lo_hi:
  "unat (ucast (u :: ulonglong) :: ulong) = unat u mod 2 ^ 32"
  "unat (ucast (drop_bit 32 (u :: ulonglong)) :: ulong) = unat u div 2 ^ 32"
proof -
  have "unat u < 2 ^ LENGTH(64)" by (rule unsigned_less)
  then have "unat u div 2 ^ 32 < 2 ^ 32" by (simp add: div_less_iff_less_mult)
  then show "unat (ucast (u :: ulonglong) :: ulong) = unat u mod 2 ^ 32"
    "unat (ucast (drop_bit 32 (u :: ulonglong)) :: ulong) = unat u div 2 ^ 32"
    by (simp_all add: unsigned_ucast_eq take_bit_nat_def unat_drop)
qed

lemma ulong_bound: "unat (w :: ulong) < 2 ^ 32"
  using unsigned_less [of w] by simp

lemma RtlFindMostSignificantBit_msb:
  assumes "u \<noteq> 0"
  shows "msb_at (unat u) (RtlFindMostSignificantBit u)"
proof -
  define lo hi where "lo = (ucast u :: ulong)" and "hi = (ucast (drop_bit 32 u) :: ulong)"
  note defs = lo_def [symmetric] hi_def [symmetric]
  have lh: "unat lo = unat u mod 2 ^ 32" "unat hi = unat u div 2 ^ 32"
    unfolding lo_def hi_def by (rule unat_lo_hi)+
  obtain r0 d0 where e0: "(if hi = 0 then (0, lo) else (32, hi)) = (r0 :: int, d0 :: ulong)"
    by force
  have "msb_state (unat u) (2 * 16) (r0, d0)"
  proof (cases "hi = 0")
    case True
    then have "unat u div 2 ^ 32 = 0" using lh(2) by simp
    then have "unat lo = unat u" by (simp add: lh div_eq_0_iff)
    moreover have "0 < unat u" using assms by (simp add: unat_gt_0)
    ultimately show ?thesis using e0 True ulong_bound [of lo] by (auto simp: msb_state_def)
  next
    case False
    then have "0 < unat hi" by (simp only: unat_gt_0) simp
    moreover have "msb_at (unat u) (32 + r)" if "msb_at (unat u div 2 ^ 32) r" for r
      using msb_at_div [OF that] by simp
    moreover have "r0 = 32" "d0 = hi" using e0 False by auto
    ultimately show ?thesis using ulong_bound [of hi]
      unfolding msb_state_def prod.case by (simp add: lh)
  qed
  note m0 = msb_state_step [OF this msb_masks(1), unfolded of_nat_numeral]
  obtain r1 d1 where e1:
    "(if d0 AND 0xffff0000 \<noteq> 0 then (r0 + 16, drop_bit 16 d0) else (r0, d0)) = (r1, d1)" by force
  then have "msb_state (unat u) (2 * 8) (r1, d1)" using m0 by simp
  note m1 = msb_state_step [OF this msb_masks(2), unfolded of_nat_numeral]
  obtain r2 d2 where e2:
    "(if d1 AND 0xff00 \<noteq> 0 then (r1 + 8, drop_bit 8 d1) else (r1, d1)) = (r2, d2)" by force
  then have "msb_state (unat u) (2 * 4) (r2, d2)" using m1 by simp
  note m2 = msb_state_end [OF msb_state_step [OF this msb_masks(3)], unfolded of_nat_numeral]
  have "RtlFindMostSignificantBit u =
      (case if d2 AND 0xf0 \<noteq> 0 then (r2 + 4, drop_bit 4 d2) else (r2, d2) of
         (ret, dw) \<Rightarrow> ret + NTDLL_mostSignificant ! unat dw)"
    unfolding RtlFindMostSignificantBit_def Let_def defs e0 prod.case e1 e2 ..
  then show ?thesis using m2 by simp
qed

lemma RtlFindMostSignificantBit_0: "RtlFindMostSignificantBit 0 = -1"
  by (simp add: RtlFindMostSignificantBit_def NTDLL_mostSignificant_def)

definition lsb_state :: "nat \<Rightarrow> nat \<Rightarrow> int \<times> ulong \<Rightarrow> bool" where
  "lsb_state N e s \<longleftrightarrow> (case s of (ret, dw) \<Rightarrow>
     unat dw mod 2 ^ e \<noteq> 0 \<and> (\<forall>r. lsb_at (unat dw) r \<longrightarrow> lsb_at N (ret + r)))"

lemma lsb_state_step:
  assumes "lsb_state N (2 * e) (ret, dw)" "dw AND m = 0 \<longleftrightarrow> unat dw mod 2 ^ e = 0"
  shows "lsb_state N e (if dw AND m = 0 then (ret + int e, drop_bit e dw) else (ret, dw))"
proof (cases "unat dw mod 2 ^ e = 0")
  case True
  have "lsb_at N (ret + int e + r)" if "lsb_at (unat dw div 2 ^ e) r" for r
    using lsb_at_div [OF True that] assms(1) by (auto simp: lsb_state_def add.assoc)
  moreover have "unat dw div 2 ^ e mod 2 ^ e \<noteq> 0"
    using assms(1) True by (auto simp: lsb_state_def mult_2 power_add mod_mult2_eq)
  ultimately show ?thesis using assms(2) True by (simp add: lsb_state_def unat_drop)
next
  case False
  then show ?thesis using assms by (simp add: lsb_state_def)
qed

lemma lsb_state_end:
  "lsb_state N 4 s \<Longrightarrow>
   lsb_at N (case s of (ret, dw) \<Rightarrow> ret + int (NTDLL_leastSignificant ! unat (dw AND 0x0f)))"
  using leastSignificant_table by (auto simp: lsb_state_def and_0f_mod)

lemma RtlFindLeastSignificantBit_lsb:
  assumes "u \<noteq> 0"
  shows "lsb_at (unat u) (RtlFindLeastSignificantBit u)"
proof -
  define lo hi where "lo = (ucast u :: ulong)" and "hi = (ucast (drop_bit 32 u) :: ulong)"
  note defs = lo_def [symmetric] hi_def [symmetric]
  have lh: "unat lo = unat u mod 2 ^ 32" "unat hi = unat u div 2 ^ 32"
    unfolding lo_def hi_def by (rule unat_lo_hi)+
  obtain r0 d0 where e0: "(if lo = 0 then (32, hi) else (0, lo)) = (r0 :: int, d0 :: ulong)"
    by force
  have u0: "unat u \<noteq> 0" using assms by (simp add: unat_eq_zero)
  have "lsb_state (unat u) (2 * 16) (r0, d0)"
  proof (cases "lo = 0")
    case True
    then have z: "unat u mod 2 ^ 32 = 0" using lh(1) by simp
    then have "unat hi \<noteq> 0" using u0 unfolding lh by (metis add_0 div_mult_mod_eq mult_0 add.right_neutral)
    moreover have "lsb_at (unat u) (32 + r)" if "lsb_at (unat u div 2 ^ 32) r" for r
      using lsb_at_div [OF z that] by simp
    moreover have "r0 = 32" "d0 = hi" using e0 True by auto
    ultimately show ?thesis using ulong_bound [of hi]
      unfolding lsb_state_def prod.case by (simp add: lh)
  next
    case False
    then have l: "unat u mod 2 ^ 32 \<noteq> 0" using lh(1) by (metis unat_eq_zero)
    have "lsb_at (unat u) r" if "lsb_at (unat u mod 2 ^ 32) r" for r
      using that by (rule lsb_at_mod_exp)
    moreover have "r0 = 0" "d0 = lo" using e0 False by auto
    ultimately show ?thesis using l
      unfolding lsb_state_def prod.case by (simp add: lh)
  qed
  note m = this lsb_state_step [OF this lsb_masks(1), unfolded of_nat_numeral]
  have d0: "d0 \<noteq> 0" using m(1) by (auto simp: lsb_state_def)
  obtain r1 d1 where e1:
    "(if d0 AND 0xffff = 0 then (r0 + 16, drop_bit 16 d0) else (r0, d0)) = (r1, d1)" by force
  then have "lsb_state (unat u) (2 * 8) (r1, d1)" using m(2) by simp
  note m1 = lsb_state_step [OF this lsb_masks(2), unfolded of_nat_numeral]
  obtain r2 d2 where e2:
    "(if d1 AND 0xff = 0 then (r1 + 8, drop_bit 8 d1) else (r1, d1)) = (r2, d2)" by force
  then have "lsb_state (unat u) (2 * 4) (r2, d2)" using m1 by simp
  note m2 = lsb_state_end [OF lsb_state_step [OF this lsb_masks(3)], unfolded of_nat_numeral]
  have "RtlFindLeastSignificantBit u =
      (case if d2 AND 0x0f = 0 then (r2 + 4, drop_bit 4 d2) else (r2, d2) of
         (ret, dw) \<Rightarrow> ret + int (NTDLL_leastSignificant ! unat (dw AND 0x0f)))"
    unfolding RtlFindLeastSignificantBit_def Let_def defs e0 prod.case if_not_P [OF d0] e1 e2 ..
  then show ?thesis using m2 by simp
qed

lemma RtlFindLeastSignificantBit_0: "RtlFindLeastSignificantBit 0 = -1"
  by (simp add: RtlFindLeastSignificantBit_def)

section \<open>Testing a range\<close>

lemma word_eq_255: "(x :: uchar) = 255 \<longleftrightarrow> (\<forall>k<8. bit x k)"
proof -
  have "(255 :: uchar) = mask 8" by (simp add: mask_eq_exp_minus_1)
  then show ?thesis by (auto simp: bit_eq_iff bit_mask_iff dest: bit_imp_le_length)
qed

lemma word_eq_0: "(x :: uchar) = 0 \<longleftrightarrow> (\<forall>k<8. \<not> bit x k)"
  by (auto simp: bit_eq_iff dest: bit_imp_le_length)

lemma and_eq_right: "(x :: uchar) AND m = m \<longleftrightarrow> (\<forall>k<8. bit m k \<longrightarrow> bit x k)"
  by (auto simp: bit_eq_iff bit_and_iff dest: bit_imp_le_length)

text \<open>The contract of the byte tests of \<open>RtlAreBitsSet\<close> and \<open>RtlAreBitsClear\<close>: \<open>P\<close> tests a whole
  byte for the value \<open>v\<close>, \<open>Q\<close> the bits of a mask.\<close>

definition bm_all :: "bool \<Rightarrow> buf \<Rightarrow> nat \<Rightarrow> nat \<Rightarrow> bool" where
  "bm_all v d s c \<longleftrightarrow> (\<forall>j. s \<le> j \<and> j < s + c \<longrightarrow> bm_bit d j = v)"

lemma bm_all_add: "bm_all v d s (c1 + c2) \<longleftrightarrow> bm_all v d s c1 \<and> bm_all v d (s + c1) c2"
proof -
  have "s \<le> j \<and> j < s + (c1 + c2) \<longleftrightarrow> (s \<le> j \<and> j < s + c1) \<or> (s + c1 \<le> j \<and> j < s + c1 + c2)" for j
    by arith
  then show ?thesis by (auto simp: bm_all_def)
qed

lemma bm_all_0 [simp]: "bm_all v d s 0"
  by (auto simp: bm_all_def)

lemma bm_all_byte:
  assumes "lo + n \<le> 8"
  shows "bm_all v d (8 * i + lo) n \<longleftrightarrow> (\<forall>k. lo \<le> k \<and> k < lo + n \<longrightarrow> bit (d ! i) k = v)"
proof
  assume l: "bm_all v d (8 * i + lo) n"
  show "\<forall>k. lo \<le> k \<and> k < lo + n \<longrightarrow> bit (d ! i) k = v"
  proof (intro allI impI)
    fix k assume "lo \<le> k \<and> k < lo + n"
    then show "bit (d ! i) k = v"
      using l assms by (auto simp: bm_all_def bm_bit_def dest!: spec [of _ "8 * i + k"])
  qed
next
  assume "\<forall>k. lo \<le> k \<and> k < lo + n \<longrightarrow> bit (d ! i) k = v"
  then show "bm_all v d (8 * i + lo) n"
    using assms by (auto simp: bm_all_def bm_bit_def byte_range)
qed

locale byte_tests =
  fixes v :: bool and P :: "uchar \<Rightarrow> bool" and Q :: "uchar \<Rightarrow> uchar \<Rightarrow> bool"
  assumes P_byte: "P x \<longleftrightarrow> (\<forall>k<8. bit x k = v)"
    and Q_mask: "Q x m \<longleftrightarrow> (\<forall>k<8. bit m k \<longrightarrow> bit x k = v)"
begin

lemma all_bytes_range:
  "i + n \<le> length d \<Longrightarrow> all_bytes P d i n = Inr (bm_all v d (8 * i) (8 * n))"
proof (induction n arbitrary: i)
  case (Suc n)
  have "8 * Suc n = 8 + 8 * n" by simp
  moreover have "bm_all v d (8 * i) 8 \<longleftrightarrow> P (d ! i)"
    using bm_all_byte [of 0 8 v d i] by (auto simp: P_byte)
  ultimately show ?case using Suc.IH [of "Suc i"] Suc.prems
    by (simp only: bm_all_add) (auto simp: rd_def add.commute)
qed simp

lemma test_tail_range:
  assumes "8 * i + unat c \<le> 8 * length d"
  shows "test_tail P Q d i c = Inr (bm_all v d (8 * i) (unat c))"
proof -
  let ?n = "unat c div 8" and ?r = "unat c mod 8"
  have len: "i + ?n \<le> length d" "?r \<noteq> 0 \<longrightarrow> i + ?n < length d"
    using assms mult_div_mod_eq [of 8 "unat c"] by (linarith, arith)
  have "bm_all v d (8 * i) (unat c) \<longleftrightarrow> bm_all v d (8 * i) (8 * ?n) \<and> bm_all v d (8 * (i + ?n)) ?r"
    using bm_all_add [of v d "8 * i" "8 * ?n" ?r] by (simp add: distrib_left)
  moreover have "bm_all v d (8 * (i + ?n)) ?r \<longleftrightarrow> Q (d ! (i + ?n)) (NTDLL_maskBits ! ?r)"
    using bm_all_byte [of 0 ?r v d "i + ?n"] by (auto simp: Q_mask bit_maskBits)
  ultimately show ?thesis
    using all_bytes_range [OF len(1)] len(2)
    by (auto simp: test_tail_def Let_def bm_word rd_def)
qed

lemma head_mask:
  "sh < 8 \<Longrightarrow> Q (d ! i) (push_bit sh 255) \<longleftrightarrow> bm_all v d (8 * i + sh) (8 - sh)"
  by (subst bm_all_byte) (auto simp: Q_mask bit_ff_shift)

lemma two_bytes:
  assumes "n \<le> 7" "sh < 8"
  defines "w \<equiv> push_bit sh (ucast (NTDLL_maskBits ! n)) :: ushort"
  shows "Q (d ! i) (ucast (w AND 255)) \<longleftrightarrow> bm_all v d (8 * i + sh) (min n (8 - sh))"
    "Q (d ! (i + 1)) (ucast (drop_bit 8 w)) \<longleftrightarrow> bm_all v d (8 * (i + 1)) (n - (8 - sh))"
proof -
  have w: "bit w k \<longleftrightarrow> sh \<le> k \<and> k < sh + n" for k
    using assms bit_initialWord [of n sh] by simp
  show "Q (d ! i) (ucast (w AND 255)) \<longleftrightarrow> bm_all v d (8 * i + sh) (min n (8 - sh))"
    using assms(1,2) by (subst bm_all_byte) (auto simp: Q_mask bit_low_byte w)
  show "Q (d ! (i + 1)) (ucast (drop_bit 8 w)) \<longleftrightarrow> bm_all v d (8 * (i + 1)) (n - (8 - sh))"
    using assms(1,2) bm_all_byte [of 0 "n - (8 - sh)" v d "i + 1"]
      split_run_hi [OF assms(2,1)] by (auto simp: Q_mask bit_high_byte w)
qed

end

interpretation set_tests: byte_tests True "\<lambda>x. x = 255" "\<lambda>x m. x AND m = m"
  by unfold_locales (simp_all add: word_eq_255 and_eq_right)

interpretation clear_tests: byte_tests False "\<lambda>x. x = 0" "\<lambda>x m. x AND m = 0"
  by unfold_locales (auto simp: word_eq_0 bit_and_iff)

lemma initialWord_high:
  assumes "n \<le> 7" "sh < 8"
  shows "(push_bit sh (ucast (NTDLL_maskBits ! n)) :: ushort) AND 0xff00 \<noteq> 0 \<longleftrightarrow> 8 < sh + n"
proof -
  let ?w = "push_bit sh (ucast (NTDLL_maskBits ! n)) :: ushort"
  have "(0xff00 :: ushort) = push_bit 8 (mask 8)" by (simp add: mask_eq_exp_minus_1 push_bit_eq_mult)
  then have "?w AND 0xff00 \<noteq> 0 \<longleftrightarrow> (\<exists>k. bit ?w k \<and> 8 \<le> k \<and> k < 16)"
    by (auto simp: bit_eq_iff bit_and_iff bit_push_bit_iff bit_mask_iff)
  also have "\<dots> \<longleftrightarrow> 8 < sh + n"
    using assms by (auto simp: bit_initialWord intro: exI [of _ 8] exI [of _ sh])
  finally show ?thesis .
qed

lemma bm_all_head:
  assumes "m + (8 - s mod 8) = c"
  shows "bm_all v d s c \<longleftrightarrow> bm_all v d s (8 - s mod 8) \<and> bm_all v d (8 * (s div 8 + 1)) m"
  using bm_all_add [of v d s "8 - s mod 8" m] assms by (simp add: next_byte add.commute)

lemma bm_all_two_bytes:
  "bm_all v d s c \<longleftrightarrow>
   bm_all v d s (min c (8 - s mod 8)) \<and> bm_all v d (8 * (s div 8 + 1)) (c - (8 - s mod 8))"
proof (cases "c \<le> 8 - s mod 8")
  case False
  then show ?thesis using bm_all_head [of "c - (8 - s mod 8)" s c] by (simp add: min_def)
qed (simp add: min_def)

definition bm_room :: "rtl_bitmap \<Rightarrow> bool" where
  "bm_room b \<longleftrightarrow> unat (SizeOfBitMap b) \<le> 8 * length (BitMapBuffer b)"

lemma RtlAreBitsSet_range:
  assumes "bm_range b s c" "bm_room b"
  shows "RtlAreBitsSet (Some b) s c = Inr (bm_all True (BitMapBuffer b) (unat s) (unat c))"
proof -
  let ?d = "BitMapBuffer b" and ?i = "unat s div 8" and ?sh = "unat s mod 8"
  have s: "unat s = 8 * ?i + ?sh" and sh: "?sh < 8" by simp_all
  have c0: "unat c \<noteq> 0" using assms(1) by (simp add: bm_range_def unat_eq_zero)
  have bnd: "unat s + unat c \<le> 8 * length ?d"
    using assms by (simp add: bm_range_def bm_room_def)
  then have len: "?i < length ?d" using s c0 by linarith
  note simps = RtlAreBitsSet_def bm_range_test [OF assms(1)] bm_word Let_def
  consider "?sh = 0" | "?sh \<noteq> 0" "unat c > 7" | "?sh \<noteq> 0" "unat c \<le> 7" by linarith
  then show ?thesis
  proof cases
    case 1
    then show ?thesis using set_tests.test_tail_range [of ?i c ?d] bnd s by (simp add: simps)
  next
    case 2
    let ?c = "c - word_of_nat (8 - ?sh)"
    have "8 * (?i + 1) + unat ?c \<le> 8 * length ?d"
      using tail_bound [OF s sh bm_head_c [OF 2(2)], of 0] bnd by simp
    from set_tests.test_tail_range [OF this] show ?thesis
      using bm_all_head [OF bm_head_c [OF 2(2)], of True ?d] set_tests.head_mask [OF sh, of ?d ?i] 2 len s [symmetric]
      by (auto simp: simps rd_def)
  next
    case 3
    have hi_len: "8 < ?sh + unat c \<Longrightarrow> ?i + 1 < length ?d" using bnd s by linarith
    define w where "w = (push_bit ?sh (ucast (NTDLL_maskBits ! unat c)) :: ushort)"
    define lo hi :: uchar where "lo = ucast (w AND 255)" and "hi = ucast (drop_bit 8 w)"
    have run: "RtlAreBitsSet (Some b) s c =
        bind_res (rd ?d ?i) (\<lambda>x. if x AND lo \<noteq> lo then Inr False
          else if 8 < ?sh + unat c then bind_res (rd ?d (?i + 1)) (\<lambda>y. Inr (y AND hi = hi)) else Inr True)"
      using 3 initialWord_high [OF 3(2) sh] bm_range_test [OF assms(1)]
      unfolding lo_def hi_def w_def simps by simp
    have lo: "x AND lo = lo \<longleftrightarrow> bm_all True ?d (unat s) (min (unat c) (8 - ?sh))" if "x = ?d ! ?i" for x
      using set_tests.two_bytes(1) [OF 3(2) sh, of ?d ?i] that unfolding lo_def w_def s [symmetric] by simp
    have hi: "y AND hi = hi \<longleftrightarrow> bm_all True ?d (8 * (?i + 1)) (unat c - (8 - ?sh))" if "y = ?d ! (?i + 1)" for y
      using set_tests.two_bytes(2) [OF 3(2) sh, of ?d ?i] that unfolding hi_def w_def by simp
    have "unat c - (8 - ?sh) = 0" if "\<not> 8 < ?sh + unat c" using that by arith
    then show ?thesis unfolding run bm_all_two_bytes [of _ _ "unat s" "unat c"]
      using len hi_len by (auto simp: rd_def lo hi)
  qed
qed

lemma RtlAreBitsClear_range:
  assumes "bm_range b s c" "bm_room b"
  shows "RtlAreBitsClear (Some b) s c = Inr (bm_all False (BitMapBuffer b) (unat s) (unat c))"
proof -
  let ?d = "BitMapBuffer b" and ?i = "unat s div 8" and ?sh = "unat s mod 8"
  have s: "unat s = 8 * ?i + ?sh" and sh: "?sh < 8" by simp_all
  have c0: "unat c \<noteq> 0" using assms(1) by (simp add: bm_range_def unat_eq_zero)
  have bnd: "unat s + unat c \<le> 8 * length ?d"
    using assms by (simp add: bm_range_def bm_room_def)
  then have len: "?i < length ?d" using s c0 by linarith
  note simps = RtlAreBitsClear_def bm_range_test [OF assms(1)] bm_word Let_def
  consider "?sh = 0" | "?sh \<noteq> 0" "unat c > 7" | "?sh \<noteq> 0" "unat c \<le> 7" by linarith
  then show ?thesis
  proof cases
    case 1
    then show ?thesis using clear_tests.test_tail_range [of ?i c ?d] bnd s by (simp add: simps)
  next
    case 2
    let ?c = "c - word_of_nat (8 - ?sh)"
    have "8 * (?i + 1) + unat ?c \<le> 8 * length ?d"
      using tail_bound [OF s sh bm_head_c [OF 2(2)], of 0] bnd by simp
    from clear_tests.test_tail_range [OF this] show ?thesis
      using bm_all_head [OF bm_head_c [OF 2(2)], of False ?d] clear_tests.head_mask [OF sh, of ?d ?i] 2 len s [symmetric]
      by (auto simp: simps rd_def)
  next
    case 3
    have hi_len: "8 < ?sh + unat c \<Longrightarrow> ?i + 1 < length ?d" using bnd s by linarith
    define w where "w = (push_bit ?sh (ucast (NTDLL_maskBits ! unat c)) :: ushort)"
    define lo hi :: uchar where "lo = ucast (w AND 255)" and "hi = ucast (drop_bit 8 w)"
    have run: "RtlAreBitsClear (Some b) s c =
        bind_res (rd ?d ?i) (\<lambda>x. if x AND lo \<noteq> 0 then Inr False
          else if 8 < ?sh + unat c then bind_res (rd ?d (?i + 1)) (\<lambda>y. Inr (y AND hi = 0)) else Inr True)"
      using 3 initialWord_high [OF 3(2) sh] bm_range_test [OF assms(1)]
      unfolding lo_def hi_def w_def simps by simp
    have lo: "x AND lo = 0 \<longleftrightarrow> bm_all False ?d (unat s) (min (unat c) (8 - ?sh))" if "x = ?d ! ?i" for x
      using clear_tests.two_bytes(1) [OF 3(2) sh, of ?d ?i] that unfolding lo_def w_def s [symmetric] by simp
    have hi: "y AND hi = 0 \<longleftrightarrow> bm_all False ?d (8 * (?i + 1)) (unat c - (8 - ?sh))" if "y = ?d ! (?i + 1)" for y
      using clear_tests.two_bytes(2) [OF 3(2) sh, of ?d ?i] that unfolding hi_def w_def by simp
    have "unat c - (8 - ?sh) = 0" if "\<not> 8 < ?sh + unat c" using that by arith
    then show ?thesis unfolding run bm_all_two_bytes [of _ _ "unat s" "unat c"]
      using len hi_len by (auto simp: rd_def lo hi)
  qed
qed

section \<open>Searching for a range\<close>

lemma find_upt_Cons:
  "lo < hi \<Longrightarrow> find T [lo..<hi] = (if T lo then Some lo else find T [Suc lo..<hi])"
  by (simp add: upt_conv_Cons)

lemma find_append: "find P (xs @ ys) = (case find P xs of None \<Rightarrow> find P ys | Some x \<Rightarrow> Some x)"
  by (induction xs) auto

definition pos_or_none :: "nat option \<Rightarrow> ulong" where
  "pos_or_none r = (case r of None \<Rightarrow> -1 | Some q \<Rightarrow> word_of_nat q)"

lemma pos_or_none_simps [simp]:
  "pos_or_none None = -1" "pos_or_none (Some (unat p)) = p"
  by (simp_all add: pos_or_none_def)

lemma find_loop_0:
  assumes "\<And>p. p < e \<Longrightarrow> test p = Inr (T (unat p))"
  shows "find_loop test 0 e p = Inr (pos_or_none (find T [unat p..<unat e]))"
proof (induction "unat e - unat p" arbitrary: p)
  case 0
  then show ?case by (subst find_loop.simps) (simp add: word_less_nat_alt)
next
  case (Suc n)
  then have lt: "unat p < unat e" by simp
  then have p1: "unat (p + 1) = Suc (unat p)" by (rule unat_plus_one_below)
  then have "n = unat e - unat (p + 1)" using Suc.hyps(2) by simp
  from Suc.hyps(1) [OF this] show ?case
    using lt assms [of p] p1 by (subst find_loop.simps) (simp add: word_less_nat_alt find_upt_Cons)
qed

lemma find_loop_hint:
  assumes "\<And>p. p < e \<Longrightarrow> test p = Inr (T (unat p))" "h < e" "p < e" "h \<noteq> 0"
  shows "find_loop test h e p = Inr (pos_or_none (find T ([unat p..<unat e] @ [0..<unat h])))"
  using assms(3)
proof (induction "unat e - unat p" arbitrary: p)
  case (Suc n)
  then have lt: "unat p < unat e" by (simp add: word_less_nat_alt)
  then have p1: "unat (p + 1) = Suc (unat p)" by (rule unat_plus_one_below)
  have t: "test p = Inr (T (unat p))" using Suc.prems by (rule assms(1))
  show ?case
  proof (cases "p = e - 1")
    case True
    have e: "e = p + 1" using True by simp
    have "find_loop test 0 h 0 = Inr (pos_or_none (find T [0..<unat h]))"
      using find_loop_0 [of h test T 0] assms(1,2) by (simp add: order_less_trans [of _ h e])
    moreover have "[unat p..<unat e] = [unat p]" using p1 e by (simp add: upt_conv_Cons)
    ultimately show ?thesis using t True Suc.prems assms(4)
      by (subst find_loop.simps) simp
  next
    case False
    have "unat (p + 1) \<noteq> unat e" using False by (metis add_diff_cancel_right' unsigned_word_eqI)
    then have "p + 1 < e" "n = unat e - unat (p + 1)"
      using p1 lt Suc.hyps(2) by (simp_all add: word_less_nat_alt)
    from Suc.hyps(1) [OF this(2,1)] show ?thesis
      using t lt p1 False Suc.prems by (subst find_loop.simps) (simp add: upt_conv_Cons)
  qed
qed (simp add: word_less_nat_alt)

text \<open>Where a range of \<open>c\<close> bits with value \<open>v\<close> starts, and the order in which the positions are tried.\<close>

definition run_at :: "bool \<Rightarrow> rtl_bitmap \<Rightarrow> nat \<Rightarrow> nat \<Rightarrow> bool" where
  "run_at v b c q \<longleftrightarrow> q + c \<le> unat (SizeOfBitMap b) \<and> bm_all v (BitMapBuffer b) q c"

definition search_order :: "rtl_bitmap \<Rightarrow> nat \<Rightarrow> nat \<Rightarrow> nat list" where
  "search_order b h c =
     (let n = unat (SizeOfBitMap b); h = (if h + c > n then 0 else h) in [h..<n] @ [0..<h])"

definition bm_half :: "rtl_bitmap \<Rightarrow> bool" where
  "bm_half b \<longleftrightarrow> unat (SizeOfBitMap b) \<le> 2 ^ 31"

lemma no_range:
  assumes "bm_half b" "p < SizeOfBitMap b" "c \<le> SizeOfBitMap b" "c \<noteq> 0" "\<not> bm_range b p c"
  shows "p + c > SizeOfBitMap b"
proof -
  have "unat p + unat c < 2 ^ LENGTH(32)"
    using assms(1-3) by (simp add: bm_half_def word_less_nat_alt word_le_nat_alt)
  then have "unat (p + c) = unat p + unat c" by (rule unat_add_small)
  then show ?thesis using assms(4,5) by (simp add: bm_range_def word_less_nat_alt)
qed

lemma RtlAreBitsSet_at:
  assumes "bm_room b" "bm_half b" "p < SizeOfBitMap b" "c \<noteq> 0" "c \<le> SizeOfBitMap b"
  shows "RtlAreBitsSet (Some b) p c = Inr (run_at True b (unat c) (unat p))"
proof (cases "bm_range b p c")
  case True
  then show ?thesis using RtlAreBitsSet_range assms by (simp add: run_at_def bm_range_def)
next
  case False
  then show ?thesis using no_range [OF assms(2,3,5,4)] assms(4)
    by (simp add: RtlAreBitsSet_def run_at_def bm_range_def)
qed

lemma RtlAreBitsClear_at:
  assumes "bm_room b" "bm_half b" "p < SizeOfBitMap b" "c \<noteq> 0" "c \<le> SizeOfBitMap b"
  shows "RtlAreBitsClear (Some b) p c = Inr (run_at False b (unat c) (unat p))"
proof (cases "bm_range b p c")
  case True
  then show ?thesis using RtlAreBitsClear_range assms by (simp add: run_at_def bm_range_def)
next
  case False
  then show ?thesis using no_range [OF assms(2,3,5,4)] assms(4)
    by (simp add: RtlAreBitsClear_def run_at_def bm_range_def)
qed

text \<open>The search of either function, given its test.\<close>

lemma find_from_hint:
  assumes test: "\<And>p. p < SizeOfBitMap b \<Longrightarrow> test p = Inr (T (unat p))"
    and "c \<noteq> 0" "c \<le> SizeOfBitMap b" "unat h + unat c < 2 ^ 32"
  defines "h' \<equiv> (if h + c > SizeOfBitMap b then 0 else h)"
  shows "find_loop test h' (SizeOfBitMap b) h' = Inr (pos_or_none (find T (search_order b (unat h) (unat c))))"
proof -
  let ?n = "unat (SizeOfBitMap b)"
  have "unat (h + c) = unat h + unat c" using assms(4) by (intro unat_add_small) simp
  then have h': "unat h' = (if unat h + unat c > ?n then 0 else unat h)"
    by (simp add: h'_def word_less_nat_alt)
  then have order: "search_order b (unat h) (unat c) = [unat h'..<?n] @ [0..<unat h']"
    by (simp add: search_order_def Let_def)
  have c0: "unat c \<noteq> 0" using assms(2) by (simp add: unat_eq_zero)
  show ?thesis
  proof (cases "h' = 0")
    case True
    then show ?thesis using find_loop_0 [of _ test T, OF test] unfolding order by simp
  next
    case False
    then have "unat h' \<noteq> 0" by (simp add: unat_eq_zero)
    then have "h' < SizeOfBitMap b" using h' c0 by (auto simp: word_less_nat_alt split: if_splits)
    then show ?thesis unfolding order using find_loop_hint [of _ test T, OF test] False by blast
  qed
qed

lemma RtlFindSetBits_first:
  assumes "bm_room b" "bm_half b" "c \<noteq> 0" "c \<le> SizeOfBitMap b" "unat h + unat c < 2 ^ 32"
  shows "RtlFindSetBits (Some b) c h =
    Inr (pos_or_none (find (run_at True b (unat c)) (search_order b (unat h) (unat c))))"
  using find_from_hint [of b "\<lambda>p. RtlAreBitsSet (Some b) p c" "run_at True b (unat c)",
      OF RtlAreBitsSet_at [OF assms(1,2) _ assms(3,4)] assms(3-5)] assms(3) not_less [THEN iffD2, OF assms(4)]
  by (simp add: RtlFindSetBits_def Let_def)

lemma RtlFindClearBits_first:
  assumes "bm_room b" "bm_half b" "c \<noteq> 0" "c \<le> SizeOfBitMap b" "unat h + unat c < 2 ^ 32"
  shows "RtlFindClearBits (Some b) c h =
    Inr (pos_or_none (find (run_at False b (unat c)) (search_order b (unat h) (unat c))))"
  using find_from_hint [of b "\<lambda>p. RtlAreBitsClear (Some b) p c" "run_at False b (unat c)",
      OF RtlAreBitsClear_at [OF assms(1,2) _ assms(3,4)] assms(3-5)] assms(3) not_less [THEN iffD2, OF assms(4)]
  by (simp add: RtlFindClearBits_def Let_def)

lemma find_run_pos:
  assumes "find (run_at v b c) xs = Some q" "bm_half b" "0 < c"
  shows "unat (pos_or_none (Some q)) = q" "pos_or_none (Some q) \<noteq> -1" "run_at v b c q"
proof -
  have q: "run_at v b c q" using assms(1) by (auto simp: find_Some_iff)
  then have lt: "q < 2 ^ 31" using assms(2,3) by (simp add: run_at_def bm_half_def)
  then show u: "unat (pos_or_none (Some q)) = q" by (simp add: pos_or_none_def unat_of_nat)
  have "unat (-1 :: ulong) = 2 ^ 32 - 1" by (simp add: unsigned_minus_1_eq_mask mask_eq_exp_minus_1)
  then show "pos_or_none (Some q) \<noteq> -1" using u lt by (intro notI) simp
  show "run_at v b c q" by (rule q)
qed

lemma bm_slack_room: "bm_slack b \<Longrightarrow> bm_room b"
  by (simp add: bm_slack_def bm_room_def)

lemma run_at_range:
  "run_at v b (unat c) (unat p) \<Longrightarrow> c \<noteq> 0 \<Longrightarrow> bm_range b p c"
  by (simp add: run_at_def bm_range_def)

lemma RtlFindSetBitsAndClear_found:
  assumes "bm_slack b" "bm_half b" "c \<noteq> 0" "c \<le> SizeOfBitMap b" "unat h + unat c < 2 ^ 32"
    and f: "find (run_at True b (unat c)) (search_order b (unat h) (unat c)) = Some q"
  shows "\<exists>p d'. RtlFindSetBitsAndClear (Some b) c h = Inr (p, Some (b\<lparr>BitMapBuffer := d'\<rparr>)) \<and>
    unat p = q \<and> run_at True b (unat c) q \<and> bm_upd False (BitMapBuffer b) d' q (unat c)"
proof -
  have "0 < unat c" using assms(3) by (simp add: unat_gt_0)
  note p = find_run_pos [OF f assms(2) this]
  then have "bm_range b (pos_or_none (Some q)) c" using assms(3) by (intro run_at_range) simp_all
  from RtlClearBits_upd [OF this assms(1)] show ?thesis
    using p RtlFindSetBits_first [OF bm_slack_room [OF assms(1)] assms(2-5)] f
    by (auto simp: RtlFindSetBitsAndClear_def)
qed

lemma RtlFindClearBitsAndSet_found:
  assumes "bm_slack b" "bm_half b" "c \<noteq> 0" "c \<le> SizeOfBitMap b" "unat h + unat c < 2 ^ 32"
    and f: "find (run_at False b (unat c)) (search_order b (unat h) (unat c)) = Some q"
  shows "\<exists>p d'. RtlFindClearBitsAndSet (Some b) c h = Inr (p, Some (b\<lparr>BitMapBuffer := d'\<rparr>)) \<and>
    unat p = q \<and> run_at False b (unat c) q \<and> bm_upd True (BitMapBuffer b) d' q (unat c)"
proof -
  have "0 < unat c" using assms(3) by (simp add: unat_gt_0)
  note p = find_run_pos [OF f assms(2) this]
  then have "bm_range b (pos_or_none (Some q)) c" using assms(3) by (intro run_at_range) simp_all
  from RtlSetBits_upd [OF this assms(1)] show ?thesis
    using p RtlFindClearBits_first [OF bm_slack_room [OF assms(1)] assms(2-5)] f
    by (auto simp: RtlFindClearBitsAndSet_def)
qed

section \<open>Counting\<close>

definition bm_count :: "buf \<Rightarrow> nat \<Rightarrow> nat \<Rightarrow> nat" where
  "bm_count d s c = card {j. s \<le> j \<and> j < s + c \<and> bm_bit d j}"

lemma bm_count_add: "bm_count d s (c1 + c2) = bm_count d s c1 + bm_count d (s + c1) c2"
proof -
  have "{j. s \<le> j \<and> j < s + (c1 + c2) \<and> bm_bit d j} =
      {j. s \<le> j \<and> j < s + c1 \<and> bm_bit d j} \<union> {j. s + c1 \<le> j \<and> j < s + c1 + c2 \<and> bm_bit d j}" by auto
  then show ?thesis unfolding bm_count_def by (simp add: card_Un_disjoint disjoint_iff)
qed

lemma bm_count_0 [simp]: "bm_count d s 0 = 0"
  by (simp add: bm_count_def)

lemma bm_count_le: "bm_count d s c \<le> c"
proof -
  have "bm_count d s c \<le> card {s..<s + c}" unfolding bm_count_def by (rule card_mono) auto
  then show ?thesis by simp
qed

definition nibble_sum :: "uchar \<Rightarrow> nat" where
  "nibble_sum x = NTDLL_nibbleBitCount ! unat (drop_bit 4 x) + NTDLL_nibbleBitCount ! unat (x AND 0xf)"

lemma bm_count_byte:
  assumes "n \<le> 8"
  shows "bm_count d (8 * i) n = card {k. k < n \<and> bit (d ! i) k}"
proof -
  have "{j. 8 * i \<le> j \<and> j < 8 * i + n \<and> bm_bit d j} = (+) (8 * i) ` {k. k < n \<and> bit (d ! i) k}"
  proof (rule set_eqI, rule iffI)
    fix j
    assume "j \<in> {j. 8 * i \<le> j \<and> j < 8 * i + n \<and> bm_bit d j}"
    moreover from this have "j div 8 = i" "j mod 8 < n" using byte_range [of 0 n i j] assms by auto
    ultimately show "j \<in> (+) (8 * i) ` {k. k < n \<and> bit (d ! i) k}"
      by (intro image_eqI [of _ _ "j mod 8"]) (auto simp: bm_bit_def)
  next
    fix j
    assume "j \<in> (+) (8 * i) ` {k. k < n \<and> bit (d ! i) k}"
    then obtain k where "j = 8 * i + k" "k < n" "bit (d ! i) k" by auto
    then show "j \<in> {j. 8 * i \<le> j \<and> j < 8 * i + n \<and> bm_bit d j}" using assms by (simp add: bm_bit_def)
  qed
  then show ?thesis by (simp add: bm_count_def card_image)
qed

lemma nibbleBitCount_bits:
  "n < 16 \<Longrightarrow> NTDLL_nibbleBitCount ! n =
   of_bool (bit n 0) + of_bool (bit n 1) + of_bool (bit n 2) + of_bool (bit n 3)"
proof (cases "n = 0")
  case False
  moreover assume "n < 16"
  ultimately have "n \<in> {1,2,3,4,5,6,7,8,9,10,11,12,13,14,15}" by (intro less_16) simp
  then show ?thesis
    by (elim insertE emptyE) (simp_all add: NTDLL_nibbleBitCount_def bit_iff_odd)
qed (simp add: NTDLL_nibbleBitCount_def)

lemma sum_8: "(\<Sum>k<(8::nat). f k) = f 0 + f 1 + f 2 + f 3 + f 4 + f 5 + f 6 + (f 7 :: nat)"
  by (simp add: numeral_eq_Suc)

lemma card_bits_byte: "card {k. k < 8 \<and> bit (x :: uchar) k} = (\<Sum>k<8. of_bool (bit x k))"
proof -
  have "{k. k < 8 \<and> bit x k} = {k \<in> {..<8}. bit x k}" by auto
  then show ?thesis by (simp add: sum.If_cases of_bool_def Int_def)
qed

lemma nibble_sum_card: "nibble_sum x = card {k. k < 8 \<and> bit x k}"
proof -
  have lo: "unat (x AND 0xf) < 16" and hi: "unat (drop_bit 4 x) < 16"
  proof -
    have "x AND 0xf = take_bit 4 x" by (simp add: take_bit_eq_mask mask_eq_exp_minus_1)
    then show "unat (x AND 0xf) < 16" by (simp add: take_bit_eq_mod unat_mod)
    have "unat x < 2 ^ LENGTH(8)" by (rule unsigned_less)
    then show "unat (drop_bit 4 x) < 16" by (simp add: unat_drop)
  qed
  have l: "bit (unat (x AND 0xf)) k \<longleftrightarrow> k < 4 \<and> bit x k" for k
  proof -
    have "x AND 0xf = take_bit 4 x" by (simp add: take_bit_eq_mask mask_eq_exp_minus_1)
    then show ?thesis by (simp add: bit_unsigned_iff bit_take_bit_iff)
  qed
  have h: "bit (unat (drop_bit 4 x)) k \<longleftrightarrow> bit x (4 + k)" for k
    by (simp add: bit_unsigned_iff bit_drop_bit_eq)
  show ?thesis unfolding nibble_sum_def nibbleBitCount_bits [OF lo] nibbleBitCount_bits [OF hi] card_bits_byte sum_8 l h
    by simp
qed

lemma count_bytes_range:
  "i + n \<le> length d \<Longrightarrow>
   count_bytes d i n acc = Inr (i + n, acc + word_of_nat (bm_count d (8 * i) (8 * n)))"
proof (induction n arbitrary: i acc)
  case (Suc n)
  have "8 * Suc n = 8 + 8 * n" by simp
  then have "bm_count d (8 * i) (8 * Suc n) = nibble_sum (d ! i) + bm_count d (8 * (i + 1)) (8 * n)"
    using bm_count_add [of d "8 * i" 8 "8 * n"] bm_count_byte [of 8 d i]
    by (simp add: nibble_sum_card add.commute)
  then show ?case using Suc by (simp add: rd_def nibble_sum_def add.assoc)
qed simp

lemma RtlNumberOfSetBits_count:
  assumes "unat (SizeOfBitMap b) < 8 * length (BitMapBuffer b)"
  shows "RtlNumberOfSetBits (Some b) =
    Inr (word_of_nat (bm_count (BitMapBuffer b) 0 (unat (SizeOfBitMap b))))"
proof -
  let ?d = "BitMapBuffer b" and ?n = "unat (SizeOfBitMap b) div 8" and ?r = "unat (SizeOfBitMap b) mod 8"
  define x where "x = ?d ! ?n AND NTDLL_maskBits ! ?r"
  have len: "?n < length ?d" using assms by linarith
  have "k < 8 \<and> bit x k \<longleftrightarrow> k < ?r \<and> bit (?d ! ?n) k" for k
    by (auto simp: x_def bit_and_iff bit_maskBits dest: bit_imp_le_length)
  then have "nibble_sum x = bm_count ?d (8 * ?n) ?r"
    by (simp add: nibble_sum_card bm_count_byte)
  moreover have run: "RtlNumberOfSetBits (Some b) =
      bind_res (count_bytes ?d 0 ?n 0) (\<lambda>(lpOut, ulSet). bind_res (rd ?d lpOut) (\<lambda>x.
        Inr (ulSet + word_of_nat (nibble_sum (x AND NTDLL_maskBits ! ?r)))))"
    by (simp add: RtlNumberOfSetBits_def Let_def bm_word nibble_sum_def add.assoc)
  moreover have "bm_count ?d 0 (8 * ?n + ?r) = bm_count ?d 0 (8 * ?n) + bm_count ?d (8 * ?n) ?r"
    using bm_count_add [of ?d 0 "8 * ?n" ?r] by (simp only: add_0)
  ultimately show ?thesis
    using count_bytes_range [of 0 ?n ?d 0] len unfolding run
    by (simp add: rd_def x_def [symmetric])
qed

lemma RtlNumberOfClearBits_count:
  assumes "unat (SizeOfBitMap b) < 8 * length (BitMapBuffer b)"
  shows "RtlNumberOfClearBits (Some b) =
    Inr (word_of_nat (unat (SizeOfBitMap b) - bm_count (BitMapBuffer b) 0 (unat (SizeOfBitMap b))))"
  using RtlNumberOfSetBits_count [OF assms] bm_count_le [of "BitMapBuffer b" 0 "unat (SizeOfBitMap b)"]
  by (simp add: RtlNumberOfClearBits_def of_nat_diff)

end
