(* ===== verification/BitmapRuns.thy ===== *)
theory BitmapRuns
  imports BitmapScan
begin

text \<open>
  The runs of \<open>Bitmap\<close>: what \<open>NTDLL_FindSetRun\<close> and \<open>NTDLL_FindClearRun\<close> find from a byte
  boundary, and where they go wrong inside a byte.
\<close>

section \<open>Runs\<close>

definition wn :: "nat \<Rightarrow> ulong" where
  "wn n = word_of_nat n"

lemma wn_simps: "wn a + wn b = wn (a + b)" "wn a + 1 = wn (Suc a)" "wn a + 8 = wn (a + 8)" "0 = wn 0"
  by (simp_all add: wn_def)

lemma wn_diff: "b \<le> a \<Longrightarrow> wn (a - b) = wn a - wn b"
  by (simp add: wn_def of_nat_diff)

lemma unat_wn: "a < 2 ^ 32 \<Longrightarrow> unat (wn a) = a"
  unfolding wn_def by (subst unat_of_nat) simp

lemma wn_unat: "wn (unat w) = w"
  by (simp add: wn_def)

definition fbit :: "(uchar \<Rightarrow> uchar) \<Rightarrow> buf \<Rightarrow> nat \<Rightarrow> bool" where
  "fbit f d j = bit (f (d ! (j div 8))) (j mod 8)"

lemma fbit_byte: "k < 8 \<Longrightarrow> fbit f d (8 * i + k) = bit (f (d ! i)) k"
  by (simp add: fbit_def)

definition f_all :: "bool \<Rightarrow> (uchar \<Rightarrow> uchar) \<Rightarrow> buf \<Rightarrow> nat \<Rightarrow> nat \<Rightarrow> bool" where
  "f_all v f d s e \<longleftrightarrow> (\<forall>j. s \<le> j \<and> j < e \<longrightarrow> fbit f d j = v)"

lemma f_all_join: "f_all v f d a b \<Longrightarrow> f_all v f d b c \<Longrightarrow> f_all v f d a c"
  unfolding f_all_def
proof (intro allI impI)
  fix j
  assume "\<forall>j. a \<le> j \<and> j < b \<longrightarrow> fbit f d j = v" "\<forall>j. b \<le> j \<and> j < c \<longrightarrow> fbit f d j = v" "a \<le> j \<and> j < c"
  then show "fbit f d j = v" by (cases "j < b") auto
qed

lemma f_all_byte:
  "n \<le> 8 \<Longrightarrow> f_all v f d (8 * i + k) (8 * i + n) \<longleftrightarrow> (\<forall>m. k \<le> m \<and> m < n \<longrightarrow> bit (f (d ! i)) m = v)"
proof -
  assume n: "n \<le> 8"
  have "8 * i + k \<le> j \<and> j < 8 * i + n \<longleftrightarrow> (\<exists>m. j = 8 * i + m \<and> k \<le> m \<and> m < n)" for j
  proof
    assume "8 * i + k \<le> j \<and> j < 8 * i + n"
    then have "j = 8 * i + (j - 8 * i) \<and> k \<le> j - 8 * i \<and> j - 8 * i < n" by arith
    then show "\<exists>m. j = 8 * i + m \<and> k \<le> m \<and> m < n" by blast
  qed auto
  moreover have "fbit f d (8 * i + m) = bit (f (d ! i)) m" if "m < n" for m
    using that n by (intro fbit_byte) simp
  ultimately show ?thesis unfolding f_all_def by (auto 0 4)
qed

lemmas and_bit_test = and_exp_eq_0_iff_not_bit

lemma all_less_numerals:
  "(\<forall>k<Suc 0. P k) \<longleftrightarrow> P 0" "(\<forall>k<(2::nat). P k) \<longleftrightarrow> P 0 \<and> P 1"
  "(\<forall>k<(3::nat). P k) \<longleftrightarrow> P 0 \<and> P 1 \<and> P 2"
  by (auto simp: numeral_eq_Suc less_Suc_eq)

lemma leastSignificant_bits:
  assumes "0 < n" "n < 16"
  shows "NTDLL_leastSignificant ! n < 4 \<and> bit n (NTDLL_leastSignificant ! n) \<and>
    (\<forall>k < NTDLL_leastSignificant ! n. \<not> bit n k)"
  using less_16 [OF assms]
  by (elim insertE emptyE) (simp_all add: NTDLL_leastSignificant_def bit_iff_odd all_less_numerals)

lemma first_offset_bits:
  assumes "x \<noteq> 0"
  shows "first_offset x < 8 \<and> bit x (first_offset x) \<and> (\<forall>k < first_offset x. \<not> bit x k)"
proof -
  have t: "x AND 0x0f = take_bit 4 x" by (simp add: take_bit_eq_mask mask_eq_exp_minus_1)
  have lo: "unat (x AND 0x0f) < 16" unfolding t by (simp add: take_bit_eq_mod unat_mod)
  have lb: "bit (unat (x AND 0x0f)) k \<longleftrightarrow> k < 4 \<and> bit x k" for k
    unfolding t by (simp add: bit_unsigned_iff bit_take_bit_iff)
  have "unat x < 2 ^ LENGTH(8)" by (rule unsigned_less)
  then have hi: "unat (drop_bit 4 x) < 16" by (simp add: unat_drop)
  have hb: "bit (unat (drop_bit 4 x)) k \<longleftrightarrow> bit x (4 + k)" for k
    by (simp add: bit_unsigned_iff bit_drop_bit_eq)
  show ?thesis
  proof (cases "x AND 0x0f = 0")
    case False
    then have "0 < unat (x AND 0x0f)" by (simp add: unat_gt_0)
    from leastSignificant_bits [OF this lo] show ?thesis using False
      by (auto simp: first_offset_def lb)
  next
    case True
    then have z: "\<not> bit x k" if "k < 4" for k using lb [of k] that by simp
    have "drop_bit 4 x \<noteq> 0"
    proof
      assume d: "drop_bit 4 x = 0"
      have "\<not> bit x k" for k
        using z hb [of "k - 4"] unfolding d by (cases "k < 4") auto
      then show False using assms by (simp add: word_eq_0)
    qed
    then have "0 < unat (drop_bit 4 x)" by (simp add: unat_gt_0)
    from leastSignificant_bits [OF this hi]
    have l: "NTDLL_leastSignificant ! unat (drop_bit 4 x) < 4"
      "bit x (4 + NTDLL_leastSignificant ! unat (drop_bit 4 x))"
      "\<forall>k < NTDLL_leastSignificant ! unat (drop_bit 4 x). \<not> bit x (4 + k)" by (simp_all add: hb)
    have "\<not> bit x k" if "k < 4 + NTDLL_leastSignificant ! unat (drop_bit 4 x)" for k
      using z l(3) that by (cases "k < 4") (auto dest: spec [of _ "k - 4"])
    then show ?thesis using l True by (simp add: first_offset_def)
  qed
qed

lemma run_in_byte_scan:
  "off \<le> 8 \<Longrightarrow> \<exists>e\<le>8. off \<le> e \<and> (\<forall>k. off \<le> k \<and> k < e \<longrightarrow> bit x k) \<and> (e < 8 \<longrightarrow> \<not> bit x e) \<and>
    run_in_byte x off i (wn s) F (wn c) =
      (if e < 8 then RunDone F (wn (c + (e - off))) else RunOn (i + 1) (wn (s + (8 - off))) F (wn (c + (8 - off))))"
proof (induction "8 - off" arbitrary: off s c)
  case 0
  then have "off = 8" by simp
  then show ?case by (subst run_in_byte.simps) (auto intro!: exI [of _ 8])
next
  case (Suc n)
  then have off: "off < 8" by simp
  show ?case
  proof (cases "bit x off")
    case False
    then show ?thesis using off
      by (intro exI [of _ off]) (subst run_in_byte.simps, auto simp: and_bit_test)
  next
    case True
    have "n = 8 - Suc off" "Suc off \<le> 8" using Suc.hyps(2) by simp_all
    from Suc.hyps(1) [OF this, of "Suc s" "Suc c"] obtain e where e: "e \<le> 8" "Suc off \<le> e"
      "\<forall>k. Suc off \<le> k \<and> k < e \<longrightarrow> bit x k" "e < 8 \<longrightarrow> \<not> bit x e"
      "run_in_byte x (Suc off) i (wn (Suc s)) F (wn (Suc c)) =
      (if e < 8 then RunDone F (wn (Suc c + (e - Suc off)))
       else RunOn (i + 1) (wn (Suc s + (8 - Suc off))) F (wn (Suc c + (8 - Suc off))))" by blast
    have "\<forall>k. off \<le> k \<and> k < e \<longrightarrow> bit x k" using e(3) True by (metis Suc_leI le_neq_implies_less)
    moreover have "Suc c + (e - Suc off) = c + (e - off)" "Suc c + (8 - Suc off) = c + (8 - off)"
      "Suc s + (8 - Suc off) = s + (8 - off)" using off e(2) by arith+
    ultimately show ?thesis using e off True
      by (intro exI [of _ e]) (subst run_in_byte.simps, simp add: and_bit_test wn_simps)
  qed
qed

lemma run_low_bits_scan:
  "off \<le> 7 \<Longrightarrow> \<exists>e\<le>7. off \<le> e \<and> (\<forall>k. off \<le> k \<and> k < e \<longrightarrow> bit x k) \<and> (e < 7 \<longrightarrow> \<not> bit x e) \<and>
    run_low_bits x off (wn c) = wn (c + (e - off))"
proof (induction "7 - off" arbitrary: off c)
  case 0
  then have "off = 7" by simp
  then show ?case by (subst run_low_bits.simps) (auto intro!: exI [of _ 7])
next
  case (Suc n)
  then have off: "off < 7" by simp
  show ?case
  proof (cases "bit x off")
    case False
    then show ?thesis using off
      by (intro exI [of _ off]) (subst run_low_bits.simps, auto simp: and_bit_test)
  next
    case True
    have "n = 7 - Suc off" "Suc off \<le> 7" using Suc.hyps(2) by simp_all
    from Suc.hyps(1) [OF this, of "Suc c"] obtain e where e: "e \<le> 7" "Suc off \<le> e"
      "\<forall>k. Suc off \<le> k \<and> k < e \<longrightarrow> bit x k" "e < 7 \<longrightarrow> \<not> bit x e"
      "run_low_bits x (Suc off) (wn (Suc c)) = wn (Suc c + (e - Suc off))" by blast
    have "\<forall>k. off \<le> k \<and> k < e \<longrightarrow> bit x k" using e(3) True by (metis Suc_leI le_neq_implies_less)
    moreover have "Suc c + (e - Suc off) = c + (e - off)" using off e(2) by arith
    ultimately show ?thesis using e off True
      by (intro exI [of _ e]) (subst run_low_bits.simps, simp add: and_bit_test wn_simps)
  qed
qed

lemma byte_255_all: "x = (255 :: uchar) \<longleftrightarrow> (\<forall>m. 0 \<le> m \<and> m < 8 \<longrightarrow> bit x m)"
  using word_eq_255 by auto

lemma aligned_and_7: "unat w mod 8 = 0 \<Longrightarrow> (w :: ulong) AND 7 = 0"
proof -
  assume "unat w mod 8 = 0"
  then have "unat (w AND 7) = 0" by (simp only: and_7_mod)
  then show ?thesis by (simp only: unat_eq_zero)
qed

lemma and_or_not: "(w :: ulong) = (w AND m) OR (w AND NOT m)"
  by (rule bit_word_eqI) (auto simp: bit_or_iff bit_and_iff bit_not_iff)

lemma aligned_and_not_7: "(w :: ulong) AND 7 = 0 \<Longrightarrow> w AND NOT 7 = w"
  using and_or_not [of w 7] by (simp only: or.left_neutral)

text \<open>The second phase, entered behind a run from \<open>p\<close> that fills the bytes before byte \<open>i\<close>.\<close>

lemma run_rest_scan:
  assumes "p < 8 * i" "p < unat sz" "8 * i < unat sz + 8" "unat sz + 8 \<le> 8 * length d" "8 * length d < 2 ^ 32"
  shows "\<exists>E. run_rest f d sz i (wn (8 * i)) (wn (8 * i - p)) = Inr (wn (E - p)) \<and> p < E \<and>
    f_all True f d (8 * i) E \<and> (unat sz \<le> E \<or> \<not> fbit f d E) \<and> E < 8 * length d"
  using assms(1,3)
proof (induction "length d - i" arbitrary: i)
  case 0
  then show ?case using assms(4) by linarith
next
  case (Suc n)
  have len: "i < length d" using Suc.hyps(2) by simp
  have unf: "run_rest f d sz i (wn (8 * i)) (wn (8 * i - p)) =
      (if f (d ! i) = 255 then
         if wn (8 * i) + 8 \<ge> sz then Inr (wn (8 * i - p) + 8 - (wn (8 * i) + 8 - sz))
         else run_rest f d sz (i + 1) (wn (8 * i) + 8) (wn (8 * i - p) + 8)
       else if f (d ! i) AND 1 \<noteq> 0 then Inr (run_low_bits (f (d ! i)) 0 (wn (8 * i - p)))
       else Inr (wn (8 * i - p)))"
    using len by (subst run_rest.simps) (simp add: Let_def)
  show ?case
  proof (cases "f (d ! i) = 255")
    case True
    have all: "f_all True f d (8 * i) (8 * (i + 1))"
      using f_all_byte [of 8 True f d i 0] True unfolding byte_255_all by (simp add: add.commute)
    have step: "wn (8 * i) + 8 = wn (8 * (i + 1))" "wn (8 * i - p) + 8 = wn (8 * (i + 1) - p)"
      proof -
      have "8 * i + 8 = 8 * (i + 1)" "8 * i - p + 8 = 8 * (i + 1) - p" using Suc.prems(1) by simp_all
      then show "wn (8 * i) + 8 = wn (8 * (i + 1))" "wn (8 * i - p) + 8 = wn (8 * (i + 1) - p)"
        by (simp_all only: wn_simps)
    qed
    have u: "unat (wn (8 * (i + 1))) = 8 * (i + 1)"
      using len assms(5) by (intro unat_wn) simp
    have c: "sz \<le> wn (8 * (i + 1)) \<longleftrightarrow> unat sz \<le> 8 * (i + 1)"
      unfolding word_le_nat_alt u ..
    show ?thesis
    proof (cases "unat sz \<le> 8 * (i + 1)")
      case ge: True
      then have "sz \<le> wn (8 * (i + 1))" unfolding c .
      moreover have "wn (8 * (i + 1) - p) - (wn (8 * (i + 1)) - sz) = wn (unat sz - p)"
        using wn_diff [of p "8 * (i + 1)"] wn_diff [of p "unat sz"] Suc.prems(1) assms(2)
        by (simp add: wn_unat)
      moreover have "f_all True f d (8 * i) (unat sz)" using all ge by (simp add: f_all_def)
      ultimately show ?thesis using True assms(2,4) unfolding unf step
        by (intro exI [of _ "unat sz"]) simp
    next
      case False
      then have "\<not> sz \<le> wn (8 * (i + 1))" unfolding c .
      moreover obtain E where "run_rest f d sz (i + 1) (wn (8 * (i + 1))) (wn (8 * (i + 1) - p)) = Inr (wn (E - p))"
        "p < E" "f_all True f d (8 * (i + 1)) E" "unat sz \<le> E \<or> \<not> fbit f d E" "E < 8 * length d"
        using Suc.hyps(1) [of "i + 1"] Suc.hyps(2) Suc.prems False by fastforce
      ultimately show ?thesis using True f_all_join [OF all] unfolding unf step
        by (intro exI [of _ E]) simp
    qed
  next
    case False
    obtain e where e: "e \<le> 7" "\<forall>k. 0 \<le> k \<and> k < e \<longrightarrow> bit (f (d ! i)) k" "e < 7 \<longrightarrow> \<not> bit (f (d ! i)) e"
      "run_low_bits (f (d ! i)) 0 (wn (8 * i - p)) = wn (8 * i - p + (e - 0))"
      using run_low_bits_scan [of 0 "f (d ! i)" "8 * i - p"] by auto
    have end_bit: "\<not> bit (f (d ! i)) e"
    proof (cases "e = 7")
      case True
      have "bit (f (d ! i)) m" if "bit (f (d ! i)) e" "m < 8" for m
        using e(2) that True by (cases "m = 7") auto
      then show ?thesis using False unfolding byte_255_all by blast
    qed (use e in simp)
    have all: "f_all True f d (8 * i) (8 * i + e)" "\<not> fbit f d (8 * i + e)" "8 * i + e < 8 * length d"
      using f_all_byte [of e True f d i 0] e end_bit len fbit_byte [of e f d i] by auto
    have b0: "f (d ! i) AND 1 = 0 \<longleftrightarrow> \<not> bit (f (d ! i)) 0"
      using and_exp_eq_0_iff_not_bit [of "f (d ! i)" 0] by simp
    show ?thesis
    proof (cases "bit (f (d ! i)) 0")
      case True
      then show ?thesis using False all Suc.prems(1) e(4) b0 unfolding unf
        by (intro exI [of _ "8 * i + e"]) auto
    next
      case bit0: False
      then have "e = 0" using e(2) by (cases e) auto
      then show ?thesis using False all Suc.prems(1) b0 bit0 unfolding unf
        by (intro exI [of _ "8 * i"]) auto
    qed
  qed
qed

text \<open>The first phase from a byte boundary.\<close>

definition first_ok :: "(uchar \<Rightarrow> uchar) \<Rightarrow> buf \<Rightarrow> nat \<Rightarrow> nat \<Rightarrow> run_phase \<Rightarrow> bool" where
  "first_ok f d sz s r \<longleftrightarrow> (case r of
     NoRun \<Rightarrow> f_all False f d s sz
   | RunDone F n \<Rightarrow> \<exists>p E. F = wn p \<and> n = wn (E - p) \<and> s \<le> p \<and> p < E \<and> E < 8 * length d \<and>
       f_all False f d s p \<and> f_all True f d p E \<and> \<not> fbit f d E
   | RunOn i S F n \<Rightarrow> \<exists>p. S = wn (8 * i) \<and> F = wn p \<and> n = wn (8 * i - p) \<and> s \<le> p \<and> p < 8 * i \<and>
       8 * i < sz + 8 \<and> i \<le> length d \<and> f_all False f d s p \<and> f_all True f d p (8 * i))"

lemma first_ok_skip:
  "first_ok f d sz s' r \<Longrightarrow> f_all False f d s s' \<Longrightarrow> s \<le> s' \<Longrightarrow> first_ok f d sz s r"
  by (auto simp: first_ok_def split: run_phase.splits intro: f_all_join order_trans)

lemma run_first_scan:
  assumes "unat sz \<le> 8 * length d" "8 * length d < 2 ^ 32" "8 * i < unat sz"
  shows "\<exists>r. run_first f d sz i (wn (8 * i)) = Inr r \<and> first_ok f d (unat sz) (8 * i) r"
  using assms(3)
proof (induction "length d - i" arbitrary: i)
  case 0
  then show ?case using assms(1) by linarith
next
  case (Suc n)
  have len: "i < length d" using Suc.hyps(2) by simp
  let ?x = "f (d ! i)"
  have "unat (wn (8 * i)) = 8 * i" using len assms(2) by (intro unat_wn) simp
  then have al: "wn (8 * i) AND 7 = 0" by (intro aligned_and_7) simp
  have x255: "?x AND 255 = ?x"
  proof -
    have "(255 :: uchar) = mask 8" by (simp add: mask_eq_exp_minus_1)
    then show ?thesis unfolding \<open>255 = mask 8\<close>
      by (intro bit_word_eqI) (auto simp: bit_and_iff bit_mask_iff)
  qed
  have unf: "run_first f d sz i (wn (8 * i)) =
      (if ?x \<noteq> 0 then
         if ?x \<noteq> 255 then
           Inr (run_in_byte ?x (first_offset ?x) i (wn (8 * i + first_offset ?x)) (wn (8 * i + first_offset ?x)) (wn 0))
         else Inr (RunOn (i + 1) (wn (8 * (i + 1))) (wn (8 * i)) (wn 8))
       else if wn (8 * (i + 1)) \<ge> sz then Inr NoRun else run_first f d sz (i + 1) (wn (8 * (i + 1))))"
    using len al x255 aligned_and_not_7 [OF al]
    by (subst run_first.simps) (simp add: Let_def wn_def add.commute)
  show ?case
  proof (cases "?x = 0")
    case True
    have zero: "f_all False f d (8 * i) (8 * (i + 1))"
      using f_all_byte [of 8 False f d i 0] True by (simp add: add.commute)
    have u: "unat (wn (8 * (i + 1))) = 8 * (i + 1)"
      using len assms(2) by (intro unat_wn) simp
    have c: "sz \<le> wn (8 * (i + 1)) \<longleftrightarrow> unat sz \<le> 8 * (i + 1)"
      unfolding word_le_nat_alt u ..
    show ?thesis
    proof (cases "unat sz \<le> 8 * (i + 1)")
      case ge: True
      then have "first_ok f d (unat sz) (8 * i) NoRun" using zero by (simp add: first_ok_def f_all_def)
      then show ?thesis using True ge unfolding unf c by simp
    next
      case False
      then obtain r where "run_first f d sz (i + 1) (wn (8 * (i + 1))) = Inr r"
        "first_ok f d (unat sz) (8 * (i + 1)) r"
        using Suc.hyps(1) [of "i + 1"] Suc.hyps(2) by fastforce
      then show ?thesis using True False first_ok_skip [OF _ zero] unfolding unf c
        by simp
    qed
  next
    case x0: False
    show ?thesis
    proof (cases "?x = 255")
      case True
      have "f_all True f d (8 * i) (8 * (i + 1))"
        using f_all_byte [of 8 True f d i 0] True unfolding byte_255_all by (simp add: add.commute)
      then show ?thesis using True x0 len Suc.prems unfolding unf
        by (auto simp: first_ok_def f_all_def intro!: exI [of _ "8 * i"])
    next
      case False
      let ?o = "first_offset ?x"
      note o = first_offset_bits [OF x0]
      then obtain e where e: "e \<le> 8" "?o \<le> e" "\<forall>k. ?o \<le> k \<and> k < e \<longrightarrow> bit ?x k" "e < 8 \<longrightarrow> \<not> bit ?x e"
        "run_in_byte ?x ?o i (wn (8 * i + ?o)) (wn (8 * i + ?o)) (wn 0) =
        (if e < 8 then RunDone (wn (8 * i + ?o)) (wn (0 + (e - ?o)))
         else RunOn (i + 1) (wn (8 * i + ?o + (8 - ?o))) (wn (8 * i + ?o)) (wn (0 + (8 - ?o))))"
        using run_in_byte_scan [of ?o ?x i "8 * i + ?o" "wn (8 * i + ?o)" 0] by auto
      have oe: "?o < e" using o e by (metis le_neq_implies_less)
      have before: "f_all False f d (8 * i) (8 * i + ?o)" and run: "f_all True f d (8 * i + ?o) (8 * i + e)"
        using f_all_byte [of ?o False f d i 0] f_all_byte [of e True f d i ?o] o e by auto
      show ?thesis
      proof (cases "e < 8")
        case True
        then have "\<not> fbit f d (8 * i + e)" using e(4) by (simp add: fbit_byte)
        then have "first_ok f d (unat sz) (8 * i) (RunDone (wn (8 * i + ?o)) (wn (e - ?o)))"
          unfolding first_ok_def run_phase.case using before run oe len True
          by (intro exI [of _ "8 * i + ?o"] exI [of _ "8 * i + e"]) simp
        then show ?thesis using x0 False True e(5) unfolding unf by simp
      next
        case e8: False
        then have "e = 8" using e(1) by simp
        moreover have w: "8 * i + ?o + (8 - ?o) = 8 * (i + 1)" "8 * i + 8 = 8 * (i + 1)"
          using o by simp_all
        ultimately have "first_ok f d (unat sz) (8 * i) (RunOn (i + 1) (wn (8 * (i + 1))) (wn (8 * i + ?o)) (wn (8 - ?o)))"
          unfolding first_ok_def run_phase.case using before run oe len Suc.prems
          by (intro exI [of _ "8 * i + ?o"]) (simp add: add.commute)
        then show ?thesis using x0 False e8 e(5) unfolding unf w by simp
      qed
    qed
  qed
qed

text \<open>A run search from a byte boundary: when a bit of the bitmap from \<open>s\<close> on is in the run's
  class, the result is the first maximal run (cut nowhere before the end of the bitmap).\<close>

definition first_run :: "(uchar \<Rightarrow> uchar) \<Rightarrow> rtl_bitmap \<Rightarrow> nat \<Rightarrow> nat \<Rightarrow> nat \<Rightarrow> bool" where
  "first_run f b s p e \<longleftrightarrow> s \<le> p \<and> p < e \<and> p < unat (SizeOfBitMap b) \<and>
     f_all False f (BitMapBuffer b) s p \<and> f_all True f (BitMapBuffer b) p e \<and>
     (unat (SizeOfBitMap b) \<le> e \<or> \<not> fbit f (BitMapBuffer b) e)"

lemma find_run_first:
  assumes "bm_slack b" "8 * length (BitMapBuffer b) < 2 ^ 32" "s < SizeOfBitMap b" "unat s mod 8 = 0"
    and ex: "\<exists>j. unat s \<le> j \<and> j < unat (SizeOfBitMap b) \<and> fbit f (BitMapBuffer b) j"
  shows "\<exists>p e. find_run f b s = Inr (Some (wn p, wn (e - p))) \<and> first_run f b (unat s) p e"
proof -
  let ?d = "BitMapBuffer b" and ?sz = "SizeOfBitMap b" and ?i = "unat s div 8"
  have s: "8 * ?i = unat s" "s = wn (8 * ?i)" using assms(4) by (auto simp: wn_unat)
  have sl: "unat ?sz + 8 \<le> 8 * length ?d" using assms(1) by (simp add: bm_slack_def)
  obtain r where r: "run_first f ?d ?sz ?i (wn (8 * ?i)) = Inr r" "first_ok f ?d (unat ?sz) (8 * ?i) r"
    using run_first_scan [of ?sz ?d ?i f] sl assms(2,3) s(1) by (auto simp: word_less_nat_alt)
  have run: "find_run f b s = bind_res (Inr r) (\<lambda>r. case r of NoRun \<Rightarrow> Inr None
      | RunDone F c \<Rightarrow> Inr (Some (F, c))
      | RunOn i S F c \<Rightarrow> bind_res (run_rest f ?d ?sz i S c) (\<lambda>n. Inr (Some (F, n))))"
    using r(1) s(2) by (simp add: find_run_def drop_3_div)
  obtain j where j: "unat s \<le> j" "j < unat ?sz" "fbit f ?d j" using ex by blast
  have lt: "p < unat ?sz" if "f_all False f ?d (8 * ?i) p" for p
    using that j s(1) by (auto simp: f_all_def)
  show ?thesis
  proof (cases r)
    case NoRun
    then show ?thesis using r(2) j s(1) by (auto simp: first_ok_def f_all_def)
  next
    case (RunDone F c)
    then obtain p e where p: "F = wn p" "c = wn (e - p)" "unat s \<le> p" "p < e"
      "f_all False f ?d (8 * ?i) p" "f_all True f ?d p e" "\<not> fbit f ?d e"
      using r(2) s(1) by (auto simp: first_ok_def)
    then show ?thesis using RunDone lt [OF p(5)] s(1) unfolding run
      by (intro exI [of _ p] exI [of _ e]) (simp add: first_run_def)
  next
    case (RunOn i S F c)
    then obtain p where p: "S = wn (8 * i)" "F = wn p" "c = wn (8 * i - p)" "unat s \<le> p" "p < 8 * i"
      "8 * i < unat ?sz + 8" "f_all False f ?d (8 * ?i) p" "f_all True f ?d p (8 * i)"
      using r(2) s(1) by (auto simp: first_ok_def)
    from run_rest_scan [OF p(5) lt [OF p(7)] p(6) sl assms(2)] obtain e where
      e: "run_rest f ?d ?sz i (wn (8 * i)) (wn (8 * i - p)) = Inr (wn (e - p))" "p < e"
      "f_all True f ?d (8 * i) e" "unat ?sz \<le> e \<or> \<not> fbit f ?d e" by blast
    show ?thesis using RunOn p e lt [OF p(7)] f_all_join [OF p(8) e(3)] s(1) unfolding run
      by (intro exI [of _ p] exI [of _ e]) (simp add: first_run_def)
  qed
qed

end
