(* ===== verification/BitmapProps.thy ===== *)
theory BitmapProps
  imports BitmapRuns
begin

text \<open>
  The properties of the bitmap routines: what each does to exactly which bits, what the
  searches find, and where the code leaves the buffer or misplaces a run.
\<close>

section \<open>Properties\<close>

definition bm_example :: rtl_bitmap where
  "bm_example = \<lparr>SizeOfBitMap = 16, BitMapBuffer = [0x21, 0x81, 0]\<rparr>"

lemma bm_example_facts:
  "bm_slack bm_example" "bm_half bm_example" "bm_room bm_example" "SizeOfBitMap bm_example = 16"
  "BitMapBuffer bm_example = [0x21, 0x81, 0]"
  by (simp_all add: bm_example_def bm_slack_def bm_half_def bm_room_def)

text \<open>C27. \<open>RtlSetBits\<close> sets exactly the bits of the range and \<open>RtlClearBits\<close> clears exactly them, no
  other bit of the buffer changes and no access leaves it, for every range inside the
  bitmap and every buffer with one byte to spare.\<close>

theorem RtlSetBits_RtlClearBits_exact:
  assumes "bm_range b s c" "bm_slack b"
  shows "\<exists>d1 d2. RtlSetBits (Some b) s c = Inr (Some (b\<lparr>BitMapBuffer := d1\<rparr>)) \<and>
    bm_upd True (BitMapBuffer b) d1 (unat s) (unat c) \<and>
    RtlClearBits (Some b) s c = Inr (Some (b\<lparr>BitMapBuffer := d2\<rparr>)) \<and>
    bm_upd False (BitMapBuffer b) d2 (unat s) (unat c)"
  using RtlSetBits_upd [OF assms] RtlClearBits_upd [OF assms] by blast

theorem RtlSetBits_RtlClearBits_exact_witness:
  "\<exists>d1 d2. RtlSetBits (Some bm_example) 5 6 = Inr (Some (bm_example\<lparr>BitMapBuffer := d1\<rparr>)) \<and>
    bm_upd True [0x21, 0x81, 0] d1 5 6 \<and>
    RtlClearBits (Some bm_example) 5 6 = Inr (Some (bm_example\<lparr>BitMapBuffer := d2\<rparr>)) \<and>
    bm_upd False [0x21, 0x81, 0] d2 5 6"
  using RtlSetBits_RtlClearBits_exact [of bm_example 5 6]
  by (simp add: bm_example_facts bm_range_def)

lemma set_tail_full:
  assumes "8 * i + unat c = 8 * length d"
  shows "set_tail d i c = Inl OutOfBounds"
proof -
  define n where "n = unat c div 8"
  have "unat c = 8 * (length d - i)" "i \<le> length d" using assms by simp_all
  then have l: "length d = i + n" by (simp add: n_def)
  obtain d' where "(if n \<noteq> 0 then mem_set d i 255 n else Inr d) = Inr d'" "length d' = i + n"
    using l by (cases "n = 0") (auto simp: mem_set_def)
  then show ?thesis
    unfolding set_tail_def Let_def drop_3_div n_def [symmetric] by (simp add: wr_or_def)
qed

text \<open>The spare byte is needed: on a bitmap that fills its buffer exactly, every
  \<open>RtlSetBits\<close> whose range ends at the last bit writes the byte behind the buffer.\<close>

theorem RtlSetBits_overruns_exact_buffer:
  assumes "bm_range b s c" "unat s + unat c = unat (SizeOfBitMap b)"
    "8 * length (BitMapBuffer b) = unat (SizeOfBitMap b)"
  shows "RtlSetBits (Some b) s c = Inl OutOfBounds"
proof -
  let ?d = "BitMapBuffer b" and ?i = "unat s div 8" and ?sh = "unat s mod 8"
  note simps = RtlSetBits_def bm_range_test [OF assms(1)] bm_word Let_def put_buf_def wr_or_def
  consider "?sh = 0" | "?sh \<noteq> 0" "unat c > 7" | "?sh \<noteq> 0" "unat c \<le> 7" by linarith
  then show ?thesis
  proof cases
    case 1
    then have "8 * ?i + unat c = 8 * length ?d" using assms(2,3) by presburger
    from set_tail_full [OF this] show ?thesis using 1 by (simp add: simps)
  next
    case 2
    let ?c = "c - word_of_nat (8 - ?sh)"
    have l: "8 * (?i + 1) + unat ?c = 8 * length ?d"
      using bm_head_c [OF 2(2), of ?sh] assms(2,3) by presburger
    then have "?i < length ?d" by presburger
    moreover from l have "set_tail (?d[?i := ?d ! ?i OR push_bit ?sh 255]) (?i + 1) ?c = Inl OutOfBounds"
      by (intro set_tail_full) simp
    ultimately show ?thesis using 2 by (simp add: simps)
  next
    case 3
    have "unat c \<noteq> 0" using assms(1) by (simp add: bm_range_def unat_eq_zero)
    moreover have "8 * length ?d = 8 * ?i + (?sh + unat c)" "?sh < 8" using assms(2,3) by simp_all
    ultimately have l: "length ?d = ?i + 1" using 3(2) by linarith
    obtain lo hi where "RtlSetBits (Some b) s c =
        bind_res (put_buf b (bind_res (wr_or ?d ?i lo) (\<lambda>d. wr_or d (?i + 1) hi))) (\<lambda>b. Inr (Some b))"
      using 3 bm_range_test [OF assms(1)] by (auto simp: RtlSetBits_def bm_word Let_def)
    then show ?thesis using l by (simp add: put_buf_def wr_or_def)
  qed
qed

theorem RtlSetBits_overruns_exact_buffer_witness:
  "RtlSetBits (Some \<lparr>SizeOfBitMap = 8, BitMapBuffer = [0]\<rparr>) 0 8 = Inl OutOfBounds"
  using RtlSetBits_overruns_exact_buffer [of "\<lparr>SizeOfBitMap = 8, BitMapBuffer = [0]\<rparr>" 0 8]
  by (simp add: bm_range_def)

text \<open>\<open>RtlAreBitsSet\<close> and \<open>RtlAreBitsClear\<close> answer whether every bit of a range inside the
  bitmap has the value asked for, reading no byte outside the bitmap.\<close>

theorem RtlAreBits_decide:
  assumes "bm_range b s c" "bm_room b"
  shows "RtlAreBitsSet (Some b) s c = Inr (bm_all True (BitMapBuffer b) (unat s) (unat c)) \<and>
    RtlAreBitsClear (Some b) s c = Inr (bm_all False (BitMapBuffer b) (unat s) (unat c))"
  using RtlAreBitsSet_range [OF assms] RtlAreBitsClear_range [OF assms] by simp

theorem RtlAreBits_decide_witness:
  "RtlAreBitsClear (Some bm_example) 9 6 = Inr (bm_all False [0x21, 0x81, 0] 9 6)"
  using RtlAreBits_decide [of bm_example 9 6] by (simp add: bm_example_facts bm_range_def)

text \<open>\<open>RtlFindSetBits\<close> and \<open>RtlFindClearBits\<close> return the first position, from the hint to the end
  and then from 0 to the hint, at which a run of \<open>ulCount\<close> bits starts, and \<open>-1\<close> when there
  is none; the hint counts as 0 when no run fits behind it.\<close>

theorem RtlFindBits_first:
  assumes "bm_room b" "bm_half b" "c \<noteq> 0" "c \<le> SizeOfBitMap b" "unat h + unat c < 2 ^ 32"
  shows "RtlFindSetBits (Some b) c h =
      Inr (pos_or_none (find (run_at True b (unat c)) (search_order b (unat h) (unat c)))) \<and>
    RtlFindClearBits (Some b) c h =
      Inr (pos_or_none (find (run_at False b (unat c)) (search_order b (unat h) (unat c))))"
  using RtlFindSetBits_first [OF assms] RtlFindClearBits_first [OF assms] by simp

theorem RtlFindBits_first_witness:
  "RtlFindClearBits (Some bm_example) 4 6 =
   Inr (pos_or_none (find (run_at False bm_example 4) (search_order bm_example 6 4)))"
  using RtlFindBits_first [of bm_example 4 6] by (simp add: bm_example_facts)



text \<open>\<open>RtlNumberOfSetBits\<close> is the number of bits set in the bitmap and
  \<open>RtlNumberOfClearBits\<close> the number of the others; one byte behind a bitmap of whole bytes is read.\<close>

theorem RtlNumberOfBits_counts:
  assumes "unat (SizeOfBitMap b) < 8 * length (BitMapBuffer b)"
  shows "RtlNumberOfSetBits (Some b) =
      Inr (word_of_nat (bm_count (BitMapBuffer b) 0 (unat (SizeOfBitMap b)))) \<and>
    RtlNumberOfClearBits (Some b) =
      Inr (word_of_nat (unat (SizeOfBitMap b) - bm_count (BitMapBuffer b) 0 (unat (SizeOfBitMap b))))"
  using RtlNumberOfSetBits_count [OF assms] RtlNumberOfClearBits_count [OF assms] by simp

theorem RtlNumberOfBits_counts_witness:
  "RtlNumberOfSetBits (Some bm_example) = Inr (word_of_nat (bm_count [0x21, 0x81, 0] 0 16))"
  using RtlNumberOfBits_counts [of bm_example] by (simp add: bm_example_facts)

text \<open>\<open>RtlFindMostSignificantBit\<close> and \<open>RtlFindLeastSignificantBit\<close> of a nonzero 64-bit value are the
  positions of its highest and lowest bit; of 0 both are -1.\<close>

theorem RtlFindSignificantBit_positions:
  fixes u :: ulonglong
  shows "(if u = 0 then RtlFindMostSignificantBit u = -1 \<and> RtlFindLeastSignificantBit u = -1
    else msb_at (unat u) (RtlFindMostSignificantBit u) \<and> lsb_at (unat u) (RtlFindLeastSignificantBit u))"
  using RtlFindMostSignificantBit_msb [of u] RtlFindLeastSignificantBit_lsb [of u]
    RtlFindMostSignificantBit_0 RtlFindLeastSignificantBit_0 by simp

text \<open>From a byte boundary, \<open>NTDLL_FindSetRun\<close> and \<open>NTDLL_FindClearRun\<close> find the first maximal run
  of their class that starts in the bitmap: everything between the start and the run is of the
  other class, the run is of the class throughout, and it stops at a bit of the other class
  or not before the end of the bitmap.\<close>

theorem NTDLL_FindRun_aligned:
  assumes "bm_slack b" "8 * length (BitMapBuffer b) < 2 ^ 32" "s < SizeOfBitMap b" "unat s mod 8 = 0"
    "f = (\<lambda>x. x) \<and> fn = NTDLL_FindSetRun \<or> f = (\<lambda>x. NOT x) \<and> fn = NTDLL_FindClearRun"
    "unat s \<le> j" "j < unat (SizeOfBitMap b)" "fbit f (BitMapBuffer b) j"
  shows "\<exists>p e. fn b s = Inr (Some (wn p, wn (e - p))) \<and> first_run f b (unat s) p e"
  using find_run_first [of b s f, OF assms(1-4)] assms(5-8)
  by (auto simp: NTDLL_FindSetRun_def [abs_def] NTDLL_FindClearRun_def [abs_def])

theorem NTDLL_FindRun_aligned_witness:
  "\<exists>p e. NTDLL_FindSetRun bm_example 8 = Inr (Some (wn p, wn (e - p))) \<and> first_run (\<lambda>x. x) bm_example 8 p e"
  using NTDLL_FindRun_aligned [of bm_example 8 "\<lambda>x. x" NTDLL_FindSetRun 8]
  by (simp add: bm_example_facts fbit_def)

text \<open>Inside a byte the start of the run is wrong: the offset found in the byte is added to the
  bit searched from and not to the start of the byte. On the byte 0x21, bits 0 and 5,
  \<open>RtlFindSetRuns\<close> reports runs at 0 and at 6.\<close>

theorem RtlFindSetRuns_misplaces_run:
  "RtlFindSetRuns \<lparr>SizeOfBitMap = 8, BitMapBuffer = [0x21, 0]\<rparr> 2 2 False =
     Inr (Some [\<lparr>StartOfRun = 0, SizeOfRun = 1\<rparr>, \<lparr>StartOfRun = 6, SizeOfRun = 1\<rparr>]) \<and>
   bm_bit [0x21, 0] 5 \<and> \<not> bm_bit [0x21, 0] 6"
  by (intro conjI; code_simp)

end
