(* ===== verification/CritSect.thy ===== *)
theory CritSect
  imports Prelude
begin

text \<open>
  The Win32 critical section, \<open>kernel32/critsection.cpp\<close>, as a machine of interleaved threads.
  Every access to the shared structure is a step of its own: the two interlocked instructions, the
  reads and writes of \<open>OwningThread\<close> and \<open>RecursionCount\<close>, the wait for the semaphore and its release.
  The semaphore is the documented object of \<open>CreateSemaphoreA\<close> with maximum count 1; it is created
  when \<open>get_semaphore\<close> first needs it, at the interlocked exchange that stores its handle.
\<close>

section \<open>Threads\<close>

text \<open>A C \<open>LONG\<close> keeps 32 bits with sign.\<close>

definition clong :: "int \<Rightarrow> int" where
  "clong x = signed_take_bit 31 x"

lemma clong_id [simp]: "- (2 ^ 31) \<le> x \<Longrightarrow> x < 2 ^ 31 \<Longrightarrow> clong x = x"
  by (simp add: clong_def signed_take_bit_int_eq_self)

text \<open>A sum over the threads changes by what one thread contributes.\<close>

lemma sum_thread_upd:
  fixes f :: "nat \<Rightarrow> 'a \<Rightarrow> int"
  assumes "finite T" and "t \<in> T"
  shows "(\<Sum>u\<in>T. f u ((th(t := x)) u)) = (\<Sum>u\<in>T. f u (th u)) - f t (th t) + f t x"
proof -
  have "(\<Sum>u\<in>T - {t}. f u ((th(t := x)) u)) = (\<Sum>u\<in>T - {t}. f u (th u))"
    by (rule sum.cong) auto
  then show ?thesis
    using sum.remove [OF assms, of "\<lambda>u. f u ((th(t := x)) u)"] sum.remove [OF assms, of "\<lambda>u. f u (th u)"]
    by simp
qed

lemma sum_ge_member:
  fixes f :: "nat \<Rightarrow> int"
  assumes "finite T" and "t \<in> T" and "\<And>u. u \<in> T \<Longrightarrow> 0 \<le> f u"
  shows "f t \<le> sum f T"
  using assms by (intro member_le_sum) auto

section \<open>The structure and its operations\<close>

record critsec =
  LockCount :: int
  RecursionCount :: int
  OwningThread :: nat
  LockSemaphore :: "nat option"

definition InitializeCriticalSection :: critsec where
  "InitializeCriticalSection = \<lparr>LockCount = - 1, RecursionCount = 0, OwningThread = 0, LockSemaphore = None\<rparr>"

text \<open>Handle 0 is no semaphore; a new one has count 0.\<close>

definition get_semaphore :: "critsec \<Rightarrow> critsec" where
  "get_semaphore crit =
     (case LockSemaphore crit of None \<Rightarrow> crit\<lparr>LockSemaphore := Some 0\<rparr> | Some n \<Rightarrow> crit)"

text \<open>Where a thread is inside the three functions: the next access it will make.\<close>

datatype cs_pc =
    CsIdle
  | EnterInc | EnterOwner | EnterRecurse | EnterGet | EnterWait | EnterSetOwner | EnterSetCount
  | TryCas | TryOwner | TryInc | TryRecurse
  | LeaveCount | LeaveDec | LeaveOwner | LeaveLast | LeaveGet | LeaveRelease

record cs_thread =
  cs_at :: cs_pc
  cs_held :: nat

text \<open>\<open>cs_held\<close> counts the successful entries of a thread that it has not yet begun to leave.\<close>

fun EnterCriticalSection :: "nat \<Rightarrow> cs_thread \<Rightarrow> critsec \<Rightarrow> (cs_thread \<times> critsec) option" where
  "EnterCriticalSection t \<lparr>cs_at = EnterInc, cs_held = h\<rparr> crit =
     (let n = clong (LockCount crit + 1)
      in Some (\<lparr>cs_at = (if n \<noteq> 0 then EnterOwner else EnterSetOwner), cs_held = h\<rparr>, crit\<lparr>LockCount := n\<rparr>))"
| "EnterCriticalSection t \<lparr>cs_at = EnterOwner, cs_held = h\<rparr> crit =
     Some (\<lparr>cs_at = (if OwningThread crit = t then EnterRecurse else EnterGet), cs_held = h\<rparr>, crit)"
| "EnterCriticalSection t \<lparr>cs_at = EnterRecurse, cs_held = h\<rparr> crit =
     Some (\<lparr>cs_at = CsIdle, cs_held = Suc h\<rparr>, crit\<lparr>RecursionCount := clong (RecursionCount crit + 1)\<rparr>)"
| "EnterCriticalSection t \<lparr>cs_at = EnterGet, cs_held = h\<rparr> crit =
     Some (\<lparr>cs_at = EnterWait, cs_held = h\<rparr>, get_semaphore crit)"
| "EnterCriticalSection t \<lparr>cs_at = EnterWait, cs_held = h\<rparr> crit =
     (case LockSemaphore crit of
        Some (Suc n) \<Rightarrow> Some (\<lparr>cs_at = EnterSetOwner, cs_held = h\<rparr>, crit\<lparr>LockSemaphore := Some n\<rparr>)
      | _ \<Rightarrow> None)"
| "EnterCriticalSection t \<lparr>cs_at = EnterSetOwner, cs_held = h\<rparr> crit =
     Some (\<lparr>cs_at = EnterSetCount, cs_held = h\<rparr>, crit\<lparr>OwningThread := t\<rparr>)"
| "EnterCriticalSection t \<lparr>cs_at = EnterSetCount, cs_held = h\<rparr> crit =
     Some (\<lparr>cs_at = CsIdle, cs_held = Suc h\<rparr>, crit\<lparr>RecursionCount := 1\<rparr>)"
| "EnterCriticalSection t _ crit = None"

text \<open>A failed try returns FALSE and leaves the number of entries as it is.\<close>

fun TryEnterCriticalSection :: "nat \<Rightarrow> cs_thread \<Rightarrow> critsec \<Rightarrow> (cs_thread \<times> critsec) option" where
  "TryEnterCriticalSection t \<lparr>cs_at = TryCas, cs_held = h\<rparr> crit =
     (if LockCount crit = - 1 then Some (\<lparr>cs_at = EnterSetOwner, cs_held = h\<rparr>, crit\<lparr>LockCount := 0\<rparr>)
      else Some (\<lparr>cs_at = TryOwner, cs_held = h\<rparr>, crit))"
| "TryEnterCriticalSection t \<lparr>cs_at = TryOwner, cs_held = h\<rparr> crit =
     Some (\<lparr>cs_at = (if OwningThread crit = t then TryInc else CsIdle), cs_held = h\<rparr>, crit)"
| "TryEnterCriticalSection t \<lparr>cs_at = TryInc, cs_held = h\<rparr> crit =
     Some (\<lparr>cs_at = TryRecurse, cs_held = h\<rparr>, crit\<lparr>LockCount := clong (LockCount crit + 1)\<rparr>)"
| "TryEnterCriticalSection t \<lparr>cs_at = TryRecurse, cs_held = h\<rparr> crit =
     Some (\<lparr>cs_at = CsIdle, cs_held = Suc h\<rparr>, crit\<lparr>RecursionCount := clong (RecursionCount crit + 1)\<rparr>)"
| "TryEnterCriticalSection t _ crit = None"

fun LeaveCriticalSection :: "nat \<Rightarrow> cs_thread \<Rightarrow> critsec \<Rightarrow> (cs_thread \<times> critsec) option" where
  "LeaveCriticalSection t \<lparr>cs_at = LeaveCount, cs_held = h\<rparr> crit =
     (let n = clong (RecursionCount crit - 1)
      in Some (\<lparr>cs_at = (if n \<noteq> 0 then LeaveDec else LeaveOwner), cs_held = h\<rparr>, crit\<lparr>RecursionCount := n\<rparr>))"
| "LeaveCriticalSection t \<lparr>cs_at = LeaveDec, cs_held = h\<rparr> crit =
     Some (\<lparr>cs_at = CsIdle, cs_held = h\<rparr>, crit\<lparr>LockCount := clong (LockCount crit - 1)\<rparr>)"
| "LeaveCriticalSection t \<lparr>cs_at = LeaveOwner, cs_held = h\<rparr> crit =
     Some (\<lparr>cs_at = LeaveLast, cs_held = h\<rparr>, crit\<lparr>OwningThread := 0\<rparr>)"
| "LeaveCriticalSection t \<lparr>cs_at = LeaveLast, cs_held = h\<rparr> crit =
     (let n = clong (LockCount crit - 1)
      in Some (\<lparr>cs_at = (if n \<ge> 0 then LeaveGet else CsIdle), cs_held = h\<rparr>, crit\<lparr>LockCount := n\<rparr>))"
| "LeaveCriticalSection t \<lparr>cs_at = LeaveGet, cs_held = h\<rparr> crit =
     Some (\<lparr>cs_at = LeaveRelease, cs_held = h\<rparr>, get_semaphore crit)"
| "LeaveCriticalSection t \<lparr>cs_at = LeaveRelease, cs_held = h\<rparr> crit =
     Some (\<lparr>cs_at = CsIdle, cs_held = h\<rparr>,
       (case LockSemaphore crit of Some 0 \<Rightarrow> crit\<lparr>LockSemaphore := Some 1\<rparr> | _ \<Rightarrow> crit))"
| "LeaveCriticalSection t _ crit = None"

section \<open>Interleaving\<close>

record cs_sys =
  cs_crit :: critsec
  cs_threads :: "nat \<Rightarrow> cs_thread"

definition cs_move :: "cs_sys \<Rightarrow> nat \<Rightarrow> cs_thread \<Rightarrow> critsec \<Rightarrow> cs_sys" where
  "cs_move s t x crit = \<lparr>cs_crit = crit, cs_threads = (cs_threads s)(t := x)\<rparr>"

text \<open>The next access of a thread that is inside one of the functions; \<open>None\<close> while it waits.\<close>

definition cs_run :: "nat \<Rightarrow> cs_thread \<Rightarrow> critsec \<Rightarrow> (cs_thread \<times> critsec) option" where
  "cs_run t x crit = (case EnterCriticalSection t x crit of Some r \<Rightarrow> Some r
     | None \<Rightarrow> (case TryEnterCriticalSection t x crit of Some r \<Rightarrow> Some r
     | None \<Rightarrow> LeaveCriticalSection t x crit))"

text \<open>
  \<open>T\<close> is the set of threads. A client calls \<open>LeaveCriticalSection\<close> only for an entry it made.
\<close>

inductive cs_step :: "nat set \<Rightarrow> cs_sys \<Rightarrow> cs_sys \<Rightarrow> bool" for T :: "nat set" where
  call_enter: "t \<in> T \<Longrightarrow> cs_threads s t = \<lparr>cs_at = CsIdle, cs_held = h\<rparr> \<Longrightarrow>
     cs_step T s (cs_move s t \<lparr>cs_at = EnterInc, cs_held = h\<rparr> (cs_crit s))"
| call_try: "t \<in> T \<Longrightarrow> cs_threads s t = \<lparr>cs_at = CsIdle, cs_held = h\<rparr> \<Longrightarrow>
     cs_step T s (cs_move s t \<lparr>cs_at = TryCas, cs_held = h\<rparr> (cs_crit s))"
| call_leave: "t \<in> T \<Longrightarrow> cs_threads s t = \<lparr>cs_at = CsIdle, cs_held = Suc h\<rparr> \<Longrightarrow>
     cs_step T s (cs_move s t \<lparr>cs_at = LeaveCount, cs_held = h\<rparr> (cs_crit s))"
| run: "t \<in> T \<Longrightarrow> cs_run t (cs_threads s t) (cs_crit s) = Some (x, crit) \<Longrightarrow>
     cs_step T s (cs_move s t x crit)"

definition cs_start :: cs_sys where
  "cs_start = \<lparr>cs_crit = InitializeCriticalSection, cs_threads = (\<lambda>_. \<lparr>cs_at = CsIdle, cs_held = 0\<rparr>)\<rparr>"

text \<open>
  What a thread has added to \<open>LockCount\<close>. The counters are exact while these add up to less
  than \<open>2 ^ 31\<close>, so reachable states are those reached without passing that bound.
\<close>

fun cs_added :: "cs_thread \<Rightarrow> int" where
  "cs_added \<lparr>cs_at = a, cs_held = h\<rparr> = int h +
     (case a of CsIdle \<Rightarrow> 0 | EnterInc \<Rightarrow> 0 | TryCas \<Rightarrow> 0 | TryOwner \<Rightarrow> 0 | TryInc \<Rightarrow> 0
      | LeaveGet \<Rightarrow> 0 | LeaveRelease \<Rightarrow> 0 | _ \<Rightarrow> 1)"

definition cs_total :: "nat set \<Rightarrow> cs_sys \<Rightarrow> int" where
  "cs_total T s = (\<Sum>u\<in>T. cs_added (cs_threads s u))"

inductive cs_reachable :: "nat set \<Rightarrow> cs_sys \<Rightarrow> bool" for T :: "nat set" where
  cs_init: "cs_reachable T cs_start"
| cs_next: "cs_reachable T s \<Longrightarrow> cs_step T s s' \<Longrightarrow> cs_total T s' < 2 ^ 31 \<Longrightarrow> cs_reachable T s'"

section \<open>The invariant\<close>

text \<open>Who holds the right to own the section. It passes from the last leaver to the semaphore and on.\<close>

fun cs_token :: "cs_thread \<Rightarrow> int" where
  "cs_token \<lparr>cs_at = a, cs_held = h\<rparr> =
     (if 0 < h \<or> a \<in> {EnterSetOwner, EnterSetCount, LeaveCount, LeaveOwner, LeaveLast, LeaveGet, LeaveRelease}
      then 1 else 0)"

definition cs_permits :: "critsec \<Rightarrow> int" where
  "cs_permits crit = (case LockSemaphore crit of None \<Rightarrow> 0 | Some n \<Rightarrow> int n)"

text \<open>What the owner's fields say about one thread.\<close>

fun cs_local :: "nat \<Rightarrow> cs_thread \<Rightarrow> critsec \<Rightarrow> bool" where
  "cs_local t \<lparr>cs_at = a, cs_held = h\<rparr> crit =
     (case a of
        CsIdle \<Rightarrow> if 0 < h then OwningThread crit = t \<and> RecursionCount crit = int h else OwningThread crit \<noteq> t
      | EnterInc \<Rightarrow> if 0 < h then OwningThread crit = t \<and> RecursionCount crit = int h else OwningThread crit \<noteq> t
      | TryCas \<Rightarrow> if 0 < h then OwningThread crit = t \<and> RecursionCount crit = int h else OwningThread crit \<noteq> t
      | EnterOwner \<Rightarrow> if 0 < h then OwningThread crit = t \<and> RecursionCount crit = int h else OwningThread crit \<noteq> t
      | TryOwner \<Rightarrow> if 0 < h then OwningThread crit = t \<and> RecursionCount crit = int h else OwningThread crit \<noteq> t
      | EnterRecurse \<Rightarrow> 0 < h \<and> OwningThread crit = t \<and> RecursionCount crit = int h
      | TryInc \<Rightarrow> 0 < h \<and> OwningThread crit = t \<and> RecursionCount crit = int h
      | TryRecurse \<Rightarrow> 0 < h \<and> OwningThread crit = t \<and> RecursionCount crit = int h
      | LeaveDec \<Rightarrow> 0 < h \<and> OwningThread crit = t \<and> RecursionCount crit = int h
      | LeaveCount \<Rightarrow> OwningThread crit = t \<and> RecursionCount crit = int h + 1
      | EnterSetCount \<Rightarrow> h = 0 \<and> OwningThread crit = t
      | LeaveOwner \<Rightarrow> h = 0 \<and> OwningThread crit = t
      | LeaveRelease \<Rightarrow> h = 0 \<and> OwningThread crit \<noteq> t \<and> LockSemaphore crit \<noteq> None
      | _ \<Rightarrow> h = 0 \<and> OwningThread crit \<noteq> t)"

definition cs_inv :: "nat set \<Rightarrow> cs_sys \<Rightarrow> bool" where
  "cs_inv T s \<longleftrightarrow> OwningThread (cs_crit s) \<in> insert 0 T \<and> (\<forall>t\<in>T. cs_local t (cs_threads s t) (cs_crit s)) \<and>
     LockCount (cs_crit s) + 1 = cs_total T s \<and>
     (\<Sum>u\<in>T. cs_token (cs_threads s u)) + cs_permits (cs_crit s) = (if 0 \<le> LockCount (cs_crit s) then 1 else 0)"

text \<open>A thread without the token is not the owner, so the owner's writes do not touch what it relies on.\<close>

lemma cs_local_frame:
  "cs_local u y crit \<Longrightarrow> OwningThread crit' = OwningThread crit \<Longrightarrow> RecursionCount crit' = RecursionCount crit
    \<Longrightarrow> (LockSemaphore crit' = None \<Longrightarrow> LockSemaphore crit = None) \<Longrightarrow> cs_local u y crit'"
  by (cases y) (auto split: cs_pc.splits if_splits)

lemma cs_local_without_token:
  "cs_local u y crit \<Longrightarrow> cs_token y = 0 \<Longrightarrow> OwningThread crit' \<noteq> u \<Longrightarrow> cs_local u y crit'"
  by (cases y) (simp split: cs_pc.splits if_splits)

lemma cs_added_nonneg: "0 \<le> cs_added x"
  by (cases x) (simp split: cs_pc.splits)

lemma cs_token_range: "0 \<le> cs_token x" "cs_token x \<le> 1"
  by (cases x; simp)+

lemma cs_permits_nonneg: "0 \<le> cs_permits crit"
  by (simp add: cs_permits_def split: option.splits)

lemma cs_inv_facts:
  assumes "cs_inv T s" and "finite T" and "t \<in> T"
  shows "cs_local t (cs_threads s t) (cs_crit s)"
    and "cs_added (cs_threads s t) \<le> LockCount (cs_crit s) + 1"
    and "cs_token (cs_threads s t) + cs_permits (cs_crit s) \<le> 1"
    and "cs_token (cs_threads s t) = 1 \<or> cs_permits (cs_crit s) = 1 \<Longrightarrow> 0 \<le> LockCount (cs_crit s)"
    and "u \<in> T \<Longrightarrow> u \<noteq> t \<Longrightarrow> cs_token (cs_threads s u) + cs_token (cs_threads s t) \<le> 1"
proof -
  note inv = assms(1) [unfolded cs_inv_def]
  show "cs_local t (cs_threads s t) (cs_crit s)" using inv assms(3) by blast
  have "cs_added (cs_threads s t) \<le> cs_total T s"
    unfolding cs_total_def using assms(2,3) by (intro member_le_sum) (auto simp: cs_added_nonneg)
  then show "cs_added (cs_threads s t) \<le> LockCount (cs_crit s) + 1" using inv by linarith
  have le: "cs_token (cs_threads s t) \<le> (\<Sum>u\<in>T. cs_token (cs_threads s u))"
    using assms(2,3) by (intro member_le_sum) (auto simp: cs_token_range)
  then show "cs_token (cs_threads s t) + cs_permits (cs_crit s) \<le> 1"
    using inv by (auto split: if_splits)
  show "cs_token (cs_threads s t) = 1 \<or> cs_permits (cs_crit s) = 1 \<Longrightarrow> 0 \<le> LockCount (cs_crit s)"
    using inv le cs_permits_nonneg [of "cs_crit s"] cs_token_range [of "cs_threads s t"] by (auto split: if_splits)
  assume u: "u \<in> T" "u \<noteq> t"
  have "sum (\<lambda>u. cs_token (cs_threads s u)) {u, t} \<le> (\<Sum>u\<in>T. cs_token (cs_threads s u))"
    using assms(2,3) u by (intro sum_mono2) (auto simp: cs_token_range)
  then show "cs_token (cs_threads s u) + cs_token (cs_threads s t) \<le> 1"
    using inv u cs_permits_nonneg [of "cs_crit s"] by (auto split: if_splits)
qed

lemma cs_inv_move:
  assumes "cs_inv T s" and "finite T" and "0 \<notin> T" and "t \<in> T"
    and loc: "cs_local t x crit"
    and own: "OwningThread crit = OwningThread (cs_crit s) \<and> RecursionCount crit = RecursionCount (cs_crit s)
       \<or> cs_token (cs_threads s t) = 1 \<and> OwningThread crit \<in> {0, t}"
    and sem: "LockSemaphore crit = None \<Longrightarrow> LockSemaphore (cs_crit s) = None"
    and lck: "LockCount crit - LockCount (cs_crit s) = cs_added x - cs_added (cs_threads s t)"
    and tok: "cs_token x + cs_permits crit - (if 0 \<le> LockCount crit then 1 else 0) =
       cs_token (cs_threads s t) + cs_permits (cs_crit s) - (if 0 \<le> LockCount (cs_crit s) then 1 else 0)"
  shows "cs_inv T (cs_move s t x crit)"
proof -
  note inv = assms(1) [unfolded cs_inv_def]
  have "cs_local u (((cs_threads s)(t := x)) u) crit" if "u \<in> T" for u
  proof (cases "u = t")
    case True
    then show ?thesis using loc by simp
  next
    case False
    have u: "cs_local u (cs_threads s u) (cs_crit s)" using inv that by blast
    from own show ?thesis
    proof
      assume "cs_token (cs_threads s t) = 1 \<and> OwningThread crit \<in> {0, t}"
      moreover from this have "cs_token (cs_threads s u) = 0"
        using cs_inv_facts(5) [OF assms(1,2,4) that False] cs_token_range [of "cs_threads s u"] by simp
      moreover have "OwningThread crit \<noteq> u" using calculation(1) False that assms(3) by auto
      ultimately show ?thesis using cs_local_without_token [OF u] False by simp
    qed (use cs_local_frame [OF u] sem False in simp)
  qed
  moreover have "LockCount crit + 1 = cs_total T (cs_move s t x crit)"
    using inv lck sum_thread_upd [OF assms(2,4), of "\<lambda>_. cs_added" "cs_threads s" x]
    by (simp add: cs_total_def cs_move_def)
  moreover have "(\<Sum>u\<in>T. cs_token (((cs_threads s)(t := x)) u)) + cs_permits crit = (if 0 \<le> LockCount crit then 1 else 0)"
    using inv tok sum_thread_upd [OF assms(2,4), of "\<lambda>_. cs_token" "cs_threads s" x] by linarith
  moreover have "OwningThread crit \<in> insert 0 T" using own inv assms(4) by auto
  ultimately show ?thesis by (simp add: cs_inv_def cs_move_def)
qed

text \<open>What one access of a thread does to its own part of the invariant.\<close>

lemmas cs_run_simps = cs_run_def get_semaphore_def cs_permits_def Let_def

lemma cs_run_owner:
  assumes "cs_run t x crit = Some (x', crit')" and "cs_local t x crit"
  shows "OwningThread crit' = OwningThread crit \<and> RecursionCount crit' = RecursionCount crit
    \<or> cs_token x = 1 \<and> OwningThread crit' \<in> {0, t}"
proof (cases x)
  case (fields a h)
  show ?thesis
    using assms unfolding fields by (cases a) (auto simp: cs_run_simps split: if_splits option.splits nat.splits)
qed

lemma cs_run_LockCount:
  assumes "cs_run t x crit = Some (x', crit')"
    and "cs_added x \<le> LockCount crit + 1" and "LockCount crit + 1 < 2 ^ 31"
    and "LockCount crit + 1 - cs_added x + cs_added x' < 2 ^ 31" and "- 1 \<le> LockCount crit"
    and "cs_local t x crit"
  shows "LockCount crit' - LockCount crit = cs_added x' - cs_added x"
proof (cases x)
  case (fields a h)
  show ?thesis
    using assms unfolding fields by (cases a) (auto simp: cs_run_simps split: if_splits option.splits nat.splits)
qed

lemma cs_run_local:
  assumes "cs_run t x crit = Some (x', crit')"
    and "cs_added x \<le> LockCount crit + 1" and "LockCount crit + 1 < 2 ^ 31"
    and "cs_local t x crit" and "t \<noteq> 0"
  shows "cs_local t x' crit'"
proof (cases x)
  case (fields a h)
  show ?thesis
    using assms unfolding fields by (cases a) (auto simp: cs_run_simps split: if_splits option.splits nat.splits)
qed

lemma cs_run_token:
  assumes "cs_run t x crit = Some (x', crit')"
    and "cs_added x \<le> LockCount crit + 1" and "LockCount crit + 1 < 2 ^ 31"
    and "- 1 \<le> LockCount crit"
    and "cs_local t x crit" and "cs_token x + cs_permits crit \<le> 1"
    and "cs_token x = 1 \<or> cs_permits crit = 1 \<Longrightarrow> 0 \<le> LockCount crit"
  shows "cs_token x' + cs_permits crit' - (if 0 \<le> LockCount crit' then 1 else 0) =
     cs_token x + cs_permits crit - (if 0 \<le> LockCount crit then 1 else 0)"
proof (cases x)
  case (fields a h)
  show ?thesis
    using assms unfolding fields by (cases a) (auto simp: cs_run_simps split: if_splits option.splits nat.splits)
qed

lemma cs_run_semaphore:
  assumes "cs_run t x crit = Some (x', crit')" and "LockSemaphore crit' = None"
  shows "LockSemaphore crit = None"
proof (cases x)
  case (fields a h)
  show ?thesis
    using assms unfolding fields by (cases a) (auto simp: cs_run_simps split: if_splits option.splits nat.splits)
qed

lemma cs_run_inv:
  assumes inv: "cs_inv T s" and fin: "finite T" "0 \<notin> T" "t \<in> T" and small: "cs_total T s < 2 ^ 31"
    and step: "cs_run t (cs_threads s t) (cs_crit s) = Some (x, crit)"
    and bound: "cs_total T (cs_move s t x crit) < 2 ^ 31"
  shows "cs_inv T (cs_move s t x crit)"
proof -
  have "cs_total T (cs_move s t x crit) = LockCount (cs_crit s) + 1 - cs_added (cs_threads s t) + cs_added x"
    using inv sum_thread_upd [OF fin(1,3), of "\<lambda>_. cs_added" "cs_threads s" x]
    by (simp add: cs_total_def cs_move_def cs_inv_def)
  moreover have "LockCount (cs_crit s) + 1 < 2 ^ 31" "- 1 \<le> LockCount (cs_crit s)"
    using inv small cs_inv_facts(2) [OF inv fin(1,3)] cs_added_nonneg [of "cs_threads s t"]
    by (auto simp: cs_inv_def)
  moreover have "t \<noteq> 0" using fin by metis
  ultimately show ?thesis
    using cs_inv_facts(1-4) [OF inv fin(1,3)] bound
    by (intro cs_inv_move [OF inv fin] cs_run_owner [OF step] cs_run_LockCount [OF step]
          cs_run_local [OF step] cs_run_token [OF step] cs_run_semaphore [OF step]) auto
qed

lemma cs_call_inv:
  assumes inv: "cs_inv T s" and fin: "finite T" "0 \<notin> T" "t \<in> T"
    and at: "cs_threads s t = \<lparr>cs_at = CsIdle, cs_held = h\<rparr>"
    and x: "x \<in> {\<lparr>cs_at = EnterInc, cs_held = h\<rparr>, \<lparr>cs_at = TryCas, cs_held = h\<rparr>} \<or>
      (\<exists>k. h = Suc k \<and> x = \<lparr>cs_at = LeaveCount, cs_held = k\<rparr>)"
  shows "cs_inv T (cs_move s t x (cs_crit s))"
  using cs_inv_facts(1) [OF inv fin(1,3)] x at
  by (intro cs_inv_move [OF inv fin]) (auto split: if_splits)

lemma cs_start_inv: "0 \<notin> T \<Longrightarrow> cs_inv T cs_start"
  by (auto simp: cs_inv_def cs_start_def cs_total_def cs_permits_def InitializeCriticalSection_def intro: gr0I)

lemma cs_step_inv:
  assumes "cs_step T s s'" and "cs_inv T s" and "finite T" "0 \<notin> T"
    and "cs_total T s < 2 ^ 31" "cs_total T s' < 2 ^ 31"
  shows "cs_inv T s'"
  using assms
proof (cases rule: cs_step.cases)
  case (run t x crit)
  then show ?thesis using assms by (blast intro: cs_run_inv)
qed (use assms cs_call_inv in blast)+

lemma cs_reachable_inv: "cs_reachable T s \<Longrightarrow> finite T \<Longrightarrow> 0 \<notin> T \<Longrightarrow> cs_inv T s \<and> cs_total T s < 2 ^ 31"
proof (induction rule: cs_reachable.induct)
  case cs_init
  then show ?case using cs_start_inv by (simp add: cs_total_def cs_start_def)
next
  case (cs_next s s')
  then show ?case by (blast intro: cs_step_inv)
qed

section \<open>The contract: a mutex\<close>

text \<open>
  What a client relies on: at most one thread is inside, with the number of its entries.
  \<open>None\<close> as a result means that the thread waits (\<open>mutex_enter\<close>) or breaks the rules (\<open>mutex_leave\<close>).
\<close>

type_synonym mutex = "(nat \<times> nat) option"

fun mutex_enter :: "nat \<Rightarrow> mutex \<Rightarrow> mutex option" where
  "mutex_enter t None = Some (Some (t, 1))"
| "mutex_enter t (Some (u, n)) = (if u = t then Some (Some (t, Suc n)) else None)"

fun mutex_leave :: "nat \<Rightarrow> mutex \<Rightarrow> mutex option" where
  "mutex_leave t None = None"
| "mutex_leave t (Some (u, n)) = (if u = t then Some (if n \<le> 1 then None else Some (t, n - 1)) else None)"

inductive mutex_step :: "nat set \<Rightarrow> mutex \<Rightarrow> mutex \<Rightarrow> bool" for T :: "nat set" where
  stutter: "mutex_step T m m"
| enter: "t \<in> T \<Longrightarrow> mutex_enter t m = Some m' \<Longrightarrow> mutex_step T m m'"
| leave: "t \<in> T \<Longrightarrow> mutex_leave t m = Some m' \<Longrightarrow> mutex_step T m m'"

definition cs_mutex :: "cs_sys \<Rightarrow> mutex" where
  "cs_mutex s = (let t = OwningThread (cs_crit s); h = cs_held (cs_threads s t)
     in if t \<noteq> 0 \<and> 0 < h then Some (t, h) else None)"

lemma cs_local_held: "cs_local t x crit \<Longrightarrow> 0 < cs_held x \<Longrightarrow> OwningThread crit = t"
  by (cases x) (simp split: cs_pc.splits)

lemma cs_mutex_held:
  assumes "cs_inv T s" and "0 \<notin> T" and "t \<in> T" and "0 < cs_held (cs_threads s t)"
  shows "cs_mutex s = Some (t, cs_held (cs_threads s t))"
proof -
  have "OwningThread (cs_crit s) = t"
    using assms(1,3,4) by (auto simp: cs_inv_def intro: cs_local_held)
  moreover have "t \<noteq> 0" using assms(2,3) by metis
  ultimately show ?thesis using assms(4) by (simp add: cs_mutex_def)
qed

lemma cs_mutex_cases:
  assumes "cs_inv T s" and "0 \<notin> T"
  obtains "cs_mutex s = None" "\<And>t. t \<in> T \<Longrightarrow> cs_held (cs_threads s t) = 0"
  | t where "t \<in> T" "0 < cs_held (cs_threads s t)" "cs_mutex s = Some (t, cs_held (cs_threads s t))"
      "\<And>u. u \<in> T \<Longrightarrow> u \<noteq> t \<Longrightarrow> cs_held (cs_threads s u) = 0"
proof (cases "\<exists>t\<in>T. 0 < cs_held (cs_threads s t)")
  case True
  then obtain t where t: "t \<in> T" "0 < cs_held (cs_threads s t)" by blast
  have "cs_held (cs_threads s u) = 0" if "u \<in> T" "u \<noteq> t" for u
    using cs_mutex_held [OF assms that(1)] cs_mutex_held [OF assms t] that(2) by auto
  with t cs_mutex_held [OF assms t] show ?thesis by (blast intro: that(2))
next
  case False
  then have "cs_held (cs_threads s t) = 0" if "t \<in> T" for t using that by auto
  moreover have "OwningThread (cs_crit s) \<in> insert 0 T" using assms(1) by (simp add: cs_inv_def)
  ultimately show ?thesis using False by (intro that(1)) (auto simp: cs_mutex_def Let_def)
qed

lemma cs_mutex_iff:
  assumes "cs_inv T s" and "0 \<notin> T"
  shows "cs_mutex s = Some (t, n) \<longleftrightarrow> t \<in> T \<and> 0 < n \<and> cs_held (cs_threads s t) = n"
  using cs_mutex_cases [OF assms] cs_mutex_held [OF assms, of t] by (metis (no_types, lifting) Pair_inject not_gr_zero option.distinct(1) option.inject)

lemma cs_mutex_move:
  assumes inv: "cs_inv T s" "cs_inv T (cs_move s t x crit)" and T: "0 \<notin> T" "t \<in> T"
    and held: "cs_held x \<in> {cs_held (cs_threads s t), Suc (cs_held (cs_threads s t)), cs_held (cs_threads s t) - 1}"
  shows "mutex_step T (cs_mutex s) (cs_mutex (cs_move s t x crit))"
proof -
  note old = cs_mutex_iff [OF inv(1) T(1)] and new = cs_mutex_iff [OF inv(2) T(1)]
  have th: "cs_threads (cs_move s t x crit) u = (if u = t then x else cs_threads s u)" for u
    by (simp add: cs_move_def)
  consider (same) "cs_held x = cs_held (cs_threads s t)"
    | (up) "cs_held x = Suc (cs_held (cs_threads s t))"
    | (down) "cs_held (cs_threads s t) = Suc (cs_held x)"
    using held by (cases "cs_held (cs_threads s t)") auto
  then show ?thesis
  proof cases
    case same
    then have "cs_mutex s = Some (u, n) \<longleftrightarrow> cs_mutex (cs_move s t x crit) = Some (u, n)" for u n
      by (simp add: old new th)
    then have "cs_mutex s = cs_mutex (cs_move s t x crit)" by (metis option.exhaust surj_pair)
    then show ?thesis by (simp add: mutex_step.stutter)
  next
    case up
    then have to: "cs_mutex (cs_move s t x crit) = Some (t, Suc (cs_held (cs_threads s t)))"
      using T by (simp add: new th)
    have "mutex_enter t (cs_mutex s) = Some (Some (t, Suc (cs_held (cs_threads s t))))"
    proof (cases "cs_mutex s")
      case None
      then have "cs_held (cs_threads s t) = 0" using T old [of t "cs_held (cs_threads s t)"] by simp
      then show ?thesis using None by simp
    next
      case (Some m)
      then obtain u n where un: "cs_mutex s = Some (u, n)" by (metis surj_pair)
      then have "u = t" using to old [of u n] new [of u n] by (auto simp: th)
      then show ?thesis using un old [of u n] by simp
    qed
    then show ?thesis using to T by (metis mutex_step.enter)
  next
    case down
    then have from': "cs_mutex s = Some (t, Suc (cs_held x))" using T by (simp add: old)
    have "cs_mutex (cs_move s t x crit) = (if cs_held x = 0 then None else Some (t, cs_held x))"
    proof (cases "cs_held x = 0")
      case True
      have "cs_mutex (cs_move s t x crit) \<noteq> Some (u, n)" for u n
        using from' True new [of u n] old [of u n] by (auto simp: th)
      then show ?thesis using True by (metis option.exhaust surj_pair)
    qed (use T in \<open>simp add: new th\<close>)
    then have "mutex_leave t (cs_mutex s) = Some (cs_mutex (cs_move s t x crit))" using from' by simp
    then show ?thesis using T by (metis mutex_step.leave)
  qed
qed

lemma cs_run_held:
  assumes "cs_run t x crit = Some (x', crit')"
  shows "cs_held x' \<in> {cs_held x, Suc (cs_held x)}"
proof (cases x)
  case (fields a h)
  show ?thesis
    using assms unfolding fields by (cases a) (auto simp: cs_run_simps split: if_splits option.splits nat.splits)
qed

lemma cs_step_mutex:
  assumes "cs_step T s s'" and "cs_inv T s" and "cs_inv T s'" and "0 \<notin> T"
  shows "mutex_step T (cs_mutex s) (cs_mutex s')"
  using assms(1)
proof (cases rule: cs_step.cases)
  case (run t x crit)
  show ?thesis
    unfolding run(1) by (rule cs_mutex_move) (use run assms cs_run_held [OF run(3)] in auto)
qed (use assms cs_mutex_move in auto)

section \<open>Progress\<close>

text \<open>A thread is stuck inside a function only in its wait for the semaphore.\<close>

lemma cs_run_ready:
  assumes "cs_at x \<noteq> CsIdle" and "cs_at x = EnterWait \<Longrightarrow> 0 < cs_permits crit"
  shows "\<exists>r. cs_run t x crit = Some r"
proof (cases x)
  case (fields a h)
  show ?thesis
    using assms unfolding fields by (cases a) (auto simp: cs_run_simps split: if_splits option.splits nat.splits)
qed

lemma cs_progress:
  assumes inv: "cs_inv T s" and fin: "finite T" "t \<in> T" and busy: "cs_at (cs_threads s t) \<noteq> CsIdle"
    and free: "\<And>u. u \<in> T \<Longrightarrow> cs_held (cs_threads s u) = 0"
  shows "\<exists>u\<in>T. cs_at (cs_threads s u) \<noteq> CsIdle \<and> (\<exists>r. cs_run u (cs_threads s u) (cs_crit s) = Some r)"
proof (rule ccontr)
  assume no: "\<not> ?thesis"
  have stuck: "cs_at (cs_threads s u) = CsIdle \<or> cs_at (cs_threads s u) = EnterWait \<and> cs_permits (cs_crit s) \<le> 0"
    if "u \<in> T" for u
    using no that cs_run_ready [of "cs_threads s u" "cs_crit s" u] by force
  have "cs_token (cs_threads s u) = 0" if "u \<in> T" for u
    using stuck [OF that] free [OF that] by (cases "cs_threads s u") auto
  moreover have "cs_permits (cs_crit s) \<le> 0" using stuck [OF fin(2)] busy by simp
  moreover have "cs_added (cs_threads s t) = 1"
    using stuck [OF fin(2)] busy free [OF fin(2)] by (cases "cs_threads s t") simp
  then have "0 \<le> LockCount (cs_crit s)" using cs_inv_facts(2) [OF inv fin] by simp
  ultimately show False using inv by (simp add: cs_inv_def)
qed

end
