(* ===== verification/RwLock.thy ===== *)
theory RwLock
  imports CritSect
begin

text \<open>
  The reader-writer lock of \<open>ntdll/rtl.c\<close> as a machine of interleaved threads. A thread moves by
  entering the critical section of the lock, by the block of code it runs inside, by leaving
  it and by a wait for one of the two semaphores. The critical section is the mutex that
  \<open>CritSect\<close> provides, the semaphores are the documented objects of \<open>CreateSemaphoreA\<close> with
  maximum count 65535.
\<close>

section \<open>The critical section as the lock sees it\<close>

text \<open>The lock never enters its critical section twice, so one level is all it relies on.\<close>

locale section_interface =
  fixes free :: 'm
    and enter :: "nat \<Rightarrow> 'm \<Rightarrow> 'm option"
    and leave :: "nat \<Rightarrow> 'm \<Rightarrow> 'm option"
    and inside :: "nat \<Rightarrow> 'm"
  assumes enter_free: "enter t free = Some (inside t)"
    and enter_busy: "u \<noteq> t \<Longrightarrow> enter t (inside u) = None"
    and leave_inside: "leave t (inside t) = Some free"
    and leave_other: "u \<noteq> t \<Longrightarrow> leave t (inside u) = None"
    and leave_free: "leave t free = None"
begin

lemma enter_Some:
  assumes "m = free \<or> (\<exists>u. u \<noteq> t \<and> m = inside u)" and "enter t m = Some m'"
  shows "m = free \<and> m' = inside t"
  using assms by (auto simp: enter_free enter_busy)

lemma leave_Some:
  assumes "m = free \<or> (\<exists>u. m = inside u)" and "leave t m = Some m'"
  shows "m = inside t \<and> m' = free"
proof -
  from assms(1) obtain u where "m = inside u" using assms(2) by (auto simp: leave_free)
  then show ?thesis using assms(2) leave_other [of u t] by (cases "u = t") (auto simp: leave_inside)
qed

end

interpretation rtl_cs: section_interface None mutex_enter mutex_leave "\<lambda>t. Some (t, 1)"
  by unfold_locales auto

section \<open>Semaphores\<close>

datatype wait = WAIT_OBJECT_0 | WAIT_FAILED

definition WaitForSingleObject :: "nat option \<Rightarrow> (wait \<times> nat option) option" where
  "WaitForSingleObject h =
     (case h of None \<Rightarrow> Some (WAIT_FAILED, None) | Some 0 \<Rightarrow> None | Some (Suc n) \<Rightarrow> Some (WAIT_OBJECT_0, Some n))"

definition ReleaseSemaphore :: "nat option \<Rightarrow> nat \<Rightarrow> nat option" where
  "ReleaseSemaphore h k = (case h of None \<Rightarrow> None | Some n \<Rightarrow> Some (if int n + int k \<le> 65535 then n + k else n))"

section \<open>The lock\<close>

record rwlock =
  rtlCS :: mutex
  hSharedReleaseSemaphore :: "nat option"
  uSharedWaiters :: ulong
  hExclusiveReleaseSemaphore :: "nat option"
  uExclusiveWaiters :: ulong
  iNumberActive :: int
  hOwningThreadId :: nat
  dwTimeoutBoost :: ulong

text \<open>The arguments say whether the system could create the two semaphores.\<close>

definition RtlInitializeResource :: "bool \<Rightarrow> bool \<Rightarrow> rwlock" where
  "RtlInitializeResource okExclusive okShared = \<lparr>rtlCS = None,
     hSharedReleaseSemaphore = (if okShared then Some 0 else None), uSharedWaiters = 0,
     hExclusiveReleaseSemaphore = (if okExclusive then Some 0 else None), uExclusiveWaiters = 0,
     iNumberActive = 0, hOwningThreadId = 0, dwTimeoutBoost = 0\<rparr>"

definition RtlDeleteResource :: "nat \<Rightarrow> rwlock \<Rightarrow> rwlock option" where
  "RtlDeleteResource t rwl =
     (case mutex_enter t (rtlCS rwl) of None \<Rightarrow> None
      | Some m \<Rightarrow> map_option (\<lambda>m'. rwl\<lparr>rtlCS := m', hOwningThreadId := 0, uExclusiveWaiters := 0,
          uSharedWaiters := 0, iNumberActive := 0, hExclusiveReleaseSemaphore := None,
          hSharedReleaseSemaphore := None\<rparr>) (mutex_leave t m))"

text \<open>
  Where a thread is inside the functions. The wait flag and, for a reader, the result of the last
  wait are local variables; \<open>Done\<close> carries the value to return.
\<close>

datatype rw_pc =
    RwIdle
  | ExclEnter bool | ExclBody bool | ExclUnlock | ExclWait | ExclDone bool
  | SharEnter bool wait | SharBody bool wait | SharUnlock | SharWait | SharDone bool
  | RelEnter | RelBody | RelDone

text \<open>\<open>rw_excl\<close> and \<open>rw_shar\<close> count the successful calls that a thread has not yet released.\<close>

record rw_thread =
  rw_at :: rw_pc
  rw_excl :: nat
  rw_shar :: nat

definition exclusive_body :: "nat \<Rightarrow> bool \<Rightarrow> rwlock \<Rightarrow> rw_pc \<times> rwlock" where
  "exclusive_body t fWait rwl =
     (if iNumberActive rwl = 0 then (ExclDone True, rwl\<lparr>iNumberActive := - 1, hOwningThreadId := t\<rparr>)
      else if iNumberActive rwl < 0 \<and> hOwningThreadId rwl = t
        then (ExclDone True, rwl\<lparr>iNumberActive := clong (iNumberActive rwl - 1)\<rparr>)
      else if fWait then (ExclUnlock, rwl\<lparr>uExclusiveWaiters := uExclusiveWaiters rwl + 1\<rparr>)
      else (ExclDone False, rwl))"

definition shared_body :: "nat \<Rightarrow> bool \<Rightarrow> wait \<Rightarrow> rwlock \<Rightarrow> rw_pc \<times> rwlock" where
  "shared_body t fWait dwWait rwl =
     (if iNumberActive rwl < 0 then
        if hOwningThreadId rwl = t then (SharDone True, rwl\<lparr>iNumberActive := clong (iNumberActive rwl - 1)\<rparr>)
        else if fWait then (SharUnlock, rwl\<lparr>uSharedWaiters := uSharedWaiters rwl + 1\<rparr>)
        else (SharDone False, rwl)
      else (SharDone True,
        if dwWait \<noteq> WAIT_OBJECT_0 then rwl\<lparr>iNumberActive := clong (iNumberActive rwl + 1)\<rparr> else rwl))"

definition wake_exclusive :: "rwlock \<Rightarrow> rwlock" where
  "wake_exclusive rwl = rwl\<lparr>uExclusiveWaiters := uExclusiveWaiters rwl - 1,
     hExclusiveReleaseSemaphore := ReleaseSemaphore (hExclusiveReleaseSemaphore rwl) 1\<rparr>"

definition release_body :: "rwlock \<Rightarrow> rwlock" where
  "release_body rwl =
     (if 0 < iNumberActive rwl then
        let rwl = rwl\<lparr>iNumberActive := clong (iNumberActive rwl - 1)\<rparr>
        in if iNumberActive rwl = 0 \<and> uExclusiveWaiters rwl \<noteq> 0 then wake_exclusive rwl else rwl
      else if iNumberActive rwl < 0 then
        let rwl = rwl\<lparr>iNumberActive := clong (iNumberActive rwl + 1)\<rparr>
        in if iNumberActive rwl = 0 then
             let rwl = rwl\<lparr>hOwningThreadId := 0\<rparr>
             in if uExclusiveWaiters rwl \<noteq> 0 then wake_exclusive rwl
                else if uSharedWaiters rwl \<noteq> 0 then
                  rwl\<lparr>iNumberActive := clong (uint (uSharedWaiters rwl)), uSharedWaiters := 0,
                    hSharedReleaseSemaphore :=
                      ReleaseSemaphore (hSharedReleaseSemaphore rwl) (unat (uSharedWaiters rwl))\<rparr>
                else rwl
           else rwl
      else rwl)"

fun RtlAcquireResourceExclusive :: "nat \<Rightarrow> rw_thread \<Rightarrow> rwlock \<Rightarrow> (rw_thread \<times> rwlock) option" where
  "RtlAcquireResourceExclusive t \<lparr>rw_at = ExclEnter fWait, rw_excl = x, rw_shar = y\<rparr> rwl =
     map_option (\<lambda>m. (\<lparr>rw_at = ExclBody fWait, rw_excl = x, rw_shar = y\<rparr>, rwl\<lparr>rtlCS := m\<rparr>)) (mutex_enter t (rtlCS rwl))"
| "RtlAcquireResourceExclusive t \<lparr>rw_at = ExclBody fWait, rw_excl = x, rw_shar = y\<rparr> rwl =
     (let (a, rwl) = exclusive_body t fWait rwl in Some (\<lparr>rw_at = a, rw_excl = x, rw_shar = y\<rparr>, rwl))"
| "RtlAcquireResourceExclusive t \<lparr>rw_at = ExclUnlock, rw_excl = x, rw_shar = y\<rparr> rwl =
     map_option (\<lambda>m. (\<lparr>rw_at = ExclWait, rw_excl = x, rw_shar = y\<rparr>, rwl\<lparr>rtlCS := m\<rparr>)) (mutex_leave t (rtlCS rwl))"
| "RtlAcquireResourceExclusive t \<lparr>rw_at = ExclWait, rw_excl = x, rw_shar = y\<rparr> rwl =
     map_option (\<lambda>(w, h). (\<lparr>rw_at = (if w = WAIT_FAILED then ExclDone False else ExclEnter True), rw_excl = x, rw_shar = y\<rparr>,
       rwl\<lparr>hExclusiveReleaseSemaphore := h\<rparr>)) (WaitForSingleObject (hExclusiveReleaseSemaphore rwl))"
| "RtlAcquireResourceExclusive t \<lparr>rw_at = ExclDone retVal, rw_excl = x, rw_shar = y\<rparr> rwl =
     map_option (\<lambda>m. (\<lparr>rw_at = RwIdle, rw_excl = x + of_bool retVal, rw_shar = y\<rparr>, rwl\<lparr>rtlCS := m\<rparr>))
       (mutex_leave t (rtlCS rwl))"
| "RtlAcquireResourceExclusive t _ rwl = None"

fun RtlAcquireResourceShared :: "nat \<Rightarrow> rw_thread \<Rightarrow> rwlock \<Rightarrow> (rw_thread \<times> rwlock) option" where
  "RtlAcquireResourceShared t \<lparr>rw_at = SharEnter fWait dwWait, rw_excl = x, rw_shar = y\<rparr> rwl =
     map_option (\<lambda>m. (\<lparr>rw_at = SharBody fWait dwWait, rw_excl = x, rw_shar = y\<rparr>, rwl\<lparr>rtlCS := m\<rparr>))
       (mutex_enter t (rtlCS rwl))"
| "RtlAcquireResourceShared t \<lparr>rw_at = SharBody fWait dwWait, rw_excl = x, rw_shar = y\<rparr> rwl =
     (let (a, rwl) = shared_body t fWait dwWait rwl in Some (\<lparr>rw_at = a, rw_excl = x, rw_shar = y\<rparr>, rwl))"
| "RtlAcquireResourceShared t \<lparr>rw_at = SharUnlock, rw_excl = x, rw_shar = y\<rparr> rwl =
     map_option (\<lambda>m. (\<lparr>rw_at = SharWait, rw_excl = x, rw_shar = y\<rparr>, rwl\<lparr>rtlCS := m\<rparr>)) (mutex_leave t (rtlCS rwl))"
| "RtlAcquireResourceShared t \<lparr>rw_at = SharWait, rw_excl = x, rw_shar = y\<rparr> rwl =
     map_option (\<lambda>(w, h). (\<lparr>rw_at = (if w = WAIT_FAILED then SharDone False else SharEnter True w), rw_excl = x, rw_shar = y\<rparr>,
       rwl\<lparr>hSharedReleaseSemaphore := h\<rparr>)) (WaitForSingleObject (hSharedReleaseSemaphore rwl))"
| "RtlAcquireResourceShared t \<lparr>rw_at = SharDone retVal, rw_excl = x, rw_shar = y\<rparr> rwl =
     map_option (\<lambda>m. (\<lparr>rw_at = RwIdle, rw_excl = x, rw_shar = y + of_bool retVal\<rparr>, rwl\<lparr>rtlCS := m\<rparr>))
       (mutex_leave t (rtlCS rwl))"
| "RtlAcquireResourceShared t _ rwl = None"

fun RtlReleaseResource :: "nat \<Rightarrow> rw_thread \<Rightarrow> rwlock \<Rightarrow> (rw_thread \<times> rwlock) option" where
  "RtlReleaseResource t \<lparr>rw_at = RelEnter, rw_excl = x, rw_shar = y\<rparr> rwl =
     map_option (\<lambda>m. (\<lparr>rw_at = RelBody, rw_excl = x, rw_shar = y\<rparr>, rwl\<lparr>rtlCS := m\<rparr>)) (mutex_enter t (rtlCS rwl))"
| "RtlReleaseResource t \<lparr>rw_at = RelBody, rw_excl = x, rw_shar = y\<rparr> rwl =
     Some (\<lparr>rw_at = RelDone, rw_excl = x, rw_shar = y\<rparr>, release_body rwl)"
| "RtlReleaseResource t \<lparr>rw_at = RelDone, rw_excl = x, rw_shar = y\<rparr> rwl =
     map_option (\<lambda>m. (\<lparr>rw_at = RwIdle, rw_excl = x, rw_shar = y\<rparr>, rwl\<lparr>rtlCS := m\<rparr>)) (mutex_leave t (rtlCS rwl))"
| "RtlReleaseResource t _ rwl = None"

section \<open>Interleaving\<close>

record rw_sys =
  rw_lock :: rwlock
  rw_threads :: "nat \<Rightarrow> rw_thread"

definition rw_move :: "rw_sys \<Rightarrow> nat \<Rightarrow> rw_thread \<Rightarrow> rwlock \<Rightarrow> rw_sys" where
  "rw_move s t x rwl = \<lparr>rw_lock = rwl, rw_threads = (rw_threads s)(t := x)\<rparr>"

definition rw_run :: "nat \<Rightarrow> rw_thread \<Rightarrow> rwlock \<Rightarrow> (rw_thread \<times> rwlock) option" where
  "rw_run t x rwl = (case RtlAcquireResourceExclusive t x rwl of Some r \<Rightarrow> Some r
     | None \<Rightarrow> (case RtlAcquireResourceShared t x rwl of Some r \<Rightarrow> Some r
     | None \<Rightarrow> RtlReleaseResource t x rwl))"

text \<open>A client calls \<open>RtlReleaseResource\<close> only for a call that succeeded, in any order.\<close>

inductive rw_step :: "nat set \<Rightarrow> rw_sys \<Rightarrow> rw_sys \<Rightarrow> bool" for T :: "nat set" where
  call_exclusive: "t \<in> T \<Longrightarrow> rw_threads s t = \<lparr>rw_at = RwIdle, rw_excl = x, rw_shar = y\<rparr> \<Longrightarrow>
     rw_step T s (rw_move s t \<lparr>rw_at = ExclEnter fWait, rw_excl = x, rw_shar = y\<rparr> (rw_lock s))"
| call_shared: "t \<in> T \<Longrightarrow> rw_threads s t = \<lparr>rw_at = RwIdle, rw_excl = x, rw_shar = y\<rparr> \<Longrightarrow>
     rw_step T s (rw_move s t \<lparr>rw_at = SharEnter fWait WAIT_FAILED, rw_excl = x, rw_shar = y\<rparr> (rw_lock s))"
| call_release_exclusive: "t \<in> T \<Longrightarrow> rw_threads s t = \<lparr>rw_at = RwIdle, rw_excl = Suc x, rw_shar = y\<rparr> \<Longrightarrow>
     rw_step T s (rw_move s t \<lparr>rw_at = RelEnter, rw_excl = x, rw_shar = y\<rparr> (rw_lock s))"
| call_release_shared: "t \<in> T \<Longrightarrow> rw_threads s t = \<lparr>rw_at = RwIdle, rw_excl = x, rw_shar = Suc y\<rparr> \<Longrightarrow>
     rw_step T s (rw_move s t \<lparr>rw_at = RelEnter, rw_excl = x, rw_shar = y\<rparr> (rw_lock s))"
| run: "t \<in> T \<Longrightarrow> rw_run t (rw_threads s t) (rw_lock s) = Some (x, rwl) \<Longrightarrow>
     rw_step T s (rw_move s t x rwl)"

definition rw_start :: "rwlock \<Rightarrow> rw_sys" where
  "rw_start rwl = \<lparr>rw_lock = rwl, rw_threads = (\<lambda>_. \<lparr>rw_at = RwIdle, rw_excl = 0, rw_shar = 0\<rparr>)\<rparr>"

end
