(* ===== verification/RwLockInv.thy ===== *)
theory RwLockInv
  imports RwLock
begin

text \<open>
  The invariant of the reader-writer lock: how the counters of the lock, the counts of its two
  semaphores and the places of the threads agree, and that every step keeps it.
\<close>

section \<open>What a thread contributes\<close>

fun in_section :: "rw_thread \<Rightarrow> bool" where
  "in_section \<lparr>rw_at = a, rw_excl = x, rw_shar = y\<rparr> =
     (case a of ExclBody _ \<Rightarrow> True | ExclUnlock \<Rightarrow> True | ExclDone _ \<Rightarrow> True | SharBody _ _ \<Rightarrow> True
      | SharUnlock \<Rightarrow> True | SharDone _ \<Rightarrow> True | RelBody \<Rightarrow> True | RelDone \<Rightarrow> True | _ \<Rightarrow> False)"

text \<open>
  Holds counted in \<open>iNumberActive\<close>: those the client has, one granted but not yet returned, and
  one that is being released.
\<close>

fun rw_count :: "rw_thread \<Rightarrow> int" where
  "rw_count \<lparr>rw_at = a, rw_excl = x, rw_shar = y\<rparr> = int x + int y +
     (case a of ExclDone r \<Rightarrow> of_bool r | SharDone r \<Rightarrow> of_bool r | RelEnter \<Rightarrow> 1 | RelBody \<Rightarrow> 1 | _ \<Rightarrow> 0)"

fun rw_writes :: "rw_thread \<Rightarrow> int" where
  "rw_writes \<lparr>rw_at = a, rw_excl = x, rw_shar = y\<rparr> = int x + (case a of ExclDone r \<Rightarrow> of_bool r | _ \<Rightarrow> 0)"

text \<open>A reader that was woken and has been counted by the thread that woke it.\<close>

fun rw_woken :: "rw_thread \<Rightarrow> int" where
  "rw_woken \<lparr>rw_at = a, rw_excl = x, rw_shar = y\<rparr> =
     (case a of SharEnter _ w \<Rightarrow> of_bool (w = WAIT_OBJECT_0) | SharBody _ w \<Rightarrow> of_bool (w = WAIT_OBJECT_0) | _ \<Rightarrow> 0)"

fun excl_waits :: "rw_thread \<Rightarrow> int" where
  "excl_waits \<lparr>rw_at = a, rw_excl = x, rw_shar = y\<rparr> = (case a of ExclUnlock \<Rightarrow> 1 | ExclWait \<Rightarrow> 1 | _ \<Rightarrow> 0)"

fun shar_waits :: "rw_thread \<Rightarrow> int" where
  "shar_waits \<lparr>rw_at = a, rw_excl = x, rw_shar = y\<rparr> = (case a of SharUnlock \<Rightarrow> 1 | SharWait \<Rightarrow> 1 | _ \<Rightarrow> 0)"

fun excl_tries :: "rw_thread \<Rightarrow> int" where
  "excl_tries \<lparr>rw_at = a, rw_excl = x, rw_shar = y\<rparr> =
     (case a of ExclEnter f \<Rightarrow> of_bool f | ExclBody f \<Rightarrow> of_bool f | _ \<Rightarrow> 0)"

lemma rw_parts_nonneg:
  "0 \<le> rw_count x" "0 \<le> rw_woken x" "0 \<le> excl_waits x" "0 \<le> shar_waits x" "0 \<le> excl_tries x"
  "excl_waits x \<le> 1" "shar_waits x \<le> 1" "0 \<le> rw_writes x" "rw_writes x \<le> rw_count x"
  by (cases x; simp split: rw_pc.splits)+

definition permits :: "nat option \<Rightarrow> int" where
  "permits h = (case h of None \<Rightarrow> 0 | Some n \<Rightarrow> int n)"

lemma permits_simps [simp]: "permits (Some n) = int n" "permits None = 0"
  by (simp_all add: permits_def)

section \<open>The invariant\<close>

text \<open>The counters, given the sums of the contributions over all threads.\<close>

definition rw_counts :: "rwlock \<Rightarrow> int \<Rightarrow> int \<Rightarrow> int \<Rightarrow> int \<Rightarrow> int \<Rightarrow> bool" where
  "rw_counts rwl count woken ewaits swaits tries \<longleftrightarrow>
     hExclusiveReleaseSemaphore rwl \<noteq> None \<and> hSharedReleaseSemaphore rwl \<noteq> None \<and>
     uint (uExclusiveWaiters rwl) + permits (hExclusiveReleaseSemaphore rwl) = ewaits \<and>
     uint (uSharedWaiters rwl) + permits (hSharedReleaseSemaphore rwl) = swaits \<and>
     (0 \<le> iNumberActive rwl \<longrightarrow>
        iNumberActive rwl = count + woken + permits (hSharedReleaseSemaphore rwl)) \<and>
     (iNumberActive rwl < 0 \<longrightarrow>
        - iNumberActive rwl = count \<and> woken = 0 \<and> permits (hSharedReleaseSemaphore rwl) = 0) \<and>
     (iNumberActive rwl = 0 \<and> 0 < uint (uExclusiveWaiters rwl) \<longrightarrow>
        0 < permits (hExclusiveReleaseSemaphore rwl) + tries) \<and>
     (0 < uint (uSharedWaiters rwl) \<longrightarrow> iNumberActive rwl < 0 \<or> 0 < uint (uExclusiveWaiters rwl) \<or>
        0 < permits (hExclusiveReleaseSemaphore rwl) + tries)"

definition rw_local :: "nat \<Rightarrow> rw_thread \<Rightarrow> rwlock \<Rightarrow> bool" where
  "rw_local t x rwl \<longleftrightarrow>
     (in_section x \<longleftrightarrow> rtlCS rwl = Some (t, 1)) \<and>
     (0 \<le> iNumberActive rwl \<longrightarrow> rw_writes x = 0) \<and>
     (iNumberActive rwl < 0 \<and> hOwningThreadId rwl \<noteq> t \<longrightarrow> rw_count x = 0)"

text \<open>What one run of a thread does to the counters and to its own part.\<close>

lemma uint_dec: "w \<noteq> 0 \<Longrightarrow> uint (w - 1 :: ulong) = uint w - 1"
  by (metis uint_minus_simple_alt uint_1 word_gt_0_no word_neq_0_conv word_le_sub1 unsigned_1 linorder_not_le order_less_le word_gt_0 word_less_1 word_le_def)

lemma uint_inc: "uint w < 65535 \<Longrightarrow> uint (w + 1 :: ulong) = uint w + 1"
  by (subst uint_add_lem [THEN iffD1]) auto

lemma clong_range: "- 2147483648 \<le> x \<Longrightarrow> x < 2147483648 \<Longrightarrow> clong x = x"
  by (rule clong_id) simp_all

definition rw_sums_ok :: "rw_thread \<Rightarrow> rw_thread \<Rightarrow> int \<Rightarrow> int \<Rightarrow> int \<Rightarrow> int \<Rightarrow> int \<Rightarrow> bool" where
  "rw_sums_ok x x' C W E S R \<longleftrightarrow>
     rw_count x \<le> C \<and> rw_woken x \<le> W \<and> excl_waits x \<le> E \<and> shar_waits x \<le> S \<and> excl_tries x \<le> R \<and>
     E - excl_waits x + excl_waits x' \<le> 65535 \<and> S - shar_waits x + shar_waits x' \<le> 65535 \<and>
     C + W + S < 2147483647"

lemma rw_countsI:
  assumes "hExclusiveReleaseSemaphore rwl = Some e" "hSharedReleaseSemaphore rwl = Some h"
    and "uint (uExclusiveWaiters rwl) + int e = E" "uint (uSharedWaiters rwl) + int h = S"
    and "0 \<le> iNumberActive rwl \<Longrightarrow> iNumberActive rwl = C + W + int h"
    and "iNumberActive rwl < 0 \<Longrightarrow> - iNumberActive rwl = C \<and> W = 0 \<and> h = 0"
    and "iNumberActive rwl = 0 \<Longrightarrow> 0 < uint (uExclusiveWaiters rwl) \<Longrightarrow> 0 < int e + R"
    and "0 < uint (uSharedWaiters rwl) \<Longrightarrow> 0 \<le> iNumberActive rwl \<Longrightarrow> uint (uExclusiveWaiters rwl) = 0 \<Longrightarrow> 0 < int e + R"
  shows "rw_counts rwl C W E S R"
proof -
  have "0 < uint (uSharedWaiters rwl) \<longrightarrow> iNumberActive rwl < 0 \<or> 0 < uint (uExclusiveWaiters rwl) \<or> 0 < int e + R"
    using assms(8) uint_ge_0 [of "uExclusiveWaiters rwl"] by (meson antisym not_less)
  then show ?thesis
    unfolding rw_counts_def assms(1,2) permits_simps using assms(3-7) by (intro conjI impI) auto
qed

lemma rw_countsE:
  assumes "rw_counts rwl C W E S R"
  obtains e h where "hExclusiveReleaseSemaphore rwl = Some e" "hSharedReleaseSemaphore rwl = Some h"
  using assms unfolding rw_counts_def by auto

lemma rw_countsD:
  assumes "rw_counts rwl C W E S R"
    and "hExclusiveReleaseSemaphore rwl = Some e" "hSharedReleaseSemaphore rwl = Some h"
  shows "uint (uExclusiveWaiters rwl) + int e = E" "uint (uSharedWaiters rwl) + int h = S"
    and "0 \<le> iNumberActive rwl \<Longrightarrow> iNumberActive rwl = C + W + int h"
    and "iNumberActive rwl < 0 \<Longrightarrow> - iNumberActive rwl = C \<and> W = 0 \<and> h = 0"
    and "iNumberActive rwl = 0 \<Longrightarrow> 0 < uint (uExclusiveWaiters rwl) \<Longrightarrow> 0 < int e + R"
    and "0 < uint (uSharedWaiters rwl) \<Longrightarrow> 0 \<le> iNumberActive rwl \<Longrightarrow> uint (uExclusiveWaiters rwl) = 0 \<Longrightarrow> 0 < int e + R"
  using assms(1) unfolding rw_counts_def assms(2,3) permits_simps by linarith+

definition rw_counts_move :: "rw_thread \<Rightarrow> rw_thread \<Rightarrow> rwlock \<Rightarrow> int \<Rightarrow> int \<Rightarrow> int \<Rightarrow> int \<Rightarrow> int \<Rightarrow> bool" where
  "rw_counts_move x x' rwl' C W E S R \<longleftrightarrow>
     rw_counts rwl' (C - rw_count x + rw_count x') (W - rw_woken x + rw_woken x')
       (E - excl_waits x + excl_waits x') (S - shar_waits x + shar_waits x') (R - excl_tries x + excl_tries x')"

lemma exclusive_body_counts:
  assumes "exclusive_body t f rwl = (a', rwl')" and x: "x = \<lparr>rw_at = ExclBody f, rw_excl = n, rw_shar = m\<rparr>"
    and x': "x' = \<lparr>rw_at = a', rw_excl = n, rw_shar = m\<rparr>"
    and counts: "rw_counts rwl C W E S R" and ok: "rw_sums_ok x x' C W E S R" and loc: "rw_local t x rwl"
  shows "rw_counts_move x x' rwl' C W E S R"
proof -
  obtain e h where eh: "hExclusiveReleaseSemaphore rwl = Some e" "hSharedReleaseSemaphore rwl = Some h"
    using counts by (rule rw_countsE)
  note r = eh rw_countsD [OF counts eh]
  have c: "rw_count x = int n + int m" "rw_woken x = 0" "excl_waits x = 0" "shar_waits x = 0" "excl_tries x = of_bool f"
    using x by simp_all
  note o = ok [unfolded rw_sums_ok_def c]
  consider (free) "iNumberActive rwl = 0" "a' = ExclDone True" "rwl' = rwl\<lparr>iNumberActive := - 1, hOwningThreadId := t\<rparr>"
    | (again) "iNumberActive rwl < 0" "hOwningThreadId rwl = t" "a' = ExclDone True"
        "rwl' = rwl\<lparr>iNumberActive := clong (iNumberActive rwl - 1)\<rparr>"
    | (wait) "iNumberActive rwl \<noteq> 0" "f" "a' = ExclUnlock" "rwl' = rwl\<lparr>uExclusiveWaiters := uExclusiveWaiters rwl + 1\<rparr>"
    | (busy) "\<not> f" "a' = ExclDone False" "rwl' = rwl"
    using assms(1) by (auto simp: exclusive_body_def split: if_splits)
  then show ?thesis
  proof cases
    case free
    then show ?thesis unfolding rw_counts_move_def c x' using r o by (intro rw_countsI [where e = e and h = h]) auto
  next
    case again
    moreover have "clong (iNumberActive rwl - 1) = iNumberActive rwl - 1" using r(6) o again by auto
    ultimately show ?thesis unfolding rw_counts_move_def c x' using r o by (intro rw_countsI [where e = e and h = h]) auto
  next
    case wait
    moreover have "uint (uExclusiveWaiters rwl + 1) = uint (uExclusiveWaiters rwl) + 1"
      using r(3) o wait x' by (intro uint_inc) simp
    ultimately show ?thesis unfolding rw_counts_move_def c x' using r o by (intro rw_countsI [where e = e and h = h]) auto
  next
    case busy
    then show ?thesis unfolding rw_counts_move_def c x' using r o by (intro rw_countsI [where e = e and h = h]) auto
  qed
qed

lemma shared_body_counts:
  assumes "shared_body t f w rwl = (a', rwl')" and x: "x = \<lparr>rw_at = SharBody f w, rw_excl = n, rw_shar = m\<rparr>"
    and x': "x' = \<lparr>rw_at = a', rw_excl = n, rw_shar = m\<rparr>"
    and counts: "rw_counts rwl C W E S R" and ok: "rw_sums_ok x x' C W E S R" and loc: "rw_local t x rwl"
  shows "rw_counts_move x x' rwl' C W E S R"
proof -
  obtain e h where eh: "hExclusiveReleaseSemaphore rwl = Some e" "hSharedReleaseSemaphore rwl = Some h"
    using counts by (rule rw_countsE)
  note r = eh rw_countsD [OF counts eh]
  have c: "rw_count x = int n + int m" "rw_woken x = of_bool (w = WAIT_OBJECT_0)" "excl_waits x = 0" "shar_waits x = 0"
    "excl_tries x = 0"
    using x by simp_all
  note o = ok [unfolded rw_sums_ok_def c]
  have s: "0 \<le> uint (uSharedWaiters rwl)" by simp
  have b: "0 \<le> C" "0 \<le> W" "C + W + S < 2147483647" 
    using ok rw_parts_nonneg [of x] by (auto simp: rw_sums_ok_def)
  consider (again) "iNumberActive rwl < 0" "hOwningThreadId rwl = t" "a' = SharDone True"
        "rwl' = rwl\<lparr>iNumberActive := clong (iNumberActive rwl - 1)\<rparr>"
    | (wait) "iNumberActive rwl < 0" "a' = SharUnlock" "rwl' = rwl\<lparr>uSharedWaiters := uSharedWaiters rwl + 1\<rparr>"
    | (busy) "iNumberActive rwl < 0" "a' = SharDone False" "rwl' = rwl"
    | (first) "0 \<le> iNumberActive rwl" "w \<noteq> WAIT_OBJECT_0" "a' = SharDone True"
        "rwl' = rwl\<lparr>iNumberActive := clong (iNumberActive rwl + 1)\<rparr>"
    | (counted) "0 \<le> iNumberActive rwl" "w = WAIT_OBJECT_0" "a' = SharDone True" "rwl' = rwl"
    using assms(1) by (auto simp: shared_body_def split: if_splits)
  then show ?thesis
  proof cases
    case again
    moreover have "clong (iNumberActive rwl - 1) = iNumberActive rwl - 1" using r(6) o s again by auto
    ultimately show ?thesis
      unfolding rw_counts_move_def c x' using r o by (intro rw_countsI [where e = e and h = h]) auto
  next
    case wait
    moreover have "uint (uSharedWaiters rwl + 1) = uint (uSharedWaiters rwl) + 1"
      using r(4) o wait x' by (intro uint_inc) simp
    ultimately show ?thesis
      unfolding rw_counts_move_def c x' using r o by (intro rw_countsI [where e = e and h = h]) auto
  next
    case busy
    then show ?thesis unfolding rw_counts_move_def c x' using r o by (intro rw_countsI [where e = e and h = h]) auto
  next
    case first
    moreover have "clong (iNumberActive rwl + 1) = iNumberActive rwl + 1" 
      using r(4) r(5) [OF first(1)] b s by (intro clong_range) linarith+
    ultimately show ?thesis
      unfolding rw_counts_move_def c x' using r o by (intro rw_countsI [where e = e and h = h]) auto
  next
    case counted
    then show ?thesis unfolding rw_counts_move_def c x' using r o by (intro rw_countsI [where e = e and h = h]) auto
  qed
qed

lemma release_body_counts:
  assumes x: "x = \<lparr>rw_at = RelBody, rw_excl = n, rw_shar = m\<rparr>"
    and x': "x' = \<lparr>rw_at = RelDone, rw_excl = n, rw_shar = m\<rparr>"
    and counts: "rw_counts rwl C W E S R" and ok: "rw_sums_ok x x' C W E S R" and loc: "rw_local t x rwl"
  shows "rw_counts_move x x' (release_body rwl) C W E S R"
proof -
  obtain e h where eh: "hExclusiveReleaseSemaphore rwl = Some e" "hSharedReleaseSemaphore rwl = Some h"
    using counts by (rule rw_countsE)
  note r = eh rw_countsD [OF counts eh]
  have c: "rw_count x = int n + int m + 1" "rw_woken x = 0" "excl_waits x = 0" "shar_waits x = 0" "excl_tries x = 0"
    using x by simp_all
  note o = ok [unfolded rw_sums_ok_def c]
  have s: "0 \<le> uint (uSharedWaiters rwl)" "0 \<le> uint (uExclusiveWaiters rwl)" by simp_all
  have b: "0 \<le> C" "0 \<le> W" "C + W + S < 2147483647" using o by auto
  have e: "e < 65535" if "uExclusiveWaiters rwl \<noteq> 0"
  proof -
    have "uint (uExclusiveWaiters rwl) \<noteq> 0" using that by (simp add: uint_0_iff)
    then have "1 \<le> uint (uExclusiveWaiters rwl)" using s(2) by linarith
    then show ?thesis using r(3) o x' s by simp
  qed
  consider (reader) "0 < iNumberActive rwl" | (writer) "iNumberActive rwl < 0" using r(5) o by force
  then show ?thesis
  proof cases
    case reader
    then have "iNumberActive rwl = C + W + int h" using r(5) by simp
    then have n: "clong (iNumberActive rwl - 1) = iNumberActive rwl - 1"
      using reader r(4) b s by (intro clong_range) linarith+
    show ?thesis
    proof (cases "iNumberActive rwl = 1 \<and> uExclusiveWaiters rwl \<noteq> 0")
      case True
      then have "release_body rwl = wake_exclusive (rwl\<lparr>iNumberActive := 0\<rparr>)" using n by (simp add: release_body_def)
      moreover have "e < 65535" using True e by blast
      ultimately show ?thesis
        unfolding rw_counts_move_def c x' using r o True uint_dec [of "uExclusiveWaiters rwl"]
        by (intro rw_countsI [where e = "e + 1" and h = h]) (auto simp: wake_exclusive_def ReleaseSemaphore_def)
    next
      case False
      then have "release_body rwl = rwl\<lparr>iNumberActive := iNumberActive rwl - 1\<rparr>"
        using n reader by (auto simp: release_body_def Let_def)
      then show ?thesis
        unfolding rw_counts_move_def c x' using r o False reader
        by (intro rw_countsI [where e = e and h = h]) (auto simp: uint_0_iff)
    qed
  next
    case writer
    then have w: "- iNumberActive rwl = C" "W = 0" "h = 0" using r(6) by simp_all
    then have n: "clong (iNumberActive rwl + 1) = iNumberActive rwl + 1"
      using writer r(4) b s by (intro clong_range) linarith+
    consider (more) "iNumberActive rwl \<noteq> - 1" | (excl) "iNumberActive rwl = - 1" "uExclusiveWaiters rwl \<noteq> 0"
      | (shar) "iNumberActive rwl = - 1" "uExclusiveWaiters rwl = 0" "uSharedWaiters rwl \<noteq> 0"
      | (none) "iNumberActive rwl = - 1" "uExclusiveWaiters rwl = 0" "uSharedWaiters rwl = 0" by blast
    then show ?thesis
    proof cases
      case more
      then have "release_body rwl = rwl\<lparr>iNumberActive := iNumberActive rwl + 1\<rparr>"
        using n writer by (simp add: release_body_def Let_def)
      then show ?thesis
        unfolding rw_counts_move_def c x' using r o w more writer
        by (intro rw_countsI [where e = e and h = h]) auto
    next
      case excl
      then have "release_body rwl = wake_exclusive (rwl\<lparr>iNumberActive := 0, hOwningThreadId := 0\<rparr>)"
        using n by (simp add: release_body_def)
      moreover have "e < 65535" using excl e by blast
      ultimately show ?thesis
        unfolding rw_counts_move_def c x' using r o w excl uint_dec [of "uExclusiveWaiters rwl"]
        by (intro rw_countsI [where e = "e + 1" and h = h]) (auto simp: wake_exclusive_def ReleaseSemaphore_def)
    next
      case shar
      have few: "uint (uSharedWaiters rwl) \<le> 65535" using r(4) o x' by simp
      have "clong (uint (uSharedWaiters rwl)) = uint (uSharedWaiters rwl)" using s few by (intro clong_range) linarith+
      then have "release_body rwl = rwl\<lparr>hOwningThreadId := 0, iNumberActive := uint (uSharedWaiters rwl),
          uSharedWaiters := 0, hSharedReleaseSemaphore := Some (unat (uSharedWaiters rwl))\<rparr>"
        using n shar r(2) w few by (simp add: release_body_def Let_def ReleaseSemaphore_def)
      then show ?thesis
        unfolding rw_counts_move_def c x' using r o w shar s
        by (intro rw_countsI [where e = e and h = "unat (uSharedWaiters rwl)"]) auto
    next
      case none
      then have "release_body rwl = rwl\<lparr>iNumberActive := 0, hOwningThreadId := 0\<rparr>"
        using n by (simp add: release_body_def Let_def)
      then show ?thesis
        unfolding rw_counts_move_def c x' using r o w none
        by (intro rw_countsI [where e = e and h = h]) auto
    qed
  qed
qed

lemmas rw_run_simps = rw_run_def Let_def

lemma rw_counts_section: "rw_counts (rwl\<lparr>rtlCS := m\<rparr>) C W E S R = rw_counts rwl C W E S R"
  by (simp add: rw_counts_def)

lemma rw_run_counts:
  assumes run: "rw_run t x rwl = Some (x', rwl')"
    and counts: "rw_counts rwl C W E S R" and ok: "rw_sums_ok x x' C W E S R" and loc: "rw_local t x rwl"
  shows "rw_counts_move x x' rwl' C W E S R"
proof (cases x)
  case (fields a n m)
  obtain e h where eh: "hExclusiveReleaseSemaphore rwl = Some e" "hSharedReleaseSemaphore rwl = Some h"
    using counts by (rule rw_countsE)
  show ?thesis
  proof (cases a)
    case (ExclBody f)
    obtain a' where "exclusive_body t f rwl = (a', rwl')" "x' = \<lparr>rw_at = a', rw_excl = n, rw_shar = m\<rparr>"
      using run unfolding fields ExclBody by (cases "exclusive_body t f rwl") (auto simp: rw_run_simps)
    then show ?thesis by (rule exclusive_body_counts [OF _ fields [unfolded ExclBody] _ counts ok loc])
  next
    case (SharBody f w)
    obtain a' where "shared_body t f w rwl = (a', rwl')" "x' = \<lparr>rw_at = a', rw_excl = n, rw_shar = m\<rparr>"
      using run unfolding fields SharBody by (cases "shared_body t f w rwl") (auto simp: rw_run_simps)
    then show ?thesis by (rule shared_body_counts [OF _ fields [unfolded SharBody] _ counts ok loc])
  next
    case RelBody
    then have "x' = \<lparr>rw_at = RelDone, rw_excl = n, rw_shar = m\<rparr>" "rwl' = release_body rwl"
      using run unfolding fields by (auto simp: rw_run_simps)
    then show ?thesis using release_body_counts [OF fields [unfolded RelBody] _ counts ok loc] by simp
  next
    case ExclWait
    then obtain k where k: "e = Suc k" "x' = \<lparr>rw_at = ExclEnter True, rw_excl = n, rw_shar = m\<rparr>"
      "rwl' = rwl\<lparr>hExclusiveReleaseSemaphore := Some k\<rparr>"
      using run unfolding fields
      by (auto simp: rw_run_simps WaitForSingleObject_def eh split: nat.splits)
    then show ?thesis
      unfolding rw_counts_move_def k(2) fields ExclWait using rw_countsD [OF counts eh] eh
      by (intro rw_countsI [where e = k and h = h]) auto
  next
    case SharWait
    then obtain k where k: "h = Suc k" "x' = \<lparr>rw_at = SharEnter True WAIT_OBJECT_0, rw_excl = n, rw_shar = m\<rparr>"
      "rwl' = rwl\<lparr>hSharedReleaseSemaphore := Some k\<rparr>"
      using run unfolding fields
      by (auto simp: rw_run_simps WaitForSingleObject_def eh split: nat.splits)
    then show ?thesis
      unfolding rw_counts_move_def k(2) fields SharWait using rw_countsD [OF counts eh] eh
      by (intro rw_countsI [where e = e and h = k]) auto
  qed (use run counts in \<open>auto simp: fields rw_run_simps rw_counts_move_def rw_counts_section split: option.splits\<close>)
qed

text \<open>What the other threads see.\<close>

definition rw_in_range :: "rwlock \<Rightarrow> bool" where
  "rw_in_range rwl \<longleftrightarrow> - 2147483648 < iNumberActive rwl \<and> iNumberActive rwl < 2147483647 \<and> uint (uSharedWaiters rwl) \<le> 65535"

lemma rw_counts_in_range:
  assumes "rw_counts rwl C W E S R" and "S \<le> 65535" and "0 \<le> C" and "0 \<le> W" and "C + W + S < 2147483647"
  shows "rw_in_range rwl"
proof -
  obtain e h where eh: "hExclusiveReleaseSemaphore rwl = Some e" "hSharedReleaseSemaphore rwl = Some h"
    using assms(1) by (rule rw_countsE)
  have "0 \<le> uint (uSharedWaiters rwl)" by simp
  then show ?thesis
    using rw_countsD(2-4) [OF assms(1) eh] assms(2-5) unfolding rw_in_range_def
    by (cases "0 \<le> iNumberActive rwl") (intro conjI; linarith)+
qed

lemma clong_steps:
  assumes "rw_in_range rwl"
  shows "clong (iNumberActive rwl - 1) = iNumberActive rwl - 1" "clong (iNumberActive rwl + 1) = iNumberActive rwl + 1"
    "clong (uint (uSharedWaiters rwl)) = uint (uSharedWaiters rwl)"
proof -
  have "0 \<le> uint (uSharedWaiters rwl)" by simp
  then show "clong (iNumberActive rwl - 1) = iNumberActive rwl - 1" "clong (iNumberActive rwl + 1) = iNumberActive rwl + 1"
    "clong (uint (uSharedWaiters rwl)) = uint (uSharedWaiters rwl)"
    using assms unfolding rw_in_range_def by (intro clong_range; linarith)+
qed

text \<open>What the other threads see: the section stays free or the mover's, and ownership moves only through it.\<close>

definition rw_frame :: "nat \<Rightarrow> rwlock \<Rightarrow> rwlock \<Rightarrow> bool" where
  "rw_frame t rwl rwl' \<longleftrightarrow>
     (rtlCS rwl' = rtlCS rwl \<or> {rtlCS rwl, rtlCS rwl'} \<subseteq> {None, Some (t, 1)}) \<and>
     ((iNumberActive rwl' < 0) = (iNumberActive rwl < 0) \<and> hOwningThreadId rwl' = hOwningThreadId rwl
      \<or> iNumberActive rwl < 0 \<and> hOwningThreadId rwl = t \<and> 0 \<le> iNumberActive rwl'
      \<or> iNumberActive rwl = 0 \<and> iNumberActive rwl' < 0 \<and> hOwningThreadId rwl' = t)"

lemma exclusive_body_frame:
  assumes "exclusive_body t f rwl = (a', rwl')" and "rw_in_range rwl"
  shows "rw_frame t rwl rwl'"
  using assms(1) clong_steps [OF assms(2)] by (auto simp: exclusive_body_def rw_frame_def split: if_splits)

lemma shared_body_frame:
  assumes "shared_body t f w rwl = (a', rwl')" and "rw_in_range rwl"
  shows "rw_frame t rwl rwl'"
  using assms(1) clong_steps [OF assms(2)] by (auto simp: shared_body_def rw_frame_def split: if_splits)

lemma release_body_frame:
  assumes "iNumberActive rwl < 0 \<Longrightarrow> hOwningThreadId rwl = t" and "rw_in_range rwl"
  shows "rw_frame t rwl (release_body rwl)"
  using assms(1) clong_steps [OF assms(2)]
  by (auto simp: release_body_def wake_exclusive_def Let_def rw_frame_def)

lemma rw_run_frame:
  assumes run: "rw_run t x rwl = Some (x', rwl')" and loc: "rw_local t x rwl" and range: "rw_in_range rwl"
    and sec: "rtlCS rwl = None \<or> (\<exists>u. rtlCS rwl = Some (u, 1))"
  shows "rw_frame t rwl rwl'"
proof (cases x)
  case (fields a n m)
  have enter: "rw_frame t rwl (rwl\<lparr>rtlCS := m'\<rparr>)" if "mutex_enter t (rtlCS rwl) = Some m'" "\<not> in_section x" for m'
    using rtl_cs.enter_Some [of "rtlCS rwl" t m'] that sec loc by (auto simp: rw_frame_def rw_local_def)
  have leave: "rw_frame t rwl (rwl\<lparr>rtlCS := m'\<rparr>)" if "mutex_leave t (rtlCS rwl) = Some m'" for m'
    using rtl_cs.leave_Some [of "rtlCS rwl" t m'] that sec by (auto simp: rw_frame_def)
  show ?thesis
  proof (cases a)
    case (ExclBody f)
    obtain a' where "exclusive_body t f rwl = (a', rwl')"
      using run unfolding fields ExclBody by (cases "exclusive_body t f rwl") (auto simp: rw_run_simps)
    then show ?thesis using range by (rule exclusive_body_frame)
  next
    case (SharBody f w)
    obtain a' where "shared_body t f w rwl = (a', rwl')"
      using run unfolding fields SharBody by (cases "shared_body t f w rwl") (auto simp: rw_run_simps)
    then show ?thesis using range by (rule shared_body_frame)
  next
    case RelBody
    then have "rwl' = release_body rwl" "rw_count x \<noteq> 0" using run unfolding fields by (auto simp: rw_run_simps)
    then show ?thesis using loc range release_body_frame [of rwl t] by (auto simp: rw_local_def)
  next
    case ExclWait
    then show ?thesis using run unfolding fields by (auto simp: rw_run_simps rw_frame_def split: option.splits)
  next
    case SharWait
    then show ?thesis using run unfolding fields by (auto simp: rw_run_simps rw_frame_def split: option.splits)
  qed (use run enter leave in \<open>auto simp: fields rw_run_simps split: option.splits\<close>)
qed

lemma rw_local_other:
  assumes "rw_local u y rwl" and "u \<noteq> t" and "rw_frame t rwl rwl'" and "iNumberActive rwl = 0 \<Longrightarrow> rw_count y = 0"
  shows "rw_local u y rwl'"
proof -
  note y = assms(1) [unfolded rw_local_def] and f = assms(3) [unfolded rw_frame_def]
  have "in_section y \<longleftrightarrow> rtlCS rwl' = Some (u, 1)"
    using f [THEN conjunct1] y assms(2) by auto
  moreover have none: "rw_writes y = 0" if "rw_count y = 0" using that rw_parts_nonneg(8,9) [of y] by linarith
  have "rw_writes y = 0" if "0 \<le> iNumberActive rwl'"
    using f [THEN conjunct2] y assms(2) none that by (metis not_less)
  moreover have "rw_count y = 0" if "iNumberActive rwl' < 0" "hOwningThreadId rwl' \<noteq> u"
    using f [THEN conjunct2] y assms(4) that by (metis not_less)
  ultimately show ?thesis unfolding rw_local_def by blast
qed

lemma release_body_active:
  assumes "rw_in_range rwl"
  shows "rtlCS (release_body rwl) = rtlCS rwl"
    and "0 < iNumberActive rwl \<Longrightarrow> iNumberActive (release_body rwl) = iNumberActive rwl - 1"
    and "iNumberActive rwl < - 1 \<Longrightarrow> iNumberActive (release_body rwl) = iNumberActive rwl + 1 \<and>
      hOwningThreadId (release_body rwl) = hOwningThreadId rwl"
    and "iNumberActive rwl = - 1 \<Longrightarrow> 0 \<le> iNumberActive (release_body rwl)"
    and "iNumberActive rwl = 0 \<Longrightarrow> iNumberActive (release_body rwl) = 0"
  using clong_steps [OF assms] by (auto simp: release_body_def wake_exclusive_def Let_def)

text \<open>What the mover itself knows after its step.\<close>

lemma rw_run_own:
  assumes run: "rw_run t x rwl = Some (x', rwl')" and loc: "rw_local t x rwl" and range: "rw_in_range rwl"
    and counts: "rw_counts rwl C W E S R" and ok: "rw_sums_ok x x' C W E S R"
    and sec: "rtlCS rwl = None \<or> (\<exists>u. rtlCS rwl = Some (u, 1))"
  shows "rw_local t x' rwl' \<and> (rtlCS rwl' = None \<or> (\<exists>u. rtlCS rwl' = Some (u, 1)))"
proof (cases x)
  case (fields a n m)
  obtain e h where eh: "hExclusiveReleaseSemaphore rwl = Some e" "hSharedReleaseSemaphore rwl = Some h"
    using counts by (rule rw_countsE)
  have enter: "m' = Some (t, 1)" if "mutex_enter t (rtlCS rwl) = Some m'" "\<not> in_section x" for m'
    using rtl_cs.enter_Some [of "rtlCS rwl" t m'] that sec loc by (auto simp: rw_local_def)
  have leave: "m' = None" if "mutex_leave t (rtlCS rwl) = Some m'" for m'
    using rtl_cs.leave_Some [of "rtlCS rwl" t m'] that sec by auto
  show ?thesis
  proof (cases a)
    case (ExclBody f)
    then show ?thesis
      using run loc clong_steps [OF range] range unfolding fields rw_in_range_def
      by (auto simp: rw_run_simps exclusive_body_def rw_local_def split: if_splits)
  next
    case (SharBody f w)
    then show ?thesis
      using run loc clong_steps [OF range] range unfolding fields rw_in_range_def
      by (auto simp: rw_run_simps shared_body_def rw_local_def split: if_splits)
  next
    case RelBody
    have "n = 0 \<and> m = 0" if "iNumberActive rwl = - 1"
    proof -
      have "C = 1" using rw_countsD(4) [OF counts eh] that by simp
      then show ?thesis using ok by (simp add: rw_sums_ok_def fields RelBody)
    qed
    then have "rw_local t x' (release_body rwl)" if "x' = \<lparr>rw_at = RelDone, rw_excl = n, rw_shar = m\<rparr>"
      using loc release_body_active [OF range] that unfolding fields RelBody rw_local_def
      by (cases "iNumberActive rwl" "- 1 :: int" rule: linorder_cases; cases "iNumberActive rwl = 0") auto
    then show ?thesis
      using run sec release_body_active(1) [OF range] unfolding fields RelBody by (auto simp: rw_run_simps)
  next
    case ExclWait
    then show ?thesis using run loc sec unfolding fields
      by (auto simp: rw_run_simps rw_local_def WaitForSingleObject_def eh split: nat.splits)
  next
    case SharWait
    then show ?thesis using run loc sec unfolding fields
      by (auto simp: rw_run_simps rw_local_def WaitForSingleObject_def eh split: nat.splits)
  qed (use run loc enter leave in \<open>auto simp: fields rw_run_simps rw_local_def split: option.splits\<close>)
qed

end
