(* ===== verification/RwLockProps.thy ===== *)
theory RwLockProps
  imports RwLockInv
begin

text \<open>
  Reachable states of the reader-writer lock, and what holds in them: readers and writers exclude
  each other, no thread waits for ever on a lock that nobody holds, and a released lock is free.
\<close>

section \<open>Reachable states\<close>

definition rw_sum :: "(rw_thread \<Rightarrow> int) \<Rightarrow> nat set \<Rightarrow> rw_sys \<Rightarrow> int" where
  "rw_sum f T s = (\<Sum>u\<in>T. f (rw_threads s u))"

text \<open>The counters stay exact while the holds and the waiting readers add up to less than \<open>2 ^ 31 - 1\<close>.\<close>

definition rw_total :: "nat set \<Rightarrow> rw_sys \<Rightarrow> int" where
  "rw_total T s = rw_sum rw_count T s + rw_sum rw_woken T s + rw_sum shar_waits T s"

inductive rw_reachable :: "nat set \<Rightarrow> rwlock \<Rightarrow> rw_sys \<Rightarrow> bool" for T :: "nat set" and rwl :: rwlock where
  rw_init: "rw_reachable T rwl (rw_start rwl)"
| rw_next: "rw_reachable T rwl s \<Longrightarrow> rw_step T s s' \<Longrightarrow> rw_total T s' < 2 ^ 31 - 1 \<Longrightarrow> rw_reachable T rwl s'"

definition rw_inv :: "nat set \<Rightarrow> rw_sys \<Rightarrow> bool" where
  "rw_inv T s \<longleftrightarrow> (\<forall>t\<in>T. rw_local t (rw_threads s t) (rw_lock s)) \<and>
     (rtlCS (rw_lock s) = None \<or> (\<exists>u\<in>T. rtlCS (rw_lock s) = Some (u, 1))) \<and>
     rw_counts (rw_lock s) (rw_sum rw_count T s) (rw_sum rw_woken T s) (rw_sum excl_waits T s)
       (rw_sum shar_waits T s) (rw_sum excl_tries T s) \<and>
     rw_total T s < 2 ^ 31 - 1 \<and>
     (0 \<le> iNumberActive (rw_lock s) \<longrightarrow> hOwningThreadId (rw_lock s) = 0) \<and> dwTimeoutBoost (rw_lock s) = 0"

text \<open>The threads of \<open>T\<close>: not more than a semaphore can count; a thread id is not 0.\<close>

definition thread_set :: "nat set \<Rightarrow> bool" where
  "thread_set T \<longleftrightarrow> finite T \<and> card T \<le> 65535 \<and> 0 \<notin> T"

lemma rw_sum_move:
  assumes "finite T" and "t \<in> T"
  shows "rw_sum f T (rw_move s t x rwl) = rw_sum f T s - f (rw_threads s t) + f x"
  using sum_thread_upd [OF assms, of "\<lambda>_. f" "rw_threads s" x] by (simp add: rw_sum_def rw_move_def)

lemma rw_sum_member:
  assumes "finite T" and "t \<in> T" and "\<And>x. 0 \<le> f x"
  shows "f (rw_threads s t) \<le> rw_sum f T s"
  unfolding rw_sum_def using assms by (intro member_le_sum) auto

lemma rw_sum_nonneg: "(\<And>x. 0 \<le> f x) \<Longrightarrow> 0 \<le> rw_sum f T s"
  by (simp add: rw_sum_def sum_nonneg)

lemma rw_sum_le_card:
  assumes "\<And>x. f x \<le> 1"
  shows "rw_sum f T s \<le> int (card T)"
  unfolding rw_sum_def using sum_bounded_above [of T "\<lambda>u. f (rw_threads s u)" 1] assms by simp

lemma rw_sums_ok_move:
  assumes T: "thread_set T" and t: "t \<in> T" and inv: "rw_inv T s"
  shows "rw_sums_ok (rw_threads s t) x (rw_sum rw_count T s) (rw_sum rw_woken T s) (rw_sum excl_waits T s)
       (rw_sum shar_waits T s) (rw_sum excl_tries T s)"
proof -
  have fin: "finite T" "int (card T) \<le> 65535" using T by (auto simp: thread_set_def)
  have "rw_sum excl_waits T (rw_move s t x (rw_lock s)) \<le> 65535" "rw_sum shar_waits T (rw_move s t x (rw_lock s)) \<le> 65535"
    using fin(2) rw_sum_le_card [of excl_waits T] rw_sum_le_card [of shar_waits T] rw_parts_nonneg(6,7)
    by (meson order_trans)+
  then show ?thesis
    using inv rw_sum_member [OF fin(1) t] rw_parts_nonneg(1-5)
    by (simp add: rw_sums_ok_def rw_sum_move [OF fin(1) t] rw_inv_def rw_total_def)
qed

lemma rw_inv_range:
  assumes T: "thread_set T" and inv: "rw_inv T s"
  shows "rw_in_range (rw_lock s)"
proof -
  have "rw_sum shar_waits T s \<le> 65535"
    using T rw_sum_le_card [of shar_waits T s] rw_parts_nonneg(7) by (force simp: thread_set_def)
  then show ?thesis
    using inv rw_sum_nonneg rw_parts_nonneg(1,2)
    by (intro rw_counts_in_range [of _ "rw_sum rw_count T s" "rw_sum rw_woken T s" "rw_sum excl_waits T s" "rw_sum shar_waits T s"])
      (auto simp: rw_inv_def rw_total_def)
qed

lemma rw_idle_counts:
  assumes "rw_inv T s" and "finite T" and "u \<in> T" and "iNumberActive (rw_lock s) = 0"
  shows "rw_count (rw_threads s u) = 0"
proof -
  note c = assms(1) [unfolded rw_inv_def, THEN conjunct2, THEN conjunct2, THEN conjunct1]
  obtain e h where eh: "hExclusiveReleaseSemaphore (rw_lock s) = Some e" "hSharedReleaseSemaphore (rw_lock s) = Some h"
    using c by (rule rw_countsE)
  have "rw_sum rw_count T s + rw_sum rw_woken T s + int h = 0" using rw_countsD(3) [OF c eh] assms(4) by simp
  moreover have "0 \<le> rw_sum rw_woken T s" using rw_sum_nonneg rw_parts_nonneg(2) by blast
  ultimately have "rw_sum rw_count T s \<le> 0" by linarith
  then show ?thesis
    using rw_sum_member [OF assms(2,3), of rw_count s] rw_parts_nonneg(1) by (metis order_antisym order_trans)
qed

lemma rw_run_owner:
  assumes run: "rw_run t x rwl = Some (x', rwl')" and range: "rw_in_range rwl"
    and free: "0 \<le> iNumberActive rwl \<longrightarrow> hOwningThreadId rwl = 0" "dwTimeoutBoost rwl = 0"
  shows "(0 \<le> iNumberActive rwl' \<longrightarrow> hOwningThreadId rwl' = 0) \<and> dwTimeoutBoost rwl' = 0"
proof (cases x)
  case (fields a n m)
  show ?thesis
    using run free clong_steps [OF range] range unfolding fields rw_in_range_def
    by (cases a) (auto simp: rw_run_simps exclusive_body_def shared_body_def release_body_def wake_exclusive_def
        split: option.splits if_splits)
qed

lemma rw_run_inv:
  assumes T: "thread_set T" and inv: "rw_inv T s" and t: "t \<in> T"
    and run: "rw_run t (rw_threads s t) (rw_lock s) = Some (x, rwl)"
    and bound: "rw_total T (rw_move s t x rwl) < 2 ^ 31 - 1"
  shows "rw_inv T (rw_move s t x rwl)"
proof -
  have fin: "finite T" using T by (simp add: thread_set_def)
  note i = inv [unfolded rw_inv_def]
  have loc: "rw_local t (rw_threads s t) (rw_lock s)" using i t by blast
  have sec: "rtlCS (rw_lock s) = None \<or> (\<exists>u. rtlCS (rw_lock s) = Some (u, 1))" using i by blast
  note ok = rw_sums_ok_move [OF T t inv, of x] and range = rw_inv_range [OF T inv]
  note counts = i [THEN conjunct2, THEN conjunct2, THEN conjunct1]
  have own: "rw_local t x rwl" "rtlCS rwl = None \<or> (\<exists>u. rtlCS rwl = Some (u, 1))"
    using rw_run_own [OF run loc range counts ok sec] by blast+
  have frame: "rw_frame t (rw_lock s) rwl" by (rule rw_run_frame [OF run loc range sec])
  have "rw_local u (((rw_threads s)(t := x)) u) rwl" if "u \<in> T" for u
  proof (cases "u = t")
    case False
    then show ?thesis
      using rw_local_other [OF _ False frame] i that rw_idle_counts [OF inv fin that] by simp
  qed (use own in simp)
  moreover have "rtlCS rwl = None \<or> (\<exists>u\<in>T. rtlCS rwl = Some (u, 1))"
    using frame i t by (auto simp: rw_frame_def)
  moreover have "rw_counts_move (rw_threads s t) x rwl (rw_sum rw_count T s) (rw_sum rw_woken T s)
      (rw_sum excl_waits T s) (rw_sum shar_waits T s) (rw_sum excl_tries T s)"
    by (rule rw_run_counts [OF run counts ok loc])
  moreover have "(0 \<le> iNumberActive rwl \<longrightarrow> hOwningThreadId rwl = 0) \<and> dwTimeoutBoost rwl = 0"
    using i by (intro rw_run_owner [OF run range]) auto
  ultimately show ?thesis
    using bound by (simp add: rw_inv_def rw_counts_move_def rw_sum_move [OF fin t]) (simp add: rw_move_def)
qed

text \<open>A call or a return of the client changes the thread only.\<close>

lemma rw_call_inv:
  assumes T: "thread_set T" and inv: "rw_inv T s" and t: "t \<in> T"
    and at: "rw_threads s t = \<lparr>rw_at = RwIdle, rw_excl = n, rw_shar = m\<rparr>"
    and x: "\<not> in_section x" "rw_writes x \<le> int n" "rw_count x = int n + int m" "rw_woken x = 0"
      "excl_waits x = 0" "shar_waits x = 0"
  shows "rw_inv T (rw_move s t x (rw_lock s))"
proof -
  have fin: "finite T" using T by (simp add: thread_set_def)
  note i = inv [unfolded rw_inv_def]
  have "rw_local t \<lparr>rw_at = RwIdle, rw_excl = n, rw_shar = m\<rparr> (rw_lock s)" using i t at by metis
  then have "rw_local t x (rw_lock s)"
    using x rw_parts_nonneg(8) [of x] by (auto simp: rw_local_def)
  moreover have "rw_counts (rw_lock s) (rw_sum rw_count T s) (rw_sum rw_woken T s) (rw_sum excl_waits T s)
       (rw_sum shar_waits T s) (rw_sum excl_tries T s + excl_tries x)"
    using i rw_parts_nonneg(5) [of x] by (auto simp: rw_counts_def)
  ultimately show ?thesis
    using i x at unfolding rw_inv_def rw_total_def
    by (simp add: rw_sum_move [OF fin t]) (simp add: rw_move_def)
qed

lemma rw_step_inv:
  assumes "rw_step T s s'" and T: "thread_set T" and inv: "rw_inv T s" and bound: "rw_total T s' < 2 ^ 31 - 1"
  shows "rw_inv T s'"
  using assms(1)
proof (cases rule: rw_step.cases)
  case (run t x rwl)
  then show ?thesis using rw_run_inv [OF T inv] bound by blast
next
  case (call_exclusive t n m f)
  then show ?thesis using rw_call_inv [OF T inv call_exclusive(2,3)] by simp
next
  case (call_shared t n m f)
  then show ?thesis using rw_call_inv [OF T inv call_shared(2,3)] by simp
next
  case (call_release_exclusive t n m)
  then show ?thesis using rw_call_inv [OF T inv call_release_exclusive(2,3)] by simp
next
  case (call_release_shared t n m)
  then show ?thesis using rw_call_inv [OF T inv call_release_shared(2,3)] by simp
qed

lemma rw_start_inv: "thread_set T \<Longrightarrow> rw_inv T (rw_start (RtlInitializeResource True True))"
  by (simp add: rw_inv_def rw_start_def RtlInitializeResource_def rw_counts_def rw_sum_def rw_local_def rw_total_def)

lemma rw_reachable_inv:
  "rw_reachable T (RtlInitializeResource True True) s \<Longrightarrow> thread_set T \<Longrightarrow> rw_inv T s"
proof (induction rule: rw_reachable.induct)
  case rw_init
  then show ?case by (rule rw_start_inv)
next
  case (rw_next s s')
  then show ?case by (blast intro: rw_step_inv)
qed

section \<open>Consequences\<close>

lemma rw_count_held: "int (rw_excl x) + int (rw_shar x) \<le> rw_count x"
  by (cases x) (simp split: rw_pc.splits)

lemma rw_inv_exclusion:
  assumes inv: "rw_inv T s" and t: "t \<in> T" and u: "u \<in> T" "u \<noteq> t" and held: "0 < rw_excl (rw_threads s t)"
  shows "rw_excl (rw_threads s u) = 0 \<and> rw_shar (rw_threads s u) = 0"
proof -
  have loc: "rw_local t (rw_threads s t) (rw_lock s)" "rw_local u (rw_threads s u) (rw_lock s)"
    using inv t u by (auto simp: rw_inv_def)
  have "0 < rw_writes (rw_threads s t)" using held by (cases "rw_threads s t") (simp split: rw_pc.splits)
  then have "iNumberActive (rw_lock s) < 0" "rw_count (rw_threads s t) \<noteq> 0"
    using loc(1) rw_parts_nonneg(9) [of "rw_threads s t"] by (auto simp: rw_local_def)
  then have "rw_count (rw_threads s u) = 0" using loc u by (auto simp: rw_local_def)
  then show ?thesis using rw_count_held [of "rw_threads s u"] by simp
qed

text \<open>Where a thread can be stuck.\<close>

lemma rw_run_stuck:
  assumes "rw_run t x rwl = None" and "rw_at x \<noteq> RwIdle" and "rtlCS rwl = None" and "\<not> in_section x"
    and eh: "hExclusiveReleaseSemaphore rwl = Some e" "hSharedReleaseSemaphore rwl = Some h"
  shows "rw_at x = ExclWait \<and> e = 0 \<or> rw_at x = SharWait \<and> h = 0"
proof (cases x)
  case (fields a n m)
  show ?thesis
    using assms unfolding fields
    by (cases a) (auto simp: rw_run_simps WaitForSingleObject_def split: nat.splits)
qed

lemma rw_run_section:
  assumes "in_section x" and "rtlCS rwl = Some (t, 1)"
  shows "rw_run t x rwl \<noteq> None"
proof (cases x)
  case (fields a n m)
  show ?thesis
    using assms unfolding fields by (cases a) (auto simp: rw_run_simps split: prod.splits)
qed

lemma rw_inv_progress:
  assumes inv: "rw_inv T s" and T: "thread_set T" and t: "t \<in> T" "rw_at (rw_threads s t) \<noteq> RwIdle"
    and free: "\<And>u. u \<in> T \<Longrightarrow> rw_excl (rw_threads s u) = 0 \<and> rw_shar (rw_threads s u) = 0"
  shows "\<exists>u\<in>T. rw_at (rw_threads s u) \<noteq> RwIdle \<and> rw_run u (rw_threads s u) (rw_lock s) \<noteq> None"
proof (rule ccontr)
  assume no: "\<not> ?thesis"
  note i = inv [unfolded rw_inv_def]
  note c = i [THEN conjunct2, THEN conjunct2, THEN conjunct1]
  have fin: "finite T" using T by (simp add: thread_set_def)
  obtain e h where eh: "hExclusiveReleaseSemaphore (rw_lock s) = Some e" "hSharedReleaseSemaphore (rw_lock s) = Some h"
    using c by (rule rw_countsE)
  note d = rw_countsD [OF c eh]
  have section_None: "rtlCS (rw_lock s) = None"
  proof (rule ccontr)
    assume "rtlCS (rw_lock s) \<noteq> None"
    then obtain v where v: "v \<in> T" "rtlCS (rw_lock s) = Some (v, 1)"
      using i [THEN conjunct2, THEN conjunct1] by auto
    then have "in_section (rw_threads s v)" using i by (simp add: rw_local_def)
    moreover from this have "rw_at (rw_threads s v) \<noteq> RwIdle" by (cases "rw_threads s v") auto
    ultimately show False using no v rw_run_section by blast
  qed
  have at: "rw_at (rw_threads s u) = RwIdle \<or> rw_at (rw_threads s u) = ExclWait \<and> e = 0 \<or> rw_at (rw_threads s u) = SharWait \<and> h = 0"
    if "u \<in> T" for u
  proof -
    have "\<not> in_section (rw_threads s u)" using i that section_None by (simp add: rw_local_def)
    then show ?thesis using no that rw_run_stuck [OF _ _ section_None _ eh] by metis
  qed
  have "rw_count (rw_threads s u) = 0" "rw_woken (rw_threads s u) = 0" "excl_tries (rw_threads s u) = 0" if "u \<in> T" for u
    using at [OF that] free [OF that] by (cases "rw_threads s u"; auto)+
  then have zero: "rw_sum rw_count T s = 0" "rw_sum rw_woken T s = 0" "rw_sum excl_tries T s = 0"
    by (simp_all add: rw_sum_def)
  have "h = 0"
  proof (cases "\<exists>u\<in>T. rw_at (rw_threads s u) = SharWait")
    case False
    then have "shar_waits (rw_threads s u) = 0" if "u \<in> T" for u
      using at [OF that] that by (cases "rw_threads s u") auto
    then have "rw_sum shar_waits T s = 0" by (simp add: rw_sum_def)
    then show ?thesis using d(2) uint_ge_0 [of "uSharedWaiters (rw_lock s)"] by linarith
  qed (use at in force)
  then have n: "iNumberActive (rw_lock s) = 0" using d(3,4) zero by (cases "0 \<le> iNumberActive (rw_lock s)") auto
  show False
  proof (cases "\<exists>u\<in>T. rw_at (rw_threads s u) = ExclWait")
    case True
    then obtain u where u: "u \<in> T" "rw_at (rw_threads s u) = ExclWait" by blast
    then have "e = 0" using at [OF u(1)] by simp
    have "excl_waits (rw_threads s u) = 1" using u(2) by (cases "rw_threads s u") simp
    then have "1 \<le> rw_sum excl_waits T s" using rw_sum_member [OF fin u(1), of excl_waits s] rw_parts_nonneg(3) by simp
    then show False using d(1,5) n zero \<open>e = 0\<close> by simp
  next
    case False
    then have "excl_waits (rw_threads s u) = 0" if "u \<in> T" for u
      using at [OF that] that by (cases "rw_threads s u") auto
    then have "rw_sum excl_waits T s = 0" by (simp add: rw_sum_def)
    then have e: "e = 0" "uint (uExclusiveWaiters (rw_lock s)) = 0"
      using d(1) uint_ge_0 [of "uExclusiveWaiters (rw_lock s)"] by linarith+
    have "rw_at (rw_threads s t) = SharWait" using at [OF t(1)] t(2) False t(1) by auto
    then have "shar_waits (rw_threads s t) = 1" by (cases "rw_threads s t") simp
    then have "1 \<le> rw_sum shar_waits T s" using rw_sum_member [OF fin t(1), of shar_waits s] rw_parts_nonneg(4) by simp
    then show False using d(2,6) n zero e \<open>h = 0\<close> by simp
  qed
qed

text \<open>Nobody inside and nobody holding: the lock is as after its initialisation.\<close>

lemma rw_inv_released:
  assumes inv: "rw_inv T s"
    and idle: "\<And>u. u \<in> T \<Longrightarrow> rw_threads s u = \<lparr>rw_at = RwIdle, rw_excl = 0, rw_shar = 0\<rparr>"
  shows "rw_lock s = RtlInitializeResource True True"
proof -
  note i = inv [unfolded rw_inv_def]
  note c = i [THEN conjunct2, THEN conjunct2, THEN conjunct1]
  obtain e h where eh: "hExclusiveReleaseSemaphore (rw_lock s) = Some e" "hSharedReleaseSemaphore (rw_lock s) = Some h"
    using c by (rule rw_countsE)
  note d = rw_countsD [OF c eh]
  have zero: "rw_sum rw_count T s = 0" "rw_sum rw_woken T s = 0" "rw_sum excl_waits T s = 0" "rw_sum shar_waits T s = 0"
    using idle by (simp_all add: rw_sum_def)
  have w: "uint (uExclusiveWaiters (rw_lock s)) = 0" "uint (uSharedWaiters (rw_lock s)) = 0" "e = 0" "h = 0"
    using d(1,2) zero uint_ge_0 [of "uExclusiveWaiters (rw_lock s)"] uint_ge_0 [of "uSharedWaiters (rw_lock s)"]
    by linarith+
  have n: "iNumberActive (rw_lock s) = 0" using d(3,4) zero w by (cases "0 \<le> iNumberActive (rw_lock s)") auto
  have "rtlCS (rw_lock s) \<noteq> Some (u, 1)" if "u \<in> T" for u
    using i that idle [OF that] by (auto simp: rw_local_def)
  then have "rtlCS (rw_lock s) = None" using i [THEN conjunct2, THEN conjunct1] by auto
  then show ?thesis
    using i n w eh by (simp add: RtlInitializeResource_def uint_0_iff)
qed

end
