(* ===== verification/LockProps.thy ===== *)
theory LockProps
  imports RwLockProps
begin

text \<open>
  The properties of the two locks, with schedules that run concrete threads into the situations
  the theorems speak about.
\<close>

section \<open>Schedules\<close>

text \<open>A schedule names the thread that moves next and, between its calls, the call it makes.\<close>

datatype cs_event = Enter nat | TryEnter nat | Leave nat | Run nat

fun cs_do :: "cs_sys \<Rightarrow> cs_event \<Rightarrow> (nat \<times> cs_thread \<times> critsec) option" where
  "cs_do s (Enter t) = (if cs_at (cs_threads s t) = CsIdle
     then Some (t, (cs_threads s t)\<lparr>cs_at := EnterInc\<rparr>, cs_crit s) else None)"
| "cs_do s (TryEnter t) = (if cs_at (cs_threads s t) = CsIdle
     then Some (t, (cs_threads s t)\<lparr>cs_at := TryCas\<rparr>, cs_crit s) else None)"
| "cs_do s (Leave t) = (if cs_at (cs_threads s t) = CsIdle \<and> cs_held (cs_threads s t) \<noteq> 0
     then Some (t, \<lparr>cs_at = LeaveCount, cs_held = cs_held (cs_threads s t) - 1\<rparr>, cs_crit s) else None)"
| "cs_do s (Run t) = map_option (\<lambda>(x, crit). (t, x, crit)) (cs_run t (cs_threads s t) (cs_crit s))"

fun cs_play :: "nat list \<Rightarrow> cs_sys \<Rightarrow> cs_event list \<Rightarrow> cs_sys option" where
  "cs_play ts s [] = Some s"
| "cs_play ts s (e # es) = (case cs_do s e of None \<Rightarrow> None
     | Some (t, x, crit) \<Rightarrow> (let s' = cs_move s t x crit
         in if t \<in> set ts \<and> sum_list (map (\<lambda>u. cs_added (cs_threads s' u)) ts) < 2 ^ 31 then cs_play ts s' es else None))"

lemma cs_do_step: "cs_do s e = Some (t, x, crit) \<Longrightarrow> t \<in> T \<Longrightarrow> cs_step T s (cs_move s t x crit)"
  by (cases e; cases "cs_threads s t") (auto split: if_splits intro: cs_step.intros dest: gr0_implies_Suc)

lemma cs_play_reachable:
  "cs_play ts s es = Some s' \<Longrightarrow> cs_reachable (set ts) s \<Longrightarrow> distinct ts \<Longrightarrow> cs_reachable (set ts) s'"
proof (induction es arbitrary: s)
  case (Cons e es)
  then obtain t x crit where e: "cs_do s e = Some (t, x, crit)" "t \<in> set ts"
    and b: "sum_list (map (\<lambda>u. cs_added (cs_threads (cs_move s t x crit) u)) ts) < 2 ^ 31"
    and rest: "cs_play ts (cs_move s t x crit) es = Some s'"
    by (auto simp: Let_def split: option.splits if_splits)
  have "cs_total (set ts) (cs_move s t x crit) < 2 ^ 31"
    using b Cons.prems(3) by (simp add: cs_total_def sum_list_distinct_conv_sum_set)
  then have "cs_reachable (set ts) (cs_move s t x crit)"
    using cs_reachable.cs_next [OF Cons.prems(2) cs_do_step [OF e]] by blast
  then show ?case using Cons.IH [OF rest] Cons.prems(3) by blast
qed simp

datatype rw_event = AcquireExclusive nat bool | AcquireShared nat bool | ReleaseExclusive nat | ReleaseShared nat | Go nat

fun rw_do :: "rw_sys \<Rightarrow> rw_event \<Rightarrow> (nat \<times> rw_thread \<times> rwlock) option" where
  "rw_do s (AcquireExclusive t f) = (if rw_at (rw_threads s t) = RwIdle
     then Some (t, (rw_threads s t)\<lparr>rw_at := ExclEnter f\<rparr>, rw_lock s) else None)"
| "rw_do s (AcquireShared t f) = (if rw_at (rw_threads s t) = RwIdle
     then Some (t, (rw_threads s t)\<lparr>rw_at := SharEnter f WAIT_FAILED\<rparr>, rw_lock s) else None)"
| "rw_do s (ReleaseExclusive t) = (let x = rw_threads s t in if rw_at x = RwIdle \<and> rw_excl x \<noteq> 0
     then Some (t, \<lparr>rw_at = RelEnter, rw_excl = rw_excl x - 1, rw_shar = rw_shar x\<rparr>, rw_lock s) else None)"
| "rw_do s (ReleaseShared t) = (let x = rw_threads s t in if rw_at x = RwIdle \<and> rw_shar x \<noteq> 0
     then Some (t, \<lparr>rw_at = RelEnter, rw_excl = rw_excl x, rw_shar = rw_shar x - 1\<rparr>, rw_lock s) else None)"
| "rw_do s (Go t) = map_option (\<lambda>(x, rwl). (t, x, rwl)) (rw_run t (rw_threads s t) (rw_lock s))"

fun rw_play :: "nat list \<Rightarrow> rw_sys \<Rightarrow> rw_event list \<Rightarrow> rw_sys option" where
  "rw_play ts s [] = Some s"
| "rw_play ts s (e # es) = (case rw_do s e of None \<Rightarrow> None
     | Some (t, x, rwl) \<Rightarrow> (let s' = rw_move s t x rwl in
         if t \<in> set ts \<and> sum_list (map (\<lambda>u. rw_count (rw_threads s' u) + rw_woken (rw_threads s' u)
              + shar_waits (rw_threads s' u)) ts) < 2 ^ 31 - 1
         then rw_play ts s' es else None))"

lemma rw_do_step: "rw_do s e = Some (t, x, rwl) \<Longrightarrow> t \<in> T \<Longrightarrow> rw_step T s (rw_move s t x rwl)"
  by (cases e; cases "rw_threads s t") (auto simp: Let_def split: if_splits intro: rw_step.intros dest: gr0_implies_Suc)

lemma rw_play_reachable:
  "rw_play ts s es = Some s' \<Longrightarrow> rw_reachable (set ts) l s \<Longrightarrow> distinct ts \<Longrightarrow> rw_reachable (set ts) l s'"
proof (induction es arbitrary: s)
  case (Cons e es)
  then obtain t x rwl where e: "rw_do s e = Some (t, x, rwl)" "t \<in> set ts"
    and b: "sum_list (map (\<lambda>u. rw_count (rw_threads (rw_move s t x rwl) u) + rw_woken (rw_threads (rw_move s t x rwl) u)
              + shar_waits (rw_threads (rw_move s t x rwl) u)) ts) < 2 ^ 31 - 1"
    and rest: "rw_play ts (rw_move s t x rwl) es = Some s'"
    by (auto simp: Let_def split: option.splits if_splits)
  have "rw_total (set ts) (rw_move s t x rwl) < 2 ^ 31 - 1"
    using b Cons.prems(3) by (simp add: rw_total_def rw_sum_def sum_list_distinct_conv_sum_set sum.distrib)
  then have "rw_reachable (set ts) l (rw_move s t x rwl)"
    using rw_reachable.rw_next [OF Cons.prems(2) rw_do_step [OF e]] by blast
  then show ?case using Cons.IH [OF rest] Cons.prems(3) by blast
qed simp

text \<open>The state a schedule of two threads leads to; an impossible schedule leads nowhere.\<close>

definition cs_run_of :: "cs_event list \<Rightarrow> cs_sys" where
  "cs_run_of es = (case cs_play [1, 2] cs_start es of None \<Rightarrow> cs_start | Some s \<Rightarrow> s)"

definition rw_run_of :: "bool \<Rightarrow> rw_event list \<Rightarrow> rw_sys" where
  "rw_run_of ok es = (let s = rw_start (RtlInitializeResource ok True)
     in case rw_play [1, 2] s es of None \<Rightarrow> s | Some s' \<Rightarrow> s')"

lemma cs_run_of_reachable: "cs_reachable {1, 2} (cs_run_of es)"
  using cs_play_reachable [of "[1, 2]" cs_start es] cs_reachable.cs_init [of "{1, 2}"]
  by (auto simp: cs_run_of_def split: option.splits)

lemma rw_run_of_reachable: "rw_reachable {1, 2} (RtlInitializeResource ok True) (rw_run_of ok es)"
  using rw_play_reachable [of "[1, 2]" "rw_start (RtlInitializeResource ok True)" es] rw_reachable.rw_init [of "{1, 2}"]
  by (auto simp: rw_run_of_def Let_def split: option.splits)

lemma cs_play_snoc:
  "cs_play ts s (es @ [e]) = Some s'' \<Longrightarrow> \<exists>s'. cs_play ts s es = Some s' \<and> cs_step (set ts) s' s''"
proof (induction es arbitrary: s)
  case Nil
  then show ?case by (auto simp: Let_def split: option.splits if_splits intro: cs_do_step)
next
  case (Cons d es)
  then show ?case by (auto simp: Let_def split: option.splits if_splits)
qed

lemma cs_run_of_step:
  assumes "cs_play [1, 2] cs_start (es @ [e]) \<noteq> None"
  shows "cs_step {1, 2} (cs_run_of es) (cs_run_of (es @ [e]))"
  using assms cs_play_snoc [of "[1, 2]" cs_start es e] by (auto simp: cs_run_of_def)

section \<open>Critical sections\<close>

text \<open>C13. Critical sections of \<open>critsection.cpp\<close> exclude each other, for any interleaving of the single accesses
  of any number of threads that enter, try and leave: the machine refines a mutex. Seen through the
  entries that each thread has made and not begun to leave, every step is no step, one entry of a thread
  into a section that is free or its own, or one exit of the thread inside. In particular only one
  thread has entries at a time. The counters are 32 bits wide; the states are those reached while the
  entries add up to less than \<open>2 ^ 31\<close>.\<close>
theorem cs_refines_mutex:
  assumes "cs_reachable T s" and "cs_step T s s'" and "cs_total T s' < 2 ^ 31" and "finite T" and "0 \<notin> T"
  shows "mutex_step T (cs_mutex s) (cs_mutex s') \<and>
    (\<forall>t\<in>T. 0 < cs_held (cs_threads s t) \<longrightarrow> cs_mutex s = Some (t, cs_held (cs_threads s t)))"
proof -
  have "cs_reachable T s'" by (rule cs_reachable.cs_next [OF assms(1-3)])
  then have inv: "cs_inv T s" "cs_inv T s'" using assms cs_reachable_inv by blast+
  show ?thesis
    using cs_step_mutex [OF assms(2) inv assms(5)] cs_mutex_held [OF inv(1) assms(5)] by blast
qed

theorem cs_refines_mutex_witness:
  "let es = [Enter 1, Run 1, Enter 2, Run 2, Run 2, Run 1]
   in mutex_step {1, 2} (cs_mutex (cs_run_of es)) (cs_mutex (cs_run_of (es @ [Run 1]))) \<and>
      cs_mutex (cs_run_of es) = None \<and> cs_mutex (cs_run_of (es @ [Run 1])) = Some (1, 1)"
proof -
  let ?es = "[Enter 1, Run 1, Enter 2, Run 2, Run 2, Run 1]"
  have r: "cs_reachable {1, 2} (cs_run_of ?es)" "cs_reachable {1, 2} (cs_run_of (?es @ [Run 1]))"
    by (rule cs_run_of_reachable)+
  have "cs_step {1, 2} (cs_run_of ?es) (cs_run_of (?es @ [Run 1]))" by (rule cs_run_of_step; code_simp)
  moreover have "cs_total {1, 2} (cs_run_of (?es @ [Run 1])) < 2 ^ 31" using cs_reachable_inv [OF r(2)] by simp
  ultimately have "mutex_step {1, 2} (cs_mutex (cs_run_of ?es)) (cs_mutex (cs_run_of (?es @ [Run 1])))"
    using cs_refines_mutex [OF r(1)] by simp
  moreover have "cs_mutex (cs_run_of ?es) = None" "cs_mutex (cs_run_of (?es @ [Run 1])) = Some (1, 1)" by code_simp+
  ultimately show ?thesis unfolding Let_def by blast
qed



section \<open>The reader-writer lock\<close>

text \<open>C10. The resource lock excludes: in any interleaving, while a thread has a successful exclusive acquisition
  that it has not released, no other thread has any acquisition, exclusive or shared. Threads acquire recursively,
  wait or do not wait, and release in any order.\<close>
theorem rw_writer_excludes:
  assumes "rw_reachable T (RtlInitializeResource True True) s" and "thread_set T"
    and "t \<in> T" and "u \<in> T" and "u \<noteq> t" and "0 < rw_excl (rw_threads s t)"
  shows "rw_excl (rw_threads s u) = 0 \<and> rw_shar (rw_threads s u) = 0"
proof -
  have "rw_inv T s" by (rule rw_reachable_inv [OF assms(1,2)])
  then show ?thesis using assms(3-6) by (rule rw_inv_exclusion)
qed

theorem rw_writer_excludes_witness:
  "let s = rw_run_of True [AcquireExclusive 1 True, Go 1, Go 1, Go 1, AcquireShared 2 False, Go 2, Go 2, Go 2, AcquireShared 1 True, Go 1, Go 1, Go 1]
   in rw_excl (rw_threads s 1) = 1 \<and> rw_shar (rw_threads s 1) = 1 \<and>
      rw_excl (rw_threads s 2) = 0 \<and> rw_shar (rw_threads s 2) = 0"
proof -
  let ?s = "rw_run_of True [AcquireExclusive 1 True, Go 1, Go 1, Go 1, AcquireShared 2 False, Go 2, Go 2, Go 2,
    AcquireShared 1 True, Go 1, Go 1, Go 1]"
  have r: "rw_reachable {1, 2} (RtlInitializeResource True True) ?s" by (rule rw_run_of_reachable)
  have "let s = ?s in rw_excl (rw_threads s 1) = 1 \<and>
      rw_shar (rw_threads s 1) = 1" by code_simp
  then show ?thesis using rw_writer_excludes [OF r, of 1 2] by (simp add: thread_set_def Let_def)
qed

text \<open>C11. No wake-up of the resource lock is lost: if nobody has an acquisition and some thread is
  inside one of the functions, then some thread inside one of them can take its next step. Writers that were
  woken and find the lock taken again wait again, readers are counted by the writer that wakes them.\<close>
theorem rw_no_lost_wakeup:
  assumes "rw_reachable T (RtlInitializeResource True True) s" and "thread_set T"
    and "t \<in> T" and "rw_at (rw_threads s t) \<noteq> RwIdle"
    and "\<forall>u\<in>T. rw_excl (rw_threads s u) = 0 \<and> rw_shar (rw_threads s u) = 0"
  shows "\<exists>u\<in>T. rw_at (rw_threads s u) \<noteq> RwIdle \<and> rw_run u (rw_threads s u) (rw_lock s) \<noteq> None"
proof -
  have "rw_inv T s" by (rule rw_reachable_inv [OF assms(1,2)])
  then show ?thesis using assms by (intro rw_inv_progress) auto
qed

theorem rw_no_lost_wakeup_witness:
  "let s = rw_run_of True [AcquireExclusive 1 True, Go 1, Go 1, Go 1, AcquireShared 2 True, Go 2, Go 2, Go 2, ReleaseExclusive 1, Go 1, Go 1, Go 1]
   in iNumberActive (rw_lock s) = 1 \<and> rw_at (rw_threads s 2) = SharWait \<and>
      (\<exists>u\<in>{1, 2}. rw_at (rw_threads s u) \<noteq> RwIdle \<and> rw_run u (rw_threads s u) (rw_lock s) \<noteq> None)"
proof -
  let ?s = "rw_run_of True [AcquireExclusive 1 True, Go 1, Go 1, Go 1, AcquireShared 2 True, Go 2, Go 2, Go 2,
    ReleaseExclusive 1, Go 1, Go 1, Go 1]"
  have r: "rw_reachable {1, 2} (RtlInitializeResource True True) ?s" by (rule rw_run_of_reachable)
  have "let s = ?s in iNumberActive (rw_lock s) = 1 \<and>
      rw_at (rw_threads s 2) = SharWait \<and>
      rw_excl (rw_threads s 1) = 0 \<and>
      rw_shar (rw_threads s 1) = 0 \<and>
      rw_excl (rw_threads s 2) = 0 \<and>
      rw_shar (rw_threads s 2) = 0" by code_simp
  then show ?thesis using rw_no_lost_wakeup [OF r, of 2] by (simp add: thread_set_def Let_def)
qed

text \<open>C25. When every thread has returned and released what it acquired, the lock is exactly as
  \<open>RtlInitializeResource\<close> left it: no owner, no waiters, nothing left in the semaphores.\<close>
theorem rw_released_is_free:
  assumes "rw_reachable T (RtlInitializeResource True True) s" and "thread_set T"
    and "\<forall>u\<in>T. rw_threads s u = \<lparr>rw_at = RwIdle, rw_excl = 0, rw_shar = 0\<rparr>"
  shows "rw_lock s = RtlInitializeResource True True"
  using rw_inv_released [OF rw_reachable_inv [OF assms(1,2)]] assms(3) by blast

theorem rw_released_is_free_witness:
  "rw_lock (rw_run_of True [AcquireExclusive 1 True, Go 1, Go 1, Go 1, AcquireShared 2 True, Go 2, Go 2, Go 2,
      ReleaseExclusive 1, Go 1, Go 1, Go 1, Go 2, Go 2, Go 2, Go 2, ReleaseShared 2, Go 2, Go 2, Go 2])
    = RtlInitializeResource True True"
proof -
  let ?s = "rw_run_of True [AcquireExclusive 1 True, Go 1, Go 1, Go 1, AcquireShared 2 True, Go 2, Go 2, Go 2,
      ReleaseExclusive 1, Go 1, Go 1, Go 1, Go 2, Go 2, Go 2, Go 2, ReleaseShared 2, Go 2, Go 2, Go 2]"
  have r: "rw_reachable {1, 2} (RtlInitializeResource True True) ?s" by (rule rw_run_of_reachable)
  have "let s = ?s in rw_threads s 1 = \<lparr>rw_at = RwIdle, rw_excl = 0, rw_shar = 0\<rparr> \<and>
      rw_threads s 2 = \<lparr>rw_at = RwIdle, rw_excl = 0, rw_shar = 0\<rparr>" by code_simp
  then show ?thesis by (intro rw_released_is_free [OF r]) (simp_all add: thread_set_def Let_def)
qed

text \<open>\<open>RtlInitializeResource\<close> does not check that its semaphores could be created. Without the one for
  writers a waiting writer leaves the critical section of the lock although it is not inside, here while
  another thread is: the wait fails and \<open>goto done\<close> skips the matching entry.\<close>
theorem rw_failed_wait_leaves_section:
  "\<exists>s. rw_reachable {1, 2} (RtlInitializeResource False True) s \<and>
     rw_at (rw_threads s 2) = ExclDone False \<and> rtlCS (rw_lock s) = Some (1, 1) \<and>
     rw_run 2 (rw_threads s 2) (rw_lock s) = None"
proof -
  let ?es = "[AcquireExclusive 1 True, Go 1, Go 1, Go 1, AcquireExclusive 2 True, Go 2, Go 2, Go 2, Go 2,
    ReleaseExclusive 1, Go 1]"
  let ?s = "rw_run_of False ?es"
  have r: "rw_reachable {1, 2} (RtlInitializeResource False True) ?s" by (rule rw_run_of_reachable)
  have "let s = ?s in rw_at (rw_threads s 2) = ExclDone False \<and> rtlCS (rw_lock s) = Some (1, 1) \<and>
     rw_run 2 (rw_threads s 2) (rw_lock s) = None" by code_simp
  with r show ?thesis unfolding Let_def by blast
qed

end
