(* ===== verification/ErrorCodes.thy ===== *)
theory ErrorCodes
  imports Prelude
begin

text \<open>
  The Win32 error codes that \<open>src/src/ntdll/error.c\<close> maps to, by the names it uses, with their
  values in \<open>src/include/win/winerror.h\<close> and the headers beside it.
\<close>

abbreviation ERROR_IO_PENDING :: ulong where "ERROR_IO_PENDING \<equiv> 997"
abbreviation ERROR_MR_MID_NOT_FOUND :: ulong where "ERROR_MR_MID_NOT_FOUND \<equiv> 317"
abbreviation ERROR_MORE_DATA :: ulong where "ERROR_MORE_DATA \<equiv> 234"
abbreviation ERROR_NOT_ALL_ASSIGNED :: ulong where "ERROR_NOT_ALL_ASSIGNED \<equiv> 1300"
abbreviation ERROR_SOME_NOT_MAPPED :: ulong where "ERROR_SOME_NOT_MAPPED \<equiv> 1301"
abbreviation ERROR_NOTIFY_ENUM_DIR :: ulong where "ERROR_NOTIFY_ENUM_DIR \<equiv> 1022"
abbreviation ERROR_NO_QUOTAS_FOR_ACCOUNT :: ulong where "ERROR_NO_QUOTAS_FOR_ACCOUNT \<equiv> 1302"
abbreviation ERROR_DS_MEMBERSHIP_EVALUATED_LOCALLY :: ulong where "ERROR_DS_MEMBERSHIP_EVALUATED_LOCALLY \<equiv> 8201"
abbreviation ERROR_INVALID_PARAMETER :: ulong where "ERROR_INVALID_PARAMETER \<equiv> 87"
abbreviation ERROR_LOCAL_USER_SESSION_KEY :: ulong where "ERROR_LOCAL_USER_SESSION_KEY \<equiv> 1303"
abbreviation ERROR_MORE_WRITES :: ulong where "ERROR_MORE_WRITES \<equiv> 1120"
abbreviation ERROR_REGISTRY_RECOVERED :: ulong where "ERROR_REGISTRY_RECOVERED \<equiv> 1014"
abbreviation ERROR_COUNTER_TIMEOUT :: ulong where "ERROR_COUNTER_TIMEOUT \<equiv> 1121"
abbreviation ERROR_NULL_LM_PASSWORD :: ulong where "ERROR_NULL_LM_PASSWORD \<equiv> 1304"
abbreviation ERROR_DS_SHUTTING_DOWN :: ulong where "ERROR_DS_SHUTTING_DOWN \<equiv> 8364"
abbreviation RPC_S_UUID_LOCAL_ONLY :: ulong where "RPC_S_UUID_LOCAL_ONLY \<equiv> 1824"
abbreviation RPC_S_SEND_INCOMPLETE :: ulong where "RPC_S_SEND_INCOMPLETE \<equiv> 1913"
abbreviation STATUS_GUARD_PAGE_VIOLATION :: ulong where "STATUS_GUARD_PAGE_VIOLATION \<equiv> 0x80000001"
abbreviation ERROR_NOACCESS :: ulong where "ERROR_NOACCESS \<equiv> 998"
abbreviation STATUS_BREAKPOINT :: ulong where "STATUS_BREAKPOINT \<equiv> 0x80000003"
abbreviation STATUS_SINGLE_STEP :: ulong where "STATUS_SINGLE_STEP \<equiv> 0x80000004"
abbreviation ERROR_NO_MORE_FILES :: ulong where "ERROR_NO_MORE_FILES \<equiv> 18"
abbreviation ERROR_NO_INHERITANCE :: ulong where "ERROR_NO_INHERITANCE \<equiv> 1391"
abbreviation ERROR_PARTIAL_COPY :: ulong where "ERROR_PARTIAL_COPY \<equiv> 299"
abbreviation ERROR_OUT_OF_PAPER :: ulong where "ERROR_OUT_OF_PAPER \<equiv> 28"
abbreviation ERROR_NOT_READY :: ulong where "ERROR_NOT_READY \<equiv> 21"
abbreviation ERROR_BUSY :: ulong where "ERROR_BUSY \<equiv> 170"
abbreviation ERROR_NO_MORE_ITEMS :: ulong where "ERROR_NO_MORE_ITEMS \<equiv> 259"
abbreviation ERROR_INVALID_EA_NAME :: ulong where "ERROR_INVALID_EA_NAME \<equiv> 254"
abbreviation ERROR_EA_LIST_INCONSISTENT :: ulong where "ERROR_EA_LIST_INCONSISTENT \<equiv> 255"
abbreviation ERROR_MEDIA_CHANGED :: ulong where "ERROR_MEDIA_CHANGED \<equiv> 1110"
abbreviation ERROR_FILEMARK_DETECTED :: ulong where "ERROR_FILEMARK_DETECTED \<equiv> 1101"
abbreviation ERROR_BUS_RESET :: ulong where "ERROR_BUS_RESET \<equiv> 1111"
abbreviation ERROR_END_OF_MEDIA :: ulong where "ERROR_END_OF_MEDIA \<equiv> 1100"
abbreviation ERROR_BEGINNING_OF_MEDIA :: ulong where "ERROR_BEGINNING_OF_MEDIA \<equiv> 1102"
abbreviation ERROR_SETMARK_DETECTED :: ulong where "ERROR_SETMARK_DETECTED \<equiv> 1103"
abbreviation ERROR_NO_DATA_DETECTED :: ulong where "ERROR_NO_DATA_DETECTED \<equiv> 1104"
abbreviation ERROR_ACTIVE_CONNECTIONS :: ulong where "ERROR_ACTIVE_CONNECTIONS \<equiv> 2402"
abbreviation ERROR_CLEANER_CARTRIDGE_INSTALLED :: ulong where "ERROR_CLEANER_CARTRIDGE_INSTALLED \<equiv> 4340"
abbreviation ERROR_DEVICE_REQUIRES_CLEANING :: ulong where "ERROR_DEVICE_REQUIRES_CLEANING \<equiv> 1165"
abbreviation ERROR_DEVICE_DOOR_OPEN :: ulong where "ERROR_DEVICE_DOOR_OPEN \<equiv> 1166"
abbreviation ERROR_NO_SYSTEM_RESOURCES :: ulong where "ERROR_NO_SYSTEM_RESOURCES \<equiv> 1450"
abbreviation ERROR_INVALID_HANDLE :: ulong where "ERROR_INVALID_HANDLE \<equiv> 6"
abbreviation ERROR_INVALID_FUNCTION :: ulong where "ERROR_INVALID_FUNCTION \<equiv> 1"
abbreviation ERROR_BAD_NETPATH :: ulong where "ERROR_BAD_NETPATH \<equiv> 53"
abbreviation ERROR_INTERNAL_ERROR :: ulong where "ERROR_INTERNAL_ERROR \<equiv> 1359"
abbreviation ERROR_NO_SUCH_PACKAGE :: ulong where "ERROR_NO_SUCH_PACKAGE \<equiv> 1364"
abbreviation ERROR_NOT_OWNER :: ulong where "ERROR_NOT_OWNER \<equiv> 288"
abbreviation ERROR_NOT_SUPPORTED :: ulong where "ERROR_NOT_SUPPORTED \<equiv> 50"
abbreviation ERROR_CANNOT_IMPERSONATE :: ulong where "ERROR_CANNOT_IMPERSONATE \<equiv> 1368"
abbreviation ERROR_LOGON_FAILURE :: ulong where "ERROR_LOGON_FAILURE \<equiv> 1326"
abbreviation ERROR_NO_SUCH_LOGON_SESSION :: ulong where "ERROR_NO_SUCH_LOGON_SESSION \<equiv> 1312"
abbreviation ERROR_ACCESS_DENIED :: ulong where "ERROR_ACCESS_DENIED \<equiv> 5"
abbreviation ERROR_NO_LOGON_SERVERS :: ulong where "ERROR_NO_LOGON_SERVERS \<equiv> 1311"
abbreviation ERROR_CONTEXT_EXPIRED :: ulong where "ERROR_CONTEXT_EXPIRED \<equiv> 1931"
abbreviation ERROR_INVALID_USER_BUFFER :: ulong where "ERROR_INVALID_USER_BUFFER \<equiv> 1784"
abbreviation ERROR_INSUFFICIENT_BUFFER :: ulong where "ERROR_INSUFFICIENT_BUFFER \<equiv> 122"
abbreviation ERROR_WRONG_TARGET_NAME :: ulong where "ERROR_WRONG_TARGET_NAME \<equiv> 1396"
abbreviation ERROR_TRUST_FAILURE :: ulong where "ERROR_TRUST_FAILURE \<equiv> 1790"
abbreviation ERROR_PASSWORD_EXPIRED :: ulong where "ERROR_PASSWORD_EXPIRED \<equiv> 1330"
abbreviation ERROR_ENCRYPTION_FAILED :: ulong where "ERROR_ENCRYPTION_FAILED \<equiv> 6000"
abbreviation ERROR_DECRYPTION_FAILED :: ulong where "ERROR_DECRYPTION_FAILED \<equiv> 6001"
abbreviation ERROR_MUTUAL_AUTH_FAILED :: ulong where "ERROR_MUTUAL_AUTH_FAILED \<equiv> 1397"
abbreviation ERROR_CLUSTER_NODE_ALREADY_UP :: ulong where "ERROR_CLUSTER_NODE_ALREADY_UP \<equiv> 5061"
abbreviation ERROR_CLUSTER_NODE_ALREADY_DOWN :: ulong where "ERROR_CLUSTER_NODE_ALREADY_DOWN \<equiv> 5062"
abbreviation ERROR_CLUSTER_NETWORK_ALREADY_ONLINE :: ulong where "ERROR_CLUSTER_NETWORK_ALREADY_ONLINE \<equiv> 5063"
abbreviation ERROR_CLUSTER_NETWORK_ALREADY_OFFLINE :: ulong where "ERROR_CLUSTER_NETWORK_ALREADY_OFFLINE \<equiv> 5064"
abbreviation ERROR_CLUSTER_NODE_ALREADY_MEMBER :: ulong where "ERROR_CLUSTER_NODE_ALREADY_MEMBER \<equiv> 5065"
abbreviation ERROR_GEN_FAILURE :: ulong where "ERROR_GEN_FAILURE \<equiv> 31"
abbreviation ERROR_BAD_LENGTH :: ulong where "ERROR_BAD_LENGTH \<equiv> 24"
abbreviation ERROR_SWAPERROR :: ulong where "ERROR_SWAPERROR \<equiv> 999"
abbreviation ERROR_PAGEFILE_QUOTA :: ulong where "ERROR_PAGEFILE_QUOTA \<equiv> 1454"
abbreviation ERROR_STACK_OVERFLOW :: ulong where "ERROR_STACK_OVERFLOW \<equiv> 1001"
abbreviation ERROR_BAD_EXE_FORMAT :: ulong where "ERROR_BAD_EXE_FORMAT \<equiv> 193"
abbreviation ERROR_FILE_NOT_FOUND :: ulong where "ERROR_FILE_NOT_FOUND \<equiv> 2"
abbreviation ERROR_HANDLE_EOF :: ulong where "ERROR_HANDLE_EOF \<equiv> 38"
abbreviation ERROR_WRONG_DISK :: ulong where "ERROR_WRONG_DISK \<equiv> 34"
abbreviation ERROR_UNRECOGNIZED_MEDIA :: ulong where "ERROR_UNRECOGNIZED_MEDIA \<equiv> 1785"
abbreviation ERROR_SECTOR_NOT_FOUND :: ulong where "ERROR_SECTOR_NOT_FOUND \<equiv> 27"
abbreviation ERROR_NOT_ENOUGH_MEMORY :: ulong where "ERROR_NOT_ENOUGH_MEMORY \<equiv> 8"
abbreviation ERROR_INVALID_ADDRESS :: ulong where "ERROR_INVALID_ADDRESS \<equiv> 487"
abbreviation STATUS_NONCONTINUABLE_EXCEPTION :: ulong where "STATUS_NONCONTINUABLE_EXCEPTION \<equiv> 0xc0000025"
abbreviation STATUS_INVALID_DISPOSITION :: ulong where "STATUS_INVALID_DISPOSITION \<equiv> 0xc0000026"
abbreviation ERROR_NOT_LOCKED :: ulong where "ERROR_NOT_LOCKED \<equiv> 158"
abbreviation STATUS_PARITY_ERROR :: ulong where "STATUS_PARITY_ERROR \<equiv> 0xc000002b"
abbreviation ERROR_DISK_CORRUPT :: ulong where "ERROR_DISK_CORRUPT \<equiv> 1393"
abbreviation ERROR_INVALID_NAME :: ulong where "ERROR_INVALID_NAME \<equiv> 123"
abbreviation ERROR_ALREADY_EXISTS :: ulong where "ERROR_ALREADY_EXISTS \<equiv> 183"
abbreviation ERROR_BAD_PATHNAME :: ulong where "ERROR_BAD_PATHNAME \<equiv> 161"
abbreviation ERROR_PATH_NOT_FOUND :: ulong where "ERROR_PATH_NOT_FOUND \<equiv> 3"
abbreviation ERROR_IO_DEVICE :: ulong where "ERROR_IO_DEVICE \<equiv> 1117"
abbreviation ERROR_CRC :: ulong where "ERROR_CRC \<equiv> 23"
abbreviation ERROR_SHARING_VIOLATION :: ulong where "ERROR_SHARING_VIOLATION \<equiv> 32"
abbreviation ERROR_NOT_ENOUGH_QUOTA :: ulong where "ERROR_NOT_ENOUGH_QUOTA \<equiv> 1816"
abbreviation ERROR_TOO_MANY_POSTS :: ulong where "ERROR_TOO_MANY_POSTS \<equiv> 298"
abbreviation ERROR_SIGNAL_REFUSED :: ulong where "ERROR_SIGNAL_REFUSED \<equiv> 156"
abbreviation ERROR_EAS_NOT_SUPPORTED :: ulong where "ERROR_EAS_NOT_SUPPORTED \<equiv> 282"
abbreviation ERROR_FILE_CORRUPT :: ulong where "ERROR_FILE_CORRUPT \<equiv> 1392"
abbreviation ERROR_LOCK_VIOLATION :: ulong where "ERROR_LOCK_VIOLATION \<equiv> 33"
abbreviation ERROR_UNKNOWN_REVISION :: ulong where "ERROR_UNKNOWN_REVISION \<equiv> 1305"
abbreviation ERROR_REVISION_MISMATCH :: ulong where "ERROR_REVISION_MISMATCH \<equiv> 1306"
abbreviation ERROR_INVALID_OWNER :: ulong where "ERROR_INVALID_OWNER \<equiv> 1307"
abbreviation ERROR_INVALID_PRIMARY_GROUP :: ulong where "ERROR_INVALID_PRIMARY_GROUP \<equiv> 1308"
abbreviation ERROR_NO_IMPERSONATION_TOKEN :: ulong where "ERROR_NO_IMPERSONATION_TOKEN \<equiv> 1309"
abbreviation ERROR_CANT_DISABLE_MANDATORY :: ulong where "ERROR_CANT_DISABLE_MANDATORY \<equiv> 1310"
abbreviation ERROR_NO_SUCH_PRIVILEGE :: ulong where "ERROR_NO_SUCH_PRIVILEGE \<equiv> 1313"
abbreviation ERROR_PRIVILEGE_NOT_HELD :: ulong where "ERROR_PRIVILEGE_NOT_HELD \<equiv> 1314"
abbreviation ERROR_INVALID_ACCOUNT_NAME :: ulong where "ERROR_INVALID_ACCOUNT_NAME \<equiv> 1315"
abbreviation ERROR_USER_EXISTS :: ulong where "ERROR_USER_EXISTS \<equiv> 1316"
abbreviation ERROR_NO_SUCH_USER :: ulong where "ERROR_NO_SUCH_USER \<equiv> 1317"
abbreviation ERROR_GROUP_EXISTS :: ulong where "ERROR_GROUP_EXISTS \<equiv> 1318"
abbreviation ERROR_NO_SUCH_GROUP :: ulong where "ERROR_NO_SUCH_GROUP \<equiv> 1319"
abbreviation ERROR_MEMBER_IN_GROUP :: ulong where "ERROR_MEMBER_IN_GROUP \<equiv> 1320"
abbreviation ERROR_MEMBER_NOT_IN_GROUP :: ulong where "ERROR_MEMBER_NOT_IN_GROUP \<equiv> 1321"
abbreviation ERROR_LAST_ADMIN :: ulong where "ERROR_LAST_ADMIN \<equiv> 1322"
abbreviation ERROR_INVALID_PASSWORD :: ulong where "ERROR_INVALID_PASSWORD \<equiv> 86"
abbreviation ERROR_ILL_FORMED_PASSWORD :: ulong where "ERROR_ILL_FORMED_PASSWORD \<equiv> 1324"
abbreviation ERROR_PASSWORD_RESTRICTION :: ulong where "ERROR_PASSWORD_RESTRICTION \<equiv> 1325"
abbreviation ERROR_ACCOUNT_RESTRICTION :: ulong where "ERROR_ACCOUNT_RESTRICTION \<equiv> 1327"
abbreviation ERROR_INVALID_LOGON_HOURS :: ulong where "ERROR_INVALID_LOGON_HOURS \<equiv> 1328"
abbreviation ERROR_INVALID_WORKSTATION :: ulong where "ERROR_INVALID_WORKSTATION \<equiv> 1329"
abbreviation ERROR_ACCOUNT_DISABLED :: ulong where "ERROR_ACCOUNT_DISABLED \<equiv> 1331"
abbreviation ERROR_NONE_MAPPED :: ulong where "ERROR_NONE_MAPPED \<equiv> 1332"
abbreviation ERROR_TOO_MANY_LUIDS_REQUESTED :: ulong where "ERROR_TOO_MANY_LUIDS_REQUESTED \<equiv> 1333"
abbreviation ERROR_LUIDS_EXHAUSTED :: ulong where "ERROR_LUIDS_EXHAUSTED \<equiv> 1334"
abbreviation ERROR_INVALID_SUB_AUTHORITY :: ulong where "ERROR_INVALID_SUB_AUTHORITY \<equiv> 1335"
abbreviation ERROR_INVALID_ACL :: ulong where "ERROR_INVALID_ACL \<equiv> 1336"
abbreviation ERROR_INVALID_SID :: ulong where "ERROR_INVALID_SID \<equiv> 1337"
abbreviation ERROR_INVALID_SECURITY_DESCR :: ulong where "ERROR_INVALID_SECURITY_DESCR \<equiv> 1338"
abbreviation ERROR_PROC_NOT_FOUND :: ulong where "ERROR_PROC_NOT_FOUND \<equiv> 127"
abbreviation ERROR_NO_TOKEN :: ulong where "ERROR_NO_TOKEN \<equiv> 1008"
abbreviation ERROR_BAD_INHERITANCE_ACL :: ulong where "ERROR_BAD_INHERITANCE_ACL \<equiv> 1340"
abbreviation ERROR_DISK_FULL :: ulong where "ERROR_DISK_FULL \<equiv> 112"
abbreviation ERROR_SERVER_DISABLED :: ulong where "ERROR_SERVER_DISABLED \<equiv> 1341"
abbreviation ERROR_SERVER_NOT_DISABLED :: ulong where "ERROR_SERVER_NOT_DISABLED \<equiv> 1342"
abbreviation ERROR_TOO_MANY_NAMES :: ulong where "ERROR_TOO_MANY_NAMES \<equiv> 68"
abbreviation ERROR_INVALID_ID_AUTHORITY :: ulong where "ERROR_INVALID_ID_AUTHORITY \<equiv> 1343"
abbreviation ERROR_LABEL_TOO_LONG :: ulong where "ERROR_LABEL_TOO_LONG \<equiv> 154"
abbreviation ERROR_OUTOFMEMORY :: ulong where "ERROR_OUTOFMEMORY \<equiv> 14"
abbreviation ERROR_RESOURCE_DATA_NOT_FOUND :: ulong where "ERROR_RESOURCE_DATA_NOT_FOUND \<equiv> 1812"
abbreviation ERROR_RESOURCE_TYPE_NOT_FOUND :: ulong where "ERROR_RESOURCE_TYPE_NOT_FOUND \<equiv> 1813"
abbreviation ERROR_RESOURCE_NAME_NOT_FOUND :: ulong where "ERROR_RESOURCE_NAME_NOT_FOUND \<equiv> 1814"
abbreviation STATUS_ARRAY_BOUNDS_EXCEEDED :: ulong where "STATUS_ARRAY_BOUNDS_EXCEEDED \<equiv> 0xc000008c"
abbreviation STATUS_FLOAT_DENORMAL_OPERAND :: ulong where "STATUS_FLOAT_DENORMAL_OPERAND \<equiv> 0xc000008d"
abbreviation STATUS_FLOAT_DIVIDE_BY_ZERO :: ulong where "STATUS_FLOAT_DIVIDE_BY_ZERO \<equiv> 0xc000008e"
abbreviation STATUS_FLOAT_INEXACT_RESULT :: ulong where "STATUS_FLOAT_INEXACT_RESULT \<equiv> 0xc000008f"
abbreviation STATUS_FLOAT_INVALID_OPERATION :: ulong where "STATUS_FLOAT_INVALID_OPERATION \<equiv> 0xc0000090"
abbreviation STATUS_FLOAT_OVERFLOW :: ulong where "STATUS_FLOAT_OVERFLOW \<equiv> 0xc0000091"
abbreviation STATUS_FLOAT_STACK_CHECK :: ulong where "STATUS_FLOAT_STACK_CHECK \<equiv> 0xc0000092"
abbreviation STATUS_FLOAT_UNDERFLOW :: ulong where "STATUS_FLOAT_UNDERFLOW \<equiv> 0xc0000093"
abbreviation STATUS_INTEGER_DIVIDE_BY_ZERO :: ulong where "STATUS_INTEGER_DIVIDE_BY_ZERO \<equiv> 0xc0000094"
abbreviation ERROR_ARITHMETIC_OVERFLOW :: ulong where "ERROR_ARITHMETIC_OVERFLOW \<equiv> 534"
abbreviation STATUS_PRIVILEGED_INSTRUCTION :: ulong where "STATUS_PRIVILEGED_INSTRUCTION \<equiv> 0xc0000096"
abbreviation ERROR_FILE_INVALID :: ulong where "ERROR_FILE_INVALID \<equiv> 1006"
abbreviation ERROR_ALLOTTED_SPACE_EXCEEDED :: ulong where "ERROR_ALLOTTED_SPACE_EXCEEDED \<equiv> 1344"
abbreviation ERROR_DEVICE_NOT_CONNECTED :: ulong where "ERROR_DEVICE_NOT_CONNECTED \<equiv> 1167"
abbreviation ERROR_WORKING_SET_QUOTA :: ulong where "ERROR_WORKING_SET_QUOTA \<equiv> 1453"
abbreviation ERROR_WRITE_PROTECT :: ulong where "ERROR_WRITE_PROTECT \<equiv> 19"
abbreviation ERROR_INVALID_GROUP_ATTRIBUTES :: ulong where "ERROR_INVALID_GROUP_ATTRIBUTES \<equiv> 1345"
abbreviation ERROR_BAD_IMPERSONATION_LEVEL :: ulong where "ERROR_BAD_IMPERSONATION_LEVEL \<equiv> 1346"
abbreviation ERROR_CANT_OPEN_ANONYMOUS :: ulong where "ERROR_CANT_OPEN_ANONYMOUS \<equiv> 1347"
abbreviation ERROR_BAD_VALIDATION_CLASS :: ulong where "ERROR_BAD_VALIDATION_CLASS \<equiv> 1348"
abbreviation ERROR_BAD_TOKEN_TYPE :: ulong where "ERROR_BAD_TOKEN_TYPE \<equiv> 1349"
abbreviation ERROR_PIPE_BUSY :: ulong where "ERROR_PIPE_BUSY \<equiv> 231"
abbreviation ERROR_BAD_PIPE :: ulong where "ERROR_BAD_PIPE \<equiv> 230"
abbreviation ERROR_PIPE_NOT_CONNECTED :: ulong where "ERROR_PIPE_NOT_CONNECTED \<equiv> 233"
abbreviation ERROR_NO_DATA :: ulong where "ERROR_NO_DATA \<equiv> 232"
abbreviation ERROR_PIPE_CONNECTED :: ulong where "ERROR_PIPE_CONNECTED \<equiv> 535"
abbreviation ERROR_PIPE_LISTENING :: ulong where "ERROR_PIPE_LISTENING \<equiv> 536"
abbreviation ERROR_SEM_TIMEOUT :: ulong where "ERROR_SEM_TIMEOUT \<equiv> 121"
abbreviation ERROR_REM_NOT_LIST :: ulong where "ERROR_REM_NOT_LIST \<equiv> 51"
abbreviation ERROR_DUP_NAME :: ulong where "ERROR_DUP_NAME \<equiv> 52"
abbreviation ERROR_NETWORK_BUSY :: ulong where "ERROR_NETWORK_BUSY \<equiv> 54"
abbreviation ERROR_DEV_NOT_EXIST :: ulong where "ERROR_DEV_NOT_EXIST \<equiv> 55"
abbreviation ERROR_TOO_MANY_CMDS :: ulong where "ERROR_TOO_MANY_CMDS \<equiv> 56"
abbreviation ERROR_ADAP_HDW_ERR :: ulong where "ERROR_ADAP_HDW_ERR \<equiv> 57"
abbreviation ERROR_BAD_NET_RESP :: ulong where "ERROR_BAD_NET_RESP \<equiv> 58"
abbreviation ERROR_UNEXP_NET_ERR :: ulong where "ERROR_UNEXP_NET_ERR \<equiv> 59"
abbreviation ERROR_BAD_REM_ADAP :: ulong where "ERROR_BAD_REM_ADAP \<equiv> 60"
abbreviation ERROR_PRINTQ_FULL :: ulong where "ERROR_PRINTQ_FULL \<equiv> 61"
abbreviation ERROR_NO_SPOOL_SPACE :: ulong where "ERROR_NO_SPOOL_SPACE \<equiv> 62"
abbreviation ERROR_PRINT_CANCELLED :: ulong where "ERROR_PRINT_CANCELLED \<equiv> 63"
abbreviation ERROR_NETNAME_DELETED :: ulong where "ERROR_NETNAME_DELETED \<equiv> 64"
abbreviation ERROR_NETWORK_ACCESS_DENIED :: ulong where "ERROR_NETWORK_ACCESS_DENIED \<equiv> 65"
abbreviation ERROR_BAD_DEV_TYPE :: ulong where "ERROR_BAD_DEV_TYPE \<equiv> 66"
abbreviation ERROR_BAD_NET_NAME :: ulong where "ERROR_BAD_NET_NAME \<equiv> 67"
abbreviation ERROR_TOO_MANY_SESS :: ulong where "ERROR_TOO_MANY_SESS \<equiv> 69"
abbreviation ERROR_SHARING_PAUSED :: ulong where "ERROR_SHARING_PAUSED \<equiv> 70"
abbreviation ERROR_REQ_NOT_ACCEP :: ulong where "ERROR_REQ_NOT_ACCEP \<equiv> 71"
abbreviation ERROR_REDIR_PAUSED :: ulong where "ERROR_REDIR_PAUSED \<equiv> 72"
abbreviation ERROR_NET_WRITE_FAULT :: ulong where "ERROR_NET_WRITE_FAULT \<equiv> 88"
abbreviation ERROR_NOT_SAME_DEVICE :: ulong where "ERROR_NOT_SAME_DEVICE \<equiv> 17"
abbreviation ERROR_VC_DISCONNECTED :: ulong where "ERROR_VC_DISCONNECTED \<equiv> 240"
abbreviation ERROR_NO_SECURITY_ON_OBJECT :: ulong where "ERROR_NO_SECURITY_ON_OBJECT \<equiv> 1350"
abbreviation ERROR_CANT_ACCESS_DOMAIN_INFO :: ulong where "ERROR_CANT_ACCESS_DOMAIN_INFO \<equiv> 1351"
abbreviation ERROR_INVALID_SERVER_STATE :: ulong where "ERROR_INVALID_SERVER_STATE \<equiv> 1352"
abbreviation ERROR_INVALID_DOMAIN_STATE :: ulong where "ERROR_INVALID_DOMAIN_STATE \<equiv> 1353"
abbreviation ERROR_INVALID_DOMAIN_ROLE :: ulong where "ERROR_INVALID_DOMAIN_ROLE \<equiv> 1354"
abbreviation ERROR_NO_SUCH_DOMAIN :: ulong where "ERROR_NO_SUCH_DOMAIN \<equiv> 1355"
abbreviation ERROR_DOMAIN_EXISTS :: ulong where "ERROR_DOMAIN_EXISTS \<equiv> 1356"
abbreviation ERROR_DOMAIN_LIMIT_EXCEEDED :: ulong where "ERROR_DOMAIN_LIMIT_EXCEEDED \<equiv> 1357"
abbreviation ERROR_OPLOCK_NOT_GRANTED :: ulong where "ERROR_OPLOCK_NOT_GRANTED \<equiv> 300"
abbreviation ERROR_INVALID_OPLOCK_PROTOCOL :: ulong where "ERROR_INVALID_OPLOCK_PROTOCOL \<equiv> 301"
abbreviation ERROR_INTERNAL_DB_CORRUPTION :: ulong where "ERROR_INTERNAL_DB_CORRUPTION \<equiv> 1358"
abbreviation ERROR_GENERIC_NOT_MAPPED :: ulong where "ERROR_GENERIC_NOT_MAPPED \<equiv> 1360"
abbreviation ERROR_BAD_DESCRIPTOR_FORMAT :: ulong where "ERROR_BAD_DESCRIPTOR_FORMAT \<equiv> 1361"
abbreviation ERROR_NOT_LOGON_PROCESS :: ulong where "ERROR_NOT_LOGON_PROCESS \<equiv> 1362"
abbreviation ERROR_LOGON_SESSION_EXISTS :: ulong where "ERROR_LOGON_SESSION_EXISTS \<equiv> 1363"
abbreviation ERROR_SERVICE_ALREADY_RUNNING :: ulong where "ERROR_SERVICE_ALREADY_RUNNING \<equiv> 1056"
abbreviation ERROR_ENVVAR_NOT_FOUND :: ulong where "ERROR_ENVVAR_NOT_FOUND \<equiv> 203"
abbreviation ERROR_DIR_NOT_EMPTY :: ulong where "ERROR_DIR_NOT_EMPTY \<equiv> 145"
abbreviation ERROR_DIRECTORY :: ulong where "ERROR_DIRECTORY \<equiv> 267"
abbreviation ERROR_BAD_LOGON_SESSION_STATE :: ulong where "ERROR_BAD_LOGON_SESSION_STATE \<equiv> 1365"
abbreviation ERROR_LOGON_SESSION_COLLISION :: ulong where "ERROR_LOGON_SESSION_COLLISION \<equiv> 1366"
abbreviation ERROR_FILENAME_EXCED_RANGE :: ulong where "ERROR_FILENAME_EXCED_RANGE \<equiv> 206"
abbreviation ERROR_OPEN_FILES :: ulong where "ERROR_OPEN_FILES \<equiv> 2401"
abbreviation ERROR_DEVICE_IN_USE :: ulong where "ERROR_DEVICE_IN_USE \<equiv> 2404"
abbreviation ERROR_INVALID_LOGON_TYPE :: ulong where "ERROR_INVALID_LOGON_TYPE \<equiv> 1367"
abbreviation ERROR_INVALID_THREAD_ID :: ulong where "ERROR_INVALID_THREAD_ID \<equiv> 1444"
abbreviation ERROR_RXACT_INVALID_STATE :: ulong where "ERROR_RXACT_INVALID_STATE \<equiv> 1369"
abbreviation ERROR_RXACT_COMMIT_FAILURE :: ulong where "ERROR_RXACT_COMMIT_FAILURE \<equiv> 1370"
abbreviation ERROR_TOO_MANY_OPEN_FILES :: ulong where "ERROR_TOO_MANY_OPEN_FILES \<equiv> 4"
abbreviation ERROR_OPERATION_ABORTED :: ulong where "ERROR_OPERATION_ABORTED \<equiv> 995"
abbreviation ERROR_INVALID_COMPUTERNAME :: ulong where "ERROR_INVALID_COMPUTERNAME \<equiv> 1210"
abbreviation ERROR_SPECIAL_ACCOUNT :: ulong where "ERROR_SPECIAL_ACCOUNT \<equiv> 1371"
abbreviation ERROR_SPECIAL_GROUP :: ulong where "ERROR_SPECIAL_GROUP \<equiv> 1372"
abbreviation ERROR_SPECIAL_USER :: ulong where "ERROR_SPECIAL_USER \<equiv> 1373"
abbreviation ERROR_MEMBERS_PRIMARY_GROUP :: ulong where "ERROR_MEMBERS_PRIMARY_GROUP \<equiv> 1374"
abbreviation ERROR_TOKEN_ALREADY_IN_USE :: ulong where "ERROR_TOKEN_ALREADY_IN_USE \<equiv> 1375"
abbreviation ERROR_COMMITMENT_LIMIT :: ulong where "ERROR_COMMITMENT_LIMIT \<equiv> 1455"
abbreviation ERROR_TIME_SKEW :: ulong where "ERROR_TIME_SKEW \<equiv> 1398"
abbreviation ERROR_MOD_NOT_FOUND :: ulong where "ERROR_MOD_NOT_FOUND \<equiv> 126"
abbreviation ERROR_INVALID_ORDINAL :: ulong where "ERROR_INVALID_ORDINAL \<equiv> 182"
abbreviation ERROR_DLL_INIT_FAILED :: ulong where "ERROR_DLL_INIT_FAILED \<equiv> 1114"
abbreviation ERROR_INVALID_LEVEL :: ulong where "ERROR_INVALID_LEVEL \<equiv> 124"
abbreviation ERROR_BROKEN_PIPE :: ulong where "ERROR_BROKEN_PIPE \<equiv> 109"
abbreviation ERROR_BADDB :: ulong where "ERROR_BADDB \<equiv> 1009"
abbreviation ERROR_REGISTRY_IO_FAILED :: ulong where "ERROR_REGISTRY_IO_FAILED \<equiv> 1016"
abbreviation ERROR_UNRECOGNIZED_VOLUME :: ulong where "ERROR_UNRECOGNIZED_VOLUME \<equiv> 1005"
abbreviation ERROR_SERIAL_NO_DEVICE :: ulong where "ERROR_SERIAL_NO_DEVICE \<equiv> 1118"
abbreviation ERROR_NO_SUCH_ALIAS :: ulong where "ERROR_NO_SUCH_ALIAS \<equiv> 1376"
abbreviation ERROR_MEMBER_NOT_IN_ALIAS :: ulong where "ERROR_MEMBER_NOT_IN_ALIAS \<equiv> 1377"
abbreviation ERROR_MEMBER_IN_ALIAS :: ulong where "ERROR_MEMBER_IN_ALIAS \<equiv> 1378"
abbreviation ERROR_ALIAS_EXISTS :: ulong where "ERROR_ALIAS_EXISTS \<equiv> 1379"
abbreviation ERROR_LOGON_NOT_GRANTED :: ulong where "ERROR_LOGON_NOT_GRANTED \<equiv> 1380"
abbreviation ERROR_TOO_MANY_SECRETS :: ulong where "ERROR_TOO_MANY_SECRETS \<equiv> 1381"
abbreviation ERROR_SECRET_TOO_LONG :: ulong where "ERROR_SECRET_TOO_LONG \<equiv> 1382"
abbreviation ERROR_INTERNAL_DB_ERROR :: ulong where "ERROR_INTERNAL_DB_ERROR \<equiv> 1383"
abbreviation ERROR_FULLSCREEN_MODE :: ulong where "ERROR_FULLSCREEN_MODE \<equiv> 1007"
abbreviation ERROR_TOO_MANY_CONTEXT_IDS :: ulong where "ERROR_TOO_MANY_CONTEXT_IDS \<equiv> 1384"
abbreviation ERROR_LOGON_TYPE_NOT_GRANTED :: ulong where "ERROR_LOGON_TYPE_NOT_GRANTED \<equiv> 1385"
abbreviation ERROR_NOT_REGISTRY_FILE :: ulong where "ERROR_NOT_REGISTRY_FILE \<equiv> 1017"
abbreviation ERROR_NT_CROSS_ENCRYPTION_REQUIRED :: ulong where "ERROR_NT_CROSS_ENCRYPTION_REQUIRED \<equiv> 1386"
abbreviation ERROR_NO_UNICODE_TRANSLATION :: ulong where "ERROR_NO_UNICODE_TRANSLATION \<equiv> 1113"
abbreviation ERROR_FLOPPY_ID_MARK_NOT_FOUND :: ulong where "ERROR_FLOPPY_ID_MARK_NOT_FOUND \<equiv> 1122"
abbreviation ERROR_FLOPPY_WRONG_CYLINDER :: ulong where "ERROR_FLOPPY_WRONG_CYLINDER \<equiv> 1123"
abbreviation ERROR_FLOPPY_UNKNOWN_ERROR :: ulong where "ERROR_FLOPPY_UNKNOWN_ERROR \<equiv> 1124"
abbreviation ERROR_FLOPPY_BAD_REGISTERS :: ulong where "ERROR_FLOPPY_BAD_REGISTERS \<equiv> 1125"
abbreviation ERROR_DISK_RECALIBRATE_FAILED :: ulong where "ERROR_DISK_RECALIBRATE_FAILED \<equiv> 1126"
abbreviation ERROR_DISK_OPERATION_FAILED :: ulong where "ERROR_DISK_OPERATION_FAILED \<equiv> 1127"
abbreviation ERROR_DISK_RESET_FAILED :: ulong where "ERROR_DISK_RESET_FAILED \<equiv> 1128"
abbreviation ERROR_IRQ_BUSY :: ulong where "ERROR_IRQ_BUSY \<equiv> 1119"
abbreviation ERROR_PARTITION_FAILURE :: ulong where "ERROR_PARTITION_FAILURE \<equiv> 1105"
abbreviation ERROR_INVALID_BLOCK_LENGTH :: ulong where "ERROR_INVALID_BLOCK_LENGTH \<equiv> 1106"
abbreviation ERROR_DEVICE_NOT_PARTITIONED :: ulong where "ERROR_DEVICE_NOT_PARTITIONED \<equiv> 1107"
abbreviation ERROR_UNABLE_TO_LOCK_MEDIA :: ulong where "ERROR_UNABLE_TO_LOCK_MEDIA \<equiv> 1108"
abbreviation ERROR_UNABLE_TO_UNLOAD_MEDIA :: ulong where "ERROR_UNABLE_TO_UNLOAD_MEDIA \<equiv> 1109"
abbreviation ERROR_EOM_OVERFLOW :: ulong where "ERROR_EOM_OVERFLOW \<equiv> 1129"
abbreviation ERROR_NO_MEDIA_IN_DRIVE :: ulong where "ERROR_NO_MEDIA_IN_DRIVE \<equiv> 1112"
abbreviation ERROR_NO_SUCH_MEMBER :: ulong where "ERROR_NO_SUCH_MEMBER \<equiv> 1387"
abbreviation ERROR_INVALID_MEMBER :: ulong where "ERROR_INVALID_MEMBER \<equiv> 1388"
abbreviation ERROR_KEY_DELETED :: ulong where "ERROR_KEY_DELETED \<equiv> 1018"
abbreviation ERROR_NO_LOG_SPACE :: ulong where "ERROR_NO_LOG_SPACE \<equiv> 1019"
abbreviation ERROR_TOO_MANY_SIDS :: ulong where "ERROR_TOO_MANY_SIDS \<equiv> 1389"
abbreviation ERROR_LM_CROSS_ENCRYPTION_REQUIRED :: ulong where "ERROR_LM_CROSS_ENCRYPTION_REQUIRED \<equiv> 1390"
abbreviation ERROR_KEY_HAS_CHILDREN :: ulong where "ERROR_KEY_HAS_CHILDREN \<equiv> 1020"
abbreviation ERROR_CHILD_MUST_BE_VOLATILE :: ulong where "ERROR_CHILD_MUST_BE_VOLATILE \<equiv> 1021"
abbreviation ERROR_BAD_COMMAND :: ulong where "ERROR_BAD_COMMAND \<equiv> 22"
abbreviation ERROR_LOG_FILE_FULL :: ulong where "ERROR_LOG_FILE_FULL \<equiv> 1502"
abbreviation ERROR_NO_TRUST_LSA_SECRET :: ulong where "ERROR_NO_TRUST_LSA_SECRET \<equiv> 1786"
abbreviation ERROR_NO_TRUST_SAM_ACCOUNT :: ulong where "ERROR_NO_TRUST_SAM_ACCOUNT \<equiv> 1787"
abbreviation ERROR_TRUSTED_DOMAIN_FAILURE :: ulong where "ERROR_TRUSTED_DOMAIN_FAILURE \<equiv> 1788"
abbreviation ERROR_TRUSTED_RELATIONSHIP_FAILURE :: ulong where "ERROR_TRUSTED_RELATIONSHIP_FAILURE \<equiv> 1789"
abbreviation ERROR_EVENTLOG_FILE_CORRUPT :: ulong where "ERROR_EVENTLOG_FILE_CORRUPT \<equiv> 1500"
abbreviation ERROR_EVENTLOG_CANT_START :: ulong where "ERROR_EVENTLOG_CANT_START \<equiv> 1501"
abbreviation ERROR_NETLOGON_NOT_STARTED :: ulong where "ERROR_NETLOGON_NOT_STARTED \<equiv> 1792"
abbreviation ERROR_ACCOUNT_EXPIRED :: ulong where "ERROR_ACCOUNT_EXPIRED \<equiv> 1793"
abbreviation ERROR_POSSIBLE_DEADLOCK :: ulong where "ERROR_POSSIBLE_DEADLOCK \<equiv> 1131"
abbreviation ERROR_SESSION_CREDENTIAL_CONFLICT :: ulong where "ERROR_SESSION_CREDENTIAL_CONFLICT \<equiv> 1219"
abbreviation ERROR_REMOTE_SESSION_LIMIT_EXCEEDED :: ulong where "ERROR_REMOTE_SESSION_LIMIT_EXCEEDED \<equiv> 1220"
abbreviation ERROR_EVENTLOG_FILE_CHANGED :: ulong where "ERROR_EVENTLOG_FILE_CHANGED \<equiv> 1503"
abbreviation ERROR_NOLOGON_INTERDOMAIN_TRUST_ACCOUNT :: ulong where "ERROR_NOLOGON_INTERDOMAIN_TRUST_ACCOUNT \<equiv> 1807"
abbreviation ERROR_NOLOGON_WORKSTATION_TRUST_ACCOUNT :: ulong where "ERROR_NOLOGON_WORKSTATION_TRUST_ACCOUNT \<equiv> 1808"
abbreviation ERROR_NOLOGON_SERVER_TRUST_ACCOUNT :: ulong where "ERROR_NOLOGON_SERVER_TRUST_ACCOUNT \<equiv> 1809"
abbreviation ERROR_DOMAIN_TRUST_INCONSISTENT :: ulong where "ERROR_DOMAIN_TRUST_INCONSISTENT \<equiv> 1810"
abbreviation ERROR_NO_USER_SESSION_KEY :: ulong where "ERROR_NO_USER_SESSION_KEY \<equiv> 1394"
abbreviation ERROR_RESOURCE_LANG_NOT_FOUND :: ulong where "ERROR_RESOURCE_LANG_NOT_FOUND \<equiv> 1815"
abbreviation ERROR_NOT_ENOUGH_SERVER_MEMORY :: ulong where "ERROR_NOT_ENOUGH_SERVER_MEMORY \<equiv> 1130"
abbreviation ERROR_INVALID_NETNAME :: ulong where "ERROR_INVALID_NETNAME \<equiv> 1214"
abbreviation ERROR_NO_BROWSER_SERVERS_FOUND :: ulong where "ERROR_NO_BROWSER_SERVERS_FOUND \<equiv> 6118"
abbreviation ERROR_MAPPED_ALIGNMENT :: ulong where "ERROR_MAPPED_ALIGNMENT \<equiv> 1132"
abbreviation ERROR_PASSWORD_MUST_CHANGE :: ulong where "ERROR_PASSWORD_MUST_CHANGE \<equiv> 1907"
abbreviation ERROR_NOT_FOUND :: ulong where "ERROR_NOT_FOUND \<equiv> 1168"
abbreviation ERROR_RETRY :: ulong where "ERROR_RETRY \<equiv> 1237"
abbreviation ERROR_SET_NOT_FOUND :: ulong where "ERROR_SET_NOT_FOUND \<equiv> 1170"
abbreviation ERROR_DOMAIN_CONTROLLER_NOT_FOUND :: ulong where "ERROR_DOMAIN_CONTROLLER_NOT_FOUND \<equiv> 1908"
abbreviation ERROR_ACCOUNT_LOCKED_OUT :: ulong where "ERROR_ACCOUNT_LOCKED_OUT \<equiv> 1909"
abbreviation ERROR_CONNECTION_REFUSED :: ulong where "ERROR_CONNECTION_REFUSED \<equiv> 1225"
abbreviation ERROR_GRACEFUL_DISCONNECT :: ulong where "ERROR_GRACEFUL_DISCONNECT \<equiv> 1226"
abbreviation ERROR_ADDRESS_ALREADY_ASSOCIATED :: ulong where "ERROR_ADDRESS_ALREADY_ASSOCIATED \<equiv> 1227"
abbreviation ERROR_ADDRESS_NOT_ASSOCIATED :: ulong where "ERROR_ADDRESS_NOT_ASSOCIATED \<equiv> 1228"
abbreviation ERROR_CONNECTION_INVALID :: ulong where "ERROR_CONNECTION_INVALID \<equiv> 1229"
abbreviation ERROR_CONNECTION_ACTIVE :: ulong where "ERROR_CONNECTION_ACTIVE \<equiv> 1230"
abbreviation ERROR_NETWORK_UNREACHABLE :: ulong where "ERROR_NETWORK_UNREACHABLE \<equiv> 1231"
abbreviation ERROR_HOST_UNREACHABLE :: ulong where "ERROR_HOST_UNREACHABLE \<equiv> 1232"
abbreviation ERROR_PROTOCOL_UNREACHABLE :: ulong where "ERROR_PROTOCOL_UNREACHABLE \<equiv> 1233"
abbreviation ERROR_PORT_UNREACHABLE :: ulong where "ERROR_PORT_UNREACHABLE \<equiv> 1234"
abbreviation ERROR_REQUEST_ABORTED :: ulong where "ERROR_REQUEST_ABORTED \<equiv> 1235"
abbreviation ERROR_CONNECTION_ABORTED :: ulong where "ERROR_CONNECTION_ABORTED \<equiv> 1236"
abbreviation ERROR_USER_MAPPED_FILE :: ulong where "ERROR_USER_MAPPED_FILE \<equiv> 1224"
abbreviation ERROR_CONNECTION_COUNT_LIMIT :: ulong where "ERROR_CONNECTION_COUNT_LIMIT \<equiv> 1238"
abbreviation ERROR_LOGIN_TIME_RESTRICTION :: ulong where "ERROR_LOGIN_TIME_RESTRICTION \<equiv> 1239"
abbreviation ERROR_LOGIN_WKSTA_RESTRICTION :: ulong where "ERROR_LOGIN_WKSTA_RESTRICTION \<equiv> 1240"
abbreviation ERROR_LICENSE_QUOTA_EXCEEDED :: ulong where "ERROR_LICENSE_QUOTA_EXCEEDED \<equiv> 1395"
abbreviation ERROR_SERVICE_DISABLED :: ulong where "ERROR_SERVICE_DISABLED \<equiv> 1058"
abbreviation ERROR_TOO_MANY_LINKS :: ulong where "ERROR_TOO_MANY_LINKS \<equiv> 1142"
abbreviation ERROR_FILE_OFFLINE :: ulong where "ERROR_FILE_OFFLINE \<equiv> 4350"
abbreviation ERROR_CTX_LICENSE_NOT_AVAILABLE :: ulong where "ERROR_CTX_LICENSE_NOT_AVAILABLE \<equiv> 7054"
abbreviation ERROR_BAD_DRIVER :: ulong where "ERROR_BAD_DRIVER \<equiv> 2001"
abbreviation ERROR_CONNECTION_UNAVAIL :: ulong where "ERROR_CONNECTION_UNAVAIL \<equiv> 1201"
abbreviation ERROR_NO_MATCH :: ulong where "ERROR_NO_MATCH \<equiv> 1169"
abbreviation ERROR_NOT_A_REPARSE_POINT :: ulong where "ERROR_NOT_A_REPARSE_POINT \<equiv> 4390"
abbreviation ERROR_REPARSE_TAG_INVALID :: ulong where "ERROR_REPARSE_TAG_INVALID \<equiv> 4393"
abbreviation ERROR_REPARSE_TAG_MISMATCH :: ulong where "ERROR_REPARSE_TAG_MISMATCH \<equiv> 4394"
abbreviation ERROR_INVALID_REPARSE_DATA :: ulong where "ERROR_INVALID_REPARSE_DATA \<equiv> 4392"
abbreviation ERROR_CANT_ACCESS_FILE :: ulong where "ERROR_CANT_ACCESS_FILE \<equiv> 1920"
abbreviation ERROR_CANT_RESOLVE_FILENAME :: ulong where "ERROR_CANT_RESOLVE_FILENAME \<equiv> 1921"
abbreviation ERROR_SOURCE_ELEMENT_EMPTY :: ulong where "ERROR_SOURCE_ELEMENT_EMPTY \<equiv> 1160"
abbreviation ERROR_DESTINATION_ELEMENT_FULL :: ulong where "ERROR_DESTINATION_ELEMENT_FULL \<equiv> 1161"
abbreviation ERROR_ILLEGAL_ELEMENT_ADDRESS :: ulong where "ERROR_ILLEGAL_ELEMENT_ADDRESS \<equiv> 1162"
abbreviation ERROR_MAGAZINE_NOT_PRESENT :: ulong where "ERROR_MAGAZINE_NOT_PRESENT \<equiv> 1163"
abbreviation ERROR_DEVICE_REINITIALIZATION_NEEDED :: ulong where "ERROR_DEVICE_REINITIALIZATION_NEEDED \<equiv> 1164"
abbreviation ERROR_FILE_NOT_ENCRYPTED :: ulong where "ERROR_FILE_NOT_ENCRYPTED \<equiv> 6007"
abbreviation ERROR_NOT_EXPORT_FORMAT :: ulong where "ERROR_NOT_EXPORT_FORMAT \<equiv> 6008"
abbreviation ERROR_FILE_ENCRYPTED :: ulong where "ERROR_FILE_ENCRYPTED \<equiv> 6002"
abbreviation ERROR_WMI_GUID_NOT_FOUND :: ulong where "ERROR_WMI_GUID_NOT_FOUND \<equiv> 4200"
abbreviation ERROR_WMI_INSTANCE_NOT_FOUND :: ulong where "ERROR_WMI_INSTANCE_NOT_FOUND \<equiv> 4201"
abbreviation ERROR_WMI_ITEMID_NOT_FOUND :: ulong where "ERROR_WMI_ITEMID_NOT_FOUND \<equiv> 4202"
abbreviation ERROR_WMI_TRY_AGAIN :: ulong where "ERROR_WMI_TRY_AGAIN \<equiv> 4203"
abbreviation ERROR_SHARED_POLICY :: ulong where "ERROR_SHARED_POLICY \<equiv> 8218"
abbreviation ERROR_POLICY_OBJECT_NOT_FOUND :: ulong where "ERROR_POLICY_OBJECT_NOT_FOUND \<equiv> 8219"
abbreviation ERROR_POLICY_ONLY_IN_DS :: ulong where "ERROR_POLICY_ONLY_IN_DS \<equiv> 8220"
abbreviation ERROR_REMOTE_STORAGE_NOT_ACTIVE :: ulong where "ERROR_REMOTE_STORAGE_NOT_ACTIVE \<equiv> 4351"
abbreviation ERROR_REMOTE_STORAGE_MEDIA_ERROR :: ulong where "ERROR_REMOTE_STORAGE_MEDIA_ERROR \<equiv> 4352"
abbreviation ERROR_NO_TRACKING_SERVICE :: ulong where "ERROR_NO_TRACKING_SERVICE \<equiv> 1172"
abbreviation ERROR_DS_NO_ATTRIBUTE_OR_VALUE :: ulong where "ERROR_DS_NO_ATTRIBUTE_OR_VALUE \<equiv> 8202"
abbreviation ERROR_DS_INVALID_ATTRIBUTE_SYNTAX :: ulong where "ERROR_DS_INVALID_ATTRIBUTE_SYNTAX \<equiv> 8203"
abbreviation ERROR_DS_ATTRIBUTE_TYPE_UNDEFINED :: ulong where "ERROR_DS_ATTRIBUTE_TYPE_UNDEFINED \<equiv> 8204"
abbreviation ERROR_DS_ATTRIBUTE_OR_VALUE_EXISTS :: ulong where "ERROR_DS_ATTRIBUTE_OR_VALUE_EXISTS \<equiv> 8205"
abbreviation ERROR_DS_BUSY :: ulong where "ERROR_DS_BUSY \<equiv> 8206"
abbreviation ERROR_DS_UNAVAILABLE :: ulong where "ERROR_DS_UNAVAILABLE \<equiv> 8207"
abbreviation ERROR_DS_NO_RIDS_ALLOCATED :: ulong where "ERROR_DS_NO_RIDS_ALLOCATED \<equiv> 8208"
abbreviation ERROR_DS_NO_MORE_RIDS :: ulong where "ERROR_DS_NO_MORE_RIDS \<equiv> 8209"
abbreviation ERROR_DS_INCORRECT_ROLE_OWNER :: ulong where "ERROR_DS_INCORRECT_ROLE_OWNER \<equiv> 8210"
abbreviation ERROR_DS_RIDMGR_INIT_ERROR :: ulong where "ERROR_DS_RIDMGR_INIT_ERROR \<equiv> 8211"
abbreviation ERROR_DS_OBJ_CLASS_VIOLATION :: ulong where "ERROR_DS_OBJ_CLASS_VIOLATION \<equiv> 8212"
abbreviation ERROR_DS_CANT_ON_NON_LEAF :: ulong where "ERROR_DS_CANT_ON_NON_LEAF \<equiv> 8213"
abbreviation ERROR_DS_CANT_ON_RDN :: ulong where "ERROR_DS_CANT_ON_RDN \<equiv> 8214"
abbreviation ERROR_DS_CANT_MOD_OBJ_CLASS :: ulong where "ERROR_DS_CANT_MOD_OBJ_CLASS \<equiv> 8215"
abbreviation ERROR_DS_CROSS_DOM_MOVE_ERROR :: ulong where "ERROR_DS_CROSS_DOM_MOVE_ERROR \<equiv> 8216"
abbreviation ERROR_DS_GC_NOT_AVAILABLE :: ulong where "ERROR_DS_GC_NOT_AVAILABLE \<equiv> 8217"
abbreviation ERROR_DS_DS_REQUIRED :: ulong where "ERROR_DS_DS_REQUIRED \<equiv> 8478"
abbreviation ERROR_REPARSE_ATTRIBUTE_CONFLICT :: ulong where "ERROR_REPARSE_ATTRIBUTE_CONFLICT \<equiv> 4391"
abbreviation ERROR_DEVICE_REMOVED :: ulong where "ERROR_DEVICE_REMOVED \<equiv> 1617"
abbreviation ERROR_JOURNAL_DELETE_IN_PROGRESS :: ulong where "ERROR_JOURNAL_DELETE_IN_PROGRESS \<equiv> 1178"
abbreviation ERROR_JOURNAL_NOT_ACTIVE :: ulong where "ERROR_JOURNAL_NOT_ACTIVE \<equiv> 1179"
abbreviation ERROR_DS_ADMIN_LIMIT_EXCEEDED :: ulong where "ERROR_DS_ADMIN_LIMIT_EXCEEDED \<equiv> 8228"
abbreviation ERROR_WMI_READ_ONLY :: ulong where "ERROR_WMI_READ_ONLY \<equiv> 4213"
abbreviation ERROR_WMI_SET_FAILURE :: ulong where "ERROR_WMI_SET_FAILURE \<equiv> 4214"
abbreviation ERROR_REG_NAT_CONSUMPTION :: ulong where "ERROR_REG_NAT_CONSUMPTION \<equiv> 1261"
abbreviation ERROR_TRANSPORT_FULL :: ulong where "ERROR_TRANSPORT_FULL \<equiv> 4328"
abbreviation ERROR_DS_SAM_INIT_FAILURE :: ulong where "ERROR_DS_SAM_INIT_FAILURE \<equiv> 8504"
abbreviation ERROR_ONLY_IF_CONNECTED :: ulong where "ERROR_ONLY_IF_CONNECTED \<equiv> 1251"
abbreviation ERROR_DS_SENSITIVE_GROUP_VIOLATION :: ulong where "ERROR_DS_SENSITIVE_GROUP_VIOLATION \<equiv> 8505"
abbreviation ERROR_JOURNAL_ENTRY_DELETED :: ulong where "ERROR_JOURNAL_ENTRY_DELETED \<equiv> 1181"
abbreviation ERROR_DS_CANT_MOD_PRIMARYGROUPID :: ulong where "ERROR_DS_CANT_MOD_PRIMARYGROUPID \<equiv> 8506"
abbreviation ERROR_DS_INVALID_GROUP_TYPE :: ulong where "ERROR_DS_INVALID_GROUP_TYPE \<equiv> 8513"
abbreviation ERROR_DS_NO_NEST_GLOBALGROUP_IN_MIXEDDOMAIN :: ulong where "ERROR_DS_NO_NEST_GLOBALGROUP_IN_MIXEDDOMAIN \<equiv> 8514"
abbreviation ERROR_DS_NO_NEST_LOCALGROUP_IN_MIXEDDOMAIN :: ulong where "ERROR_DS_NO_NEST_LOCALGROUP_IN_MIXEDDOMAIN \<equiv> 8515"
abbreviation ERROR_DS_GLOBAL_CANT_HAVE_LOCAL_MEMBER :: ulong where "ERROR_DS_GLOBAL_CANT_HAVE_LOCAL_MEMBER \<equiv> 8516"
abbreviation ERROR_DS_GLOBAL_CANT_HAVE_UNIVERSAL_MEMBER :: ulong where "ERROR_DS_GLOBAL_CANT_HAVE_UNIVERSAL_MEMBER \<equiv> 8517"
abbreviation ERROR_DS_UNIVERSAL_CANT_HAVE_LOCAL_MEMBER :: ulong where "ERROR_DS_UNIVERSAL_CANT_HAVE_LOCAL_MEMBER \<equiv> 8518"
abbreviation ERROR_DS_GLOBAL_CANT_HAVE_CROSSDOMAIN_MEMBER :: ulong where "ERROR_DS_GLOBAL_CANT_HAVE_CROSSDOMAIN_MEMBER \<equiv> 8519"
abbreviation ERROR_DS_LOCAL_CANT_HAVE_CROSSDOMAIN_LOCAL_MEMBER :: ulong where "ERROR_DS_LOCAL_CANT_HAVE_CROSSDOMAIN_LOCAL_MEMBER \<equiv> 8520"
abbreviation ERROR_DS_HAVE_PRIMARY_MEMBERS :: ulong where "ERROR_DS_HAVE_PRIMARY_MEMBERS \<equiv> 8521"
abbreviation ERROR_DS_SAM_NEED_BOOTKEY_PASSWORD :: ulong where "ERROR_DS_SAM_NEED_BOOTKEY_PASSWORD \<equiv> 8529"
abbreviation ERROR_DS_SAM_NEED_BOOTKEY_FLOPPY :: ulong where "ERROR_DS_SAM_NEED_BOOTKEY_FLOPPY \<equiv> 8530"
abbreviation ERROR_DS_CANT_START :: ulong where "ERROR_DS_CANT_START \<equiv> 8531"
abbreviation ERROR_DS_INIT_FAILURE :: ulong where "ERROR_DS_INIT_FAILURE \<equiv> 8532"
abbreviation ERROR_SAM_INIT_FAILURE :: ulong where "ERROR_SAM_INIT_FAILURE \<equiv> 8541"
abbreviation ERROR_DS_GC_REQUIRED :: ulong where "ERROR_DS_GC_REQUIRED \<equiv> 8547"
abbreviation ERROR_DS_LOCAL_MEMBER_OF_LOCAL_ONLY :: ulong where "ERROR_DS_LOCAL_MEMBER_OF_LOCAL_ONLY \<equiv> 8548"
abbreviation ERROR_DS_NO_FPO_IN_UNIVERSAL_GROUPS :: ulong where "ERROR_DS_NO_FPO_IN_UNIVERSAL_GROUPS \<equiv> 8549"
abbreviation ERROR_DS_MACHINE_ACCOUNT_QUOTA_EXCEEDED :: ulong where "ERROR_DS_MACHINE_ACCOUNT_QUOTA_EXCEEDED \<equiv> 8557"
abbreviation ERROR_CURRENT_DOMAIN_NOT_ALLOWED :: ulong where "ERROR_CURRENT_DOMAIN_NOT_ALLOWED \<equiv> 1399"
abbreviation ERROR_CANNOT_MAKE :: ulong where "ERROR_CANNOT_MAKE \<equiv> 82"
abbreviation ERROR_DS_INIT_FAILURE_CONSOLE :: ulong where "ERROR_DS_INIT_FAILURE_CONSOLE \<equiv> 8561"
abbreviation ERROR_DS_SAM_INIT_FAILURE_CONSOLE :: ulong where "ERROR_DS_SAM_INIT_FAILURE_CONSOLE \<equiv> 8562"
abbreviation SEC_E_UNFINISHED_CONTEXT_DELETED :: ulong where "SEC_E_UNFINISHED_CONTEXT_DELETED \<equiv> 0x80090333"
abbreviation SEC_E_NO_TGT_REPLY :: ulong where "SEC_E_NO_TGT_REPLY \<equiv> 0x80090334"
abbreviation SEC_E_NO_IP_ADDRESSES :: ulong where "SEC_E_NO_IP_ADDRESSES \<equiv> 0x80090335"
abbreviation SEC_E_WRONG_CREDENTIAL_HANDLE :: ulong where "SEC_E_WRONG_CREDENTIAL_HANDLE \<equiv> 0x80090336"
abbreviation SEC_E_CRYPTO_SYSTEM_INVALID :: ulong where "SEC_E_CRYPTO_SYSTEM_INVALID \<equiv> 0x80090337"
abbreviation SEC_E_MAX_REFERRALS_EXCEEDED :: ulong where "SEC_E_MAX_REFERRALS_EXCEEDED \<equiv> 0x80090338"
abbreviation SEC_E_MUST_BE_KDC :: ulong where "SEC_E_MUST_BE_KDC \<equiv> 0x80090339"
abbreviation SEC_E_STRONG_CRYPTO_NOT_SUPPORTED :: ulong where "SEC_E_STRONG_CRYPTO_NOT_SUPPORTED \<equiv> 0x8009033a"
abbreviation SEC_E_TOO_MANY_PRINCIPALS :: ulong where "SEC_E_TOO_MANY_PRINCIPALS \<equiv> 0x8009033b"
abbreviation SEC_E_NO_PA_DATA :: ulong where "SEC_E_NO_PA_DATA \<equiv> 0x8009033c"
abbreviation SEC_E_PKINIT_NAME_MISMATCH :: ulong where "SEC_E_PKINIT_NAME_MISMATCH \<equiv> 0x8009033d"
abbreviation SEC_E_SMARTCARD_LOGON_REQUIRED :: ulong where "SEC_E_SMARTCARD_LOGON_REQUIRED \<equiv> 0x8009033e"
abbreviation SEC_E_KDC_INVALID_REQUEST :: ulong where "SEC_E_KDC_INVALID_REQUEST \<equiv> 0x80090340"
abbreviation SEC_E_KDC_UNABLE_TO_REFER :: ulong where "SEC_E_KDC_UNABLE_TO_REFER \<equiv> 0x80090341"
abbreviation SEC_E_KDC_UNKNOWN_ETYPE :: ulong where "SEC_E_KDC_UNKNOWN_ETYPE \<equiv> 0x80090342"
abbreviation ERROR_SHUTDOWN_IN_PROGRESS :: ulong where "ERROR_SHUTDOWN_IN_PROGRESS \<equiv> 1115"
abbreviation ERROR_SERVER_SHUTDOWN_IN_PROGRESS :: ulong where "ERROR_SERVER_SHUTDOWN_IN_PROGRESS \<equiv> 1255"
abbreviation ERROR_NOT_SUPPORTED_ON_SBS :: ulong where "ERROR_NOT_SUPPORTED_ON_SBS \<equiv> 1254"
abbreviation ERROR_WMI_GUID_DISCONNECTED :: ulong where "ERROR_WMI_GUID_DISCONNECTED \<equiv> 4207"
abbreviation ERROR_WMI_ALREADY_DISABLED :: ulong where "ERROR_WMI_ALREADY_DISABLED \<equiv> 4212"
abbreviation ERROR_WMI_ALREADY_ENABLED :: ulong where "ERROR_WMI_ALREADY_ENABLED \<equiv> 4206"
abbreviation ERROR_DISK_TOO_FRAGMENTED :: ulong where "ERROR_DISK_TOO_FRAGMENTED \<equiv> 302"
abbreviation STG_E_STATUS_COPY_PROTECTION_FAILURE :: ulong where "STG_E_STATUS_COPY_PROTECTION_FAILURE \<equiv> 0x80030305"
abbreviation STG_E_CSS_AUTHENTICATION_FAILURE :: ulong where "STG_E_CSS_AUTHENTICATION_FAILURE \<equiv> 0x80030306"
abbreviation STG_E_CSS_KEY_NOT_PRESENT :: ulong where "STG_E_CSS_KEY_NOT_PRESENT \<equiv> 0x80030307"
abbreviation STG_E_CSS_KEY_NOT_ESTABLISHED :: ulong where "STG_E_CSS_KEY_NOT_ESTABLISHED \<equiv> 0x80030308"
abbreviation STG_E_CSS_SCRAMBLED_SECTOR :: ulong where "STG_E_CSS_SCRAMBLED_SECTOR \<equiv> 0x80030309"
abbreviation STG_E_CSS_REGION_MISMATCH :: ulong where "STG_E_CSS_REGION_MISMATCH \<equiv> 0x8003030a"
abbreviation STG_E_RESETS_EXHAUSTED :: ulong where "STG_E_RESETS_EXHAUSTED \<equiv> 0x8003030b"
abbreviation ERROR_PKINIT_FAILURE :: ulong where "ERROR_PKINIT_FAILURE \<equiv> 1263"
abbreviation ERROR_SMARTCARD_SUBSYSTEM_FAILURE :: ulong where "ERROR_SMARTCARD_SUBSYSTEM_FAILURE \<equiv> 1264"
abbreviation SEC_E_NO_KERB_KEY :: ulong where "SEC_E_NO_KERB_KEY \<equiv> 0x80090348"
abbreviation ERROR_HOST_DOWN :: ulong where "ERROR_HOST_DOWN \<equiv> 1256"
abbreviation SEC_E_UNSUPPORTED_PREAUTH :: ulong where "SEC_E_UNSUPPORTED_PREAUTH \<equiv> 0x80090343"
abbreviation ERROR_EFS_ALG_BLOB_TOO_BIG :: ulong where "ERROR_EFS_ALG_BLOB_TOO_BIG \<equiv> 6013"
abbreviation ERROR_AUDITING_DISABLED :: ulong where "ERROR_AUDITING_DISABLED \<equiv> 0xc0090001"
abbreviation ERROR_DS_MACHINE_ACCOUNT_CREATED_PRENT4 :: ulong where "ERROR_DS_MACHINE_ACCOUNT_CREATED_PRENT4 \<equiv> 8572"
abbreviation ERROR_DS_AG_CANT_HAVE_UNIVERSAL_MEMBER :: ulong where "ERROR_DS_AG_CANT_HAVE_UNIVERSAL_MEMBER \<equiv> 8578"
abbreviation SEC_E_BAD_BINDINGS :: ulong where "SEC_E_BAD_BINDINGS \<equiv> 0x80090346"
abbreviation ERROR_ACCESS_DISABLED_BY_POLICY :: ulong where "ERROR_ACCESS_DISABLED_BY_POLICY \<equiv> 1260"
abbreviation ERROR_DRIVER_BLOCKED :: ulong where "ERROR_DRIVER_BLOCKED \<equiv> 1275"
abbreviation ERROR_INVALID_IMPORT_OF_NON_DLL :: ulong where "ERROR_INVALID_IMPORT_OF_NON_DLL \<equiv> 1276"
abbreviation SCARD_W_WRONG_CHV :: ulong where "SCARD_W_WRONG_CHV \<equiv> 0x8010006b"
abbreviation SCARD_W_CHV_BLOCKED :: ulong where "SCARD_W_CHV_BLOCKED \<equiv> 0x8010006c"
abbreviation SCARD_W_CARD_NOT_AUTHENTICATED :: ulong where "SCARD_W_CARD_NOT_AUTHENTICATED \<equiv> 0x8010006f"
abbreviation SCARD_E_NO_SMARTCARD :: ulong where "SCARD_E_NO_SMARTCARD \<equiv> 0x8010000c"
abbreviation NTE_NO_KEY :: ulong where "NTE_NO_KEY \<equiv> 0x8009000d"
abbreviation SCARD_E_NO_SUCH_CERTIFICATE :: ulong where "SCARD_E_NO_SUCH_CERTIFICATE \<equiv> 0x8010002c"
abbreviation NTE_BAD_KEYSET :: ulong where "NTE_BAD_KEYSET \<equiv> 0x80090016"
abbreviation SCARD_E_COMM_DATA_LOST :: ulong where "SCARD_E_COMM_DATA_LOST \<equiv> 0x8010002f"
abbreviation ERROR_DOWNGRADE_DETECTED :: ulong where "ERROR_DOWNGRADE_DETECTED \<equiv> 1265"
abbreviation SEC_E_SMARTCARD_CERT_REVOKED :: ulong where "SEC_E_SMARTCARD_CERT_REVOKED \<equiv> 0x80090351"
abbreviation SEC_E_ISSUING_CA_UNTRUSTED :: ulong where "SEC_E_ISSUING_CA_UNTRUSTED \<equiv> 0x80090352"
abbreviation SEC_E_REVOCATION_OFFLINE_C :: ulong where "SEC_E_REVOCATION_OFFLINE_C \<equiv> 0x80090353"
abbreviation SEC_E_PKINIT_CLIENT_FAILURE :: ulong where "SEC_E_PKINIT_CLIENT_FAILURE \<equiv> 0x80090354"
abbreviation SEC_E_SMARTCARD_CERT_EXPIRED :: ulong where "SEC_E_SMARTCARD_CERT_EXPIRED \<equiv> 0x80090355"
abbreviation RPC_S_INVALID_STRING_BINDING :: ulong where "RPC_S_INVALID_STRING_BINDING \<equiv> 1700"
abbreviation RPC_S_WRONG_KIND_OF_BINDING :: ulong where "RPC_S_WRONG_KIND_OF_BINDING \<equiv> 1701"
abbreviation RPC_S_PROTSEQ_NOT_SUPPORTED :: ulong where "RPC_S_PROTSEQ_NOT_SUPPORTED \<equiv> 1703"
abbreviation RPC_S_INVALID_RPC_PROTSEQ :: ulong where "RPC_S_INVALID_RPC_PROTSEQ \<equiv> 1704"
abbreviation RPC_S_INVALID_STRING_UUID :: ulong where "RPC_S_INVALID_STRING_UUID \<equiv> 1705"
abbreviation RPC_S_INVALID_ENDPOINT_FORMAT :: ulong where "RPC_S_INVALID_ENDPOINT_FORMAT \<equiv> 1706"
abbreviation RPC_S_INVALID_NET_ADDR :: ulong where "RPC_S_INVALID_NET_ADDR \<equiv> 1707"
abbreviation RPC_S_NO_ENDPOINT_FOUND :: ulong where "RPC_S_NO_ENDPOINT_FOUND \<equiv> 1708"
abbreviation RPC_S_INVALID_TIMEOUT :: ulong where "RPC_S_INVALID_TIMEOUT \<equiv> 1709"
abbreviation RPC_S_OBJECT_NOT_FOUND :: ulong where "RPC_S_OBJECT_NOT_FOUND \<equiv> 1710"
abbreviation RPC_S_ALREADY_REGISTERED :: ulong where "RPC_S_ALREADY_REGISTERED \<equiv> 1711"
abbreviation RPC_S_TYPE_ALREADY_REGISTERED :: ulong where "RPC_S_TYPE_ALREADY_REGISTERED \<equiv> 1712"
abbreviation RPC_S_ALREADY_LISTENING :: ulong where "RPC_S_ALREADY_LISTENING \<equiv> 1713"
abbreviation RPC_S_NO_PROTSEQS_REGISTERED :: ulong where "RPC_S_NO_PROTSEQS_REGISTERED \<equiv> 1714"
abbreviation RPC_S_NOT_LISTENING :: ulong where "RPC_S_NOT_LISTENING \<equiv> 1715"
abbreviation RPC_S_UNKNOWN_MGR_TYPE :: ulong where "RPC_S_UNKNOWN_MGR_TYPE \<equiv> 1716"
abbreviation RPC_S_UNKNOWN_IF :: ulong where "RPC_S_UNKNOWN_IF \<equiv> 1717"
abbreviation RPC_S_NO_BINDINGS :: ulong where "RPC_S_NO_BINDINGS \<equiv> 1718"
abbreviation RPC_S_NO_PROTSEQS :: ulong where "RPC_S_NO_PROTSEQS \<equiv> 1719"
abbreviation RPC_S_CANT_CREATE_ENDPOINT :: ulong where "RPC_S_CANT_CREATE_ENDPOINT \<equiv> 1720"
abbreviation RPC_S_OUT_OF_RESOURCES :: ulong where "RPC_S_OUT_OF_RESOURCES \<equiv> 1721"
abbreviation RPC_S_SERVER_UNAVAILABLE :: ulong where "RPC_S_SERVER_UNAVAILABLE \<equiv> 1722"
abbreviation RPC_S_SERVER_TOO_BUSY :: ulong where "RPC_S_SERVER_TOO_BUSY \<equiv> 1723"
abbreviation RPC_S_INVALID_NETWORK_OPTIONS :: ulong where "RPC_S_INVALID_NETWORK_OPTIONS \<equiv> 1724"
abbreviation RPC_S_NO_CALL_ACTIVE :: ulong where "RPC_S_NO_CALL_ACTIVE \<equiv> 1725"
abbreviation RPC_S_CALL_FAILED :: ulong where "RPC_S_CALL_FAILED \<equiv> 1726"
abbreviation RPC_S_CALL_FAILED_DNE :: ulong where "RPC_S_CALL_FAILED_DNE \<equiv> 1727"
abbreviation RPC_S_PROTOCOL_ERROR :: ulong where "RPC_S_PROTOCOL_ERROR \<equiv> 1728"
abbreviation RPC_S_UNSUPPORTED_TRANS_SYN :: ulong where "RPC_S_UNSUPPORTED_TRANS_SYN \<equiv> 1730"
abbreviation RPC_S_UNSUPPORTED_TYPE :: ulong where "RPC_S_UNSUPPORTED_TYPE \<equiv> 1732"
abbreviation RPC_S_INVALID_TAG :: ulong where "RPC_S_INVALID_TAG \<equiv> 1733"
abbreviation RPC_S_INVALID_BOUND :: ulong where "RPC_S_INVALID_BOUND \<equiv> 1734"
abbreviation RPC_S_NO_ENTRY_NAME :: ulong where "RPC_S_NO_ENTRY_NAME \<equiv> 1735"
abbreviation RPC_S_INVALID_NAME_SYNTAX :: ulong where "RPC_S_INVALID_NAME_SYNTAX \<equiv> 1736"
abbreviation RPC_S_UNSUPPORTED_NAME_SYNTAX :: ulong where "RPC_S_UNSUPPORTED_NAME_SYNTAX \<equiv> 1737"
abbreviation RPC_S_UUID_NO_ADDRESS :: ulong where "RPC_S_UUID_NO_ADDRESS \<equiv> 1739"
abbreviation RPC_S_DUPLICATE_ENDPOINT :: ulong where "RPC_S_DUPLICATE_ENDPOINT \<equiv> 1740"
abbreviation RPC_S_UNKNOWN_AUTHN_TYPE :: ulong where "RPC_S_UNKNOWN_AUTHN_TYPE \<equiv> 1741"
abbreviation RPC_S_MAX_CALLS_TOO_SMALL :: ulong where "RPC_S_MAX_CALLS_TOO_SMALL \<equiv> 1742"
abbreviation RPC_S_STRING_TOO_LONG :: ulong where "RPC_S_STRING_TOO_LONG \<equiv> 1743"
abbreviation RPC_S_PROTSEQ_NOT_FOUND :: ulong where "RPC_S_PROTSEQ_NOT_FOUND \<equiv> 1744"
abbreviation RPC_S_PROCNUM_OUT_OF_RANGE :: ulong where "RPC_S_PROCNUM_OUT_OF_RANGE \<equiv> 1745"
abbreviation RPC_S_BINDING_HAS_NO_AUTH :: ulong where "RPC_S_BINDING_HAS_NO_AUTH \<equiv> 1746"
abbreviation RPC_S_UNKNOWN_AUTHN_SERVICE :: ulong where "RPC_S_UNKNOWN_AUTHN_SERVICE \<equiv> 1747"
abbreviation RPC_S_UNKNOWN_AUTHN_LEVEL :: ulong where "RPC_S_UNKNOWN_AUTHN_LEVEL \<equiv> 1748"
abbreviation RPC_S_INVALID_AUTH_IDENTITY :: ulong where "RPC_S_INVALID_AUTH_IDENTITY \<equiv> 1749"
abbreviation RPC_S_UNKNOWN_AUTHZ_SERVICE :: ulong where "RPC_S_UNKNOWN_AUTHZ_SERVICE \<equiv> 1750"
abbreviation EPT_S_INVALID_ENTRY :: ulong where "EPT_S_INVALID_ENTRY \<equiv> 1751"
abbreviation EPT_S_CANT_PERFORM_OP :: ulong where "EPT_S_CANT_PERFORM_OP \<equiv> 1752"
abbreviation EPT_S_NOT_REGISTERED :: ulong where "EPT_S_NOT_REGISTERED \<equiv> 1753"
abbreviation RPC_S_NOTHING_TO_EXPORT :: ulong where "RPC_S_NOTHING_TO_EXPORT \<equiv> 1754"
abbreviation RPC_S_INCOMPLETE_NAME :: ulong where "RPC_S_INCOMPLETE_NAME \<equiv> 1755"
abbreviation RPC_S_INVALID_VERS_OPTION :: ulong where "RPC_S_INVALID_VERS_OPTION \<equiv> 1756"
abbreviation RPC_S_NO_MORE_MEMBERS :: ulong where "RPC_S_NO_MORE_MEMBERS \<equiv> 1757"
abbreviation RPC_S_NOT_ALL_OBJS_UNEXPORTED :: ulong where "RPC_S_NOT_ALL_OBJS_UNEXPORTED \<equiv> 1758"
abbreviation RPC_S_INTERFACE_NOT_FOUND :: ulong where "RPC_S_INTERFACE_NOT_FOUND \<equiv> 1759"
abbreviation RPC_S_ENTRY_ALREADY_EXISTS :: ulong where "RPC_S_ENTRY_ALREADY_EXISTS \<equiv> 1760"
abbreviation RPC_S_ENTRY_NOT_FOUND :: ulong where "RPC_S_ENTRY_NOT_FOUND \<equiv> 1761"
abbreviation RPC_S_NAME_SERVICE_UNAVAILABLE :: ulong where "RPC_S_NAME_SERVICE_UNAVAILABLE \<equiv> 1762"
abbreviation RPC_S_INVALID_NAF_ID :: ulong where "RPC_S_INVALID_NAF_ID \<equiv> 1763"
abbreviation RPC_S_CANNOT_SUPPORT :: ulong where "RPC_S_CANNOT_SUPPORT \<equiv> 1764"
abbreviation RPC_S_NO_CONTEXT_AVAILABLE :: ulong where "RPC_S_NO_CONTEXT_AVAILABLE \<equiv> 1765"
abbreviation RPC_S_INTERNAL_ERROR :: ulong where "RPC_S_INTERNAL_ERROR \<equiv> 1766"
abbreviation RPC_S_ZERO_DIVIDE :: ulong where "RPC_S_ZERO_DIVIDE \<equiv> 1767"
abbreviation RPC_S_ADDRESS_ERROR :: ulong where "RPC_S_ADDRESS_ERROR \<equiv> 1768"
abbreviation RPC_S_FP_DIV_ZERO :: ulong where "RPC_S_FP_DIV_ZERO \<equiv> 1769"
abbreviation RPC_S_FP_UNDERFLOW :: ulong where "RPC_S_FP_UNDERFLOW \<equiv> 1770"
abbreviation RPC_S_FP_OVERFLOW :: ulong where "RPC_S_FP_OVERFLOW \<equiv> 1771"
abbreviation RPC_S_CALL_IN_PROGRESS :: ulong where "RPC_S_CALL_IN_PROGRESS \<equiv> 1791"
abbreviation RPC_S_NO_MORE_BINDINGS :: ulong where "RPC_S_NO_MORE_BINDINGS \<equiv> 1806"
abbreviation RPC_S_GROUP_MEMBER_NOT_FOUND :: ulong where "RPC_S_GROUP_MEMBER_NOT_FOUND \<equiv> 1898"
abbreviation EPT_S_CANT_CREATE :: ulong where "EPT_S_CANT_CREATE \<equiv> 1899"
abbreviation RPC_S_INVALID_OBJECT :: ulong where "RPC_S_INVALID_OBJECT \<equiv> 1900"
abbreviation RPC_S_NO_INTERFACES :: ulong where "RPC_S_NO_INTERFACES \<equiv> 1817"
abbreviation RPC_S_CALL_CANCELLED :: ulong where "RPC_S_CALL_CANCELLED \<equiv> 1818"
abbreviation RPC_S_BINDING_INCOMPLETE :: ulong where "RPC_S_BINDING_INCOMPLETE \<equiv> 1819"
abbreviation RPC_S_COMM_FAILURE :: ulong where "RPC_S_COMM_FAILURE \<equiv> 1820"
abbreviation RPC_S_UNSUPPORTED_AUTHN_LEVEL :: ulong where "RPC_S_UNSUPPORTED_AUTHN_LEVEL \<equiv> 1821"
abbreviation RPC_S_NO_PRINC_NAME :: ulong where "RPC_S_NO_PRINC_NAME \<equiv> 1822"
abbreviation RPC_S_NOT_RPC_ERROR :: ulong where "RPC_S_NOT_RPC_ERROR \<equiv> 1823"
abbreviation RPC_S_SEC_PKG_ERROR :: ulong where "RPC_S_SEC_PKG_ERROR \<equiv> 1825"
abbreviation RPC_S_NOT_CANCELLED :: ulong where "RPC_S_NOT_CANCELLED \<equiv> 1826"
abbreviation RPC_S_INVALID_ASYNC_HANDLE :: ulong where "RPC_S_INVALID_ASYNC_HANDLE \<equiv> 1914"
abbreviation RPC_S_INVALID_ASYNC_CALL :: ulong where "RPC_S_INVALID_ASYNC_CALL \<equiv> 1915"
abbreviation RPC_X_NO_MORE_ENTRIES :: ulong where "RPC_X_NO_MORE_ENTRIES \<equiv> 1772"
abbreviation RPC_X_SS_CHAR_TRANS_OPEN_FAIL :: ulong where "RPC_X_SS_CHAR_TRANS_OPEN_FAIL \<equiv> 1773"
abbreviation RPC_X_SS_CHAR_TRANS_SHORT_FILE :: ulong where "RPC_X_SS_CHAR_TRANS_SHORT_FILE \<equiv> 1774"
abbreviation RPC_X_SS_CONTEXT_DAMAGED :: ulong where "RPC_X_SS_CONTEXT_DAMAGED \<equiv> 1777"
abbreviation RPC_X_SS_HANDLES_MISMATCH :: ulong where "RPC_X_SS_HANDLES_MISMATCH \<equiv> 1778"
abbreviation RPC_X_SS_CANNOT_GET_CALL_HANDLE :: ulong where "RPC_X_SS_CANNOT_GET_CALL_HANDLE \<equiv> 1779"
abbreviation RPC_X_NULL_REF_POINTER :: ulong where "RPC_X_NULL_REF_POINTER \<equiv> 1780"
abbreviation RPC_X_ENUM_VALUE_OUT_OF_RANGE :: ulong where "RPC_X_ENUM_VALUE_OUT_OF_RANGE \<equiv> 1781"
abbreviation RPC_X_BYTE_COUNT_TOO_SMALL :: ulong where "RPC_X_BYTE_COUNT_TOO_SMALL \<equiv> 1782"
abbreviation RPC_X_BAD_STUB_DATA :: ulong where "RPC_X_BAD_STUB_DATA \<equiv> 1783"
abbreviation RPC_X_INVALID_ES_ACTION :: ulong where "RPC_X_INVALID_ES_ACTION \<equiv> 1827"
abbreviation RPC_X_WRONG_ES_VERSION :: ulong where "RPC_X_WRONG_ES_VERSION \<equiv> 1828"
abbreviation RPC_X_WRONG_STUB_VERSION :: ulong where "RPC_X_WRONG_STUB_VERSION \<equiv> 1829"
abbreviation RPC_X_INVALID_PIPE_OBJECT :: ulong where "RPC_X_INVALID_PIPE_OBJECT \<equiv> 1830"
abbreviation RPC_X_WRONG_PIPE_ORDER :: ulong where "RPC_X_WRONG_PIPE_ORDER \<equiv> 1831"
abbreviation RPC_X_WRONG_PIPE_VERSION :: ulong where "RPC_X_WRONG_PIPE_VERSION \<equiv> 1832"
abbreviation RPC_X_PIPE_CLOSED :: ulong where "RPC_X_PIPE_CLOSED \<equiv> 1916"
abbreviation RPC_X_PIPE_DISCIPLINE_ERROR :: ulong where "RPC_X_PIPE_DISCIPLINE_ERROR \<equiv> 1917"
abbreviation RPC_X_PIPE_EMPTY :: ulong where "RPC_X_PIPE_EMPTY \<equiv> 1918"
abbreviation ERROR_CTX_WINSTATION_NAME_INVALID :: ulong where "ERROR_CTX_WINSTATION_NAME_INVALID \<equiv> 7001"
abbreviation ERROR_CTX_INVALID_PD :: ulong where "ERROR_CTX_INVALID_PD \<equiv> 7002"
abbreviation ERROR_CTX_PD_NOT_FOUND :: ulong where "ERROR_CTX_PD_NOT_FOUND \<equiv> 7003"
abbreviation ERROR_CTX_CLOSE_PENDING :: ulong where "ERROR_CTX_CLOSE_PENDING \<equiv> 7007"
abbreviation ERROR_CTX_NO_OUTBUF :: ulong where "ERROR_CTX_NO_OUTBUF \<equiv> 7008"
abbreviation ERROR_CTX_MODEM_INF_NOT_FOUND :: ulong where "ERROR_CTX_MODEM_INF_NOT_FOUND \<equiv> 7009"
abbreviation ERROR_CTX_INVALID_MODEMNAME :: ulong where "ERROR_CTX_INVALID_MODEMNAME \<equiv> 7010"
abbreviation ERROR_CTX_MODEM_RESPONSE_ERROR :: ulong where "ERROR_CTX_MODEM_RESPONSE_ERROR \<equiv> 7011"
abbreviation ERROR_CTX_MODEM_RESPONSE_TIMEOUT :: ulong where "ERROR_CTX_MODEM_RESPONSE_TIMEOUT \<equiv> 7012"
abbreviation ERROR_CTX_MODEM_RESPONSE_NO_CARRIER :: ulong where "ERROR_CTX_MODEM_RESPONSE_NO_CARRIER \<equiv> 7013"
abbreviation ERROR_CTX_MODEM_RESPONSE_NO_DIALTONE :: ulong where "ERROR_CTX_MODEM_RESPONSE_NO_DIALTONE \<equiv> 7014"
abbreviation ERROR_CTX_MODEM_RESPONSE_BUSY :: ulong where "ERROR_CTX_MODEM_RESPONSE_BUSY \<equiv> 7015"
abbreviation ERROR_CTX_MODEM_RESPONSE_VOICE :: ulong where "ERROR_CTX_MODEM_RESPONSE_VOICE \<equiv> 7016"
abbreviation ERROR_CTX_TD_ERROR :: ulong where "ERROR_CTX_TD_ERROR \<equiv> 7017"
abbreviation ERROR_CTX_LICENSE_CLIENT_INVALID :: ulong where "ERROR_CTX_LICENSE_CLIENT_INVALID \<equiv> 7055"
abbreviation ERROR_CTX_LICENSE_EXPIRED :: ulong where "ERROR_CTX_LICENSE_EXPIRED \<equiv> 7056"
abbreviation ERROR_CTX_WINSTATION_NOT_FOUND :: ulong where "ERROR_CTX_WINSTATION_NOT_FOUND \<equiv> 7022"
abbreviation ERROR_CTX_WINSTATION_ALREADY_EXISTS :: ulong where "ERROR_CTX_WINSTATION_ALREADY_EXISTS \<equiv> 7023"
abbreviation ERROR_CTX_WINSTATION_BUSY :: ulong where "ERROR_CTX_WINSTATION_BUSY \<equiv> 7024"
abbreviation ERROR_CTX_BAD_VIDEO_MODE :: ulong where "ERROR_CTX_BAD_VIDEO_MODE \<equiv> 7025"
abbreviation ERROR_CTX_GRAPHICS_INVALID :: ulong where "ERROR_CTX_GRAPHICS_INVALID \<equiv> 7035"
abbreviation ERROR_CTX_NOT_CONSOLE :: ulong where "ERROR_CTX_NOT_CONSOLE \<equiv> 7038"
abbreviation ERROR_CTX_CLIENT_QUERY_TIMEOUT :: ulong where "ERROR_CTX_CLIENT_QUERY_TIMEOUT \<equiv> 7040"
abbreviation ERROR_CTX_CONSOLE_DISCONNECT :: ulong where "ERROR_CTX_CONSOLE_DISCONNECT \<equiv> 7041"
abbreviation ERROR_CTX_CONSOLE_CONNECT :: ulong where "ERROR_CTX_CONSOLE_CONNECT \<equiv> 7042"
abbreviation ERROR_CTX_SHADOW_DENIED :: ulong where "ERROR_CTX_SHADOW_DENIED \<equiv> 7044"
abbreviation ERROR_CTX_WINSTATION_ACCESS_DENIED :: ulong where "ERROR_CTX_WINSTATION_ACCESS_DENIED \<equiv> 7045"
abbreviation ERROR_CTX_INVALID_WD :: ulong where "ERROR_CTX_INVALID_WD \<equiv> 7049"
abbreviation ERROR_CTX_WD_NOT_FOUND :: ulong where "ERROR_CTX_WD_NOT_FOUND \<equiv> 7004"
abbreviation ERROR_CTX_SHADOW_INVALID :: ulong where "ERROR_CTX_SHADOW_INVALID \<equiv> 7050"
abbreviation ERROR_CTX_SHADOW_DISABLED :: ulong where "ERROR_CTX_SHADOW_DISABLED \<equiv> 7051"
abbreviation ERROR_CTX_CLIENT_LICENSE_NOT_SET :: ulong where "ERROR_CTX_CLIENT_LICENSE_NOT_SET \<equiv> 7053"
abbreviation ERROR_CTX_CLIENT_LICENSE_IN_USE :: ulong where "ERROR_CTX_CLIENT_LICENSE_IN_USE \<equiv> 7052"
abbreviation ERROR_CTX_SHADOW_ENDED_BY_MODE_CHANGE :: ulong where "ERROR_CTX_SHADOW_ENDED_BY_MODE_CHANGE \<equiv> 7058"
abbreviation ERROR_CTX_SHADOW_NOT_RUNNING :: ulong where "ERROR_CTX_SHADOW_NOT_RUNNING \<equiv> 7057"
abbreviation ERROR_CLUSTER_INVALID_NODE :: ulong where "ERROR_CLUSTER_INVALID_NODE \<equiv> 5039"
abbreviation ERROR_CLUSTER_NODE_EXISTS :: ulong where "ERROR_CLUSTER_NODE_EXISTS \<equiv> 5040"
abbreviation ERROR_CLUSTER_JOIN_IN_PROGRESS :: ulong where "ERROR_CLUSTER_JOIN_IN_PROGRESS \<equiv> 5041"
abbreviation ERROR_CLUSTER_NODE_NOT_FOUND :: ulong where "ERROR_CLUSTER_NODE_NOT_FOUND \<equiv> 5042"
abbreviation ERROR_CLUSTER_LOCAL_NODE_NOT_FOUND :: ulong where "ERROR_CLUSTER_LOCAL_NODE_NOT_FOUND \<equiv> 5043"
abbreviation ERROR_CLUSTER_NETWORK_EXISTS :: ulong where "ERROR_CLUSTER_NETWORK_EXISTS \<equiv> 5044"
abbreviation ERROR_CLUSTER_NETWORK_NOT_FOUND :: ulong where "ERROR_CLUSTER_NETWORK_NOT_FOUND \<equiv> 5045"
abbreviation ERROR_CLUSTER_NETINTERFACE_EXISTS :: ulong where "ERROR_CLUSTER_NETINTERFACE_EXISTS \<equiv> 5046"
abbreviation ERROR_CLUSTER_NETINTERFACE_NOT_FOUND :: ulong where "ERROR_CLUSTER_NETINTERFACE_NOT_FOUND \<equiv> 5047"
abbreviation ERROR_CLUSTER_INVALID_REQUEST :: ulong where "ERROR_CLUSTER_INVALID_REQUEST \<equiv> 5048"
abbreviation ERROR_CLUSTER_INVALID_NETWORK_PROVIDER :: ulong where "ERROR_CLUSTER_INVALID_NETWORK_PROVIDER \<equiv> 5049"
abbreviation ERROR_CLUSTER_NODE_DOWN :: ulong where "ERROR_CLUSTER_NODE_DOWN \<equiv> 5050"
abbreviation ERROR_CLUSTER_NODE_UNREACHABLE :: ulong where "ERROR_CLUSTER_NODE_UNREACHABLE \<equiv> 5051"
abbreviation ERROR_CLUSTER_NODE_NOT_MEMBER :: ulong where "ERROR_CLUSTER_NODE_NOT_MEMBER \<equiv> 5052"
abbreviation ERROR_CLUSTER_JOIN_NOT_IN_PROGRESS :: ulong where "ERROR_CLUSTER_JOIN_NOT_IN_PROGRESS \<equiv> 5053"
abbreviation ERROR_CLUSTER_INVALID_NETWORK :: ulong where "ERROR_CLUSTER_INVALID_NETWORK \<equiv> 5054"
abbreviation ERROR_CLUSTER_NODE_UP :: ulong where "ERROR_CLUSTER_NODE_UP \<equiv> 5056"
abbreviation ERROR_CLUSTER_NODE_PAUSED :: ulong where "ERROR_CLUSTER_NODE_PAUSED \<equiv> 5070"
abbreviation ERROR_CLUSTER_NODE_NOT_PAUSED :: ulong where "ERROR_CLUSTER_NODE_NOT_PAUSED \<equiv> 5058"
abbreviation ERROR_CLUSTER_NO_SECURITY_CONTEXT :: ulong where "ERROR_CLUSTER_NO_SECURITY_CONTEXT \<equiv> 5059"
abbreviation ERROR_CLUSTER_NETWORK_NOT_INTERNAL :: ulong where "ERROR_CLUSTER_NETWORK_NOT_INTERNAL \<equiv> 5060"
abbreviation ERROR_SXS_SECTION_NOT_FOUND :: ulong where "ERROR_SXS_SECTION_NOT_FOUND \<equiv> 14000"
abbreviation ERROR_SXS_CANT_GEN_ACTCTX :: ulong where "ERROR_SXS_CANT_GEN_ACTCTX \<equiv> 14001"
abbreviation ERROR_SXS_INVALID_ACTCTXDATA_FORMAT :: ulong where "ERROR_SXS_INVALID_ACTCTXDATA_FORMAT \<equiv> 14002"
abbreviation ERROR_SXS_ASSEMBLY_NOT_FOUND :: ulong where "ERROR_SXS_ASSEMBLY_NOT_FOUND \<equiv> 14003"
abbreviation ERROR_SXS_MANIFEST_FORMAT_ERROR :: ulong where "ERROR_SXS_MANIFEST_FORMAT_ERROR \<equiv> 14004"
abbreviation ERROR_SXS_MANIFEST_PARSE_ERROR :: ulong where "ERROR_SXS_MANIFEST_PARSE_ERROR \<equiv> 14005"
abbreviation ERROR_SXS_ACTIVATION_CONTEXT_DISABLED :: ulong where "ERROR_SXS_ACTIVATION_CONTEXT_DISABLED \<equiv> 14006"
abbreviation ERROR_SXS_KEY_NOT_FOUND :: ulong where "ERROR_SXS_KEY_NOT_FOUND \<equiv> 14007"
abbreviation ERROR_SXS_WRONG_SECTION_TYPE :: ulong where "ERROR_SXS_WRONG_SECTION_TYPE \<equiv> 14009"
abbreviation ERROR_SXS_THREAD_QUERIES_DISABLED :: ulong where "ERROR_SXS_THREAD_QUERIES_DISABLED \<equiv> 14010"
abbreviation ERROR_SXS_PROCESS_DEFAULT_ALREADY_SET :: ulong where "ERROR_SXS_PROCESS_DEFAULT_ALREADY_SET \<equiv> 14011"

end
