(* ===== verification/NtError.thy ===== *)
theory NtError
  imports ErrorCodes
begin

text \<open>
  \<open>RtlNtStatusToDosError\<close> of \<open>src/src/ntdll/error.c\<close>, with its conversion tables. Each table is the
  list of its initialisers in order; \<open>error_table\<close> lists the ranges of status codes they cover
  and ends with the entry that stops the search.
\<close>

section \<open>Conversion tables\<close>

definition table_00000103 :: "ulong list" where
  "table_00000103 =
     [ERROR_IO_PENDING,
      ERROR_MR_MID_NOT_FOUND,
      ERROR_MORE_DATA,
      ERROR_NOT_ALL_ASSIGNED,
      ERROR_SOME_NOT_MAPPED,
      ERROR_MR_MID_NOT_FOUND,
      ERROR_MR_MID_NOT_FOUND,
      ERROR_MR_MID_NOT_FOUND,
      ERROR_MR_MID_NOT_FOUND,
      ERROR_NOTIFY_ENUM_DIR,
      ERROR_NO_QUOTAS_FOR_ACCOUNT,
      ERROR_MR_MID_NOT_FOUND,
      ERROR_MR_MID_NOT_FOUND,
      ERROR_MR_MID_NOT_FOUND,
      ERROR_MR_MID_NOT_FOUND,
      ERROR_MR_MID_NOT_FOUND,
      ERROR_MR_MID_NOT_FOUND,
      ERROR_MR_MID_NOT_FOUND,
      ERROR_MR_MID_NOT_FOUND,
      ERROR_MR_MID_NOT_FOUND,
      ERROR_MR_MID_NOT_FOUND,
      ERROR_MR_MID_NOT_FOUND,
      ERROR_MR_MID_NOT_FOUND,
      ERROR_MR_MID_NOT_FOUND,
      ERROR_MR_MID_NOT_FOUND,
      ERROR_MR_MID_NOT_FOUND,
      ERROR_MR_MID_NOT_FOUND,
      ERROR_MR_MID_NOT_FOUND,
      ERROR_MR_MID_NOT_FOUND,
      ERROR_MR_MID_NOT_FOUND,
      ERROR_DS_MEMBERSHIP_EVALUATED_LOCALLY]"

definition table_40000002 :: "ulong list" where
  "table_40000002 =
     [ERROR_INVALID_PARAMETER,
      ERROR_MR_MID_NOT_FOUND,
      ERROR_MR_MID_NOT_FOUND,
      ERROR_MR_MID_NOT_FOUND,
      ERROR_LOCAL_USER_SESSION_KEY,
      ERROR_MR_MID_NOT_FOUND,
      ERROR_MORE_WRITES,
      ERROR_REGISTRY_RECOVERED,
      ERROR_MR_MID_NOT_FOUND,
      ERROR_MR_MID_NOT_FOUND,
      ERROR_COUNTER_TIMEOUT,
      ERROR_NULL_LM_PASSWORD]"

definition table_40000370 :: "ulong list" where
  "table_40000370 =
     [ERROR_DS_SHUTTING_DOWN]"

definition table_40020056 :: "ulong list" where
  "table_40020056 =
     [RPC_S_UUID_LOCAL_ONLY]"

definition table_400200af :: "ulong list" where
  "table_400200af =
     [RPC_S_SEND_INCOMPLETE]"

definition table_80000001 :: "ulong list" where
  "table_80000001 =
     [STATUS_GUARD_PAGE_VIOLATION,
      ERROR_NOACCESS,
      STATUS_BREAKPOINT,
      STATUS_SINGLE_STEP,
      ERROR_MORE_DATA,
      ERROR_NO_MORE_FILES,
      ERROR_MR_MID_NOT_FOUND,
      ERROR_MR_MID_NOT_FOUND,
      ERROR_MR_MID_NOT_FOUND,
      ERROR_MR_MID_NOT_FOUND,
      ERROR_NO_INHERITANCE,
      ERROR_MR_MID_NOT_FOUND,
      ERROR_PARTIAL_COPY,
      ERROR_OUT_OF_PAPER,
      ERROR_NOT_READY,
      ERROR_NOT_READY,
      ERROR_BUSY,
      ERROR_NO_MORE_ITEMS,
      ERROR_INVALID_EA_NAME,
      ERROR_EA_LIST_INCONSISTENT,
      ERROR_EA_LIST_INCONSISTENT,
      ERROR_MEDIA_CHANGED,
      ERROR_MR_MID_NOT_FOUND,
      ERROR_MR_MID_NOT_FOUND,
      ERROR_MR_MID_NOT_FOUND,
      ERROR_NO_MORE_ITEMS,
      ERROR_FILEMARK_DETECTED,
      ERROR_MEDIA_CHANGED,
      ERROR_BUS_RESET,
      ERROR_END_OF_MEDIA,
      ERROR_BEGINNING_OF_MEDIA,
      ERROR_MR_MID_NOT_FOUND,
      ERROR_SETMARK_DETECTED,
      ERROR_NO_DATA_DETECTED,
      ERROR_MR_MID_NOT_FOUND,
      ERROR_MR_MID_NOT_FOUND,
      ERROR_ACTIVE_CONNECTIONS,
      ERROR_MR_MID_NOT_FOUND,
      ERROR_CLEANER_CARTRIDGE_INSTALLED]"

definition table_80000288 :: "ulong list" where
  "table_80000288 =
     [ERROR_DEVICE_REQUIRES_CLEANING,
      ERROR_DEVICE_DOOR_OPEN]"

definition table_80090300 :: "ulong list" where
  "table_80090300 =
     [ERROR_NO_SYSTEM_RESOURCES,
      ERROR_INVALID_HANDLE,
      ERROR_INVALID_FUNCTION,
      ERROR_BAD_NETPATH,
      ERROR_INTERNAL_ERROR,
      ERROR_NO_SUCH_PACKAGE,
      ERROR_NOT_OWNER,
      ERROR_NO_SUCH_PACKAGE,
      ERROR_INVALID_PARAMETER,
      ERROR_INVALID_PARAMETER,
      ERROR_NOT_SUPPORTED,
      ERROR_CANNOT_IMPERSONATE,
      ERROR_LOGON_FAILURE,
      ERROR_INVALID_PARAMETER,
      ERROR_NO_SUCH_LOGON_SESSION,
      ERROR_ACCESS_DENIED,
      ERROR_ACCESS_DENIED,
      ERROR_NO_LOGON_SERVERS,
      ERROR_MR_MID_NOT_FOUND,
      ERROR_MR_MID_NOT_FOUND,
      ERROR_MR_MID_NOT_FOUND,
      ERROR_MR_MID_NOT_FOUND,
      ERROR_NO_SUCH_PACKAGE,
      ERROR_CONTEXT_EXPIRED,
      ERROR_INVALID_USER_BUFFER,
      ERROR_MR_MID_NOT_FOUND,
      ERROR_MR_MID_NOT_FOUND,
      ERROR_MR_MID_NOT_FOUND,
      ERROR_MR_MID_NOT_FOUND,
      ERROR_MR_MID_NOT_FOUND,
      ERROR_MR_MID_NOT_FOUND,
      ERROR_MR_MID_NOT_FOUND,
      ERROR_INVALID_PARAMETER,
      ERROR_INSUFFICIENT_BUFFER,
      ERROR_WRONG_TARGET_NAME,
      ERROR_MR_MID_NOT_FOUND,
      ERROR_MR_MID_NOT_FOUND,
      ERROR_TRUST_FAILURE,
      ERROR_INVALID_PARAMETER,
      ERROR_INVALID_PARAMETER,
      ERROR_PASSWORD_EXPIRED,
      ERROR_ENCRYPTION_FAILED,
      ERROR_MR_MID_NOT_FOUND,
      ERROR_MR_MID_NOT_FOUND,
      ERROR_MR_MID_NOT_FOUND,
      ERROR_MR_MID_NOT_FOUND,
      ERROR_MR_MID_NOT_FOUND,
      ERROR_MR_MID_NOT_FOUND,
      ERROR_DECRYPTION_FAILED,
      ERROR_INVALID_FUNCTION,
      ERROR_MR_MID_NOT_FOUND,
      ERROR_MR_MID_NOT_FOUND,
      ERROR_MR_MID_NOT_FOUND,
      ERROR_MR_MID_NOT_FOUND,
      ERROR_MR_MID_NOT_FOUND,
      ERROR_MR_MID_NOT_FOUND,
      ERROR_MR_MID_NOT_FOUND,
      ERROR_MR_MID_NOT_FOUND,
      ERROR_MR_MID_NOT_FOUND,
      ERROR_MR_MID_NOT_FOUND,
      ERROR_MR_MID_NOT_FOUND,
      ERROR_MR_MID_NOT_FOUND,
      ERROR_MR_MID_NOT_FOUND,
      ERROR_MR_MID_NOT_FOUND,
      ERROR_MR_MID_NOT_FOUND,
      ERROR_MR_MID_NOT_FOUND,
      ERROR_MR_MID_NOT_FOUND,
      ERROR_MR_MID_NOT_FOUND,
      ERROR_MR_MID_NOT_FOUND,
      ERROR_MR_MID_NOT_FOUND,
      ERROR_MR_MID_NOT_FOUND,
      ERROR_CANNOT_IMPERSONATE]"

definition table_80092010 :: "ulong list" where
  "table_80092010 =
     [ERROR_MUTUAL_AUTH_FAILED,
      ERROR_MR_MID_NOT_FOUND,
      ERROR_MUTUAL_AUTH_FAILED,
      ERROR_MUTUAL_AUTH_FAILED]"

definition table_80096004 :: "ulong list" where
  "table_80096004 =
     [ERROR_MUTUAL_AUTH_FAILED]"

definition table_80130001 :: "ulong list" where
  "table_80130001 =
     [ERROR_CLUSTER_NODE_ALREADY_UP,
      ERROR_CLUSTER_NODE_ALREADY_DOWN,
      ERROR_CLUSTER_NETWORK_ALREADY_ONLINE,
      ERROR_CLUSTER_NETWORK_ALREADY_OFFLINE,
      ERROR_CLUSTER_NODE_ALREADY_MEMBER]"

definition table_c0000001_1 :: "ulong list" where
  "table_c0000001_1 =
     [ERROR_GEN_FAILURE,
      ERROR_INVALID_FUNCTION,
      ERROR_INVALID_PARAMETER,
      ERROR_BAD_LENGTH,
      ERROR_NOACCESS,
      ERROR_SWAPERROR,
      ERROR_PAGEFILE_QUOTA,
      ERROR_INVALID_HANDLE,
      ERROR_STACK_OVERFLOW,
      ERROR_BAD_EXE_FORMAT,
      ERROR_INVALID_PARAMETER,
      ERROR_MR_MID_NOT_FOUND,
      ERROR_INVALID_PARAMETER,
      ERROR_FILE_NOT_FOUND,
      ERROR_FILE_NOT_FOUND,
      ERROR_INVALID_FUNCTION,
      ERROR_HANDLE_EOF,
      ERROR_WRONG_DISK,
      ERROR_NOT_READY,
      ERROR_UNRECOGNIZED_MEDIA,
      ERROR_SECTOR_NOT_FOUND,
      ERROR_MORE_DATA,
      ERROR_NOT_ENOUGH_MEMORY,
      ERROR_INVALID_ADDRESS,
      ERROR_INVALID_ADDRESS,
      ERROR_INVALID_PARAMETER,
      ERROR_INVALID_PARAMETER,
      ERROR_INVALID_FUNCTION,
      ERROR_INVALID_FUNCTION,
      ERROR_ACCESS_DENIED,
      ERROR_ACCESS_DENIED,
      ERROR_BAD_EXE_FORMAT,
      ERROR_ACCESS_DENIED,
      ERROR_ACCESS_DENIED,
      ERROR_INSUFFICIENT_BUFFER,
      ERROR_INVALID_HANDLE,
      STATUS_NONCONTINUABLE_EXCEPTION,
      STATUS_INVALID_DISPOSITION,
      ERROR_MR_MID_NOT_FOUND,
      ERROR_MR_MID_NOT_FOUND,
      ERROR_MR_MID_NOT_FOUND,
      ERROR_NOT_LOCKED,
      STATUS_PARITY_ERROR,
      ERROR_INVALID_ADDRESS,
      ERROR_INVALID_ADDRESS,
      ERROR_MR_MID_NOT_FOUND,
      ERROR_MR_MID_NOT_FOUND,
      ERROR_INVALID_PARAMETER,
      ERROR_MR_MID_NOT_FOUND,
      ERROR_DISK_CORRUPT,
      ERROR_INVALID_NAME,
      ERROR_FILE_NOT_FOUND,
      ERROR_ALREADY_EXISTS,
      ERROR_MR_MID_NOT_FOUND,
      ERROR_INVALID_HANDLE,
      ERROR_MR_MID_NOT_FOUND,
      ERROR_BAD_PATHNAME,
      ERROR_PATH_NOT_FOUND,
      ERROR_BAD_PATHNAME,
      ERROR_IO_DEVICE,
      ERROR_IO_DEVICE,
      ERROR_CRC,
      ERROR_CRC,
      ERROR_NOT_ENOUGH_MEMORY,
      ERROR_ACCESS_DENIED,
      ERROR_INVALID_HANDLE,
      ERROR_SHARING_VIOLATION,
      ERROR_NOT_ENOUGH_QUOTA,
      ERROR_INVALID_PARAMETER,
      ERROR_NOT_OWNER,
      ERROR_TOO_MANY_POSTS,
      ERROR_INVALID_PARAMETER,
      ERROR_INVALID_PARAMETER,
      ERROR_SIGNAL_REFUSED,
      ERROR_ACCESS_DENIED,
      ERROR_INVALID_PARAMETER,
      ERROR_INVALID_PARAMETER,
      ERROR_INVALID_PARAMETER,
      ERROR_EAS_NOT_SUPPORTED,
      ERROR_EA_LIST_INCONSISTENT,
      ERROR_FILE_CORRUPT,
      ERROR_FILE_CORRUPT,
      ERROR_FILE_CORRUPT,
      ERROR_LOCK_VIOLATION,
      ERROR_LOCK_VIOLATION,
      ERROR_ACCESS_DENIED,
      ERROR_NOT_SUPPORTED,
      ERROR_UNKNOWN_REVISION,
      ERROR_REVISION_MISMATCH,
      ERROR_INVALID_OWNER,
      ERROR_INVALID_PRIMARY_GROUP,
      ERROR_NO_IMPERSONATION_TOKEN,
      ERROR_CANT_DISABLE_MANDATORY,
      ERROR_NO_LOGON_SERVERS,
      ERROR_NO_SUCH_LOGON_SESSION,
      ERROR_NO_SUCH_PRIVILEGE,
      ERROR_PRIVILEGE_NOT_HELD,
      ERROR_INVALID_ACCOUNT_NAME,
      ERROR_USER_EXISTS,
      ERROR_NO_SUCH_USER,
      ERROR_GROUP_EXISTS,
      ERROR_NO_SUCH_GROUP,
      ERROR_MEMBER_IN_GROUP,
      ERROR_MEMBER_NOT_IN_GROUP,
      ERROR_LAST_ADMIN,
      ERROR_INVALID_PASSWORD,
      ERROR_ILL_FORMED_PASSWORD,
      ERROR_PASSWORD_RESTRICTION,
      ERROR_LOGON_FAILURE,
      ERROR_ACCOUNT_RESTRICTION,
      ERROR_INVALID_LOGON_HOURS,
      ERROR_INVALID_WORKSTATION,
      ERROR_PASSWORD_EXPIRED,
      ERROR_ACCOUNT_DISABLED,
      ERROR_NONE_MAPPED,
      ERROR_TOO_MANY_LUIDS_REQUESTED,
      ERROR_LUIDS_EXHAUSTED,
      ERROR_INVALID_SUB_AUTHORITY,
      ERROR_INVALID_ACL,
      ERROR_INVALID_SID,
      ERROR_INVALID_SECURITY_DESCR,
      ERROR_PROC_NOT_FOUND,
      ERROR_BAD_EXE_FORMAT,
      ERROR_NO_TOKEN,
      ERROR_BAD_INHERITANCE_ACL,
      ERROR_NOT_LOCKED,
      ERROR_DISK_FULL,
      ERROR_SERVER_DISABLED,
      ERROR_SERVER_NOT_DISABLED,
      ERROR_TOO_MANY_NAMES,
      ERROR_NO_MORE_ITEMS,
      ERROR_INVALID_ID_AUTHORITY,
      ERROR_NO_MORE_ITEMS,
      ERROR_LABEL_TOO_LONG,
      ERROR_OUTOFMEMORY,
      ERROR_INVALID_ADDRESS,
      ERROR_RESOURCE_DATA_NOT_FOUND]"

definition table_c0000001_2 :: "ulong list" where
  "table_c0000001_2 =
     [ERROR_RESOURCE_TYPE_NOT_FOUND,
      ERROR_RESOURCE_NAME_NOT_FOUND,
      STATUS_ARRAY_BOUNDS_EXCEEDED,
      STATUS_FLOAT_DENORMAL_OPERAND,
      STATUS_FLOAT_DIVIDE_BY_ZERO,
      STATUS_FLOAT_INEXACT_RESULT,
      STATUS_FLOAT_INVALID_OPERATION,
      STATUS_FLOAT_OVERFLOW,
      STATUS_FLOAT_STACK_CHECK,
      STATUS_FLOAT_UNDERFLOW,
      STATUS_INTEGER_DIVIDE_BY_ZERO,
      ERROR_ARITHMETIC_OVERFLOW,
      STATUS_PRIVILEGED_INSTRUCTION,
      ERROR_NOT_ENOUGH_MEMORY,
      ERROR_FILE_INVALID,
      ERROR_ALLOTTED_SPACE_EXCEEDED,
      ERROR_NO_SYSTEM_RESOURCES,
      ERROR_PATH_NOT_FOUND,
      ERROR_CRC,
      ERROR_DEVICE_NOT_CONNECTED,
      ERROR_NOT_READY,
      ERROR_INVALID_ADDRESS,
      ERROR_INVALID_ADDRESS,
      ERROR_WORKING_SET_QUOTA,
      ERROR_WRITE_PROTECT,
      ERROR_NOT_READY,
      ERROR_INVALID_GROUP_ATTRIBUTES,
      ERROR_BAD_IMPERSONATION_LEVEL,
      ERROR_CANT_OPEN_ANONYMOUS,
      ERROR_BAD_VALIDATION_CLASS,
      ERROR_BAD_TOKEN_TYPE,
      ERROR_INVALID_PARAMETER,
      ERROR_MR_MID_NOT_FOUND,
      ERROR_PIPE_BUSY,
      ERROR_PIPE_BUSY,
      ERROR_BAD_PIPE,
      ERROR_PIPE_BUSY,
      ERROR_INVALID_FUNCTION,
      ERROR_PIPE_NOT_CONNECTED,
      ERROR_NO_DATA,
      ERROR_PIPE_CONNECTED,
      ERROR_PIPE_LISTENING,
      ERROR_BAD_PIPE,
      ERROR_SEM_TIMEOUT,
      ERROR_HANDLE_EOF,
      ERROR_MR_MID_NOT_FOUND,
      ERROR_MR_MID_NOT_FOUND,
      ERROR_MR_MID_NOT_FOUND,
      ERROR_ACCESS_DENIED,
      ERROR_NOT_SUPPORTED,
      ERROR_REM_NOT_LIST,
      ERROR_DUP_NAME,
      ERROR_BAD_NETPATH,
      ERROR_NETWORK_BUSY,
      ERROR_DEV_NOT_EXIST,
      ERROR_TOO_MANY_CMDS,
      ERROR_ADAP_HDW_ERR,
      ERROR_BAD_NET_RESP,
      ERROR_UNEXP_NET_ERR,
      ERROR_BAD_REM_ADAP,
      ERROR_PRINTQ_FULL,
      ERROR_NO_SPOOL_SPACE,
      ERROR_PRINT_CANCELLED,
      ERROR_NETNAME_DELETED,
      ERROR_NETWORK_ACCESS_DENIED,
      ERROR_BAD_DEV_TYPE,
      ERROR_BAD_NET_NAME,
      ERROR_TOO_MANY_NAMES,
      ERROR_TOO_MANY_SESS,
      ERROR_SHARING_PAUSED,
      ERROR_REQ_NOT_ACCEP,
      ERROR_REDIR_PAUSED,
      ERROR_NET_WRITE_FAULT,
      ERROR_MR_MID_NOT_FOUND,
      ERROR_NOT_SAME_DEVICE,
      ERROR_ACCESS_DENIED,
      ERROR_VC_DISCONNECTED,
      ERROR_NO_SECURITY_ON_OBJECT,
      ERROR_MR_MID_NOT_FOUND,
      ERROR_NO_DATA,
      ERROR_CANT_ACCESS_DOMAIN_INFO,
      ERROR_MR_MID_NOT_FOUND,
      ERROR_INVALID_SERVER_STATE,
      ERROR_INVALID_DOMAIN_STATE,
      ERROR_INVALID_DOMAIN_ROLE,
      ERROR_NO_SUCH_DOMAIN,
      ERROR_DOMAIN_EXISTS,
      ERROR_DOMAIN_LIMIT_EXCEEDED,
      ERROR_OPLOCK_NOT_GRANTED,
      ERROR_INVALID_OPLOCK_PROTOCOL,
      ERROR_INTERNAL_DB_CORRUPTION,
      ERROR_INTERNAL_ERROR,
      ERROR_GENERIC_NOT_MAPPED,
      ERROR_BAD_DESCRIPTOR_FORMAT,
      ERROR_INVALID_USER_BUFFER,
      ERROR_MR_MID_NOT_FOUND,
      ERROR_MR_MID_NOT_FOUND,
      ERROR_MR_MID_NOT_FOUND,
      ERROR_MR_MID_NOT_FOUND,
      ERROR_NOT_LOGON_PROCESS,
      ERROR_LOGON_SESSION_EXISTS,
      ERROR_INVALID_PARAMETER,
      ERROR_INVALID_PARAMETER,
      ERROR_INVALID_PARAMETER,
      ERROR_INVALID_PARAMETER,
      ERROR_INVALID_PARAMETER,
      ERROR_INVALID_PARAMETER,
      ERROR_INVALID_PARAMETER,
      ERROR_INVALID_PARAMETER,
      ERROR_INVALID_PARAMETER,
      ERROR_INVALID_PARAMETER,
      ERROR_INVALID_PARAMETER,
      ERROR_INVALID_PARAMETER,
      ERROR_PATH_NOT_FOUND,
      ERROR_SERVICE_ALREADY_RUNNING,
      ERROR_STACK_OVERFLOW,
      ERROR_NO_SUCH_PACKAGE,
      ERROR_MR_MID_NOT_FOUND,
      ERROR_ENVVAR_NOT_FOUND,
      ERROR_DIR_NOT_EMPTY,
      ERROR_FILE_CORRUPT,
      ERROR_DIRECTORY,
      ERROR_BAD_LOGON_SESSION_STATE,
      ERROR_LOGON_SESSION_COLLISION,
      ERROR_FILENAME_EXCED_RANGE,
      ERROR_OPEN_FILES,
      ERROR_DEVICE_IN_USE,
      ERROR_MR_MID_NOT_FOUND,
      ERROR_ACCESS_DENIED,
      ERROR_INVALID_LOGON_TYPE,
      ERROR_MR_MID_NOT_FOUND,
      ERROR_CANNOT_IMPERSONATE,
      ERROR_SERVICE_ALREADY_RUNNING,
      ERROR_MR_MID_NOT_FOUND,
      ERROR_MR_MID_NOT_FOUND,
      ERROR_MR_MID_NOT_FOUND,
      ERROR_MR_MID_NOT_FOUND]"

definition table_c0000001_3 :: "ulong list" where
  "table_c0000001_3 =
     [ERROR_MR_MID_NOT_FOUND,
      ERROR_MR_MID_NOT_FOUND,
      ERROR_MR_MID_NOT_FOUND,
      ERROR_MR_MID_NOT_FOUND,
      ERROR_INVALID_THREAD_ID,
      ERROR_MR_MID_NOT_FOUND,
      ERROR_MR_MID_NOT_FOUND,
      ERROR_MR_MID_NOT_FOUND,
      ERROR_BAD_EXE_FORMAT,
      ERROR_RXACT_INVALID_STATE,
      ERROR_RXACT_COMMIT_FAILURE,
      ERROR_FILE_INVALID,
      ERROR_TOO_MANY_OPEN_FILES,
      ERROR_OPERATION_ABORTED,
      ERROR_ACCESS_DENIED,
      ERROR_INVALID_COMPUTERNAME,
      ERROR_ACCESS_DENIED,
      ERROR_SPECIAL_ACCOUNT,
      ERROR_SPECIAL_GROUP,
      ERROR_SPECIAL_USER,
      ERROR_MEMBERS_PRIMARY_GROUP,
      ERROR_INVALID_HANDLE,
      ERROR_MR_MID_NOT_FOUND,
      ERROR_MR_MID_NOT_FOUND,
      ERROR_TOKEN_ALREADY_IN_USE,
      ERROR_MR_MID_NOT_FOUND,
      ERROR_COMMITMENT_LIMIT,
      ERROR_BAD_EXE_FORMAT,
      ERROR_BAD_EXE_FORMAT,
      ERROR_BAD_EXE_FORMAT,
      ERROR_BAD_EXE_FORMAT,
      ERROR_MR_MID_NOT_FOUND,
      ERROR_TIME_SKEW,
      ERROR_MR_MID_NOT_FOUND,
      ERROR_MOD_NOT_FOUND,
      ERROR_MR_MID_NOT_FOUND,
      ERROR_MR_MID_NOT_FOUND,
      ERROR_INVALID_ORDINAL,
      ERROR_PROC_NOT_FOUND,
      ERROR_MR_MID_NOT_FOUND,
      ERROR_NETNAME_DELETED,
      ERROR_NETNAME_DELETED,
      ERROR_REM_NOT_LIST,
      ERROR_UNEXP_NET_ERR,
      ERROR_UNEXP_NET_ERR,
      ERROR_UNEXP_NET_ERR,
      ERROR_UNEXP_NET_ERR,
      ERROR_DLL_INIT_FAILED,
      ERROR_MR_MID_NOT_FOUND,
      ERROR_MR_MID_NOT_FOUND,
      ERROR_MR_MID_NOT_FOUND,
      ERROR_MR_MID_NOT_FOUND,
      ERROR_MR_MID_NOT_FOUND,
      ERROR_INVALID_LEVEL,
      ERROR_INVALID_PASSWORD,
      ERROR_MR_MID_NOT_FOUND,
      ERROR_BROKEN_PIPE,
      ERROR_BADDB,
      ERROR_REGISTRY_IO_FAILED,
      ERROR_MR_MID_NOT_FOUND,
      ERROR_UNRECOGNIZED_VOLUME,
      ERROR_SERIAL_NO_DEVICE,
      ERROR_NO_SUCH_ALIAS,
      ERROR_MEMBER_NOT_IN_ALIAS,
      ERROR_MEMBER_IN_ALIAS,
      ERROR_ALIAS_EXISTS,
      ERROR_LOGON_NOT_GRANTED,
      ERROR_TOO_MANY_SECRETS,
      ERROR_SECRET_TOO_LONG,
      ERROR_INTERNAL_DB_ERROR,
      ERROR_FULLSCREEN_MODE,
      ERROR_TOO_MANY_CONTEXT_IDS,
      ERROR_LOGON_TYPE_NOT_GRANTED,
      ERROR_NOT_REGISTRY_FILE,
      ERROR_NT_CROSS_ENCRYPTION_REQUIRED,
      ERROR_MR_MID_NOT_FOUND,
      ERROR_IO_DEVICE,
      ERROR_MR_MID_NOT_FOUND,
      ERROR_MR_MID_NOT_FOUND,
      ERROR_NO_UNICODE_TRANSLATION,
      ERROR_MR_MID_NOT_FOUND,
      ERROR_MR_MID_NOT_FOUND,
      ERROR_FLOPPY_ID_MARK_NOT_FOUND,
      ERROR_FLOPPY_WRONG_CYLINDER,
      ERROR_FLOPPY_UNKNOWN_ERROR,
      ERROR_FLOPPY_BAD_REGISTERS,
      ERROR_DISK_RECALIBRATE_FAILED,
      ERROR_DISK_OPERATION_FAILED,
      ERROR_DISK_RESET_FAILED,
      ERROR_IRQ_BUSY,
      ERROR_IO_DEVICE,
      ERROR_MR_MID_NOT_FOUND,
      ERROR_MR_MID_NOT_FOUND,
      ERROR_MR_MID_NOT_FOUND,
      ERROR_MR_MID_NOT_FOUND,
      ERROR_PARTITION_FAILURE,
      ERROR_INVALID_BLOCK_LENGTH,
      ERROR_DEVICE_NOT_PARTITIONED,
      ERROR_UNABLE_TO_LOCK_MEDIA,
      ERROR_UNABLE_TO_UNLOAD_MEDIA,
      ERROR_EOM_OVERFLOW,
      ERROR_NO_MEDIA_IN_DRIVE,
      ERROR_MR_MID_NOT_FOUND,
      ERROR_NO_SUCH_MEMBER,
      ERROR_INVALID_MEMBER,
      ERROR_KEY_DELETED,
      ERROR_NO_LOG_SPACE,
      ERROR_TOO_MANY_SIDS,
      ERROR_LM_CROSS_ENCRYPTION_REQUIRED,
      ERROR_KEY_HAS_CHILDREN,
      ERROR_CHILD_MUST_BE_VOLATILE,
      ERROR_INVALID_PARAMETER,
      ERROR_IO_DEVICE,
      ERROR_BAD_COMMAND,
      ERROR_IO_DEVICE,
      ERROR_IO_DEVICE,
      ERROR_MR_MID_NOT_FOUND,
      ERROR_LOG_FILE_FULL,
      ERROR_WRITE_PROTECT,
      ERROR_NO_TRUST_LSA_SECRET,
      ERROR_NO_TRUST_SAM_ACCOUNT,
      ERROR_TRUSTED_DOMAIN_FAILURE,
      ERROR_TRUSTED_RELATIONSHIP_FAILURE,
      ERROR_EVENTLOG_FILE_CORRUPT,
      ERROR_EVENTLOG_CANT_START,
      ERROR_TRUST_FAILURE,
      ERROR_MR_MID_NOT_FOUND,
      ERROR_NETLOGON_NOT_STARTED,
      ERROR_ACCOUNT_EXPIRED,
      ERROR_POSSIBLE_DEADLOCK,
      ERROR_SESSION_CREDENTIAL_CONFLICT,
      ERROR_REMOTE_SESSION_LIMIT_EXCEEDED,
      ERROR_EVENTLOG_FILE_CHANGED,
      ERROR_NOLOGON_INTERDOMAIN_TRUST_ACCOUNT,
      ERROR_NOLOGON_WORKSTATION_TRUST_ACCOUNT,
      ERROR_NOLOGON_SERVER_TRUST_ACCOUNT,
      ERROR_DOMAIN_TRUST_INCONSISTENT]"

definition table_c0000001 :: "ulong list" where
  "table_c0000001 = table_c0000001_1 @ table_c0000001_2 @ table_c0000001_3"

definition table_c0000202_1 :: "ulong list" where
  "table_c0000202_1 =
     [ERROR_NO_USER_SESSION_KEY,
      ERROR_UNEXP_NET_ERR,
      ERROR_RESOURCE_LANG_NOT_FOUND,
      ERROR_NOT_ENOUGH_SERVER_MEMORY,
      ERROR_INVALID_USER_BUFFER,
      ERROR_INVALID_NETNAME,
      ERROR_INVALID_NETNAME,
      ERROR_TOO_MANY_NAMES,
      ERROR_DUP_NAME,
      ERROR_NETNAME_DELETED,
      ERROR_NETNAME_DELETED,
      ERROR_NETNAME_DELETED,
      ERROR_TOO_MANY_NAMES,
      ERROR_UNEXP_NET_ERR,
      ERROR_UNEXP_NET_ERR,
      ERROR_UNEXP_NET_ERR,
      ERROR_UNEXP_NET_ERR,
      ERROR_UNEXP_NET_ERR,
      ERROR_UNEXP_NET_ERR,
      ERROR_UNEXP_NET_ERR,
      ERROR_NOT_SUPPORTED,
      ERROR_NOT_SUPPORTED,
      ERROR_MR_MID_NOT_FOUND,
      ERROR_MR_MID_NOT_FOUND,
      ERROR_MR_MID_NOT_FOUND,
      ERROR_MR_MID_NOT_FOUND,
      ERROR_NO_BROWSER_SERVERS_FOUND,
      ERROR_MR_MID_NOT_FOUND,
      ERROR_MR_MID_NOT_FOUND,
      ERROR_MR_MID_NOT_FOUND,
      ERROR_MAPPED_ALIGNMENT,
      ERROR_BAD_EXE_FORMAT,
      ERROR_MR_MID_NOT_FOUND,
      ERROR_MR_MID_NOT_FOUND,
      ERROR_PASSWORD_MUST_CHANGE,
      ERROR_NOT_FOUND,
      ERROR_MR_MID_NOT_FOUND,
      ERROR_MR_MID_NOT_FOUND,
      ERROR_MR_MID_NOT_FOUND,
      ERROR_INVALID_PARAMETER,
      0xc000022a,
      0xc000022b,
      ERROR_MR_MID_NOT_FOUND,
      ERROR_RETRY,
      ERROR_MR_MID_NOT_FOUND,
      ERROR_MR_MID_NOT_FOUND,
      ERROR_SET_NOT_FOUND,
      ERROR_MR_MID_NOT_FOUND,
      ERROR_MR_MID_NOT_FOUND,
      ERROR_DOMAIN_CONTROLLER_NOT_FOUND,
      ERROR_ACCOUNT_LOCKED_OUT,
      ERROR_INVALID_HANDLE,
      ERROR_CONNECTION_REFUSED,
      ERROR_GRACEFUL_DISCONNECT,
      ERROR_ADDRESS_ALREADY_ASSOCIATED,
      ERROR_ADDRESS_NOT_ASSOCIATED,
      ERROR_CONNECTION_INVALID,
      ERROR_CONNECTION_ACTIVE,
      ERROR_NETWORK_UNREACHABLE,
      ERROR_HOST_UNREACHABLE,
      ERROR_PROTOCOL_UNREACHABLE,
      ERROR_PORT_UNREACHABLE,
      ERROR_REQUEST_ABORTED,
      ERROR_CONNECTION_ABORTED,
      ERROR_MR_MID_NOT_FOUND,
      ERROR_USER_MAPPED_FILE,
      ERROR_MR_MID_NOT_FOUND,
      ERROR_MR_MID_NOT_FOUND,
      ERROR_CONNECTION_COUNT_LIMIT,
      ERROR_LOGIN_TIME_RESTRICTION,
      ERROR_LOGIN_WKSTA_RESTRICTION,
      ERROR_BAD_EXE_FORMAT,
      ERROR_MR_MID_NOT_FOUND,
      ERROR_MR_MID_NOT_FOUND,
      ERROR_MR_MID_NOT_FOUND,
      ERROR_MR_MID_NOT_FOUND,
      ERROR_MR_MID_NOT_FOUND,
      ERROR_MR_MID_NOT_FOUND,
      ERROR_MR_MID_NOT_FOUND,
      ERROR_MR_MID_NOT_FOUND,
      ERROR_MR_MID_NOT_FOUND,
      ERROR_INTERNAL_ERROR,
      ERROR_MR_MID_NOT_FOUND,
      ERROR_MR_MID_NOT_FOUND,
      ERROR_MR_MID_NOT_FOUND,
      ERROR_HOST_UNREACHABLE,
      ERROR_MR_MID_NOT_FOUND,
      ERROR_LICENSE_QUOTA_EXCEEDED,
      ERROR_MR_MID_NOT_FOUND,
      ERROR_MR_MID_NOT_FOUND,
      ERROR_MR_MID_NOT_FOUND,
      ERROR_MR_MID_NOT_FOUND,
      ERROR_SERVICE_DISABLED,
      ERROR_MR_MID_NOT_FOUND,
      ERROR_MR_MID_NOT_FOUND,
      ERROR_MR_MID_NOT_FOUND,
      ERROR_INVALID_ORDINAL,
      ERROR_PROC_NOT_FOUND,
      ERROR_NOT_OWNER,
      ERROR_TOO_MANY_LINKS,
      ERROR_MR_MID_NOT_FOUND,
      ERROR_FILE_OFFLINE,
      ERROR_MR_MID_NOT_FOUND,
      ERROR_MR_MID_NOT_FOUND,
      ERROR_CTX_LICENSE_NOT_AVAILABLE,
      ERROR_MR_MID_NOT_FOUND,
      ERROR_BAD_DRIVER,
      ERROR_CONNECTION_UNAVAIL,
      ERROR_NOT_READY,
      ERROR_MR_MID_NOT_FOUND,
      ERROR_MR_MID_NOT_FOUND,
      ERROR_MR_MID_NOT_FOUND,
      ERROR_NO_MATCH,
      ERROR_MR_MID_NOT_FOUND,
      ERROR_MR_MID_NOT_FOUND,
      ERROR_NOT_A_REPARSE_POINT,
      ERROR_REPARSE_TAG_INVALID,
      ERROR_REPARSE_TAG_MISMATCH,
      ERROR_INVALID_REPARSE_DATA,
      ERROR_CANT_ACCESS_FILE,
      ERROR_MR_MID_NOT_FOUND,
      ERROR_MR_MID_NOT_FOUND,
      ERROR_MR_MID_NOT_FOUND,
      ERROR_MR_MID_NOT_FOUND,
      ERROR_MR_MID_NOT_FOUND,
      ERROR_MR_MID_NOT_FOUND,
      ERROR_CANT_RESOLVE_FILENAME,
      ERROR_BAD_PATHNAME,
      ERROR_MR_MID_NOT_FOUND,
      ERROR_SOURCE_ELEMENT_EMPTY,
      ERROR_DESTINATION_ELEMENT_FULL,
      ERROR_ILLEGAL_ELEMENT_ADDRESS]"

definition table_c0000202_2 :: "ulong list" where
  "table_c0000202_2 =
     [ERROR_MAGAZINE_NOT_PRESENT,
      ERROR_DEVICE_REINITIALIZATION_NEEDED,
      ERROR_MR_MID_NOT_FOUND,
      ERROR_MR_MID_NOT_FOUND,
      ERROR_ACCESS_DENIED,
      ERROR_ACCESS_DENIED,
      ERROR_MR_MID_NOT_FOUND,
      ERROR_ACCESS_DENIED,
      ERROR_ACCESS_DENIED,
      ERROR_ACCESS_DENIED,
      ERROR_ACCESS_DENIED,
      ERROR_FILE_NOT_ENCRYPTED,
      ERROR_NOT_EXPORT_FORMAT,
      ERROR_FILE_ENCRYPTED,
      ERROR_MR_MID_NOT_FOUND,
      ERROR_WMI_GUID_NOT_FOUND,
      ERROR_WMI_INSTANCE_NOT_FOUND,
      ERROR_WMI_ITEMID_NOT_FOUND,
      ERROR_WMI_TRY_AGAIN,
      ERROR_SHARED_POLICY,
      ERROR_POLICY_OBJECT_NOT_FOUND,
      ERROR_POLICY_ONLY_IN_DS,
      ERROR_INVALID_FUNCTION,
      ERROR_REMOTE_STORAGE_NOT_ACTIVE,
      ERROR_REMOTE_STORAGE_MEDIA_ERROR,
      ERROR_NO_TRACKING_SERVICE,
      ERROR_MR_MID_NOT_FOUND,
      ERROR_DS_NO_ATTRIBUTE_OR_VALUE,
      ERROR_DS_INVALID_ATTRIBUTE_SYNTAX,
      ERROR_DS_ATTRIBUTE_TYPE_UNDEFINED,
      ERROR_DS_ATTRIBUTE_OR_VALUE_EXISTS,
      ERROR_DS_BUSY,
      ERROR_DS_UNAVAILABLE,
      ERROR_DS_NO_RIDS_ALLOCATED,
      ERROR_DS_NO_MORE_RIDS,
      ERROR_DS_INCORRECT_ROLE_OWNER,
      ERROR_DS_RIDMGR_INIT_ERROR,
      ERROR_DS_OBJ_CLASS_VIOLATION,
      ERROR_DS_CANT_ON_NON_LEAF,
      ERROR_DS_CANT_ON_RDN,
      ERROR_DS_CANT_MOD_OBJ_CLASS,
      ERROR_DS_CROSS_DOM_MOVE_ERROR,
      ERROR_DS_GC_NOT_AVAILABLE,
      ERROR_DS_DS_REQUIRED,
      ERROR_REPARSE_ATTRIBUTE_CONFLICT,
      ERROR_MR_MID_NOT_FOUND,
      ERROR_MR_MID_NOT_FOUND,
      ERROR_MR_MID_NOT_FOUND,
      ERROR_DEVICE_REMOVED,
      ERROR_JOURNAL_DELETE_IN_PROGRESS,
      ERROR_JOURNAL_NOT_ACTIVE,
      ERROR_MR_MID_NOT_FOUND,
      ERROR_MR_MID_NOT_FOUND,
      ERROR_MR_MID_NOT_FOUND,
      ERROR_MR_MID_NOT_FOUND,
      ERROR_MR_MID_NOT_FOUND,
      ERROR_MR_MID_NOT_FOUND,
      ERROR_MR_MID_NOT_FOUND,
      ERROR_MR_MID_NOT_FOUND,
      ERROR_DS_ADMIN_LIMIT_EXCEEDED,
      ERROR_MR_MID_NOT_FOUND,
      ERROR_MUTUAL_AUTH_FAILED,
      ERROR_MR_MID_NOT_FOUND,
      ERROR_NOACCESS,
      ERROR_WMI_READ_ONLY,
      ERROR_WMI_SET_FAILURE,
      ERROR_MR_MID_NOT_FOUND,
      ERROR_REG_NAT_CONSUMPTION,
      ERROR_TRANSPORT_FULL,
      ERROR_DS_SAM_INIT_FAILURE,
      ERROR_ONLY_IF_CONNECTED,
      ERROR_DS_SENSITIVE_GROUP_VIOLATION,
      ERROR_MR_MID_NOT_FOUND,
      ERROR_JOURNAL_ENTRY_DELETED,
      ERROR_DS_CANT_MOD_PRIMARYGROUPID,
      ERROR_MR_MID_NOT_FOUND,
      ERROR_MR_MID_NOT_FOUND,
      ERROR_MR_MID_NOT_FOUND,
      ERROR_DS_INVALID_GROUP_TYPE,
      ERROR_DS_NO_NEST_GLOBALGROUP_IN_MIXEDDOMAIN,
      ERROR_DS_NO_NEST_LOCALGROUP_IN_MIXEDDOMAIN,
      ERROR_DS_GLOBAL_CANT_HAVE_LOCAL_MEMBER,
      ERROR_DS_GLOBAL_CANT_HAVE_UNIVERSAL_MEMBER,
      ERROR_DS_UNIVERSAL_CANT_HAVE_LOCAL_MEMBER,
      ERROR_DS_GLOBAL_CANT_HAVE_CROSSDOMAIN_MEMBER,
      ERROR_DS_LOCAL_CANT_HAVE_CROSSDOMAIN_LOCAL_MEMBER,
      ERROR_DS_HAVE_PRIMARY_MEMBERS,
      ERROR_NOT_SUPPORTED,
      ERROR_MR_MID_NOT_FOUND,
      ERROR_DS_SAM_NEED_BOOTKEY_PASSWORD,
      ERROR_DS_SAM_NEED_BOOTKEY_FLOPPY,
      ERROR_DS_CANT_START,
      ERROR_DS_INIT_FAILURE,
      ERROR_SAM_INIT_FAILURE,
      ERROR_DS_GC_REQUIRED,
      ERROR_DS_LOCAL_MEMBER_OF_LOCAL_ONLY,
      ERROR_DS_NO_FPO_IN_UNIVERSAL_GROUPS,
      ERROR_DS_MACHINE_ACCOUNT_QUOTA_EXCEEDED,
      ERROR_MR_MID_NOT_FOUND,
      ERROR_CURRENT_DOMAIN_NOT_ALLOWED,
      ERROR_CANNOT_MAKE,
      ERROR_MR_MID_NOT_FOUND,
      ERROR_DS_INIT_FAILURE_CONSOLE,
      ERROR_DS_SAM_INIT_FAILURE_CONSOLE,
      SEC_E_UNFINISHED_CONTEXT_DELETED,
      SEC_E_NO_TGT_REPLY,
      ERROR_FILE_NOT_FOUND,
      SEC_E_NO_IP_ADDRESSES,
      SEC_E_WRONG_CREDENTIAL_HANDLE,
      SEC_E_CRYPTO_SYSTEM_INVALID,
      SEC_E_MAX_REFERRALS_EXCEEDED,
      SEC_E_MUST_BE_KDC,
      SEC_E_STRONG_CRYPTO_NOT_SUPPORTED,
      SEC_E_TOO_MANY_PRINCIPALS,
      SEC_E_NO_PA_DATA,
      SEC_E_PKINIT_NAME_MISMATCH,
      SEC_E_SMARTCARD_LOGON_REQUIRED,
      SEC_E_KDC_INVALID_REQUEST,
      SEC_E_KDC_UNABLE_TO_REFER,
      SEC_E_KDC_UNKNOWN_ETYPE,
      ERROR_SHUTDOWN_IN_PROGRESS,
      ERROR_SERVER_SHUTDOWN_IN_PROGRESS,
      ERROR_NOT_SUPPORTED_ON_SBS,
      ERROR_WMI_GUID_DISCONNECTED,
      ERROR_WMI_ALREADY_DISABLED,
      ERROR_WMI_ALREADY_ENABLED,
      ERROR_DISK_TOO_FRAGMENTED,
      STG_E_STATUS_COPY_PROTECTION_FAILURE,
      STG_E_CSS_AUTHENTICATION_FAILURE,
      STG_E_CSS_KEY_NOT_PRESENT,
      STG_E_CSS_KEY_NOT_ESTABLISHED,
      STG_E_CSS_SCRAMBLED_SECTOR]"

definition table_c0000202_3 :: "ulong list" where
  "table_c0000202_3 =
     [STG_E_CSS_REGION_MISMATCH,
      STG_E_RESETS_EXHAUSTED,
      ERROR_MR_MID_NOT_FOUND,
      ERROR_MR_MID_NOT_FOUND,
      ERROR_MR_MID_NOT_FOUND,
      ERROR_MR_MID_NOT_FOUND,
      ERROR_MR_MID_NOT_FOUND,
      ERROR_MR_MID_NOT_FOUND,
      ERROR_MR_MID_NOT_FOUND,
      ERROR_MR_MID_NOT_FOUND,
      ERROR_MR_MID_NOT_FOUND,
      ERROR_MR_MID_NOT_FOUND,
      ERROR_MR_MID_NOT_FOUND,
      ERROR_MR_MID_NOT_FOUND,
      ERROR_MR_MID_NOT_FOUND,
      ERROR_MR_MID_NOT_FOUND,
      ERROR_MR_MID_NOT_FOUND,
      ERROR_MR_MID_NOT_FOUND,
      ERROR_MR_MID_NOT_FOUND,
      ERROR_MR_MID_NOT_FOUND,
      ERROR_MR_MID_NOT_FOUND,
      ERROR_MR_MID_NOT_FOUND,
      ERROR_PKINIT_FAILURE,
      ERROR_SMARTCARD_SUBSYSTEM_FAILURE,
      SEC_E_NO_KERB_KEY,
      ERROR_MR_MID_NOT_FOUND,
      ERROR_MR_MID_NOT_FOUND,
      ERROR_MR_MID_NOT_FOUND,
      ERROR_MR_MID_NOT_FOUND,
      ERROR_MR_MID_NOT_FOUND,
      ERROR_MR_MID_NOT_FOUND,
      ERROR_MR_MID_NOT_FOUND,
      ERROR_MR_MID_NOT_FOUND,
      ERROR_MR_MID_NOT_FOUND,
      ERROR_MR_MID_NOT_FOUND,
      ERROR_MR_MID_NOT_FOUND,
      ERROR_MR_MID_NOT_FOUND,
      ERROR_MR_MID_NOT_FOUND,
      ERROR_MR_MID_NOT_FOUND,
      ERROR_MR_MID_NOT_FOUND,
      ERROR_MR_MID_NOT_FOUND,
      ERROR_MR_MID_NOT_FOUND,
      ERROR_MR_MID_NOT_FOUND,
      ERROR_MR_MID_NOT_FOUND,
      ERROR_MR_MID_NOT_FOUND,
      ERROR_MR_MID_NOT_FOUND,
      ERROR_MR_MID_NOT_FOUND,
      ERROR_MR_MID_NOT_FOUND,
      ERROR_MR_MID_NOT_FOUND,
      ERROR_MR_MID_NOT_FOUND,
      ERROR_MR_MID_NOT_FOUND,
      ERROR_MR_MID_NOT_FOUND,
      ERROR_MR_MID_NOT_FOUND,
      ERROR_MR_MID_NOT_FOUND,
      ERROR_MR_MID_NOT_FOUND,
      ERROR_MR_MID_NOT_FOUND,
      ERROR_MR_MID_NOT_FOUND,
      ERROR_MR_MID_NOT_FOUND,
      ERROR_MR_MID_NOT_FOUND,
      ERROR_MR_MID_NOT_FOUND,
      ERROR_MR_MID_NOT_FOUND,
      ERROR_MR_MID_NOT_FOUND,
      ERROR_MR_MID_NOT_FOUND,
      ERROR_MR_MID_NOT_FOUND,
      ERROR_MR_MID_NOT_FOUND,
      ERROR_MR_MID_NOT_FOUND,
      ERROR_MR_MID_NOT_FOUND,
      ERROR_MR_MID_NOT_FOUND,
      ERROR_MR_MID_NOT_FOUND,
      ERROR_MR_MID_NOT_FOUND,
      ERROR_HOST_DOWN,
      SEC_E_UNSUPPORTED_PREAUTH,
      ERROR_EFS_ALG_BLOB_TOO_BIG,
      ERROR_MR_MID_NOT_FOUND,
      ERROR_MR_MID_NOT_FOUND,
      ERROR_MR_MID_NOT_FOUND,
      ERROR_AUDITING_DISABLED,
      ERROR_DS_MACHINE_ACCOUNT_CREATED_PRENT4,
      ERROR_DS_AG_CANT_HAVE_UNIVERSAL_MEMBER,
      ERROR_BAD_EXE_FORMAT,
      ERROR_BAD_EXE_FORMAT,
      SEC_E_BAD_BINDINGS,
      ERROR_NO_USER_SESSION_KEY,
      ERROR_MR_MID_NOT_FOUND,
      ERROR_MR_MID_NOT_FOUND,
      ERROR_MR_MID_NOT_FOUND,
      ERROR_MR_MID_NOT_FOUND,
      ERROR_ACCESS_DISABLED_BY_POLICY,
      ERROR_ACCESS_DISABLED_BY_POLICY,
      ERROR_ACCESS_DISABLED_BY_POLICY,
      ERROR_ACCESS_DISABLED_BY_POLICY,
      ERROR_MR_MID_NOT_FOUND,
      ERROR_MR_MID_NOT_FOUND,
      ERROR_MR_MID_NOT_FOUND,
      ERROR_MR_MID_NOT_FOUND,
      ERROR_MR_MID_NOT_FOUND,
      ERROR_MR_MID_NOT_FOUND,
      ERROR_DRIVER_BLOCKED,
      ERROR_DRIVER_BLOCKED,
      ERROR_MR_MID_NOT_FOUND,
      ERROR_MR_MID_NOT_FOUND,
      ERROR_INVALID_IMPORT_OF_NON_DLL,
      ERROR_MR_MID_NOT_FOUND,
      ERROR_MR_MID_NOT_FOUND,
      ERROR_MR_MID_NOT_FOUND,
      ERROR_MR_MID_NOT_FOUND,
      ERROR_MR_MID_NOT_FOUND,
      ERROR_MR_MID_NOT_FOUND,
      ERROR_MR_MID_NOT_FOUND,
      ERROR_MR_MID_NOT_FOUND,
      ERROR_MR_MID_NOT_FOUND,
      ERROR_MR_MID_NOT_FOUND,
      ERROR_MR_MID_NOT_FOUND,
      ERROR_MR_MID_NOT_FOUND,
      ERROR_MR_MID_NOT_FOUND,
      ERROR_MR_MID_NOT_FOUND,
      ERROR_MR_MID_NOT_FOUND,
      ERROR_MR_MID_NOT_FOUND,
      SCARD_W_WRONG_CHV,
      SCARD_W_CHV_BLOCKED,
      SCARD_W_CARD_NOT_AUTHENTICATED,
      SCARD_E_NO_SMARTCARD,
      NTE_NO_KEY,
      SCARD_E_NO_SUCH_CERTIFICATE,
      NTE_BAD_KEYSET,
      SCARD_E_COMM_DATA_LOST,
      ERROR_DOWNGRADE_DETECTED,
      SEC_E_SMARTCARD_CERT_REVOKED,
      SEC_E_ISSUING_CA_UNTRUSTED,
      SEC_E_REVOCATION_OFFLINE_C,
      SEC_E_PKINIT_CLIENT_FAILURE,
      SEC_E_SMARTCARD_CERT_EXPIRED]"

definition table_c0000202 :: "ulong list" where
  "table_c0000202 = table_c0000202_1 @ table_c0000202_2 @ table_c0000202_3"

definition table_c0020001 :: "ulong list" where
  "table_c0020001 =
     [RPC_S_INVALID_STRING_BINDING,
      RPC_S_WRONG_KIND_OF_BINDING,
      ERROR_INVALID_HANDLE,
      RPC_S_PROTSEQ_NOT_SUPPORTED,
      RPC_S_INVALID_RPC_PROTSEQ,
      RPC_S_INVALID_STRING_UUID,
      RPC_S_INVALID_ENDPOINT_FORMAT,
      RPC_S_INVALID_NET_ADDR,
      RPC_S_NO_ENDPOINT_FOUND,
      RPC_S_INVALID_TIMEOUT,
      RPC_S_OBJECT_NOT_FOUND,
      RPC_S_ALREADY_REGISTERED,
      RPC_S_TYPE_ALREADY_REGISTERED,
      RPC_S_ALREADY_LISTENING,
      RPC_S_NO_PROTSEQS_REGISTERED,
      RPC_S_NOT_LISTENING,
      RPC_S_UNKNOWN_MGR_TYPE,
      RPC_S_UNKNOWN_IF,
      RPC_S_NO_BINDINGS,
      RPC_S_NO_PROTSEQS,
      RPC_S_CANT_CREATE_ENDPOINT,
      RPC_S_OUT_OF_RESOURCES,
      RPC_S_SERVER_UNAVAILABLE,
      RPC_S_SERVER_TOO_BUSY,
      RPC_S_INVALID_NETWORK_OPTIONS,
      RPC_S_NO_CALL_ACTIVE,
      RPC_S_CALL_FAILED,
      RPC_S_CALL_FAILED_DNE,
      RPC_S_PROTOCOL_ERROR,
      ERROR_MR_MID_NOT_FOUND,
      RPC_S_UNSUPPORTED_TRANS_SYN,
      ERROR_MR_MID_NOT_FOUND,
      RPC_S_UNSUPPORTED_TYPE,
      RPC_S_INVALID_TAG,
      RPC_S_INVALID_BOUND,
      RPC_S_NO_ENTRY_NAME,
      RPC_S_INVALID_NAME_SYNTAX,
      RPC_S_UNSUPPORTED_NAME_SYNTAX,
      ERROR_MR_MID_NOT_FOUND,
      RPC_S_UUID_NO_ADDRESS,
      RPC_S_DUPLICATE_ENDPOINT,
      RPC_S_UNKNOWN_AUTHN_TYPE,
      RPC_S_MAX_CALLS_TOO_SMALL,
      RPC_S_STRING_TOO_LONG,
      RPC_S_PROTSEQ_NOT_FOUND,
      RPC_S_PROCNUM_OUT_OF_RANGE,
      RPC_S_BINDING_HAS_NO_AUTH,
      RPC_S_UNKNOWN_AUTHN_SERVICE,
      RPC_S_UNKNOWN_AUTHN_LEVEL,
      RPC_S_INVALID_AUTH_IDENTITY,
      RPC_S_UNKNOWN_AUTHZ_SERVICE,
      EPT_S_INVALID_ENTRY,
      EPT_S_CANT_PERFORM_OP,
      EPT_S_NOT_REGISTERED,
      RPC_S_NOTHING_TO_EXPORT,
      RPC_S_INCOMPLETE_NAME,
      RPC_S_INVALID_VERS_OPTION,
      RPC_S_NO_MORE_MEMBERS,
      RPC_S_NOT_ALL_OBJS_UNEXPORTED,
      RPC_S_INTERFACE_NOT_FOUND,
      RPC_S_ENTRY_ALREADY_EXISTS,
      RPC_S_ENTRY_NOT_FOUND,
      RPC_S_NAME_SERVICE_UNAVAILABLE,
      RPC_S_INVALID_NAF_ID,
      RPC_S_CANNOT_SUPPORT,
      RPC_S_NO_CONTEXT_AVAILABLE,
      RPC_S_INTERNAL_ERROR,
      RPC_S_ZERO_DIVIDE,
      RPC_S_ADDRESS_ERROR,
      RPC_S_FP_DIV_ZERO,
      RPC_S_FP_UNDERFLOW,
      RPC_S_FP_OVERFLOW,
      RPC_S_CALL_IN_PROGRESS,
      RPC_S_NO_MORE_BINDINGS,
      RPC_S_GROUP_MEMBER_NOT_FOUND,
      EPT_S_CANT_CREATE,
      RPC_S_INVALID_OBJECT,
      ERROR_MR_MID_NOT_FOUND,
      RPC_S_NO_INTERFACES,
      RPC_S_CALL_CANCELLED,
      RPC_S_BINDING_INCOMPLETE,
      RPC_S_COMM_FAILURE,
      RPC_S_UNSUPPORTED_AUTHN_LEVEL,
      RPC_S_NO_PRINC_NAME,
      RPC_S_NOT_RPC_ERROR,
      ERROR_MR_MID_NOT_FOUND,
      RPC_S_SEC_PKG_ERROR,
      RPC_S_NOT_CANCELLED,
      ERROR_MR_MID_NOT_FOUND,
      ERROR_MR_MID_NOT_FOUND,
      ERROR_MR_MID_NOT_FOUND,
      ERROR_MR_MID_NOT_FOUND,
      ERROR_MR_MID_NOT_FOUND,
      ERROR_MR_MID_NOT_FOUND,
      ERROR_MR_MID_NOT_FOUND,
      ERROR_MR_MID_NOT_FOUND,
      ERROR_MR_MID_NOT_FOUND,
      RPC_S_INVALID_ASYNC_HANDLE,
      RPC_S_INVALID_ASYNC_CALL]"

definition table_c0030001 :: "ulong list" where
  "table_c0030001 =
     [RPC_X_NO_MORE_ENTRIES,
      RPC_X_SS_CHAR_TRANS_OPEN_FAIL,
      RPC_X_SS_CHAR_TRANS_SHORT_FILE,
      ERROR_INVALID_HANDLE,
      ERROR_INVALID_HANDLE,
      RPC_X_SS_CONTEXT_DAMAGED,
      RPC_X_SS_HANDLES_MISMATCH,
      RPC_X_SS_CANNOT_GET_CALL_HANDLE,
      RPC_X_NULL_REF_POINTER,
      RPC_X_ENUM_VALUE_OUT_OF_RANGE,
      RPC_X_BYTE_COUNT_TOO_SMALL,
      RPC_X_BAD_STUB_DATA]"

definition table_c0030059 :: "ulong list" where
  "table_c0030059 =
     [RPC_X_INVALID_ES_ACTION,
      RPC_X_WRONG_ES_VERSION,
      RPC_X_WRONG_STUB_VERSION,
      RPC_X_INVALID_PIPE_OBJECT,
      RPC_X_WRONG_PIPE_ORDER,
      RPC_X_WRONG_PIPE_VERSION,
      RPC_X_PIPE_CLOSED,
      RPC_X_PIPE_DISCIPLINE_ERROR,
      RPC_X_PIPE_EMPTY]"

definition table_c00a0001 :: "ulong list" where
  "table_c00a0001 =
     [ERROR_CTX_WINSTATION_NAME_INVALID,
      ERROR_CTX_INVALID_PD,
      ERROR_CTX_PD_NOT_FOUND,
      ERROR_MR_MID_NOT_FOUND,
      ERROR_MR_MID_NOT_FOUND,
      ERROR_CTX_CLOSE_PENDING,
      ERROR_CTX_NO_OUTBUF,
      ERROR_CTX_MODEM_INF_NOT_FOUND,
      ERROR_CTX_INVALID_MODEMNAME,
      ERROR_CTX_MODEM_RESPONSE_ERROR,
      ERROR_CTX_MODEM_RESPONSE_TIMEOUT,
      ERROR_CTX_MODEM_RESPONSE_NO_CARRIER,
      ERROR_CTX_MODEM_RESPONSE_NO_DIALTONE,
      ERROR_CTX_MODEM_RESPONSE_BUSY,
      ERROR_CTX_MODEM_RESPONSE_VOICE,
      ERROR_CTX_TD_ERROR,
      ERROR_MR_MID_NOT_FOUND,
      ERROR_CTX_LICENSE_CLIENT_INVALID,
      ERROR_CTX_LICENSE_NOT_AVAILABLE,
      ERROR_CTX_LICENSE_EXPIRED,
      ERROR_CTX_WINSTATION_NOT_FOUND,
      ERROR_CTX_WINSTATION_ALREADY_EXISTS,
      ERROR_CTX_WINSTATION_BUSY,
      ERROR_CTX_BAD_VIDEO_MODE,
      ERROR_MR_MID_NOT_FOUND,
      ERROR_MR_MID_NOT_FOUND,
      ERROR_MR_MID_NOT_FOUND,
      ERROR_MR_MID_NOT_FOUND,
      ERROR_MR_MID_NOT_FOUND,
      ERROR_MR_MID_NOT_FOUND,
      ERROR_MR_MID_NOT_FOUND,
      ERROR_MR_MID_NOT_FOUND,
      ERROR_MR_MID_NOT_FOUND,
      ERROR_CTX_GRAPHICS_INVALID,
      ERROR_MR_MID_NOT_FOUND,
      ERROR_CTX_NOT_CONSOLE,
      ERROR_MR_MID_NOT_FOUND,
      ERROR_CTX_CLIENT_QUERY_TIMEOUT,
      ERROR_CTX_CONSOLE_DISCONNECT,
      ERROR_CTX_CONSOLE_CONNECT,
      ERROR_MR_MID_NOT_FOUND,
      ERROR_CTX_SHADOW_DENIED,
      ERROR_CTX_WINSTATION_ACCESS_DENIED,
      ERROR_MR_MID_NOT_FOUND,
      ERROR_MR_MID_NOT_FOUND,
      ERROR_CTX_INVALID_WD,
      ERROR_CTX_WD_NOT_FOUND,
      ERROR_CTX_SHADOW_INVALID,
      ERROR_CTX_SHADOW_DISABLED,
      ERROR_MR_MID_NOT_FOUND,
      ERROR_CTX_CLIENT_LICENSE_NOT_SET,
      ERROR_CTX_CLIENT_LICENSE_IN_USE,
      ERROR_CTX_SHADOW_ENDED_BY_MODE_CHANGE,
      ERROR_CTX_SHADOW_NOT_RUNNING]"

definition table_c0130001 :: "ulong list" where
  "table_c0130001 =
     [ERROR_CLUSTER_INVALID_NODE,
      ERROR_CLUSTER_NODE_EXISTS,
      ERROR_CLUSTER_JOIN_IN_PROGRESS,
      ERROR_CLUSTER_NODE_NOT_FOUND,
      ERROR_CLUSTER_LOCAL_NODE_NOT_FOUND,
      ERROR_CLUSTER_NETWORK_EXISTS,
      ERROR_CLUSTER_NETWORK_NOT_FOUND,
      ERROR_CLUSTER_NETINTERFACE_EXISTS,
      ERROR_CLUSTER_NETINTERFACE_NOT_FOUND,
      ERROR_CLUSTER_INVALID_REQUEST,
      ERROR_CLUSTER_INVALID_NETWORK_PROVIDER,
      ERROR_CLUSTER_NODE_DOWN,
      ERROR_CLUSTER_NODE_UNREACHABLE,
      ERROR_CLUSTER_NODE_NOT_MEMBER,
      ERROR_CLUSTER_JOIN_NOT_IN_PROGRESS,
      ERROR_CLUSTER_INVALID_NETWORK,
      ERROR_MR_MID_NOT_FOUND,
      ERROR_CLUSTER_NODE_UP,
      ERROR_CLUSTER_NODE_PAUSED,
      ERROR_CLUSTER_NODE_NOT_PAUSED,
      ERROR_CLUSTER_NO_SECURITY_CONTEXT,
      ERROR_CLUSTER_NETWORK_NOT_INTERNAL]"

definition table_c0150001 :: "ulong list" where
  "table_c0150001 =
     [ERROR_SXS_SECTION_NOT_FOUND,
      ERROR_SXS_CANT_GEN_ACTCTX,
      ERROR_SXS_INVALID_ACTCTXDATA_FORMAT,
      ERROR_SXS_ASSEMBLY_NOT_FOUND,
      ERROR_SXS_MANIFEST_FORMAT_ERROR,
      ERROR_SXS_MANIFEST_PARSE_ERROR,
      ERROR_SXS_ACTIVATION_CONTEXT_DISABLED,
      ERROR_SXS_KEY_NOT_FOUND,
      ERROR_MR_MID_NOT_FOUND,
      ERROR_SXS_WRONG_SECTION_TYPE,
      ERROR_SXS_THREAD_QUERIES_DISABLED,
      ERROR_MR_MID_NOT_FOUND,
      ERROR_MR_MID_NOT_FOUND,
      ERROR_SXS_PROCESS_DEFAULT_ALREADY_SET]"

section \<open>The lookup\<close>

record error_table_entry =
  err_start :: ulong
  err_end :: ulong
  err_table :: "ulong list"

definition error_entry :: "ulong \<Rightarrow> ulong \<Rightarrow> ulong list \<Rightarrow> error_table_entry" where
  "error_entry s e t = \<lparr>err_start = s, err_end = e, err_table = t\<rparr>"

definition error_table :: "error_table_entry list" where
  "error_table =
     [error_entry 0x00000103 0x00000122 table_00000103,
      error_entry 0x40000002 0x4000000e table_40000002,
      error_entry 0x40000370 0x40000371 table_40000370,
      error_entry 0x40020056 0x40020057 table_40020056,
      error_entry 0x400200af 0x400200b0 table_400200af,
      error_entry 0x80000001 0x80000028 table_80000001,
      error_entry 0x80000288 0x8000028a table_80000288,
      error_entry 0x80090300 0x80090348 table_80090300,
      error_entry 0x80092010 0x80092014 table_80092010,
      error_entry 0x80096004 0x80096005 table_80096004,
      error_entry 0x80130001 0x80130006 table_80130001,
      error_entry 0xc0000001 0xc000019c table_c0000001,
      error_entry 0xc0000202 0xc000038e table_c0000202,
      error_entry 0xc0020001 0xc0020064 table_c0020001,
      error_entry 0xc0030001 0xc003000d table_c0030001,
      error_entry 0xc0030059 0xc0030062 table_c0030059,
      error_entry 0xc00a0001 0xc00a0037 table_c00a0001,
      error_entry 0xc0130001 0xc0130017 table_c0130001,
      error_entry 0xc0150001 0xc015000f table_c0150001,
      error_entry 0 0 []]"

text \<open>The loop over the entries; \<open>None\<close> when it ends without a return. Running behind the last
  entry, or reading a table behind its end, is \<open>OutOfBounds\<close>.\<close>

fun error_search :: "error_table_entry list \<Rightarrow> ulong \<Rightarrow> ulong option res" where
  "error_search [] status = Inl OutOfBounds"
| "error_search (table # tables) status =
    (if err_start table \<noteq> 0 then
       if status < err_start table then Inr None
       else if status < err_end table then
         let i = unat (status - err_start table) in
         if i < length (err_table table) then Inr (Some (err_table table ! i)) else Inl OutOfBounds
       else error_search tables status
     else Inr None)"

definition HIWORD :: "ulong \<Rightarrow> ulong" where
  "HIWORD l = drop_bit 16 l AND 0xffff"

definition LOWORD :: "ulong \<Rightarrow> ulong" where
  "LOWORD l = l AND 0xffff"

definition RtlNtStatusToDosError :: "ulong \<Rightarrow> ulong res" where
  "RtlNtStatusToDosError status =
     (if status = 0 \<or> status AND 0x20000000 \<noteq> 0 then Inr status
      else
        let status = (if status AND 0xf0000000 = 0xd0000000 then status AND NOT 0x10000000 else status) in
        bind_res (error_search error_table status) (\<lambda>r.
          case r of
            Some ret \<Rightarrow> Inr ret
          | None \<Rightarrow>
              if HIWORD status = 0xc001 then Inr (LOWORD status)
              else if HIWORD status = 0x8007 then Inr (LOWORD status)
              else Inr ERROR_MR_MID_NOT_FOUND))"

end
