(* ===== verification/NtErrorProps.thy ===== *)
theory NtErrorProps
  imports NtError BitmapScan
begin

text \<open>
  The conversion tables are consistent with the ranges they are searched by, and what
  \<open>RtlNtStatusToDosError\<close> computes from them.
\<close>

section \<open>The tables\<close>

named_theorems table_length \<open>the declared sizes of the tables\<close>

lemma table_lengths [table_length]:
  "length table_00000103 = 31"
  "length table_40000002 = 12"
  "length table_40000370 = 1"
  "length table_40020056 = 1"
  "length table_400200af = 1"
  "length table_80000001 = 39"
  "length table_80000288 = 2"
  "length table_80090300 = 72"
  "length table_80092010 = 4"
  "length table_80096004 = 1"
  "length table_80130001 = 5"
  "length table_c0020001 = 99"
  "length table_c0030001 = 12"
  "length table_c0030059 = 9"
  "length table_c00a0001 = 54"
  "length table_c0130001 = 22"
  "length table_c0150001 = 14"
  by (simp_all add: table_00000103_def table_40000002_def table_40000370_def table_40020056_def table_400200af_def table_80000001_def table_80000288_def table_80090300_def table_80092010_def table_80096004_def table_80130001_def table_c0020001_def table_c0030001_def table_c0030059_def table_c00a0001_def table_c0130001_def table_c0150001_def)

lemma length_table_c0000001_1: "length table_c0000001_1 = 137"
  by (simp add: table_c0000001_1_def)

lemma length_table_c0000001_2: "length table_c0000001_2 = 137"
  by (simp add: table_c0000001_2_def)

lemma length_table_c0000001_3: "length table_c0000001_3 = 137"
  by (simp add: table_c0000001_3_def)

lemma length_table_c0000001 [table_length]: "length table_c0000001 = 411"
  by (simp add: table_c0000001_def length_table_c0000001_1 length_table_c0000001_2 length_table_c0000001_3)

lemma length_table_c0000202_1: "length table_c0000202_1 = 132"
  by (simp add: table_c0000202_1_def)

lemma length_table_c0000202_2: "length table_c0000202_2 = 132"
  by (simp add: table_c0000202_2_def)

lemma length_table_c0000202_3: "length table_c0000202_3 = 132"
  by (simp add: table_c0000202_3_def)

lemma length_table_c0000202 [table_length]: "length table_c0000202 = 396"
  by (simp add: table_c0000202_def length_table_c0000202_1 length_table_c0000202_2 length_table_c0000202_3)

text \<open>An entry covers a nonempty range inside one class of status codes and its table has one
  element for each code.\<close>

definition entry_ok :: "error_table_entry \<Rightarrow> bool" where
  "entry_ok e \<longleftrightarrow> err_start e \<noteq> 0 \<and> unat (err_start e) + length (err_table e) = unat (err_end e) \<and>
     (let q = unat (err_start e) div 2 ^ 28 in
      q \<in> {0, 4, 8, 12} \<and> unat (err_end e) \<le> (q + 1) * 2 ^ 28)"

definition error_ranges :: "error_table_entry list" where
  "error_ranges = butlast error_table"

lemma error_table_ranges: "error_table = error_ranges @ [error_entry 0 0 []]"
  by (simp add: error_ranges_def error_table_def)

lemma error_ranges_ok: "list_all entry_ok error_ranges"
  by (simp add: error_ranges_def error_table_def error_entry_def entry_ok_def table_length)

lemma error_ranges_sorted: "sorted_wrt (\<lambda>a b. unat (err_end a) \<le> unat (err_start b)) error_ranges"
  by (simp add: error_ranges_def error_table_def error_entry_def)

section \<open>The search\<close>

definition covers :: "ulong \<Rightarrow> error_table_entry \<Rightarrow> bool" where
  "covers s e \<longleftrightarrow> err_start e \<le> s \<and> s < err_end e"

definition covered_error :: "ulong \<Rightarrow> error_table_entry \<Rightarrow> ulong" where
  "covered_error s e = err_table e ! (unat s - unat (err_start e))"

lemma error_search_find:
  assumes "list_all entry_ok es" "sorted_wrt (\<lambda>a b. unat (err_end a) \<le> unat (err_start b)) es"
  shows "error_search (es @ [error_entry 0 0 []]) s = Inr (map_option (covered_error s) (find (covers s) es))"
  using assms
proof (induction es)
  case Nil
  then show ?case by (simp add: error_entry_def)
next
  case (Cons e es)
  have e: "err_start e \<noteq> 0" "unat (err_start e) + length (err_table e) = unat (err_end e)"
    using Cons.prems(1) by (auto simp: entry_ok_def)
  consider "s < err_start e" | "err_start e \<le> s" "s < err_end e" | "err_start e \<le> s" "\<not> s < err_end e"
    by force
  then show ?case
  proof cases
    case 1
    have "\<not> covers s x" if "x \<in> set es" for x
      using Cons.prems(2) e that 1 by (auto simp: covers_def word_less_nat_alt word_le_nat_alt)
    then have "find (covers s) (e # es) = None"
      using 1 by (auto simp: find_None_iff covers_def)
    then show ?thesis using 1 e by simp
  next
    case 2
    then have "unat (s - err_start e) = unat s - unat (err_start e)" by (simp add: unat_sub)
    moreover have "unat s - unat (err_start e) < length (err_table e)"
      using 2 e by (simp add: word_less_nat_alt word_le_nat_alt)
    ultimately show ?thesis using 2 e by (simp add: covers_def covered_error_def)
  next
    case 3
    have "\<not> s < err_start e" using 3(1) by simp
    then show ?thesis using 3 Cons e by (simp add: covers_def)
  qed
qed

lemma error_table_search:
  "error_search error_table s = Inr (map_option (covered_error s) (find (covers s) error_ranges))"
  unfolding error_table_ranges by (rule error_search_find [OF error_ranges_ok error_ranges_sorted])

text \<open>The code as a map: a table element for a covered status, the low half for the two facilities
  that carry a Win32 code.\<close>

definition status_map :: "ulong \<Rightarrow> ulong" where
  "status_map s =
     (case find (covers s) error_ranges of
        Some e \<Rightarrow> covered_error s e
      | None \<Rightarrow> if HIWORD s \<in> {0xc001, 0x8007} then LOWORD s else ERROR_MR_MID_NOT_FOUND)"

definition status_norm :: "ulong \<Rightarrow> ulong" where
  "status_norm s = (if s AND 0xf0000000 = 0xd0000000 then s AND NOT 0x10000000 else s)"

lemma RtlNtStatusToDosError_map:
  "RtlNtStatusToDosError s =
     Inr (if s = 0 \<or> s AND 0x20000000 \<noteq> 0 then s else status_map (status_norm s))"
proof (cases "s = 0 \<or> s AND 0x20000000 \<noteq> 0")
  case True
  then show ?thesis by (simp add: RtlNtStatusToDosError_def)
next
  case False
  have "RtlNtStatusToDosError s = bind_res (error_search error_table (status_norm s)) (\<lambda>r.
      case r of Some ret \<Rightarrow> Inr ret
      | None \<Rightarrow> if HIWORD (status_norm s) = 0xc001 then Inr (LOWORD (status_norm s))
              else if HIWORD (status_norm s) = 0x8007 then Inr (LOWORD (status_norm s))
              else Inr ERROR_MR_MID_NOT_FOUND)"
    using False unfolding RtlNtStatusToDosError_def status_norm_def Let_def by argo
  also have "\<dots> = Inr (status_map (status_norm s))"
    unfolding error_table_search status_map_def by (auto split: option.split)
  finally show ?thesis using False by simp
qed

lemma and_const_unat:
  fixes s :: ulong
  shows "s AND 0x20000000 \<noteq> 0 \<longleftrightarrow> unat s div 2 ^ 29 mod 2 = 1"
    and "s AND 0xf0000000 = 0xd0000000 \<longleftrightarrow> unat s div 2 ^ 28 = 13"
proof -
  show "s AND 0x20000000 \<noteq> 0 \<longleftrightarrow> unat s div 2 ^ 29 mod 2 = 1"
    using and_mask_unat [of 29 1 s] by (simp add: mask_eq_exp_minus_1 push_bit_eq_mult)
  have m: "(0xf0000000 :: ulong) = push_bit 28 (mask 4)" "(0xd0000000 :: ulong) = push_bit 28 13"
    by (simp_all add: mask_eq_exp_minus_1 push_bit_eq_mult)
  have a: "s AND push_bit 28 (mask 4) = push_bit 28 (drop_bit 28 s)"
  proof (rule bit_word_eqI)
    fix k
    assume "k < LENGTH(32)"
    then show "bit (s AND push_bit 28 (mask 4)) k = bit (push_bit 28 (drop_bit 28 s)) k"
      by (cases "28 \<le> k") (auto simp: bit_and_iff bit_push_bit_iff bit_mask_iff bit_drop_bit_eq)
  qed
  have "push_bit 28 (drop_bit 28 s) = push_bit 28 13 \<longleftrightarrow> drop_bit 28 s = 13"
  proof
    assume "push_bit 28 (drop_bit 28 s) = push_bit 28 13"
    then have "drop_bit 28 (push_bit 28 (drop_bit 28 s)) = drop_bit 28 (push_bit 28 13)" by simp
    moreover have "drop_bit 28 (push_bit 28 (drop_bit 28 s)) = drop_bit 28 s"
    proof (rule bit_word_eqI)
      fix k
      have "28 + k < 32" if "bit s (28 + k)" using bit_imp_le_length [OF that] by simp
      then show "bit (drop_bit 28 (push_bit 28 (drop_bit 28 s))) k = bit (drop_bit 28 s) k"
        by (auto simp: bit_drop_bit_eq bit_push_bit_iff)
    qed
    ultimately show "drop_bit 28 s = 13" by simp
  qed simp
  also have "\<dots> \<longleftrightarrow> unat (drop_bit 28 s) = 13" by (simp add: word_unat_eq_iff)
  finally show "s AND 0xf0000000 = 0xd0000000 \<longleftrightarrow> unat s div 2 ^ 28 = 13"
    unfolding m a by (simp add: unat_drop)
qed

text \<open>No covered status is a customer code or of the class 0xd.\<close>

lemma covers_class:
  assumes "e \<in> set error_ranges" "covers s e"
  shows "s \<noteq> 0" "s AND 0x20000000 = 0" "status_norm s = s"
proof -
  have ok: "entry_ok e" using assms(1) error_ranges_ok by (simp add: list_all_iff)
  define q where "q = unat (err_start e) div 2 ^ 28"
  have q: "q \<in> {0, 4, 8, 12}" "unat (err_end e) \<le> (q + 1) * 2 ^ 28" "err_start e \<noteq> 0"
    using ok by (simp_all add: entry_ok_def q_def Let_def)
  have "q * 2 ^ 28 \<le> unat (err_start e)" by (simp add: q_def)
  then have b: "q * 2 ^ 28 \<le> unat s" "unat s < (q + 1) * 2 ^ 28"
    using assms(2) q(2) by (simp_all add: covers_def word_le_nat_alt word_less_nat_alt)
  then have "unat s div 2 ^ 28 = q" by (intro div_nat_eqI) (simp_all add: mult.commute)
  moreover from this have "unat s div 2 ^ 29 = q div 2"
    using div_mult2_eq [of "unat s" "2 ^ 28" 2] by simp
  ultimately show "s AND 0x20000000 = 0" "status_norm s = s"
    using q(1) and_const_unat [of s] by (auto simp: status_norm_def)
  show "s \<noteq> 0" using assms(2) q(3) by (auto simp: covers_def)
qed

lemma find_unique:
  "sorted_wrt (\<lambda>a b. unat (err_end a) \<le> unat (err_start b)) es \<Longrightarrow> e \<in> set es \<Longrightarrow> covers s e \<Longrightarrow>
   find (covers s) es = Some e"
proof (induction es)
  case (Cons a es)
  show ?case
  proof (cases "covers s a")
    case True
    have "e = a"
    proof (rule ccontr)
      assume "e \<noteq> a"
      then have "unat (err_end a) \<le> unat (err_start e)" using Cons.prems by auto
      then show False using True Cons.prems(3) by (simp add: covers_def word_le_nat_alt word_less_nat_alt)
    qed
    then show ?thesis using True by simp
  next
    case False
    then show ?thesis using Cons by auto
  qed
qed simp

lemma RtlNtStatusToDosError_covered:
  assumes "e \<in> set error_ranges" "covers s e"
  shows "RtlNtStatusToDosError s = Inr (covered_error s e)"
  using covers_class [OF assms] find_unique [OF error_ranges_sorted assms]
  by (simp add: RtlNtStatusToDosError_map status_map_def)

section \<open>Properties\<close>


text \<open>Every element of every conversion table is reachable and is the result for exactly its own
  status: status \<open>start + i\<close> of a range maps to element \<open>i\<close> of its table.\<close>

theorem RtlNtStatusToDosError_table:
  assumes "e \<in> set error_table" "i < length (err_table e)"
  shows "RtlNtStatusToDosError (err_start e + word_of_nat i) = Inr (err_table e ! i)"
proof -
  have e: "e \<in> set error_ranges" using assms unfolding error_table_ranges by (auto simp: error_entry_def)
  then have "entry_ok e" using error_ranges_ok by (simp add: list_all_iff)
  then have len: "unat (err_start e) + length (err_table e) = unat (err_end e)" by (simp add: entry_ok_def)
  moreover have "unat (err_end e) < 2 ^ 32" by (rule ulong_bound)
  ultimately have "unat (err_start e) + i < 2 ^ LENGTH(32)" using assms(2) by simp
  moreover from this have i: "unat (word_of_nat i :: ulong) = i" by (subst unat_of_nat) simp
  ultimately have u: "unat (err_start e + word_of_nat i) = unat (err_start e) + i"
    using unat_add_small [of "err_start e" "word_of_nat i"] by (simp only:)
  then have "covers (err_start e + word_of_nat i) e"
    using len assms(2) by (simp add: covers_def word_le_nat_alt word_less_nat_alt)
  from RtlNtStatusToDosError_covered [OF e this] show ?thesis using u by (simp add: covered_error_def)
qed

theorem RtlNtStatusToDosError_table_witness:
  "RtlNtStatusToDosError (0xc0000001 + word_of_nat 33) = Inr ERROR_ACCESS_DENIED"
  using RtlNtStatusToDosError_table [of "error_entry 0xc0000001 0xc000019c table_c0000001" 33]
  by (simp add: error_entry_def error_table_def table_length)
     (simp add: table_c0000001_def table_c0000001_1_def)

end
