(* ===== verification/LargeInt.thy ===== *)
theory LargeInt
  imports BitmapScan "HOL-Library.Signed_Division"
begin

text \<open>
  The 64-bit arithmetic helpers of \<open>src/src/ntdll/large_int.c\<close>. \<open>LONGLONG\<close> and \<open>ULONGLONG\<close> are
  the same 64-bit word, read by \<open>sint\<close> or \<open>unat\<close>; a signed quotient truncates toward zero. A zero
  divisor is the fault \<open>DivByZero\<close>. A shift count is below 64.
\<close>

section \<open>Operations\<close>

definition RtlLargeIntegerAdd :: "ulonglong \<Rightarrow> ulonglong \<Rightarrow> ulonglong" where
  "RtlLargeIntegerAdd a b = a + b"

definition RtlLargeIntegerSubtract :: "ulonglong \<Rightarrow> ulonglong \<Rightarrow> ulonglong" where
  "RtlLargeIntegerSubtract a b = a - b"

definition RtlLargeIntegerNegate :: "ulonglong \<Rightarrow> ulonglong" where
  "RtlLargeIntegerNegate a = - a"

definition RtlLargeIntegerShiftLeft :: "ulonglong \<Rightarrow> nat \<Rightarrow> ulonglong" where
  "RtlLargeIntegerShiftLeft a count = push_bit count a"

definition RtlLargeIntegerShiftRight :: "ulonglong \<Rightarrow> nat \<Rightarrow> ulonglong" where
  "RtlLargeIntegerShiftRight a count = drop_bit count a"

definition RtlLargeIntegerArithmeticShift :: "ulonglong \<Rightarrow> nat \<Rightarrow> ulonglong" where
  "RtlLargeIntegerArithmeticShift a count = signed_drop_bit count a"

text \<open>The result and \<open>*rem\<close>.\<close>

definition RtlLargeIntegerDivide :: "ulonglong \<Rightarrow> ulonglong \<Rightarrow> (ulonglong \<times> ulonglong) res" where
  "RtlLargeIntegerDivide a b =
     (if b = 0 then Inl DivByZero else let ret = a div b in Inr (ret, a - ret * b))"

definition RtlConvertLongToLargeInteger :: "ulong \<Rightarrow> ulonglong" where
  "RtlConvertLongToLargeInteger a = scast a"

definition RtlConvertUlongToLargeInteger :: "ulong \<Rightarrow> ulonglong" where
  "RtlConvertUlongToLargeInteger a = ucast a"

definition RtlEnlargedIntegerMultiply :: "ulong \<Rightarrow> ulong \<Rightarrow> ulonglong" where
  "RtlEnlargedIntegerMultiply a b = scast a * scast b"

definition RtlEnlargedUnsignedMultiply :: "ulong \<Rightarrow> ulong \<Rightarrow> ulonglong" where
  "RtlEnlargedUnsignedMultiply a b = ucast a * ucast b"

text \<open>The portable branch: the quotient is cut to 32 bits.\<close>

definition RtlEnlargedUnsignedDivide :: "ulonglong \<Rightarrow> ulong \<Rightarrow> (ulong \<times> ulong) res" where
  "RtlEnlargedUnsignedDivide a b =
     (if b = 0 then Inl DivByZero else Inr (ucast (a div ucast b), ucast (a mod ucast b)))"

definition sdiv64 :: "ulonglong \<Rightarrow> ulonglong \<Rightarrow> ulonglong" where
  "sdiv64 a b = word_of_int (sint a sdiv sint b)"

definition smod64 :: "ulonglong \<Rightarrow> ulonglong \<Rightarrow> ulonglong" where
  "smod64 a b = word_of_int (sint a smod sint b)"

definition RtlExtendedLargeIntegerDivide :: "ulonglong \<Rightarrow> ulong \<Rightarrow> (ulonglong \<times> ulong) res" where
  "RtlExtendedLargeIntegerDivide a b =
     (if b = 0 then Inl DivByZero
      else let ret = sdiv64 a (scast b) in Inr (ret, ucast (a - scast b * ret)))"

definition RtlExtendedIntegerMultiply :: "ulonglong \<Rightarrow> ulong \<Rightarrow> ulonglong" where
  "RtlExtendedIntegerMultiply a b = a * scast b"

definition LOWER_32 :: "ulonglong \<Rightarrow> ulonglong" where
  "LOWER_32 A = A AND 0xffffffff"

definition UPPER_32 :: "ulonglong \<Rightarrow> ulonglong" where
  "UPPER_32 A = drop_bit 32 A"

definition RtlExtendedMagicDivide :: "ulonglong \<Rightarrow> ulonglong \<Rightarrow> nat \<Rightarrow> ulonglong" where
  "RtlExtendedMagicDivide a b shift =
     (let (a_high, a_low, positive) =
            (if sint a < 0 then (UPPER_32 (- a), LOWER_32 (- a), False)
             else (UPPER_32 a, LOWER_32 a, True));
          b_high = UPPER_32 b; b_low = LOWER_32 b;
          ah_bl = a_high * b_low; al_bh = a_low * b_high;
          result = drop_bit shift
            (a_high * b_high + UPPER_32 ah_bl + UPPER_32 al_bh +
             UPPER_32 (LOWER_32 ah_bl + LOWER_32 al_bh + UPPER_32 (a_low * b_low)))
      in if positive then result else - result)"

definition alldiv :: "ulonglong \<Rightarrow> ulonglong \<Rightarrow> ulonglong res" where
  "alldiv a b = (if b = 0 then Inl DivByZero else Inr (sdiv64 a b))"

definition allmul :: "ulonglong \<Rightarrow> ulonglong \<Rightarrow> ulonglong" where
  "allmul a b = a * b"

definition allrem :: "ulonglong \<Rightarrow> ulonglong \<Rightarrow> ulonglong res" where
  "allrem a b = (if b = 0 then Inl DivByZero else Inr (smod64 a b))"

definition aulldiv :: "ulonglong \<Rightarrow> ulonglong \<Rightarrow> ulonglong res" where
  "aulldiv a b = (if b = 0 then Inl DivByZero else Inr (a div b))"

definition aullrem :: "ulonglong \<Rightarrow> ulonglong \<Rightarrow> ulonglong res" where
  "aullrem a b = (if b = 0 then Inl DivByZero else Inr (a mod b))"

section \<open>The 128-bit product of the magic division\<close>

lemma unat_UPPER_32: "unat (UPPER_32 w) = unat w div 2 ^ 32"
  by (simp add: UPPER_32_def unat_drop)

lemma unat_LOWER_32: "unat (LOWER_32 w) = unat w mod 2 ^ 32"
proof -
  have "LOWER_32 w = take_bit 32 w"
    by (simp add: LOWER_32_def take_bit_eq_mask mask_eq_exp_minus_1)
  then show ?thesis by (simp add: unsigned_take_bit_eq take_bit_nat_def)
qed

lemma unat_add_3: "unat (x + y + z :: ulonglong) = (unat x + unat y + unat z) mod 2 ^ 64"
  by (simp add: unat_word_ariths mod_simps)

lemma unat_add_4: "unat (x + y + z + v :: ulonglong) = (unat x + unat y + unat z + unat v) mod 2 ^ 64"
  by (simp add: unat_word_ariths mod_simps)

lemma ulonglong_bound: "unat (w :: ulonglong) < 2 ^ 64"
  using unsigned_less [of w] by simp

lemma unat_mult_32:
  "unat x < 2 ^ 32 \<Longrightarrow> unat y < 2 ^ 32 \<Longrightarrow> unat (x * y :: ulonglong) = unat x * unat y"
proof -
  assume "unat x < 2 ^ 32" "unat y < 2 ^ 32"
  then have "unat x * unat y < 2 ^ 32 * 2 ^ 32" by (intro mult_strict_mono) auto
  then show ?thesis by (simp add: unat_word_ariths)
qed

text \<open>The schoolbook sum is the upper half of the product.\<close>

lemma schoolbook_high:
  fixes ah al bh bl :: nat
  defines "K \<equiv> 2 ^ 32"
  shows "ah * bh + ah * bl div K + al * bh div K + (ah * bl mod K + al * bh mod K + al * bl div K) div K
    = (ah * K + al) * (bh * K + bl) div (K * K)"
proof -
  let ?x = "ah * bl" and ?y = "al * bh" and ?z = "al * bl"
  have K: "0 < K" by (simp add: K_def)
  have "(ah * K + al) * (bh * K + bl) = (ah * bh * K + ?x + ?y) * K + ?z"
    by (simp add: algebra_simps)
  then have "(ah * K + al) * (bh * K + bl) div (K * K) = (ah * bh * K + ?x + ?y + ?z div K) div K"
    using K by (simp add: div_mult2_eq)
  also have "ah * bh * K + ?x + ?y + ?z div K =
      (ah * bh + ?x div K + ?y div K) * K + (?x mod K + ?y mod K + ?z div K)"
    by (simp add: algebra_simps)
  also have "\<dots> div K = ah * bh + ?x div K + ?y div K + (?x mod K + ?y mod K + ?z div K) div K"
    using K by simp
  finally show ?thesis by simp
qed

lemma magic_high:
  fixes m b :: ulonglong
  shows "unat (UPPER_32 m * UPPER_32 b + UPPER_32 (UPPER_32 m * LOWER_32 b) + UPPER_32 (LOWER_32 m * UPPER_32 b) +
      UPPER_32 (LOWER_32 (UPPER_32 m * LOWER_32 b) + LOWER_32 (LOWER_32 m * UPPER_32 b) +
        UPPER_32 (LOWER_32 m * LOWER_32 b))) = unat m * unat b div 2 ^ 64"
proof -
  let ?K = "2 ^ 32 :: nat"
  define ah al bh bl where "ah = unat (UPPER_32 m)" and "al = unat (LOWER_32 m)"
    and "bh = unat (UPPER_32 b)" and "bl = unat (LOWER_32 b)"
  note defs = ah_def al_def bh_def bl_def
  have lt: "ah < ?K" "al < ?K" "bh < ?K" "bl < ?K"
    using ulonglong_bound [of m] ulonglong_bound [of b]
    by (simp_all add: defs unat_UPPER_32 unat_LOWER_32 div_less_iff_less_mult)
  have mb: "unat m = ah * ?K + al" "unat b = bh * ?K + bl"
    by (simp_all add: defs unat_UPPER_32 unat_LOWER_32)
  have p: "unat (UPPER_32 m * LOWER_32 b) = ah * bl" "unat (LOWER_32 m * UPPER_32 b) = al * bh"
    "unat (LOWER_32 m * LOWER_32 b) = al * bl" "unat (UPPER_32 m * UPPER_32 b) = ah * bh"
    using lt unfolding defs by (simp_all add: unat_mult_32)
  let ?in = "LOWER_32 (UPPER_32 m * LOWER_32 b) + LOWER_32 (LOWER_32 m * UPPER_32 b) +
        UPPER_32 (LOWER_32 m * LOWER_32 b)"
  have "al * bl < ?K * ?K" using lt by (intro mult_strict_mono) auto
  then have "al * bl div ?K < ?K" by (simp add: div_less_iff_less_mult)
  moreover have "ah * bl mod ?K < ?K" "al * bh mod ?K < ?K" by simp_all
  ultimately have "ah * bl mod ?K + al * bh mod ?K + al * bl div ?K < ?K + ?K + ?K"
    by (intro add_strict_mono)
  then have "ah * bl mod ?K + al * bh mod ?K + al * bl div ?K < 2 ^ 64"
    by (rule less_le_trans) simp
  then have u: "unat ?in = ah * bl mod ?K + al * bh mod ?K + al * bl div ?K"
    unfolding unat_add_3 unat_LOWER_32 [of "_ * _"] unat_UPPER_32 [of "_ * _"] p by (rule mod_less)
  let ?s = "ah * bh + ah * bl div ?K + al * bh div ?K + (ah * bl mod ?K + al * bh mod ?K + al * bl div ?K) div ?K"
  have "?s = unat m * unat b div (?K * ?K)" unfolding mb by (rule schoolbook_high)
  moreover have "unat m * unat b div (?K * ?K) < 2 ^ 64"
  proof -
    have "unat m * unat b < 2 ^ 64 * 2 ^ 64"
      using ulonglong_bound [of m] ulonglong_bound [of b] by (intro mult_strict_mono) auto
    then show ?thesis by (simp add: div_less_iff_less_mult)
  qed
  ultimately have s: "?s = unat m * unat b div 2 ^ 64" "?s < 2 ^ 64" by simp_all
  have "unat (UPPER_32 m * UPPER_32 b + UPPER_32 (UPPER_32 m * LOWER_32 b) + UPPER_32 (LOWER_32 m * UPPER_32 b) +
      UPPER_32 ?in) = ?s mod 2 ^ 64"
    unfolding unat_add_4 unat_UPPER_32 [of "_ * _"] unat_UPPER_32 [of ?in] u p ..
  then show ?thesis using s by simp
qed

text \<open>The result read as a signed number. The magnitude of the dividend is at most \<open>2 ^ 63\<close>, so the
  upper half of the product is below \<open>2 ^ 63\<close> and its sign bit is clear.\<close>

lemma sint_word_int: "- (2 ^ 63) \<le> k \<Longrightarrow> k < 2 ^ 63 \<Longrightarrow> sint (word_of_int k :: ulonglong) = k"
  by (simp add: signed_of_int signed_take_bit_int_eq_self)

lemma unat_word_int: "0 \<le> k \<Longrightarrow> k < 2 ^ 64 \<Longrightarrow> unat (word_of_int k :: ulonglong) = nat k"
  by (simp add: unsigned_of_int take_bit_int_eq_self)

lemma unat_magnitude:
  fixes a :: ulonglong
  shows "unat (if sint a < 0 then - a else a) = nat \<bar>sint a\<bar>" "nat \<bar>sint a\<bar> \<le> 2 ^ 63"
proof -
  have b: "- (2 ^ 63) \<le> sint a" "sint a < 2 ^ 63"
    using sint_ge [of a] sint_lt [of a] by simp_all
  then show "nat \<bar>sint a\<bar> \<le> 2 ^ 63" by auto
  have "(if sint a < 0 then - a else a) = word_of_int \<bar>sint a\<bar>" by (simp add: abs_if)
  then show "unat (if sint a < 0 then - a else a) = nat \<bar>sint a\<bar>"
    using b by (simp only:) (rule unat_word_int, auto)
qed

lemma RtlExtendedMagicDivide_value:
  "sint (RtlExtendedMagicDivide a b shift) =
     (let q = (nat \<bar>sint a\<bar> * unat b) div 2 ^ (64 + shift) in if sint a < 0 then - int q else int q)"
proof -
  define m where "m = (if sint a < 0 then - a else a)"
  define r where "r = drop_bit shift (UPPER_32 m * UPPER_32 b + UPPER_32 (UPPER_32 m * LOWER_32 b) +
      UPPER_32 (LOWER_32 m * UPPER_32 b) +
      UPPER_32 (LOWER_32 (UPPER_32 m * LOWER_32 b) + LOWER_32 (LOWER_32 m * UPPER_32 b) +
        UPPER_32 (LOWER_32 m * LOWER_32 b)))"
  define q where "q = (nat \<bar>sint a\<bar> * unat b) div 2 ^ (64 + shift)"
  have m: "unat m = nat \<bar>sint a\<bar>" using unat_magnitude(1) [of a] by (simp only: m_def)
  have r: "unat r = q"
    unfolding r_def unat_drop magic_high m q_def by (simp add: power_add div_mult2_eq)
  have "nat \<bar>sint a\<bar> * unat b < 2 ^ 63 * 2 ^ 64"
  proof -
    have "nat \<bar>sint a\<bar> * unat b \<le> 2 ^ 63 * unat b" using unat_magnitude(2) [of a] by (rule mult_right_mono) simp
    also have "\<dots> < 2 ^ 63 * 2 ^ 64" using ulonglong_bound [of b] by (intro mult_strict_left_mono) simp_all
    finally show ?thesis .
  qed
  then have "(nat \<bar>sint a\<bar> * unat b) div 2 ^ 64 < 2 ^ 63" by (simp add: div_less_iff_less_mult)
  then have q: "q < 2 ^ 63"
    unfolding q_def power_add div_mult2_eq by (rule le_less_trans [OF div_le_dividend])
  have rw: "r = word_of_int (int q)"
  proof -
    have "r = word_of_nat (unat r)" by simp
    then show ?thesis using r by simp
  qed
  have "RtlExtendedMagicDivide a b shift = (if sint a < 0 then - r else r)"
    by (simp add: RtlExtendedMagicDivide_def Let_def r_def m_def)
  also have "\<dots> = word_of_int (if sint a < 0 then - int q else int q)" by (simp add: rw)
  finally have "sint (RtlExtendedMagicDivide a b shift) = (if sint a < 0 then - int q else int q)"
    using q by (simp only:) (rule sint_word_int, auto)
  then show ?thesis by (simp add: Let_def q_def)
qed

end
