(* ===== verification/NumStr.thy ===== *)
theory NumStr
  imports LargeInt
begin

text \<open>
  Numbers and strings: the conversions of \<open>src/src/ntdll/string.c\<close> and the two of
  \<open>src/src/ntdll/large_int.c\<close>. Strings are byte lists with their terminating 0; the character
  buffers of the code are counted, so an overrun of one is the fault \<open>OutOfBounds\<close>.
\<close>

section \<open>Digits\<close>

text \<open>The \<open>do \<dots> while\<close> loop that every conversion shares, from the end of its local buffer
  backwards: \<open>pos\<close> is the number of free bytes in front, \<open>acc\<close> the bytes written so far, and
  \<open>alpha\<close> the letter of digit ten. A zero radix traps; a full buffer is \<open>OutOfBounds\<close>.\<close>

definition digit_char :: "nat \<Rightarrow> nat \<Rightarrow> uchar" where
  "digit_char alpha digit = (if digit < 10 then word_of_nat (48 + digit) else word_of_nat (alpha + digit - 10))"

function digits_loop :: "nat \<Rightarrow> 'a::len word \<Rightarrow> nat \<Rightarrow> 'a word \<Rightarrow> uchar list \<Rightarrow> uchar list res" where
  "digits_loop alpha radix pos value acc =
     (if radix = 0 then Inl DivByZero
      else if pos = 0 then Inl OutOfBounds
      else
        let acc = digit_char alpha (unat (value mod radix)) # acc; value = value div radix in
        if value \<noteq> 0 then digits_loop alpha radix (pos - 1) value acc else Inr acc)"
  by pat_completeness auto
termination by (relation "measure (\<lambda>(_, _, pos, _). pos)") auto

declare digits_loop.simps [simp del]

section \<open>\<open>string.c\<close>\<close>

text \<open>The result is what \<open>memcpy\<close> puts at \<open>str\<close>, with its terminating 0.\<close>

definition NTDLL_ultoa :: "ulong \<Rightarrow> ulong \<Rightarrow> uchar list res" where
  "NTDLL_ultoa value radix = digits_loop 97 radix 32 value [0]"

definition NTDLL_ltoa :: "ulong \<Rightarrow> ulong \<Rightarrow> uchar list res" where
  "NTDLL_ltoa value radix =
     (let (negative, val) = (if sint value < 0 \<and> radix = 10 then (True, - value) else (False, value)) in
      bind_res (digits_loop 97 radix 32 val [0]) (\<lambda>acc.
        if negative then (if length acc < 33 then Inr (45 # acc) else Inl OutOfBounds) else Inr acc))"

definition NTDLL_itoa :: "ulong \<Rightarrow> ulong \<Rightarrow> uchar list res" where
  "NTDLL_itoa x radix = NTDLL_ltoa x radix"

definition ui64toa :: "ulonglong \<Rightarrow> ulong \<Rightarrow> uchar list res" where
  "ui64toa value radix = digits_loop 97 (scast radix) 64 value [0]"

definition i64toa :: "ulonglong \<Rightarrow> ulong \<Rightarrow> uchar list res" where
  "i64toa value radix =
     (let (negative, val) = (if sint value < 0 \<and> radix = 10 then (True, - value) else (False, value)) in
      bind_res (digits_loop 97 (scast radix) 64 val [0]) (\<lambda>acc.
        if negative then (if length acc < 65 then Inr (45 # acc) else Inl OutOfBounds) else Inr acc))"

text \<open>\<open>_atoi64\<close> on the bytes from \<open>str\<close> on; reading behind the last one is \<open>OutOfBounds\<close>.\<close>

fun skip_blanks :: "uchar list \<Rightarrow> uchar list" where
  "skip_blanks [] = []"
| "skip_blanks (c # cs) = (if c = 32 \<or> (9 \<le> c \<and> c \<le> 13) then skip_blanks cs else c # cs)"

fun atoi_loop :: "uchar list \<Rightarrow> ulonglong \<Rightarrow> ulonglong res" where
  "atoi_loop [] RunningTotal = Inl OutOfBounds"
| "atoi_loop (c # cs) RunningTotal =
    (if 48 \<le> c \<and> c \<le> 57 then atoi_loop cs (RunningTotal * 10 + ucast c - 48) else Inr RunningTotal)"

definition atoi64 :: "uchar list \<Rightarrow> ulonglong res" where
  "atoi64 str =
     (case skip_blanks str of
        [] \<Rightarrow> Inl OutOfBounds
      | c # cs \<Rightarrow>
          if c = 43 then atoi_loop cs 0
          else if c = 45 then bind_res (atoi_loop cs 0) (\<lambda>t. Inr (- t))
          else atoi_loop (c # cs) 0)"

text \<open>\<open>_memicmp\<close>, \<open>_strupr\<close>, \<open>_strlwr\<close> with the case mapping of the C locale.\<close>

definition c_tolower :: "uchar \<Rightarrow> uchar" where
  "c_tolower c = (if 65 \<le> c \<and> c \<le> 90 then c + 32 else c)"

definition c_toupper :: "uchar \<Rightarrow> uchar" where
  "c_toupper c = (if 97 \<le> c \<and> c \<le> 122 then c - 32 else c)"

fun memicmp :: "uchar list \<Rightarrow> uchar list \<Rightarrow> nat \<Rightarrow> int res" where
  "memicmp s1 s2 0 = Inr 0"
| "memicmp (a # s1) (b # s2) (Suc len) =
    (let ret = sint (c_tolower a) - sint (c_tolower b) in
     if ret \<noteq> 0 then Inr ret else memicmp s1 s2 len)"
| "memicmp _ _ (Suc len) = Inl OutOfBounds"

fun str_map :: "(uchar \<Rightarrow> uchar) \<Rightarrow> uchar list \<Rightarrow> uchar list res" where
  "str_map f [] = Inl OutOfBounds"
| "str_map f (c # cs) = (if c \<noteq> 0 then bind_res (str_map f cs) (\<lambda>r. Inr (f c # r)) else Inr (c # cs))"

definition strupr :: "uchar list \<Rightarrow> uchar list res" where
  "strupr str = str_map c_toupper str"

definition strlwr :: "uchar list \<Rightarrow> uchar list res" where
  "strlwr str = str_map c_tolower str"

section \<open>\<open>RtlLargeIntegerToChar\<close> and \<open>RtlInt64ToUnicodeString\<close>\<close>

text \<open>The status and the bytes stored at \<open>str\<close>, whose contents are \<open>None\<close> for a null pointer.\<close>

definition RtlLargeIntegerToChar ::
  "ulonglong \<Rightarrow> ulong \<Rightarrow> ulong \<Rightarrow> uchar list option \<Rightarrow> (ntstatus \<times> uchar list option) res" where
  "RtlLargeIntegerToChar value base length' str =
     (if base \<notin> {0, 2, 8, 10, 16} then Inr (STATUS_INVALID_PARAMETER, str)
      else
        let base = (if base = 0 then 10 else base) in
        bind_res (digits_loop 65 (ucast base) 64 value [0]) (\<lambda>pos.
          let len = length pos - 1 in
          if word_of_nat len > length' then Inr (STATUS_BUFFER_OVERFLOW, str)
          else case str of
            None \<Rightarrow> Inr (STATUS_ACCESS_VIOLATION, str)
          | Some s \<Rightarrow>
              let src = (if word_of_nat len = length' then take len pos else pos) in
              if length src \<le> length s then Inr (STATUS_SUCCESS, Some (src @ drop (length src) s))
              else Inl OutOfBounds))"

record unicode_string =
  us_Length :: ushort
  us_MaximumLength :: ushort
  us_Buffer :: "ushort list option"

definition RtlInt64ToUnicodeString ::
  "ulonglong \<Rightarrow> ulong \<Rightarrow> unicode_string \<Rightarrow> (ntstatus \<times> unicode_string) res" where
  "RtlInt64ToUnicodeString value base str =
     (if base \<notin> {0, 2, 8, 10, 16} then Inr (STATUS_INVALID_PARAMETER, str)
      else
        let base = (if base = 0 then 10 else base) in
        bind_res (digits_loop 65 (ucast base) 64 value [0]) (\<lambda>pos.
          let str = str\<lparr>us_Length := word_of_nat ((length pos - 1) * 2)\<rparr> in
          if us_Length str \<ge> us_MaximumLength str then Inr (STATUS_BUFFER_OVERFLOW, str)
          else
            (case us_Buffer str of
               None \<Rightarrow> Inl NullDeref
             | Some buffer \<Rightarrow>
                 if length pos \<le> length buffer
                 then Inr (STATUS_SUCCESS, str\<lparr>us_Buffer := Some (map ucast pos @ drop (length pos) buffer)\<rparr>)
                 else Inl OutOfBounds)))"

end
