(* ===== verification/NumStrProps.thy ===== *)
theory NumStrProps
  imports NumStr
begin

text \<open>
  What the conversions of \<open>NumStr\<close> store: the digits of the number, within their buffers, and
  a text that reads back as the number.
\<close>

section \<open>The digits of a number\<close>

function digs :: "nat \<Rightarrow> nat \<Rightarrow> nat list" where
  "digs r n = (if n < r \<or> r \<le> 1 then [n mod r] else digs r (n div r) @ [n mod r])"
  by pat_completeness auto
termination by (relation "measure snd") auto

declare digs.simps [simp del]

lemma digs_not_Nil [simp]: "digs r n \<noteq> []"
  by (subst digs.simps) simp

definition of_digs :: "nat \<Rightarrow> nat list \<Rightarrow> nat" where
  "of_digs r ds = foldl (\<lambda>a d. a * r + d) 0 ds"

lemma of_digs_digs: "2 \<le> r \<Longrightarrow> of_digs r (digs r n) = n"
  by (induction r n rule: digs.induct) (subst digs.simps, auto simp: of_digs_def)

lemma digs_less: "2 \<le> r \<Longrightarrow> d \<in> set (digs r n) \<Longrightarrow> d < r"
  by (induction r n rule: digs.induct) (subst (asm) (2) digs.simps, auto split: if_splits)

lemma digs_leading: "2 \<le> r \<Longrightarrow> n \<noteq> 0 \<Longrightarrow> hd (digs r n) \<noteq> 0"
proof (induction r n rule: digs.induct)
  case (1 r n)
  then show ?case by (subst digs.simps) (auto simp: div_eq_0_iff)
qed

lemma digs_length: "2 \<le> r \<Longrightarrow> n < r ^ Suc k \<Longrightarrow> length (digs r n) \<le> Suc k"
proof (induction k arbitrary: n)
  case 0
  then show ?case by (subst digs.simps) simp
next
  case (Suc k)
  then have "n div r < r ^ Suc k" by (simp add: div_less_iff_less_mult mult.commute)
  with Suc show ?case by (subst digs.simps) auto
qed

lemma digs_length_pow2:
  assumes "2 \<le> r" "n < 2 ^ Suc k"
  shows "length (digs r n) \<le> Suc k"
proof -
  have "(2 :: nat) ^ Suc k \<le> r ^ Suc k" using assms(1) by (rule power_mono) simp
  then show ?thesis using assms by (intro digs_length) auto
qed

section \<open>The loop\<close>

lemma digits_loop_digs:
  fixes v radix :: "'a::len word"
  assumes "2 \<le> unat radix" "length (digs (unat radix) (unat v)) \<le> pos"
  shows "digits_loop alpha radix pos v acc =
    Inr (map (digit_char alpha) (digs (unat radix) (unat v)) @ acc)"
  using assms(2)
proof (induction pos arbitrary: v acc)
  case 0
  then show ?case by simp
next
  case (Suc pos)
  have r0: "radix \<noteq> 0" using assms(1) by auto
  have u: "unat (v mod radix) = unat v mod unat radix" "unat (v div radix) = unat v div unat radix"
    by (simp_all add: unat_mod unat_div)
  have z: "v div radix = 0 \<longleftrightarrow> unat v < unat radix"
  proof -
    have "v div radix = 0 \<longleftrightarrow> unat v div unat radix = 0"
      using u(2) by (metis unat_eq_zero)
    then show ?thesis using assms(1) by (simp add: div_eq_0_iff)
  qed
  show ?case
  proof (cases "unat v < unat radix")
    case True
    have "digs (unat radix) (unat v) = [unat v mod unat radix]" using True by (subst digs.simps) simp
    then show ?thesis using r0 z True u by (subst digits_loop.simps) (simp add: Let_def)
  next
    case False
    have d: "digs (unat radix) (unat v) = digs (unat radix) (unat (v div radix)) @ [unat v mod unat radix]"
      using False assms(1) u by (subst digs.simps) simp
    then show ?thesis using r0 z False u Suc.prems Suc.IH [of "v div radix"]
      by (subst digits_loop.simps) (simp add: Let_def)
  qed
qed

lemma digits_loop_32:
  fixes v radix :: ulong
  assumes "2 \<le> unat radix"
  shows "digits_loop alpha radix 32 v acc = Inr (map (digit_char alpha) (digs (unat radix) (unat v)) @ acc)"
    "length (digs (unat radix) (unat v)) \<le> 32"
proof -
  show l: "length (digs (unat radix) (unat v)) \<le> 32"
    using digs_length_pow2 [OF assms, of "unat v" 31] ulong_bound [of v] by simp
  show "digits_loop alpha radix 32 v acc = Inr (map (digit_char alpha) (digs (unat radix) (unat v)) @ acc)"
    using assms l by (rule digits_loop_digs)
qed

lemma digits_loop_64:
  fixes v radix :: ulonglong
  assumes "2 \<le> unat radix"
  shows "digits_loop alpha radix 64 v acc = Inr (map (digit_char alpha) (digs (unat radix) (unat v)) @ acc)"
    "length (digs (unat radix) (unat v)) \<le> 64"
proof -
  show l: "length (digs (unat radix) (unat v)) \<le> 64"
    using digs_length_pow2 [OF assms, of "unat v" 63] ulonglong_bound [of v] by simp
  show "digits_loop alpha radix 64 v acc = Inr (map (digit_char alpha) (digs (unat radix) (unat v)) @ acc)"
    using assms l by (rule digits_loop_digs)
qed

section \<open>Reading decimal digits back\<close>

lemma digit_char_range:
  assumes "d < 10"
  shows "48 \<le> digit_char a d" "digit_char a d \<le> 57" "ucast (digit_char a d) - 48 = (word_of_nat d :: ulonglong)"
    "digit_char a d \<notin> {0, 32, 43, 45}" "\<not> digit_char a d \<le> 13"
proof -
  have "d \<in> {0,1,2,3,4,5,6,7,8,9}" using assms by auto
  then show "48 \<le> digit_char a d" "digit_char a d \<le> 57" "ucast (digit_char a d) - 48 = (word_of_nat d :: ulonglong)"
    "digit_char a d \<notin> {0, 32, 43, 45}" "\<not> digit_char a d \<le> 13"
    by (elim insertE emptyE; simp add: digit_char_def)+
qed

lemma atoi_loop_digits:
  "\<forall>d\<in>set ds. d < 10 \<Longrightarrow>
   atoi_loop (map (digit_char a) ds @ 0 # rest) (word_of_nat n) =
     Inr (word_of_nat (foldl (\<lambda>a d. a * 10 + d) n ds))"
proof (induction ds arbitrary: n)
  case (Cons d ds)
  have "word_of_nat n * 10 + ucast (digit_char a d) - 48 = (word_of_nat (n * 10 + d) :: ulonglong)"
    using digit_char_range(3) [of d a] Cons.prems by (simp add: add_diff_eq [symmetric])
  from Cons.IH [of "n * 10 + d"] Cons.prems show ?case
    using digit_char_range(1,2) [of d a] by (simp only: list.map append_Cons atoi_loop.simps \<open>_ = word_of_nat (n * 10 + d)\<close>) simp
qed simp

lemma atoi64_digits:
  assumes "v < 2 ^ 64"
  shows "atoi64 (map (digit_char a) (digs 10 v) @ [0]) = Inr (word_of_nat v)"
    "atoi64 (45 # map (digit_char a) (digs 10 v) @ [0]) = Inr (- word_of_nat v)"
proof -
  have d: "\<forall>d\<in>set (digs 10 v). d < 10" using digs_less [of 10] by auto
  have run: "atoi_loop (map (digit_char a) (digs 10 v) @ [0]) 0 = Inr (word_of_nat v)"
    using atoi_loop_digits [OF d, of a "[]" 0] of_digs_digs [of 10 v] by (simp add: of_digs_def)
  obtain c cs where ds: "digs 10 v = c # cs" by (cases "digs 10 v") auto
  then have "c < 10" using d by simp
  note c = digit_char_range [OF this, of a]
  have "skip_blanks (map (digit_char a) (digs 10 v) @ [0]) = map (digit_char a) (digs 10 v) @ [0]"
    using c ds by simp
  then show "atoi64 (map (digit_char a) (digs 10 v) @ [0]) = Inr (word_of_nat v)"
    using run c ds by (simp add: atoi64_def)
  show "atoi64 (45 # map (digit_char a) (digs 10 v) @ [0]) = Inr (- word_of_nat v)"
    using run by (simp add: atoi64_def)
qed

lemma sint_unat_36: "unat (radix :: ulong) \<le> 36 \<Longrightarrow> sint radix = int (unat radix)"
proof -
  assume a: "unat radix \<le> 36"
  have "signed_take_bit 31 (int (unat radix)) = int (unat radix)"
  proof (rule signed_take_bit_int_eq_self)
    have "int (unat radix) \<le> 36" using a by linarith
    then show "int (unat radix) < 2 ^ 31" by (rule le_less_trans) simp
  qed (rule order_trans [of _ 0], simp_all)
  then have "sint (word_of_int (int (unat radix)) :: ulong) = int (unat radix)"
    unfolding signed_of_int by simp
  then show ?thesis by simp
qed

section \<open>Properties\<close>

text \<open>C21. \<open>_atoi64\<close> inverts \<open>_i64toa\<close> in radix 10 for every 64-bit value, the least one included.\<close>

theorem i64toa_atoi64_roundtrip:
  "bind_res (i64toa v 10) atoi64 = Inr v"
proof -
  have r: "(scast (10 :: ulong) :: ulonglong) = 10" by simp
  have loop: "digits_loop 97 10 64 w [0] = Inr (map (digit_char 97) (digs 10 (unat w)) @ [0])"
    "length (digs 10 (unat w)) \<le> 64" for w :: ulonglong
    using digits_loop_64(1) [of 10 97 w "[0]"] digits_loop_64(2) [of 10 w] by simp_all
  show ?thesis
  proof (cases "sint v < 0")
    case True
    have "length (map (digit_char 97) (digs 10 (unat (- v))) @ [0]) < 65 \<or>
        length (digs 10 (unat (- v))) = 64" using loop(2) [of "- v"] by auto
    moreover have "length (digs 10 (unat (- v))) \<le> 20"
      using digs_length [of 10 "unat (- v)" 19] ulonglong_bound [of "- v"] by simp
    ultimately show ?thesis
      using loop(1) [of "- v"] True atoi64_digits(2) [of "unat (- v)" 97] ulonglong_bound [of "- v"] r
      by (simp add: i64toa_def)
  next
    case False
    then show ?thesis
      using loop(1) [of v] atoi64_digits(1) [of "unat v" 97] ulonglong_bound [of v] r
      by (simp add: i64toa_def)
  qed
qed

text \<open>For every radix from 2 on and every value, \<open>_ultoa\<close> and \<open>_ui64toa\<close> stay inside their local buffers
  of 33 and 65 bytes and store the digits of the value in that radix, most significant first,
  without leading zeros, and the terminating 0; the digits denote the value again.\<close>

theorem ultoa_ui64toa_digits:
  fixes radix :: ulong
  assumes "2 \<le> unat radix" "unat radix \<le> 36"
  shows "NTDLL_ultoa value radix = Inr (map (digit_char 97) (digs (unat radix) (unat value)) @ [0]) \<and>
    ui64toa value64 radix = Inr (map (digit_char 97) (digs (unat radix) (unat value64)) @ [0]) \<and>
    of_digs (unat radix) (digs (unat radix) (unat value)) = unat value \<and>
    of_digs (unat radix) (digs (unat radix) (unat value64)) = unat value64 \<and>
    (unat value64 \<noteq> 0 \<longrightarrow> hd (digs (unat radix) (unat value64)) \<noteq> 0)"
proof -
  have "sint radix = int (unat radix)" using assms(2) by (rule sint_unat_36)
  then have "(scast radix :: ulonglong) = word_of_nat (unat radix)"
    by (simp add: scast_eq)
  moreover have "unat (word_of_nat (unat radix) :: ulonglong) = unat radix"
    using assms(2) by (subst unat_of_nat) simp
  ultimately have u: "unat (scast radix :: ulonglong) = unat radix" by simp
  show ?thesis
    using digits_loop_32(1) [OF assms(1), of 97 "value"] digits_loop_64(1) [of "scast radix" 97 value64] u assms(1)
    by (simp add: NTDLL_ultoa_def ui64toa_def of_digs_digs digs_leading)
qed

theorem ultoa_ui64toa_digits_witness:
  "NTDLL_ultoa 255 16 = Inr (map (digit_char 97) (digs 16 255) @ [0])"
  using ultoa_ui64toa_digits [of 16 255 0] by simp

text \<open>\<open>RtlLargeIntegerToChar\<close> with a supported base reports an overflow exactly when the digits do not
  fit in \<open>length\<close> bytes, an access violation exactly when they would fit and \<open>str\<close> is null, and
  otherwise stores the digits, with the terminating 0 exactly when there is room for it, and
  nothing behind them.\<close>

theorem RtlLargeIntegerToChar_cases:
  assumes "base \<in> {2, 8, 10, 16}" "case str of None \<Rightarrow> True | Some s \<Rightarrow> unat n = length s"
  shows "RtlLargeIntegerToChar value base n str =
    (let ds = map (digit_char 65) (digs (unat base) (unat value)) in
     if length ds > unat n then Inr (STATUS_BUFFER_OVERFLOW, str)
     else case str of None \<Rightarrow> Inr (STATUS_ACCESS_VIOLATION, None)
       | Some s \<Rightarrow> Inr (STATUS_SUCCESS, Some (if length ds = length s then ds
           else ds @ 0 # drop (Suc (length ds)) s)))"
proof -
  let ?ds = "map (digit_char 65) (digs (unat base) (unat value))"
  have b: "2 \<le> unat base" "unat (ucast base :: ulonglong) = unat base"
    using assms(1) by auto
  have loop: "digits_loop 65 (ucast base) 64 value [0] = Inr (?ds @ [0])" and fits: "length ?ds \<le> 64"
    using digits_loop_64(1) [of "ucast base" 65 "value" "[0]"] digits_loop_64(2) [of "ucast base" "value"] b
    by simp_all
  have u: "unat (word_of_nat (length ?ds) :: ulong) = length ?ds"
    using fits by (subst unat_of_nat) simp
  have cmp: "(word_of_nat (length ?ds) :: ulong) > n \<longleftrightarrow> length ?ds > unat n"
    "(word_of_nat (length ?ds) :: ulong) = n \<longleftrightarrow> length ?ds = unat n"
    using u by (simp_all only: word_less_nat_alt word_unat_eq_iff)
  show ?thesis
    using assms loop unfolding RtlLargeIntegerToChar_def
    by (auto simp: Let_def cmp [simplified] split: option.split)
qed

theorem RtlLargeIntegerToChar_cases_witness:
  "RtlLargeIntegerToChar 255 16 4 (Some [9, 9, 9, 9]) = Inr (STATUS_SUCCESS, Some [70, 70, 0, 9])"
proof -
  have "map (digit_char 65) (digs 16 255) = [70, 70]" by code_simp
  then show ?thesis
    using RtlLargeIntegerToChar_cases [of 16 4 "Some [9, 9, 9, 9]" 255] by (simp add: Let_def)
qed

text \<open>\<open>RtlExtendedMagicDivide\<close> computes, from 32-bit halves and without losing a carry, the product of
  the magnitude of \<open>a\<close> and the unsigned \<open>b\<close> shifted right by \<open>64 + shift\<close>, with the sign of \<open>a\<close>.\<close>

theorem RtlExtendedMagicDivide_exact:
  "sint (RtlExtendedMagicDivide a b shift) =
     (let q = (nat \<bar>sint a\<bar> * unat b) div 2 ^ (64 + shift) in if sint a < 0 then - int q else int q)"
  by (rule RtlExtendedMagicDivide_value)

end
