(* ===== verification/AvlIndex.thy ===== *)
theory AvlIndex
  imports AvlProps
begin

text \<open>
  The AVL tree as an index from keys to node pointers: the interface the resident heap relies on, stated
  as a locale and interpreted on the model of \<open>avl.c\<close>. A tree without duplicate keys is a finite map.
\<close>

section \<open>The map of a tree\<close>

definition avl_index :: "'p avl \<Rightarrow> bool" where
  "avl_index t \<longleftrightarrow> avl_wf t \<and> distinct (avl_keys t)"

definition avl_map :: "'p avl \<Rightarrow> avlkey \<Rightarrow> 'p option" where
  "avl_map t = map_of (map (\<lambda>(p, k). (k, p)) (avl_inorder t))"

lemma avl_map_Null [simp]: "avl_map Null = Map.empty"
  by (simp add: avl_map_def fun_eq_iff)

lemma avl_map_Node: "avl_map (Node p k l r h) = avl_map r ++ [k \<mapsto> p] ++ avl_map l"
  by (rule ext) (auto simp: avl_map_def map_add_def split: option.split)

lemma dom_avl_map: "dom (avl_map t) = set (avl_keys t)"
  by (auto simp: avl_map_def avl_keys_def dom_map_of_conv_image_fst image_image case_prod_beta)

lemma finite_dom_avl_map [simp]: "finite (dom (avl_map t))"
  by (simp add: dom_avl_map)

lemma avl_map_Some:
  "distinct (avl_keys t) \<Longrightarrow> avl_map t k = Some p \<longleftrightarrow> (p, k) \<in> set (avl_inorder t)"
  unfolding avl_map_def
  by (subst map_of_eq_Some_iff) (force simp: avl_keys_def comp_def case_prod_beta)+

lemma avl_size_card: "distinct (avl_keys t) \<Longrightarrow> avl_size t = card (dom (avl_map t))"
  by (simp add: dom_avl_map distinct_card avl_size_keys)

lemma avl_index_height: "avl_index t \<Longrightarrow> card (dom (avl_map t)) < 17710 \<Longrightarrow> avl_height t \<le> AVL_MAX_HEIGHT"
  by (intro avl_size_height) (simp_all add: avl_index_def avl_wf_def avl_size_card)

lemma avl_map_unique:
  assumes "distinct (avl_keys t)" "\<And>p k. (p, k) \<in> set (avl_inorder t) \<longleftrightarrow> m k = Some p"
  shows "avl_map t = m"
proof
  fix k show "avl_map t k = m k"
    using avl_map_Some [OF assms(1), of k] assms(2) [of _ k] by (cases "m k"; cases "avl_map t k") auto
qed

section \<open>Insertion and removal\<close>

lemma AVLInsert_map:
  assumes "avl_index t" "card (dom (avl_map t)) < 17710" "avl_map t k = None"
  shows "\<exists>t'. AVLInsert t p k = Inr (t', True) \<and> avl_index t' \<and> avl_map t' = (avl_map t)(k \<mapsto> p)"
proof -
  have wf: "avl_wf t" and d: "distinct (avl_keys t)" using assms(1) by (simp_all add: avl_index_def)
  obtain t' where t': "AVLInsert t p k = Inr (t', True)" "avl_wf t'"
    "avl_inorder t' = filter (\<lambda>x. snd x \<le> k) (avl_inorder t) @ (p, k) # filter (\<lambda>x. \<not> snd x \<le> k) (avl_inorder t)"
    using AVLInsert_ok [OF wf avl_index_height [OF assms(1,2)]] by metis
  have new: "k \<notin> set (avl_keys t)" using assms(3) by (metis domIff dom_avl_map)
  have "avl_keys t' = insort k (avl_keys t)"
    by (rule AVLInsert_keys [OF wf avl_index_height [OF assms(1,2)] t'(1)])
  then have d': "distinct (avl_keys t')" using d new by (simp add: distinct_insort)
  have "avl_map t' = (avl_map t)(k \<mapsto> p)"
  proof (rule avl_map_unique [OF d'])
    fix q x
    have "(y, k) \<notin> set (avl_inorder t)" for y using new by (force simp: set_avl_keys)
    then show "(q, x) \<in> set (avl_inorder t') \<longleftrightarrow> ((avl_map t)(k \<mapsto> p)) x = Some q"
      unfolding t'(3) using avl_map_Some [OF d, of x q] by auto
  qed
  then show ?thesis using t' d' by (auto simp: avl_index_def)
qed

lemma AVLRemove_map:
  assumes "avl_index t" "card (dom (avl_map t)) < 17710"
  shows "\<exists>t'. AVLRemove t k = Inr (t', avl_map t k) \<and> avl_index t' \<and> avl_map t' = (avl_map t)(k := None)"
proof (cases "k \<in> set (avl_keys t)")
  case False
  then have "avl_map t k = None" by (metis domIff dom_avl_map)
  then show ?thesis
    using AVLRemove_notfound [OF _ avl_index_height [OF assms] False] assms(1) by (auto simp: avl_index_def)
next
  case True
  have wf: "avl_wf t" and d: "distinct (avl_keys t)" using assms(1) by (simp_all add: avl_index_def)
  obtain t' p xs ys where r: "AVLRemove t k = Inr (t', Some p)" "avl_wf t'"
    "avl_inorder t = xs @ (p, k) # ys" "avl_inorder t' = xs @ ys"
    using AVLRemove_found [OF wf avl_index_height [OF assms] True] by metis
  have d': "distinct (avl_keys t')" and nk: "k \<notin> snd ` set (xs @ ys)"
    using d r(3,4) by (auto simp: avl_keys_def)
  have "avl_map t k = Some p" using avl_map_Some [OF d] r(3) by simp
  moreover have "avl_map t' = (avl_map t)(k := None)"
  proof (rule avl_map_unique [OF d'])
    fix q x
    show "(q, x) \<in> set (avl_inorder t') \<longleftrightarrow> ((avl_map t)(k := None)) x = Some q"
      unfolding r(4) using avl_map_Some [OF d, of x q] nk r(3) by (cases "x = k") (force)+
  qed
  ultimately show ?thesis using r d' by (auto simp: avl_index_def)
qed

section \<open>Lookups\<close>

text \<open>What a lookup tells its caller: the key and the pointer of the node it found.\<close>

fun avl_found :: "'p avl \<Rightarrow> (avlkey \<times> 'p) option" where
  "avl_found Null = None"
| "avl_found (Node p k l r h) = Some (k, p)"

lemma avl_node_map:
  assumes "avl_index t" "n \<in> set (avl_nodes True t)"
  shows "avl_map t (Key n) = Some (ptr n)" "avl_found n = Some (Key n, ptr n)" "n \<noteq> Null"
proof -
  have "(\<lambda>n. (ptr n, Key n)) n \<in> set (map (\<lambda>n. (ptr n, Key n)) (avl_nodes True t))"
    using assms(2) by (simp only: set_map) (rule imageI)
  then have "(ptr n, Key n) \<in> set (avl_inorder t)" unfolding avl_nodes_inorder .
  then show "avl_map t (Key n) = Some (ptr n)" using assms(1) by (simp add: avl_map_Some avl_index_def)
  show "n \<noteq> Null" using assms(2) by (induction t) auto
  then show "avl_found n = Some (Key n, ptr n)" by (cases n) auto
qed

lemma AVLGet_map:
  assumes "avl_index t"
  shows "avl_found (AVLGet t k) = map_option (\<lambda>p. (k, p)) (avl_map t k)"
proof (cases "AVLGet t k = Null")
  case True
  then have "k \<notin> dom (avl_map t)"
    using AVLGet_Null [of t k] assms by (simp add: avl_index_def avl_wf_def dom_avl_map)
  then show ?thesis using True by (simp add: domIff)
next
  case False
  from AVLGet_entry [OF refl this] have "Key (AVLGet t k) = k" "(ptr (AVLGet t k), k) \<in> set (avl_inorder t)" by auto
  moreover from this have "avl_map t k = Some (ptr (AVLGet t k))"
    using assms by (simp add: avl_map_Some avl_index_def)
  ultimately show ?thesis using False by (cases "AVLGet t k") auto
qed

lemma AVLGetBestFit_above:
  assumes "avl_index t" "avl_found (AVLGetBestFit t k True) = Some (k', p)"
  shows "avl_map t k' = Some p" "k \<le> k'" "x \<in> dom (avl_map t) \<Longrightarrow> k \<le> x \<Longrightarrow> k' \<le> x"
proof -
  let ?n = "AVLGetBestFit t k True"
  have "avl_least_above t k Null ?n"
    unfolding AVLGetBestFit_def using assms(1) by (intro avl_best_fit_above) (simp add: avl_index_def avl_wf_def)
  moreover have "?n \<noteq> Null" using assms(2) by auto
  ultimately have n: "?n \<in> set (avl_nodes True t)" "k \<le> Key ?n" "\<forall>x\<in>set (avl_keys t). k \<le> x \<longrightarrow> Key ?n \<le> x"
    by (auto simp: avl_least_above_def split: if_splits)
  then have kp: "k' = Key ?n" "p = ptr ?n" using avl_node_map [OF assms(1) n(1)] assms(2) by auto
  show "avl_map t k' = Some p" "k \<le> k'" using avl_node_map [OF assms(1) n(1)] n(2) kp by auto
  show "k' \<le> x" if "x \<in> dom (avl_map t)" "k \<le> x" using n(3) that kp by (auto simp: dom_avl_map)
qed

lemma AVLGetBestFit_above_None:
  assumes "avl_index t" "avl_found (AVLGetBestFit t k True) = None" "x \<in> dom (avl_map t)"
  shows "x < k"
proof -
  have "avl_least_above t k Null (AVLGetBestFit t k True)"
    unfolding AVLGetBestFit_def using assms(1) by (intro avl_best_fit_above) (simp add: avl_index_def avl_wf_def)
  moreover have "AVLGetBestFit t k True = Null" using assms(2) by (cases "AVLGetBestFit t k True") auto
  ultimately have "\<not> k \<le> x"
    using avl_node_map(3) [OF assms(1), of Null] assms(3) by (auto simp: avl_least_above_def dom_avl_map split: if_splits)
  then show ?thesis by simp
qed

lemma AVLGetBestFit_below:
  assumes "avl_index t" "avl_found (AVLGetBestFit t k False) = Some (k', p)"
  shows "avl_map t k' = Some p" "k' \<le> k" "x \<in> dom (avl_map t) \<Longrightarrow> x \<le> k \<Longrightarrow> x \<le> k'"
proof -
  let ?n = "AVLGetBestFit t k False"
  have "avl_greatest_below t k Null ?n"
    unfolding AVLGetBestFit_def using assms(1) by (intro avl_best_fit_below) (simp add: avl_index_def avl_wf_def)
  moreover have "?n \<noteq> Null" using assms(2) by auto
  ultimately have n: "?n \<in> set (avl_nodes True t)" "Key ?n \<le> k" "\<forall>x\<in>set (avl_keys t). x \<le> k \<longrightarrow> x \<le> Key ?n"
    by (auto simp: avl_greatest_below_def split: if_splits)
  then have kp: "k' = Key ?n" "p = ptr ?n" using avl_node_map [OF assms(1) n(1)] assms(2) by auto
  show "avl_map t k' = Some p" "k' \<le> k" using avl_node_map [OF assms(1) n(1)] n(2) kp by auto
  show "x \<le> k'" if "x \<in> dom (avl_map t)" "x \<le> k" using n(3) that kp by (auto simp: dom_avl_map)
qed

lemma AVLGetBestFit_below_None:
  assumes "avl_index t" "avl_found (AVLGetBestFit t k False) = None" "x \<in> dom (avl_map t)"
  shows "k < x"
proof -
  have "avl_greatest_below t k Null (AVLGetBestFit t k False)"
    unfolding AVLGetBestFit_def using assms(1) by (intro avl_best_fit_below) (simp add: avl_index_def avl_wf_def)
  moreover have "AVLGetBestFit t k False = Null" using assms(2) by (cases "AVLGetBestFit t k False") auto
  ultimately have "\<not> x \<le> k"
    using avl_node_map(3) [OF assms(1), of Null] assms(3) by (auto simp: avl_greatest_below_def dom_avl_map split: if_splits)
  then show ?thesis by simp
qed

section \<open>Replacing a node in place\<close>

text \<open>
  A client that owns the nodes may overwrite one: it copies the \<open>AVLNODECORE\<close> of a node to another
  address, gives it a new key and stores the new address in the child slot of the parent that
  \<open>AVLGetWithParent\<close> found, or in the root. \<open>avl_set_child\<close> is the store into the slot of the parent.
\<close>

fun avl_set_child :: "avlkey \<Rightarrow> bool \<Rightarrow> 'p avl \<Rightarrow> 'p avl \<Rightarrow> 'p avl" where
  "avl_set_child pk left n Null = Null"
| "avl_set_child pk left n (Node p k l r h) =
    (if k = pk then (if left then Node p k n r h else Node p k l n h)
     else if k > pk then Node p k (avl_set_child pk left n l) r h
     else Node p k l (avl_set_child pk left n r) h)"

fun avl_relink :: "'p avl \<Rightarrow> bool \<Rightarrow> 'p avl \<Rightarrow> 'p avl \<Rightarrow> 'p avl" where
  "avl_relink Null left n t = n"
| "avl_relink (Node p k l r h) left n t = avl_set_child k left n t"

fun avl_copy_core :: "'p \<Rightarrow> avlkey \<Rightarrow> 'p avl \<Rightarrow> 'p avl" where
  "avl_copy_core p' k' Null = Null"
| "avl_copy_core p' k' (Node p k l r h) = Node p' k' l r h"

text \<open>The change of a field behind the node of a key.\<close>

fun avl_set_ptr :: "avlkey \<Rightarrow> ('p \<Rightarrow> 'p) \<Rightarrow> 'p avl \<Rightarrow> 'p avl" where
  "avl_set_ptr Ky f Null = Null"
| "avl_set_ptr Ky f (Node p k l r h) =
    (if k \<noteq> Ky then
       (if k > Ky then Node p k (avl_set_ptr Ky f l) r h else Node p k l (avl_set_ptr Ky f r) h)
     else Node (f p) k l r h)"

fun avl_subst :: "avlkey \<Rightarrow> 'p avl \<Rightarrow> 'p avl \<Rightarrow> 'p avl" where
  "avl_subst Ky n Null = Null"
| "avl_subst Ky n (Node p k l r h) =
    (if k \<noteq> Ky then
       (if k > Ky then Node p k (avl_subst Ky n l) r h else Node p k l (avl_subst Ky n r) h)
     else n)"

lemma avl_nodes_Key: "n \<in> set (avl_nodes True t) \<Longrightarrow> Key n \<in> set (avl_keys t)"
  using avl_nodes_inorder [of t] by (force simp: set_avl_keys simp flip: avl_nodes_inorder)

lemma AVLGet_Key: "AVLGet t k = n \<Longrightarrow> n \<noteq> Null \<Longrightarrow> Key n = k"
  by (induction t) (auto split: if_splits)

lemma avl_subst_AVLGet: "t = AVLGet t k \<Longrightarrow> t \<noteq> Null \<Longrightarrow> avl_subst k m t = m"
  using AVLGet_Key [of t k t] by (cases t) auto

lemma avl_get_with_parent_subst:
  "avl_get_with_parent par0 t k = (n, par) \<Longrightarrow> n \<noteq> Null \<Longrightarrow> sorted (avl_keys t) \<Longrightarrow> distinct (avl_keys t) \<Longrightarrow>
   (n = t \<and> par = par0) \<or>
   (par \<in> set (avl_nodes True t) \<and> avl_set_child (Key par) (k < Key par) m t = avl_subst k m t)"
proof (induction par0 t k rule: avl_get_with_parent.induct)
  case (2 par0 p x l r h k)
  let ?t = "Node p x l r h"
  have ord: "\<forall>y\<in>set (avl_keys l). y < x" "\<forall>y\<in>set (avl_keys r). x < y"
    using 2(5,6) by (auto simp: sorted_append order_less_le)
  then have ord': "\<forall>y\<in>set (avl_keys r). \<not> y < x \<and> y \<noteq> x" by force
  consider "x = k" | "x \<noteq> k" "k < x" | "x \<noteq> k" "\<not> k < x" by blast
  then show ?case
  proof cases
    case 1
    then show ?thesis using 2(3) by simp
  next
    case 2
    with "2.prems" have g: "avl_get_with_parent ?t l k = (n, par)" by simp
    then have nk: "AVLGet l k = n" using avl_get_with_parent_fst [of ?t l k] by simp
    from "2.IH"(1) [OF 2 g] "2.prems" have "(n = l \<and> par = ?t) \<or>
       (par \<in> set (avl_nodes True l) \<and> avl_set_child (Key par) (k < Key par) m l = avl_subst k m l)"
      by (simp add: sorted_append)
    then show ?thesis
      using 2 ord(1) avl_nodes_Key [of par l] avl_subst_AVLGet [of l k m] nk "2.prems"(2) by auto
  next
    case 3
    with "2.prems" have g: "avl_get_with_parent ?t r k = (n, par)" by simp
    then have nk: "AVLGet r k = n" using avl_get_with_parent_fst [of ?t r k] by simp
    from "2.IH"(2) [OF 3 g] "2.prems" have "(n = r \<and> par = ?t) \<or>
       (par \<in> set (avl_nodes True r) \<and> avl_set_child (Key par) (k < Key par) m r = avl_subst k m r)"
      by (simp add: sorted_append)
    then show ?thesis
      using 3 ord' avl_nodes_Key [of par r] avl_subst_AVLGet [of r k m] nk "2.prems"(2) by auto
  qed
qed simp

lemma avl_subst_shape:
  "AVLGet t k = Node p k l r h \<Longrightarrow> sorted (avl_keys t) \<Longrightarrow> distinct (avl_keys t) \<Longrightarrow>
   avl_inorder (avl_subst k (Node p' k' l r h) t) =
     map (\<lambda>x. if snd x = k then (p', k') else x) (avl_inorder t) \<and>
   avl_height (avl_subst k (Node p' k' l r h) t) = avl_height t \<and>
   (avl_balanced t \<longrightarrow> avl_balanced (avl_subst k (Node p' k' l r h) t))"
proof (induction t)
  case (Node q x tl tr th)
  have ord: "\<forall>y\<in>set (avl_inorder tl). snd y < x" "\<forall>y\<in>set (avl_inorder tr). x < snd y"
    using Node.prems(2,3) by (auto simp: sorted_append order_less_le avl_keys_def)
  have id: "map (\<lambda>x. if snd x = k then (p', k') else x) xs = xs" if "\<forall>y\<in>set xs. snd y \<noteq> k" for xs
    using that by (induction xs) auto
  consider "x = k" | "x \<noteq> k" "k < x" | "x \<noteq> k" "\<not> k < x" by blast
  then show ?case
  proof cases
    case 1
    then have "map (\<lambda>x. if snd x = k then (p', k') else x) (avl_inorder tl) = avl_inorder tl"
      "map (\<lambda>x. if snd x = k then (p', k') else x) (avl_inorder tr) = avl_inorder tr"
      using ord by (intro id; force)+
    then show ?thesis using 1 Node.prems by simp
  next
    case 2
    then have "map (\<lambda>x. if snd x = k then (p', k') else x) (avl_inorder tr) = avl_inorder tr"
      using ord(2) by (intro id) auto
    then show ?thesis using 2 Node by (auto simp: sorted_append)
  next
    case 3
    then have "map (\<lambda>x. if snd x = k then (p', k') else x) (avl_inorder tl) = avl_inorder tl"
      using ord(1) by (intro id) auto
    then show ?thesis using 3 Node by (auto simp: sorted_append)
  qed
qed simp

text \<open>A new key may take the place of an old one when it lies on the same side of every other key.\<close>

definition same_gap :: "avlkey set \<Rightarrow> avlkey \<Rightarrow> avlkey \<Rightarrow> bool" where
  "same_gap K k k' \<longleftrightarrow> (\<forall>x\<in>K. x \<noteq> k \<longrightarrow> (x < k \<and> x < k') \<or> (k < x \<and> k' < x))"

lemma same_gap_refl [simp]: "same_gap K k k"
  by (auto simp: same_gap_def)

lemma avl_subst_index:
  assumes "avl_index t" "AVLGet t k = Node p k l r h" "same_gap (dom (avl_map t)) k k'"
  shows "avl_index (avl_subst k (Node p' k' l r h) t) \<and>
    avl_map (avl_subst k (Node p' k' l r h) t) = (avl_map t)(k := None, k' \<mapsto> p')"
proof -
  let ?u = "avl_subst k (Node p' k' l r h) t" and ?g = "\<lambda>x. if x = k then k' else x"
  have s: "sorted (avl_keys t)" and d: "distinct (avl_keys t)" and b: "avl_balanced t"
    using assms(1) by (simp_all add: avl_index_def avl_wf_def)
  note sh = avl_subst_shape [OF assms(2) s d, of p' k']
  have keys: "avl_keys ?u = map ?g (avl_keys t)" using sh by (auto simp: avl_keys_def)
  have gap: "x < k \<and> x < k' \<or> k < x \<and> k' < x" if "x \<in> set (avl_keys t)" "x \<noteq> k" for x
    using assms(3) that by (auto simp: same_gap_def dom_avl_map)
  have mono: "?g x \<le> ?g y" if "x \<in> set (avl_keys t)" "y \<in> set (avl_keys t)" "x \<le> y" for x y
    using gap [of x] gap [of y] that by (auto simp: order_less_imp_le)
  have "sorted (avl_keys ?u)"
    unfolding keys sorted_map by (rule sorted_wrt_mono_rel [OF mono s])
  moreover have "inj_on ?g (set (avl_keys t))"
    using gap by (auto simp: inj_on_def)
  then have du: "distinct (avl_keys ?u)" using d unfolding keys by (simp add: distinct_map)
  moreover have "avl_balanced ?u" using sh b by simp
  moreover have "avl_map ?u = (avl_map t)(k := None, k' \<mapsto> p')"
  proof (rule avl_map_unique [OF du])
    fix q x
    have "(p, k) \<in> set (avl_inorder t)"
      using AVLGet_entry [OF assms(2)] by auto
    moreover have "k' = k" if "(y, k') \<in> set (avl_inorder t)" for y
      using gap [of k'] that by (force simp: set_avl_keys)
    ultimately show "(q, x) \<in> set (avl_inorder ?u) \<longleftrightarrow> ((avl_map t)(k := None, k' \<mapsto> p')) x = Some q"
      using sh avl_map_Some [OF d, of x q] by (auto simp: image_iff split: if_splits)
  qed
  ultimately show ?thesis by (simp add: avl_index_def avl_wf_def)
qed

lemma avl_relink_index:
  assumes "avl_index t" "AVLGetWithParent t k = (n, par)" "n \<noteq> Null" "same_gap (dom (avl_map t)) k k'"
    "par \<noteq> Null \<Longrightarrow> left \<longleftrightarrow> k' < Key par"
  shows "avl_index (avl_relink par left (avl_copy_core p' k' n) t) \<and>
    avl_map (avl_relink par left (avl_copy_core p' k' n) t) = (avl_map t)(k := None, k' \<mapsto> p')"
proof -
  have s: "sorted (avl_keys t)" and d: "distinct (avl_keys t)"
    using assms(1) by (simp_all add: avl_index_def avl_wf_def)
  have g: "avl_get_with_parent Null t k = (n, par)" using assms(2) by (simp add: AVLGetWithParent_def)
  then have n: "AVLGet t k = n" using avl_get_with_parent_fst [of Null t k] by simp
  obtain p l r h where nn: "n = Node p k l r h" using AVLGet_Key [OF n assms(3)] assms(3) by (cases n) auto
  let ?m = "avl_copy_core p' k' n"
  have "avl_relink par left ?m t = avl_subst k ?m t"
    using avl_get_with_parent_subst [OF g assms(3) s d, of ?m]
  proof (elim disjE conjE)
    assume "n = t" "par = Null"
    then show ?thesis using n nn by auto
  next
    assume p: "par \<in> set (avl_nodes True t)" "avl_set_child (Key par) (k < Key par) ?m t = avl_subst k ?m t"
    then have nz: "par \<noteq> Null" using avl_node_map(3) [OF assms(1)] by blast
    have "Key par \<noteq> k" using avl_get_with_parent_child [OF g] p(1) n
      using avl_child_of_def nz by blast
    moreover have "Key par \<in> dom (avl_map t)" using avl_nodes_Key [OF p(1)] by (simp add: dom_avl_map)
    ultimately have "left = (k < Key par)"
      using assms(4) assms(5) [OF nz] by (auto simp: same_gap_def)
    then show ?thesis using p(2) nz by (cases par) auto
  qed
  then show ?thesis using avl_subst_index [OF assms(1) _ assms(4), of p l r h p'] n nn by simp
qed

lemma avl_set_ptr_subst:
  "AVLGet t k = Node p k l r h \<Longrightarrow> avl_set_ptr k f t = avl_subst k (Node (f p) k l r h) t"
  by (induction t) (auto split: if_splits)

lemma avl_set_ptr_index:
  assumes "avl_index t" "avl_map t k = Some p"
  shows "avl_index (avl_set_ptr k f t) \<and> avl_map (avl_set_ptr k f t) = (avl_map t)(k \<mapsto> f p)"
proof -
  obtain l r h where "AVLGet t k = Node p k l r h"
    using AVLGet_map [OF assms(1), of k] assms(2) by (cases "AVLGet t k") auto
  from avl_set_ptr_subst [OF this] avl_subst_index [OF assms(1) this same_gap_refl] show ?thesis by simp
qed

section \<open>The interface\<close>

text \<open>
  What the heap needs of an index: \<open>look\<close> reads a tree as a map, \<open>ok\<close> is its invariant and \<open>cap\<close> the
  number of nodes from which an operation may break its assertion. \<open>above\<close> and \<open>below\<close> are the two best-fit
  searches, \<open>move\<close> replaces the node of a key by another node in the same gap.
\<close>

locale ordered_index =
  fixes look :: "'t \<Rightarrow> avlkey \<Rightarrow> 'p option"
    and ok :: "'t \<Rightarrow> bool"
    and cap :: nat
    and ins :: "'t \<Rightarrow> 'p \<Rightarrow> avlkey \<Rightarrow> ('t \<times> bool) res"
    and del :: "'t \<Rightarrow> avlkey \<Rightarrow> ('t \<times> 'p option) res"
    and above :: "'t \<Rightarrow> avlkey \<Rightarrow> (avlkey \<times> 'p) option"
    and below :: "'t \<Rightarrow> avlkey \<Rightarrow> (avlkey \<times> 'p) option"
  assumes look_finite: "finite (dom (look t))"
    and ins_ok: "ok t \<Longrightarrow> card (dom (look t)) < cap \<Longrightarrow> look t k = None \<Longrightarrow>
      \<exists>t'. ins t p k = Inr (t', True) \<and> ok t' \<and> look t' = (look t)(k \<mapsto> p)"
    and del_ok: "ok t \<Longrightarrow> card (dom (look t)) < cap \<Longrightarrow>
      \<exists>t'. del t k = Inr (t', look t k) \<and> ok t' \<and> look t' = (look t)(k := None)"
    and above_Some: "ok t \<Longrightarrow> above t k = Some (k', p) \<Longrightarrow>
      look t k' = Some p \<and> k \<le> k' \<and> (\<forall>x\<in>dom (look t). k \<le> x \<longrightarrow> k' \<le> x)"
    and above_None: "ok t \<Longrightarrow> above t k = None \<Longrightarrow> x \<in> dom (look t) \<Longrightarrow> x < k"
    and below_Some: "ok t \<Longrightarrow> below t k = Some (k', p) \<Longrightarrow>
      look t k' = Some p \<and> k' \<le> k \<and> (\<forall>x\<in>dom (look t). x \<le> k \<longrightarrow> x \<le> k')"
    and below_None: "ok t \<Longrightarrow> below t k = None \<Longrightarrow> x \<in> dom (look t) \<Longrightarrow> k < x"
begin

lemma ins_del:
  assumes "ok t" "card (dom (look t)) + 1 < cap" "look t k = None"
  shows "\<exists>t' t''. ins t p k = Inr (t', True) \<and> del t' k = Inr (t'', Some p) \<and> ok t'' \<and> look t'' = look t"
proof -
  have "card (dom (look t)) < cap" using assms(2) by simp
  from ins_ok [OF assms(1) this assms(3), of p]
  obtain t' where t': "ins t p k = Inr (t', True)" "ok t'" "look t' = (look t)(k \<mapsto> p)" by blast
  have "card (dom (look t')) \<le> card (dom (look t)) + 1"
    unfolding t'(3) by (simp add: card_insert_if look_finite)
  then have "card (dom (look t')) < cap" using assms(2) by simp
  from del_ok [OF t'(2) this, of k] show ?thesis using t' assms(3) by (auto simp: fun_upd_idem)
qed

lemma below_adjacent:
  assumes "ok t" "below t k = r" "x \<in> dom (look t)" "x \<le> k"
  shows "\<exists>k' p. r = Some (k', p) \<and> look t k' = Some p \<and> x \<le> k' \<and> k' \<le> k"
proof (cases r)
  case None
  then show ?thesis using below_None [OF assms(1), of k x] assms by auto
next
  case (Some q)
  then show ?thesis using below_Some [OF assms(1), of k "fst q" "snd q"] assms by (cases q) auto
qed

lemma above_fits:
  assumes "ok t" "x \<in> dom (look t)" "k \<le> x"
  obtains k' p where "above t k = Some (k', p)" "look t k' = Some p" "k \<le> k'" "k' \<le> x"
  using above_None [OF assms(1), of k x] above_Some [OF assms(1), of k] assms
  by (cases "above t k") fastforce+

end

text \<open>An index whose nodes the client may also rewrite in place.\<close>

locale editable_index = ordered_index look ok cap ins del above below
  for look :: "'t \<Rightarrow> avlkey \<Rightarrow> 'p option" and ok cap ins del above below +
  fixes edit :: "avlkey \<Rightarrow> ('p \<Rightarrow> 'p) \<Rightarrow> 't \<Rightarrow> 't"
    and move :: "'t \<Rightarrow> avlkey \<Rightarrow> avlkey \<Rightarrow> 'p \<Rightarrow> 't"
  assumes edit_ok: "ok t \<Longrightarrow> look t k = Some p \<Longrightarrow>
      ok (edit k f t) \<and> look (edit k f t) = (look t)(k \<mapsto> f p)"
    and move_ok: "ok t \<Longrightarrow> look t k = Some p \<Longrightarrow> same_gap (dom (look t)) k k' \<Longrightarrow>
      ok (move t k k' p') \<and> look (move t k k' p') = (look t)(k := None, k' \<mapsto> p')"
begin

lemma edit_dom: "ok t \<Longrightarrow> look t k = Some p \<Longrightarrow> dom (look (edit k f t)) = dom (look t)"
  using edit_ok by auto

lemma move_card:
  assumes "ok t" "look t k = Some p" "same_gap (dom (look t)) k k'"
  shows "card (dom (look (move t k k' p'))) = card (dom (look t))"
proof -
  have "k' \<notin> dom (look t) - {k}" using assms(3) by (auto simp: same_gap_def)
  moreover have "dom (look (move t k k' p')) = insert k' (dom (look t) - {k})"
    using move_ok [OF assms] by auto
  ultimately have "card (dom (look (move t k k' p'))) = Suc (card (dom (look t) - {k}))"
    using look_finite [of t] by simp
  also have "\<dots> = card (dom (look t))" using assms(2) look_finite [of t] by (intro card.remove [symmetric]) auto
  finally show ?thesis .
qed

end

text \<open>The move of the model: the steps the clients take for it, with the side chosen by the new key.\<close>

definition avl_move :: "'p avl \<Rightarrow> avlkey \<Rightarrow> avlkey \<Rightarrow> 'p \<Rightarrow> 'p avl" where
  "avl_move t k k' p' =
     (case AVLGetWithParent t k of (n, par) \<Rightarrow>
        if n = Null then t else avl_relink par (k' < Key par) (avl_copy_core p' k' n) t)"

lemma avl_move_index:
  assumes "avl_index t" "avl_map t k = Some p" "same_gap (dom (avl_map t)) k k'"
  shows "avl_index (avl_move t k k' p') \<and> avl_map (avl_move t k k' p') = (avl_map t)(k := None, k' \<mapsto> p')"
proof -
  obtain n par where g: "AVLGetWithParent t k = (n, par)" by (cases "AVLGetWithParent t k") auto
  then have "n = AVLGet t k" using avl_get_with_parent_fst [of Null t k] by (simp add: AVLGetWithParent_def)
  then have "n \<noteq> Null" using AVLGet_map [OF assms(1), of k] assms(2) by auto
  then show ?thesis using avl_relink_index [OF assms(1) g _ assms(3), of "k' < Key par" p'] g
    by (simp add: avl_move_def)
qed

interpretation avl: editable_index avl_map avl_index 17710 AVLInsert AVLRemove
  "\<lambda>t k. avl_found (AVLGetBestFit t k True)" "\<lambda>t k. avl_found (AVLGetBestFit t k False)" avl_set_ptr avl_move
proof (unfold_locales, goal_cases)
  case 1 show ?case by simp
next
  case (2 t k p) then show ?case by (rule AVLInsert_map)
next
  case (3 t k) then show ?case by (rule AVLRemove_map)
next
  case (4 t k k' p) then show ?case using AVLGetBestFit_above [OF 4] by simp
next
  case (5 t k x) then show ?case by (rule AVLGetBestFit_above_None)
next
  case (6 t k k' p) then show ?case using AVLGetBestFit_below [OF 6] by simp
next
  case (7 t k x) then show ?case by (rule AVLGetBestFit_below_None)
next
  case (8 t k p f) then show ?case by (rule avl_set_ptr_index)
next
  case (9 t k p k' p') then show ?case by (rule avl_move_index)
qed

end
