(* ===== verification/ResHeap.thy ===== *)
theory ResHeap
  imports AvlIndex
begin

text \<open>
  The resident heap of the ring-0 driver, \<open>src/src/win32k/misc/rmalloc_avl.c\<close>, in its debug build
  (\<open>DEBUG_ALLOC\<close> defined, no heap check inside the operations). A pointer is the 32-bit address.
  \<open>m\<close> is the size word in the header of the block at an address: \<open>MEMBLOCK.cbSize\<close> and
  \<open>MEMBLOCKFREE.coreFree.Key\<close> are this same word. \<open>sg\<close> is the signature word. The chain of heap anchors
  from \<open>phaFirst\<close> to \<open>phaLast\<close> is a list of addresses with the anchors at them. The trees of an anchor are the
  values of \<open>Avl\<close>; a node of the free-size tree stands for the first block of its size together with the
  \<open>pmbfNext\<close> list behind it. The memory the operating system hands out is the parameter \<open>vm\<close>.
\<close>

section \<open>Layout\<close>

definition CB_HDR :: ulong where
  "CB_HDR = 24"

definition CB_MEMBLOCKFREE :: ulong where
  "CB_MEMBLOCKFREE = 40"

definition CB_HEAPANCHOR :: ulong where
  "CB_HEAPANCHOR = 36"

definition HEAPANCHOR_SIGNATURE :: ulong where
  "HEAPANCHOR_SIGNATURE = 0xBEEFFEEB"

definition MEMBLOCK_SIGNATURE :: ulong where
  "MEMBLOCK_SIGNATURE = 0xFEEBBEEF"

definition BLOCKSIZE :: ulong where
  "BLOCKSIZE = 1024 * 256"

definition ALIGNMENT :: ulong where
  "ALIGNMENT = 4"

definition ALIGN :: "ulong \<Rightarrow> ulong \<Rightarrow> ulong" where
  "ALIGN a alignment = (a + (alignment - 1)) AND NOT (alignment - 1)"

definition PNEXT_BLOCK :: "(ulong \<Rightarrow> ulong) \<Rightarrow> ulong \<Rightarrow> ulong" where
  "PNEXT_BLOCK m a = a + CB_HDR + m a"

type_synonym freechain = "ulong \<times> ulong list"

record heap_anchor =
  ha_ulSignature :: ulong
  ha_cbSize :: ulong
  pmbFree :: "ulong avl"
  pcoreFreeSize :: "freechain avl"
  cbFree :: ulong
  pmbUsed :: "ulong avl"
  cbUsed :: ulong

record res_heap =
  hp_size :: "ulong \<Rightarrow> ulong"
  hp_sig :: "ulong \<Rightarrow> ulong"
  phaChain :: "(ulong \<times> heap_anchor) list"
  cbResHeapMax :: ulong

section \<open>The free-size tree\<close>

definition resInsertUsed :: "(ulong \<Rightarrow> ulong) \<Rightarrow> heap_anchor \<Rightarrow> ulong \<Rightarrow> heap_anchor res" where
  "resInsertUsed m pha pmb =
     (let pha = pha\<lparr>cbUsed := cbUsed pha + m pmb\<rparr> in
      bind_res (AVLInsert (pmbUsed pha) pmb pmb) (\<lambda>(t, _). Inr (pha\<lparr>pmbUsed := t\<rparr>)))"

text \<open>A block that is in no list or not in the tree is reported to the log and left alone.\<close>

definition resRemoveFromFreeSize :: "(ulong \<Rightarrow> ulong) \<Rightarrow> heap_anchor \<Rightarrow> ulong \<Rightarrow> heap_anchor res" where
  "resRemoveFromFreeSize m pha pmbf =
     (let t = pcoreFreeSize pha in
      case AVLGetWithParent t (m pmbf) of
        (Null, _) \<Rightarrow> Inr pha
      | (Node (pmbfTmp, pmbfNext) k l r h, pmbfParent) \<Rightarrow>
          if pmbfTmp \<noteq> pmbf then
            Inr (pha\<lparr>pcoreFreeSize := avl_set_ptr (m pmbf) (\<lambda>(p, ps). (p, remove1 pmbf ps)) t\<rparr>)
          else
            (case pmbfNext of
               [] \<Rightarrow> bind_res (AVLRemove t (m pmbf)) (\<lambda>(t, _). Inr (pha\<lparr>pcoreFreeSize := t\<rparr>))
             | q # qs \<Rightarrow>
                 Inr (pha\<lparr>pcoreFreeSize :=
                   avl_relink pmbfParent (k < Key pmbfParent)
                     (avl_copy_core (q, qs) k (Node (pmbfTmp, pmbfNext) k l r h)) t\<rparr>)))"

fun chain_insert :: "ulong \<Rightarrow> ulong list \<Rightarrow> ulong list" where
  "chain_insert pmbf [] = [pmbf]"
| "chain_insert pmbf (q # qs) = (if q > pmbf then q # chain_insert pmbf qs else pmbf # q # qs)"

definition resInsertIntoFreeSize :: "(ulong \<Rightarrow> ulong) \<Rightarrow> heap_anchor \<Rightarrow> ulong \<Rightarrow> heap_anchor res" where
  "resInsertIntoFreeSize m pha pmbf =
     (let t = pcoreFreeSize pha in
      case AVLGet t (m pmbf) of
        Node _ _ _ _ _ \<Rightarrow>
          Inr (pha\<lparr>pcoreFreeSize := avl_set_ptr (m pmbf) (\<lambda>(p, ps). (p, chain_insert pmbf ps)) t\<rparr>)
      | Null \<Rightarrow>
          bind_res (AVLInsert t (pmbf, []) (m pmbf)) (\<lambda>(t, _). Inr (pha\<lparr>pcoreFreeSize := t\<rparr>)))"

section \<open>Freeing\<close>

text \<open>The free block to the left of \<open>pmb\<close>, when it ends where \<open>pmb\<close> starts.\<close>

definition free_left :: "(ulong \<Rightarrow> ulong) \<Rightarrow> heap_anchor \<Rightarrow> ulong \<Rightarrow> ulong option" where
  "free_left m pha pmb =
     (case AVLGetBestFit (pmbFree pha) pmb False of
        Null \<Rightarrow> None
      | Node p _ _ _ _ \<Rightarrow> if PNEXT_BLOCK m p \<noteq> pmb then None else Some p)"

definition resInsertFree ::
  "(ulong \<Rightarrow> ulong) \<Rightarrow> heap_anchor \<Rightarrow> ulong \<Rightarrow> ((ulong \<Rightarrow> ulong) \<times> heap_anchor) res" where
  "resInsertFree m pha pmb =
     (let pha = pha\<lparr>cbFree := cbFree pha + m pmb\<rparr>;
          (pmbfRight, pmbfRightParent) = AVLGetWithParent (pmbFree pha) (PNEXT_BLOCK m pmb)
      in case (free_left m pha pmb, pmbfRight) of
        (None, Null) \<Rightarrow>
          bind_res (AVLInsert (pmbFree pha) pmb pmb) (\<lambda>(t, _).
          bind_res (resInsertIntoFreeSize m (pha\<lparr>pmbFree := t\<rparr>) pmb) (\<lambda>pha. Inr (m, pha)))
      | (Some left, Null) \<Rightarrow>
          bind_res (resRemoveFromFreeSize m pha left) (\<lambda>pha.
            let m = m(left := m left + (CB_HDR + m pmb)); pha = pha\<lparr>cbFree := cbFree pha + CB_HDR\<rparr> in
            bind_res (resInsertIntoFreeSize m pha left) (\<lambda>pha. Inr (m, pha)))
      | (None, Node right _ _ _ _) \<Rightarrow>
          bind_res (resRemoveFromFreeSize m pha right) (\<lambda>pha.
            let n = avl_copy_core pmb pmb pmbfRight; m = m(pmb := m pmb + (CB_HDR + m right));
                pha = pha\<lparr>cbFree := cbFree pha + CB_HDR\<rparr> in
            bind_res (resInsertIntoFreeSize m pha pmb) (\<lambda>pha.
              Inr (m, pha\<lparr>pmbFree := avl_relink pmbfRightParent (pmb < ptr pmbfRightParent) n (pmbFree pha)\<rparr>)))
      | (Some left, Node right _ _ _ _) \<Rightarrow>
          bind_res (AVLRemove (pmbFree pha) right) (\<lambda>(t, q).
            let pha = pha\<lparr>pmbFree := t\<rparr> in
            if q \<noteq> Some right then Inr (m, pha)
            else
              bind_res (resRemoveFromFreeSize m pha left) (\<lambda>pha.
              bind_res (resRemoveFromFreeSize m pha right) (\<lambda>pha.
                let m = m(left := m left + (CB_HDR * 2 + m pmb + m right));
                    pha = pha\<lparr>cbFree := cbFree pha + CB_HDR * 2\<rparr> in
                bind_res (resInsertIntoFreeSize m pha left) (\<lambda>pha. Inr (m, pha))))))"

section \<open>Allocating\<close>

text \<open>One round of the search of \<open>resGetFreeMemblock\<close> on an anchor: \<open>None\<close> when it has no block that fits,
  otherwise the block taken (null when the tree lost it), marked with its signature, and the new state.\<close>

definition resTakeFree ::
  "(ulong \<Rightarrow> ulong) \<Rightarrow> (ulong \<Rightarrow> ulong) \<Rightarrow> heap_anchor \<Rightarrow> ulong \<Rightarrow>
   (ulong option \<times> (ulong \<Rightarrow> ulong) \<times> (ulong \<Rightarrow> ulong) \<times> heap_anchor) option res" where
  "resTakeFree m sg pha cbUserSize =
     (if cbFree pha \<ge> cbUserSize + CB_HDR then
        (case AVLGetBestFit (pcoreFreeSize pha) cbUserSize True of
           Null \<Rightarrow> Inr None
         | Node (pmbf, _) _ _ _ _ \<Rightarrow>
             bind_res (resRemoveFromFreeSize m pha pmbf) (\<lambda>pha.
               let pha = pha\<lparr>cbFree := cbFree pha - m pmbf\<rparr> in
               if m pmbf > CB_MEMBLOCKFREE + cbUserSize then
                 let pmbfTmp = pmbf; pmbf = pmbfTmp + m pmbfTmp - cbUserSize;
                     sg = sg(pmbf := MEMBLOCK_SIGNATURE);
                     m = m(pmbfTmp := m pmbfTmp - (CB_HDR + cbUserSize));
                     m = m(pmbf := cbUserSize);
                     pha = pha\<lparr>cbFree := cbFree pha + m pmbfTmp\<rparr> in
                 bind_res (resInsertIntoFreeSize m pha pmbfTmp) (\<lambda>pha. Inr (Some (Some pmbf, m, sg, pha)))
               else
                 bind_res (AVLRemove (pmbFree pha) pmbf) (\<lambda>(t, q).
                   Inr (Some (if q \<noteq> Some pmbf then None else Some pmbf, m, sg, pha\<lparr>pmbFree := t\<rparr>)))))
      else Inr None)"

text \<open>The loop over the anchors; \<open>i\<close> is the position of \<open>*ppha\<close> and the last component of a failure the
  sum \<open>cbTotalSize\<close>.\<close>

datatype take_result =
    NoFit ulong
  | Took nat "ulong option" "ulong \<Rightarrow> ulong" "ulong \<Rightarrow> ulong" heap_anchor

fun resSearchFree ::
  "(ulong \<Rightarrow> ulong) \<Rightarrow> (ulong \<Rightarrow> ulong) \<Rightarrow> ulong \<Rightarrow> nat \<Rightarrow> (ulong \<times> heap_anchor) list \<Rightarrow> ulong \<Rightarrow> take_result res" where
  "resSearchFree m sg cbUserSize i [] cbTotalSize = Inr (NoFit cbTotalSize)"
| "resSearchFree m sg cbUserSize i ((a, pha) # rest) cbTotalSize =
    bind_res (resTakeFree m sg pha cbUserSize) (\<lambda>r.
      case r of
        Some (q, m, sg, pha) \<Rightarrow> Inr (Took i q m sg pha)
      | None \<Rightarrow> resSearchFree m sg cbUserSize (Suc i) rest (cbTotalSize + ha_cbSize pha))"

definition new_anchor :: "ulong \<Rightarrow> heap_anchor" where
  "new_anchor cbSize = \<lparr>ha_ulSignature = HEAPANCHOR_SIGNATURE, ha_cbSize = cbSize, pmbFree = Null,
     pcoreFreeSize = Null, cbFree = 0, pmbUsed = Null, cbUsed = 0\<rparr>"

definition min_user_size :: "ulong \<Rightarrow> ulong" where
  "min_user_size cbUserSize = max (ALIGN cbUserSize ALIGNMENT) (CB_MEMBLOCKFREE - CB_HDR)"

text \<open>The result is the position of the anchor with the block, or \<open>None\<close> for a null pointer.\<close>

definition resGetFreeMemblock ::
  "(ulong \<Rightarrow> ulong option) \<Rightarrow> res_heap \<Rightarrow> ulong \<Rightarrow> ((nat \<times> ulong) option \<times> res_heap) res" where
  "resGetFreeMemblock vm h cbUserSize =
     (let cbUserSize = min_user_size cbUserSize in
      bind_res (resSearchFree (hp_size h) (hp_sig h) cbUserSize 0 (phaChain h) 0) (\<lambda>r.
        case r of
          Took i q m sg pha \<Rightarrow>
            Inr (map_option (\<lambda>pmb. (i, pmb)) q,
                 h\<lparr>hp_size := m, hp_sig := sg, phaChain := (phaChain h)[i := (fst (phaChain h ! i), pha)]\<rparr>)
        | NoFit cbTotalSize \<Rightarrow>
            let cbBlockSize = ALIGN (cbUserSize + CB_HDR * 2) BLOCKSIZE in
            if cbResHeapMax h \<ge> cbTotalSize + cbBlockSize then
              (case vm cbBlockSize of
                 None \<Rightarrow> Inr (None, h)
               | Some pha \<Rightarrow>
                   let pmb = pha + CB_HEAPANCHOR; sg = (hp_sig h)(pmb := MEMBLOCK_SIGNATURE);
                       m = (hp_size h)(pmb := cbBlockSize - CB_HEAPANCHOR - CB_HDR * 2 - cbUserSize) in
                   bind_res (resInsertFree m (new_anchor cbBlockSize) pmb) (\<lambda>(m, ha).
                     let pmb = pha + cbBlockSize - cbUserSize - CB_HDR; sg = sg(pmb := MEMBLOCK_SIGNATURE);
                         m = m(pmb := cbUserSize) in
                     Inr (Some (length (phaChain h), pmb),
                          h\<lparr>hp_size := m, hp_sig := sg, phaChain := phaChain h @ [(pha, ha)]\<rparr>)))
            else Inr (None, h)))"

definition resHeapInit :: "(ulong \<Rightarrow> ulong option) \<Rightarrow> ulong \<Rightarrow> ulong \<Rightarrow> res_heap \<Rightarrow> (int \<times> res_heap) res" where
  "resHeapInit vm cbSizeInit cbSizeMax h =
     (let cbSize = max BLOCKSIZE cbSizeInit; h = h\<lparr>cbResHeapMax := cbSizeMax\<rparr> in
      case vm cbSize of
        None \<Rightarrow> Inl Int3
      | Some pha \<Rightarrow>
          let pmb = pha + CB_HEAPANCHOR; m = (hp_size h)(pmb := cbSize - CB_HEAPANCHOR - CB_HDR);
              sg = (hp_sig h)(pmb := MEMBLOCK_SIGNATURE) in
          bind_res (resInsertFree m (new_anchor cbSize) pmb) (\<lambda>(m, ha).
            Inr (0, h\<lparr>hp_size := m, hp_sig := sg, phaChain := [(pha, ha)]\<rparr>)))"

definition put_anchor :: "nat \<Rightarrow> heap_anchor \<Rightarrow> res_heap \<Rightarrow> res_heap" where
  "put_anchor i pha h = h\<lparr>phaChain := (phaChain h)[i := (fst (phaChain h ! i), pha)]\<rparr>"

definition rmalloc :: "(ulong \<Rightarrow> ulong option) \<Rightarrow> res_heap \<Rightarrow> ulong \<Rightarrow> (ulong option \<times> res_heap) res" where
  "rmalloc vm h cbSize =
     (if cbSize \<noteq> 0 then
        bind_res (resGetFreeMemblock vm h cbSize) (\<lambda>(q, h).
          case q of
            None \<Rightarrow> Inr (None, h)
          | Some (i, pmb) \<Rightarrow>
              bind_res (resInsertUsed (hp_size h) (snd (phaChain h ! i)) pmb) (\<lambda>pha.
                Inr (Some (pmb + CB_HDR), put_anchor i pha h)))
      else Inr (None, h))"

section \<open>Finding blocks\<close>

text \<open>The position of the anchor whose memory \<open>pv\<close> points into.\<close>

fun find_anchor :: "ulong \<Rightarrow> nat \<Rightarrow> (ulong \<times> heap_anchor) list \<Rightarrow> nat option" where
  "find_anchor pv i [] = None"
| "find_anchor pv i ((a, pha) # rest) =
    (if pv > a \<and> pv < a + ha_cbSize pha then Some i else find_anchor pv (Suc i) rest)"

definition resFindUsedBlock :: "res_heap \<Rightarrow> ulong \<Rightarrow> (nat \<times> ulong) option" where
  "resFindUsedBlock h pvUser =
     (if pvUser \<noteq> 0 then
        (case find_anchor pvUser 0 (phaChain h) of
           None \<Rightarrow> None
         | Some i \<Rightarrow>
             let pha = snd (phaChain h ! i) in
             if ha_ulSignature pha \<noteq> HEAPANCHOR_SIGNATURE then None
             else
               (case AVLGet (pmbUsed pha) (pvUser - CB_HDR) of
                  Null \<Rightarrow> None
                | Node pmb _ _ _ _ \<Rightarrow> if hp_sig h pmb \<noteq> MEMBLOCK_SIGNATURE then None else Some (i, pmb)))
      else None)"

definition resFindWithinUsedBlock :: "res_heap \<Rightarrow> ulong \<Rightarrow> (nat \<times> ulong) option" where
  "resFindWithinUsedBlock h pvUser =
     (case find_anchor pvUser 0 (phaChain h) of
        None \<Rightarrow> None
      | Some i \<Rightarrow>
          let pha = snd (phaChain h ! i) in
          if ha_ulSignature pha \<noteq> HEAPANCHOR_SIGNATURE then None
          else
            (case AVLGetBestFit (pmbUsed pha) pvUser True of
               Null \<Rightarrow> None
             | Node pmb _ _ _ _ \<Rightarrow>
                 if pmb + hp_size h pmb + CB_HDR > pvUser \<and> pmb + CB_HDR \<le> pvUser then
                   if hp_sig h pmb \<noteq> MEMBLOCK_SIGNATURE then None else Some (i, pmb)
                 else None))"

definition rfree :: "res_heap \<Rightarrow> ulong \<Rightarrow> res_heap res" where
  "rfree h pv =
     (if pv \<noteq> 0 then
        (case find_anchor pv 0 (phaChain h) of
           None \<Rightarrow> Inr h
         | Some i \<Rightarrow>
             let pha = snd (phaChain h ! i) in
             bind_res (AVLRemove (pmbUsed pha) (pv - CB_HDR)) (\<lambda>(t, q).
               case q of
                 None \<Rightarrow> Inr (put_anchor i (pha\<lparr>pmbUsed := t\<rparr>) h)
               | Some pmb \<Rightarrow>
                   bind_res
                     (resInsertFree (hp_size h)
                        (pha\<lparr>pmbUsed := t, cbUsed := cbUsed pha - hp_size h pmb\<rparr>) pmb)
                     (\<lambda>(m, pha). Inr (put_anchor i pha (h\<lparr>hp_size := m\<rparr>)))))
      else Inr h)"

section \<open>Reallocating\<close>

text \<open>The shrinking branch: the tail becomes a free block when it is large enough for one.\<close>

definition rrealloc_shrink :: "res_heap \<Rightarrow> nat \<Rightarrow> ulong \<Rightarrow> ulong \<Rightarrow> res_heap res" where
  "rrealloc_shrink h i pmb cbNew =
     (let m = hp_size h; pha = snd (phaChain h ! i) in
      if cbNew + CB_MEMBLOCKFREE \<le> m pmb then
        let pmbfNew = pmb + CB_HDR + cbNew; sg = (hp_sig h)(pmbfNew := MEMBLOCK_SIGNATURE);
            pha = pha\<lparr>cbUsed := cbUsed pha - (m pmb - cbNew)\<rparr>;
            m = m(pmbfNew := m pmb - cbNew - CB_HDR); m = m(pmb := cbNew) in
        bind_res (resInsertFree m pha pmbfNew) (\<lambda>(m, pha).
          Inr (put_anchor i pha (h\<lparr>hp_size := m, hp_sig := sg\<rparr>)))
      else Inr h)"

text \<open>The growing branch into the free block \<open>right\<close> behind \<open>pmb\<close>: \<open>node\<close> is its node and \<open>parent\<close> the parent
  of that. The result is false when the tree lost the block.\<close>

definition rrealloc_expand ::
  "res_heap \<Rightarrow> nat \<Rightarrow> ulong \<Rightarrow> ulong \<Rightarrow> ulong avl \<Rightarrow> ulong avl \<Rightarrow> (bool \<times> res_heap) res" where
  "rrealloc_expand h i pmb cbNew node parent =
     (let m = hp_size h; pha = snd (phaChain h ! i); right = ptr node in
      if m right + m pmb + CB_HDR - CB_MEMBLOCKFREE \<ge> cbNew then
        let cb = m right; pmbfNew = pmb + CB_HDR + cbNew in
        bind_res (resRemoveFromFreeSize m pha right) (\<lambda>pha.
          let m = m(pmbfNew := cb + m pmb - cbNew); sg = (hp_sig h)(pmbfNew := MEMBLOCK_SIGNATURE);
              n = avl_copy_core pmbfNew pmbfNew node;
              pha = pha\<lparr>pmbFree := avl_relink parent (pmbfNew < ptr parent) n (pmbFree pha)\<rparr> in
          bind_res (resInsertIntoFreeSize m pha pmbfNew) (\<lambda>pha.
            let pha = pha\<lparr>cbUsed := cbUsed pha + (cbNew - m pmb), cbFree := cbFree pha - (cb - m pmbfNew)\<rparr> in
            Inr (True, put_anchor i pha (h\<lparr>hp_size := m(pmb := cbNew), hp_sig := sg\<rparr>))))
      else
        bind_res (AVLRemove (pmbFree pha) right) (\<lambda>(t, q).
          let pha = pha\<lparr>pmbFree := t\<rparr> in
          if q \<noteq> Some right then Inr (False, put_anchor i pha h)
          else
            bind_res (resRemoveFromFreeSize m pha right) (\<lambda>pha.
              let m' = m(pmb := m pmb + (m right + CB_HDR));
                  pha = pha\<lparr>cbFree := cbFree pha - m right, cbUsed := cbUsed pha + (m right + CB_HDR)\<rparr> in
              Inr (True, put_anchor i pha (h\<lparr>hp_size := m'\<rparr>)))))"

text \<open>The contents that the last branch copies to the new block are not part of the model; the sizes of both
  blocks are.\<close>

definition rrealloc ::
  "(ulong \<Rightarrow> ulong option) \<Rightarrow> res_heap \<Rightarrow> ulong \<Rightarrow> ulong \<Rightarrow> (ulong option \<times> res_heap) res" where
  "rrealloc vm h pv cbNew =
     (case resFindUsedBlock h pv of
        Some (i, pmb) \<Rightarrow>
          let cbNew = min_user_size cbNew; m = hp_size h; pha = snd (phaChain h ! i) in
          if cbNew \<le> m pmb then
            bind_res (rrealloc_shrink h i pmb cbNew) (\<lambda>h. Inr (Some pv, h))
          else
            let (node, parent) = AVLGetWithParent (pmbFree pha) (PNEXT_BLOCK m pmb) in
            if node \<noteq> Null \<and> m (ptr node) + m pmb + CB_HDR \<ge> cbNew then
              bind_res (rrealloc_expand h i pmb cbNew node parent) (\<lambda>(ok, h).
                Inr (if ok then Some pv else None, h))
            else
              bind_res (rmalloc vm h cbNew) (\<lambda>(pvRet, h).
                case pvRet of
                  None \<Rightarrow> Inr (None, h)
                | Some p \<Rightarrow> bind_res (rfree h pv) (\<lambda>h. Inr (Some p, h)))
      | None \<Rightarrow> if pv = 0 then rmalloc vm h cbNew else Inr (None, h))"

section \<open>Queries\<close>

definition res_msize :: "res_heap \<Rightarrow> ulong \<Rightarrow> ulong" where
  "res_msize h pv = (case resFindUsedBlock h pv of None \<Rightarrow> 0 | Some (i, pmb) \<Rightarrow> hp_size h pmb)"

definition res_validptr :: "res_heap \<Rightarrow> ulong \<Rightarrow> bool" where
  "res_validptr h pv = (resFindWithinUsedBlock h pv \<noteq> None)"

definition res_validptr2 :: "res_heap \<Rightarrow> ulong \<Rightarrow> ulong \<Rightarrow> bool" where
  "res_validptr2 h pv cbSize =
     (case resFindWithinUsedBlock h pv of
        None \<Rightarrow> False
      | Some (i, pmb) \<Rightarrow> hp_size h pmb - (pv - pmb - CB_HDR) \<ge> cbSize)"

definition res_memfree :: "res_heap \<Rightarrow> ulong" where
  "res_memfree h = fold (\<lambda>(a, pha) cb. cb + cbFree pha) (phaChain h) 0"

definition res_memused :: "res_heap \<Rightarrow> ulong" where
  "res_memused h = fold (\<lambda>(a, pha) cb. cb + cbUsed pha) (phaChain h) 0"

text \<open>\<open>_res_heapmin\<close> walks from \<open>phaLast\<close> to the anchor behind \<open>phaFirst\<close> and unlinks every anchor without
  used memory; the result names the anchors given back to the system, in that order.\<close>

definition res_heapmin :: "res_heap \<Rightarrow> ulong list \<times> res_heap" where
  "res_heapmin h =
     (case phaChain h of
        [] \<Rightarrow> ([], h)
      | first # rest \<Rightarrow>
          (map fst (filter (\<lambda>x. cbUsed (snd x) = 0) (rev rest)),
           h\<lparr>phaChain := first # filter (\<lambda>x. cbUsed (snd x) \<noteq> 0) rest\<rparr>))"

end
