(* ===== verification/ResHeapInv.thy ===== *)
theory ResHeapInv
  imports ResHeap
begin

text \<open>
  The invariant of a heap anchor and its preservation by the operations on one anchor: the blocks tile the
  memory of the anchor without gaps, the trees hold exactly the free and the used ones, the free-size tree
  files every free block under its size, the two counters are exact, and no two free blocks are
  neighbours.
\<close>

section \<open>Tilings\<close>

definition hnext :: "(ulong \<Rightarrow> ulong) \<Rightarrow> ulong \<Rightarrow> nat" where
  "hnext m b = unat b + 24 + unat (m b)"

fun tiled :: "(ulong \<Rightarrow> ulong) \<Rightarrow> nat \<Rightarrow> ulong list \<Rightarrow> nat \<Rightarrow> bool" where
  "tiled m s [] e = (s = e)"
| "tiled m s (b # bs) e = (unat b = s \<and> 16 \<le> unat (m b) \<and> 4 dvd unat (m b) \<and> tiled m (hnext m b) bs e)"

lemma hnext_gt: "unat b < hnext m b"
  by (simp add: hnext_def)

lemma tiled_append: "tiled m s (xs @ ys) e \<longleftrightarrow> (\<exists>t. tiled m s xs t \<and> tiled m t ys e)"
  by (induction xs arbitrary: s) auto

lemma tiled_le: "tiled m s bs e \<Longrightarrow> s \<le> e"
proof (induction bs arbitrary: s)
  case (Cons b bs)
  then have "hnext m b \<le> e" by auto
  then show ?case using Cons.prems hnext_gt [of b m] by simp
qed simp

lemma tiled_cong: "(\<And>b. b \<in> set bs \<Longrightarrow> m' b = m b) \<Longrightarrow> tiled m' s bs e = tiled m s bs e"
  by (induction bs arbitrary: s) (auto simp: hnext_def)

lemma tiled_range: "tiled m s bs e \<Longrightarrow> b \<in> set bs \<Longrightarrow> s \<le> unat b \<and> hnext m b \<le> e"
proof (induction bs arbitrary: s)
  case (Cons c bs)
  show ?case
  proof (cases "b = c")
    case True
    then show ?thesis using Cons.prems tiled_le by auto
  next
    case False
    then have "hnext m c \<le> unat b \<and> hnext m b \<le> e" using Cons by auto
    then show ?thesis using Cons.prems hnext_gt [of c m] by auto
  qed
qed simp

lemma tiled_disjoint:
  "tiled m s bs e \<Longrightarrow> x \<in> set bs \<Longrightarrow> y \<in> set bs \<Longrightarrow> x < y \<Longrightarrow> hnext m x \<le> unat y"
proof (induction bs arbitrary: s)
  case (Cons c bs)
  have r: "tiled m (hnext m c) bs e" "unat c = s" using Cons.prems(1) by auto
  show ?case
  proof (cases "x = c \<or> y = c")
    case True
    then show ?thesis
      using tiled_range [OF r(1), of x] tiled_range [OF r(1), of y] Cons.prems(2-4) hnext_gt [of c m]
      by (auto simp: word_less_nat_alt)
  next
    case False
    then show ?thesis using Cons.IH [OF r(1)] Cons.prems by auto
  qed
qed simp

lemma tiled_distinct: "tiled m s bs e \<Longrightarrow> distinct bs"
proof (induction bs arbitrary: s)
  case (Cons c bs)
  then have "c \<notin> set bs" using tiled_range [of m "hnext m c" bs e c] hnext_gt [of c m] by auto
  then show ?case using Cons by auto
qed simp

lemma tiled_size: "tiled m s bs e \<Longrightarrow> b \<in> set bs \<Longrightarrow> 16 \<le> unat (m b)"
  by (induction bs arbitrary: s) auto

lemma tiled_dvd: "tiled m s bs e \<Longrightarrow> 4 dvd s \<Longrightarrow> b \<in> set bs \<Longrightarrow> 4 dvd unat b \<and> 4 dvd unat (m b)"
  by (induction bs arbitrary: s) (auto simp: hnext_def)

lemma tiled_sum: "tiled m s bs e \<Longrightarrow> s + sum (\<lambda>b. unat (m b)) (set bs) + 24 * length bs = e"
proof (induction bs arbitrary: s)
  case (Cons c bs)
  then have "c \<notin> set bs" using tiled_distinct [OF Cons.prems] by simp
  moreover have "unat c = s" "tiled m (hnext m c) bs e" using Cons.prems by auto
  ultimately show ?case using Cons.IH [of "hnext m c"] by (simp add: hnext_def)
qed simp

lemma tiled_split: "tiled m s bs e \<Longrightarrow> b \<in> set bs \<Longrightarrow> \<exists>xs ys. bs = xs @ b # ys"
  by (simp add: split_list)

text \<open>The block behind a block is the next of the list.\<close>

lemma tiled_adjacent:
  assumes "tiled m s bs e" "x \<in> set bs" "y \<in> set bs" "hnext m x = unat y"
  shows "\<exists>xs ys. bs = xs @ x # y # ys"
proof -
  obtain xs zs where bs: "bs = xs @ x # zs" using split_list [OF assms(2)] by blast
  then obtain t where t: "tiled m s xs t" "unat x = t" "tiled m (hnext m x) zs e"
    using assms(1) by (auto simp: tiled_append)
  have "y \<notin> set xs" using tiled_range [OF t(1), of y] t(2) assms(4) hnext_gt [of x m] hnext_gt [of y m] by auto
  moreover have "y \<noteq> x" using assms(4) hnext_gt [of x m] by auto
  ultimately have y: "y \<in> set zs" using assms(3) bs by auto
  then obtain z zs' where zs: "zs = z # zs'" by (cases zs) auto
  then have "z = y"
    using t(3) y assms(4) tiled_range [of m "hnext m z" zs' e y] hnext_gt [of z m] by (auto simp: unsigned_word_eqI)
  then show ?thesis using bs zs by blast
qed

lemma tiled_merge:
  assumes "tiled m s (xs @ x # y # ys) e" "unat (m' x) = unat (m x) + 24 + unat (m y)"
    "\<And>b. b \<in> set xs \<union> set ys \<Longrightarrow> m' b = m b"
  shows "tiled m' s (xs @ x # ys) e"
proof -
  obtain t where t: "tiled m s xs t" "unat x = t" "16 \<le> unat (m x)" "unat y = hnext m x" "tiled m (hnext m y) ys e"
    "4 dvd unat (m x)" "4 dvd unat (m y)"
    using assms(1) by (auto simp: tiled_append)
  then have "4 dvd unat (m' x)" using assms(2) by simp
  have "hnext m' x = hnext m y" using assms(2) t(4) by (simp add: hnext_def)
  then show ?thesis
    using t assms(2) tiled_cong [of xs m' m] tiled_cong [of ys m' m] assms(3) by (auto simp: tiled_append)
qed

lemma tiled_cut:
  assumes "tiled m s (xs @ x # ys) e" "unat y = unat x + 24 + unat (m' x)"
    "unat (m x) = unat (m' x) + 24 + unat (m' y)" "16 \<le> unat (m' x)" "16 \<le> unat (m' y)"
    "4 dvd unat (m' x) \<or> 4 dvd unat (m' y)" "\<And>b. b \<in> set xs \<union> set ys \<Longrightarrow> m' b = m b"
  shows "tiled m' s (xs @ x # y # ys) e"
proof -
  obtain t where t: "tiled m s xs t" "unat x = t" "tiled m (hnext m x) ys e"
    using assms(1) by (auto simp: tiled_append)
  have "4 dvd unat (m x)" using assms(1) by (auto simp: tiled_append)
  then have "4 dvd unat (m' x)" "4 dvd unat (m' y)" using assms(3,6) by presburger+
  moreover have "hnext m' y = hnext m x" "hnext m' x = unat y" using assms(2,3) by (simp_all add: hnext_def)
  ultimately show ?thesis
    using t assms tiled_cong [of xs m' m] tiled_cong [of ys m' m] by (auto simp: tiled_append)
qed

section \<open>Trees of blocks\<close>

definition id_map :: "ulong set \<Rightarrow> ulong \<Rightarrow> ulong option" where
  "id_map B k = (if k \<in> B then Some k else None)"

lemma id_map_Some [simp]: "id_map B k = Some p \<longleftrightarrow> k \<in> B \<and> p = k"
  by (auto simp: id_map_def)

lemma id_map_None [simp]: "id_map B k = None \<longleftrightarrow> k \<notin> B"
  by (auto simp: id_map_def)

lemma dom_id_map [simp]: "dom (id_map B) = B"
  by (auto simp: dom_def)

lemma id_map_insert: "(id_map B)(b \<mapsto> b) = id_map (insert b B)"
  by (rule ext) (simp add: id_map_def)

lemma id_map_remove: "(id_map B)(b := None) = id_map (B - {b})"
  by (rule ext) (simp add: id_map_def)

definition blocks :: "ulong avl \<Rightarrow> ulong set \<Rightarrow> bool" where
  "blocks t B \<longleftrightarrow> avl_index t \<and> avl_map t = id_map B"

lemma blocks_dom: "blocks t B \<Longrightarrow> dom (avl_map t) = B"
  by (simp add: blocks_def)

lemma blocks_finite: "blocks t B \<Longrightarrow> finite B"
  using blocks_dom avl.look_finite by metis

lemma blocks_Null [simp]: "blocks Null {}"
  by (simp add: blocks_def avl_index_def avl_wf_def fun_eq_iff id_map_def)

lemma blocks_insert:
  assumes "blocks t B" "card B < 17710" "b \<notin> B"
  shows "\<exists>t'. AVLInsert t b b = Inr (t', True) \<and> blocks t' (insert b B)"
proof -
  have t: "avl_index t" "avl_map t = id_map B" using assms(1) by (simp_all add: blocks_def)
  have "card (dom (avl_map t)) < 17710" "avl_map t b = None" using assms t by simp_all
  from avl.ins_ok [OF t(1) this, of b] show ?thesis unfolding t(2) id_map_insert blocks_def by blast
qed

lemma blocks_remove:
  assumes "blocks t B" "card B < 17710"
  shows "\<exists>t'. AVLRemove t b = Inr (t', id_map B b) \<and> blocks t' (B - {b})"
proof -
  have t: "avl_index t" "avl_map t = id_map B" using assms(1) by (simp_all add: blocks_def)
  have "card (dom (avl_map t)) < 17710" using assms t by simp
  from avl.del_ok [OF t(1) this, of b] show ?thesis unfolding t(2) id_map_remove blocks_def by blast
qed

lemma blocks_get:
  assumes "blocks t B"
  shows "avl_found (AVLGet t b) = (if b \<in> B then Some (b, b) else None)"
  using AVLGet_map [of t b] assms by (simp add: blocks_def id_map_def)

lemma blocks_get_with_parent:
  assumes "blocks t B" "AVLGetWithParent t b = (n, par)"
  shows "n \<noteq> Null \<longleftrightarrow> b \<in> B" "n \<noteq> Null \<Longrightarrow> ptr n = b" "par \<noteq> Null \<Longrightarrow> ptr par = Key par"
proof -
  have n: "AVLGet t b = n"
    using assms(2) avl_get_with_parent_fst [of Null t b] by (simp add: AVLGetWithParent_def)
  then show "n \<noteq> Null \<longleftrightarrow> b \<in> B" using blocks_get [OF assms(1), of b] by (cases n) (auto split: if_splits)
  show "ptr n = b" if "n \<noteq> Null"
    using blocks_get [OF assms(1), of b] n that by (cases n) (auto split: if_splits)
  assume "par \<noteq> Null"
  then have "par \<in> set (avl_nodes True t)"
    using avl_get_with_parent_child [of Null t b n par] assms(2) by (auto simp: AVLGetWithParent_def)
  from avl_node_map(1) [OF _ this] show "ptr par = Key par"
    using assms(1) by (auto simp: blocks_def split: if_splits)
qed

lemma blocks_relink:
  assumes "blocks t B" "AVLGetWithParent t k = (n, par)" "n \<noteq> Null" "same_gap B k k'"
  shows "blocks (avl_relink par (k' < ptr par) (avl_copy_core k' k' n) t) (insert k' (B - {k}))"
proof -
  have "avl_index (avl_relink par (k' < ptr par) (avl_copy_core k' k' n) t) \<and>
    avl_map (avl_relink par (k' < ptr par) (avl_copy_core k' k' n) t) = (avl_map t)(k := None, k' \<mapsto> k')"
    using assms blocks_get_with_parent(3) [OF assms(1,2)] blocks_dom [OF assms(1)]
    by (intro avl_relink_index) (auto simp: blocks_def)
  moreover have "(id_map B)(k := None, k' \<mapsto> k') = id_map (insert k' (B - {k}))"
    by (simp add: id_map_remove id_map_insert)
  ultimately show ?thesis using assms(1) by (simp add: blocks_def)
qed

lemma blocks_below:
  assumes "blocks t B" "AVLGetBestFit t b False = n"
  shows "n \<noteq> Null \<Longrightarrow> ptr n \<in> B \<and> ptr n \<le> b" "x \<in> B \<Longrightarrow> x \<le> b \<Longrightarrow> n \<noteq> Null \<and> x \<le> ptr n"
proof -
  have i: "avl_index t" and d: "dom (avl_map t) = B" using assms(1) blocks_dom by (auto simp: blocks_def)
  show "ptr n \<in> B \<and> ptr n \<le> b" if "n \<noteq> Null"
  proof (cases n)
    case (Node p k l r h)
    then show ?thesis using avl.below_Some [OF i, of b k p] assms by (auto simp: blocks_def split: if_splits)
  qed (use that in simp)
  show "n \<noteq> Null \<and> x \<le> ptr n" if "x \<in> B" "x \<le> b"
  proof (cases n)
    case Null
    then show ?thesis using avl.below_None [OF i, of b x] that d assms(2) by auto
  next
    case (Node p k l r h)
    then show ?thesis using avl.below_Some [OF i, of b k p] that d assms by (auto simp: blocks_def split: if_splits)
  qed
qed

section \<open>The free-size tree\<close>

definition of_size :: "(ulong \<Rightarrow> ulong) \<Rightarrow> ulong set \<Rightarrow> ulong \<Rightarrow> ulong set" where
  "of_size m F k = {f \<in> F. m f = k}"

fun chain_ok :: "ulong set \<Rightarrow> freechain option \<Rightarrow> bool" where
  "chain_ok S None = (S = {})"
| "chain_ok S (Some (p, ps)) = (distinct (p # ps) \<and> set (p # ps) = S)"

definition sizes :: "freechain avl \<Rightarrow> (ulong \<Rightarrow> ulong) \<Rightarrow> ulong set \<Rightarrow> bool" where
  "sizes t m F \<longleftrightarrow> avl_index t \<and> (\<forall>k. chain_ok (of_size m F k) (avl_map t k))"

lemma chain_ok_iff:
  "chain_ok S c \<longleftrightarrow> (case c of None \<Rightarrow> S = {} | Some (p, ps) \<Rightarrow> distinct (p # ps) \<and> set (p # ps) = S)"
  by (cases c) auto

lemma sizes_Null [simp]: "sizes Null m {}"
  by (simp add: sizes_def avl_index_def avl_wf_def of_size_def)

lemma sizes_cong: "(\<And>f. f \<in> F \<Longrightarrow> m' f = m f) \<Longrightarrow> sizes t m' F = sizes t m F"
  by (auto simp: sizes_def of_size_def cong: conj_cong)

lemma sizes_dom:
  assumes "sizes t m F"
  shows "dom (avl_map t) = m ` F"
proof -
  have "k \<in> dom (avl_map t) \<longleftrightarrow> k \<in> m ` F" for k
  proof -
    have ck: "chain_ok (of_size m F k) (avl_map t k)" using assms by (simp add: sizes_def)
    show ?thesis
    proof (cases "avl_map t k")
      case None
      then show ?thesis using ck by (auto simp: of_size_def)
    next
      case (Some c)
      then have "fst c \<in> of_size m F k" using ck by (cases c) auto
      then show ?thesis using Some by (auto simp: of_size_def)
    qed
  qed
  then show ?thesis by blast
qed

lemma sizes_card: "sizes t m F \<Longrightarrow> finite F \<Longrightarrow> card F < 17710 \<Longrightarrow> card (dom (avl_map t)) < 17710"
  using sizes_dom card_image_le [of F m] by fastforce

lemma set_remove1_chain: "distinct ps \<Longrightarrow> set (remove1 x ps) = set ps - {x}"
  by (rule set_remove1_eq)

lemma set_chain_insert: "set (chain_insert x ps) = insert x (set ps)"
  by (induction ps) auto

lemma distinct_chain_insert: "x \<notin> set ps \<Longrightarrow> distinct (chain_insert x ps) = distinct ps"
  by (induction ps) (auto simp: set_chain_insert)

lemma of_size_remove:
  "of_size m (F - {f}) k = (if k = m f then of_size m F k - {f} else of_size m F k)"
  by (auto simp: of_size_def)

lemma of_size_insert:
  "of_size m (insert f F) k = (if k = m f then insert f (of_size m F k) else of_size m F k)"
  by (auto simp: of_size_def)

lemma sizes_update:
  assumes "sizes t m F" "avl_index t'" "avl_map t' = (avl_map t)(m f := c)"
    "chain_ok (of_size m F' (m f)) c" "\<And>k. k \<noteq> m f \<Longrightarrow> of_size m F' k = of_size m F k"
  shows "sizes t' m F'"
  using assms by (simp add: sizes_def)

lemma resRemoveFromFreeSize_ok:
  assumes "sizes (pcoreFreeSize ha) m F" "finite F" "card F < 17710" "f \<in> F"
  shows "\<exists>t'. resRemoveFromFreeSize m ha f = Inr (ha\<lparr>pcoreFreeSize := t'\<rparr>) \<and> sizes t' m (F - {f})"
proof -
  let ?t = "pcoreFreeSize ha" and ?S = "of_size m F (m f)"
  have ix: "avl_index ?t" and ck: "chain_ok ?S (avl_map ?t (m f))" using assms(1) by (auto simp: sizes_def)
  have fS: "f \<in> ?S" using assms(4) by (simp add: of_size_def)
  obtain p ps where mp: "avl_map ?t (m f) = Some (p, ps)" using ck fS by (cases "avl_map ?t (m f)") auto
  then have ds: "distinct (p # ps)" "set (p # ps) = ?S" using ck by auto
  obtain n par where g: "AVLGetWithParent ?t (m f) = (n, par)" by (cases "AVLGetWithParent ?t (m f)") auto
  then have "AVLGet ?t (m f) = n" using avl_get_with_parent_fst [of Null ?t "m f"] by (simp add: AVLGetWithParent_def)
  then obtain l r h where n: "n = Node (p, ps) (m f) l r h" "AVLGet ?t (m f) = Node (p, ps) (m f) l r h"
    using AVLGet_map [OF ix, of "m f"] mp by (cases n) auto
  note upd = sizes_update [OF assms(1), of _ f _ "F - {f}"]
  have other: "\<And>k. k \<noteq> m f \<Longrightarrow> of_size m (F - {f}) k = of_size m F k" by (simp add: of_size_remove)
  have S': "of_size m (F - {f}) (m f) = ?S - {f}" by (simp add: of_size_remove)
  consider "p \<noteq> f" | "p = f" "ps = []" | q qs where "p = f" "ps = q # qs" by (cases ps) auto
  then show ?thesis
  proof cases
    case 1
    let ?u = "avl_set_ptr (m f) (\<lambda>(p, ps). (p, remove1 f ps)) ?t"
    have u: "avl_index ?u \<and> avl_map ?u = (avl_map ?t)(m f := Some (p, remove1 f ps))"
      using avl.edit_ok [OF ix mp] by simp
    have "set (p # remove1 f ps) = ?S - {f}" "distinct (p # remove1 f ps)"
      using ds 1 by (auto simp: set_remove1_chain)
    then have "sizes ?u m (F - {f})" using u other S' by (intro upd) auto
    then show ?thesis using g n 1 by (auto simp: resRemoveFromFreeSize_def Let_def)
  next
    case 2
    obtain u where u: "AVLRemove ?t (m f) = Inr (u, Some (p, ps))" "avl_index u" "avl_map u = (avl_map ?t)(m f := None)"
      using avl.del_ok [OF ix sizes_card [OF assms(1-3)], of "m f"] mp by auto
    have "?S - {f} = {}" using ds 2 by auto
    then have "sizes u m (F - {f})" using u other S' by (intro upd) auto
    then show ?thesis using g n u 2 by (auto simp: resRemoveFromFreeSize_def Let_def)
  next
    case 3
    let ?u = "avl_relink par (m f < Key par) (avl_copy_core (q, qs) (m f) n) ?t"
    have u: "avl_index ?u \<and> avl_map ?u = (avl_map ?t)(m f := None, m f \<mapsto> (q, qs))"
      using n by (intro avl_relink_index [OF ix g]) auto
    have "set (q # qs) = ?S - {f}" "distinct (q # qs)" using ds 3 by auto
    then have "sizes ?u m (F - {f})" using u other S' by (intro upd) auto
    then show ?thesis using g n 3 by (auto simp: resRemoveFromFreeSize_def Let_def)
  qed
qed

lemma resInsertIntoFreeSize_ok:
  assumes "sizes (pcoreFreeSize ha) m F" "finite F" "card F < 17710" "f \<notin> F"
  shows "\<exists>t'. resInsertIntoFreeSize m ha f = Inr (ha\<lparr>pcoreFreeSize := t'\<rparr>) \<and> sizes t' m (insert f F)"
proof -
  let ?t = "pcoreFreeSize ha" and ?S = "of_size m F (m f)"
  have ix: "avl_index ?t" and ck: "chain_ok ?S (avl_map ?t (m f))" using assms(1) by (auto simp: sizes_def)
  have fS: "f \<notin> ?S" using assms(4) by (simp add: of_size_def)
  note upd = sizes_update [OF assms(1), of _ f _ "insert f F"]
  have other: "\<And>k. k \<noteq> m f \<Longrightarrow> of_size m (insert f F) k = of_size m F k" by (simp add: of_size_insert)
  have S': "of_size m (insert f F) (m f) = insert f ?S" by (simp add: of_size_insert)
  show ?thesis
  proof (cases "avl_map ?t (m f)")
    case None
    obtain u where u: "AVLInsert ?t (f, []) (m f) = Inr (u, True)" "avl_index u"
      "avl_map u = (avl_map ?t)(m f \<mapsto> (f, []))"
      using avl.ins_ok [OF ix sizes_card [OF assms(1-3)] None, of "(f, [])"] by (elim exE conjE) (rule that)
    have "chain_ok (insert f ?S) (Some (f, []))" using ck None by auto
    then have "sizes u m (insert f F)" using u other S' by (intro upd) auto
    then show ?thesis using u None AVLGet_map [OF ix, of "m f"]
      by (cases "AVLGet ?t (m f)") (auto simp: resInsertIntoFreeSize_def Let_def)
  next
    case (Some c)
    obtain p ps where c: "c = (p, ps)" by (cases c)
    let ?u = "avl_set_ptr (m f) (\<lambda>(p, ps). (p, chain_insert f ps)) ?t"
    have u: "avl_index ?u \<and> avl_map ?u = (avl_map ?t)(m f := Some (p, chain_insert f ps))"
      using avl.edit_ok [OF ix Some] c by simp
    have ds: "distinct (p # ps)" "set (p # ps) = ?S" using ck Some c by simp_all
    have nf: "f \<notin> set ps" "f \<noteq> p" using fS unfolding ds(2) [symmetric] by auto
    have "chain_ok (insert f ?S) (Some (p, chain_insert f ps))"
      unfolding ds(2) [symmetric] using ds(1) nf by (simp add: set_chain_insert distinct_chain_insert insert_commute)
    then have "sizes ?u m (insert f F)" using u other S' by (intro upd) auto
    then show ?thesis using Some AVLGet_map [OF ix, of "m f"]
      by (cases "AVLGet ?t (m f)") (auto simp: resInsertIntoFreeSize_def Let_def)
  qed
qed

section \<open>The invariant of an anchor\<close>

text \<open>\<open>F\<close> and \<open>U\<close> are the free and the used blocks, \<open>X\<close> the blocks an operation holds in its hands, \<open>bs\<close> all
  of them in the order of their addresses.\<close>

abbreviation bytes :: "(ulong \<Rightarrow> ulong) \<Rightarrow> ulong set \<Rightarrow> nat" where
  "bytes m B \<equiv> sum (\<lambda>b. unat (m b)) B"

definition coalesced :: "(ulong \<Rightarrow> ulong) \<Rightarrow> ulong set \<Rightarrow> bool" where
  "coalesced m F \<longleftrightarrow> (\<forall>f\<in>F. \<forall>g\<in>F. hnext m f \<noteq> unat g)"

definition anchor_inv ::
  "(ulong \<Rightarrow> ulong) \<Rightarrow> ulong \<Rightarrow> heap_anchor \<Rightarrow> ulong set \<Rightarrow> ulong set \<Rightarrow> ulong set \<Rightarrow> ulong list \<Rightarrow> bool" where
  "anchor_inv m a ha F U X bs \<longleftrightarrow>
     blocks (pmbFree ha) F \<and> blocks (pmbUsed ha) U \<and> sizes (pcoreFreeSize ha) m F \<and>
     F \<inter> U = {} \<and> X \<inter> (F \<union> U) = {} \<and> set bs = F \<union> U \<union> X \<and>
     tiled m (unat a + 36) bs (unat a + unat (ha_cbSize ha)) \<and> unat a + unat (ha_cbSize ha) < 2 ^ 32 \<and>
     unat (cbFree ha) = bytes m F \<and> unat (cbUsed ha) = bytes m U \<and> coalesced m F"

lemma anchor_invD:
  assumes "anchor_inv m a ha F U X bs"
  shows "blocks (pmbFree ha) F" "blocks (pmbUsed ha) U" "sizes (pcoreFreeSize ha) m F"
    "F \<inter> U = {}" "X \<inter> (F \<union> U) = {}" "set bs = F \<union> U \<union> X"
    "tiled m (unat a + 36) bs (unat a + unat (ha_cbSize ha))" "unat a + unat (ha_cbSize ha) < 2 ^ 32"
    "unat (cbFree ha) = bytes m F" "unat (cbUsed ha) = bytes m U" "coalesced m F" "finite F" "finite U" "finite X"
  using assms finite_set [of bs] by (auto simp: anchor_inv_def dest: blocks_finite)

lemma anchor_inv_card:
  assumes "anchor_inv m a ha F U X bs"
  shows "card F + card U + card X = length bs"
proof -
  note i = anchor_invD [OF assms]
  have "length bs = card (F \<union> U \<union> X)" using distinct_card [OF tiled_distinct [OF i(7)]] i(6) by simp
  also have "\<dots> = card F + card U + card X"
    using i(4,5,12-14) by (subst card_Un_disjoint) (auto simp: card_Un_disjoint)
  finally show ?thesis by simp
qed

text \<open>All bytes together stay below the size of the anchor.\<close>

lemma anchor_inv_bytes:
  assumes "anchor_inv m a ha F U X bs"
  shows "bytes m F + bytes m U + bytes m X + 24 * length bs + 36 = unat (ha_cbSize ha)"
proof -
  note i = anchor_invD [OF assms]
  have "bytes m (set bs) = bytes m F + bytes m U + bytes m X"
    unfolding i(6) using i(4,5,12-14) by (subst sum.union_disjoint; (subst sum.union_disjoint)?) auto
  then show ?thesis using tiled_sum [OF i(7)] by simp
qed

lemma anchor_inv_next:
  assumes "anchor_inv m a ha F U X bs" "b \<in> F \<union> U \<union> X"
  shows "unat (PNEXT_BLOCK m b) = hnext m b"
proof -
  note i = anchor_invD [OF assms(1)]
  have h: "hnext m b < 2 ^ LENGTH(32)" using tiled_range [OF i(7), of b] assms(2) i(6,8) by simp
  then have "unat (b + CB_HDR) = unat b + 24"
    by (subst unat_add_small) (simp_all add: hnext_def CB_HDR_def)
  moreover from this have "unat (b + CB_HDR + m b) = unat (b + CB_HDR) + unat (m b)"
    using h by (subst unat_add_small) (simp_all add: hnext_def)
  ultimately show ?thesis by (simp add: PNEXT_BLOCK_def hnext_def)
qed

lemma anchor_inv_neighbours:
  assumes "anchor_inv m a ha F U X bs" "x \<in> F \<union> U \<union> X" "y \<in> F \<union> U \<union> X" "x < y"
  shows "hnext m x \<le> unat y"
  using tiled_disjoint [OF anchor_invD(7) [OF assms(1)]] anchor_invD(6) [OF assms(1)] assms by blast

lemma free_left_iff:
  assumes "anchor_inv m a ha F U X bs" "b \<in> X"
  shows "free_left m ha b = Some l \<longleftrightarrow> l \<in> F \<and> hnext m l = unat b"
proof -
  note i = anchor_invD [OF assms(1)]
  have nb: "b \<notin> F" using i(5) assms(2) by auto
  let ?n = "AVLGetBestFit (pmbFree ha) b False"
  note bel = blocks_below [OF i(1) refl, where b = b]
  have nx: "PNEXT_BLOCK m p = b \<longleftrightarrow> hnext m p = unat b" if "p \<in> F" for p
    using anchor_inv_next [OF assms(1), of p] that by (metis UnI1 unsigned_word_eqI)
  have left: "?n \<noteq> Null \<and> ptr ?n = l" if l: "l \<in> F" "hnext m l = unat b"
  proof -
    have "l \<le> b" using l(2) hnext_gt [of l m] by (simp add: word_le_nat_alt)
    from bel(2) [OF l(1) this] have n: "?n \<noteq> Null" "l \<le> ptr ?n" by auto
    have p: "ptr ?n \<in> F" "ptr ?n \<le> b" using bel(1) [OF n(1)] by auto
    have "\<not> l < ptr ?n"
    proof
      assume "l < ptr ?n"
      then have "unat b \<le> unat (ptr ?n)" using anchor_inv_neighbours [OF assms(1), of l "ptr ?n"] l p(1) by simp
      then have "b \<le> ptr ?n" by (simp add: word_le_nat_alt)
      then have "ptr ?n = b" using p(2) by (rule order_antisym [rotated])
      then show False using p(1) nb by simp
    qed
    then show ?thesis using n by auto
  qed
  show ?thesis
  proof (cases ?n)
    case Null
    then show ?thesis using left by (auto simp: free_left_def)
  next
    case (Node p k u v h)
    then have "p \<in> F" using bel(1) by auto
    then show ?thesis using Node left nx [of p] by (auto simp: free_left_def)
  qed
qed

lemma merge_two:
  assumes "tiled m s bs e" "x \<in> set bs" "y \<in> set bs" "hnext m x = unat y" "e < 2 ^ 32"
  shows "\<exists>bs'. tiled (m(x := m x + (CB_HDR + m y))) s bs' e \<and> set bs' = set bs - {y} \<and> length bs' < length bs"
    and "unat (m x + (CB_HDR + m y)) = unat (m x) + 24 + unat (m y)"
    and "hnext (m(x := m x + (CB_HDR + m y))) x = hnext m y" and "x \<noteq> y"
proof -
  obtain xs ys where bs: "bs = xs @ x # y # ys" using tiled_adjacent [OF assms(1-4)] by blast
  have d: "distinct bs" by (rule tiled_distinct [OF assms(1)])
  have "hnext m y < 2 ^ LENGTH(32)" using tiled_range [OF assms(1,3)] assms(5) by simp
  then have b: "unat x + 24 + unat (m x) + 24 + unat (m y) < 2 ^ LENGTH(32)"
    using assms(4) by (simp add: hnext_def)
  then have "unat (CB_HDR + m y) = 24 + unat (m y)"
    by (subst unat_add_small) (simp_all add: CB_HDR_def)
  moreover from this have "unat (m x + (CB_HDR + m y)) = unat (m x) + unat (CB_HDR + m y)"
    using b by (subst unat_add_small) simp_all
  ultimately show u: "unat (m x + (CB_HDR + m y)) = unat (m x) + 24 + unat (m y)" by simp
  then show "hnext (m(x := m x + (CB_HDR + m y))) x = hnext m y" using assms(4) by (simp add: hnext_def)
  show "x \<noteq> y" using d bs by auto
  have "tiled (m(x := m x + (CB_HDR + m y))) s (xs @ x # ys) e"
    using assms(1) u d by (intro tiled_merge [of m s xs x y ys e]) (auto simp: bs)
  then show "\<exists>bs'. tiled (m(x := m x + (CB_HDR + m y))) s bs' e \<and> set bs' = set bs - {y} \<and> length bs' < length bs"
    using d by (intro exI [of _ "xs @ x # ys"]) (auto simp: bs)
qed

section \<open>Freeing a block\<close>

text \<open>What \<open>resInsertFree\<close> achieves with the block \<open>b\<close> in its hands.\<close>

definition freed ::
  "(ulong \<Rightarrow> ulong) \<Rightarrow> ulong \<Rightarrow> heap_anchor \<Rightarrow> ulong set \<Rightarrow> ulong set \<Rightarrow> ulong \<Rightarrow> ulong list \<Rightarrow>
   ((ulong \<Rightarrow> ulong) \<times> heap_anchor) res \<Rightarrow> bool" where
  "freed m a ha F U b bs r \<longleftrightarrow>
     (\<exists>m' t s c F' bs'. r = Inr (m', ha\<lparr>pmbFree := t, pcoreFreeSize := s, cbFree := c\<rparr>) \<and>
        anchor_inv m' a (ha\<lparr>pmbFree := t, pcoreFreeSize := s, cbFree := c\<rparr>) F' U {} bs' \<and>
        (\<forall>x. x \<notin> insert b F \<longrightarrow> m' x = m x) \<and> F' \<subseteq> insert b F \<and> length bs' \<le> length bs)"

lemma freedI:
  assumes "r = Inr (m', ha\<lparr>pmbFree := t, pcoreFreeSize := s, cbFree := c\<rparr>)"
    "blocks t F'" "blocks (pmbUsed ha) U" "sizes s m' F'" "F' \<inter> U = {}" "set bs' = F' \<union> U"
    "tiled m' (unat a + 36) bs' (unat a + unat (ha_cbSize ha))" "unat a + unat (ha_cbSize ha) < 2 ^ 32"
    "unat c = bytes m' F'" "unat (cbUsed ha) = bytes m' U" "coalesced m' F'"
    "\<And>x. x \<notin> insert b F \<Longrightarrow> m' x = m x" "F' \<subseteq> insert b F" "length bs' \<le> length bs"
  shows "freed m a ha F U b bs r"
  unfolding freed_def using assms
  by (intro exI [of _ m'] exI [of _ t] exI [of _ s] exI [of _ c] exI [of _ F'] exI [of _ bs'])
     (simp add: anchor_inv_def)

lemma bytes_cong: "(\<And>x. x \<in> B \<Longrightarrow> m' x = m x) \<Longrightarrow> bytes m' B = bytes m B"
  by (intro sum.cong) auto

lemma free_right_iff:
  assumes "anchor_inv m a ha F U X bs" "b \<in> F \<union> U \<union> X" "AVLGetWithParent (pmbFree ha) (PNEXT_BLOCK m b) = (n, par)"
  shows "n \<noteq> Null \<Longrightarrow> ptr n \<in> F \<and> hnext m b = unat (ptr n)" "g \<in> F \<Longrightarrow> hnext m b = unat g \<Longrightarrow> n \<noteq> Null"
proof -
  note g = blocks_get_with_parent [OF anchor_invD(1) [OF assms(1)] assms(3)]
  have nx: "unat (PNEXT_BLOCK m b) = hnext m b" by (rule anchor_inv_next [OF assms(1,2)])
  show "ptr n \<in> F \<and> hnext m b = unat (ptr n)" if "n \<noteq> Null" using g(1,2) that nx by simp
  assume "g \<in> F" "hnext m b = unat g"
  then have "PNEXT_BLOCK m b = g" using nx by (intro unsigned_word_eqI) simp
  then show "n \<noteq> Null" using g(1) \<open>g \<in> F\<close> by simp
qed

lemma freed_no_merge:
  assumes inv: "anchor_inv m a ha F U {b} bs" and len: "length bs < 17710"
    and no: "free_left m (ha\<lparr>cbFree := cbFree ha + m b\<rparr>) b = None"
      "AVLGetWithParent (pmbFree ha) (PNEXT_BLOCK m b) = (Null, par)"
  shows "freed m a ha F U b bs (resInsertFree m ha b)"
proof -
  note i = anchor_invD [OF inv]
  have card: "card F < 17710" and nb: "b \<notin> F" "b \<notin> U" using anchor_inv_card [OF inv] len i(5) by auto
  have nx: "unat g \<noteq> hnext m b" if "g \<in> F" for g
    using free_right_iff(2) [OF inv _ no(2) that] by auto
  have nl: "hnext m f \<noteq> unat b" if "f \<in> F" for f
    using free_left_iff [OF inv, of b f] no(1) that by (auto simp: free_left_def)
  obtain t where t: "AVLInsert (pmbFree ha) b b = Inr (t, True)" "blocks t (insert b F)"
    using blocks_insert [OF i(1) card nb(1)] by blast
  obtain s where s: "resInsertIntoFreeSize m (ha\<lparr>cbFree := cbFree ha + m b, pmbFree := t\<rparr>) b =
      Inr (ha\<lparr>cbFree := cbFree ha + m b, pmbFree := t, pcoreFreeSize := s\<rparr>)" "sizes s m (insert b F)"
    using resInsertIntoFreeSize_ok [of "ha\<lparr>cbFree := cbFree ha + m b, pmbFree := t\<rparr>" m F b] i card nb by auto
  have "unat (cbFree ha) + unat (m b) < 2 ^ LENGTH(32)"
    using anchor_inv_bytes [OF inv] i(8,9) by simp
  then have c: "unat (cbFree ha + m b) = bytes m (insert b F)"
    using i(9,12) nb by (simp add: unat_add_small)
  have co: "coalesced m (insert b F)"
    using i(11) nx nl hnext_gt [of b m] by (force simp: coalesced_def)
  have "resInsertFree m ha b =
      Inr (m, ha\<lparr>pmbFree := t, pcoreFreeSize := s, cbFree := cbFree ha + m b\<rparr>)"
    using no t s by (simp add: resInsertFree_def)
  then show ?thesis
    using i t s c co nb by (intro freedI [where m' = m and F' = "insert b F" and bs' = bs and s = s and t = t]) auto
qed

lemma freed_left:
  assumes inv: "anchor_inv m a ha F U {b} bs" and len: "length bs < 17710"
    and l: "free_left m (ha\<lparr>cbFree := cbFree ha + m b\<rparr>) b = Some l"
      "AVLGetWithParent (pmbFree ha) (PNEXT_BLOCK m b) = (Null, par)"
  shows "freed m a ha F U b bs (resInsertFree m ha b)"
proof -
  note i = anchor_invD [OF inv]
  have card: "card F < 17710" and nb: "b \<notin> F" "b \<notin> U" using anchor_inv_card [OF inv] len i(5) by auto
  have nx: "unat g \<noteq> hnext m b" if "g \<in> F" for g
    using free_right_iff(2) [OF inv _ l(2) that] by auto
  have lF: "l \<in> F" "hnext m l = unat b"
    using free_left_iff [OF inv, of b l] l(1) by (auto simp: free_left_def)
  let ?m = "m(l := m l + (CB_HDR + m b))"
  have e: "l \<in> set bs" "b \<in> set bs" using lF i(6) by auto
  note mt = merge_two [OF i(7) e lF(2) i(8)]
  obtain bs' where bs': "tiled ?m (unat a + 36) bs' (unat a + unat (ha_cbSize ha))" "set bs' = set bs - {b}"
    "length bs' < length bs" using mt(1) by blast
  let ?ha = "ha\<lparr>cbFree := cbFree ha + m b\<rparr>"
  obtain s where s: "resRemoveFromFreeSize m ?ha l = Inr (?ha\<lparr>pcoreFreeSize := s\<rparr>)" "sizes s m (F - {l})"
    using resRemoveFromFreeSize_ok [of ?ha m F l] i card lF by auto
  then have s': "sizes s ?m (F - {l})" using sizes_cong [of "F - {l}" ?m m s] by simp
  let ?hb = "?ha\<lparr>pcoreFreeSize := s, cbFree := cbFree ha + m b + CB_HDR\<rparr>"
  have "card (F - {l}) < 17710" using card i(12) by (meson card_Diff1_le le_less_trans)
  then obtain u where u: "resInsertIntoFreeSize ?m ?hb l = Inr (?hb\<lparr>pcoreFreeSize := u\<rparr>)" "sizes u ?m F"
    using resInsertIntoFreeSize_ok [of ?hb ?m "F - {l}" l] s' i(12) lF(1) by (auto simp: insert_absorb)
  have F: "bytes ?m F = bytes m F + (24 + unat (m b))"
    using lF(1) i(12) mt(2) by (simp add: sum.remove [of F l])
  have "length bs \<noteq> 0" using e by auto
  then have "unat (cbFree ha) + unat (m b) + 24 < 2 ^ LENGTH(32)"
    using anchor_inv_bytes [OF inv] i(8,9) by simp
  then have "unat (cbFree ha + m b + CB_HDR) = bytes ?m F"
    using i(9) F by (simp add: unat_add_small CB_HDR_def)
  moreover have "coalesced ?m F"
    using i(11) nx mt(3) by (force simp: coalesced_def hnext_def)
  moreover have "bytes ?m U = bytes m U" using lF(1) i(4) by (intro bytes_cong) auto
  moreover have "resInsertFree m ha b = Inr (?m, ha\<lparr>pmbFree := pmbFree ha, pcoreFreeSize := u, cbFree := cbFree ha + m b + CB_HDR\<rparr>)"
    using l s u by (simp add: resInsertFree_def Let_def)
  ultimately show ?thesis
    using i u(2) lF(1) bs' nb by (intro freedI [where m' = ?m and F' = F and bs' = bs' and s = u and t = "pmbFree ha"]) auto
qed

lemma freed_right:
  assumes inv: "anchor_inv m a ha F U {b} bs" and len: "length bs < 17710"
    and r: "free_left m (ha\<lparr>cbFree := cbFree ha + m b\<rparr>) b = None"
      "AVLGetWithParent (pmbFree ha) (PNEXT_BLOCK m b) = (n, par)" "n \<noteq> Null"
  shows "freed m a ha F U b bs (resInsertFree m ha b)"
proof -
  note i = anchor_invD [OF inv]
  have card: "card F < 17710" and nb: "b \<notin> F" "b \<notin> U" using anchor_inv_card [OF inv] len i(5) by auto
  define g where "g = ptr n"
  have gF: "g \<in> F" "hnext m b = unat g" using free_right_iff(1) [OF inv _ r(2,3)] by (auto simp: g_def)
  obtain k p q v where n: "n = Node g k p q v" using r(3) by (cases n) (auto simp: g_def)
  have nl: "hnext m f \<noteq> unat b" if "f \<in> F" for f
    using free_left_iff [OF inv, of b f] r(1) that by (auto simp: free_left_def)
  let ?m = "m(b := m b + (CB_HDR + m g))" and ?F = "insert b (F - {g})"
  have e: "b \<in> set bs" "g \<in> set bs" using gF i(6) by auto
  note mt = merge_two [OF i(7) e gF(2) i(8)]
  obtain bs' where bs': "tiled ?m (unat a + 36) bs' (unat a + unat (ha_cbSize ha))" "set bs' = set bs - {g}"
    "length bs' < length bs" using mt(1) by blast
  have pn: "PNEXT_BLOCK m b = g"
    using anchor_inv_next [OF inv, of b] gF(2) by (intro unsigned_word_eqI) simp
  have "same_gap F g b"
    unfolding same_gap_def
  proof (intro ballI impI)
    fix x assume x: "x \<in> F" "x \<noteq> g"
    have bg: "b < g" using gF(2) hnext_gt [of b m] by (simp add: word_less_nat_alt)
    have "x < b \<or> b < x" using x(1) nb(1) by (metis linorder_neqE)
    moreover have "g < x" if "b < x"
      using anchor_inv_neighbours [OF inv, of b x] that x gF(2) by (simp add: word_le_nat_alt order_less_le)
    ultimately show "x < g \<and> x < b \<or> g < x \<and> b < x" using bg by (auto intro: order.strict_trans)
  qed
  from blocks_relink [OF i(1) _ r(3) this, of par] have t:
    "blocks (avl_relink par (b < ptr par) (avl_copy_core b b n) (pmbFree ha)) ?F" using r(2) pn by simp
  let ?ha = "ha\<lparr>cbFree := cbFree ha + m b\<rparr>"
  obtain s where s: "resRemoveFromFreeSize m ?ha g = Inr (?ha\<lparr>pcoreFreeSize := s\<rparr>)" "sizes s m (F - {g})"
    using resRemoveFromFreeSize_ok [of ?ha m F g] i card gF by auto
  have "?m x = m x" if "x \<in> F - {g}" for x using that nb by auto
  from sizes_cong [of "F - {g}" ?m m s, OF this] have s': "sizes s ?m (F - {g})" using s(2) by simp
  let ?hb = "?ha\<lparr>pcoreFreeSize := s, cbFree := cbFree ha + m b + CB_HDR\<rparr>"
  have "card (F - {g}) < 17710" using card i(12) by (meson card_Diff1_le le_less_trans)
  then obtain u where u: "resInsertIntoFreeSize ?m ?hb b = Inr (?hb\<lparr>pcoreFreeSize := u\<rparr>)" "sizes u ?m ?F"
    using resInsertIntoFreeSize_ok [of ?hb ?m "F - {g}" b] s' i(12) nb(1) by auto
  have "bytes ?m (F - {g}) = bytes m (F - {g})" using nb by (intro bytes_cong) auto
  then have F: "bytes ?m ?F = bytes m F + (24 + unat (m b))"
    using gF(1) i(12) mt(2) nb by (simp add: sum.remove [of F g])
  have "length bs \<noteq> 0" using e by auto
  then have "unat (cbFree ha) + unat (m b) + 24 < 2 ^ LENGTH(32)"
    using anchor_inv_bytes [OF inv] i(8,9) by simp
  then have "unat (cbFree ha + m b + CB_HDR) = bytes ?m ?F"
    using i(9) F by (simp add: unat_add_small CB_HDR_def)
  moreover have "coalesced ?m ?F"
    unfolding coalesced_def
  proof (intro ballI)
    fix x y assume xy: "x \<in> ?F" "y \<in> ?F"
    have "hnext ?m x = (if x = b then hnext m g else hnext m x)" using mt(3) by (auto simp: hnext_def)
    then show "hnext ?m x \<noteq> unat y"
      using xy i(11) gF nl nb tiled_range [OF i(7) e(2)] hnext_gt [of g m] hnext_gt [of b m]
      by (auto simp: coalesced_def)
  qed
  moreover have "bytes ?m U = bytes m U" using nb by (intro bytes_cong) auto
  moreover have "resInsertFree m ha b = Inr (?m, ha\<lparr>pmbFree := avl_relink par (b < ptr par) (avl_copy_core b b n) (pmbFree ha),
      pcoreFreeSize := u, cbFree := cbFree ha + m b + CB_HDR\<rparr>)"
    using r s u n by (simp add: resInsertFree_def Let_def)
  moreover have "?F \<inter> U = {}" "set bs' = ?F \<union> U" using i(4,6) bs'(2) nb gF(1) mt(4) by auto
  ultimately show ?thesis
    using i u(2) gF(1) bs' t by (intro freedI [where m' = ?m and F' = ?F and bs' = bs' and s = u]) auto
qed

lemma freed_both:
  assumes inv: "anchor_inv m a ha F U {b} bs" and len: "length bs < 17710"
    and l: "free_left m (ha\<lparr>cbFree := cbFree ha + m b\<rparr>) b = Some l"
      "AVLGetWithParent (pmbFree ha) (PNEXT_BLOCK m b) = (n, par)" "n \<noteq> Null"
  shows "freed m a ha F U b bs (resInsertFree m ha b)"
proof -
  note i = anchor_invD [OF inv]
  have card: "card F < 17710" and nb: "b \<notin> F" "b \<notin> U" using anchor_inv_card [OF inv] len i(5) by auto
  define g where "g = ptr n"
  have gF: "g \<in> F" "hnext m b = unat g" using free_right_iff(1) [OF inv _ l(2,3)] by (auto simp: g_def)
  obtain k p q v where n: "n = Node g k p q v" using l(3) by (cases n) (auto simp: g_def)
  have lF: "l \<in> F" "hnext m l = unat b"
    using free_left_iff [OF inv, of b l] l(1) by (auto simp: free_left_def)
  have e: "l \<in> set bs" "b \<in> set bs" "g \<in> set bs" using gF lF i(6) by auto
  let ?m1 = "m(b := m b + (CB_HDR + m g))"
  note mt = merge_two [OF i(7) e(2,3) gF(2) i(8)]
  have lg: "l \<noteq> g" "l \<noteq> b" using lF gF nb hnext_gt [of l m] hnext_gt [of b m] by auto
  obtain bs1 where bs1: "tiled ?m1 (unat a + 36) bs1 (unat a + unat (ha_cbSize ha))" "set bs1 = set bs - {g}"
    "length bs1 < length bs" using mt(1) by blast
  have e1: "l \<in> set bs1" "b \<in> set bs1" "hnext ?m1 l = unat b"
    using bs1(2) e lg mt(4) lF(2) by (auto simp: hnext_def)
  let ?m2 = "?m1(l := ?m1 l + (CB_HDR + ?m1 b))" and ?m = "m(l := m l + (CB_HDR * 2 + m b + m g))"
  note mt2 = merge_two [OF bs1(1) e1 i(8)]
  obtain bs2 where bs2: "tiled ?m2 (unat a + 36) bs2 (unat a + unat (ha_cbSize ha))" "set bs2 = set bs1 - {b}"
    "length bs2 < length bs1" using mt2(1) by blast
  have ml: "?m l = ?m2 l" using lg by (simp add: algebra_simps)
  have "tiled ?m (unat a + 36) bs2 (unat a + unat (ha_cbSize ha)) = tiled ?m2 (unat a + 36) bs2 (unat a + unat (ha_cbSize ha))"
    using bs2(2) ml by (intro tiled_cong) auto
  then have bs: "tiled ?m (unat a + 36) bs2 (unat a + unat (ha_cbSize ha))" using bs2(1) by simp
  have ul: "unat (?m l) = unat (m l) + 48 + unat (m b) + unat (m g)"
    unfolding ml using mt(2) mt2(2) lg by simp
  let ?ha = "ha\<lparr>cbFree := cbFree ha + m b\<rparr>"
  obtain t where t: "AVLRemove (pmbFree ha) g = Inr (t, Some g)" "blocks t (F - {g})"
    using blocks_remove [OF i(1) card, of g] gF(1) by (auto simp: id_map_def)
  let ?hb = "?ha\<lparr>pmbFree := t\<rparr>"
  obtain s where s: "resRemoveFromFreeSize m ?hb l = Inr (?hb\<lparr>pcoreFreeSize := s\<rparr>)" "sizes s m (F - {l})"
    using resRemoveFromFreeSize_ok [of ?hb m F l] i card lF by auto
  let ?hc = "?hb\<lparr>pcoreFreeSize := s\<rparr>"
  have c1: "card (F - {l}) < 17710" using card i(12) by (meson card_Diff1_le le_less_trans)
  obtain s1 where s1: "resRemoveFromFreeSize m ?hc g = Inr (?hc\<lparr>pcoreFreeSize := s1\<rparr>)" "sizes s1 m (F - {l} - {g})"
    using resRemoveFromFreeSize_ok [of ?hc m "F - {l}" g] s(2) c1 gF(1) lg i(12) by auto
  let ?hd = "?hc\<lparr>pcoreFreeSize := s1, cbFree := cbFree ha + m b + CB_HDR * 2\<rparr>"
  have "sizes s1 ?m (F - {l} - {g})" using s1(2) sizes_cong [of "F - {l} - {g}" ?m m s1] by auto
  moreover have "card (F - {l} - {g}) < 17710" using c1 i(12) by (meson card_Diff1_le finite_Diff le_less_trans)
  ultimately obtain u where u: "resInsertIntoFreeSize ?m ?hd l = Inr (?hd\<lparr>pcoreFreeSize := u\<rparr>)"
    "sizes u ?m (insert l (F - {l} - {g}))"
    using resInsertIntoFreeSize_ok [of ?hd ?m "F - {l} - {g}" l] i(12) by auto
  have FF: "insert l (F - {l} - {g}) = F - {g}" using lF(1) lg(1) by auto
  have "bytes ?m (F - {l} - {g}) = bytes m (F - {l} - {g})" by (intro bytes_cong) auto
  moreover have "bytes ?m (F - {g}) = unat (?m l) + bytes ?m (F - {l} - {g})"
    using i(12) by (subst FF [symmetric]) simp
  moreover have "bytes m F = unat (m l) + (unat (m g) + bytes m (F - {l} - {g}))"
    using i(12) lF(1) gF(1) lg(1) by (simp add: sum.remove [of F l] sum.remove [of "F - {l}" g])
  ultimately have F: "bytes ?m (F - {g}) = bytes m F + (48 + unat (m b))" using ul by simp
  have "2 \<le> length bs" using bs1(3) bs2(3) by simp
  then have "unat (cbFree ha) + unat (m b) + 48 < 2 ^ LENGTH(32)"
    using anchor_inv_bytes [OF inv] i(8,9) by simp
  then have "unat (cbFree ha + m b + CB_HDR * 2) = bytes ?m (F - {g})"
    using i(9) F by (simp add: unat_add_small CB_HDR_def)
  moreover have "coalesced ?m (F - {g})"
    unfolding coalesced_def
  proof (intro ballI)
    fix x y assume xy: "x \<in> F - {g}" "y \<in> F - {g}"
    have "hnext ?m l = hnext ?m2 l" using ml by (simp only: hnext_def)
    then have "hnext ?m l = hnext m g" unfolding mt2(3) mt(3) .
    then have "hnext ?m x = (if x = l then hnext m g else hnext m x)" by (auto simp: hnext_def)
    then show "hnext ?m x \<noteq> unat y" using xy i(11) gF(1) by (auto simp: coalesced_def)
  qed
  moreover have "bytes ?m U = bytes m U" using lF(1) i(4) by (intro bytes_cong) auto
  moreover have "resInsertFree m ha b = Inr (?m, ha\<lparr>pmbFree := t, pcoreFreeSize := u, cbFree := cbFree ha + m b + CB_HDR * 2\<rparr>)"
    using l s s1 u n t by (simp add: resInsertFree_def Let_def)
  moreover have "(F - {g}) \<inter> U = {}" "set bs2 = (F - {g}) \<union> U" using i(4,6) bs1(2) bs2(2) nb gF(1) by auto
  ultimately show ?thesis
    using i u(2) FF lF(1) bs bs1(3) bs2(3) t by (intro freedI [where m' = ?m and F' = "F - {g}" and bs' = bs2 and s = u]) auto
qed

lemma resInsertFree_ok:
  assumes inv: "anchor_inv m a ha F U {b} bs" and len: "length bs < 17710"
  shows "freed m a ha F U b bs (resInsertFree m ha b)"
proof -
  obtain n par where g: "AVLGetWithParent (pmbFree ha) (PNEXT_BLOCK m b) = (n, par)"
    by (cases "AVLGetWithParent (pmbFree ha) (PNEXT_BLOCK m b)") auto
  show ?thesis
    using freed_no_merge [OF inv len] freed_left [OF inv len] freed_right [OF inv len _ g] freed_both [OF inv len _ g] g
    by (cases "free_left m (ha\<lparr>cbFree := cbFree ha + m b\<rparr>) b"; cases "n = Null") auto
qed

section \<open>Allocating from an anchor\<close>

lemma resInsertUsed_ok:
  assumes inv: "anchor_inv m a ha F U {b} bs" and len: "length bs < 17710"
  shows "\<exists>t. resInsertUsed m ha b = Inr (ha\<lparr>cbUsed := cbUsed ha + m b, pmbUsed := t\<rparr>) \<and>
    anchor_inv m a (ha\<lparr>cbUsed := cbUsed ha + m b, pmbUsed := t\<rparr>) F (insert b U) {} bs"
proof -
  note i = anchor_invD [OF inv]
  have card: "card U < 17710" and nb: "b \<notin> F" "b \<notin> U" using anchor_inv_card [OF inv] len i(5) by auto
  obtain t where t: "AVLInsert (pmbUsed ha) b b = Inr (t, True)" "blocks t (insert b U)"
    using blocks_insert [OF i(2) card nb(2)] by blast
  have "unat (cbUsed ha) + unat (m b) < 2 ^ LENGTH(32)"
    using anchor_inv_bytes [OF inv] i(8,10) by simp
  then have "unat (cbUsed ha + m b) = bytes m (insert b U)"
    using i(10,13) nb by (simp add: unat_add_small)
  then show ?thesis using t i nb by (auto simp: resInsertUsed_def Let_def anchor_inv_def)
qed

text \<open>The block taken out of the free ones, with at least \<open>cb\<close> bytes.\<close>

definition taken ::
  "(ulong \<Rightarrow> ulong) \<Rightarrow> (ulong \<Rightarrow> ulong) \<Rightarrow> ulong \<Rightarrow> heap_anchor \<Rightarrow> ulong set \<Rightarrow> ulong set \<Rightarrow> ulong list \<Rightarrow> ulong \<Rightarrow>
   (ulong \<Rightarrow> ulong) \<times> (ulong \<Rightarrow> ulong) \<times> heap_anchor \<Rightarrow> ulong \<Rightarrow> bool" where
  "taken m sg a ha F U bs cb r p \<longleftrightarrow>
     (\<exists>m' sg' t s c F' bs'. r = (m', sg', ha\<lparr>pmbFree := t, pcoreFreeSize := s, cbFree := c\<rparr>) \<and>
        anchor_inv m' a (ha\<lparr>pmbFree := t, pcoreFreeSize := s, cbFree := c\<rparr>) F' U {p} bs' \<and>
        (\<forall>x. x \<notin> insert p F \<longrightarrow> m' x = m x) \<and> cb \<le> m' p \<and> F' \<subseteq> F \<and> p \<notin> U \<and>
        (p \<in> F \<and> sg' = sg \<or> sg' = sg(p := MEMBLOCK_SIGNATURE)) \<and> length bs' \<le> Suc (length bs))"

lemma takenI:
  assumes "r = (m', sg', ha\<lparr>pmbFree := t, pcoreFreeSize := s, cbFree := c\<rparr>)"
    "blocks t F'" "blocks (pmbUsed ha) U" "sizes s m' F'" "F' \<inter> U = {}" "p \<notin> F' \<union> U" "set bs' = insert p (F' \<union> U)"
    "tiled m' (unat a + 36) bs' (unat a + unat (ha_cbSize ha))" "unat a + unat (ha_cbSize ha) < 2 ^ 32"
    "unat c = bytes m' F'" "unat (cbUsed ha) = bytes m' U" "coalesced m' F'"
    "\<And>x. x \<notin> insert p F \<Longrightarrow> m' x = m x" "cb \<le> m' p" "F' \<subseteq> F" "length bs' \<le> Suc (length bs)"
    "p \<in> F \<and> sg' = sg \<or> sg' = sg(p := MEMBLOCK_SIGNATURE)"
  shows "taken m sg a ha F U bs cb r p"
  unfolding taken_def using assms
  by (intro exI [of _ m'] exI [of _ sg'] exI [of _ t] exI [of _ s] exI [of _ c] exI [of _ F'] exI [of _ bs'])
     (simp add: anchor_inv_def)

lemma coalesced_mono: "coalesced m F \<Longrightarrow> G \<subseteq> F \<Longrightarrow> coalesced m G"
  by (auto simp: coalesced_def)

lemma taken_whole:
  assumes inv: "anchor_inv m a ha F U {} bs" and card: "card F < 17710" and f: "f \<in> F" "cb \<le> m f"
    and s: "sizes s m (F - {f})"
  shows "\<exists>t. AVLRemove (pmbFree ha) f = Inr (t, Some f) \<and>
    taken m sg a ha F U bs cb (m, sg, ha\<lparr>pcoreFreeSize := s, cbFree := cbFree ha - m f, pmbFree := t\<rparr>) f"
proof -
  note i = anchor_invD [OF inv]
  obtain t where t: "AVLRemove (pmbFree ha) f = Inr (t, Some f)" "blocks t (F - {f})"
    using blocks_remove [OF i(1) card, of f] f(1) by (auto simp: id_map_def)
  have F: "bytes m F = unat (m f) + bytes m (F - {f})" using i(12) f(1) by (simp add: sum.remove)
  then have "m f \<le> cbFree ha" using i(9) by (simp add: word_le_nat_alt)
  then have "unat (cbFree ha - m f) = bytes m (F - {f})" using F i(9) by (simp add: unat_sub)
  moreover have "set bs = insert f (F - {f} \<union> U)" "f \<notin> U" "(F - {f}) \<inter> U = {}" using i(4,6) f(1) by auto
  moreover have "coalesced m (F - {f})" using i(11) by (rule coalesced_mono) auto
  ultimately have "taken m sg a ha F U bs cb (m, sg, ha\<lparr>pcoreFreeSize := s, cbFree := cbFree ha - m f, pmbFree := t\<rparr>) f"
    using i f s t by (intro takenI [where m' = m and F' = "F - {f}" and bs' = bs and s = s and t = t]) auto
  then show ?thesis using t by auto
qed

lemma taken_split:
  assumes inv: "anchor_inv m a ha F U {} bs" and card: "card F < 17710" and f: "f \<in> F"
    and cb: "unat (m f) > 40 + unat cb" "16 \<le> unat cb" and dvd: "4 dvd unat cb"
    and s: "sizes s m (F - {f})"
    and p: "p = f + m f - cb" and m': "m' = m(f := m f - (CB_HDR + cb), p := cb)"
  shows "\<exists>u. resInsertIntoFreeSize m' (ha\<lparr>pcoreFreeSize := s, cbFree := cbFree ha - m f + m' f\<rparr>) f =
      Inr (ha\<lparr>pcoreFreeSize := u, cbFree := cbFree ha - m f + m' f\<rparr>) \<and>
    taken m sg a ha F U bs cb
      (m', sg(p := MEMBLOCK_SIGNATURE), ha\<lparr>pcoreFreeSize := u, cbFree := cbFree ha - m f + m' f\<rparr>) p"
proof -
  note i = anchor_invD [OF inv]
  have fb: "f \<in> set bs" using f i(6) by auto
  have hf: "hnext m f < 2 ^ LENGTH(32)" using tiled_range [OF i(7) fb] i(8) by simp
  have "unat (f + m f) = unat f + unat (m f)" using hf by (subst unat_add_small) (simp_all add: hnext_def)
  then have up: "unat p = unat f + unat (m f) - unat cb"
    unfolding p using cb by (subst unat_sub) (simp_all add: word_le_nat_alt)
  have "unat (CB_HDR + cb) = 24 + unat cb"
    using hf cb by (subst unat_add_small) (simp_all add: CB_HDR_def hnext_def)
  then have um: "unat (m f - (CB_HDR + cb)) = unat (m f) - (24 + unat cb)"
    using cb by (subst unat_sub) (simp_all add: word_le_nat_alt)
  have pf: "p \<noteq> f" "unat f < unat p" "unat p < hnext m f" using up cb by (auto simp: hnext_def)
  have new: "p \<notin> F \<union> U"
  proof
    assume "p \<in> F \<union> U"
    then have "hnext m f \<le> unat p"
      using anchor_inv_neighbours [OF inv, of f p] f pf(2) by (simp add: word_less_nat_alt)
    then show False using pf(3) by simp
  qed
  have m'f: "m' f = m f - (CB_HDR + cb)" "m' p = cb" and m'x: "\<And>x. x \<noteq> f \<Longrightarrow> x \<noteq> p \<Longrightarrow> m' x = m x"
    using pf(1) by (simp_all add: m')
  obtain xs ys where bs: "bs = xs @ f # ys" using split_list [OF fb] by blast
  have db: "distinct bs" "p \<notin> set bs" using tiled_distinct [OF i(7)] new i(6) by auto
  have tl: "tiled m' (unat a + 36) (xs @ f # p # ys) (unat a + unat (ha_cbSize ha))"
    using i(7) up um cb dvd m'f db by (intro tiled_cut [of m _ xs f ys]) (auto simp: bs intro!: m'x)
  have F: "bytes m F = unat (m f) + bytes m (F - {f})" using i(12) f by (simp add: sum.remove)
  have "bytes m' (F - {f}) = bytes m (F - {f})" using new by (intro bytes_cong m'x) auto
  then have F': "bytes m' F = unat (m f) - (24 + unat cb) + bytes m (F - {f})"
    using i(12) f um m'f by (simp add: sum.remove [of F f])
  have "m f \<le> cbFree ha" using F i(9) by (simp add: word_le_nat_alt)
  then have "unat (cbFree ha - m f) = bytes m (F - {f})" using F i(9) by (simp add: unat_sub)
  moreover have "unat (cbFree ha) < 2 ^ LENGTH(32)" by (rule unsigned_less)
  moreover from calculation have "unat (cbFree ha - m f + m' f) = unat (cbFree ha - m f) + unat (m' f)"
    using F i(9) um m'f by (subst unat_add_small) simp_all
  ultimately have c: "unat (cbFree ha - m f + m' f) = bytes m' F" using F' um m'f by simp
  have "sizes s m' (F - {f})" using s new sizes_cong [of "F - {f}" m' m s] m'x by fastforce
  moreover have "card (F - {f}) < 17710" using card i(12) by (meson card_Diff1_le le_less_trans)
  ultimately obtain u where u: "resInsertIntoFreeSize m' (ha\<lparr>pcoreFreeSize := s, cbFree := cbFree ha - m f + m' f\<rparr>) f =
      Inr (ha\<lparr>pcoreFreeSize := s, cbFree := cbFree ha - m f + m' f, pcoreFreeSize := u\<rparr>)"
    "sizes u m' (insert f (F - {f}))"
    using resInsertIntoFreeSize_ok [of "ha\<lparr>pcoreFreeSize := s, cbFree := cbFree ha - m f + m' f\<rparr>" m' "F - {f}" f] i(12)
    by auto
  then have su: "sizes u m' F" using f by (simp add: insert_absorb)
  have "hnext m' f = unat p" using up um cb m'f by (simp add: hnext_def)
  then have co: "coalesced m' F"
    unfolding coalesced_def using i(11) new m'x
    by (intro ballI) (metis (no_types, lifting) UnI1 coalesced_def hnext_def unsigned_word_eqI)
  have m'F: "\<And>x. x \<notin> insert p F \<Longrightarrow> m' x = m x" using f by (intro m'x) auto
  have "bytes m' U = bytes m U" using new f i(4) by (intro bytes_cong m'x) auto
  then have "taken m sg a ha F U bs cb
      (m', sg(p := MEMBLOCK_SIGNATURE), ha\<lparr>pcoreFreeSize := u, cbFree := cbFree ha - m f + m' f\<rparr>) p"
    using i su c co tl new bs f m'f m'F
    by (intro takenI [where m' = m' and F' = F and bs' = "xs @ f # p # ys" and s = u and t = "pmbFree ha"]) auto
  then show ?thesis using u by (intro exI [of _ u]) simp
qed

lemma resTakeFree_ok:
  assumes inv: "anchor_inv m a ha F U {} bs" and len: "length bs < 17710" and cb: "16 \<le> unat cb" "4 dvd unat cb"
  obtains "resTakeFree m sg ha cb = Inr None"
  | p r where "resTakeFree m sg ha cb = Inr (Some (Some p, r))" "taken m sg a ha F U bs cb r p"
proof -
  note i = anchor_invD [OF inv]
  have card: "card F < 17710" using anchor_inv_card [OF inv] len by simp
  have ix: "avl_index (pcoreFreeSize ha)" using i(3) by (simp add: sizes_def)
  let ?n = "AVLGetBestFit (pcoreFreeSize ha) cb True"
  show ?thesis
  proof (cases "cbFree ha \<ge> cb + CB_HDR \<and> ?n \<noteq> Null")
    case False
    then show ?thesis by (intro that(1)) (auto simp: resTakeFree_def)
  next
    case True
    then obtain f ps k l q h where n: "?n = Node (f, ps) k l q h" by (cases ?n) auto
    then have k: "avl_map (pcoreFreeSize ha) k = Some (f, ps)" "cb \<le> k"
      using avl.above_Some [OF ix, of cb k "(f, ps)"] by auto
    have "chain_ok (of_size m F k) (Some (f, ps))" using i(3) k(1) by (auto simp: sizes_def dest!: spec [of _ k])
    then have f: "f \<in> F" "m f = k" by (auto simp: of_size_def)
    obtain s where s: "resRemoveFromFreeSize m ha f = Inr (ha\<lparr>pcoreFreeSize := s\<rparr>)" "sizes s m (F - {f})"
      using resRemoveFromFreeSize_ok [OF i(3,12) card f(1)] by blast
    have cbm: "cb \<le> m f" using k f by simp
    have "hnext m f < 2 ^ LENGTH(32)" using tiled_range [OF i(7), of f] f i(6,8) by auto
    moreover have "36 \<le> unat f" using tiled_range [OF i(7), of f] f i(6) by auto
    ultimately have "unat (CB_MEMBLOCKFREE + cb) = 40 + unat cb"
      using cbm by (subst unat_add_small) (simp_all add: CB_MEMBLOCKFREE_def hnext_def word_le_nat_alt)
    then have gt: "m f > CB_MEMBLOCKFREE + cb \<longleftrightarrow> unat (m f) > 40 + unat cb" by (simp add: word_less_nat_alt)
    show ?thesis
    proof (cases "m f > CB_MEMBLOCKFREE + cb")
      case True
      define p where "p = f + m f - cb"
      define m' where "m' = m(f := m f - (CB_HDR + cb), p := cb)"
      obtain u where u: "resInsertIntoFreeSize m' (ha\<lparr>pcoreFreeSize := s, cbFree := cbFree ha - m f + m' f\<rparr>) f =
          Inr (ha\<lparr>pcoreFreeSize := u, cbFree := cbFree ha - m f + m' f\<rparr>)"
        "taken m sg a ha F U bs cb
          (m', sg(p := MEMBLOCK_SIGNATURE), ha\<lparr>pcoreFreeSize := u, cbFree := cbFree ha - m f + m' f\<rparr>) p"
        using taken_split [OF inv card f(1) _ cb s(2) p_def m'_def, of sg] True gt by blast
      show ?thesis
        using \<open>cb + CB_HDR \<le> cbFree ha \<and> ?n \<noteq> Null\<close> n s u True
        by (intro that(2) [OF _ u(2)]) (simp add: resTakeFree_def Let_def p_def m'_def)
    next
      case False
      obtain t where t: "AVLRemove (pmbFree ha) f = Inr (t, Some f)"
        "taken m sg a ha F U bs cb (m, sg, ha\<lparr>pcoreFreeSize := s, cbFree := cbFree ha - m f, pmbFree := t\<rparr>) f"
        using taken_whole [OF inv card f(1) cbm s(2)] by blast
      show ?thesis
        using True n s t False
        by (intro that(2) [OF _ t(2)]) (simp add: resTakeFree_def Let_def)
    qed
  qed
qed

end
