(* ===== verification/ResHeapProps.thy ===== *)
theory ResHeapProps
  imports ResHeapInv
begin

text \<open>
  The resident heap as a whole: the invariant over the chain of anchors, what an allocation and a release do to
  the map of used blocks, and the defects of the code at the edges.
\<close>

section \<open>The invariant of the heap\<close>

abbreviation free_blocks :: "heap_anchor \<Rightarrow> ulong set" where
  "free_blocks ha \<equiv> dom (avl_map (pmbFree ha))"

abbreviation used_blocks :: "heap_anchor \<Rightarrow> ulong set" where
  "used_blocks ha \<equiv> dom (avl_map (pmbUsed ha))"

definition apart :: "ulong \<times> heap_anchor \<Rightarrow> ulong \<times> heap_anchor \<Rightarrow> bool" where
  "apart x y \<longleftrightarrow> unat (fst x) + unat (ha_cbSize (snd x)) \<le> unat (fst y) \<or>
     unat (fst y) + unat (ha_cbSize (snd y)) \<le> unat (fst x)"

definition within :: "ulong \<Rightarrow> ulong \<times> heap_anchor \<Rightarrow> bool" where
  "within b x \<longleftrightarrow> unat (fst x) < unat b \<and> unat b < unat (fst x) + unat (ha_cbSize (snd x))"

definition anchor_place :: "ulong \<Rightarrow> ulong \<Rightarrow> bool" where
  "anchor_place a sz \<longleftrightarrow> 65536 \<le> unat a \<and> 4 dvd unat a \<and> 36 < unat sz"

definition anchor_good ::
  "(ulong \<Rightarrow> ulong) \<Rightarrow> (ulong \<Rightarrow> ulong) \<Rightarrow> ulong \<times> heap_anchor \<Rightarrow> ulong list \<Rightarrow> bool" where
  "anchor_good m sg x bs \<longleftrightarrow>
     anchor_inv m (fst x) (snd x) (free_blocks (snd x)) (used_blocks (snd x)) {} bs \<and>
     ha_ulSignature (snd x) = HEAPANCHOR_SIGNATURE \<and> (\<forall>b\<in>set bs. sg b = MEMBLOCK_SIGNATURE) \<and>
     anchor_place (fst x) (ha_cbSize (snd x))"

definition heap_inv :: "res_heap \<Rightarrow> bool" where
  "heap_inv h \<longleftrightarrow>
     (\<forall>x\<in>set (phaChain h). \<exists>bs. anchor_good (hp_size h) (hp_sig h) x bs) \<and> sorted_wrt apart (phaChain h)"

text \<open>Every anchor has room for \<open>k\<close> more blocks in its trees.\<close>

definition heap_room :: "nat \<Rightarrow> res_heap \<Rightarrow> bool" where
  "heap_room k h \<longleftrightarrow>
     list_all (\<lambda>x. avl_size (pmbFree (snd x)) + avl_size (pmbUsed (snd x)) + k < 17710) (phaChain h)"

lemma heap_room_mono: "heap_room k h \<Longrightarrow> j \<le> k \<Longrightarrow> heap_room j h"
  by (auto simp: heap_room_def list_all_iff)

text \<open>The abstract heap: the size of every used block.\<close>

definition heap_used :: "res_heap \<Rightarrow> ulong \<Rightarrow> ulong option" where
  "heap_used h b =
     (if list_ex (\<lambda>x. avl_map (pmbUsed (snd x)) b \<noteq> None) (phaChain h) then Some (hp_size h b) else None)"

lemma heap_used_eq:
  "heap_used h b = (if \<exists>x\<in>set (phaChain h). b \<in> used_blocks (snd x) then Some (hp_size h b) else None)"
  by (auto simp: heap_used_def list_ex_iff dom_def)

lemma heap_inv_good: "heap_inv h \<Longrightarrow> x \<in> set (phaChain h) \<Longrightarrow> \<exists>bs. anchor_good (hp_size h) (hp_sig h) x bs"
  by (simp add: heap_inv_def)

lemma apart_sym: "apart x y \<longleftrightarrow> apart y x"
  by (auto simp: apart_def)

lemma anchor_good_within:
  assumes "anchor_good m sg x bs" "b \<in> set bs"
  shows "within b x" "unat b + 24 + unat (m b) \<le> unat (fst x) + unat (ha_cbSize (snd x))" "16 \<le> unat (m b)"
proof -
  note i = anchor_invD [OF conjunct1 [OF iffD1 [OF anchor_good_def assms(1)]]]
  show "within b x" "unat b + 24 + unat (m b) \<le> unat (fst x) + unat (ha_cbSize (snd x))"
    using tiled_range [OF i(7) assms(2)] by (auto simp: within_def hnext_def)
  show "16 \<le> unat (m b)" by (rule tiled_size [OF i(7) assms(2)])
qed

lemma anchor_good_blocks: "anchor_good m sg x bs \<Longrightarrow> set bs = free_blocks (snd x) \<union> used_blocks (snd x)"
  using anchor_invD(6) unfolding anchor_good_def by fastforce

lemma anchor_good_cong:
  assumes "anchor_good m sg x bs" "\<And>b. within b x \<Longrightarrow> m' b = m b \<and> sg' b = sg b"
  shows "anchor_good m' sg' x bs"
proof -
  have inv: "anchor_inv m (fst x) (snd x) (free_blocks (snd x)) (used_blocks (snd x)) {} bs"
    using assms(1) by (simp add: anchor_good_def)
  note i = anchor_invD [OF inv]
  have eq: "m' b = m b \<and> sg' b = sg b" if "b \<in> set bs" for b
    using assms(2) anchor_good_within(1) [OF assms(1) that] by blast
  have "sizes (pcoreFreeSize (snd x)) m' (free_blocks (snd x))"
    using i(3) sizes_cong [of "free_blocks (snd x)" m' m] eq i(6) by auto
  moreover have "tiled m' (unat (fst x) + 36) bs (unat (fst x) + unat (ha_cbSize (snd x)))"
    using i(7) tiled_cong [of bs m' m] eq by auto
  moreover have "bytes m' (free_blocks (snd x)) = bytes m (free_blocks (snd x))"
    "bytes m' (used_blocks (snd x)) = bytes m (used_blocks (snd x))"
    using eq i(6) by (intro bytes_cong; auto)+
  moreover have "coalesced m' (free_blocks (snd x))"
    using i(11) eq i(6) by (auto simp: coalesced_def hnext_def)
  ultimately show ?thesis using assms(1) eq i unfolding anchor_good_def anchor_inv_def by auto
qed

lemma sorted_wrt_apart_nth:
  "sorted_wrt apart xs \<Longrightarrow> i < length xs \<Longrightarrow> j < length xs \<Longrightarrow> i \<noteq> j \<Longrightarrow> apart (xs ! i) (xs ! j)"
  using apart_sym by (metis linorder_neqE_nat sorted_wrt_nth_less)

lemma within_unique:
  "sorted_wrt apart xs \<Longrightarrow> i < length xs \<Longrightarrow> j < length xs \<Longrightarrow> within b (xs ! i) \<Longrightarrow> within b (xs ! j) \<Longrightarrow> i = j"
  using sorted_wrt_apart_nth [of xs i j] by (cases "i = j") (auto simp: apart_def within_def)

lemma sorted_wrt_apart_update:
  assumes "sorted_wrt apart xs" "i < length xs" "fst y = fst (xs ! i)" "ha_cbSize (snd y) = ha_cbSize (snd (xs ! i))"
  shows "sorted_wrt apart (xs[i := y])"
proof -
  have e: "apart y z = apart (xs ! i) z" "apart z y = apart z (xs ! i)" for z
    using assms(3,4) by (simp_all add: apart_def)
  show ?thesis
    unfolding sorted_wrt_iff_nth_less
    using sorted_wrt_apart_nth [OF assms(1)] e assms(2) by (auto simp: nth_list_update)
qed

lemma bex_list_update:
  assumes "i < length xs" "\<not> P y" "\<not> P (xs ! i)"
  shows "(\<exists>x\<in>set (xs[i := y]). P x) = (\<exists>x\<in>set xs. P x)"
proof -
  have "(\<exists>x\<in>set xs. P x) = (\<exists>x\<in>set (take i xs @ xs ! i # drop (Suc i) xs). P x)"
    using assms(1) by (simp add: id_take_nth_drop [symmetric])
  then show ?thesis using assms by (simp add: upd_conv_take_nth_drop)
qed

text \<open>The used blocks of one anchor determine the abstract heap within its memory.\<close>

lemma heap_used_within:
  assumes "heap_inv h" "i < length (phaChain h)" "within b (phaChain h ! i)"
  shows "heap_used h b = (if b \<in> used_blocks (snd (phaChain h ! i)) then Some (hp_size h b) else None)"
proof -
  have "x = phaChain h ! i" if x: "x \<in> set (phaChain h)" "b \<in> used_blocks (snd x)" for x
  proof -
    obtain bs where g: "anchor_good (hp_size h) (hp_sig h) x bs" using heap_inv_good [OF assms(1) x(1)] by blast
    have "within b x" using anchor_good_within(1) [OF g, of b] anchor_good_blocks [OF g] x(2) by blast
    moreover obtain j where "j < length (phaChain h)" "phaChain h ! j = x" using x(1) by (auto simp: in_set_conv_nth)
    ultimately show ?thesis
      using within_unique [of "phaChain h" i j b] assms by (auto simp: heap_inv_def)
  qed
  then show ?thesis using assms(2) unfolding heap_used_eq by (metis nth_mem)
qed

lemma heap_update:
  assumes inv: "heap_inv h" and i: "i < length (phaChain h)" "phaChain h ! i = (a, ha)"
    and ha': "ha_cbSize ha' = ha_cbSize ha" "anchor_good m' sg' (a, ha') bs'"
    and out: "\<And>b. \<not> within b (a, ha) \<Longrightarrow> m' b = hp_size h b \<and> sg' b = hp_sig h b"
    and h': "hp_size h' = m'" "hp_sig h' = sg'" "phaChain h' = (phaChain h)[i := (a, ha')]"
  shows "heap_inv h'"
    and "within b (a, ha) \<Longrightarrow> heap_used h' b = (if b \<in> used_blocks ha' then Some (m' b) else None)"
    and "\<not> within b (a, ha) \<Longrightarrow> heap_used h' b = heap_used h b"
proof -
  have s: "sorted_wrt apart (phaChain h)" using inv by (simp add: heap_inv_def)
  have other: "\<not> within b (a, ha)" if "j < length (phaChain h)" "j \<noteq> i" "within b (phaChain h ! j)" for j b
    using within_unique [OF s that(1) i(1) that(3)] that(2) i(2) by auto
  show inv': "heap_inv h'"
    unfolding heap_inv_def
  proof
    show "\<forall>x\<in>set (phaChain h'). \<exists>bs. anchor_good (hp_size h') (hp_sig h') x bs"
    proof
      fix x assume "x \<in> set (phaChain h')"
      then obtain j where j: "j < length (phaChain h)" "x = (if j = i then (a, ha') else phaChain h ! j)"
        unfolding h'(3) in_set_conv_nth using i(1) by (auto simp: nth_list_update)
      show "\<exists>bs. anchor_good (hp_size h') (hp_sig h') x bs"
      proof (cases "j = i")
        case True
        then show ?thesis using j ha'(2) h' by auto
      next
        case False
        then obtain bs where "anchor_good (hp_size h) (hp_sig h) x bs"
          using heap_inv_good [OF inv nth_mem [OF j(1)]] j(2) by auto
        from anchor_good_cong [OF this, of m' sg'] out other [OF j(1) False] j(2) False h' show ?thesis by auto
      qed
    qed
    show "sorted_wrt apart (phaChain h')"
      unfolding h'(3) using s i ha'(1) by (intro sorted_wrt_apart_update) auto
  qed
  have w: "within b (phaChain h' ! i) \<longleftrightarrow> within b (a, ha)" using i(1) h'(3) ha'(1) by (simp add: within_def)
  show "heap_used h' b = (if b \<in> used_blocks ha' then Some (m' b) else None)" if "within b (a, ha)"
    using heap_used_within [OF inv', of i b] that w i(1) h' by auto
  show "heap_used h' b = heap_used h b" if nw: "\<not> within b (a, ha)"
  proof -
    have "b \<notin> used_blocks ha'"
      using anchor_good_within(1) [OF ha'(2), of b] anchor_good_blocks [OF ha'(2)] nw ha'(1) by (auto simp: within_def)
    moreover have "b \<notin> used_blocks ha"
    proof -
      obtain bs where "anchor_good (hp_size h) (hp_sig h) (a, ha) bs"
        using heap_inv_good [OF inv nth_mem [OF i(1)]] i(2) by auto
      then show ?thesis using anchor_good_within(1) anchor_good_blocks nw by fastforce
    qed
    ultimately have "(\<exists>x\<in>set (phaChain h'). b \<in> used_blocks (snd x)) = (\<exists>x\<in>set (phaChain h). b \<in> used_blocks (snd x))"
      unfolding h'(3) using i by (intro bex_list_update) auto
    then show ?thesis using out [OF nw] h' by (simp add: heap_used_eq)
  qed
qed

section \<open>Releasing\<close>

lemma find_anchor_iff:
  "find_anchor pv i xs = Some j \<Longrightarrow> i \<le> j \<and> j - i < length xs \<and>
     pv > fst (xs ! (j - i)) \<and> pv < fst (xs ! (j - i)) + ha_cbSize (snd (xs ! (j - i)))"
proof (induction pv i xs rule: find_anchor.induct)
  case (2 pv i a pha rest)
  show ?case
  proof (cases "pv > a \<and> pv < a + ha_cbSize pha")
    case False
    then have "Suc i \<le> j" "j - Suc i < length rest"
      "pv > fst (rest ! (j - Suc i)) \<and> pv < fst (rest ! (j - Suc i)) + ha_cbSize (snd (rest ! (j - Suc i)))"
      using 2 by auto
    moreover from this have "j - i = Suc (j - Suc i)" by simp
    ultimately show ?thesis by simp
  qed (use 2 in auto)
qed simp

lemma find_anchor_None:
  "find_anchor pv i xs = None \<Longrightarrow> x \<in> set xs \<Longrightarrow> \<not> (pv > fst x \<and> pv < fst x + ha_cbSize (snd x))"
  by (induction pv i xs rule: find_anchor.induct) (auto split: if_splits)

lemma within_words:
  assumes "anchor_good m sg x bs"
  shows "pv > fst x \<and> pv < fst x + ha_cbSize (snd x) \<longleftrightarrow> within pv x"
proof -
  have "unat (fst x) + unat (ha_cbSize (snd x)) < 2 ^ LENGTH(32)"
    using assms anchor_invD(8) by (force simp: anchor_good_def)
  then have "unat (fst x + ha_cbSize (snd x)) = unat (fst x) + unat (ha_cbSize (snd x))" by (rule unat_add_small)
  then show ?thesis by (simp add: within_def word_less_nat_alt)
qed

lemma find_anchor_ok:
  assumes "heap_inv h"
  shows "find_anchor pv 0 (phaChain h) = Some i \<longleftrightarrow> i < length (phaChain h) \<and> within pv (phaChain h ! i)"
proof -
  have w: "pv > fst x \<and> pv < fst x + ha_cbSize (snd x) \<longleftrightarrow> within pv x" if "x \<in> set (phaChain h)" for x
    using heap_inv_good [OF assms that] within_words by blast
  have found: "j < length (phaChain h) \<and> within pv (phaChain h ! j)" if "find_anchor pv 0 (phaChain h) = Some j" for j
    using find_anchor_iff [OF that] w [of "phaChain h ! j"] by simp
  show ?thesis
  proof
    assume i: "i < length (phaChain h) \<and> within pv (phaChain h ! i)"
    then have "find_anchor pv 0 (phaChain h) \<noteq> None"
      using find_anchor_None [of pv 0 "phaChain h" "phaChain h ! i"] w [of "phaChain h ! i"] by auto
    then obtain j where j: "find_anchor pv 0 (phaChain h) = Some j" by blast
    then have "j = i" using found [OF j] i within_unique [of "phaChain h" j i pv] assms by (simp add: heap_inv_def)
    then show "find_anchor pv 0 (phaChain h) = Some i" using j by simp
  qed (rule found)
qed

text \<open>The address of a block and the user pointer behind its header lie in the same anchor.\<close>

lemma user_pointer_within:
  assumes "anchor_good m sg x bs" "b \<in> set bs"
  shows "within (b + CB_HDR) x" "b + CB_HDR \<noteq> 0" "b + CB_HDR - CB_HDR = b"
proof -
  note g = anchor_good_within [OF assms]
  have "unat (fst x) + unat (ha_cbSize (snd x)) < 2 ^ 32"
    using assms(1) anchor_invD(8) by (force simp: anchor_good_def)
  then have "unat (b + CB_HDR) = unat b + 24" using g by (subst unat_add_small) (simp_all add: CB_HDR_def)
  then show "within (b + CB_HDR) x" "b + CB_HDR \<noteq> 0" using g by (auto simp: within_def)
qed simp

lemma anchor_good_length:
  assumes "anchor_good m sg x bs"
  shows "length bs = avl_size (pmbFree (snd x)) + avl_size (pmbUsed (snd x))"
proof -
  have inv: "anchor_inv m (fst x) (snd x) (free_blocks (snd x)) (used_blocks (snd x)) {} bs"
    using assms by (simp add: anchor_good_def)
  have "distinct (avl_keys (pmbFree (snd x)))" "distinct (avl_keys (pmbUsed (snd x)))"
    using anchor_invD(1,2) [OF inv] by (simp_all add: blocks_def avl_index_def)
  then show ?thesis using anchor_inv_card [OF inv] by (simp add: avl_size_card)
qed

lemma heap_room_length:
  "heap_room k h \<Longrightarrow> x \<in> set (phaChain h) \<Longrightarrow> anchor_good m sg x bs \<Longrightarrow> length bs + k < 17710"
  by (simp add: anchor_good_length heap_room_def list_all_iff)

lemma heap_room_update:
  assumes "heap_room (k + d) h" "i < length (phaChain h)" "phaChain h' = (phaChain h)[i := y]"
    and "anchor_good m sg (phaChain h ! i) bs" "anchor_good m' sg' y bs'" "length bs' \<le> length bs + d"
  shows "heap_room k h'"
proof -
  have "list_all (\<lambda>x. avl_size (pmbFree (snd x)) + avl_size (pmbUsed (snd x)) + k < 17710) (phaChain h)"
    using assms(1) by (auto simp: heap_room_def list_all_iff)
  moreover have "length bs + (k + d) < 17710" using heap_room_length [OF assms(1) nth_mem [OF assms(2)] assms(4)] .
  then have "avl_size (pmbFree (snd y)) + avl_size (pmbUsed (snd y)) + k < 17710"
    using anchor_good_length [OF assms(5)] assms(6) by simp
  ultimately show ?thesis
    using assms(2) by (simp add: heap_room_def assms(3) list_all_length nth_list_update)
qed

lemma heap_used_None_outside:
  assumes "heap_inv h" "\<And>x. x \<in> set (phaChain h) \<Longrightarrow> \<not> within (b + CB_HDR) x"
  shows "heap_used h b = None"
proof -
  have "b \<notin> used_blocks (snd x)" if x: "x \<in> set (phaChain h)" for x
  proof -
    obtain bs where g: "anchor_good (hp_size h) (hp_sig h) x bs" using heap_inv_good [OF assms(1) x] by blast
    show ?thesis using user_pointer_within(1) [OF g, of b] anchor_good_blocks [OF g] assms(2) [OF x] by blast
  qed
  then show ?thesis by (simp add: heap_used_eq)
qed

lemma rfree_block:
  assumes inv: "heap_inv h" and room: "heap_room 0 h" and i: "i < length (phaChain h)" "phaChain h ! i = (a, ha)"
    and b: "b \<in> used_blocks ha" and t: "AVLRemove (pmbUsed ha) b = Inr (t, Some b)" "blocks t (used_blocks ha - {b})"
  shows "\<exists>m ha'. resInsertFree (hp_size h) (ha\<lparr>pmbUsed := t, cbUsed := cbUsed ha - hp_size h b\<rparr>) b = Inr (m, ha') \<and>
    heap_inv (put_anchor i ha' (h\<lparr>hp_size := m\<rparr>)) \<and>
    heap_used (put_anchor i ha' (h\<lparr>hp_size := m\<rparr>)) = (heap_used h)(b := None) \<and>
    (\<forall>k. heap_room k h \<longrightarrow> heap_room k (put_anchor i ha' (h\<lparr>hp_size := m\<rparr>)))"
proof -
  let ?m = "hp_size h" and ?F = "free_blocks ha" and ?U = "used_blocks ha"
  let ?ha = "ha\<lparr>pmbUsed := t, cbUsed := cbUsed ha - ?m b\<rparr>"
  obtain bs where g: "anchor_good ?m (hp_sig h) (a, ha) bs"
    using heap_inv_good [OF inv nth_mem [OF i(1)]] i(2) by auto
  then have ai: "anchor_inv ?m a ha ?F ?U {} bs" and sig: "ha_ulSignature ha = HEAPANCHOR_SIGNATURE"
    "\<forall>b\<in>set bs. hp_sig h b = MEMBLOCK_SIGNATURE" and place: "anchor_place a (ha_cbSize ha)"
    by (simp_all add: anchor_good_def)
  note ii = anchor_invD [OF ai]
  have len: "length bs < 17710" using heap_room_length [OF room nth_mem [OF i(1)]] g i(2) by force
  have U: "bytes ?m ?U = unat (?m b) + bytes ?m (?U - {b})" using ii(13) b by (simp add: sum.remove)
  then have "?m b \<le> cbUsed ha" using ii(10) by (simp add: word_le_nat_alt)
  then have "unat (cbUsed ha - ?m b) = bytes ?m (?U - {b})" using U ii(10) by (simp add: unat_sub)
  then have ai': "anchor_inv ?m a ?ha ?F (?U - {b}) {b} bs"
    using ii t(2) b unfolding anchor_inv_def by auto
  from resInsertFree_ok [OF this len] obtain m' tf s c F' bs' where f:
    "resInsertFree ?m ?ha b = Inr (m', ?ha\<lparr>pmbFree := tf, pcoreFreeSize := s, cbFree := c\<rparr>)"
    "anchor_inv m' a (?ha\<lparr>pmbFree := tf, pcoreFreeSize := s, cbFree := c\<rparr>) F' (?U - {b}) {} bs'"
    "\<forall>x. x \<notin> insert b ?F \<longrightarrow> m' x = ?m x" "F' \<subseteq> insert b ?F"
    "length bs' \<le> length bs"
    unfolding freed_def by blast
  let ?hb = "?ha\<lparr>pmbFree := tf, pcoreFreeSize := s, cbFree := c\<rparr>"
  have doms: "free_blocks ?hb = F'" "used_blocks ?hb = ?U - {b}"
    using blocks_dom [OF anchor_invD(1) [OF f(2)]] blocks_dom [OF t(2)] by simp_all
  have sub: "set bs' \<subseteq> set bs" using anchor_invD(6) [OF f(2)] ii(6) f(4) b by auto
  have good: "anchor_good m' (hp_sig h) (a, ?hb) bs'"
    unfolding anchor_good_def using f(2) doms sig sub place by auto
  have out: "m' x = ?m x" if "\<not> within x (a, ha)" for x
  proof -
    have "insert b ?F \<subseteq> set bs" using ii(6) b by blast
    then have "x \<notin> insert b ?F" using that anchor_good_within(1) [OF g, of x] by blast
    then show ?thesis using f(3) by blast
  qed
  let ?h' = "put_anchor i ?hb (h\<lparr>hp_size := m'\<rparr>)"
  have h': "hp_size ?h' = m'" "hp_sig ?h' = hp_sig h" "phaChain ?h' = (phaChain h)[i := (a, ?hb)]"
    using i by (simp_all add: put_anchor_def)
  note upd = heap_update [OF inv i _ good _ h', simplified]
  have "heap_used ?h' x = ((heap_used h)(b := None)) x" for x
  proof (cases "within x (a, ha)")
    case True
    have "m' x = ?m x" if "x \<in> ?U" "x \<noteq> b" using f(3) ii(4) that by auto
    then show ?thesis
      using upd(2) [OF _ True] out heap_used_within [OF inv i(1), of x] True i(2) doms(2) by auto
  next
    case False
    moreover have "within b (a, ha)" using anchor_good_within(1) [OF g, of b] ii(6) b by auto
    ultimately show ?thesis using upd(3) [OF _ False] out by auto
  qed
  then have "heap_used ?h' = (heap_used h)(b := None)" ..
  moreover have "heap_room k ?h'" if "heap_room k h" for k
    using heap_room_update [of k 0 h i ?h' "(a, ?hb)" ?m "hp_sig h" bs m' "hp_sig h" bs'] that i h'(3) g good f(5) by simp
  ultimately show ?thesis using f(1) upd(1) out by blast
qed

lemma rfree_ok:
  assumes inv: "heap_inv h" and room: "heap_room 0 h"
  shows "\<exists>h'. rfree h pv = Inr h' \<and> heap_inv h' \<and> heap_used h' = (heap_used h)(pv - CB_HDR := None) \<and>
    (\<forall>k. heap_room k h \<longrightarrow> heap_room k h')"
proof (cases "pv = 0 \<or> find_anchor pv 0 (phaChain h) = None")
  case True
  have "heap_used h (pv - CB_HDR) = None"
  proof (rule heap_used_None_outside [OF inv])
    fix x assume x: "x \<in> set (phaChain h)"
    then obtain j where j: "j < length (phaChain h)" "phaChain h ! j = x" by (auto simp: in_set_conv_nth)
    have "\<not> within 0 x" by (simp add: within_def)
    then show "\<not> within (pv - CB_HDR + CB_HDR) x" using True find_anchor_ok [OF inv, of pv j] j by auto
  qed
  then have "(heap_used h)(pv - CB_HDR := None) = heap_used h" by (simp add: fun_upd_idem)
  then show ?thesis using True inv by (auto simp: rfree_def)
next
  case False
  then obtain i where fi: "find_anchor pv 0 (phaChain h) = Some i" "pv \<noteq> 0" by auto
  then have i: "i < length (phaChain h)" "within pv (phaChain h ! i)" using find_anchor_ok [OF inv] by auto
  obtain a ha where x: "phaChain h ! i = (a, ha)" by (cases "phaChain h ! i")
  obtain bs where g: "anchor_good (hp_size h) (hp_sig h) (a, ha) bs"
    using heap_inv_good [OF inv nth_mem [OF i(1)]] x by auto
  then have ai: "anchor_inv (hp_size h) a ha (free_blocks ha) (used_blocks ha) {} bs" by (simp add: anchor_good_def)
  have "length bs < 17710" using heap_room_length [OF room nth_mem [OF i(1)]] g x by force
  then have card: "card (used_blocks ha) < 17710" using anchor_inv_card [OF ai] by simp
  let ?b = "pv - CB_HDR"
  obtain t where t: "AVLRemove (pmbUsed ha) ?b = Inr (t, id_map (used_blocks ha) ?b)" "blocks t (used_blocks ha - {?b})"
    using blocks_remove [OF anchor_invD(2) [OF ai] card] by blast
  show ?thesis
  proof (cases "?b \<in> used_blocks ha")
    case True
    then have "id_map (used_blocks ha) ?b = Some ?b" by simp
    with t have t': "AVLRemove (pmbUsed ha) ?b = Inr (t, Some ?b)" by simp
    from rfree_block [OF inv room i(1) x True t' t(2)] show ?thesis
      using fi x t' by (auto simp: rfree_def Let_def)
  next
    case False
    have nf: "heap_used h ?b = None"
    proof (cases "within ?b (a, ha)")
      case True
      then show ?thesis using heap_used_within [OF inv i(1), of ?b] False x by simp
    next
      case nw: False
      have "?b \<notin> used_blocks (snd y)" if y: "y \<in> set (phaChain h)" for y
      proof
        assume u: "?b \<in> used_blocks (snd y)"
        obtain bs' where g': "anchor_good (hp_size h) (hp_sig h) y bs'" using heap_inv_good [OF inv y] by blast
        then have "?b \<in> set bs'" using anchor_good_blocks u by blast
        then have "within (?b + CB_HDR) y" by (rule user_pointer_within(1) [OF g'])
        moreover obtain j where j: "j < length (phaChain h)" "phaChain h ! j = y" using y by (auto simp: in_set_conv_nth)
        ultimately have "j = i" using within_unique [of "phaChain h" j i pv] inv i by (simp add: heap_inv_def)
        then have "y = (a, ha)" using j x by simp
        then show False using u False by simp
      qed
      then show ?thesis by (simp add: heap_used_eq)
    qed
    then have e: "(heap_used h)(?b := None) = heap_used h" by (simp add: fun_upd_idem)
    have "avl_map (pmbUsed ha) ?b = None" using False by (simp add: domIff)
    have bt: "blocks t (used_blocks ha)" using t(2) False by simp
    let ?h' = "put_anchor i (ha\<lparr>pmbUsed := t\<rparr>) h"
    have good: "anchor_good (hp_size h) (hp_sig h) (a, ha\<lparr>pmbUsed := t\<rparr>) bs"
      using g bt blocks_dom [OF bt] by (simp add: anchor_good_def anchor_inv_def)
    have h': "hp_size ?h' = hp_size h" "hp_sig ?h' = hp_sig h" "phaChain ?h' = (phaChain h)[i := (a, ha\<lparr>pmbUsed := t\<rparr>)]"
      using x by (simp_all add: put_anchor_def)
    note upd = heap_update [OF inv i(1) x _ good _ h', simplified]
    have "heap_used ?h' y = heap_used h y" for y
      using upd(2,3) heap_used_within [OF inv i(1), of y] x blocks_dom [OF bt] by (cases "within y (a, ha)") auto
    then have "heap_used ?h' = heap_used h" ..
    moreover have "heap_room k ?h'" if "heap_room k h" for k
      using heap_room_update [of k 0 h i ?h' "(a, ha\<lparr>pmbUsed := t\<rparr>)" "hp_size h" "hp_sig h" bs "hp_size h" "hp_sig h" bs]
        that i(1) x h'(3) g good by simp
    ultimately show ?thesis using fi x t False e upd(1) by (auto simp: rfree_def Let_def id_map_def)
  qed
qed

section \<open>Allocating\<close>

definition search_hit ::
  "(ulong \<Rightarrow> ulong) \<Rightarrow> (ulong \<Rightarrow> ulong) \<Rightarrow> (ulong \<times> heap_anchor) list \<Rightarrow> ulong \<Rightarrow> nat \<Rightarrow> take_result res \<Rightarrow> bool" where
  "search_hit m sg xs cb i r \<longleftrightarrow>
     (\<exists>j p m' sg' ha' bs. r = Inr (Took (i + j) (Some p) m' sg' ha') \<and> j < length xs \<and>
        anchor_good m sg (xs ! j) bs \<and> length bs < 17709 \<and>
        taken m sg (fst (xs ! j)) (snd (xs ! j)) (free_blocks (snd (xs ! j))) (used_blocks (snd (xs ! j))) bs cb
          (m', sg', ha') p)"

lemma search_hit_Cons: "search_hit m sg xs cb (Suc i) r \<Longrightarrow> search_hit m sg (x # xs) cb i r"
  unfolding search_hit_def
proof (elim exE)
  fix j p m' sg' ha' bs
  assume "r = Inr (Took (Suc i + j) (Some p) m' sg' ha') \<and> j < length xs \<and>
        anchor_good m sg (xs ! j) bs \<and> length bs < 17709 \<and>
        taken m sg (fst (xs ! j)) (snd (xs ! j)) (free_blocks (snd (xs ! j))) (used_blocks (snd (xs ! j))) bs cb
          (m', sg', ha') p"
  then show "\<exists>j p m' sg' ha' bs. r = Inr (Took (i + j) (Some p) m' sg' ha') \<and> j < length (x # xs) \<and>
        anchor_good m sg ((x # xs) ! j) bs \<and> length bs < 17709 \<and>
        taken m sg (fst ((x # xs) ! j)) (snd ((x # xs) ! j)) (free_blocks (snd ((x # xs) ! j)))
          (used_blocks (snd ((x # xs) ! j))) bs cb (m', sg', ha') p"
    by (intro exI [of _ "Suc j"] exI [of _ p] exI [of _ m'] exI [of _ sg'] exI [of _ ha'] exI [of _ bs]) simp
qed

lemma resSearchFree_ok:
  assumes "\<And>x. x \<in> set xs \<Longrightarrow> \<exists>bs. anchor_good m sg x bs \<and> length bs < 17709" "16 \<le> unat cb" "4 dvd unat cb"
  shows "(\<exists>t. resSearchFree m sg cb i xs tot = Inr (NoFit t)) \<or> search_hit m sg xs cb i (resSearchFree m sg cb i xs tot)"
  using assms(1)
proof (induction xs arbitrary: i tot)
  case (Cons x xs)
  obtain bs where g: "anchor_good m sg x bs" "length bs < 17709" using Cons.prems [of x] by auto
  then have inv: "anchor_inv m (fst x) (snd x) (free_blocks (snd x)) (used_blocks (snd x)) {} bs"
    by (simp add: anchor_good_def)
  have len: "length bs < 17710" using g(2) by simp
  obtain a ha where x: "x = (a, ha)" by (cases x)
  from resTakeFree_ok [OF inv len assms(2,3), of sg] show ?case
  proof cases
    case 1
    then have "resSearchFree m sg cb i (x # xs) tot = resSearchFree m sg cb (Suc i) xs (tot + ha_cbSize ha)"
      using x by simp
    then show ?thesis
      using Cons.IH [of "Suc i" "tot + ha_cbSize ha"] Cons.prems search_hit_Cons by fastforce
  next
    case (2 p r)
    obtain m' sg' ha' where r: "r = (m', sg', ha')" by (cases r)
    have "resSearchFree m sg cb i (x # xs) tot = Inr (Took (i + 0) (Some p) m' sg' ha')" using 2(1) r x by simp
    then show ?thesis using 2(2) r g
      unfolding search_hit_def by (metis length_greater_0_conv list.distinct(1) nth_Cons_0)
  qed
qed auto

text \<open>The memory the system hands out: it is aligned, not in the lowest 64 KB, does not wrap and is apart from the
  anchors there are.\<close>

definition vm_fresh :: "(ulong \<Rightarrow> ulong option) \<Rightarrow> res_heap \<Rightarrow> bool" where
  "vm_fresh vm h \<longleftrightarrow>
     (\<forall>sz a. vm sz = Some a \<longrightarrow> 65536 \<le> unat a \<and> 4 dvd unat a \<and> unat a + unat sz < 2 ^ 32 \<and> list_all (\<lambda>x. apart x (a, new_anchor sz)) (phaChain h))"

text \<open>A request whose rounded size neither wraps nor leaves a new anchor without room for its free block.\<close>

definition request_ok :: "ulong \<Rightarrow> bool" where
  "request_ok n \<longleftrightarrow> unat n + 4 \<le> 2 ^ 32 \<and>
     unat (min_user_size n) + 100 \<le> unat (ALIGN (min_user_size n + CB_HDR * 2) BLOCKSIZE)"

lemma and_not_low: "unat ((x :: ulong) AND NOT (2 ^ k - 1)) = unat x - unat x mod 2 ^ k"
proof -
  have "(x AND NOT (mask k)) + take_bit k x = x"
    by (subst disjunctive_add_eq_or) (auto intro!: bit_eqI simp: bit_simps)
  then have "x AND NOT (2 ^ k - 1) = x - take_bit k x" by (simp add: mask_eq_exp_minus_1 eq_diff_eq)
  moreover have "unat (take_bit k x) = unat x mod 2 ^ k" by (simp add: unsigned_take_bit_eq take_bit_nat_def)
  moreover from this have "take_bit k x \<le> x" by (simp add: word_le_nat_alt)
  ultimately show ?thesis by (simp add: unat_sub)
qed

lemma unat_min_user_size:
  assumes "unat n + 4 \<le> 2 ^ 32"
  shows "unat (min_user_size n) = max (unat n + 3 - (unat n + 3) mod 4) 16"
proof -
  have "unat n + unat (3 :: ulong) < 2 ^ LENGTH(32)" using assms by simp
  then have "unat (n + 3) = unat n + 3" by (subst unat_add_small) simp_all
  moreover have "ALIGN n ALIGNMENT = (n + 3) AND NOT (2 ^ 2 - 1)" by (simp add: ALIGN_def ALIGNMENT_def)
  ultimately have "unat (ALIGN n ALIGNMENT) = unat n + 3 - (unat n + 3) mod 4" by (simp only: and_not_low) simp
  then show ?thesis by (simp add: min_user_size_def unat_max_word CB_MEMBLOCKFREE_def CB_HDR_def)
qed

lemma min_user_size_ge:
  assumes "unat n + 4 \<le> 2 ^ 32"
  shows "n \<le> min_user_size n" "16 \<le> unat (min_user_size n)" "4 dvd unat (min_user_size n)"
proof -
  note u = unat_min_user_size [OF assms]
  have "unat n + 3 - (unat n + 3) mod 4 = 4 * ((unat n + 3) div 4)" by (simp add: minus_mod_eq_mult_div)
  then have v: "unat (min_user_size n) = 4 * max ((unat n + 3) div 4) 4" unfolding u by (simp add: max_def)
  have "unat n \<le> 4 * ((unat n + 3) div 4)" by presburger
  then show "n \<le> min_user_size n" unfolding word_le_nat_alt v by simp
  show "16 \<le> unat (min_user_size n)" "4 dvd unat (min_user_size n)" unfolding v by simp_all
qed

lemma block_size_dvd: "4 dvd unat (ALIGN n BLOCKSIZE)"
proof -
  have "ALIGN n BLOCKSIZE = (n + 262143) AND NOT (2 ^ 18 - 1)" by (simp add: ALIGN_def BLOCKSIZE_def)
  then have "unat (ALIGN n BLOCKSIZE) = 2 ^ 18 * (unat (n + 262143) div 2 ^ 18)"
    by (simp only: and_not_low minus_mod_eq_mult_div)
  then show ?thesis by simp
qed

lemma put_used:
  assumes inv: "heap_inv h" and i: "i < length (phaChain h)" and len: "length bs < 17709"
    and g: "anchor_good (hp_size h) (hp_sig h) (phaChain h ! i) bs"
    and tk: "taken (hp_size h) (hp_sig h) (fst (phaChain h ! i)) (snd (phaChain h ! i)) (free_blocks (snd (phaChain h ! i)))
      (used_blocks (snd (phaChain h ! i))) bs cb (m', sg', ha') p"
  shows "\<exists>ha''. resInsertUsed m' ha' p = Inr ha'' \<and>
    (let h' = put_anchor i ha'' (h\<lparr>hp_size := m', hp_sig := sg', phaChain := (phaChain h)[i := (fst (phaChain h ! i), ha')]\<rparr>) in
     heap_inv h' \<and> heap_used h p = None \<and> heap_used h' = (heap_used h)(p \<mapsto> m' p) \<and> cb \<le> m' p \<and>
     (\<forall>k. heap_room (Suc k) h \<longrightarrow> heap_room k h'))"
proof -
  obtain a ha where x: "phaChain h ! i = (a, ha)" by (cases "phaChain h ! i")
  let ?m = "hp_size h" and ?F = "free_blocks ha" and ?U = "used_blocks ha"
  obtain t s c F' bs' where t: "ha' = ha\<lparr>pmbFree := t, pcoreFreeSize := s, cbFree := c\<rparr>"
    "anchor_inv m' a ha' F' ?U {p} bs'" "\<forall>x. x \<notin> insert p ?F \<longrightarrow> m' x = ?m x" "cb \<le> m' p" "F' \<subseteq> ?F" "p \<notin> ?U"
    "p \<in> ?F \<and> sg' = hp_sig h \<or> sg' = (hp_sig h)(p := MEMBLOCK_SIGNATURE)" "length bs' \<le> Suc (length bs)"
    using tk unfolding taken_def x fst_conv snd_conv prod.inject by (elim exE conjE) (rule that; simp)
  have "length bs' < 17710" using t(8) len by simp
  from resInsertUsed_ok [OF t(2) this] obtain tu where u:
    "resInsertUsed m' ha' p = Inr (ha'\<lparr>cbUsed := cbUsed ha' + m' p, pmbUsed := tu\<rparr>)"
    "anchor_inv m' a (ha'\<lparr>cbUsed := cbUsed ha' + m' p, pmbUsed := tu\<rparr>) F' (insert p ?U) {} bs'" by blast
  let ?ha = "ha'\<lparr>cbUsed := cbUsed ha' + m' p, pmbUsed := tu\<rparr>"
  note ui = anchor_invD [OF u(2)]
  have doms: "free_blocks ?ha = F'" "used_blocks ?ha = insert p ?U" using blocks_dom [OF ui(1)] blocks_dom [OF ui(2)] by simp_all
  have gb: "set bs = ?F \<union> ?U" using anchor_good_blocks [OF g] x by simp
  have sg: "\<forall>b\<in>set bs. hp_sig h b = MEMBLOCK_SIGNATURE" "ha_ulSignature ha = HEAPANCHOR_SIGNATURE"
    and place: "anchor_place a (ha_cbSize ha)"
    using g x by (simp_all add: anchor_good_def)
  have "sg' b = MEMBLOCK_SIGNATURE" if "b \<in> set bs'" for b
    using that ui(6) t(5,7) sg(1) gb by auto
  then have good: "anchor_good m' sg' (a, ?ha) bs'"
    unfolding anchor_good_def using u(2) doms sg(2) t(1) place by simp
  have pw: "within p (a, ha)" using anchor_good_within(1) [OF good, of p] ui(6) t(1) by (simp add: within_def)
  have out: "m' b = ?m b \<and> sg' b = hp_sig h b" if "\<not> within b (a, ha)" for b
  proof -
    have "b \<noteq> p" using that pw by auto
    moreover have "b \<notin> ?F" using that anchor_good_within(1) [OF g, of b] gb x by auto
    ultimately show ?thesis using t(3,7) by auto
  qed
  let ?h' = "put_anchor i ?ha (h\<lparr>hp_size := m', hp_sig := sg', phaChain := (phaChain h)[i := (fst (phaChain h ! i), ha')]\<rparr>)"
  have h': "hp_size ?h' = m'" "hp_sig ?h' = sg'" "phaChain ?h' = (phaChain h)[i := (a, ?ha)]"
    using i x by (simp_all add: put_anchor_def)
  have cs: "ha_cbSize ?ha = ha_cbSize ha" using t(1) by simp
  note upd = heap_update [OF inv i x cs good out h']
  have "heap_used ?h' b = ((heap_used h)(p \<mapsto> m' p)) b" for b
  proof (cases "within b (a, ha)")
    case True
    have "m' b = ?m b" if bU: "b \<in> ?U"
    proof -
      have "?F \<inter> ?U = {}" using anchor_invD(4) [of ?m a ha ?F ?U "{}" bs] g x by (simp add: anchor_good_def)
      then have "b \<notin> insert p ?F" using bU t(6) by blast
      then show ?thesis using t(3) by blast
    qed
    then show ?thesis
      using upd(2) [OF _ True] heap_used_within [OF inv i, of b] True x doms(2) by auto
  next
    case False
    then show ?thesis using upd(3) [OF _ False] pw by auto
  qed
  then have hu: "heap_used ?h' = (heap_used h)(p \<mapsto> m' p)" ..
  have hn: "heap_used h p = None" using heap_used_within [OF inv i, of p] pw x t(6) by simp
  have "heap_room k ?h'" if "heap_room (Suc k) h" for k
    using heap_room_update [of k 1 h i ?h' "(a, ?ha)" ?m "hp_sig h" bs m' sg' bs'] that i x h'(3) g good t(8) by simp
  then show ?thesis using u(1) upd(1) hu hn t(4) by (auto simp: Let_def)
qed

lemma heap_append:
  assumes inv: "heap_inv h" and ap: "\<And>x. x \<in> set (phaChain h) \<Longrightarrow> apart x (a, ha)"
    and good: "anchor_good m' sg' (a, ha) bs"
    and out: "\<And>b. \<not> within b (a, ha) \<Longrightarrow> m' b = hp_size h b \<and> sg' b = hp_sig h b"
    and h': "hp_size h' = m'" "hp_sig h' = sg'" "phaChain h' = phaChain h @ [(a, ha)]"
  shows "heap_inv h'"
    and "heap_used h' b = (if b \<in> used_blocks ha then Some (m' b) else heap_used h b)"
    and "b \<in> set bs \<Longrightarrow> heap_used h b = None"
proof -
  have other: "\<not> within c (a, ha)" if "x \<in> set (phaChain h)" "within c x" for x c
    using ap [OF that(1)] that(2) by (auto simp: apart_def within_def)
  have old: "within c x" if "x \<in> set (phaChain h)" "c \<in> used_blocks (snd x)" for x c
    using heap_inv_good [OF inv that(1)] anchor_good_within(1) anchor_good_blocks that(2) by blast
  show "heap_inv h'"
    unfolding heap_inv_def
  proof
    show "\<forall>x\<in>set (phaChain h'). \<exists>bs. anchor_good (hp_size h') (hp_sig h') x bs"
    proof
      fix x assume "x \<in> set (phaChain h')"
      then consider "x = (a, ha)" | "x \<in> set (phaChain h)" using h' by auto
      then show "\<exists>bs. anchor_good (hp_size h') (hp_sig h') x bs"
      proof cases
        case 1
        then show ?thesis using good h' by auto
      next
        case 2
        then obtain bs' where "anchor_good (hp_size h) (hp_sig h) x bs'" using heap_inv_good [OF inv] by blast
        from anchor_good_cong [OF this, of m' sg'] other [OF 2] out h' show ?thesis by auto
      qed
    qed
    show "sorted_wrt apart (phaChain h')"
      using inv ap h' by (auto simp: heap_inv_def sorted_wrt_append)
  qed
  show "heap_used h' b = (if b \<in> used_blocks ha then Some (m' b) else heap_used h b)"
  proof (cases "\<exists>x\<in>set (phaChain h). b \<in> used_blocks (snd x)")
    case True
    then obtain x where x: "x \<in> set (phaChain h)" "b \<in> used_blocks (snd x)" by blast
    have nw: "\<not> within b (a, ha)" by (rule other [OF x(1) old [OF x]])
    then have "b \<notin> set bs" using anchor_good_within(1) [OF good, of b] by metis
    then have "b \<notin> used_blocks ha" "m' b = hp_size h b" using anchor_good_blocks [OF good] out [OF nw] by simp_all
    then show ?thesis using True h' by (simp add: heap_used_eq)
  next
    case False
    then show ?thesis using h' by (simp add: heap_used_eq)
  qed
  show "heap_used h b = None" if b: "b \<in> set bs"
  proof -
    have "b \<notin> used_blocks (snd x)" if "x \<in> set (phaChain h)" for x
      using other [OF that old [OF that]] anchor_good_within(1) [OF good b] by metis
    then show ?thesis by (simp add: heap_used_eq)
  qed
qed

text \<open>The first free block of a new anchor.\<close>

lemma first_free:
  "\<exists>t s. resInsertFree m (new_anchor sz) b =
      Inr (m, (new_anchor sz)\<lparr>cbFree := m b, pmbFree := t, pcoreFreeSize := s\<rparr>) \<and> blocks t {b} \<and> sizes s m {b}"
proof -
  obtain t where t: "AVLInsert Null b b = Inr (t, True)" "blocks t {b}"
    using blocks_insert [OF blocks_Null, of b] by auto
  let ?ha = "(new_anchor sz)\<lparr>cbFree := m b, pmbFree := t\<rparr>"
  have "sizes (pcoreFreeSize ?ha) m {}" by (simp add: new_anchor_def)
  from resInsertIntoFreeSize_ok [OF this, of b] obtain s where
    "resInsertIntoFreeSize m ?ha b = Inr (?ha\<lparr>pcoreFreeSize := s\<rparr>)" "sizes s m {b}" by auto
  then show ?thesis
    using t by (simp add: resInsertFree_def Let_def new_anchor_def free_left_def AVLGetWithParent_def AVLGetBestFit_def)
qed

text \<open>A new anchor cut into one free block and the block asked for.\<close>

lemma new_anchor_block:
  assumes inv: "heap_inv h" and fresh: "vm_fresh vm h" "vm sz = Some a"
    and cb: "16 \<le> unat cb" "unat cb + 100 \<le> unat sz" and dvd: "4 dvd unat cb" "4 dvd unat sz"
    and p: "p = a + CB_HEAPANCHOR" and q: "q = a + sz - cb - CB_HDR"
    and m: "m = (hp_size h)(p := sz - CB_HEAPANCHOR - CB_HDR * 2 - cb)"
    and sg: "sg = (hp_sig h)(p := MEMBLOCK_SIGNATURE, q := MEMBLOCK_SIGNATURE)"
  shows "\<exists>ha ha'. resInsertFree m (new_anchor sz) p = Inr (m, ha) \<and> resInsertUsed (m(q := cb)) ha q = Inr ha' \<and>
     anchor_good (m(q := cb)) sg (a, ha') [p, q] \<and> used_blocks ha' = {q} \<and> ha_cbSize ha' = sz"
proof -
  have a: "unat a + unat sz < 2 ^ LENGTH(32)" using fresh by (simp add: vm_fresh_def)
  have "unat p = unat a + 36" unfolding p using a cb by (subst unat_add_small) (simp_all add: CB_HEAPANCHOR_def)
  moreover have "unat (a + sz) = unat a + unat sz" using a by (rule unat_add_small)
  then have "unat (a + sz - cb) = unat a + unat sz - unat cb" using cb by (subst unat_sub) (simp_all add: word_le_nat_alt)
  then have uq: "unat q = unat a + unat sz - unat cb - 24"
    unfolding q using cb by (subst unat_sub) (simp_all add: word_le_nat_alt CB_HDR_def)
  have "unat (sz - CB_HEAPANCHOR) = unat sz - 36"
    using cb by (subst unat_sub) (simp_all add: word_le_nat_alt CB_HEAPANCHOR_def)
  then have "unat (sz - CB_HEAPANCHOR - CB_HDR * 2) = unat sz - 84"
    using cb by (subst unat_sub) (simp_all add: word_le_nat_alt CB_HDR_def)
  then have "unat (sz - CB_HEAPANCHOR - CB_HDR * 2 - cb) = unat sz - 84 - unat cb"
    using cb by (subst unat_sub) (simp_all add: word_le_nat_alt)
  then have mp: "unat (m p) = unat sz - 84 - unat cb" by (simp add: m)
  have pq: "p \<noteq> q" using uq \<open>unat p = unat a + 36\<close> cb by auto
  obtain t s where f: "resInsertFree m (new_anchor sz) p =
      Inr (m, (new_anchor sz)\<lparr>cbFree := m p, pmbFree := t, pcoreFreeSize := s\<rparr>)" "blocks t {p}" "sizes s m {p}"
    using first_free by blast
  let ?ha = "(new_anchor sz)\<lparr>cbFree := m p, pmbFree := t, pcoreFreeSize := s\<rparr>" and ?m = "m(q := cb)"
  have "4 dvd unat (m p)" unfolding mp using dvd by (simp add: dvd_diff_nat)
  moreover have "unat q = unat a + 60 + unat (m p)" "unat q + 24 + unat cb = unat a + unat sz" "16 \<le> unat (m p)"
    using uq mp cb by linarith+
  ultimately have lay: "4 dvd unat (m p)" "unat q = unat a + 60 + unat (m p)" "unat q + 24 + unat cb = unat a + unat sz"
    "16 \<le> unat (m p)" by blast+
  have "sizes s ?m {p}" using f(3) pq sizes_cong [of "{p}" ?m m s] by simp
  moreover have "tiled ?m (unat a + 36) [p, q] (unat a + unat sz)"
    using lay pq cb dvd \<open>unat p = unat a + 36\<close> by (simp add: hnext_def)
  ultimately have inv: "anchor_inv ?m a ?ha {p} {} {q} [p, q]"
    using f pq a by (simp add: anchor_inv_def new_anchor_def coalesced_def hnext_def insert_commute)
  from resInsertUsed_ok [OF this] obtain u where u:
    "resInsertUsed ?m ?ha q = Inr (?ha\<lparr>cbUsed := cbUsed ?ha + ?m q, pmbUsed := u\<rparr>)"
    "anchor_inv ?m a (?ha\<lparr>cbUsed := cbUsed ?ha + ?m q, pmbUsed := u\<rparr>) {p} {q} {} [p, q]" by auto
  let ?hb = "?ha\<lparr>cbUsed := cbUsed ?ha + ?m q, pmbUsed := u\<rparr>"
  have d: "free_blocks ?hb = {p}" "used_blocks ?hb = {q}"
    using blocks_dom [OF anchor_invD(1) [OF u(2)]] blocks_dom [OF anchor_invD(2) [OF u(2)]] by simp_all
  have sz: "ha_cbSize ?hb = sz" "ha_ulSignature ?hb = HEAPANCHOR_SIGNATURE" by (simp_all add: new_anchor_def)
  have "anchor_good ?m sg (a, ?hb) [p, q]"
    unfolding anchor_good_def snd_conv fst_conv d using u(2) sz fresh cb by (auto simp: sg vm_fresh_def anchor_place_def)
  then show ?thesis using f(1) u(1) d(2) sz(1) by blast
qed


text \<open>What an allocation does: nothing when it returns null, otherwise one new used block of at least the size.\<close>

definition allocated :: "res_heap \<Rightarrow> ulong \<Rightarrow> ulong option \<Rightarrow> res_heap \<Rightarrow> bool" where
  "allocated h n q h' \<longleftrightarrow> heap_inv h' \<and> (\<forall>k<17000. heap_room (Suc k) h \<longrightarrow> heap_room k h') \<and>
     (case q of
        None \<Rightarrow> heap_used h' = heap_used h
      | Some p \<Rightarrow> n \<noteq> 0 \<and> heap_used h (p - CB_HDR) = None \<and>
          (\<exists>sz. n \<le> sz \<and> heap_used h' = (heap_used h)(p - CB_HDR \<mapsto> sz)))"

lemma rmalloc_took:
  assumes inv: "heap_inv h" and n: "n \<noteq> 0" "n \<le> min_user_size n"
    and hit: "search_hit (hp_size h) (hp_sig h) (phaChain h) (min_user_size n) 0
      (resSearchFree (hp_size h) (hp_sig h) (min_user_size n) 0 (phaChain h) 0)"
  shows "\<exists>p h'. rmalloc vm h n = Inr (Some p, h') \<and> allocated h n (Some p) h'"
proof -
  let ?cb = "min_user_size n"
  obtain j p m' sg' ha' bs where s: "resSearchFree (hp_size h) (hp_sig h) ?cb 0 (phaChain h) 0 = Inr (Took j (Some p) m' sg' ha')"
    and j: "j < length (phaChain h)" and g: "anchor_good (hp_size h) (hp_sig h) (phaChain h ! j) bs" and len: "length bs < 17709"
    and tk: "taken (hp_size h) (hp_sig h) (fst (phaChain h ! j)) (snd (phaChain h ! j)) (free_blocks (snd (phaChain h ! j)))
      (used_blocks (snd (phaChain h ! j))) bs ?cb (m', sg', ha') p"
    using hit unfolding search_hit_def by (elim exE conjE) (rule that; simp)
  let ?h = "h\<lparr>hp_size := m', hp_sig := sg', phaChain := (phaChain h)[j := (fst (phaChain h ! j), ha')]\<rparr>"
  from put_used [OF inv j len g tk] obtain ha'' where u: "resInsertUsed m' ha' p = Inr ha''" "heap_inv (put_anchor j ha'' ?h)"
    "heap_used h p = None" "heap_used (put_anchor j ha'' ?h) = (heap_used h)(p \<mapsto> m' p)" "?cb \<le> m' p"
    "\<forall>k. heap_room (Suc k) h \<longrightarrow> heap_room k (put_anchor j ha'' ?h)"
    by (auto simp: Let_def)
  have "rmalloc vm h n = Inr (Some (p + CB_HDR), put_anchor j ha'' ?h)"
    using n(1) s u(1) j by (simp add: rmalloc_def resGetFreeMemblock_def Let_def)
  moreover have "n \<le> m' p" using n(2) u(5) by (rule order_trans)
  ultimately show ?thesis using u n(1) by (auto simp: allocated_def)
qed

lemma rmalloc_new:
  assumes inv: "heap_inv h" and fresh: "vm_fresh vm h" and n: "n \<noteq> 0" "request_ok n"
    and s: "resSearchFree (hp_size h) (hp_sig h) (min_user_size n) 0 (phaChain h) 0 = Inr (NoFit t)"
  shows "\<exists>q h'. rmalloc vm h n = Inr (q, h') \<and> allocated h n q h'"
proof -
  let ?cb = "min_user_size n" and ?sz = "ALIGN (min_user_size n + CB_HDR * 2) BLOCKSIZE"
  have cb: "n \<le> ?cb" "16 \<le> unat ?cb" "unat ?cb + 100 \<le> unat ?sz" "4 dvd unat ?cb"
    using n(2) min_user_size_ge [of n] by (simp_all add: request_ok_def)
  show ?thesis
  proof (cases "cbResHeapMax h \<ge> t + ?sz \<and> vm ?sz \<noteq> None")
    case False
    then have "rmalloc vm h n = Inr (None, h)"
      using n(1) s by (auto simp: rmalloc_def resGetFreeMemblock_def Let_def split: option.splits)
    then show ?thesis using inv heap_room_mono [of "Suc _" h] by (simp add: allocated_def)
  next
    case True
    then obtain a where a: "vm ?sz = Some a" by blast
    let ?p = "a + CB_HEAPANCHOR" and ?q = "a + ?sz - ?cb - CB_HDR"
    let ?m = "(hp_size h)(?p := ?sz - CB_HEAPANCHOR - CB_HDR * 2 - ?cb)"
    let ?sg = "(hp_sig h)(?p := MEMBLOCK_SIGNATURE, ?q := MEMBLOCK_SIGNATURE)"
    obtain ha ha' where f: "resInsertFree ?m (new_anchor ?sz) ?p = Inr (?m, ha)" "resInsertUsed (?m(?q := ?cb)) ha ?q = Inr ha'"
      and g: "anchor_good (?m(?q := ?cb)) ?sg (a, ha') [?p, ?q]" and d: "used_blocks ha' = {?q}" "ha_cbSize ha' = ?sz"
      using new_anchor_block [OF inv fresh a cb(2,3,4) block_size_dvd refl refl refl refl] by blast
    let ?h = "h\<lparr>hp_size := ?m(?q := ?cb), hp_sig := ?sg, phaChain := phaChain h @ [(a, ha)]\<rparr>"
    let ?h' = "put_anchor (length (phaChain h)) ha' ?h"
    have h': "hp_size ?h' = ?m(?q := ?cb)" "hp_sig ?h' = ?sg" "phaChain ?h' = phaChain h @ [(a, ha')]"
      by (simp_all add: put_anchor_def)
    have ap: "apart x (a, ha')" if "x \<in> set (phaChain h)" for x
      using fresh a that d(2) by (auto simp: vm_fresh_def list_all_iff apart_def new_anchor_def)
    have w: "within ?p (a, ha')" "within ?q (a, ha')" using anchor_good_within(1) [OF g] by simp_all
    have out: "(?m(?q := ?cb)) b = hp_size h b \<and> ?sg b = hp_sig h b" if "\<not> within b (a, ha')" for b
      using that w by auto
    note app = heap_append [OF inv ap g out h']
    have "rmalloc vm h n = Inr (Some (?q + CB_HDR), ?h')"
      using True n(1) s f a by (simp add: rmalloc_def resGetFreeMemblock_def Let_def)
    moreover have "heap_used ?h' = (heap_used h)(?q \<mapsto> ?cb)" using app(2) d(1) by (auto simp: fun_eq_iff)
    moreover have "heap_room k ?h'" if "heap_room (Suc k) h" "k < 17000" for k
      using heap_room_mono [OF that(1), of k] that(2) h'(3) anchor_good_length [OF g] by (simp add: heap_room_def)
    ultimately show ?thesis using app(1) app(3) [of ?q] n(1) cb(1) by (auto simp: allocated_def)
  qed
qed

lemma rmalloc_ok:
  assumes "heap_inv h" "heap_room 1 h" "vm_fresh vm h" "request_ok n"
  shows "\<exists>q h'. rmalloc vm h n = Inr (q, h') \<and> allocated h n q h'"
proof (cases "n = 0")
  case True
  then show ?thesis using assms(1) heap_room_mono [of "Suc _" h] by (simp add: rmalloc_def allocated_def)
next
  case False
  have n: "n \<le> min_user_size n" "16 \<le> unat (min_user_size n)" "4 dvd unat (min_user_size n)"
    using assms(4) min_user_size_ge [of n] by (simp_all add: request_ok_def)
  have "\<exists>bs. anchor_good (hp_size h) (hp_sig h) x bs \<and> length bs < 17709" if "x \<in> set (phaChain h)" for x
    using heap_inv_good [OF assms(1) that] heap_room_length [OF assms(2) that] by fastforce
  from resSearchFree_ok [OF this n(2,3), of _ 0 0]
  show ?thesis using rmalloc_took [OF assms(1) False n(1)] rmalloc_new [OF assms(1,3) False assms(4)] by blast
qed

section \<open>The start\<close>

lemma resHeapInit_ok:
  assumes vm: "vm (max BLOCKSIZE ini) = Some a" "65536 \<le> unat a" "4 dvd unat a"
      "unat a + unat (max BLOCKSIZE ini) < 2 ^ 32" and ini: "4 dvd unat ini"
  shows "\<exists>h'. resHeapInit vm ini mx h = Inr (0, h') \<and> heap_inv h' \<and> heap_used h' = (\<lambda>b. None) \<and>
    map (\<lambda>x. (fst x, ha_cbSize (snd x))) (phaChain h') = [(a, max BLOCKSIZE ini)]"
proof -
  let ?sz = "max BLOCKSIZE ini" and ?p = "a + CB_HEAPANCHOR"
  let ?m = "(hp_size h)(?p := ?sz - CB_HEAPANCHOR - CB_HDR)" and ?sg = "(hp_sig h)(?p := MEMBLOCK_SIGNATURE)"
  have sz: "262144 \<le> unat ?sz" by (simp add: unat_max_word BLOCKSIZE_def)
  have dvd: "4 dvd unat ?sz" using ini by (simp add: unat_max_word BLOCKSIZE_def max_def)
  have "unat a + unat ?sz < 2 ^ LENGTH(32)" using vm(4) by simp
  then have up: "unat ?p = unat a + 36" using sz by (subst unat_add_small) (simp_all add: CB_HEAPANCHOR_def)
  have "unat (?sz - CB_HEAPANCHOR) = unat ?sz - 36"
    using sz by (subst unat_sub) (simp_all add: word_le_nat_alt CB_HEAPANCHOR_def)
  then have um: "unat (?sz - CB_HEAPANCHOR - CB_HDR) = unat ?sz - 60"
    using sz by (subst unat_sub) (simp_all add: word_le_nat_alt CB_HDR_def)
  obtain t s where f: "resInsertFree ?m (new_anchor ?sz) ?p =
      Inr (?m, (new_anchor ?sz)\<lparr>cbFree := ?m ?p, pmbFree := t, pcoreFreeSize := s\<rparr>)" "blocks t {?p}" "sizes s ?m {?p}"
    using first_free by blast
  let ?ha = "(new_anchor ?sz)\<lparr>cbFree := ?m ?p, pmbFree := t, pcoreFreeSize := s\<rparr>"
  have "tiled ?m (unat a + 36) [?p] (unat a + unat ?sz)" using up um sz dvd by (simp add: hnext_def dvd_diff_nat)
  then have inv: "anchor_inv ?m a ?ha {?p} {} {} [?p]"
    using f vm(4) by (simp add: anchor_inv_def new_anchor_def coalesced_def hnext_def)
  have "free_blocks ?ha = {?p}" "used_blocks ?ha = {}"
    using blocks_dom [OF anchor_invD(1) [OF inv]] blocks_dom [OF anchor_invD(2) [OF inv]] by simp_all
  moreover from this have "anchor_good ?m ?sg (a, ?ha) [?p]"
    unfolding anchor_good_def snd_conv fst_conv using inv vm sz by (simp add: new_anchor_def anchor_place_def)
  ultimately show ?thesis
    using vm(1) f(1) by (auto simp: new_anchor_def resHeapInit_def Let_def heap_inv_def heap_used_eq fun_eq_iff)
qed

text \<open>Anchors of up to 700000 bytes always have room.\<close>

lemma tiled_length: "tiled m s bs e \<Longrightarrow> s + 40 * length bs \<le> e"
proof (induction bs arbitrary: s)
  case (Cons b bs)
  then show ?case by (force simp: hnext_def)
qed simp

lemma heap_room_small:
  assumes "heap_inv h" "\<And>x. x \<in> set (phaChain h) \<Longrightarrow> ha_cbSize (snd x) \<le> 700000"
  shows "heap_room 200 h"
  unfolding heap_room_def list_all_iff
proof
  fix x assume x: "x \<in> set (phaChain h)"
  obtain bs where g: "anchor_good (hp_size h) (hp_sig h) x bs" using heap_inv_good [OF assms(1) x] by blast
  then have "anchor_inv (hp_size h) (fst x) (snd x) (free_blocks (snd x)) (used_blocks (snd x)) {} bs"
    by (simp add: anchor_good_def)
  from tiled_length [OF anchor_invD(7) [OF this]] have "40 * length bs \<le> unat (ha_cbSize (snd x))" by simp
  moreover have "unat (ha_cbSize (snd x)) \<le> 700000" using assms(2) [OF x] by (simp add: word_le_nat_alt)
  ultimately show "avl_size (pmbFree (snd x)) + avl_size (pmbUsed (snd x)) + 200 < 17710"
    using anchor_good_length [OF g] by simp
qed

text \<open>Two used blocks never overlap, headers included.\<close>

lemma used_disjoint:
  assumes inv: "heap_inv h" and b: "heap_used h b = Some s" "heap_used h c = Some t" "b \<noteq> c"
  shows "unat b + 24 + unat s \<le> unat c \<or> unat c + 24 + unat t \<le> unat b"
proof -
  have used: "\<exists>i bs. i < length (phaChain h) \<and> anchor_good (hp_size h) (hp_sig h) (phaChain h ! i) bs \<and> b \<in> set bs \<and> hp_size h b = s"
    if "heap_used h b = Some s" for b s
    using that heap_inv_good [OF inv] anchor_good_blocks
    by (fastforce simp: heap_used_eq in_set_conv_nth split: if_splits)
  obtain i bs where i: "i < length (phaChain h)" "anchor_good (hp_size h) (hp_sig h) (phaChain h ! i) bs" "b \<in> set bs" "hp_size h b = s"
    using used [OF b(1)] by blast
  obtain j cs where j: "j < length (phaChain h)" "anchor_good (hp_size h) (hp_sig h) (phaChain h ! j) cs" "c \<in> set cs" "hp_size h c = t"
    using used [OF b(2)] by blast
  show ?thesis
  proof (cases "i = j")
    case True
    then have "c \<in> set bs" using anchor_good_blocks [OF i(2)] anchor_good_blocks [OF j(2)] j(3) by simp
    moreover obtain s0 e0 where "tiled (hp_size h) s0 bs e0" using i(2) anchor_invD(7) by (fastforce simp: anchor_good_def)
    ultimately show ?thesis
      using tiled_disjoint [of "hp_size h" s0 bs e0 b c] tiled_disjoint [of "hp_size h" s0 bs e0 c b] i j b(3)
      by (cases "b < c") (auto simp: hnext_def)
  next
    case False
    then have "apart (phaChain h ! i) (phaChain h ! j)"
      using sorted_wrt_apart_nth [of "phaChain h" i j] inv i(1) j(1) by (simp add: heap_inv_def)
    then show ?thesis
      unfolding apart_def i(4) [symmetric] j(4) [symmetric]
      using anchor_good_within [OF i(2,3)] anchor_good_within [OF j(2,3)] unfolding within_def by (elim disjE) linarith+
  qed
qed

end
