(* ===== verification/ResHeapRealloc.thy ===== *)
theory ResHeapRealloc
  imports ResHeapProps
begin

text \<open>
  Looking a block up, resizing it in place and moving it: \<open>resFindUsedBlock\<close> and \<open>rrealloc\<close>.
\<close>

section \<open>Finding a block\<close>

lemma blocks_get_node:
  assumes "blocks t B"
  shows "AVLGet t b = Null \<longleftrightarrow> b \<notin> B" "AVLGet t b = Node p k l r h \<Longrightarrow> p = b"
  using blocks_get [OF assms, of b] by (cases "AVLGet t b"; auto split: if_splits)+

lemma resFindUsedBlock_ok:
  assumes inv: "heap_inv h"
  shows "resFindUsedBlock h pv = Some (i, b) \<longleftrightarrow>
    b = pv - CB_HDR \<and> i < length (phaChain h) \<and> b \<in> used_blocks (snd (phaChain h ! i))"
proof -
  have good: "\<exists>bs. anchor_good (hp_size h) (hp_sig h) (phaChain h ! i) bs" if "i < length (phaChain h)" for i
    using heap_inv_good [OF inv nth_mem [OF that]] .
  show ?thesis
  proof
    assume f: "resFindUsedBlock h pv = Some (i, b)"
    then have i: "find_anchor pv 0 (phaChain h) = Some i"
      by (auto simp: resFindUsedBlock_def Let_def split: if_splits option.splits avl.splits)
    then have l: "i < length (phaChain h)" using find_anchor_ok [OF inv] by blast
    obtain bs where "anchor_good (hp_size h) (hp_sig h) (phaChain h ! i) bs" using good [OF l] by blast
    then have "blocks (pmbUsed (snd (phaChain h ! i))) (used_blocks (snd (phaChain h ! i)))"
      using anchor_invD(2) by (auto simp: anchor_good_def)
    note g = blocks_get_node [OF this, of "pv - CB_HDR"]
    show "b = pv - CB_HDR \<and> i < length (phaChain h) \<and> b \<in> used_blocks (snd (phaChain h ! i))"
      using f i l g(2) g(1) by (auto simp: resFindUsedBlock_def Let_def split: if_splits avl.splits)
  next
    assume "b = pv - CB_HDR \<and> i < length (phaChain h) \<and> b \<in> used_blocks (snd (phaChain h ! i))"
    then have a: "b = pv - CB_HDR" "i < length (phaChain h)" "b \<in> used_blocks (snd (phaChain h ! i))" by blast+
    obtain bs where g: "anchor_good (hp_size h) (hp_sig h) (phaChain h ! i) bs" using good [OF a(2)] by blast
    have bs: "b \<in> set bs" using a(3) anchor_good_blocks [OF g] by blast
    have i: "find_anchor pv 0 (phaChain h) = Some i"
      using find_anchor_ok [OF inv] a user_pointer_within(1) [OF g bs] by simp
    have "blocks (pmbUsed (snd (phaChain h ! i))) (used_blocks (snd (phaChain h ! i)))"
      using g anchor_invD(2) by (auto simp: anchor_good_def)
    note n = blocks_get_node [OF this, of b]
    obtain p k l r v where nd: "AVLGet (pmbUsed (snd (phaChain h ! i))) b = Node p k l r v"
      using n(1) a(3) by (cases "AVLGet (pmbUsed (snd (phaChain h ! i))) b") auto
    have "pv \<noteq> 0" using user_pointer_within(2) [OF g bs] a(1) by simp
    moreover have "ha_ulSignature (snd (phaChain h ! i)) = HEAPANCHOR_SIGNATURE" "hp_sig h b = MEMBLOCK_SIGNATURE"
      using g bs by (simp_all add: anchor_good_def)
    ultimately show "resFindUsedBlock h pv = Some (i, b)"
      using i nd n(2) [OF nd] a(1) by (simp add: resFindUsedBlock_def Let_def)
  qed
qed

lemma resFindUsedBlock_None:
  assumes inv: "heap_inv h"
  shows "resFindUsedBlock h pv = None \<longleftrightarrow> heap_used h (pv - CB_HDR) = None"
proof -
  have "resFindUsedBlock h pv \<noteq> None \<longleftrightarrow>
      (\<exists>i<length (phaChain h). pv - CB_HDR \<in> used_blocks (snd (phaChain h ! i)))"
  proof (cases "resFindUsedBlock h pv")
    case None
    then have "\<not> (i < length (phaChain h) \<and> pv - CB_HDR \<in> used_blocks (snd (phaChain h ! i)))" for i
      using resFindUsedBlock_ok [OF inv, of pv i "pv - CB_HDR"] by simp
    then show ?thesis using None by blast
  next
    case (Some x)
    then show ?thesis using resFindUsedBlock_ok [OF inv, of pv "fst x" "snd x"] by (cases x) auto
  qed
  also have "\<dots> \<longleftrightarrow> heap_used h (pv - CB_HDR) \<noteq> None"
    unfolding heap_used_eq by (simp only: Bex_def in_set_conv_nth split: if_split) blast
  finally show ?thesis by blast
qed

lemma res_msize_eq:
  assumes "heap_inv h"
  shows "res_msize h pv = (case heap_used h (pv - CB_HDR) of None \<Rightarrow> 0 | Some s \<Rightarrow> s)"
proof (cases "resFindUsedBlock h pv")
  case None
  then have "heap_used h (pv - CB_HDR) = None" using resFindUsedBlock_None [OF assms] by blast
  then show ?thesis using None by (simp add: res_msize_def)
next
  case (Some x)
  then obtain i b where x: "resFindUsedBlock h pv = Some (i, b)" by (cases x) auto
  then have "b = pv - CB_HDR" using resFindUsedBlock_ok [OF assms] by blast
  moreover have "heap_used h (pv - CB_HDR) \<noteq> None" using x resFindUsedBlock_None [OF assms, of pv] by simp
  then have "heap_used h (pv - CB_HDR) = Some (hp_size h (pv - CB_HDR))" by (simp add: heap_used_eq split: if_splits)
  ultimately show ?thesis using x by (simp add: res_msize_def)
qed

text \<open>The best fit above the pointer is never at or below the header in front of it.\<close>

lemma resFindWithinUsedBlock_None:
  assumes inv: "heap_inv h"
  shows "resFindWithinUsedBlock h pv = None"
proof (cases "find_anchor pv 0 (phaChain h)")
  case (Some i)
  then have l: "i < length (phaChain h)" using find_anchor_ok [OF inv] by blast
  obtain bs where g: "anchor_good (hp_size h) (hp_sig h) (phaChain h ! i) bs"
    using heap_inv_good [OF inv nth_mem [OF l]] by blast
  let ?t = "pmbUsed (snd (phaChain h ! i))"
  have b: "blocks ?t (used_blocks (snd (phaChain h ! i)))" using g anchor_invD(2) by (auto simp: anchor_good_def)
  then have ix: "avl_index ?t" by (simp add: blocks_def)
  have "\<not> b + CB_HDR \<le> pv" if n: "AVLGetBestFit ?t pv True = Node b k l' r' h'" for b k l' r' h'
  proof -
    have "avl_map ?t k = Some b" "pv \<le> k" using avl.above_Some [OF ix, of pv k b] n by auto
    moreover from this have "id_map (used_blocks (snd (phaChain h ! i))) k = Some b" using b unfolding blocks_def by metis
    ultimately have "b = k" "k \<in> used_blocks (snd (phaChain h ! i))" unfolding id_map_Some by simp_all
    then have "b \<in> used_blocks (snd (phaChain h ! i))" "pv \<le> b" using \<open>pv \<le> k\<close> unfolding \<open>b = k\<close> by blast+
    then have bb: "b \<in> set bs" using anchor_good_blocks [OF g] by blast
    have "unat (fst (phaChain h ! i)) + unat (ha_cbSize (snd (phaChain h ! i))) < 2 ^ 32"
      using g anchor_invD(8) by (force simp: anchor_good_def)
    then have "unat (b + CB_HDR) = unat b + 24"
      using anchor_good_within(2) [OF g bb] by (subst unat_add_small) (simp_all add: CB_HDR_def)
    then show ?thesis using \<open>pv \<le> b\<close> by (simp add: word_le_nat_alt)
  qed
  then show ?thesis using Some by (auto simp: resFindWithinUsedBlock_def Let_def split: avl.splits)
qed (simp add: resFindWithinUsedBlock_def)

section \<open>Resizing a block in place\<close>

text \<open>The tail of a used block is cut off: it is neither free nor used until \<open>resInsertFree\<close> takes it.\<close>

lemma shrink_inv:
  assumes inv: "anchor_inv m a ha F U {} bs" and b: "b \<in> U"
    and n: "unat n + 40 \<le> unat (m b)" "16 \<le> unat n" and dvd: "4 dvd unat n"
    and p: "p = b + CB_HDR + n" and m': "m' = m(p := m b - n - CB_HDR, b := n)"
  shows "\<exists>bs'. anchor_inv m' a (ha\<lparr>cbUsed := cbUsed ha - (m b - n)\<rparr>) F U {p} bs' \<and> length bs' = Suc (length bs) \<and>
    p \<notin> F \<union> U"
proof -
  note i = anchor_invD [OF inv]
  have bb: "b \<in> set bs" using b i(6) by auto
  have hb: "hnext m b < 2 ^ LENGTH(32)" using tiled_range [OF i(7) bb] i(8) by simp
  then have "unat (b + CB_HDR) = unat b + 24" by (subst unat_add_small) (simp_all add: hnext_def CB_HDR_def)
  then have up: "unat p = unat b + 24 + unat n"
    unfolding p using hb n by (subst unat_add_small) (simp_all add: hnext_def)
  have um1: "unat (m b - n) = unat (m b) - unat n" using n by (subst unat_sub) (simp_all add: word_le_nat_alt)
  then have um2: "unat (m b - n - CB_HDR) = unat (m b) - unat n - 24"
    using n by (subst unat_sub) (simp_all add: um1 word_le_nat_alt CB_HDR_def)
  note um = um1 um2
  have new: "p \<notin> F \<union> U"
  proof
    assume "p \<in> F \<union> U"
    moreover have "b < p" using up by (simp add: word_less_nat_alt)
    ultimately have "hnext m b \<le> unat p" using anchor_inv_neighbours [OF inv, of b p] b by simp
    then show False using up n by (simp add: hnext_def)
  qed
  have pb: "p \<noteq> b" using new b by auto
  have m'b: "m' b = n" "m' p = m b - n - CB_HDR" and m'x: "\<And>x. x \<noteq> b \<Longrightarrow> x \<noteq> p \<Longrightarrow> m' x = m x"
    using pb by (simp_all add: m')
  obtain xs ys where bs: "bs = xs @ b # ys" using split_list [OF bb] by blast
  have db: "distinct bs" "p \<notin> set bs" using tiled_distinct [OF i(7)] new i(6) by auto
  have tl: "tiled m' (unat a + 36) (xs @ b # p # ys) (unat a + unat (ha_cbSize ha))"
    using i(7) up um n dvd m'b db by (intro tiled_cut [of m _ xs b ys]) (auto simp: bs intro!: m'x)
  have nF: "b \<notin> F" using b i(4) by auto
  have "m' x = m x" if "x \<in> F" for x using that nF new by (intro m'x) auto
  then have F: "sizes (pcoreFreeSize ha) m' F" "bytes m' F = bytes m F" "coalesced m' F"
    using i(3,11) sizes_cong [of F m' m] by (auto intro!: bytes_cong simp: coalesced_def hnext_def)
  have U: "bytes m U = unat (m b) + bytes m (U - {b})" using i(13) b by (simp add: sum.remove)
  have "bytes m' (U - {b}) = bytes m (U - {b})" using new by (intro bytes_cong m'x) auto
  then have U': "bytes m' U = unat n + bytes m (U - {b})" using i(13) b m'b by (simp add: sum.remove [of U b])
  have "m b - n \<le> cbUsed ha" using U i(10) um by (simp add: word_le_nat_alt)
  then have c: "unat (cbUsed ha - (m b - n)) = bytes m' U" using U U' i(10) um n by (simp add: unat_sub)
  have "anchor_inv m' a (ha\<lparr>cbUsed := cbUsed ha - (m b - n)\<rparr>) F U {p} (xs @ b # p # ys)"
    using i F c tl new bs by (auto simp: anchor_inv_def)
  then show ?thesis using new bs by (intro exI [of _ "xs @ b # p # ys"]) simp
qed

text \<open>A used block swallows the free block behind it.\<close>

lemma expand_whole_inv:
  assumes inv: "anchor_inv m a ha F U {} bs" and b: "b \<in> U" and r: "r \<in> F" "hnext m b = unat r"
    and t: "blocks t (F - {r})" "sizes s m (F - {r})" and m': "m' = m(b := m b + (m r + CB_HDR))"
  shows "\<exists>bs'. anchor_inv m' a (ha\<lparr>pmbFree := t, pcoreFreeSize := s, cbFree := cbFree ha - m r,
      cbUsed := cbUsed ha + (m r + CB_HDR)\<rparr>) (F - {r}) U {} bs' \<and> length bs' \<le> length bs \<and> unat (m' b) = unat (m b) + 24 + unat (m r)"
proof -
  note i = anchor_invD [OF inv]
  have e: "b \<in> set bs" "r \<in> set bs" using b r i(6) by auto
  obtain xs ys where bs: "bs = xs @ b # r # ys" using tiled_adjacent [OF i(7) e r(2)] by blast
  have hr: "hnext m r < 2 ^ LENGTH(32)" using tiled_range [OF i(7) e(2)] i(8) by simp
  then have "unat (m r + CB_HDR) = unat (m r) + 24" by (subst unat_add_small) (simp_all add: hnext_def CB_HDR_def)
  moreover from this have "unat (m b + (m r + CB_HDR)) = unat (m b) + unat (m r + CB_HDR)"
    using hr r(2) by (subst unat_add_small) (simp_all add: hnext_def)
  ultimately have ub: "unat (m r + CB_HDR) = unat (m r) + 24" "unat (m' b) = unat (m b) + 24 + unat (m r)" by (simp_all add: m')
  have db: "distinct bs" using tiled_distinct [OF i(7)] .
  have m'x: "\<And>x. x \<noteq> b \<Longrightarrow> m' x = m x" by (simp add: m')
  have tl: "tiled m' (unat a + 36) (xs @ b # ys) (unat a + unat (ha_cbSize ha))"
    using i(7) ub db by (intro tiled_merge [of m _ xs b r ys]) (auto simp: bs intro!: m'x)
  have nF: "b \<notin> F" "r \<notin> U" using b r(1) i(4) by auto
  have eq: "m' x = m x" if "x \<in> F - {r}" for x using that nF by (intro m'x) auto
  then have F: "sizes s m' (F - {r})" "bytes m' (F - {r}) = bytes m (F - {r})" "coalesced m' (F - {r})"
    using t(2) i(11) sizes_cong [of "F - {r}" m' m s] by (auto intro!: bytes_cong simp: coalesced_def hnext_def)
  have Fr: "bytes m F = unat (m r) + bytes m (F - {r})" using i(12) r(1) by (simp add: sum.remove)
  then have "m r \<le> cbFree ha" using i(9) by (simp add: word_le_nat_alt)
  then have c: "unat (cbFree ha - m r) = bytes m' (F - {r})" using Fr F(2) i(9) by (simp add: unat_sub)
  have U: "bytes m U = unat (m b) + bytes m (U - {b})" using i(13) b by (simp add: sum.remove)
  have "bytes m' (U - {b}) = bytes m (U - {b})" by (intro bytes_cong m'x) auto
  then have U': "bytes m' U = bytes m U + (unat (m r) + 24)" using i(13) b ub U by (simp add: sum.remove [of U b])
  have "length bs \<noteq> 0" using e by auto
  then have "unat (cbUsed ha) + unat (m r + CB_HDR) < 2 ^ LENGTH(32)"
    using anchor_inv_bytes [OF inv] i(8,10) ub Fr by simp
  then have u: "unat (cbUsed ha + (m r + CB_HDR)) = bytes m' U" using U' i(10) ub by (simp add: unat_add_small)
  have "set (xs @ b # ys) = (F - {r}) \<union> U"
    using i(6) db bs nF by auto
  then have "anchor_inv m' a (ha\<lparr>pmbFree := t, pcoreFreeSize := s, cbFree := cbFree ha - m r,
      cbUsed := cbUsed ha + (m r + CB_HDR)\<rparr>) (F - {r}) U {} (xs @ b # ys)"
    using i t(1) F c u tl by (auto simp: anchor_inv_def)
  then show ?thesis using bs ub by (intro exI [of _ "xs @ b # ys"]) simp
qed

text \<open>A used block takes the front of the free block behind it, whose header moves to \<open>p\<close>.\<close>

lemma expand_split_new:
  assumes inv: "anchor_inv m a ha F U {} bs" and b: "b \<in> U" and r: "r \<in> F" "hnext m b = unat r"
    and n: "unat (m b) < unat n" "unat n + 16 \<le> unat (m r) + unat (m b)" and p: "p = b + CB_HDR + n"
  shows "unat p = unat b + 24 + unat n" "unat r < unat p" "unat p < hnext m r" "p \<notin> F \<union> U" "same_gap F r p"
proof -
  note i = anchor_invD [OF inv]
  have e: "b \<in> set bs" "r \<in> set bs" using b r i(6) by auto
  have hr: "hnext m r < 2 ^ LENGTH(32)" using tiled_range [OF i(7) e(2)] i(8) by simp
  have hb: "unat r = unat b + 24 + unat (m b)" using r(2) by (simp add: hnext_def)
  then have "unat (b + CB_HDR) = unat b + 24"
    using hr by (subst unat_add_small) (simp_all add: hnext_def CB_HDR_def)
  then show up: "unat p = unat b + 24 + unat n"
    unfolding p using hr hb n by (subst unat_add_small) (simp_all add: hnext_def)
  show lt: "unat r < unat p" "unat p < hnext m r" using up hb n by (simp_all add: hnext_def)
  have gt: "hnext m r \<le> unat x" if "x \<in> F \<union> U" "r < x" for x
    using anchor_inv_neighbours [OF inv, of r x] that r(1) by simp
  show "p \<notin> F \<union> U" using gt [of p] lt by (auto simp: word_less_nat_alt)
  show "same_gap F r p"
    unfolding same_gap_def
  proof (intro ballI impI)
    fix x assume x: "x \<in> F" "x \<noteq> r"
    show "x < r \<and> x < p \<or> r < x \<and> p < x"
    proof (cases "x < r")
      case True
      then show ?thesis using lt(1) by (simp add: word_less_nat_alt)
    next
      case False
      then have "r < x" using x(2) by simp
      then show ?thesis using gt [of x] x(1) lt(2) by (simp add: word_less_nat_alt)
    qed
  qed
qed

lemma expand_split_inv:
  assumes inv: "anchor_inv m a ha F U {} bs" and b: "b \<in> U" and r: "r \<in> F" "hnext m b = unat r"
    and n: "unat (m b) < unat n" "unat n + 16 \<le> unat (m r) + unat (m b)" and p: "p = b + CB_HDR + n"
    and dvd: "4 dvd unat n" and t: "blocks t (insert p (F - {r}))" "sizes u (m(p := m r + m b - n)) (insert p (F - {r}))"
    and m': "m' = m(p := m r + m b - n, b := n)"
  shows "\<exists>bs'. anchor_inv m' a (ha\<lparr>pmbFree := t, pcoreFreeSize := u, cbUsed := cbUsed ha + (n - m b),
      cbFree := cbFree ha - (m r - (m r + m b - n))\<rparr>) (insert p (F - {r})) U {} bs' \<and> length bs' = length bs"
proof -
  note i = anchor_invD [OF inv] and new = expand_split_new [OF inv b r n p]
  have e: "b \<in> set bs" "r \<in> set bs" using b r i(6) by auto
  obtain xs ys where bs: "bs = xs @ b # r # ys" using tiled_adjacent [OF i(7) e r(2)] by blast
  have hr: "hnext m r < 2 ^ LENGTH(32)" using tiled_range [OF i(7) e(2)] i(8) by simp
  have b16: "16 \<le> unat (m b)" "16 \<le> unat (m r)" using tiled_size [OF i(7)] e by auto
  have hb: "unat r = unat b + 24 + unat (m b)" using r(2) by (simp add: hnext_def)
  have s1: "unat (m r + m b) = unat (m r) + unat (m b)" using hr hb by (subst unat_add_small) (simp_all add: hnext_def)
  have s2: "unat (m r + m b - n) = unat (m r) + unat (m b) - unat n" using s1 n by (subst unat_sub) (simp_all add: word_le_nat_alt)
  have s3: "unat (m r - (m r + m b - n)) = unat n - unat (m b)" using s2 n by (subst unat_sub) (simp_all add: word_le_nat_alt)
  have s4: "unat (n - m b) = unat n - unat (m b)" using n by (subst unat_sub) (simp_all add: word_le_nat_alt)
  have pb: "p \<noteq> b" "p \<noteq> r" using new(4) b r(1) by auto
  have m'v: "m' b = n" "m' p = m r + m b - n" and m'x: "\<And>x. x \<noteq> b \<Longrightarrow> x \<noteq> p \<Longrightarrow> m' x = m x"
    using pb by (simp_all add: m')
  have db: "distinct bs" "p \<notin> set bs" using tiled_distinct [OF i(7)] new(4) i(6) by auto
  have "tiled m (unat a + 36) xs (unat b)" "tiled m (hnext m r) ys (unat a + unat (ha_cbSize ha))"
    using i(7) by (auto simp: bs tiled_append)
  moreover have "tiled m' s xs e' = tiled m s xs e'" "tiled m' s ys e' = tiled m s ys e'" for s e'
    using db by (auto simp: bs intro!: tiled_cong m'x)
  moreover have "hnext m' b = unat p" "hnext m' p = hnext m r" using new(1) m'v s2 hb n by (simp_all add: hnext_def)
  moreover have "4 dvd unat (m b)" "4 dvd unat (m r)" using i(7) by (auto simp: bs tiled_append)
  then have "4 dvd unat (m' p)" using m'v s2 n dvd by (simp add: dvd_diff_nat)
  ultimately have tl: "tiled m' (unat a + 36) (xs @ b # p # ys) (unat a + unat (ha_cbSize ha))"
    using m'v s2 n b16 dvd by (auto simp: tiled_append)
  have nF: "b \<notin> F" "r \<notin> U" using b r(1) i(4) by auto
  let ?F = "insert p (F - {r})"
  have "m' x = (m(p := m r + m b - n)) x" if "x \<in> ?F" for x using that nF pb by (auto simp: m')
  then have sz: "sizes u m' ?F" using t(2) sizes_cong [of ?F m' "m(p := m r + m b - n)" u] by simp
  have "bytes m' (F - {r}) = bytes m (F - {r})" using nF new(4) by (intro bytes_cong m'x) auto
  then have F': "bytes m' ?F = unat (m r) + unat (m b) - unat n + bytes m (F - {r})"
    using i(12) new(4) m'v s2 by simp
  have F: "bytes m F = unat (m r) + bytes m (F - {r})" using i(12) r(1) by (simp add: sum.remove)
  have "m r - (m r + m b - n) \<le> cbFree ha" using F i(9) s3 n by (simp add: word_le_nat_alt)
  then have c: "unat (cbFree ha - (m r - (m r + m b - n))) = bytes m' ?F"
    using F F' i(9) s3 n by (simp add: unat_sub)
  have U: "bytes m U = unat (m b) + bytes m (U - {b})" using i(13) b by (simp add: sum.remove)
  have "bytes m' (U - {b}) = bytes m (U - {b})" using new(4) by (intro bytes_cong m'x) auto
  then have U': "bytes m' U = bytes m U + (unat n - unat (m b))" using i(13) b m'v U n by (simp add: sum.remove [of U b])
  have "unat (cbUsed ha) + unat (n - m b) < 2 ^ LENGTH(32)"
    using anchor_inv_bytes [OF inv] i(8,10) s4 F n by simp
  then have w: "unat (cbUsed ha + (n - m b)) = bytes m' U" using U' i(10) s4 by (simp add: unat_add_small)
  have co: "coalesced m' ?F"
    unfolding coalesced_def
  proof (intro ballI)
    fix x y assume xy: "x \<in> ?F" "y \<in> ?F"
    have "x \<noteq> b" using xy(1) nF(1) pb(1) by auto
    then have hx: "hnext m' x = (if x = p then hnext m r else hnext m x)"
      using \<open>hnext m' p = hnext m r\<close> m'x [of x] by (simp add: hnext_def)
    have "hnext m x \<noteq> unat p" if "x \<in> F" "x \<noteq> r"
      using new(2,3,5) that hnext_gt [of x m] anchor_inv_neighbours [OF inv, of x r] r(1)
        anchor_inv_neighbours [OF inv, of r x] by (auto simp: word_less_nat_alt linorder_neq_iff)
    then show "hnext m' x \<noteq> unat y" using xy hx i(11) r(1) new(3) by (auto simp: coalesced_def)
  qed
  have "set (xs @ b # p # ys) = ?F \<union> U" using i(6) db bs nF by auto
  then have "anchor_inv m' a (ha\<lparr>pmbFree := t, pcoreFreeSize := u, cbUsed := cbUsed ha + (n - m b),
      cbFree := cbFree ha - (m r - (m r + m b - n))\<rparr>) ?F U {} (xs @ b # p # ys)"
    using i t(1) sz c w tl co new(4) by (auto simp: anchor_inv_def)
  then show ?thesis using bs by (intro exI [of _ "xs @ b # p # ys"]) simp
qed

section \<open>Reallocating\<close>

text \<open>What the heap looks like after one block of an anchor changed its size in place.\<close>

definition resized :: "res_heap \<Rightarrow> ulong \<Rightarrow> ulong \<Rightarrow> nat \<Rightarrow> res_heap \<Rightarrow> bool" where
  "resized h b n d h' \<longleftrightarrow> heap_inv h' \<and> (\<exists>sz. n \<le> sz \<and> heap_used h' = (heap_used h)(b \<mapsto> sz)) \<and>
     (\<forall>k. heap_room (k + d) h \<longrightarrow> heap_room k h')"

lemma resizedI:
  assumes inv: "heap_inv h" and i: "i < length (phaChain h)" "phaChain h ! i = (a, ha)" and b: "b \<in> used_blocks ha"
    and g: "anchor_good (hp_size h) (hp_sig h) (a, ha) bs"
    and ai: "anchor_inv m' a ha' F' (used_blocks ha) {} bs'" "length bs' \<le> length bs + d"
    and ha': "ha_cbSize ha' = ha_cbSize ha" "ha_ulSignature ha' = ha_ulSignature ha"
    and sg: "\<And>y. y \<in> set bs' \<Longrightarrow> sg' y = MEMBLOCK_SIGNATURE"
    and out: "\<And>y. \<not> within y (a, ha) \<Longrightarrow> m' y = hp_size h y \<and> sg' y = hp_sig h y"
    and keep: "\<And>y. y \<in> used_blocks ha \<Longrightarrow> y \<noteq> b \<Longrightarrow> m' y = hp_size h y"
    and h': "hp_size h' = m'" "hp_sig h' = sg'" "phaChain h' = (phaChain h)[i := (a, ha')]"
    and n: "n \<le> m' b"
  shows "resized h b n d h'"
proof -
  have doms: "free_blocks ha' = F'" "used_blocks ha' = used_blocks ha"
    using blocks_dom [OF anchor_invD(1) [OF ai(1)]] blocks_dom [OF anchor_invD(2) [OF ai(1)]] by simp_all
  have good: "anchor_good m' sg' (a, ha') bs'"
    unfolding anchor_good_def fst_conv snd_conv doms using ai(1) ha' g sg by (auto simp: anchor_good_def)
  note upd = heap_update [OF inv i ha'(1) good out h']
  have wb: "within b (a, ha)" using anchor_good_within(1) [OF g, of b] anchor_good_blocks [OF g] b by simp
  have "heap_used h' y = ((heap_used h)(b \<mapsto> m' b)) y" for y
  proof (cases "within y (a, ha)")
    case True
    then show ?thesis
      using upd(2) [OF _ True] heap_used_within [OF inv i(1), of y] i(2) doms(2) b keep [of y] by (cases "y = b") auto
  next
    case False
    then show ?thesis using upd(3) [OF _ False] wb by auto
  qed
  then have "heap_used h' = (heap_used h)(b \<mapsto> m' b)" ..
  moreover have "heap_room k h'" if "heap_room (k + d) h" for k
    using heap_room_update [OF that i(1) h'(3) _ good ai(2), of "hp_size h" "hp_sig h"] g i(2) by simp
  ultimately show ?thesis using upd(1) out n by (auto simp: resized_def)
qed

lemma rrealloc_shrink_ok:
  assumes inv: "heap_inv h" and room: "heap_room 1 h" and i: "i < length (phaChain h)" "phaChain h ! i = (a, ha)"
    and b: "b \<in> used_blocks ha" and n: "16 \<le> unat n" "n \<le> hp_size h b" and dvd: "4 dvd unat n"
  shows "\<exists>h'. rrealloc_shrink h i b n = Inr h' \<and> resized h b n 1 h'"
proof -
  let ?m = "hp_size h" and ?F = "free_blocks ha" and ?U = "used_blocks ha"
  obtain bs where g: "anchor_good ?m (hp_sig h) (a, ha) bs" using heap_inv_good [OF inv nth_mem [OF i(1)]] i(2) by auto
  then have ai: "anchor_inv ?m a ha ?F ?U {} bs" and sig: "\<forall>b\<in>set bs. hp_sig h b = MEMBLOCK_SIGNATURE"
    by (simp_all add: anchor_good_def)
  note ii = anchor_invD [OF ai]
  have bb: "b \<in> set bs" using b ii(6) by blast
  note w = anchor_good_within [OF g bb]
  have "unat n \<le> unat (?m b)" using n(2) by (simp add: word_le_nat_alt)
  then have "unat n + 40 < 2 ^ LENGTH(32)" using w ii(8) tiled_range [OF ii(7) bb] by simp
  then have le: "n + CB_MEMBLOCKFREE \<le> ?m b \<longleftrightarrow> unat n + 40 \<le> unat (?m b)"
    by (simp add: word_le_nat_alt unat_add_small CB_MEMBLOCKFREE_def)
  show ?thesis
  proof (cases "n + CB_MEMBLOCKFREE \<le> ?m b")
    case False
    have "heap_used h b = Some (?m b)" using heap_used_within [OF inv i(1), of b] w(1) i(2) b by simp
    then have "(heap_used h)(b \<mapsto> ?m b) = heap_used h" by (simp add: fun_upd_idem)
    moreover have "heap_room k h" if "heap_room (k + 1) h" for k using heap_room_mono [OF that, of k] by simp
    ultimately have "resized h b n 1 h"
      unfolding resized_def using inv n(2) by (intro conjI exI [of _ "?m b"] allI impI) simp_all
    then show ?thesis using False by (simp add: rrealloc_shrink_def Let_def)
  next
    case True
    let ?p = "b + CB_HDR + n" and ?ha = "ha\<lparr>cbUsed := cbUsed ha - (?m b - n)\<rparr>"
    let ?m1 = "?m(?p := ?m b - n - CB_HDR, b := n)" and ?sg = "(hp_sig h)(?p := MEMBLOCK_SIGNATURE)"
    have n40: "unat n + 40 \<le> unat (?m b)" using True le by blast
    obtain bs1 where s: "anchor_inv ?m1 a ?ha ?F ?U {?p} bs1" "length bs1 = Suc (length bs)" "?p \<notin> ?F \<union> ?U"
      using shrink_inv [OF ai b n40 n(1) dvd refl refl] by blast
    have "length bs1 < 17710" using heap_room_length [OF room nth_mem [OF i(1)]] g i(2) s(2) by force
    from resInsertFree_ok [OF s(1) this] obtain m' t u c F' bs' where f:
      "resInsertFree ?m1 ?ha ?p = Inr (m', ?ha\<lparr>pmbFree := t, pcoreFreeSize := u, cbFree := c\<rparr>)"
      "anchor_inv m' a (?ha\<lparr>pmbFree := t, pcoreFreeSize := u, cbFree := c\<rparr>) F' ?U {} bs'"
      "\<forall>x. x \<notin> insert ?p ?F \<longrightarrow> m' x = ?m1 x" "F' \<subseteq> insert ?p ?F" "length bs' \<le> length bs1"
      unfolding freed_def by blast
    let ?hb = "?ha\<lparr>pmbFree := t, pcoreFreeSize := u, cbFree := c\<rparr>"
    let ?h' = "put_anchor i ?hb (h\<lparr>hp_size := m', hp_sig := ?sg\<rparr>)"
    have h': "hp_size ?h' = m'" "hp_sig ?h' = ?sg" "phaChain ?h' = (phaChain h)[i := (a, ?hb)]"
      using i by (simp_all add: put_anchor_def)
    have nb: "b \<notin> ?F" using b ii(4) by blast
    moreover have "b \<noteq> ?p" using b s(3) by (metis UnI2)
    ultimately have "b \<notin> insert ?p ?F" by blast
    then have "m' b = ?m1 b" using f(3) by blast
    then have m'b: "m' b = n" by simp
    have old: "m' y = ?m y" if "y \<notin> insert ?p (insert b ?F)" for y using f(3) that by simp
    have "?p \<in> set bs1" using anchor_invD(6) [OF s(1)] by blast
    from tiled_range [OF anchor_invD(7) [OF s(1)] this] have wp: "within ?p (a, ha)"
      using hnext_gt [of ?p ?m1] by (simp add: within_def)
    have wF: "within y (a, ha)" if "y \<in> insert ?p (insert b ?F)" for y
      using that wp anchor_good_within(1) [OF g, of y] ii(6) bb by blast
    have "resized h b n 1 ?h'"
    proof (rule resizedI [OF inv i b g f(2) _ _ _ _ _ _ h'])
      show "length bs' \<le> length bs + 1" using f(5) s(2) by simp
      show "?sg y = MEMBLOCK_SIGNATURE" if "y \<in> set bs'" for y
        using that anchor_invD(6) [OF f(2)] f(4) sig ii(6) by auto
      show "m' y = ?m y \<and> ?sg y = hp_sig h y" if "\<not> within y (a, ha)" for y
        using old [of y] wF [of y] that by (metis fun_upd_other insertI1)
      show "m' y = ?m y" if "y \<in> ?U" "y \<noteq> b" for y using old [of y] that s(3) ii(4) by blast
    qed (simp_all add: m'b)
    moreover have "rrealloc_shrink h i b n = Inr ?h'"
      using True f(1) i(2) by (simp add: rrealloc_shrink_def Let_def)
    ultimately show ?thesis by blast
  qed
qed

lemma rrealloc_expand_ok:
  assumes inv: "heap_inv h" and room: "heap_room 0 h" and i: "i < length (phaChain h)" "phaChain h ! i = (a, ha)"
    and b: "b \<in> used_blocks ha" and node: "AVLGetWithParent (pmbFree ha) (PNEXT_BLOCK (hp_size h) b) = (node, parent)" "node \<noteq> Null"
    and dvd: "4 dvd unat n" and n: "hp_size h b < n" "hp_size h (ptr node) + hp_size h b + CB_HDR \<ge> n"
  shows "\<exists>h'. rrealloc_expand h i b n node parent = Inr (True, h') \<and> resized h b n 0 h'"
proof -
  let ?m = "hp_size h" and ?F = "free_blocks ha" and ?U = "used_blocks ha"
  obtain bs where g: "anchor_good ?m (hp_sig h) (a, ha) bs" using heap_inv_good [OF inv nth_mem [OF i(1)]] i(2) by auto
  then have ai: "anchor_inv ?m a ha ?F ?U {} bs" and sig: "\<forall>b\<in>set bs. hp_sig h b = MEMBLOCK_SIGNATURE"
    by (simp_all add: anchor_good_def)
  note ii = anchor_invD [OF ai]
  define r where "r = ptr node"
  note gp = blocks_get_with_parent [OF ii(1) node(1)]
  have rp: "r = PNEXT_BLOCK ?m b" "r \<in> ?F" using gp(1,2) node(2) by (simp_all add: r_def)
  have r: "hnext ?m b = unat r" using anchor_inv_next [OF ai, of b] b rp(1) by simp
  have "length bs < 17710" using heap_room_length [OF room nth_mem [OF i(1)]] g i(2) by force
  then have card: "card ?F < 17710" using anchor_inv_card [OF ai] by simp
  have bb: "b \<in> set bs" "r \<in> set bs" using b rp(2) ii(6) by blast+
  have wF: "within y (a, ha)" if "y \<in> set bs" for y using anchor_good_within(1) [OF g that] .
  have hr: "hnext ?m r < 2 ^ LENGTH(32)" using tiled_range [OF ii(7) bb(2)] ii(8) by simp
  have b16: "16 \<le> unat (?m b)" "16 \<le> unat (?m r)" using tiled_size [OF ii(7)] bb by auto
  have u1: "unat (?m r + ?m b) = unat (?m r) + unat (?m b)"
    using hr r by (subst unat_add_small) (simp_all add: hnext_def)
  then have u2: "unat (?m r + ?m b + CB_HDR) = unat (?m r) + unat (?m b) + 24"
    using hr r by (subst unat_add_small) (simp_all add: hnext_def CB_HDR_def)
  then have u3: "unat (?m r + ?m b + CB_HDR - CB_MEMBLOCKFREE) = unat (?m r) + unat (?m b) - 16"
    using b16 by (subst unat_sub) (simp_all add: word_le_nat_alt CB_MEMBLOCKFREE_def)
  have un: "unat (?m b) < unat n" "unat n \<le> unat (?m r) + unat (?m b) + 24"
    using n u2 by (simp_all add: word_le_nat_alt word_less_nat_alt r_def)
  show ?thesis
  proof (cases "?m r + ?m b + CB_HDR - CB_MEMBLOCKFREE \<ge> n")
    case True
    then have n16: "unat n + 16 \<le> unat (?m r) + unat (?m b)" using u3 b16 by (simp add: word_le_nat_alt)
    let ?p = "b + CB_HDR + n"
    note new = expand_split_new [OF ai b rp(2) r un(1) n16 refl]
    let ?F' = "insert ?p (?F - {r})" and ?m1 = "?m(?p := ?m r + ?m b - n)"
    let ?t = "avl_relink parent (?p < ptr parent) (avl_copy_core ?p ?p node) (pmbFree ha)"
    have t: "blocks ?t ?F'" using blocks_relink [OF ii(1) node(1)] node(2) new(5) rp(1) by simp
    obtain s where s: "resRemoveFromFreeSize ?m ha r = Inr (ha\<lparr>pcoreFreeSize := s\<rparr>)" "sizes s ?m (?F - {r})"
      using resRemoveFromFreeSize_ok [OF ii(3,12) card rp(2)] by blast
    have "?m1 y = ?m y" if "y \<in> ?F - {r}" for y using that new(4) by (metis DiffD1 UnI1 fun_upd_other)
    from sizes_cong [of "?F - {r}" ?m1 ?m s, OF this] have "sizes s ?m1 (?F - {r})" using s(2) by simp
    moreover have "card (?F - {r}) < 17710" using card ii(12) by (meson card_Diff1_le le_less_trans)
    ultimately obtain u where u: "resInsertIntoFreeSize ?m1 (ha\<lparr>pcoreFreeSize := s, pmbFree := ?t\<rparr>) ?p =
        Inr (ha\<lparr>pcoreFreeSize := s, pmbFree := ?t, pcoreFreeSize := u\<rparr>)" "sizes u ?m1 ?F'"
      using resInsertIntoFreeSize_ok [of "ha\<lparr>pcoreFreeSize := s, pmbFree := ?t\<rparr>" ?m1 "?F - {r}" ?p] ii(12) new(4) by auto
    let ?m' = "?m(?p := ?m r + ?m b - n, b := n)" and ?sg = "(hp_sig h)(?p := MEMBLOCK_SIGNATURE)"
    let ?hb = "ha\<lparr>pmbFree := ?t, pcoreFreeSize := u, cbUsed := cbUsed ha + (n - ?m b),
      cbFree := cbFree ha - (?m r - (?m r + ?m b - n))\<rparr>"
    obtain bs' where f: "anchor_inv ?m' a ?hb ?F' ?U {} bs'" "length bs' = length bs"
      using expand_split_inv [OF ai b rp(2) r un(1) n16 refl dvd t u(2) refl] by blast
    let ?h' = "put_anchor i ?hb (h\<lparr>hp_size := ?m', hp_sig := ?sg\<rparr>)"
    have h': "hp_size ?h' = ?m'" "hp_sig ?h' = ?sg" "phaChain ?h' = (phaChain h)[i := (a, ?hb)]"
      using i by (simp_all add: put_anchor_def)
    have wp: "within ?p (a, ha)" using wF [OF bb(1)] new(1,3) tiled_range [OF ii(7) bb(2)] by (simp add: within_def)
    have "resized h b n 0 ?h'"
    proof (rule resizedI [OF inv i b g f(1) _ _ _ _ _ _ h'])
      show "?sg y = MEMBLOCK_SIGNATURE" if "y \<in> set bs'" for y
        using that anchor_invD(6) [OF f(1)] sig ii(6) by auto
      show "?m' y = ?m y \<and> ?sg y = hp_sig h y" if "\<not> within y (a, ha)" for y
        using that wp wF [OF bb(1)] by auto
      show "?m' y = ?m y" if "y \<in> ?U" "y \<noteq> b" for y using that new(4) by auto
    qed (use f(2) in simp_all)
    moreover have "CB_HDR + n \<noteq> 0"
    proof
      assume z: "CB_HDR + n = 0"
      have "?p = b + (CB_HDR + n)" by (rule add.assoc)
      then have "?p = b" unfolding z add_0_right .
      then have "unat ?p = unat b" by (rule arg_cong)
      then show False using new(1) by linarith
    qed
    ultimately have "rrealloc_expand h i b n node parent = Inr (True, ?h')" "resized h b n 0 ?h'"
      using True s(1) u(1) i(2) by (simp_all add: rrealloc_expand_def Let_def r_def [symmetric])
    then show ?thesis by blast
  next
    case False
    obtain t where t: "AVLRemove (pmbFree ha) r = Inr (t, Some r)" "blocks t (?F - {r})"
      using blocks_remove [OF ii(1) card, of r] rp(2) by (auto simp: id_map_def)
    obtain s where s: "resRemoveFromFreeSize ?m (ha\<lparr>pmbFree := t\<rparr>) r = Inr (ha\<lparr>pmbFree := t, pcoreFreeSize := s\<rparr>)"
      "sizes s ?m (?F - {r})"
      using resRemoveFromFreeSize_ok [of "ha\<lparr>pmbFree := t\<rparr>" ?m ?F r] ii(3,12) card rp(2) by auto
    let ?m' = "?m(b := ?m b + (?m r + CB_HDR))"
    let ?hb = "ha\<lparr>pmbFree := t, pcoreFreeSize := s, cbFree := cbFree ha - ?m r, cbUsed := cbUsed ha + (?m r + CB_HDR)\<rparr>"
    obtain bs' where f: "anchor_inv ?m' a ?hb (?F - {r}) ?U {} bs'" "length bs' \<le> length bs"
      "unat (?m' b) = unat (?m b) + 24 + unat (?m r)"
      using expand_whole_inv [OF ai b rp(2) r t(2) s(2) refl] by blast
    let ?h' = "put_anchor i ?hb (h\<lparr>hp_size := ?m'\<rparr>)"
    have h': "hp_size ?h' = ?m'" "hp_sig ?h' = hp_sig h" "phaChain ?h' = (phaChain h)[i := (a, ?hb)]"
      using i by (simp_all add: put_anchor_def)
    have "resized h b n 0 ?h'"
    proof (rule resizedI [OF inv i b g f(1) _ _ _ _ _ _ h'])
      show "hp_sig h y = MEMBLOCK_SIGNATURE" if "y \<in> set bs'" for y
        using that anchor_invD(6) [OF f(1)] sig ii(6) by auto
      show "?m' y = ?m y \<and> hp_sig h y = hp_sig h y" if "\<not> within y (a, ha)" for y
        using that wF [OF bb(1)] by auto
      show "n \<le> ?m' b" using un(2) f(3) by (simp only: word_le_nat_alt)
    qed (use f(2) in simp_all)
    moreover have "rrealloc_expand h i b n node parent = Inr (True, ?h')"
      using False t(1) s(1) i(2) by (simp add: rrealloc_expand_def Let_def r_def [symmetric])
    ultimately show ?thesis by blast
  qed
qed

text \<open>The result of a reallocation: the block at \<open>pv\<close> gives way to one of at least \<open>n\<close> bytes, in the same place
  or where there was none; when null is returned every block is as it was.\<close>

definition reallocated :: "res_heap \<Rightarrow> ulong \<Rightarrow> ulong \<Rightarrow> ulong option \<Rightarrow> res_heap \<Rightarrow> bool" where
  "reallocated h pv n q h' \<longleftrightarrow> heap_inv h' \<and>
     (case q of
        None \<Rightarrow> heap_used h' = heap_used h
      | Some p \<Rightarrow> (p = pv \<or> heap_used h (p - CB_HDR) = None) \<and>
          (\<exists>sz. n \<le> sz \<and> heap_used h' = (heap_used h)(pv - CB_HDR := None, p - CB_HDR \<mapsto> sz)))"

lemma resized_reallocated: "resized h (pv - CB_HDR) n' d h' \<Longrightarrow> n \<le> n' \<Longrightarrow> reallocated h pv n (Some pv) h'"
  unfolding resized_def reallocated_def by (auto intro: order_trans)

lemma round_up_4:
  fixes k :: nat
  assumes "r = max (k + 3 - (k + 3) mod 4) 16" "k + 4 \<le> 2 ^ 32"
  shows "r + 4 \<le> 2 ^ 32" "max (r + 3 - (r + 3) mod 4) 16 = r"
proof -
  define q where "q = max ((k + 3) div 4) 4"
  have r: "r = 4 * q" using assms(1) by (simp add: minus_mod_eq_mult_div q_def max_def)
  have "4 * ((k + 3) div 4) \<le> k + 3" by simp
  then have "4 * q < 2 ^ 32" using assms(2) by (auto simp: q_def max_def)
  then show "r + 4 \<le> 2 ^ 32" unfolding r by simp
  have "(4 * q + 3) mod 4 = 3" "16 \<le> 4 * q" by (simp_all add: q_def mod_mult_self4)
  then show "max (r + 3 - (r + 3) mod 4) 16 = r" unfolding r by simp
qed

lemma request_ok_rounded:
  assumes "request_ok n"
  shows "request_ok (min_user_size n)"
proof -
  have n: "unat n + 4 \<le> 2 ^ 32" using assms by (simp add: request_ok_def)
  note r = round_up_4 [OF unat_min_user_size [OF n] n]
  have "unat (min_user_size (min_user_size n)) = unat (min_user_size n)"
    unfolding unat_min_user_size [OF r(1)] by (rule r(2))
  then have "min_user_size (min_user_size n) = min_user_size n" by (rule unsigned_word_eqI)
  then show ?thesis using assms r(1) by (simp add: request_ok_def)
qed

lemma rrealloc_ok:
  assumes inv: "heap_inv h" and room: "heap_room 1 h" and vm: "vm_fresh vm h" and n: "request_ok n"
  shows "\<exists>q h'. rrealloc vm h pv n = Inr (q, h') \<and> reallocated h pv n q h'"
proof (cases "resFindUsedBlock h pv")
  case None
  then have un: "heap_used h (pv - CB_HDR) = None" using resFindUsedBlock_None [OF inv] by blast
  show ?thesis
  proof (cases "pv = 0")
    case True
    obtain q h' where r: "rmalloc vm h n = Inr (q, h')" "allocated h n q h'"
      using rmalloc_ok [OF inv room vm n] by blast
    have "(heap_used h)(pv - CB_HDR := None) = heap_used h" using un by (simp add: fun_upd_idem)
    then have "reallocated h pv n q h'" using r(2) by (cases q) (auto simp: reallocated_def allocated_def)
    then show ?thesis using r(1) None True by (auto simp: rrealloc_def)
  next
    case False
    then show ?thesis using None inv by (simp add: rrealloc_def reallocated_def)
  qed
next
  case (Some x)
  obtain i where x: "x = (i, pv - CB_HDR)" using resFindUsedBlock_ok [OF inv, of pv "fst x" "snd x"] Some by (cases x) auto
  let ?b = "pv - CB_HDR" and ?n = "min_user_size n"
  have i: "i < length (phaChain h)" "?b \<in> used_blocks (snd (phaChain h ! i))"
    using resFindUsedBlock_ok [OF inv, of pv i ?b] Some x by blast+
  obtain a ha where y: "phaChain h ! i = (a, ha)" by (cases "phaChain h ! i")
  have b: "?b \<in> used_blocks ha" using i(2) y by simp
  have nn: "n \<le> ?n" "16 \<le> unat ?n" "4 dvd unat ?n" using min_user_size_ge [of n] n by (simp_all add: request_ok_def)
  obtain node parent where nd: "AVLGetWithParent (pmbFree ha) (PNEXT_BLOCK (hp_size h) ?b) = (node, parent)"
    by (cases "AVLGetWithParent (pmbFree ha) (PNEXT_BLOCK (hp_size h) ?b)")
  let ?m = "hp_size h"
  consider (shrink) "?n \<le> ?m ?b"
    | (expand) "?m ?b < ?n" "node \<noteq> Null" "?m (ptr node) + ?m ?b + CB_HDR \<ge> ?n"
    | (move) "?m ?b < ?n" "\<not> (node \<noteq> Null \<and> ?m (ptr node) + ?m ?b + CB_HDR \<ge> ?n)"
    by fastforce
  then show ?thesis
  proof cases
    case shrink
    obtain h' where "rrealloc_shrink h i ?b ?n = Inr h'" "resized h ?b ?n 1 h'"
      using rrealloc_shrink_ok [OF inv room i(1) y b nn(2) shrink nn(3)] by blast
    then show ?thesis
      using shrink Some x resized_reallocated [OF _ nn(1)] by (auto simp: rrealloc_def Let_def)
  next
    case expand
    obtain h' where "rrealloc_expand h i ?b ?n node parent = Inr (True, h')" "resized h ?b ?n 0 h'"
      using rrealloc_expand_ok [OF inv heap_room_mono [OF room] i(1) y b nd expand(2) nn(3) expand(1,3)] by auto
    then show ?thesis
      using expand Some x y nd resized_reallocated [OF _ nn(1)] by (auto simp: rrealloc_def Let_def)
  next
    case move
    have "request_ok ?n" by (rule request_ok_rounded [OF n])
    then obtain q h1 where r: "rmalloc vm h ?n = Inr (q, h1)" "allocated h ?n q h1"
      using rmalloc_ok [OF inv room vm] by blast
    show ?thesis
    proof (cases q)
      case None
      then show ?thesis
        using r move Some x y nd by (auto simp: rrealloc_def Let_def reallocated_def allocated_def)
    next
      case (Some p)
      then obtain sz where a: "heap_inv h1" "heap_room 0 h1" "heap_used h (p - CB_HDR) = None" "?n \<le> sz"
        "heap_used h1 = (heap_used h)(p - CB_HDR \<mapsto> sz)"
        using r(2) room by (auto simp: allocated_def)
      obtain h2 where f: "rfree h1 pv = Inr h2" "heap_inv h2" "heap_used h2 = (heap_used h1)(?b := None)"
        using rfree_ok [OF a(1,2)] by blast
      have "heap_used h ?b \<noteq> None" using \<open>resFindUsedBlock h pv = Some x\<close> resFindUsedBlock_None [OF inv, of pv] by simp
      then have "p - CB_HDR \<noteq> ?b" using a(3) by auto
      then have "reallocated h pv n (Some p) h2"
        using f a nn(1) by (auto simp: reallocated_def fun_upd_twist intro: order_trans)
      then show ?thesis
        using r f(1) move \<open>resFindUsedBlock h pv = Some x\<close> Some x y nd by (auto simp: rrealloc_def Let_def)
    qed
  qed
qed

end
