(* ===== verification/ResHeapReach.thy ===== *)
theory ResHeapReach
  imports ResHeapRealloc
begin

text \<open>
  The heap under any sequence of calls: a step relation over \<open>rmalloc\<close>, \<open>rrealloc\<close>, \<open>rfree\<close> and
  \<open>_res_heapmin\<close>, the heaps reached from \<open>resHeapInit\<close>, and what holds in all of them.
\<close>

section \<open>Giving anchors back\<close>

lemma anchor_unused:
  assumes "anchor_good m sg x bs" "cbUsed (snd x) = 0"
  shows "used_blocks (snd x) = {}"
proof -
  have i: "anchor_inv m (fst x) (snd x) (free_blocks (snd x)) (used_blocks (snd x)) {} bs"
    using assms(1) by (simp add: anchor_good_def)
  have "bytes m (used_blocks (snd x)) = 0" using anchor_invD(10) [OF i] assms(2) by simp
  then have "unat (m b) = 0" if "b \<in> used_blocks (snd x)" for b
    using that anchor_invD(13) [OF i] by (simp add: sum_eq_0_iff)
  moreover have "16 \<le> unat (m b)" if "b \<in> used_blocks (snd x)" for b
    using anchor_good_within(3) [OF assms(1)] anchor_good_blocks [OF assms(1)] that by blast
  ultimately show ?thesis by fastforce
qed

lemma bex_filter: "(\<And>x. x \<in> set xs \<Longrightarrow> Q x \<Longrightarrow> P x) \<Longrightarrow> (\<exists>x\<in>set (filter P xs). Q x) = (\<exists>x\<in>set xs. Q x)"
  by auto

lemma res_heapmin_ok:
  assumes inv: "heap_inv h" and r: "res_heapmin h = (given, h')"
  shows "heap_inv h'" "heap_used h' = heap_used h" "heap_room k h \<Longrightarrow> heap_room k h'"
    "set given = fst ` (set (phaChain h) - set (phaChain h'))" "\<And>x. x \<in> set (phaChain h) - set (phaChain h') \<Longrightarrow> cbUsed (snd x) = 0"
proof -
  consider "phaChain h = []" | a rest where "phaChain h = a # rest" by (cases "phaChain h") auto
  then have "heap_inv h' \<and> heap_used h' = heap_used h \<and> (heap_room k h \<longrightarrow> heap_room k h') \<and>
    set given = fst ` (set (phaChain h) - set (phaChain h')) \<and> (\<forall>x\<in>set (phaChain h) - set (phaChain h'). cbUsed (snd x) = 0)"
  proof cases
    case 1
    then show ?thesis using r inv by (auto simp: res_heapmin_def)
  next
    case (2 a rest)
    then have h': "h' = h\<lparr>phaChain := a # filter (\<lambda>x. cbUsed (snd x) \<noteq> 0) rest\<rparr>"
      and f: "given = map fst (filter (\<lambda>x. cbUsed (snd x) = 0) (rev rest))"
      using r by (simp_all add: res_heapmin_def)
    have s: "sorted_wrt apart (a # rest)" using inv 2 by (simp add: heap_inv_def)
    have "a \<notin> set rest"
    proof
      assume "a \<in> set rest"
      then have "apart a a" using s by simp
      moreover obtain bs where "anchor_good (hp_size h) (hp_sig h) a bs" using heap_inv_good [OF inv, of a] 2 by auto
      then have "36 \<le> unat (ha_cbSize (snd a))"
        using tiled_le [OF anchor_invD(7)] by (force simp: anchor_good_def)
      ultimately show False by (auto simp: apart_def)
    qed
    moreover have "heap_inv h'"
      unfolding heap_inv_def h' using inv s 2 by (auto simp: heap_inv_def sorted_wrt_filter)
    moreover have "heap_used h' b = heap_used h b" for b
    proof -
      have "cbUsed (snd x) \<noteq> 0" if x: "x \<in> set rest" "b \<in> used_blocks (snd x)" for x
      proof
        assume z: "cbUsed (snd x) = 0"
        have "x \<in> set (phaChain h)" using x(1) 2 by simp
        from heap_inv_good [OF inv this] obtain bs where "anchor_good (hp_size h) (hp_sig h) x bs" by blast
        then have "used_blocks (snd x) = {}" using z by (rule anchor_unused)
        then show False using x(2) by blast
      qed
      then have "(\<exists>x\<in>set (filter (\<lambda>x. cbUsed (snd x) \<noteq> 0) rest). b \<in> used_blocks (snd x)) = (\<exists>x\<in>set rest. b \<in> used_blocks (snd x))"
        by (intro bex_filter) blast
      moreover have "phaChain h' = a # filter (\<lambda>x. cbUsed (snd x) \<noteq> 0) rest" "hp_size h' = hp_size h" by (simp_all add: h')
      ultimately show ?thesis by (simp only: heap_used_eq 2 list.set bex_simps)
    qed
    moreover have "heap_room k h \<longrightarrow> heap_room k h'" using 2 by (auto simp: heap_room_def h' list_all_iff)
    ultimately show ?thesis using 2 f h' by auto
  qed
  then show "heap_inv h'" "heap_used h' = heap_used h" "heap_room k h \<Longrightarrow> heap_room k h'"
    "set given = fst ` (set (phaChain h) - set (phaChain h'))" "\<And>x. x \<in> set (phaChain h) - set (phaChain h') \<Longrightarrow> cbUsed (snd x) = 0"
    by blast+
qed

section \<open>Steps\<close>

datatype heap_call =
    Malloc "ulong \<Rightarrow> ulong option" ulong
  | Realloc "ulong \<Rightarrow> ulong option" ulong ulong
  | Free ulong
  | Heapmin

inductive heap_step :: "res_heap \<Rightarrow> heap_call \<Rightarrow> res_heap \<Rightarrow> bool" where
  malloc: "vm_fresh vm h \<Longrightarrow> request_ok n \<Longrightarrow> rmalloc vm h n = Inr (q, h') \<Longrightarrow> heap_step h (Malloc vm n) h'"
| realloc: "vm_fresh vm h \<Longrightarrow> request_ok n \<Longrightarrow> rrealloc vm h pv n = Inr (q, h') \<Longrightarrow> heap_step h (Realloc vm pv n) h'"
| free: "rfree h pv = Inr h' \<Longrightarrow> heap_step h (Free pv) h'"
| heapmin: "res_heapmin h = (given, h') \<Longrightarrow> heap_step h Heapmin h'"

inductive_cases heap_step_mallocE: "heap_step h (Malloc vm n) h'"
inductive_cases heap_step_reallocE: "heap_step h (Realloc vm pv n) h'"
inductive_simps heap_step_free_iff: "heap_step h (Free pv) h'"
inductive_simps heap_step_heapmin_iff: "heap_step h Heapmin h'"

text \<open>The heaps reached from the start, as long as every anchor has room in its trees.\<close>

inductive heap_reachable :: "res_heap \<Rightarrow> bool" where
  init: "vm (max BLOCKSIZE ini) = Some a \<Longrightarrow> 65536 \<le> unat a \<Longrightarrow> 4 dvd unat a \<Longrightarrow>
    unat a + unat (max BLOCKSIZE ini) < 2 ^ 32 \<Longrightarrow> 4 dvd unat ini \<Longrightarrow>
    resHeapInit vm ini mx h = Inr (rc, h') \<Longrightarrow> heap_reachable h'"
| step: "heap_reachable h \<Longrightarrow> heap_room 1 h \<Longrightarrow> heap_step h c h' \<Longrightarrow> heap_reachable h'"

lemma heap_step_inv: "heap_step h c h' \<Longrightarrow> heap_inv h \<Longrightarrow> heap_room 1 h \<Longrightarrow> heap_inv h'"
proof (induction rule: heap_step.induct)
  case (malloc vm h n q h')
  then show ?case using rmalloc_ok [of h vm n] by (auto simp: allocated_def)
next
  case (realloc vm h n pv q h')
  then show ?case using rrealloc_ok [of h vm n pv] by (auto simp: reallocated_def)
next
  case (free h pv h')
  then show ?case using rfree_ok [of h pv] heap_room_mono [of 1 h 0] by auto
next
  case (heapmin h given h')
  then show ?case using res_heapmin_ok(1) by blast
qed

lemma heap_reachable_inv: "heap_reachable h \<Longrightarrow> heap_inv h"
proof (induction rule: heap_reachable.induct)
  case (init vm ini a mx h rc h')
  then show ?case using resHeapInit_ok [of vm ini a mx h] by auto
next
  case (step h c h')
  then show ?case using heap_step_inv by blast
qed

text \<open>Every call with a permitted argument has a step: none of them faults.\<close>

lemma heap_step_total:
  assumes "heap_inv h" "heap_room 1 h"
  shows "vm_fresh vm h \<Longrightarrow> request_ok n \<Longrightarrow> \<exists>h'. heap_step h (Malloc vm n) h'"
    "vm_fresh vm h \<Longrightarrow> request_ok n \<Longrightarrow> \<exists>h'. heap_step h (Realloc vm pv n) h'"
    "\<exists>h'. heap_step h (Free pv) h'" "\<exists>h'. heap_step h Heapmin h'"
  using rmalloc_ok [OF assms, of vm n] rrealloc_ok [OF assms, of vm n pv]
    rfree_ok [OF assms(1) heap_room_mono [OF assms(2)], of pv] heap_step.intros
  by (simp_all add: heap_step_free_iff heap_step_heapmin_iff) (blast+ | metis prod.exhaust)+

end
