(* ===== verification/ResCheck.thy ===== *)
theory ResCheck
  imports ResHeapReach
begin

text \<open>
  The statistics and the integrity check of the resident heap: \<open>_res_state\<close>, \<open>_res_dump_subheaps\<close>,
  \<open>_res_heap_check\<close> with \<open>resCheckAVLTree\<close> and \<open>resCheckAVLTreeFree\<close>. A failed check executes a breakpoint,
  the fault \<open>Int3\<close>. The chain of anchors is a list here, so the tests of \<open>pPrev\<close> and of \<open>phaLast\<close> have no
  counterpart.
\<close>

section \<open>Statistics\<close>

record heapstate =
  cbHeapSize :: ulong
  cbHeapFree :: ulong
  cbHeapUsed :: ulong
  cBlocksUsed :: ulong
  cBlocksFree :: ulong

abbreviation enum_zero :: "ulong avlenumdata" where
  "enum_zero \<equiv> \<lparr>fFromLeft = False, aEntries = []\<rparr>"

text \<open>The loop that counts the nodes of a tree through its enumeration.\<close>

definition res_count :: "ulong avl \<Rightarrow> ulong \<Rightarrow> ulong res" where
  "res_count t c =
     bind_res (avl_enum_loop (avl_size t) (AVLBeginEnumTree t enum_zero True))
       (\<lambda>ns. Inr (fold (\<lambda>n c. c + 1) ns c))"

fun res_state_loop :: "(ulong \<times> heap_anchor) list \<Rightarrow> heapstate \<Rightarrow> heapstate res" where
  "res_state_loop [] st = Inr st"
| "res_state_loop ((a, pha) # rest) st =
    bind_res (res_count (pmbFree pha) (cBlocksFree st)) (\<lambda>cf.
    bind_res (res_count (pmbUsed pha) (cBlocksUsed st)) (\<lambda>cu.
      res_state_loop rest
        \<lparr>cbHeapSize = cbHeapSize st + ha_cbSize pha, cbHeapFree = cbHeapFree st + cbFree pha,
         cbHeapUsed = cbHeapUsed st + cbUsed pha, cBlocksUsed = cu, cBlocksFree = cf\<rparr>))"

definition res_state :: "res_heap \<Rightarrow> heapstate res" where
  "res_state h = res_state_loop (phaChain h)
     \<lparr>cbHeapSize = 0, cbHeapFree = 0, cbHeapUsed = 0, cBlocksUsed = 0, cBlocksFree = 0\<rparr>"

text \<open>\<open>SUBHEAPS_CALLBACK_PARAM\<close> is the pair of \<open>cb\<close> and \<open>c\<close>.\<close>

definition res_dump_subheaps_callback :: "(ulong \<Rightarrow> ulong) \<Rightarrow> ulong avl \<Rightarrow> ulong \<times> ulong \<Rightarrow> ulong \<times> ulong \<times> ulong" where
  "res_dump_subheaps_callback m pmb pParam = (case pParam of (cb, c) \<Rightarrow> (0, cb + m (ptr pmb), c + 1))"

text \<open>The totals \<open>cbTotalFree\<close>, \<open>cTotalFree\<close>, \<open>cbTotalUsed\<close>, \<open>cTotalUsed\<close> that are printed.\<close>

fun res_dump_subheaps :: "(ulong \<Rightarrow> ulong) \<Rightarrow> (ulong \<times> heap_anchor) list \<Rightarrow> ulong \<times> ulong \<times> ulong \<times> ulong \<Rightarrow>
    (ulong \<times> ulong \<times> ulong \<times> ulong) res" where
  "res_dump_subheaps m [] tot = Inr tot"
| "res_dump_subheaps m ((a, pha) # rest) (cbTotalFree, cTotalFree, cbTotalUsed, cTotalUsed) =
    bind_res (AVLDoWithAll (pmbUsed pha) True (res_dump_subheaps_callback m) (0, 0)) (\<lambda>(_, cbu, cu).
    bind_res (AVLDoWithAll (pmbFree pha) True (res_dump_subheaps_callback m) (0, 0)) (\<lambda>(_, cbf, cf).
      res_dump_subheaps m rest (cbTotalFree + cbf, cTotalFree + cf, cbTotalUsed + cbu, cTotalUsed + cu)))"

section \<open>The trees\<close>

fun resCheckAVLTree :: "ulong avl \<Rightarrow> int res" where
  "resCheckAVLTree Null = Inr 0"
| "resCheckAVLTree (Node pmb k l r v) =
    (if k \<noteq> pmb then Inl Int3
     else if k mod ALIGNMENT \<noteq> 0 then Inl Int3
     else if l \<noteq> Null \<and> (ptr l < 0x10000 \<or> k \<le> ptr l) then Inl Int3
     else if r \<noteq> Null \<and> (ptr r < 0x10000 \<or> k \<ge> ptr r) then Inl Int3
     else
       bind_res (if l \<noteq> Null then resCheckAVLTree l else Inr 0) (\<lambda>rc.
       if rc \<noteq> 0 then Inr (-1)
       else
         bind_res (if r \<noteq> Null then resCheckAVLTree r else Inr 0) (\<lambda>rc.
         if rc \<noteq> 0 then Inr (-1) else Inr 0)))"

text \<open>The walk along \<open>pmbfNext\<close>.\<close>

fun res_check_chain :: "(ulong \<Rightarrow> ulong) \<Rightarrow> ulong \<Rightarrow> ulong \<Rightarrow> ulong list \<Rightarrow> unit res" where
  "res_check_chain m key pmbf [] = Inr ()"
| "res_check_chain m key pmbf (q # qs) =
    (if q < 0x10000 then Inl Int3
     else if m pmbf \<noteq> key then Inl Int3
     else res_check_chain m key q qs)"

text \<open>A node of the free-size tree lies behind the node of the block and its signature.\<close>

definition freesize_node :: "freechain avl \<Rightarrow> ulong" where
  "freesize_node n = fst (ptr n) + CB_HDR - 4"

fun resCheckAVLTreeFree :: "(ulong \<Rightarrow> ulong) \<Rightarrow> freechain avl \<Rightarrow> int res" where
  "resCheckAVLTreeFree m Null = Inr 0"
| "resCheckAVLTreeFree m (Node c k l r v) =
    (if k < 4 \<or> k mod ALIGNMENT \<noteq> 0 then Inl Int3
     else if l \<noteq> Null \<and> (freesize_node l < 0x10000 \<or> k \<le> Key l) then Inl Int3
     else if r \<noteq> Null \<and> (freesize_node r < 0x10000 \<or> k \<ge> Key r) then Inl Int3
     else
       bind_res (res_check_chain m k (fst c) (snd c)) (\<lambda>_.
       bind_res (if l \<noteq> Null then resCheckAVLTreeFree m l else Inr 0) (\<lambda>rc.
       if rc \<noteq> 0 then Inr (-1)
       else
         bind_res (if r \<noteq> Null then resCheckAVLTreeFree m r else Inr 0) (\<lambda>rc.
         if rc \<noteq> 0 then Inr (-1) else Inr 0))))"

section \<open>The blocks\<close>

text \<open>The address of an enumerated node, 0 for the null pointer.\<close>

definition node_addr :: "ulong avl \<Rightarrow> ulong" where
  "node_addr n = (case n of Null \<Rightarrow> 0 | Node p _ _ _ _ \<Rightarrow> p)"

record heap_walk =
  w_free :: ulong
  w_freeNext :: ulong
  FreeEnumData :: "ulong avlenumdata"
  w_used :: ulong
  w_usedNext :: ulong
  UsedEnumData :: "ulong avlenumdata"
  w_last :: ulong
  w_cbFree :: ulong
  w_cbUsed :: ulong
  w_cbSize :: ulong

text \<open>The six cases without a hole between the block and the next.\<close>

definition no_hole :: "(ulong \<Rightarrow> ulong) \<Rightarrow> heap_walk \<Rightarrow> bool" where
  "no_hole m w \<longleftrightarrow>
     w_used w \<noteq> 0 \<and> PNEXT_BLOCK m (w_used w) = w_usedNext w \<or>
     w_used w \<noteq> 0 \<and> PNEXT_BLOCK m (w_used w) = w_free w \<or>
     w_free w \<noteq> 0 \<and> PNEXT_BLOCK m (w_free w) = w_freeNext w \<or>
     w_free w \<noteq> 0 \<and> PNEXT_BLOCK m (w_free w) = w_used w \<or>
     w_used w \<noteq> 0 \<and> w_free w = 0 \<and> w_usedNext w = 0 \<or>
     w_free w \<noteq> 0 \<and> w_used w = 0 \<and> w_freeNext w = 0"

text \<open>\<open>pmbFree\<close> is on the list of the blocks of its size.\<close>

definition in_freesize :: "(ulong \<Rightarrow> ulong) \<Rightarrow> freechain avl \<Rightarrow> ulong \<Rightarrow> bool" where
  "in_freesize m t b =
     (case AVLGet t (m b) of Null \<Rightarrow> False | Node (p, ps) _ _ _ _ \<Rightarrow> b \<in> set (p # ps))"

definition res_walk_step :: "(ulong \<Rightarrow> ulong) \<Rightarrow> (ulong \<Rightarrow> ulong) \<Rightarrow> freechain avl \<Rightarrow> heap_walk \<Rightarrow> heap_walk res" where
  "res_walk_step m sg t w =
     (if \<not> no_hole m w then Inl Int3
      else if w_used w \<noteq> 0 \<and> (w_free w = 0 \<or> w_used w < w_free w) then
        if sg (w_used w) \<noteq> MEMBLOCK_SIGNATURE then Inl Int3
        else if m (w_used w) < CB_MEMBLOCKFREE - CB_HDR then Inl Int3
        else
          bind_res (AVLGetNextNode (UsedEnumData w)) (\<lambda>(n, e).
            Inr (w\<lparr>w_used := w_usedNext w, w_usedNext := node_addr n, UsedEnumData := e, w_last := w_used w,
              w_cbUsed := w_cbUsed w + m (w_used w), w_cbSize := w_cbSize w + (CB_HDR + m (w_used w))\<rparr>))
      else
        if \<not> in_freesize m t (w_free w) then Inl Int3
        else if sg (w_free w) \<noteq> MEMBLOCK_SIGNATURE then Inl Int3
        else if m (w_free w) < CB_MEMBLOCKFREE - CB_HDR then Inl Int3
        else
          bind_res (AVLGetNextNode (FreeEnumData w)) (\<lambda>(n, e).
            Inr (w\<lparr>w_free := w_freeNext w, w_freeNext := node_addr n, FreeEnumData := e, w_last := w_free w,
              w_cbFree := w_cbFree w + m (w_free w), w_cbSize := w_cbSize w + (CB_HDR + m (w_free w))\<rparr>)))"

text \<open>The loop over both enumerations; \<open>OutOfBounds\<close> stands for more rounds than \<open>fuel\<close>.\<close>

fun res_walk :: "nat \<Rightarrow> (ulong \<Rightarrow> ulong) \<Rightarrow> (ulong \<Rightarrow> ulong) \<Rightarrow> freechain avl \<Rightarrow> heap_walk \<Rightarrow> heap_walk res" where
  "res_walk 0 m sg t w = (if w_free w \<noteq> 0 \<or> w_used w \<noteq> 0 then Inl OutOfBounds else Inr w)"
| "res_walk (Suc fuel) m sg t w =
    (if w_free w \<noteq> 0 \<or> w_used w \<noteq> 0 then bind_res (res_walk_step m sg t w) (res_walk fuel m sg t) else Inr w)"

definition res_walk_start :: "heap_anchor \<Rightarrow> heap_walk res" where
  "res_walk_start pha =
     bind_res (AVLBeginEnumTree (pmbFree pha) enum_zero True) (\<lambda>(f, ef).
     bind_res (AVLGetNextNode ef) (\<lambda>(f', ef).
     bind_res (AVLBeginEnumTree (pmbUsed pha) enum_zero True) (\<lambda>(u, eu).
     bind_res (AVLGetNextNode eu) (\<lambda>(u', eu).
       Inr \<lparr>w_free = node_addr f, w_freeNext = node_addr f', FreeEnumData = ef, w_used = node_addr u,
         w_usedNext = node_addr u', UsedEnumData = eu, w_last = 0, w_cbFree = 0, w_cbUsed = 0,
         w_cbSize = CB_HEAPANCHOR\<rparr>))))"

definition MINNOTNULL :: "ulong \<Rightarrow> ulong \<Rightarrow> ulong" where
  "MINNOTNULL a b = (if a \<noteq> 0 \<and> b \<noteq> 0 then (if a < b then a else b) else if a \<noteq> 0 then a else b)"

definition res_check_anchor :: "(ulong \<Rightarrow> ulong) \<Rightarrow> (ulong \<Rightarrow> ulong) \<Rightarrow> ulong \<times> heap_anchor \<Rightarrow> unit res" where
  "res_check_anchor m sg x =
     (let a = fst x; pha = snd x in
      bind_res (res_walk_start pha) (\<lambda>w.
      if ha_ulSignature pha \<noteq> HEAPANCHOR_SIGNATURE then Inl Int3
      else if cbFree pha + cbUsed pha \<ge> ha_cbSize pha \<or> ha_cbSize pha = 0 then Inl Int3
      else if MINNOTNULL (w_free w) (w_used w) \<noteq> a + CB_HEAPANCHOR then Inl Int3
      else
        bind_res (resCheckAVLTree (pmbUsed pha)) (\<lambda>rc. if rc \<noteq> 0 then Inl Int3
        else bind_res (resCheckAVLTree (pmbFree pha)) (\<lambda>rc. if rc \<noteq> 0 then Inl Int3
        else bind_res (resCheckAVLTreeFree m (pcoreFreeSize pha)) (\<lambda>rc. if rc \<noteq> 0 then Inl Int3
        else
          bind_res (res_walk (avl_size (pmbFree pha) + avl_size (pmbUsed pha)) m sg (pcoreFreeSize pha) w) (\<lambda>w.
            if w_cbFree w \<noteq> cbFree pha then Inl Int3
            else if w_cbUsed w \<noteq> cbUsed pha then Inl Int3
            else if w_cbSize w \<noteq> ha_cbSize pha then Inl Int3
            else if w_last w = 0 \<or> a + ha_cbSize pha \<noteq> PNEXT_BLOCK m (w_last w) then Inl Int3
            else Inr ()))))))"

fun res_check_chain_of :: "(ulong \<Rightarrow> ulong) \<Rightarrow> (ulong \<Rightarrow> ulong) \<Rightarrow> (ulong \<times> heap_anchor) list \<Rightarrow> bool res" where
  "res_check_chain_of m sg [] = Inr True"
| "res_check_chain_of m sg (x # xs) = bind_res (res_check_anchor m sg x) (\<lambda>_. res_check_chain_of m sg xs)"

definition res_heap_check :: "res_heap \<Rightarrow> bool res" where
  "res_heap_check h = res_check_chain_of (hp_size h) (hp_sig h) (phaChain h)"

section \<open>Enumerating the blocks of an anchor\<close>

definition enum_rest :: "ulong avlenumdata \<Rightarrow> ulong list" where
  "enum_rest e = map ptr (avl_enum_rest (fFromLeft e) (aEntries e))"

definition enum_ok :: "ulong avlenumdata \<Rightarrow> bool" where
  "enum_ok e \<longleftrightarrow> avl_stack_ok (fFromLeft e) (aEntries e)"

lemma enum_next:
  assumes "enum_ok e"
  shows "\<exists>n e'. AVLGetNextNode e = Inr (n, e') \<and> enum_ok e' \<and>
    (case enum_rest e of [] \<Rightarrow> node_addr n = 0 \<and> enum_rest e' = [] | x # xs \<Rightarrow> node_addr n = x \<and> enum_rest e' = xs)"
proof -
  have s: "avl_stack_ok (fFromLeft e) (aEntries e)" using assms by (simp add: enum_ok_def)
  obtain n st where g: "avl_get_next (fFromLeft e) (aEntries e) = Inr (n, st)" "avl_stack_ok (fFromLeft e) st"
    "case avl_enum_rest (fFromLeft e) (aEntries e) of [] \<Rightarrow> n = Null \<and> st = []
      | m # ms \<Rightarrow> n = m \<and> avl_enum_rest (fFromLeft e) st = ms"
    using avl_get_next_rest [OF s] by blast
  have "node_addr n = ptr n" if "n \<noteq> Null" using that by (cases n) (simp_all add: node_addr_def)
  then show ?thesis
    using g avl_enum_rest_not_Null [OF s] by (cases "avl_enum_rest (fFromLeft e) (aEntries e)")
      (simp_all add: AVLGetNextNode_def enum_ok_def enum_rest_def node_addr_def)
qed

text \<open>The loop looks at two blocks of each tree: \<open>window\<close> relates them and the enumeration to the list of the
  blocks still to come.\<close>

fun window :: "ulong \<Rightarrow> ulong \<Rightarrow> ulong avlenumdata \<Rightarrow> ulong list \<Rightarrow> bool" where
  "window cur nxt e [] = (cur = 0 \<and> nxt = 0 \<and> enum_rest e = [])"
| "window cur nxt e [x] = (cur = x \<and> nxt = 0 \<and> enum_rest e = [])"
| "window cur nxt e (x # y # zs) = (cur = x \<and> nxt = y \<and> enum_rest e = zs)"

lemma window_step:
  assumes "window cur nxt e (x # xs)" "enum_ok e"
  shows "\<exists>n e'. AVLGetNextNode e = Inr (n, e') \<and> enum_ok e' \<and> window nxt (node_addr n) e' xs"
proof -
  obtain n e' where n: "AVLGetNextNode e = Inr (n, e')" "enum_ok e'"
    "case enum_rest e of [] \<Rightarrow> node_addr n = 0 \<and> enum_rest e' = [] | x # xs \<Rightarrow> node_addr n = x \<and> enum_rest e' = xs"
    using enum_next [OF assms(2)] by blast
  have "window nxt (node_addr n) e' xs"
  proof (cases xs)
    case Nil
    then show ?thesis using assms(1) n(3) by simp
  next
    case (Cons y ys)
    then have "nxt = y" "enum_rest e = ys" using assms(1) by auto
    then show ?thesis using Cons n(3) by (cases ys; cases "tl ys") auto
  qed
  then show ?thesis using n(1,2) by blast
qed

lemma blocks_nodes:
  assumes "blocks t B"
  shows "map ptr (avl_nodes True t) = sorted_list_of_set B" "avl_size t = card B"
proof -
  have ix: "avl_index t" and m: "avl_map t = id_map B" using assms by (simp_all add: blocks_def)
  have "ptr n = Key n" if "n \<in> set (avl_nodes True t)" for n
    using avl_node_map(1) [OF ix that] m by (simp split: if_splits)
  then have "map ptr (avl_nodes True t) = map Key (avl_nodes True t)" by simp
  also have "\<dots> = avl_keys t" by (simp add: avl_keys_def flip: avl_nodes_inorder)
  also have "\<dots> = sorted_list_of_set B"
    using ix blocks_dom [OF assms] by (intro sorted_distinct_set_unique) (auto simp: avl_index_def avl_wf_def dom_avl_map)
  finally show "map ptr (avl_nodes True t) = sorted_list_of_set B" .
  show "avl_size t = card B" using ix blocks_dom [OF assms] by (simp add: avl_size_card avl_index_def)
qed

lemma enum_begin:
  assumes "blocks t B" "card B < 17710"
  shows "\<exists>n e. AVLBeginEnumTree t enum_zero True = Inr (n, e) \<and> enum_ok e \<and>
    (case sorted_list_of_set B of [] \<Rightarrow> node_addr n = 0 \<and> enum_rest e = [] | x # xs \<Rightarrow> node_addr n = x \<and> enum_rest e = xs)"
proof (cases "t = Null")
  case True
  then have "B = {}" using blocks_dom [OF assms(1)] by simp
  moreover have "enum_ok (enum_zero\<lparr>aEntries := []\<rparr>)" "enum_rest (enum_zero\<lparr>aEntries := []\<rparr>) = []"
    by (simp_all add: enum_ok_def enum_rest_def)
  ultimately show ?thesis using enum_next [of "enum_zero\<lparr>aEntries := []\<rparr>"] True by (simp add: AVLBeginEnumTree_def)
next
  case False
  let ?e = "enum_zero\<lparr>fFromLeft := True, aEntries := [(t, 0)]\<rparr>"
  have "avl_index t" using assms(1) by (simp add: blocks_def)
  then have "avl_height t \<le> AVL_MAX_HEIGHT" using assms blocks_dom by (intro avl_index_height) auto
  then have "enum_ok ?e" using False by (simp add: enum_ok_def AVL_MAX_HEIGHT_def)
  moreover have "enum_rest ?e = sorted_list_of_set B" by (simp add: enum_rest_def blocks_nodes(1) [OF assms(1)])
  ultimately show ?thesis using enum_next [of ?e] False by (simp add: AVLBeginEnumTree_def)
qed

lemma window_begin:
  assumes "blocks t B" "card B < 17710"
  shows "\<exists>n e n' e'. AVLBeginEnumTree t enum_zero True = Inr (n, e) \<and> AVLGetNextNode e = Inr (n', e') \<and> enum_ok e' \<and>
    window (node_addr n) (node_addr n') e' (sorted_list_of_set B)"
proof -
  obtain n e where e: "AVLBeginEnumTree t enum_zero True = Inr (n, e)" "enum_ok e"
    "case sorted_list_of_set B of [] \<Rightarrow> node_addr n = 0 \<and> enum_rest e = [] | x # xs \<Rightarrow> node_addr n = x \<and> enum_rest e = xs"
    using enum_begin [OF assms] by blast
  obtain n' e' where e': "AVLGetNextNode e = Inr (n', e')" "enum_ok e'"
    "case enum_rest e of [] \<Rightarrow> node_addr n' = 0 \<and> enum_rest e' = [] | x # xs \<Rightarrow> node_addr n' = x \<and> enum_rest e' = xs"
    using enum_next [OF e(2)] by blast
  have "window (node_addr n) (node_addr n') e' (sorted_list_of_set B)"
    using e(3) e'(3) by (cases "sorted_list_of_set B"; cases "tl (sorted_list_of_set B)") auto
  then show ?thesis using e(1) e' by blast
qed

text \<open>In a tiling the blocks of a set, in order, are the elements of its sorted list.\<close>

lemma tiled_sorted: "tiled m s bs e \<Longrightarrow> sorted bs"
proof (induction bs arbitrary: s)
  case (Cons b bs)
  have "b \<le> c" if "c \<in> set bs" for c
    using tiled_range [of m "hnext m b" bs e c] Cons.prems that hnext_gt [of b m] by (auto simp: word_le_nat_alt)
  then show ?case using Cons by auto
qed simp

lemma tiled_filter:
  assumes "tiled m s bs e" "B \<subseteq> set bs"
  shows "filter (\<lambda>b. b \<in> B) bs = sorted_list_of_set B"
proof (rule sorted_distinct_set_unique)
  show "sorted (filter (\<lambda>b. b \<in> B) bs)" using sorted_filter [of "\<lambda>x. x" bs] tiled_sorted [OF assms(1)] by simp
qed (use assms tiled_distinct [OF assms(1)] finite_subset [OF assms(2)] in auto)

section \<open>The walk over the blocks\<close>

definition walk_at :: "ulong set \<Rightarrow> ulong set \<Rightarrow> ulong list \<Rightarrow> heap_walk \<Rightarrow> bool" where
  "walk_at F U bs w \<longleftrightarrow>
     window (w_free w) (w_freeNext w) (FreeEnumData w) (filter (\<lambda>b. b \<in> F) bs) \<and> enum_ok (FreeEnumData w) \<and>
     window (w_used w) (w_usedNext w) (UsedEnumData w) (filter (\<lambda>b. b \<in> U) bs) \<and> enum_ok (UsedEnumData w)"

lemma window_Cons:
  "window cur nxt e (x # xs) \<Longrightarrow> cur = x \<and> nxt = (case xs of [] \<Rightarrow> 0 | y # ys \<Rightarrow> y)"
  "window cur nxt e xs \<Longrightarrow> cur = (case xs of [] \<Rightarrow> 0 | y # ys \<Rightarrow> y)"
proof -
  show c: "cur = x \<and> nxt = (case xs of [] \<Rightarrow> 0 | y # ys \<Rightarrow> y)" if "window cur nxt e (x # xs)" for x xs
    using that by (cases xs) simp_all
  show "cur = (case xs of [] \<Rightarrow> 0 | y # ys \<Rightarrow> y)" if "window cur nxt e xs"
    using that c by (cases xs) simp_all
qed

text \<open>What is true of every block the walk meets.\<close>

definition block_fine :: "(ulong \<Rightarrow> ulong) \<Rightarrow> (ulong \<Rightarrow> ulong) \<Rightarrow> freechain avl \<Rightarrow> ulong set \<Rightarrow> ulong \<Rightarrow> bool" where
  "block_fine m sg t F b \<longleftrightarrow> b \<noteq> 0 \<and> unat (PNEXT_BLOCK m b) = hnext m b \<and> sg b = MEMBLOCK_SIGNATURE \<and>
     \<not> m b < CB_MEMBLOCKFREE - CB_HDR \<and> (b \<in> F \<longrightarrow> in_freesize m t b)"

lemma walk_no_hole:
  assumes w: "walk_at F U (b # bs) w" and t: "tiled m s (b # bs) e" and fu: "F \<inter> U = {}" "set (b # bs) \<subseteq> F \<union> U"
    and fine: "\<And>x. x \<in> set (b # bs) \<Longrightarrow> block_fine m sg tr F x"
  shows "no_hole m w" "b \<in> U \<longleftrightarrow> w_used w \<noteq> 0 \<and> (w_free w = 0 \<or> w_used w < w_free w)"
    "b \<in> U \<Longrightarrow> w_used w = b" "b \<in> F \<Longrightarrow> w_free w = b"
proof -
  let ?hd = "\<lambda>xs. case xs of [] \<Rightarrow> 0 | y # ys \<Rightarrow> y"
  have later: "b < x" if "x \<in> set bs" for x
    using t tiled_range [of m "hnext m b" bs e x] that hnext_gt [of b m] by (simp add: word_less_nat_alt)
  have nz: "b \<noteq> 0" using fine [of b] by (simp add: block_fine_def)
  have hdl: "?hd (filter P bs) = 0 \<or> b < ?hd (filter P bs)" for P
    using later by (cases "filter P bs") (auto simp: filter_eq_Cons_iff)
  have nxt: "PNEXT_BLOCK m b = c" if "bs = c # cs" for c cs
  proof -
    have "unat (PNEXT_BLOCK m b) = unat c" using fine [of b] t that by (simp add: block_fine_def)
    then show ?thesis by (rule unsigned_word_eqI)
  qed
  show "w_used w = b" if "b \<in> U"
  proof -
    have "window (w_used w) (w_usedNext w) (UsedEnumData w) (b # filter (\<lambda>b. b \<in> U) bs)"
      using w that by (simp add: walk_at_def)
    from window_Cons(1) [OF this] show ?thesis by (rule conjunct1)
  qed
  show "w_free w = b" if "b \<in> F"
  proof -
    have "window (w_free w) (w_freeNext w) (FreeEnumData w) (b # filter (\<lambda>b. b \<in> F) bs)"
      using w that by (simp add: walk_at_def)
    from window_Cons(1) [OF this] show ?thesis by (rule conjunct1)
  qed
  consider (U) "b \<in> U" "b \<notin> F" | (F) "b \<in> F" "b \<notin> U" using fu by auto
  then have "no_hole m w \<and> (b \<in> U \<longleftrightarrow> w_used w \<noteq> 0 \<and> (w_free w = 0 \<or> w_used w < w_free w))"
  proof cases
    case U
    then have wu: "window (w_used w) (w_usedNext w) (UsedEnumData w) (b # filter (\<lambda>b. b \<in> U) bs)"
      and wf: "window (w_free w) (w_freeNext w) (FreeEnumData w) (filter (\<lambda>b. b \<in> F) bs)"
      using w by (simp_all add: walk_at_def)
    note u = conjunct1 [OF window_Cons(1) [OF wu]] conjunct2 [OF window_Cons(1) [OF wu]] window_Cons(2) [OF wf]
    have "no_hole m w"
    proof (cases bs)
      case Nil
      then show ?thesis using u nz by (simp add: no_hole_def)
    next
      case (Cons c cs)
      then have "c \<in> U \<or> c \<in> F" using fu(2) by auto
      then show ?thesis using u nz nxt [OF Cons] Cons by (auto simp: no_hole_def)
    qed
    then show ?thesis using U u nz hdl [of "\<lambda>b. b \<in> F"] by auto
  next
    case F
    then have wf: "window (w_free w) (w_freeNext w) (FreeEnumData w) (b # filter (\<lambda>b. b \<in> F) bs)"
      and wu: "window (w_used w) (w_usedNext w) (UsedEnumData w) (filter (\<lambda>b. b \<in> U) bs)"
      using w by (simp_all add: walk_at_def)
    note u = conjunct1 [OF window_Cons(1) [OF wf]] conjunct2 [OF window_Cons(1) [OF wf]] window_Cons(2) [OF wu]
    have "no_hole m w"
    proof (cases bs)
      case Nil
      then show ?thesis using u nz by (simp add: no_hole_def)
    next
      case (Cons c cs)
      then have "c \<in> U \<or> c \<in> F" using fu(2) by auto
      then show ?thesis using u nz nxt [OF Cons] Cons by (auto simp: no_hole_def)
    qed
    then show ?thesis using F u nz hdl [of "\<lambda>b. b \<in> U"] by auto
  qed
  then show "no_hole m w" "b \<in> U \<longleftrightarrow> w_used w \<noteq> 0 \<and> (w_free w = 0 \<or> w_used w < w_free w)" by blast+
qed

abbreviation word_sum :: "(ulong \<Rightarrow> ulong) \<Rightarrow> ulong list \<Rightarrow> ulong" where
  "word_sum m bs \<equiv> sum_list (map m bs)"

lemma res_walk_step_ok:
  assumes w: "walk_at F U (b # bs) w" and t: "tiled m s (b # bs) e" and fu: "F \<inter> U = {}" "set (b # bs) \<subseteq> F \<union> U"
    and fine: "\<And>x. x \<in> set (b # bs) \<Longrightarrow> block_fine m sg tr F x"
  shows "\<exists>w'. res_walk_step m sg tr w = Inr w' \<and> walk_at F U bs w' \<and> w_last w' = b \<and>
    w_cbFree w' = w_cbFree w + word_sum m (filter (\<lambda>b. b \<in> F) [b]) \<and>
    w_cbUsed w' = w_cbUsed w + word_sum m (filter (\<lambda>b. b \<in> U) [b]) \<and> w_cbSize w' = w_cbSize w + (CB_HDR + m b)"
proof -
  note nh = walk_no_hole [OF w t fu fine]
  have fb: "b \<noteq> 0" "sg b = MEMBLOCK_SIGNATURE" "\<not> m b < CB_MEMBLOCKFREE - CB_HDR" "b \<in> F \<Longrightarrow> in_freesize m tr b"
    using fine [of b] by (simp_all add: block_fine_def)
  show ?thesis
  proof (cases "b \<in> U")
    case True
    then have nF: "b \<notin> F" using fu(1) by auto
    obtain n e' where n: "AVLGetNextNode (UsedEnumData w) = Inr (n, e')" "enum_ok e'"
      "window (w_usedNext w) (node_addr n) e' (filter (\<lambda>b. b \<in> U) bs)"
      using window_step [of "w_used w" "w_usedNext w" "UsedEnumData w" b "filter (\<lambda>b. b \<in> U) bs"] w True
      by (auto simp: walk_at_def)
    then show ?thesis
      using True nF nh fb w by (simp add: res_walk_step_def walk_at_def)
  next
    case False
    then have F: "b \<in> F" using fu(2) by auto
    obtain n e' where n: "AVLGetNextNode (FreeEnumData w) = Inr (n, e')" "enum_ok e'"
      "window (w_freeNext w) (node_addr n) e' (filter (\<lambda>b. b \<in> F) bs)"
      using window_step [of "w_free w" "w_freeNext w" "FreeEnumData w" b "filter (\<lambda>b. b \<in> F) bs"] w F
      by (auto simp: walk_at_def)
    moreover have fr: "w_free w = b" using nh(4) F by blast
    moreover have "\<not> (w_used w \<noteq> 0 \<and> (w_free w = 0 \<or> w_used w < w_free w))" using nh(2) False by blast
    ultimately show ?thesis
      using False F nh(1) fr fb w by (auto simp: res_walk_step_def walk_at_def)
  qed
qed

lemma res_walk_ok:
  assumes "walk_at F U bs w" "tiled m s bs e" "F \<inter> U = {}" "set bs \<subseteq> F \<union> U" "length bs \<le> fuel"
    and "\<And>x. x \<in> set bs \<Longrightarrow> block_fine m sg tr F x"
  shows "\<exists>w'. res_walk fuel m sg tr w = Inr w' \<and> w_last w' = (if bs = [] then w_last w else last bs) \<and>
    w_cbFree w' = w_cbFree w + word_sum m (filter (\<lambda>b. b \<in> F) bs) \<and>
    w_cbUsed w' = w_cbUsed w + word_sum m (filter (\<lambda>b. b \<in> U) bs) \<and>
    w_cbSize w' = w_cbSize w + word_sum (\<lambda>b. CB_HDR + m b) bs"
  using assms
proof (induction bs arbitrary: w s fuel)
  case Nil
  then have "w_free w = 0" "w_used w = 0" by (simp_all add: walk_at_def)
  then show ?case by (cases fuel) simp_all
next
  case (Cons b bs)
  then obtain f where f: "fuel = Suc f" "length bs \<le> f" by (cases fuel) auto
  obtain w' where w': "res_walk_step m sg tr w = Inr w'" "walk_at F U bs w'" "w_last w' = b"
    "w_cbFree w' = w_cbFree w + word_sum m (filter (\<lambda>b. b \<in> F) [b])"
    "w_cbUsed w' = w_cbUsed w + word_sum m (filter (\<lambda>b. b \<in> U) [b])" "w_cbSize w' = w_cbSize w + (CB_HDR + m b)"
    using res_walk_step_ok [OF Cons.prems(1-4,6)] by blast
  have "b \<noteq> 0" using Cons.prems(6) [of b] by (simp add: block_fine_def)
  then have go: "w_free w \<noteq> 0 \<or> w_used w \<noteq> 0"
    using walk_no_hole(3,4) [OF Cons.prems(1-4,6)] Cons.prems(4) by auto
  have t: "tiled m (hnext m b) bs e" using Cons.prems(2) by simp
  have "set bs \<subseteq> F \<union> U" using Cons.prems(4) by simp
  from Cons.IH [OF w'(2) t Cons.prems(3) this f(2)] Cons.prems(6) obtain w2 where w2: "res_walk f m sg tr w' = Inr w2"
    "w_last w2 = (if bs = [] then w_last w' else last bs)"
    "w_cbFree w2 = w_cbFree w' + word_sum m (filter (\<lambda>b. b \<in> F) bs)"
    "w_cbUsed w2 = w_cbUsed w' + word_sum m (filter (\<lambda>b. b \<in> U) bs)"
    "w_cbSize w2 = w_cbSize w' + word_sum (\<lambda>b. CB_HDR + m b) bs" by auto
  then show ?case using w' f(1) go by (simp add: algebra_simps)
qed

section \<open>The check accepts every good heap\<close>

lemma resCheckAVLTree_ok:
  assumes "\<And>p k. (p, k) \<in> set (avl_inorder t) \<Longrightarrow> p = k \<and> 65536 \<le> k \<and> k mod ALIGNMENT = 0"
    and "sorted (avl_keys t)" "distinct (avl_keys t)"
  shows "resCheckAVLTree t = Inr 0"
  using assms
proof (induction t)
  case (Node p k l r v)
  have p: "p = k" "k mod ALIGNMENT = 0" using Node.prems(1) [of p k] by auto
  have srt: "sorted (avl_keys l @ k # avl_keys r)" "distinct (avl_keys l @ k # avl_keys r)"
    using Node.prems(2,3) by (simp_all add: avl_keys_def)
  have "resCheckAVLTree l = Inr 0"
    by (rule Node.IH(1), rule Node.prems(1)) (use srt in \<open>simp_all add: sorted_append\<close>)
  moreover have "resCheckAVLTree r = Inr 0"
    by (rule Node.IH(2), rule Node.prems(1)) (use srt in \<open>simp_all add: sorted_append\<close>)
  moreover have pl: "65536 \<le> ptr l \<and> ptr l < k" if "l \<noteq> Null"
  proof (cases l)
    case (Node p' k' l' r' v')
    then have "p' = k'" "65536 \<le> k'" using Node.prems(1) [of p' k'] by auto
    moreover have "k' \<in> set (avl_keys l)" using Node by (simp add: avl_keys_def)
    then have "k' \<le> k" "k' \<noteq> k" using srt by (auto simp: sorted_append)
    ultimately show ?thesis using Node by simp
  qed (use that in simp)
  moreover have pr: "65536 \<le> ptr r \<and> k < ptr r" if "r \<noteq> Null"
  proof (cases r)
    case (Node p' k' l' r' v')
    then have "p' = k'" "65536 \<le> k'" using Node.prems(1) [of p' k'] by auto
    moreover have "k' \<in> set (avl_keys r)" using Node by (simp add: avl_keys_def)
    then have "k \<le> k'" "k' \<noteq> k" using srt by (auto simp: sorted_append)
    ultimately show ?thesis using Node by simp
  qed (use that in simp)
  moreover have "\<not> (l \<noteq> Null \<and> (ptr l < 0x10000 \<or> k \<le> ptr l))" using pl by fastforce
  moreover have "\<not> (r \<noteq> Null \<and> (ptr r < 0x10000 \<or> k \<ge> ptr r))" using pr by fastforce
  ultimately show ?case using p unfolding resCheckAVLTree.simps by (simp only: if_False if_True bind_res_simps simp_thms if_cancel refl cong: if_cong)
qed simp

lemma res_check_chain_ok:
  assumes "\<And>x. x \<in> set (p # ps) \<Longrightarrow> 65536 \<le> x \<and> m x = key"
  shows "res_check_chain m key p ps = Inr ()"
  using assms
proof (induction m key p ps rule: res_check_chain.induct)
  case (2 m key p q qs)
  have "\<not> q < 0x10000" "m p = key" using "2.prems" [of q] "2.prems" [of p] by auto
  then show ?case using "2.IH" "2.prems" by auto
qed simp

lemma resCheckAVLTreeFree_ok:
  assumes "\<And>c k. (c, k) \<in> set (avl_inorder t) \<Longrightarrow> 4 \<le> k \<and> k mod ALIGNMENT = 0 \<and> 65536 \<le> fst c + CB_HDR - 4 \<and>
      (\<forall>x\<in>set (fst c # snd c). 65536 \<le> x \<and> m x = k)"
    and "sorted (avl_keys t)" "distinct (avl_keys t)"
  shows "resCheckAVLTreeFree m t = Inr 0"
  using assms
proof (induction t)
  case (Node c k l r v)
  have k: "4 \<le> k" "k mod ALIGNMENT = 0" "\<forall>x\<in>set (fst c # snd c). 65536 \<le> x \<and> m x = k"
    using Node.prems(1) [of c k] by auto
  have srt: "sorted (avl_keys l @ k # avl_keys r)" "distinct (avl_keys l @ k # avl_keys r)"
    using Node.prems(2,3) by (simp_all add: avl_keys_def)
  have "resCheckAVLTreeFree m l = Inr 0"
    by (rule Node.IH(1), rule Node.prems(1)) (use srt in \<open>simp_all add: sorted_append\<close>)
  moreover have "resCheckAVLTreeFree m r = Inr 0"
    by (rule Node.IH(2), rule Node.prems(1)) (use srt in \<open>simp_all add: sorted_append\<close>)
  moreover have pl: "65536 \<le> freesize_node l \<and> Key l < k" if "l \<noteq> Null"
  proof (cases l)
    case (Node c' k' l' r' v')
    then have "65536 \<le> fst c' + CB_HDR - 4" using Node.prems(1) [of c' k'] by auto
    moreover have "k' \<in> set (avl_keys l)" using Node by (simp add: avl_keys_def)
    then have "k' \<le> k" "k' \<noteq> k" using srt by (auto simp: sorted_append)
    ultimately show ?thesis using Node by (simp add: freesize_node_def)
  qed (use that in simp)
  moreover have pr: "65536 \<le> freesize_node r \<and> k < Key r" if "r \<noteq> Null"
  proof (cases r)
    case (Node c' k' l' r' v')
    then have "65536 \<le> fst c' + CB_HDR - 4" using Node.prems(1) [of c' k'] by auto
    moreover have "k' \<in> set (avl_keys r)" using Node by (simp add: avl_keys_def)
    then have "k \<le> k'" "k' \<noteq> k" using srt by (auto simp: sorted_append)
    ultimately show ?thesis using Node by (simp add: freesize_node_def)
  qed (use that in simp)
  moreover have "res_check_chain m k (fst c) (snd c) = Inr ()" using k(3) by (intro res_check_chain_ok) blast
  moreover have "\<not> (l \<noteq> Null \<and> (freesize_node l < 0x10000 \<or> k \<le> Key l))" using pl by fastforce
  moreover have "\<not> (r \<noteq> Null \<and> (freesize_node r < 0x10000 \<or> k \<ge> Key r))" using pr by fastforce
  moreover have "\<not> (k < 4 \<or> k mod ALIGNMENT \<noteq> 0)" using k(1,2) by (simp add: not_less)
  ultimately show ?case unfolding resCheckAVLTreeFree.simps by (simp only: if_False if_True bind_res_simps simp_thms if_cancel refl cong: if_cong)
qed simp

lemma aligned_mod: "4 dvd unat k \<Longrightarrow> k mod ALIGNMENT = 0"
proof -
  assume "4 dvd unat k"
  then have "unat (k mod 4) = unat (0 :: ulong)" by (simp add: unat_mod dvd_eq_mod_eq_0)
  then have "k mod 4 = 0" by (rule unsigned_word_eqI)
  then show ?thesis by (simp add: ALIGNMENT_def)
qed

lemma tiled_last: "tiled m s bs e \<Longrightarrow> bs \<noteq> [] \<Longrightarrow> hnext m (last bs) = e"
  by (induction bs arbitrary: s) auto

lemma word_sum_of_nat: "word_sum m xs = of_nat (sum_list (map (\<lambda>b. unat (m b)) xs))"
  by (induction xs) simp_all

lemma word_sum_bytes: "distinct xs \<Longrightarrow> word_sum m xs = of_nat (bytes m (set xs))"
  by (simp add: word_sum_of_nat sum_list_distinct_conv_sum_set)

lemma word_sum_hdr: "word_sum (\<lambda>b. CB_HDR + m b) xs = of_nat (24 * length xs) + word_sum m xs"
  by (induction xs) (simp_all add: CB_HDR_def algebra_simps)

lemma sizes_in_freesize:
  assumes "sizes t m F" "b \<in> F"
  shows "in_freesize m t b"
proof -
  have "chain_ok (of_size m F (m b)) (avl_map t (m b))" using assms(1) by (simp add: sizes_def)
  moreover have "b \<in> of_size m F (m b)" using assms(2) by (simp add: of_size_def)
  ultimately obtain p ps where c: "avl_map t (m b) = Some (p, ps)" "set (p # ps) = of_size m F (m b)"
    by (cases "avl_map t (m b)") auto
  then have p: "avl_map t (m b) = Some (p, ps)" "b \<in> set (p # ps)" using \<open>b \<in> of_size m F (m b)\<close> by blast+
  have "avl_index t" using assms(1) by (simp add: sizes_def)
  from AVLGet_map [OF this, of "m b"] p show ?thesis
    by (cases "AVLGet t (m b)") (auto simp: in_freesize_def)
qed

lemma anchor_trees_ok:
  assumes g: "anchor_good m sg x bs"
  shows "resCheckAVLTree (pmbUsed (snd x)) = Inr 0" "resCheckAVLTree (pmbFree (snd x)) = Inr 0"
    "resCheckAVLTreeFree m (pcoreFreeSize (snd x)) = Inr 0"
proof -
  let ?F = "free_blocks (snd x)" and ?U = "used_blocks (snd x)"
  have inv: "anchor_inv m (fst x) (snd x) ?F ?U {} bs" and pl: "anchor_place (fst x) (ha_cbSize (snd x))"
    using g by (simp_all add: anchor_good_def)
  note i = anchor_invD [OF inv]
  have dv: "4 dvd unat (fst x) + 36" using pl by (simp add: anchor_place_def)
  have blk: "65536 \<le> b \<and> b mod ALIGNMENT = 0 \<and> m b mod ALIGNMENT = 0 \<and> 4 \<le> m b \<and> 65536 \<le> b + CB_HDR - 4" if b: "b \<in> set bs" for b
  proof -
    note w = anchor_good_within [OF g b]
    have d: "4 dvd unat b" "4 dvd unat (m b)" using tiled_dvd [OF i(7) dv b] by simp_all
    have lo: "65536 \<le> unat b" using w(1) pl by (simp add: within_def anchor_place_def)
    have "unat b + 24 + unat (m b) < 2 ^ LENGTH(32)" using w(2) i(8) by simp
    then have "unat (b + 20) = unat b + 20" by (subst unat_add_small) simp_all
    then have "unat (b + CB_HDR - 4) = unat b + 20" by (simp add: CB_HDR_def add.commute)
    then have "65536 \<le> unat (b + CB_HDR - 4)" using lo by simp
    then show ?thesis using lo w(3) aligned_mod d by (simp add: word_le_nat_alt)
  qed
  have tree: "resCheckAVLTree t = Inr 0" if t: "blocks t B" "B \<subseteq> set bs" for t B
  proof (rule resCheckAVLTree_ok)
    have ix: "avl_index t" and mp: "avl_map t = id_map B" using t(1) by (simp_all add: blocks_def)
    then show "sorted (avl_keys t)" "distinct (avl_keys t)" by (simp_all add: avl_index_def avl_wf_def)
    fix p k assume "(p, k) \<in> set (avl_inorder t)"
    then have "id_map B k = Some p" using ix mp avl_map_Some [of t k p] by (simp add: avl_index_def)
    then have "p = k" "k \<in> set bs" using t(2) unfolding id_map_Some by auto
    then show "p = k \<and> 65536 \<le> k \<and> k mod ALIGNMENT = 0" using blk by blast
  qed
  show "resCheckAVLTree (pmbUsed (snd x)) = Inr 0" using tree [OF i(2)] i(6) by blast
  show "resCheckAVLTree (pmbFree (snd x)) = Inr 0" using tree [OF i(1)] i(6) by blast
  show "resCheckAVLTreeFree m (pcoreFreeSize (snd x)) = Inr 0"
  proof (rule resCheckAVLTreeFree_ok)
    have ix: "avl_index (pcoreFreeSize (snd x))" using i(3) by (simp add: sizes_def)
    then show "sorted (avl_keys (pcoreFreeSize (snd x)))" "distinct (avl_keys (pcoreFreeSize (snd x)))"
      by (simp_all add: avl_index_def avl_wf_def)
    fix c k assume "(c, k) \<in> set (avl_inorder (pcoreFreeSize (snd x)))"
    then have c: "avl_map (pcoreFreeSize (snd x)) k = Some c"
      using ix avl_map_Some [of "pcoreFreeSize (snd x)" k c] by (simp add: avl_index_def)
    have "chain_ok (of_size m ?F k) (Some c)" using i(3) c by (metis sizes_def)
    then have s: "set (fst c # snd c) = of_size m ?F k" by (cases c) simp
    then have m: "b \<in> set bs" "m b = k" if "b \<in> set (fst c # snd c)" for b
      using that i(6) unfolding s of_size_def by blast+
    have f: "fst c \<in> set bs" "m (fst c) = k" using m [of "fst c"] by simp_all
    show "4 \<le> k \<and> k mod ALIGNMENT = 0 \<and> 65536 \<le> fst c + CB_HDR - 4 \<and> (\<forall>x\<in>set (fst c # snd c). 65536 \<le> x \<and> m x = k)"
    proof (intro conjI ballI)
      show "4 \<le> k" "k mod ALIGNMENT = 0" "65536 \<le> fst c + CB_HDR - 4" using blk [OF f(1)] f(2) by simp_all
      show "65536 \<le> y" "m y = k" if "y \<in> set (fst c # snd c)" for y using blk [OF m(1) [OF that]] m(2) [OF that] by simp_all
    qed
  qed
qed

lemma res_walk_start_ok:
  assumes inv: "anchor_inv m a ha F U {} bs" and len: "length bs < 17710"
  shows "\<exists>w. res_walk_start ha = Inr w \<and> walk_at F U bs w \<and> w_last w = 0 \<and> w_cbFree w = 0 \<and> w_cbUsed w = 0 \<and>
    w_cbSize w = CB_HEAPANCHOR"
proof -
  note i = anchor_invD [OF inv]
  have card: "card F < 17710" "card U < 17710" using anchor_inv_card [OF inv] len by simp_all
  have l: "filter (\<lambda>b. b \<in> F) bs = sorted_list_of_set F" "filter (\<lambda>b. b \<in> U) bs = sorted_list_of_set U"
    using tiled_filter [OF i(7)] i(6) by blast+
  obtain n e n' e' where f: "AVLBeginEnumTree (pmbFree ha) enum_zero True = Inr (n, e)" "AVLGetNextNode e = Inr (n', e')"
    "enum_ok e'" "window (node_addr n) (node_addr n') e' (sorted_list_of_set F)"
    using window_begin [OF i(1) card(1)] by blast
  obtain q g q' g' where u: "AVLBeginEnumTree (pmbUsed ha) enum_zero True = Inr (q, g)" "AVLGetNextNode g = Inr (q', g')"
    "enum_ok g'" "window (node_addr q) (node_addr q') g' (sorted_list_of_set U)"
    using window_begin [OF i(2) card(2)] by blast
  show ?thesis using f u l by (simp add: res_walk_start_def walk_at_def)
qed

lemma res_check_anchor_ok:
  assumes g: "anchor_good m sg x bs" and len: "length bs < 17710"
  shows "res_check_anchor m sg x = Inr ()"
proof -
  obtain a ha where x: "x = (a, ha)" by (cases x)
  let ?F = "free_blocks ha" and ?U = "used_blocks ha"
  have inv: "anchor_inv m a ha ?F ?U {} bs" and pl: "anchor_place a (ha_cbSize ha)"
    and sig: "ha_ulSignature ha = HEAPANCHOR_SIGNATURE" "\<forall>b\<in>set bs. sg b = MEMBLOCK_SIGNATURE"
    using g x by (simp_all add: anchor_good_def)
  note i = anchor_invD [OF inv]
  have fu: "?F \<inter> ?U = {}" "set bs \<subseteq> ?F \<union> ?U" using i(4,6) by blast+
  have fine: "block_fine m sg (pcoreFreeSize ha) ?F b" if b: "b \<in> set bs" for b
  proof -
    have "36 \<le> unat b" "16 \<le> unat (m b)" using tiled_range [OF i(7) b] tiled_size [OF i(7) b] by simp_all
    moreover have "unat (PNEXT_BLOCK m b) = hnext m b" using anchor_inv_next [OF inv, of b] b i(6) by simp
    moreover have "in_freesize m (pcoreFreeSize ha) b" if "b \<in> ?F" by (rule sizes_in_freesize [OF i(3) that])
    ultimately show ?thesis
      using sig(2) b by (auto simp: block_fine_def word_less_nat_alt CB_MEMBLOCKFREE_def CB_HDR_def)
  qed
  obtain w where w: "res_walk_start ha = Inr w" "walk_at ?F ?U bs w" "w_last w = 0" "w_cbFree w = 0" "w_cbUsed w = 0"
    "w_cbSize w = CB_HEAPANCHOR"
    using res_walk_start_ok [OF inv len] by blast
  obtain b cs where bs: "bs = b # cs" using i(7) pl by (cases bs) (auto simp: anchor_place_def)
  have nh: "b \<in> ?U \<longleftrightarrow> w_used w \<noteq> 0 \<and> (w_free w = 0 \<or> w_used w < w_free w)" "b \<in> ?U \<Longrightarrow> w_used w = b" "b \<in> ?F \<Longrightarrow> w_free w = b"
    using walk_no_hole [of ?F ?U b cs w m _ _ sg "pcoreFreeSize ha"] w(2) i(7) fu fine unfolding bs by blast+
  have b0: "b \<noteq> 0" using fine [of b] bs by (simp add: block_fine_def)
  have "MINNOTNULL (w_free w) (w_used w) = b"
  proof (cases "b \<in> ?U")
    case True
    then have "w_used w = b" "w_free w = 0 \<or> b < w_free w" using nh by blast+
    then show ?thesis using b0 by (auto simp: MINNOTNULL_def)
  next
    case False
    then have "b \<in> ?F" using fu(2) bs by auto
    then have f: "w_free w = b" using nh(3) by blast
    then have "\<not> (w_used w \<noteq> 0 \<and> w_used w < b)" using False nh(1) by blast
    then show ?thesis using f b0 by (auto simp: MINNOTNULL_def)
  qed
  moreover have "unat (a + CB_HEAPANCHOR) = unat b"
    using i(7,8) pl bs by (subst unat_add_small) (simp_all add: CB_HEAPANCHOR_def anchor_place_def)
  then have "a + CB_HEAPANCHOR = b" by (rule unsigned_word_eqI)
  ultimately have first: "MINNOTNULL (w_free w) (w_used w) = a + CB_HEAPANCHOR" by simp
  have "length bs = avl_size (pmbFree ha) + avl_size (pmbUsed ha)" using anchor_good_length [OF g] x by simp
  then have "length bs \<le> avl_size (pmbFree ha) + avl_size (pmbUsed ha)" by simp
  from res_walk_ok [OF w(2) i(7) fu this fine] obtain w' where w':
    "res_walk (avl_size (pmbFree ha) + avl_size (pmbUsed ha)) m sg (pcoreFreeSize ha) w = Inr w'"
    "w_last w' = last bs" "w_cbFree w' = word_sum m (filter (\<lambda>b. b \<in> ?F) bs)"
    "w_cbUsed w' = word_sum m (filter (\<lambda>b. b \<in> ?U) bs)" "w_cbSize w' = CB_HEAPANCHOR + word_sum (\<lambda>b. CB_HDR + m b) bs"
    using w(4-6) bs by auto
  have d: "distinct bs" by (rule tiled_distinct [OF i(7)])
  have sF: "set (filter (\<lambda>b. b \<in> ?F) bs) = ?F" "set (filter (\<lambda>b. b \<in> ?U) bs) = ?U" using i(6) by auto
  have "w_cbFree w' = of_nat (unat (cbFree ha))" "w_cbUsed w' = of_nat (unat (cbUsed ha))"
    unfolding w'(3,4) i(9,10) using word_sum_bytes d sF by (metis distinct_filter)+
  then have cf: "w_cbFree w' = cbFree ha" "w_cbUsed w' = cbUsed ha" by simp_all
  have tot: "bytes m ?F + bytes m ?U + 24 * length bs + 36 = unat (ha_cbSize ha)" using anchor_inv_bytes [OF inv] by simp
  have "bytes m (set bs) = bytes m ?F + bytes m ?U" using i(4,6,12,13) by (simp add: sum.union_disjoint)
  then have "w_cbSize w' = of_nat (unat (ha_cbSize ha))"
    unfolding w'(5) word_sum_hdr word_sum_bytes [OF d] tot [symmetric] by (simp add: CB_HEAPANCHOR_def)
  then have cs: "w_cbSize w' = ha_cbSize ha" by simp
  have lst: "last bs \<in> set bs" using bs by simp
  have "unat (a + ha_cbSize ha) = unat a + unat (ha_cbSize ha)" using i(8) by (subst unat_add_small) simp_all
  also have "\<dots> = unat (PNEXT_BLOCK m (last bs))"
    using tiled_last [OF i(7)] fine [OF lst] bs by (simp add: block_fine_def)
  finally have nx: "a + ha_cbSize ha = PNEXT_BLOCK m (last bs)" by (rule unsigned_word_eqI)
  have l0: "last bs \<noteq> 0" using fine [OF lst] by (simp add: block_fine_def)
  have "unat (cbFree ha) + unat (cbUsed ha) < unat (ha_cbSize ha)" using tot i(9,10) by simp
  moreover have "unat (cbFree ha) + unat (cbUsed ha) < 2 ^ LENGTH(32)" using calculation i(8) by simp
  then have "unat (cbFree ha + cbUsed ha) = unat (cbFree ha) + unat (cbUsed ha)" by (rule unat_add_small)
  ultimately have lt: "\<not> (cbFree ha + cbUsed ha \<ge> ha_cbSize ha \<or> ha_cbSize ha = 0)"
    by (auto simp: word_le_nat_alt)
  show ?thesis
    using x w(1) sig(1) lt first anchor_trees_ok [OF g] w'(1) cf cs nx l0 w'(2)
    by (simp add: res_check_anchor_def Let_def)
qed

lemma res_check_chain_of_ok:
  "(\<And>x. x \<in> set xs \<Longrightarrow> res_check_anchor m sg x = Inr ()) \<Longrightarrow> res_check_chain_of m sg xs = Inr True"
  by (induction xs) simp_all

lemma res_heap_check_ok:
  assumes "heap_inv h" "heap_room 0 h"
  shows "res_heap_check h = Inr True"
proof -
  have "res_check_anchor (hp_size h) (hp_sig h) x = Inr ()" if "x \<in> set (phaChain h)" for x
    using heap_inv_good [OF assms(1) that] heap_room_length [OF assms(2) that] res_check_anchor_ok by fastforce
  then show ?thesis unfolding res_heap_check_def by (rule res_check_chain_of_ok)
qed

section \<open>The statistics are exact\<close>

lemma res_count_ok:
  assumes "blocks t B" "card B < 17710"
  shows "res_count t c = Inr (c + of_nat (card B))"
proof -
  have ix: "avl_index t" using assms(1) by (simp add: blocks_def)
  have h: "avl_height t \<le> AVL_MAX_HEIGHT" using ix assms blocks_dom by (intro avl_index_height) auto
  have len: "length (avl_nodes True t) = avl_size t" by (induction t) auto
  have "avl_enum_loop (avl_size t) (AVLBeginEnumTree t enum_zero True) = Inr (avl_nodes True t)"
  proof (cases "t = Null")
    case False
    then show ?thesis
      using len h AVLGetNextNode_rest [of "enum_zero\<lparr>fFromLeft := True, aEntries := [(t, 0)]\<rparr>" "avl_size t"]
      by (simp add: AVLBeginEnumTree_def AVL_MAX_HEIGHT_def)
  qed (simp add: AVLBeginEnumTree_def AVLGetNextNode_def)
  moreover have "fold (\<lambda>n c. c + 1) ns c = c + of_nat (length ns)" for ns :: "ulong avl list"
    by (induction ns arbitrary: c) (simp_all add: algebra_simps)
  ultimately show ?thesis using blocks_nodes(2) [OF assms(1)] len by (simp add: res_count_def)
qed

definition state_sum :: "(ulong \<times> heap_anchor) list \<Rightarrow> heapstate \<Rightarrow> heapstate" where
  "state_sum xs st =
     \<lparr>cbHeapSize = cbHeapSize st + sum_list (map (\<lambda>x. ha_cbSize (snd x)) xs),
      cbHeapFree = cbHeapFree st + sum_list (map (\<lambda>x. cbFree (snd x)) xs),
      cbHeapUsed = cbHeapUsed st + sum_list (map (\<lambda>x. cbUsed (snd x)) xs),
      cBlocksUsed = cBlocksUsed st + of_nat (sum_list (map (\<lambda>x. card (used_blocks (snd x))) xs)),
      cBlocksFree = cBlocksFree st + of_nat (sum_list (map (\<lambda>x. card (free_blocks (snd x))) xs))\<rparr>"

lemma res_state_loop_ok:
  assumes "\<And>x. x \<in> set xs \<Longrightarrow> \<exists>bs. anchor_good m sg x bs \<and> length bs < 17710"
  shows "res_state_loop xs st = Inr (state_sum xs st)"
  using assms
proof (induction xs arbitrary: st)
  case (Cons x xs)
  obtain a ha where x: "x = (a, ha)" by (cases x)
  obtain bs where g: "anchor_good m sg x bs" "length bs < 17710" using Cons.prems [of x] by auto
  then have inv: "anchor_inv m a ha (free_blocks ha) (used_blocks ha) {} bs" using x by (simp add: anchor_good_def)
  have card: "card (free_blocks ha) < 17710" "card (used_blocks ha) < 17710" using anchor_inv_card [OF inv] g(2) by simp_all
  show ?case
    using res_count_ok [OF anchor_invD(1) [OF inv] card(1)] res_count_ok [OF anchor_invD(2) [OF inv] card(2)]
      Cons.IH Cons.prems x by (simp add: state_sum_def algebra_simps)
qed (simp add: state_sum_def)

text \<open>Counting the used blocks of all anchors counts the blocks of the abstract heap.\<close>

lemma used_count:
  assumes "sorted_wrt apart xs" "\<And>x. x \<in> set xs \<Longrightarrow> \<exists>bs. anchor_good m sg x bs"
  shows "sum_list (map (\<lambda>x. card (used_blocks (snd x))) xs) = card (\<Union>x\<in>set xs. used_blocks (snd x))"
  using assms
proof (induction xs)
  case (Cons x xs)
  have w: "within b y" if "y \<in> set (x # xs)" "b \<in> used_blocks (snd y)" for y b
    using Cons.prems(2) [OF that(1)] anchor_good_within(1) anchor_good_blocks that(2) by blast
  have "used_blocks (snd x) \<inter> (\<Union>y\<in>set xs. used_blocks (snd y)) = {}"
  proof (rule ccontr)
    assume "used_blocks (snd x) \<inter> (\<Union>y\<in>set xs. used_blocks (snd y)) \<noteq> {}"
    then obtain b y where b: "y \<in> set xs" "b \<in> used_blocks (snd x)" "b \<in> used_blocks (snd y)" by blast
    then have "within b x" "within b y" using w by simp_all
    moreover have "apart x y" using Cons.prems(1) b(1) by simp
    ultimately show False by (auto simp: apart_def within_def)
  qed
  then have "card (\<Union>y\<in>set (x # xs). used_blocks (snd y)) = card (used_blocks (snd x)) + card (\<Union>y\<in>set xs. used_blocks (snd y))"
    by (subst card_Un_disjoint [symmetric]) (auto simp del: domIff)
  then show ?case using Cons by simp
qed simp

lemma fold_sum_list: "fold (\<lambda>(a, pha) c. c + f pha) xs c = c + sum_list (map (\<lambda>x. f (snd x)) xs)"
  for c :: ulong
  by (induction xs arbitrary: c) (auto simp: algebra_simps)

lemma res_state_ok:
  assumes inv: "heap_inv h" and room: "heap_room 0 h"
  shows "\<exists>st. res_state h = Inr st \<and> cbHeapFree st = res_memfree h \<and> cbHeapUsed st = res_memused h \<and>
    cBlocksUsed st = of_nat (card {b. heap_used h b \<noteq> None})"
proof -
  have good: "\<exists>bs. anchor_good (hp_size h) (hp_sig h) x bs \<and> length bs < 17710" if "x \<in> set (phaChain h)" for x
    using heap_inv_good [OF inv that] heap_room_length [OF room that] by fastforce
  have st: "res_state_loop (phaChain h) st = Inr (state_sum (phaChain h) st)" for st
    by (rule res_state_loop_ok, rule good)
  have "sorted_wrt apart (phaChain h)" using inv by (simp add: heap_inv_def)
  from used_count [OF this heap_inv_good [OF inv]]
  have c: "sum_list (map (\<lambda>x. card (used_blocks (snd x))) (phaChain h)) = card (\<Union>x\<in>set (phaChain h). used_blocks (snd x))" .
  have e: "{b. heap_used h b \<noteq> None} = (\<Union>x\<in>set (phaChain h). used_blocks (snd x))" by (auto simp: heap_used_eq)
  show ?thesis
    unfolding res_state_def st e
    by (simp add: state_sum_def c res_memfree_def res_memused_def fold_sum_list)
qed

end
