(* ===== verification/ResHeapMain.thy ===== *)
theory ResHeapMain
  imports ResCheck
begin

text \<open>
  The properties of the resident heap, over the heaps that \<open>resHeapInit\<close> and any sequence of calls reach, and
  the defects at its edges.
\<close>

section \<open>Facts for the properties\<close>

lemma heap_reachable_step:
  assumes "heap_reachable h" "heap_room 1 h"
  shows "vm_fresh vm h \<Longrightarrow> request_ok n \<Longrightarrow> rmalloc vm h n = Inr (q, h') \<Longrightarrow> heap_reachable h'"
    "vm_fresh vm h \<Longrightarrow> request_ok n \<Longrightarrow> rrealloc vm h pv n = Inr (q, h') \<Longrightarrow> heap_reachable h'"
    "rfree h pv = Inr h' \<Longrightarrow> heap_reachable h'"
    "res_heapmin h = (xs, h') \<Longrightarrow> heap_reachable h'"
  using assms heap_reachable.step heap_step.intros by metis+

lemmas reach_facts = heap_reachable_inv heap_reachable_step

text \<open>A free block that fits with its header is always found.\<close>

lemma resTakeFree_finds:
  assumes inv: "anchor_inv m a ha F U {} bs" and f: "f \<in> F" "unat cb + 24 \<le> unat (m f)"
  shows "resTakeFree m sg ha cb \<noteq> Inr None"
proof -
  note i = anchor_invD [OF inv]
  have "unat (m f) < 2 ^ LENGTH(32)" by (rule unsigned_less)
  then have "unat cb + 24 < 2 ^ LENGTH(32)" using f(2) by simp
  then have c: "unat (cb + CB_HDR) = unat cb + 24" by (subst unat_add_small) (simp_all add: CB_HDR_def)
  have "unat (m f) \<le> bytes m F" using i(12) f(1) by (intro member_le_sum) simp_all
  then have "cb + CB_HDR \<le> cbFree ha" using i(9) f(2) c by (simp add: word_le_nat_alt)
  moreover have "AVLGetBestFit (pcoreFreeSize ha) cb True \<noteq> Null"
  proof
    assume n: "AVLGetBestFit (pcoreFreeSize ha) cb True = Null"
    have ix: "avl_index (pcoreFreeSize ha)" using i(3) by (simp add: sizes_def)
    moreover have "m f \<in> dom (avl_map (pcoreFreeSize ha))" using sizes_dom [OF i(3)] f(1) by simp
    ultimately have "m f < cb" using avl.above_None [OF ix, of cb "m f"] n by simp
    then show False using f(2) by (simp add: word_less_nat_alt)
  qed
  ultimately show ?thesis
    by (auto simp: resTakeFree_def Let_def bind_res_def split: avl.splits sum.splits)
qed

lemma resSearchFree_NoFit:
  "resSearchFree m sg cb i xs tot = Inr (NoFit t) \<Longrightarrow> x \<in> set xs \<Longrightarrow> resTakeFree m sg (snd x) cb = Inr None"
proof (induction xs arbitrary: i tot)
  case (Cons y xs)
  obtain a ha where y: "y = (a, ha)" by (cases y)
  have t: "resTakeFree m sg ha cb = Inr None"
  proof -
    obtain r where r: "resTakeFree m sg ha cb = Inr r" using Cons.prems(1) y by (auto simp: bind_res_eq_Inr)
    then show ?thesis using Cons.prems(1) y by (cases r; cases "the r" rule: prod_cases4) auto
  qed
  then show ?case using Cons y by auto
qed simp

lemma rmalloc_fits:
  assumes inv: "heap_inv h" and room: "heap_room 1 h" and n: "n \<noteq> 0" "request_ok n"
    and fit: "x \<in> set (phaChain h)" "f \<in> free_blocks (snd x)" "unat (min_user_size n) + 24 \<le> unat (hp_size h f)"
  shows "\<exists>p h'. rmalloc vm h n = Inr (Some p, h') \<and> allocated h n (Some p) h'"
proof -
  let ?r = "resSearchFree (hp_size h) (hp_sig h) (min_user_size n) 0 (phaChain h) 0"
  have m: "n \<le> min_user_size n" "16 \<le> unat (min_user_size n)" "4 dvd unat (min_user_size n)"
    using n(2) min_user_size_ge [of n] by (simp_all add: request_ok_def)
  have "\<exists>bs. anchor_good (hp_size h) (hp_sig h) x bs \<and> length bs < 17709" if "x \<in> set (phaChain h)" for x
    using heap_inv_good [OF inv that] heap_room_length [OF room that] by fastforce
  from resSearchFree_ok [OF this m(2,3), of _ 0 0]
  consider t where "?r = Inr (NoFit t)" | "search_hit (hp_size h) (hp_sig h) (phaChain h) (min_user_size n) 0 ?r" by blast
  then show ?thesis
  proof cases
    case 1
    obtain bs where "anchor_good (hp_size h) (hp_sig h) x bs" using heap_inv_good [OF inv fit(1)] by blast
    then have "anchor_inv (hp_size h) (fst x) (snd x) (free_blocks (snd x)) (used_blocks (snd x)) {} bs"
      by (simp add: anchor_good_def)
    from resTakeFree_finds [OF this fit(2,3)] show ?thesis using resSearchFree_NoFit [OF 1 fit(1)] by blast
  next
    case 2
    then show ?thesis using rmalloc_took [OF inv n(1) m(1)] by blast
  qed
qed

section \<open>A heap to run the properties on\<close>

definition heap_zero :: res_heap where
  "heap_zero = \<lparr>hp_size = \<lambda>_. 0, hp_sig = \<lambda>_. 0, phaChain = [], cbResHeapMax = 0\<rparr>"

text \<open>The heap after \<open>resHeapInit(0, 1 MB)\<close>, with its anchor at the address \<open>0x10000\<close>.\<close>

definition heap_example :: res_heap where
  "heap_example = snd (projr (resHeapInit (\<lambda>_. Some 0x10000) 0 0x100000 heap_zero))"

lemma heap_example_init:
  "resHeapInit (\<lambda>_. Some 0x10000) 0 0x100000 heap_zero = Inr (0, heap_example)" "heap_used heap_example = (\<lambda>b. None)"
  "map (\<lambda>x. (fst x, ha_cbSize (snd x))) (phaChain heap_example) = [(0x10000, BLOCKSIZE)]"
proof -
  obtain h' where "resHeapInit (\<lambda>_. Some 0x10000) 0 0x100000 heap_zero = Inr (0, h')" "heap_used h' = (\<lambda>b. None)"
    "map (\<lambda>x. (fst x, ha_cbSize (snd x))) (phaChain h') = [(0x10000, max BLOCKSIZE 0)]"
    using resHeapInit_ok [of "\<lambda>_. Some 0x10000" 0 "0x10000" "0x100000" heap_zero] by (auto simp: BLOCKSIZE_def)
  then show "resHeapInit (\<lambda>_. Some 0x10000) 0 0x100000 heap_zero = Inr (0, heap_example)" "heap_used heap_example = (\<lambda>b. None)"
    "map (\<lambda>x. (fst x, ha_cbSize (snd x))) (phaChain heap_example) = [(0x10000, BLOCKSIZE)]"
    by (simp_all add: heap_example_def)
qed

lemma heap_example_reachable: "heap_reachable heap_example"
  using heap_reachable.init [of "\<lambda>_. Some 0x10000" 0 "0x10000", OF _ _ _ _ _ heap_example_init(1)]
  by (simp add: BLOCKSIZE_def)

lemma heap_example_room: "heap_room 200 heap_example"
proof (rule heap_room_small [OF heap_reachable_inv [OF heap_example_reachable]])
  fix x assume "x \<in> set (phaChain heap_example)"
  moreover have "map (\<lambda>x. ha_cbSize (snd x)) (phaChain heap_example) = [BLOCKSIZE]"
    using arg_cong [OF heap_example_init(3), of "map snd"] by (simp add: comp_def)
  then have "(\<lambda>x. ha_cbSize (snd x)) ` set (phaChain heap_example) = {BLOCKSIZE}" by (metis list.set(1,2) set_map)
  ultimately have "ha_cbSize (snd x) \<in> {BLOCKSIZE}" by blast
  then show "ha_cbSize (snd x) \<le> 700000" by (simp add: BLOCKSIZE_def)
qed

lemmas heap_example_facts = heap_example_reachable heap_room_mono [OF heap_example_room] heap_example_init(2)

lemma request_ok_100: "request_ok 100"
  by (simp add: request_ok_def min_user_size_def ALIGN_def ALIGNMENT_def BLOCKSIZE_def CB_HDR_def CB_MEMBLOCKFREE_def)

lemma vm_fresh_none: "vm_fresh (\<lambda>_. None) h"
  by (simp add: vm_fresh_def)

text \<open>The same heap with a block of 100 bytes allocated, then one of 200.\<close>

definition heap_example1 :: res_heap where
  "heap_example1 = snd (projr (rmalloc (\<lambda>_. None) heap_example 100))"

definition heap_example2 :: res_heap where
  "heap_example2 = snd (projr (rmalloc (\<lambda>_. None) heap_example1 200))"

lemma request_ok_200: "request_ok 200"
  by (simp add: request_ok_def min_user_size_def ALIGN_def ALIGNMENT_def BLOCKSIZE_def CB_HDR_def CB_MEMBLOCKFREE_def)

lemma heap_example1_malloc:
  "rmalloc (\<lambda>_. None) heap_example 100 = Inr (Some 0x4FF9C, heap_example1)" "heap_reachable heap_example1"
  "heap_room 199 heap_example1"
proof -
  have room: "heap_room 1 heap_example" by (rule heap_example_facts(2)) simp
  obtain q h' where r: "rmalloc (\<lambda>_. None) heap_example 100 = Inr (q, h')" "allocated heap_example 100 q h'"
    using rmalloc_ok [OF heap_reachable_inv [OF heap_example_reachable] room vm_fresh_none request_ok_100] by blast
  moreover have "fst (projr (rmalloc (\<lambda>_. None) heap_example 100)) = Some 0x4FF9C" by code_simp
  ultimately show e: "rmalloc (\<lambda>_. None) heap_example 100 = Inr (Some 0x4FF9C, heap_example1)"
    by (simp add: heap_example1_def)
  show "heap_reachable heap_example1"
    by (rule heap_reachable_step(1) [OF heap_example_reachable room vm_fresh_none request_ok_100 e])
  have "heap_room (Suc 199) heap_example" using heap_example_room by simp
  then show "heap_room 199 heap_example1" using r e unfolding allocated_def by auto
qed

lemma heap_example2_malloc: "heap_reachable heap_example2"
proof -
  have room: "heap_room 1 heap_example1" by (rule heap_room_mono [OF heap_example1_malloc(3)]) simp
  obtain q h' where r: "rmalloc (\<lambda>_. None) heap_example1 200 = Inr (q, h')"
    using rmalloc_ok [OF heap_reachable_inv [OF heap_example1_malloc(2)] room vm_fresh_none request_ok_200] by blast
  then have "rmalloc (\<lambda>_. None) heap_example1 200 = Inr (q, heap_example2)" by (simp add: heap_example2_def)
  then show ?thesis by (rule heap_reachable_step(1) [OF heap_example1_malloc(2) room vm_fresh_none request_ok_200])
qed

section \<open>Properties\<close>

text \<open>C2. \<open>rmalloc\<close> on any reachable heap with room in its trees, for any request that neither wraps nor fills a
  256 KB block to its last hundred bytes: it returns without a fault, the heap it leaves is reachable, and either it returns null and no
  used block changed, or it returns the user pointer of one new used block of at least the size asked for, where
  there was none, and every other block is as it was.\<close>

theorem rmalloc_allocates:
  assumes "heap_reachable h" "heap_room 1 h" "vm_fresh vm h" "request_ok n"
  shows "\<exists>q h'. rmalloc vm h n = Inr (q, h') \<and> heap_reachable h' \<and>
    (case q of
       None \<Rightarrow> heap_used h' = heap_used h
     | Some p \<Rightarrow> n \<noteq> 0 \<and> heap_used h (p - CB_HDR) = None \<and>
         (\<exists>sz. n \<le> sz \<and> heap_used h' = (heap_used h)(p - CB_HDR \<mapsto> sz)))"
proof -
  obtain q h' where r: "rmalloc vm h n = Inr (q, h')" "allocated h n q h'"
    using rmalloc_ok [OF heap_reachable_inv [OF assms(1)] assms(2-4)] by blast
  then have "heap_reachable h'" using heap_reachable_step(1) [OF assms] by blast
  then show ?thesis using r by (auto simp: allocated_def)
qed

theorem rmalloc_allocates_witness:
  "\<exists>q h'. rmalloc (\<lambda>_. None) heap_example 100 = Inr (q, h') \<and> heap_reachable h' \<and>
    (case q of
       None \<Rightarrow> heap_used h' = heap_used heap_example
     | Some p \<Rightarrow> (100 :: ulong) \<noteq> 0 \<and> heap_used heap_example (p - CB_HDR) = None \<and>
         (\<exists>sz. 100 \<le> sz \<and> heap_used h' = (heap_used heap_example)(p - CB_HDR \<mapsto> sz)))"
  by (rule rmalloc_allocates) (simp_all add: heap_example_facts vm_fresh_none request_ok_100)

text \<open>C9. \<open>rmalloc\<close> never gives up while a free block holds the rounded request and a header: then it returns a
  block whatever the system would answer.\<close>

theorem rmalloc_finds_fitting_block:
  assumes "heap_reachable h" "heap_room 1 h" "n \<noteq> 0" "request_ok n"
    and "x \<in> set (phaChain h)" "avl_map (pmbFree (snd x)) f \<noteq> None" "unat (min_user_size n) + 24 \<le> unat (hp_size h f)"
  shows "\<exists>p h'. rmalloc vm h n = Inr (Some p, h')"
proof -
  have "f \<in> free_blocks (snd x)" using assms(6) by blast
  from rmalloc_fits [OF heap_reachable_inv [OF assms(1)] assms(2-5) this assms(7)] show ?thesis by blast
qed

theorem rmalloc_finds_fitting_block_witness:
  "\<exists>p h'. rmalloc (\<lambda>_. None) heap_example 100 = Inr (Some p, h')"
proof (rule rmalloc_finds_fitting_block [where x = "hd (phaChain heap_example)" and f = "0x10024"])
  have "phaChain heap_example \<noteq> []" by code_simp
  then show "hd (phaChain heap_example) \<in> set (phaChain heap_example)" by (rule hd_in_set)
  show "avl_map (pmbFree (snd (hd (phaChain heap_example)))) 0x10024 \<noteq> None" by code_simp
  have "hp_size heap_example 0x10024 = 262084" "min_user_size 100 = 100" by code_simp+
  then show "unat (min_user_size 100) + 24 \<le> unat (hp_size heap_example 0x10024)" by simp
qed (simp_all add: heap_example_facts request_ok_100)

text \<open>C4. \<open>rfree\<close> of any pointer at all, on any reachable heap with room, returns without a fault: the block in front of
  the pointer is used no longer, every other block is as it was, and the heap stays reachable.\<close>

theorem rfree_releases:
  assumes "heap_reachable h" "heap_room 1 h"
  shows "\<exists>h'. rfree h pv = Inr h' \<and> heap_reachable h' \<and> heap_used h' = (heap_used h)(pv - CB_HDR := None)"
proof -
  obtain h' where r: "rfree h pv = Inr h'" "heap_used h' = (heap_used h)(pv - CB_HDR := None)"
    using rfree_ok [OF heap_reachable_inv [OF assms(1)] heap_room_mono [OF assms(2)]] by blast
  then show ?thesis using heap_reachable_step(3) [OF assms] by blast
qed

theorem rfree_releases_witness:
  "\<exists>h'. rfree heap_example 0x10100 = Inr h' \<and> heap_reachable h' \<and>
    heap_used h' = (heap_used heap_example)(0x10100 - CB_HDR := None)"
  by (rule rfree_releases) (simp_all add: heap_example_facts)

text \<open>C3. \<open>rrealloc\<close> of any pointer: without a fault it returns either null, with every used block as it was, or a
  pointer to a block of at least the new size that takes the place of the old one, at the old address (shrunk,
  or grown into the free block behind it) or where there was no block.\<close>

theorem rrealloc_resizes:
  assumes "heap_reachable h" "heap_room 1 h" "vm_fresh vm h" "request_ok n"
  shows "\<exists>q h'. rrealloc vm h pv n = Inr (q, h') \<and> heap_reachable h' \<and>
    (case q of
       None \<Rightarrow> heap_used h' = heap_used h
     | Some p \<Rightarrow> (p = pv \<or> heap_used h (p - CB_HDR) = None) \<and>
         (\<exists>sz. n \<le> sz \<and> heap_used h' = (heap_used h)(pv - CB_HDR := None, p - CB_HDR \<mapsto> sz)))"
proof -
  obtain q h' where r: "rrealloc vm h pv n = Inr (q, h')" "reallocated h pv n q h'"
    using rrealloc_ok [OF heap_reachable_inv [OF assms(1)] assms(2-4)] by blast
  then have "heap_reachable h'" using heap_reachable_step(2) [OF assms] by blast
  then show ?thesis using r by (auto simp: reallocated_def)
qed

theorem rrealloc_resizes_witness:
  "\<exists>q h'. rrealloc (\<lambda>_. None) heap_example 0 100 = Inr (q, h') \<and> heap_reachable h' \<and>
    (case q of
       None \<Rightarrow> heap_used h' = heap_used heap_example
     | Some p \<Rightarrow> (p = 0 \<or> heap_used heap_example (p - CB_HDR) = None) \<and>
         (\<exists>sz. 100 \<le> sz \<and> heap_used h' = (heap_used heap_example)(0 - CB_HDR := None, p - CB_HDR \<mapsto> sz)))"
  by (rule rrealloc_resizes) (simp_all add: heap_example_facts vm_fresh_none request_ok_100)

text \<open>C6. The used blocks of a reachable heap never overlap: the header and the user data of one end before the
  header of the other starts.\<close>

theorem heap_used_disjoint:
  assumes "heap_reachable h" "heap_used h b = Some s" "heap_used h c = Some t" "b \<noteq> c"
  shows "unat b + unat CB_HDR + unat s \<le> unat c \<or> unat c + unat CB_HDR + unat t \<le> unat b"
  using used_disjoint [OF heap_reachable_inv [OF assms(1)] assms(2-4)] by (simp add: CB_HDR_def)

theorem heap_used_disjoint_witness:
  "unat (0x4FEA4 :: ulong) + unat CB_HDR + unat (200 :: ulong) \<le> unat (0x4FF84 :: ulong) \<or>
   unat (0x4FF84 :: ulong) + unat CB_HDR + unat (100 :: ulong) \<le> unat (0x4FEA4 :: ulong)"
proof (rule heap_used_disjoint [OF heap_example2_malloc])
  show "heap_used heap_example2 0x4FEA4 = Some 200" by code_simp
  show "heap_used heap_example2 0x4FF84 = Some 100" by code_simp
qed simp

text \<open>C5. In every anchor of a reachable heap the counters, the headers and the anchor itself add up to its size,
  no block is both free and used, and no two free blocks are neighbours.\<close>

theorem heap_anchor_accounts:
  assumes "heap_reachable h" "x \<in> set (phaChain h)"
  shows "unat (cbFree (snd x)) + unat (cbUsed (snd x)) +
      unat CB_HDR * (avl_size (pmbFree (snd x)) + avl_size (pmbUsed (snd x))) + unat CB_HEAPANCHOR = unat (ha_cbSize (snd x)) \<and>
    dom (avl_map (pmbFree (snd x))) \<inter> dom (avl_map (pmbUsed (snd x))) = {} \<and>
    (\<forall>f\<in>dom (avl_map (pmbFree (snd x))). PNEXT_BLOCK (hp_size h) f \<notin> dom (avl_map (pmbFree (snd x))))"
proof -
  obtain bs where g: "anchor_good (hp_size h) (hp_sig h) x bs"
    using heap_inv_good [OF heap_reachable_inv [OF assms(1)] assms(2)] by blast
  then have inv: "anchor_inv (hp_size h) (fst x) (snd x) (free_blocks (snd x)) (used_blocks (snd x)) {} bs"
    by (simp add: anchor_good_def)
  note i = anchor_invD [OF inv]
  have "PNEXT_BLOCK (hp_size h) f \<notin> free_blocks (snd x)" if "f \<in> free_blocks (snd x)" for f
  proof
    assume "PNEXT_BLOCK (hp_size h) f \<in> free_blocks (snd x)"
    moreover have "hnext (hp_size h) f = unat (PNEXT_BLOCK (hp_size h) f)" using anchor_inv_next [OF inv, of f] that by simp
    ultimately show False using i(11) that unfolding coalesced_def by blast
  qed
  then show ?thesis
    using anchor_inv_bytes [OF inv] anchor_good_length [OF g] i(4,9,10) by (simp add: CB_HDR_def CB_HEAPANCHOR_def)
qed

theorem heap_anchor_accounts_witness:
  "unat (cbFree (snd (hd (phaChain heap_example)))) + unat (cbUsed (snd (hd (phaChain heap_example)))) +
      unat CB_HDR * (avl_size (pmbFree (snd (hd (phaChain heap_example)))) +
        avl_size (pmbUsed (snd (hd (phaChain heap_example))))) + unat CB_HEAPANCHOR =
    unat (ha_cbSize (snd (hd (phaChain heap_example))))"
proof -
  have "phaChain heap_example \<noteq> []" by code_simp
  then show ?thesis using heap_anchor_accounts [OF heap_example_reachable hd_in_set] by blast
qed

text \<open>C8. Allocating and releasing is the identity on the used blocks, and between the two \<open>_res_msize\<close> reports at least
  the size asked for, 0 afterwards.\<close>

theorem rmalloc_rfree_roundtrip:
  assumes "heap_reachable h" "heap_room 1 h" "vm_fresh vm h" "request_ok n"
    and "rmalloc vm h n = Inr (Some p, h')"
  shows "n \<le> res_msize h' p \<and> (\<exists>h''. rfree h' p = Inr h'' \<and> heap_used h'' = heap_used h \<and> res_msize h'' p = 0)"
proof -
  have inv: "heap_inv h" by (rule heap_reachable_inv [OF assms(1)])
  have al: "allocated h n (Some p) h'" using rmalloc_ok [OF inv assms(2-4)] assms(5) by auto
  have h1: "heap_inv h'" using al by (simp add: allocated_def)
  have room: "heap_room 0 h'" using al assms(2) by (simp add: allocated_def)
  obtain sz where sz: "n \<le> sz" "heap_used h' = (heap_used h)(p - CB_HDR \<mapsto> sz)" "heap_used h (p - CB_HDR) = None"
    using al by (auto simp: allocated_def)
  obtain h'' where f: "rfree h' p = Inr h''" "heap_inv h''" "heap_used h'' = (heap_used h')(p - CB_HDR := None)"
    using rfree_ok [OF h1 room] by blast
  have "heap_used h'' = heap_used h" using f(3) sz(2,3) by (simp add: fun_upd_idem)
  then show ?thesis using f sz res_msize_eq [OF h1, of p] res_msize_eq [OF f(2), of p] by simp
qed

theorem rmalloc_rfree_roundtrip_witness:
  "100 \<le> res_msize heap_example1 0x4FF9C \<and>
   (\<exists>h''. rfree heap_example1 0x4FF9C = Inr h'' \<and> heap_used h'' = heap_used heap_example \<and> res_msize h'' 0x4FF9C = 0)"
  by (rule rmalloc_rfree_roundtrip [OF _ _ vm_fresh_none _ heap_example1_malloc(1)])
     (simp_all add: heap_example_facts request_ok_100)



text \<open>\<open>_res_heapmin\<close> gives back to the system exactly the unused anchors behind the first, no used block is
  lost, and the heap stays reachable.\<close>

theorem res_heapmin_keeps_blocks:
  assumes "heap_reachable h" "heap_room 1 h" "res_heapmin h = (given, h')"
  shows "heap_reachable h' \<and> heap_used h' = heap_used h \<and>
    set given = fst ` (set (phaChain h) - set (phaChain h')) \<and>
    (\<forall>x\<in>set (phaChain h) - set (phaChain h'). cbUsed (snd x) = 0)"
  using res_heapmin_ok [OF heap_reachable_inv [OF assms(1)] assms(3)] heap_reachable_step(4) [OF assms] by blast

theorem res_heapmin_keeps_blocks_witness:
  "heap_used (snd (res_heapmin heap_example)) = heap_used heap_example"
  using res_heapmin_keeps_blocks [of heap_example "fst (res_heapmin heap_example)" "snd (res_heapmin heap_example)"]
  by (simp add: heap_example_facts)

section \<open>Defects\<close>

text \<open>C39. \<open>_res_validptr\<close> and \<open>_res_validptr2\<close> reject every pointer, valid ones included: \<open>resFindWithinUsedBlock\<close>
  asks for the nearest block above the pointer where the one below it was meant.\<close>

theorem res_validptr_rejects_all:
  assumes "heap_reachable h"
  shows "\<not> res_validptr h pv \<and> \<not> res_validptr2 h pv cb"
  using resFindWithinUsedBlock_None [OF heap_reachable_inv [OF assms]]
  by (simp add: res_validptr_def res_validptr2_def)

theorem res_validptr_rejects_all_witness:
  "res_msize heap_example1 0x4FF9C = 100 \<and> \<not> res_validptr heap_example1 0x4FF9C"
proof
  show "res_msize heap_example1 0x4FF9C = 100" by code_simp
qed (rule conjunct1 [OF res_validptr_rejects_all [OF heap_example1_malloc(2)]])

text \<open>The rounding of the size wraps: a request for one of the three largest sizes is answered with the block for a
  single byte.\<close>

theorem rmalloc_wraps_huge_request:
  assumes "0xFFFFFFFC < n"
  shows "rmalloc vm h n = rmalloc vm h 1"
proof -
  have "unat n < 2 ^ LENGTH(32)" by (rule unsigned_less)
  moreover have "0xFFFFFFFC < unat n" using assms by (simp add: word_less_nat_alt)
  ultimately have "unat n = unat (0xFFFFFFFD :: ulong) \<or> unat n = unat (0xFFFFFFFE :: ulong) \<or> unat n = unat (0xFFFFFFFF :: ulong)"
    by simp linarith
  then have "n = 0xFFFFFFFD \<or> n = 0xFFFFFFFE \<or> n = 0xFFFFFFFF" by (simp only: word_unat_eq_iff)
  then have "min_user_size n = min_user_size 1" "n \<noteq> 0"
    by (auto simp: min_user_size_def ALIGN_def ALIGNMENT_def CB_HDR_def CB_MEMBLOCKFREE_def)
  then show ?thesis by (simp add: rmalloc_def resGetFreeMemblock_def)
qed

theorem rmalloc_wraps_huge_request_witness:
  "rmalloc (\<lambda>_. None) heap_example 0xFFFFFFFF = rmalloc (\<lambda>_. None) heap_example 1"
  by (rule rmalloc_wraps_huge_request) simp



end
