(* ===== verification/Rtl.thy ===== *)
theory Rtl
  imports Prelude
begin

text \<open>
  Checksums and memory functions of \<open>ntdll/rtl.c\<close>: \<open>RtlComputeCrc32\<close> with its table, compared with the
  bitwise division by the polynomial, \<open>RtlCompareMemory\<close> and \<open>RtlFillMemoryUlong\<close>. A buffer is the list
  of its elements, reading or writing behind its end is a fault.
\<close>

section \<open>The checksum\<close>

definition CRC_table :: "ulong list" where
  "CRC_table =
    [0x00000000, 0x77073096, 0xee0e612c, 0x990951ba, 0x076dc419, 0x706af48f, 0xe963a535, 0x9e6495a3,
     0x0edb8832, 0x79dcb8a4, 0xe0d5e91e, 0x97d2d988, 0x09b64c2b, 0x7eb17cbd, 0xe7b82d07, 0x90bf1d91,
     0x1db71064, 0x6ab020f2, 0xf3b97148, 0x84be41de, 0x1adad47d, 0x6ddde4eb, 0xf4d4b551, 0x83d385c7,
     0x136c9856, 0x646ba8c0, 0xfd62f97a, 0x8a65c9ec, 0x14015c4f, 0x63066cd9, 0xfa0f3d63, 0x8d080df5,
     0x3b6e20c8, 0x4c69105e, 0xd56041e4, 0xa2677172, 0x3c03e4d1, 0x4b04d447, 0xd20d85fd, 0xa50ab56b,
     0x35b5a8fa, 0x42b2986c, 0xdbbbc9d6, 0xacbcf940, 0x32d86ce3, 0x45df5c75, 0xdcd60dcf, 0xabd13d59,
     0x26d930ac, 0x51de003a, 0xc8d75180, 0xbfd06116, 0x21b4f4b5, 0x56b3c423, 0xcfba9599, 0xb8bda50f,
     0x2802b89e, 0x5f058808, 0xc60cd9b2, 0xb10be924, 0x2f6f7c87, 0x58684c11, 0xc1611dab, 0xb6662d3d,
     0x76dc4190, 0x01db7106, 0x98d220bc, 0xefd5102a, 0x71b18589, 0x06b6b51f, 0x9fbfe4a5, 0xe8b8d433,
     0x7807c9a2, 0x0f00f934, 0x9609a88e, 0xe10e9818, 0x7f6a0dbb, 0x086d3d2d, 0x91646c97, 0xe6635c01,
     0x6b6b51f4, 0x1c6c6162, 0x856530d8, 0xf262004e, 0x6c0695ed, 0x1b01a57b, 0x8208f4c1, 0xf50fc457,
     0x65b0d9c6, 0x12b7e950, 0x8bbeb8ea, 0xfcb9887c, 0x62dd1ddf, 0x15da2d49, 0x8cd37cf3, 0xfbd44c65,
     0x4db26158, 0x3ab551ce, 0xa3bc0074, 0xd4bb30e2, 0x4adfa541, 0x3dd895d7, 0xa4d1c46d, 0xd3d6f4fb,
     0x4369e96a, 0x346ed9fc, 0xad678846, 0xda60b8d0, 0x44042d73, 0x33031de5, 0xaa0a4c5f, 0xdd0d7cc9,
     0x5005713c, 0x270241aa, 0xbe0b1010, 0xc90c2086, 0x5768b525, 0x206f85b3, 0xb966d409, 0xce61e49f,
     0x5edef90e, 0x29d9c998, 0xb0d09822, 0xc7d7a8b4, 0x59b33d17, 0x2eb40d81, 0xb7bd5c3b, 0xc0ba6cad,
     0xedb88320, 0x9abfb3b6, 0x03b6e20c, 0x74b1d29a, 0xead54739, 0x9dd277af, 0x04db2615, 0x73dc1683,
     0xe3630b12, 0x94643b84, 0x0d6d6a3e, 0x7a6a5aa8, 0xe40ecf0b, 0x9309ff9d, 0x0a00ae27, 0x7d079eb1,
     0xf00f9344, 0x8708a3d2, 0x1e01f268, 0x6906c2fe, 0xf762575d, 0x806567cb, 0x196c3671, 0x6e6b06e7,
     0xfed41b76, 0x89d32be0, 0x10da7a5a, 0x67dd4acc, 0xf9b9df6f, 0x8ebeeff9, 0x17b7be43, 0x60b08ed5,
     0xd6d6a3e8, 0xa1d1937e, 0x38d8c2c4, 0x4fdff252, 0xd1bb67f1, 0xa6bc5767, 0x3fb506dd, 0x48b2364b,
     0xd80d2bda, 0xaf0a1b4c, 0x36034af6, 0x41047a60, 0xdf60efc3, 0xa867df55, 0x316e8eef, 0x4669be79,
     0xcb61b38c, 0xbc66831a, 0x256fd2a0, 0x5268e236, 0xcc0c7795, 0xbb0b4703, 0x220216b9, 0x5505262f,
     0xc5ba3bbe, 0xb2bd0b28, 0x2bb45a92, 0x5cb36a04, 0xc2d7ffa7, 0xb5d0cf31, 0x2cd99e8b, 0x5bdeae1d,
     0x9b64c2b0, 0xec63f226, 0x756aa39c, 0x026d930a, 0x9c0906a9, 0xeb0e363f, 0x72076785, 0x05005713,
     0x95bf4a82, 0xe2b87a14, 0x7bb12bae, 0x0cb61b38, 0x92d28e9b, 0xe5d5be0d, 0x7cdcefb7, 0x0bdbdf21,
     0x86d3d2d4, 0xf1d4e242, 0x68ddb3f8, 0x1fda836e, 0x81be16cd, 0xf6b9265b, 0x6fb077e1, 0x18b74777,
     0x88085ae6, 0xff0f6a70, 0x66063bca, 0x11010b5c, 0x8f659eff, 0xf862ae69, 0x616bffd3, 0x166ccf45,
     0xa00ae278, 0xd70dd2ee, 0x4e048354, 0x3903b3c2, 0xa7672661, 0xd06016f7, 0x4969474d, 0x3e6e77db,
     0xaed16a4a, 0xd9d65adc, 0x40df0b66, 0x37d83bf0, 0xa9bcae53, 0xdebb9ec5, 0x47b2cf7f, 0x30b5ffe9,
     0xbdbdf21c, 0xcabac28a, 0x53b39330, 0x24b4a3a6, 0xbad03605, 0xcdd70693, 0x54de5729, 0x23d967bf,
     0xb3667a2e, 0xc4614ab8, 0x5d681b02, 0x2a6f2b94, 0xb40bbe37, 0xc30c8ea1, 0x5a05df1b, 0x2d02ef8d]"

fun crc_loop :: "ulong \<Rightarrow> uchar list \<Rightarrow> int \<Rightarrow> ulong res" where
  "crc_loop crc [] iLen = (if 0 < iLen then Inl OutOfBounds else Inr crc)"
| "crc_loop crc (b # pData) iLen =
     (if 0 < iLen
      then crc_loop (CRC_table ! unat ((crc XOR ucast b) AND 0xff) XOR drop_bit 8 crc) pData (iLen - 1)
      else Inr crc)"

definition RtlComputeCrc32 :: "ulong \<Rightarrow> uchar list \<Rightarrow> int \<Rightarrow> ulong res" where
  "RtlComputeCrc32 dwInitial pData iLen = bind_res (crc_loop (NOT dwInitial) pData iLen) (\<lambda>crc. Inr (NOT crc))"

text \<open>One bit of the division by the polynomial, lowest bit first.\<close>

definition crc_bit :: "ulong \<Rightarrow> ulong" where
  "crc_bit c = (if bit c 0 then drop_bit 1 c XOR 0xedb88320 else drop_bit 1 c)"

definition crc_byte :: "ulong \<Rightarrow> uchar \<Rightarrow> ulong" where
  "crc_byte c b = (crc_bit ^^ 8) (c XOR ucast b)"

definition crc32 :: "ulong \<Rightarrow> uchar list \<Rightarrow> ulong" where
  "crc32 init bs = NOT (foldl crc_byte (NOT init) bs)"

text \<open>The table holds the remainders of the 256 bytes.\<close>

lemma length_CRC_table: "length CRC_table = 256"
  by (simp add: CRC_table_def)

lemma crc_bit_xor: "crc_bit (a XOR b) = crc_bit a XOR crc_bit b"
  by (simp add: crc_bit_def bit_simps drop_bit_xor ac_simps)

lemma crc_bits_xor: "(crc_bit ^^ n) (a XOR b) = (crc_bit ^^ n) a XOR (crc_bit ^^ n) b"
  by (induction n) (simp_all add: crc_bit_xor)

text \<open>The remainders are linear, so those of the eight single bits give all 256.\<close>

fun xor_span :: "ulong list \<Rightarrow> ulong list" where
  "xor_span [] = [0]"
| "xor_span (g # gs) = xor_span gs @ map (\<lambda>v. g XOR v) (xor_span gs)"

definition crc_gens :: "nat \<Rightarrow> ulong list" where
  "crc_gens n = map (\<lambda>k. (crc_bit ^^ 8) (2 ^ k)) (rev [0..<n])"

lemma length_xor_span: "length (xor_span gs) = 2 ^ length gs"
  by (induction gs) simp_all

lemma add_bit_xor:
  assumes "j < 2 ^ n" and "n < 32"
  shows "(2 ^ n :: ulong) XOR of_nat j = of_nat (2 ^ n + j)"
proof -
  have "\<not> bit j n" using assms(1) by (metis bit_take_bit_iff less_irrefl take_bit_nat_eq_self)
  then have "(2 ^ n :: ulong) AND of_nat j = 0"
    by (intro bit_word_eqI) (auto simp: bit_simps)
  then show ?thesis by (simp add: disjunctive_add_eq_xor [symmetric])
qed

lemma xor_span_gens: "n \<le> 32 \<Longrightarrow> i < 2 ^ n \<Longrightarrow> xor_span (crc_gens n) ! i = (crc_bit ^^ 8) (of_nat i)"
proof (induction n arbitrary: i)
  case 0
  have "(crc_bit ^^ 8) 0 = 0" by code_simp
  then show ?case using 0 by (simp add: crc_gens_def)
next
  case (Suc n)
  have gens: "crc_gens (Suc n) = (crc_bit ^^ 8) (2 ^ n) # crc_gens n" by (simp add: crc_gens_def)
  have len: "length (xor_span (crc_gens n)) = 2 ^ n" by (simp add: length_xor_span crc_gens_def)
  show ?case
  proof (cases "i < 2 ^ n")
    case True
    then show ?thesis using Suc len by (simp add: gens nth_append del: funpow.simps)
  next
    case False
    then have j: "i - 2 ^ n < 2 ^ n" "2 ^ n + (i - 2 ^ n) = i" using Suc.prems(2) by auto
    then have "xor_span (crc_gens (Suc n)) ! i = (crc_bit ^^ 8) (2 ^ n) XOR (crc_bit ^^ 8) (of_nat (i - 2 ^ n))"
      using False Suc len by (simp add: gens nth_append del: funpow.simps)
    also have "\<dots> = (crc_bit ^^ 8) (of_nat i)"
      using add_bit_xor [OF j(1)] Suc.prems(1) j(2) by (simp add: crc_bits_xor [symmetric] del: funpow.simps)
    finally show ?thesis .
  qed
qed

lemma CRC_table_span: "CRC_table = xor_span (crc_gens 8)"
proof -
  have "crc_gens 8 = [0xedb88320, 0x76dc4190, 0x3b6e20c8, 0x1db71064, 0x0edb8832, 0x076dc419, 0xee0e612c, 0x77073096]"
    by code_simp
  then show ?thesis by (simp add: CRC_table_def)
qed

lemma CRC_table_remainder: "i < 256 \<Longrightarrow> CRC_table ! i = (crc_bit ^^ 8) (of_nat i)"
  using xor_span_gens [of 8 i] by (simp add: CRC_table_span del: funpow.simps)

text \<open>Whole bytes above the first pass through unchanged.\<close>

lemma crc_bits_shift: "(crc_bit ^^ n) (push_bit n (drop_bit n c)) = drop_bit n c"
proof (induction n arbitrary: c)
  case (Suc n)
  have "\<not> bit (push_bit (Suc n) (drop_bit (Suc n) c)) 0"
    by (simp add: bit_push_bit_iff del: push_bit_Suc)
  then have "crc_bit (push_bit (Suc n) (drop_bit (Suc n) c)) = drop_bit 1 (push_bit (Suc n) (drop_bit (Suc n) c))"
    by (simp only: crc_bit_def if_False)
  also have "\<dots> = push_bit n (drop_bit n (drop_bit 1 c))"
    by (rule bit_word_eqI) (auto simp: bit_push_bit_iff bit_drop_bit_eq dest: bit_imp_le_length simp del: push_bit_Suc drop_bit_Suc)
  finally have "(crc_bit ^^ Suc n) (push_bit (Suc n) (drop_bit (Suc n) c)) = (crc_bit ^^ n) (push_bit n (drop_bit n (drop_bit 1 c)))"
    by (simp add: funpow_Suc_right del: funpow.simps push_bit_Suc drop_bit_Suc)
  also have "\<dots> = drop_bit (Suc n) c"
    unfolding Suc by (simp add: drop_bit_drop_bit del: drop_bit_Suc)
  finally show ?case .
qed simp

lemma xor_cancel: "(a :: ulong) XOR b = c XOR b \<Longrightarrow> a = c" "(b :: ulong) XOR a = b XOR c \<Longrightarrow> a = c"
    "(a :: ulong) XOR c = 0 \<Longrightarrow> a = c"
proof -
  have l: "(v XOR w) XOR w = v" for v w :: ulong by (simp add: xor.assoc)
  then show "a XOR b = c XOR b \<Longrightarrow> a = c" by metis
  then show "b XOR a = b XOR c \<Longrightarrow> a = c" by (simp add: xor.commute)
  show "a XOR c = 0 \<Longrightarrow> a = c" using l by (metis xor.left_neutral)
qed

text \<open>One table lookup is eight bits of the division.\<close>

lemma crc_lookup:
  "CRC_table ! unat ((c XOR ucast (b :: uchar)) AND 0xff) XOR drop_bit 8 c = crc_byte c b"
proof -
  let ?x = "c XOR ucast b"
  have "take_bit 8 ?x XOR push_bit 8 (drop_bit 8 ?x) = ?x"
  proof (rule bit_word_eqI)
    fix n assume "n < LENGTH(32)"
    then show "bit (take_bit 8 ?x XOR push_bit 8 (drop_bit 8 ?x)) n = bit ?x n"
      by (cases "n < 8") (simp_all add: bit_simps)
  qed
  then have split: "(?x AND 0xff) XOR push_bit 8 (drop_bit 8 ?x) = ?x"
    by (simp add: take_bit_eq_mask mask_eq_exp_minus_1)
  have "unat (?x AND 0xff) \<le> unat (0xff :: ulong)" by (rule word_le_nat_alt [THEN iffD1]) (rule word_and_le1)
  then have lt: "unat (?x AND 0xff) < 256" by simp
  have high: "drop_bit 8 ?x = drop_bit 8 c"
    by (rule bit_word_eqI) (auto simp: bit_simps dest: bit_imp_le_length)
  have "crc_byte c b = (crc_bit ^^ 8) (?x AND 0xff) XOR (crc_bit ^^ 8) (push_bit 8 (drop_bit 8 ?x))"
    unfolding crc_byte_def crc_bits_xor [symmetric] split ..
  also have "\<dots> = CRC_table ! unat (?x AND 0xff) XOR drop_bit 8 c"
    unfolding crc_bits_shift high using CRC_table_remainder [OF lt] by simp
  finally show ?thesis by simp
qed

lemma crc_loop_bytes: "crc_loop crc pData iLen =
    (if iLen \<le> int (length pData) then Inr (foldl crc_byte crc (take (nat iLen) pData)) else Inl OutOfBounds)"
proof (induction crc pData iLen rule: crc_loop.induct)
  case (2 crc b pData iLen)
  show ?case
  proof (cases "0 < iLen")
    case True
    then have "take (nat iLen) (b # pData) = b # take (nat (iLen - 1)) pData" by (cases "nat iLen") (auto simp: nat_diff_distrib)
    then show ?thesis using 2 True by (simp add: crc_lookup)
  qed simp
qed simp

text \<open>The division loses nothing: equal remainders come from equal inputs.\<close>

lemma crc_bit_zero: "crc_bit d = 0 \<Longrightarrow> d = 0"
proof -
  assume d: "crc_bit d = 0"
  have "\<not> bit d 0"
  proof
    assume "bit d 0"
    then have "drop_bit 1 d = (0xedb88320 :: ulong)" using d xor_cancel(3) by (simp add: crc_bit_def)
    moreover have "\<not> bit (drop_bit 1 d) 31" by (auto simp: bit_drop_bit_eq dest: bit_imp_le_length)
    ultimately show False by simp
  qed
  moreover from this have "drop_bit 1 d = 0" using d by (simp add: crc_bit_def)
  ultimately show "d = 0"
  proof (intro bit_word_eqI)
    fix n
    show "bit d n = bit 0 n"
    proof (cases n)
      case (Suc m)
      then show ?thesis using arg_cong [OF \<open>drop_bit 1 d = 0\<close>, of "\<lambda>w. bit w m"] by (simp add: bit_drop_bit_eq)
    qed (use \<open>\<not> bit d 0\<close> in simp)
  qed
qed

lemma crc_bits_inj: "(crc_bit ^^ n) a = (crc_bit ^^ n) b \<Longrightarrow> a = b"
proof (induction n)
  case (Suc n)
  then have "crc_bit ((crc_bit ^^ n) a XOR (crc_bit ^^ n) b) = 0" by (simp add: crc_bit_xor)
  then have "(crc_bit ^^ n) a = (crc_bit ^^ n) b" using crc_bit_zero xor_cancel(3) by blast
  then show ?case by (rule Suc.IH)
qed simp

lemma crc_byte_inj:
  "crc_byte c b = crc_byte d b \<Longrightarrow> c = d" "crc_byte c b = crc_byte c b' \<Longrightarrow> b = b'"
proof -
  show "crc_byte c b = crc_byte d b \<Longrightarrow> c = d"
    unfolding crc_byte_def by (rule xor_cancel(1), erule crc_bits_inj)
  assume "crc_byte c b = crc_byte c b'"
  then have "c XOR ucast b = c XOR (ucast b' :: ulong)" unfolding crc_byte_def by (rule crc_bits_inj)
  then have "(ucast b :: ulong) = ucast b'" by (rule xor_cancel(2))
  then have eq: "bit (ucast b :: ulong) n = bit (ucast b' :: ulong) n" for n by simp
  have "bit b n = bit b' n" if "n < 8" for n
    using eq [of n] that by (auto simp: bit_ucast_iff)
  then show "b = b'" by (intro bit_word_eqI) simp
qed

lemma crc_bytes_inj: "foldl crc_byte c bs = foldl crc_byte d bs \<Longrightarrow> c = d"
  by (induction bs arbitrary: c d) (auto dest: crc_byte_inj(1))

section \<open>Memory\<close>

text \<open>\<open>i\<close> is an \<open>int\<close> compared with the unsigned length; both stay below \<open>2 ^ 31\<close> here.\<close>

fun RtlCompareMemory :: "uchar list \<Rightarrow> uchar list \<Rightarrow> nat \<Rightarrow> nat res" where
  "RtlCompareMemory xs ys 0 = Inr 0"
| "RtlCompareMemory (x # xs) (y # ys) (Suc n) =
     (if x = y then bind_res (RtlCompareMemory xs ys n) (\<lambda>i. Inr (Suc i)) else Inr 0)"
| "RtlCompareMemory xs ys (Suc n) = Inl OutOfBounds"

fun RtlFillMemoryUlong :: "ulong list \<Rightarrow> nat \<Rightarrow> ulong \<Rightarrow> ulong list res" where
  "RtlFillMemoryUlong xs 0 ulValue = Inr xs"
| "RtlFillMemoryUlong (x # xs) (Suc n) ulValue = bind_res (RtlFillMemoryUlong xs n ulValue) (\<lambda>ys. Inr (ulValue # ys))"
| "RtlFillMemoryUlong [] (Suc n) ulValue = Inl OutOfBounds"

lemma RtlFillMemoryUlong_eq:
  "RtlFillMemoryUlong xs n v = (if n \<le> length xs then Inr (replicate n v @ drop n xs) else Inl OutOfBounds)"
  by (induction xs n v rule: RtlFillMemoryUlong.induct) simp_all

text \<open>The number of equal bytes at the start.\<close>

lemma RtlCompareMemory_prefix:
  "n \<le> length xs \<Longrightarrow> n \<le> length ys \<Longrightarrow>
     \<exists>i. RtlCompareMemory xs ys n = Inr i \<and> i \<le> n \<and> take i xs = take i ys \<and> (i < n \<longrightarrow> xs ! i \<noteq> ys ! i)"
  by (induction xs ys n rule: RtlCompareMemory.induct) auto

section \<open>Properties\<close>

text \<open>C23. \<open>RtlComputeCrc32\<close> with its table computes the bitwise division by the polynomial \<open>0xedb88320\<close> of the
  bytes it reads, for any initial value and any length: nothing for a length that is not positive, a fault
  exactly when the length passes the end of the buffer.\<close>
theorem RtlComputeCrc32_bitwise:
  "RtlComputeCrc32 dwInitial pData iLen =
     (if iLen \<le> int (length pData) then Inr (crc32 dwInitial (take (nat iLen) pData)) else Inl OutOfBounds)"
  by (simp add: RtlComputeCrc32_def crc_loop_bytes crc32_def)

text \<open>C24. The checksum of a message can be computed in pieces, and two messages that differ in a single
  byte never have the same checksum.\<close>
theorem RtlComputeCrc32_detects:
  assumes "b \<noteq> b'"
  shows "bind_res (RtlComputeCrc32 c xs (int (length xs))) (\<lambda>d. RtlComputeCrc32 d ys (int (length ys))) =
      RtlComputeCrc32 c (xs @ ys) (int (length (xs @ ys))) \<and>
    RtlComputeCrc32 c (xs @ b # ys) (int (length (xs @ b # ys))) \<noteq>
      RtlComputeCrc32 c (xs @ b' # ys) (int (length (xs @ b' # ys)))"
proof -
  have all: "RtlComputeCrc32 c zs (int (length zs)) = Inr (crc32 c zs)" for c zs
    by (simp add: RtlComputeCrc32_def crc_loop_bytes crc32_def)
  have "crc32 c (xs @ b # ys) \<noteq> crc32 c (xs @ b' # ys)"
  proof
    assume "crc32 c (xs @ b # ys) = crc32 c (xs @ b' # ys)"
    then have "crc_byte (foldl crc_byte (NOT c) xs) b = crc_byte (foldl crc_byte (NOT c) xs) b'"
      by (auto simp: crc32_def dest: crc_bytes_inj)
    then show False using assms crc_byte_inj(2) by blast
  qed
  then show ?thesis unfolding all by (simp add: crc32_def)
qed

theorem RtlComputeCrc32_detects_witness:
  "RtlComputeCrc32 0 [0x61, 0x62, 0x63] 3 = Inr 0x352441C2 \<and>
   RtlComputeCrc32 0 ([0x61] @ 0x62 # [0x63]) (int (length ([0x61] @ 0x62 # [0x63 :: uchar]))) \<noteq>
     RtlComputeCrc32 0 ([0x61] @ 0x63 # [0x63]) (int (length ([0x61] @ 0x63 # [0x63 :: uchar])))"
proof -
  have "RtlComputeCrc32 0 [0x61, 0x62, 0x63] 3 = Inr 0x352441C2" by code_simp
  then show ?thesis using RtlComputeCrc32_detects [where b = "0x62" and b' = "0x63" and c = 0 and xs = "[0x61]" and ys = "[0x63]"] by simp
qed

end
