(* ===== verification/Mem.thy ===== *)
theory Mem
  imports Prelude
begin

text \<open>
  A byte memory for the code that computes with addresses: a map from 32-bit addresses to bytes, in which an
  access to an address that is not mapped is a fault. Numbers are stored lowest byte first, as on the
  processor the program runs on. \<open>stored m p bs\<close> says that the bytes at \<open>p\<close> are \<open>bs\<close>.
\<close>

type_synonym mem = "ulong \<Rightarrow> uchar option"

section \<open>Loads and stores\<close>

definition load8 :: "mem \<Rightarrow> ulong \<Rightarrow> uchar res" where
  "load8 m p = (case m p of None \<Rightarrow> Inl OutOfBounds | Some b \<Rightarrow> Inr b)"

fun load_bytes :: "mem \<Rightarrow> ulong \<Rightarrow> nat \<Rightarrow> uchar list res" where
  "load_bytes m p 0 = Inr []"
| "load_bytes m p (Suc n) = bind_res (load8 m p) (\<lambda>b. bind_res (load_bytes m (p + 1) n) (\<lambda>bs. Inr (b # bs)))"

definition store8 :: "mem \<Rightarrow> ulong \<Rightarrow> uchar \<Rightarrow> mem res" where
  "store8 m p b = (if m p = None then Inl OutOfBounds else Inr (m(p \<mapsto> b)))"

fun store_bytes :: "mem \<Rightarrow> ulong \<Rightarrow> uchar list \<Rightarrow> mem res" where
  "store_bytes m p [] = Inr m"
| "store_bytes m p (b # bs) = bind_res (store8 m p b) (\<lambda>m. store_bytes m (p + 1) bs)"

definition le2 :: "ushort \<Rightarrow> uchar list" where
  "le2 w = [ucast w, ucast (drop_bit 8 w)]"

definition le4 :: "ulong \<Rightarrow> uchar list" where
  "le4 w = [ucast w, ucast (drop_bit 8 w), ucast (drop_bit 16 w), ucast (drop_bit 24 w)]"

definition of_le2 :: "uchar list \<Rightarrow> ushort" where
  "of_le2 bs = ucast (bs ! 0) OR push_bit 8 (ucast (bs ! 1))"

definition of_le4 :: "uchar list \<Rightarrow> ulong" where
  "of_le4 bs =
     ucast (bs ! 0) OR push_bit 8 (ucast (bs ! 1)) OR push_bit 16 (ucast (bs ! 2)) OR push_bit 24 (ucast (bs ! 3))"

definition load16 :: "mem \<Rightarrow> ulong \<Rightarrow> ushort res" where
  "load16 m p = bind_res (load_bytes m p 2) (\<lambda>bs. Inr (of_le2 bs))"

definition load32 :: "mem \<Rightarrow> ulong \<Rightarrow> ulong res" where
  "load32 m p = bind_res (load_bytes m p 4) (\<lambda>bs. Inr (of_le4 bs))"

definition store16 :: "mem \<Rightarrow> ulong \<Rightarrow> ushort \<Rightarrow> mem res" where
  "store16 m p w = store_bytes m p (le2 w)"

definition store32 :: "mem \<Rightarrow> ulong \<Rightarrow> ulong \<Rightarrow> mem res" where
  "store32 m p w = store_bytes m p (le4 w)"

text \<open>A computation that returns without a fault, with a result that has a property.\<close>

definition returns :: "'a res \<Rightarrow> ('a \<Rightarrow> bool) \<Rightarrow> bool" where
  "returns r Q \<longleftrightarrow> (\<exists>x. r = Inr x \<and> Q x)"

lemma returns_Inr [simp]: "returns (Inr x) Q \<longleftrightarrow> Q x"
  by (simp add: returns_def)

lemma returns_bind: "returns r Q' \<Longrightarrow> (\<And>x. Q' x \<Longrightarrow> returns (f x) Q) \<Longrightarrow> returns (bind_res r f) Q"
  by (auto simp: returns_def)

lemma returns_mono: "returns r Q \<Longrightarrow> (\<And>x. Q x \<Longrightarrow> Q' x) \<Longrightarrow> returns r Q'"
  by (auto simp: returns_def)

section \<open>The memory functions of the C library\<close>

definition memset_zero :: "mem \<Rightarrow> ulong \<Rightarrow> nat \<Rightarrow> mem res" where
  "memset_zero m p n = store_bytes m p (replicate n 0)"

text \<open>The bytes of the source are read before the first is written; overlapping ranges are a fault.\<close>

definition overlaps :: "ulong \<Rightarrow> ulong \<Rightarrow> nat \<Rightarrow> bool" where
  "overlaps p q n \<longleftrightarrow> unat (q - p) < n \<or> unat (p - q) < n"

definition memcpy :: "mem \<Rightarrow> ulong \<Rightarrow> ulong \<Rightarrow> nat \<Rightarrow> mem res" where
  "memcpy m dst src n =
     (if overlaps dst src n then Inl Overlap else bind_res (load_bytes m src n) (\<lambda>bs. store_bytes m dst bs))"

text \<open>Whether \<open>memcmp\<close> returns 0; it may read every byte of both ranges.\<close>

definition memcmp_eq :: "mem \<Rightarrow> ulong \<Rightarrow> ulong \<Rightarrow> nat \<Rightarrow> bool res" where
  "memcmp_eq m p q n =
     bind_res (load_bytes m p n) (\<lambda>bs. bind_res (load_bytes m q n) (\<lambda>cs. Inr (bs = cs)))"

text \<open>\<open>IsBadReadPtr\<close> of \<open>kernel32\<close> is documented to be true when some byte of the range cannot be read.\<close>

definition IsBadReadPtr :: "mem \<Rightarrow> ulong \<Rightarrow> nat \<Rightarrow> bool" where
  "IsBadReadPtr m p n \<longleftrightarrow> list_ex (\<lambda>i. m (p + of_nat i) = None) [0..<n]"

section \<open>What is stored where\<close>

fun stored :: "mem \<Rightarrow> ulong \<Rightarrow> uchar list \<Rightarrow> bool" where
  "stored m p [] \<longleftrightarrow> True"
| "stored m p (b # bs) \<longleftrightarrow> m p = Some b \<and> stored m (p + 1) bs"

fun mem_upd :: "mem \<Rightarrow> ulong \<Rightarrow> uchar list \<Rightarrow> mem" where
  "mem_upd m p [] = m"
| "mem_upd m p (b # bs) = mem_upd (m(p \<mapsto> b)) (p + 1) bs"

lemma stored_append: "stored m p (xs @ ys) \<longleftrightarrow> stored m p xs \<and> stored m (p + of_nat (length xs)) ys"
  by (induction xs arbitrary: p) (auto simp: ac_simps)

lemma stored_nth: "stored m p bs \<longleftrightarrow> (\<forall>i < length bs. m (p + of_nat i) = Some (bs ! i))"
proof (induction bs arbitrary: p)
  case (Cons b bs)
  have "(\<forall>i < length (b # bs). m (p + of_nat i) = Some ((b # bs) ! i)) \<longleftrightarrow>
      m p = Some b \<and> (\<forall>i < length bs. m (p + 1 + of_nat i) = Some (bs ! i))"
    by (auto simp: less_Suc_eq_0_disj ac_simps)
  then show ?case by (simp add: Cons.IH)
qed simp

lemma load8_stored [simp]: "m p = Some b \<Longrightarrow> load8 m p = Inr b"
  by (simp add: load8_def)

lemma load_bytes_iff: "load_bytes m p n = Inr bs \<longleftrightarrow> length bs = n \<and> stored m p bs"
proof (induction n arbitrary: p bs)
  case (Suc n)
  show ?case
    by (cases bs) (auto simp: bind_res_eq_Inr Suc.IH load8_def split: option.splits)
qed auto

lemma load_bytes_stored: "stored m p bs \<Longrightarrow> n = length bs \<Longrightarrow> load_bytes m p n = Inr bs"
  by (simp add: load_bytes_iff)

lemma load_bytes_fault: "i < n \<Longrightarrow> m (p + of_nat i) = None \<Longrightarrow> load_bytes m p n = Inl OutOfBounds"
proof (induction n arbitrary: p i)
  case (Suc n)
  show ?case
  proof (cases i)
    case 0
    with Suc.prems show ?thesis by (simp add: load8_def)
  next
    case (Suc j)
    with Suc.prems have "load_bytes m (p + 1) n = Inl OutOfBounds"
      by (intro Suc.IH [of j]) (auto simp: ac_simps)
    then show ?thesis by (simp add: load8_def split: option.splits)
  qed
qed simp

lemma mem_upd_outside:
  "length bs \<le> unat (x - p) \<Longrightarrow> length bs \<le> 2 ^ 32 \<Longrightarrow> mem_upd m p bs x = m x"
proof (induction bs arbitrary: m p)
  case (Cons b bs)
  have ne: "x \<noteq> p" using Cons.prems by auto
  then have "unat (x - p) \<noteq> 0" by (simp add: unat_eq_0)
  then have "unat (x - (p + 1)) = unat (x - p) - 1"
    by (metis diff_diff_eq unat_gt_0 unat_minus_one unsigned_0)
  with Cons.prems ne show ?case by (simp add: Cons.IH)
qed simp


lemma unat_minus_one_ulong: "unat (- 1 :: ulong) = 4294967295"
  by (simp add: unsigned_minus_1_eq_mask mask_eq_exp_minus_1)

lemma stored_mem_upd: "length bs \<le> 2 ^ 32 \<Longrightarrow> stored (mem_upd m p bs) p bs"
proof (induction bs arbitrary: m p)
  case (Cons b bs)
  have "unat (p - (p + 1)) = 2 ^ 32 - 1" by (simp add: unat_minus_one_ulong)
  with Cons show ?case by (simp add: mem_upd_outside)
qed simp

lemma mem_upd_mapped: "mem_upd m p bs x = None \<Longrightarrow> m x = None"
  by (induction bs arbitrary: m p) (force split: if_splits)+

lemma store_bytes_mapped:
  "\<forall>i < length bs. m (p + of_nat i) \<noteq> None \<Longrightarrow> store_bytes m p bs = Inr (mem_upd m p bs)"
proof (induction bs arbitrary: m p)
  case (Cons b bs)
  have mapped: "m p \<noteq> None" using Cons.prems by fastforce
  have "(m(p \<mapsto> b)) (p + 1 + of_nat i) \<noteq> None" if "i < length bs" for i
    using Cons.prems that by (auto simp: ac_simps dest: spec [of _ "Suc i"])
  then have "store_bytes (m(p \<mapsto> b)) (p + 1) bs = Inr (mem_upd (m(p \<mapsto> b)) (p + 1) bs)"
    by (intro Cons.IH allI impI)
  with mapped show ?case by (auto simp: store8_def)
qed simp

lemma store_bytes_stored:
  "stored m p old \<Longrightarrow> length bs = length old \<Longrightarrow> store_bytes m p bs = Inr (mem_upd m p bs)"
  by (rule store_bytes_mapped) (simp add: stored_nth)

text \<open>Replacing a part of what is stored.\<close>

lemma unat_of_nat_diff:
  assumes "i < 2 ^ 32" "k \<le> i"
  shows "unat (p + of_nat i - (p + of_nat k) :: ulong) = i - k"
proof -
  have "p + of_nat i - (p + of_nat k) = (of_nat (i - k) :: ulong)" using assms by simp
  moreover have "unat (of_nat (i - k) :: ulong) = i - k"
    by (subst unat_of_nat) (use assms in simp)
  ultimately show ?thesis by simp
qed

lemma unat_of_nat_diff_wrap:
  assumes "i < k" "k < 2 ^ 32"
  shows "unat (p + of_nat i - (p + of_nat k) :: ulong) = 2 ^ 32 - (k - i)"
proof -
  have "p + of_nat i - (p + of_nat k) = (of_nat (2 ^ 32 - (k - i)) :: ulong)"
    using assms by (simp add: of_nat_diff)
  moreover have "unat (of_nat (2 ^ 32 - (k - i)) :: ulong) = 2 ^ 32 - (k - i)"
    by (subst unat_of_nat) (use assms in simp)
  ultimately show ?thesis by simp
qed

lemma stored_update:
  assumes "stored m p (xs @ old @ ys)" "length new = length old" "length (xs @ old @ ys) < 2 ^ 32"
  shows "stored (mem_upd m (p + of_nat (length xs)) new) p (xs @ new @ ys)"
  unfolding stored_nth
proof (intro allI impI)
  fix i assume i: "i < length (xs @ new @ ys)"
  let ?q = "p + of_nat (length xs) :: ulong" and ?m = "mem_upd m (p + of_nat (length xs)) new"
  have old: "m (p + of_nat i) = Some ((xs @ old @ ys) ! i)"
    using assms(1,2) i by (simp add: stored_nth)
  have outside: "?m (p + of_nat i) = m (p + of_nat i)" if "length new \<le> unat (p + of_nat i - ?q)"
    using that assms(2,3) by (intro mem_upd_outside) auto
  consider "i < length xs" | "length xs \<le> i" "i < length xs + length new" | "length xs + length new \<le> i"
    by linarith
  then show "?m (p + of_nat i) = Some ((xs @ new @ ys) ! i)"
  proof cases
    case 1
    then have "unat (p + of_nat i - ?q) = 2 ^ 32 - (length xs - i)"
      using assms(3) by (intro unat_of_nat_diff_wrap) auto
    with assms(2,3) have "length new \<le> unat (p + of_nat i - ?q)" by simp
    with outside old 1 show ?thesis by (simp add: nth_append)
  next
    case 2
    have "stored ?m ?q new" using assms(2,3) by (intro stored_mem_upd) simp
    then have "\<forall>j < length new. ?m (?q + of_nat j) = Some (new ! j)" by (simp only: stored_nth)
    then have "?m (?q + of_nat (i - length xs)) = Some (new ! (i - length xs))"
      using 2 by (elim allE [of _ "i - length xs"]) linarith
    moreover have "?q + of_nat (i - length xs) = p + of_nat i" using 2 by simp
    moreover have "i - length xs < length new" using 2 by linarith
    ultimately show ?thesis using 2 by (simp add: nth_append)
  next
    case 3
    then have "unat (p + of_nat i - ?q) = i - length xs"
      using assms(2,3) i by (intro unat_of_nat_diff) auto
    moreover have "\<not> i - length xs < length old" "\<not> i < length xs" "\<not> i - length xs < length new"
      "length new \<le> i - length xs" using 3 assms(2) by linarith+
    ultimately show ?thesis using outside old assms(2) by (simp add: nth_append)
  qed
qed

text \<open>Ranges apart from each other do not influence each other.\<close>

definition apart :: "ulong \<Rightarrow> nat \<Rightarrow> ulong \<Rightarrow> nat \<Rightarrow> bool" where
  "apart p k q n \<longleftrightarrow> unat p + k \<le> unat q \<or> unat q + n \<le> unat p"

lemma unat_diff_ge: "unat (q :: ulong) + n \<le> unat x \<Longrightarrow> n \<le> unat (x - q)"
  by (subst unat_sub) (auto simp: word_le_nat_alt)

lemma unat_diff_wrap: "unat (x :: ulong) < unat q \<Longrightarrow> unat q + n \<le> 2 ^ 32 \<Longrightarrow> n \<le> unat (x - q)"
  by (simp add: unat_sub_if')

lemma mem_upd_apart:
  assumes "unat x < unat q \<or> unat q + length bs \<le> unat x" "unat q + length bs \<le> 2 ^ 32"
  shows "mem_upd m q bs x = m x"
  using assms by (intro mem_upd_outside) (auto intro: unat_diff_ge unat_diff_wrap)

lemma unat_plus_of_nat: "unat (p :: ulong) + i < 2 ^ 32 \<Longrightarrow> unat (p + of_nat i) = unat p + i"
  by (simp add: unat_word_ariths unat_of_nat)

lemma stored_apart:
  assumes "stored m p bs" "apart p (length bs) q (length new)"
    "unat p + length bs \<le> 2 ^ 32" "unat q + length new \<le> 2 ^ 32"
  shows "stored (mem_upd m q new) p bs"
  unfolding stored_nth
proof (intro allI impI)
  fix i assume i: "i < length bs"
  have "unat (p + of_nat i) = unat p + i" using assms(3) i by (intro unat_plus_of_nat) simp
  then have "mem_upd m q new (p + of_nat i) = m (p + of_nat i)"
    using assms i by (intro mem_upd_apart) (auto simp: apart_def)
  with assms(1) i show "mem_upd m q new (p + of_nat i) = Some (bs ! i)" by (simp add: stored_nth)
qed

lemma apart_overlaps: 
  assumes "apart p n q n" "unat p + n \<le> 2 ^ 32" "unat q + n \<le> 2 ^ 32"
  shows "\<not> overlaps p q n"
  using assms unfolding apart_def overlaps_def
  by (auto simp: not_less unat_sub_if')

lemma memcpy_stored:
  assumes "stored m src bs" "stored m dst old" "length old = length bs" "n = length bs"
    "apart dst n src n" "unat dst + n \<le> 2 ^ 32" "unat src + n \<le> 2 ^ 32"
  shows "memcpy m dst src n = Inr (mem_upd m dst bs)"
  using assms
  by (simp add: memcpy_def apart_overlaps load_bytes_stored store_bytes_stored [where old = old])

section \<open>Numbers in memory\<close>

lemma length_le2 [simp]: "length (le2 v) = 2" and length_le4 [simp]: "length (le4 w) = 4"
  by (simp_all add: le2_def le4_def)

lemma of_le2_le2 [simp]: "of_le2 (le2 w) = w"
  by (auto simp: of_le2_def le2_def bit_simps intro!: bit_word_eqI)

lemma of_le4_le4 [simp]: "of_le4 (le4 w) = w"
proof (rule bit_word_eqI)
  fix n assume "n < LENGTH(32)"
  then consider "n < 8" | "8 \<le> n" "n < 16" | "16 \<le> n" "n < 24" | "24 \<le> n" "n < 32" by fastforce
  then show "bit (of_le4 (le4 w)) n \<longleftrightarrow> bit w n"
    by cases (auto simp: of_le4_def le4_def bit_simps)
qed

lemma load16_stored: "stored m p (le2 w) \<Longrightarrow> load16 m p = Inr w"
  by (simp add: load16_def load_bytes_stored)

lemma load32_stored: "stored m p (le4 w) \<Longrightarrow> load32 m p = Inr w"
  by (simp add: load32_def load_bytes_stored)

lemma ucast_uchar_eq: "ucast (r :: uchar) = (ucast (s :: uchar) :: ulong) \<longleftrightarrow> r = s"
proof
  assume "ucast r = (ucast s :: ulong)"
  then have "unat (ucast r :: ulong) = unat (ucast s :: ulong)" by simp
  moreover have "unat (ucast x :: ulong) = unat x" for x :: uchar
    using unsigned_less [of x, where 'a = nat] by (simp add: unsigned_ucast_eq take_bit_nat_eq_self)
  ultimately show "r = s" by (simp add: word_unat_eq_iff)
qed simp

section \<open>Writing into a block\<close>

definition changes_only :: "ulong \<Rightarrow> nat \<Rightarrow> mem \<Rightarrow> mem \<Rightarrow> bool" where
  "changes_only p n m m' \<longleftrightarrow> (\<forall>x. n \<le> unat (x - p) \<longrightarrow> m' x = m x)"

lemma changes_only_refl [simp]: "changes_only p n m m"
  by (simp add: changes_only_def)

lemma changes_only_trans [trans]: "changes_only p n m m' \<Longrightarrow> changes_only p n m' m'' \<Longrightarrow> changes_only p n m m''"
  by (simp add: changes_only_def)

lemma changes_only_apart:
  assumes "changes_only p n m m'" "stored m q bs" "apart p n q (length bs)"
    "unat p + n \<le> 2 ^ 32" "unat q + length bs \<le> 2 ^ 32"
  shows "stored m' q bs"
  unfolding stored_nth
proof (intro allI impI)
  fix i assume i: "i < length bs"
  have "unat (q + of_nat i) = unat q + i" using assms(5) i by (intro unat_plus_of_nat) simp
  then have "n \<le> unat (q + of_nat i - p)"
    using assms(3,4) i unfolding apart_def by (auto intro: unat_diff_ge unat_diff_wrap)
  with assms(1,2) i show "m' (q + of_nat i) = Some (bs ! i)" by (simp add: changes_only_def stored_nth)
qed

lemma unat_diff_shift: "k \<le> unat (x - p :: ulong) \<Longrightarrow> unat (x - (p + of_nat k)) = unat (x - p) - k"
proof -
  assume k: "k \<le> unat (x - p)"
  have "unat (x - p) < 2 ^ LENGTH(32)" by (rule unsigned_less)
  with k have "k < 2 ^ 32" by simp
  then have "unat (of_nat k :: ulong) = k" by (simp add: unat_of_nat)
  with k have "unat (x - p - of_nat k) = unat (x - p) - k" by (simp add: unat_sub word_le_nat_alt)
  then show ?thesis by (simp add: diff_diff_eq)
qed

lemma store_bytes_into:
  assumes "stored m p (xs @ old @ ys)" "length new = length old" "q = p + of_nat (length xs)"
    "length (xs @ old @ ys) \<le> n" "n < 2 ^ 32"
  obtains m' where "store_bytes m q new = Inr m'" "stored m' p (xs @ new @ ys)" "changes_only p n m m'"
proof
  let ?m = "mem_upd m q new"
  show "store_bytes m q new = Inr ?m"
    using assms(1-3) by (intro store_bytes_stored [where old = old]) (simp_all add: stored_append)
  show "stored ?m p (xs @ new @ ys)"
    unfolding assms(3) using assms by (intro stored_update) auto
  show "changes_only p n m ?m"
    unfolding changes_only_def
  proof (intro allI impI)
    fix x assume "n \<le> unat (x - p)"
    then show "?m x = m x"
      using assms(2-5) by (intro mem_upd_outside) (auto simp: unat_diff_shift)
  qed
qed

lemma store_bytes_returns:
  assumes "stored m p (xs @ old @ ys)" "length new = length old" "q = p + of_nat (length xs)"
    "length (xs @ old @ ys) \<le> n" "n < 2 ^ 32" "changes_only p n m0 m"
  shows "returns (store_bytes m q new) (\<lambda>m'. stored m' p (xs @ new @ ys) \<and> changes_only p n m0 m')"
  by (rule store_bytes_into [OF assms(1-5)]) (simp add: changes_only_trans [OF assms(6)])

lemma store_bytes_whole:
  assumes "stored m p old" "length new = length old" "length old < 2 ^ 32"
  obtains m' where "store_bytes m p new = Inr m'" "stored m' p new" "changes_only p (length old) m m'"
proof (rule store_bytes_into [of m p "[]" old "[]" new p "length old"])
qed (use assms that in simp_all)

lemma store8_bytes: "store8 m p b = store_bytes m p [b]"
  by (cases "store8 m p b") simp_all

lemma stored_mapped: "stored m p (b # bs) \<Longrightarrow> m p = Some b"
  by simp

lemma memcmp_eq_stored:
  "stored m p bs \<Longrightarrow> stored m q cs \<Longrightarrow> length bs = n \<Longrightarrow> length cs = n \<Longrightarrow> memcmp_eq m p q n = Inr (bs = cs)"
  by (simp add: memcmp_eq_def load_bytes_stored)

lemma IsBadReadPtr_stored: "stored m p bs \<Longrightarrow> n \<le> length bs \<Longrightarrow> \<not> IsBadReadPtr m p n"
  by (auto simp: IsBadReadPtr_def list_ex_iff stored_nth)

lemma apart_unmapped:
  assumes "stored m q bs" "\<forall>i < n. m (p + of_nat i) = None" "unat p + n \<le> 2 ^ 32" "unat q + length bs \<le> 2 ^ 32"
    "bs \<noteq> []" "0 < n"
  shows "apart p n q (length bs)"
proof (rule ccontr)
  assume "\<not> apart p n q (length bs)"
  then have lt: "unat q < unat p + n" "unat p < unat q + length bs" by (auto simp: apart_def)
  show False
  proof (cases "unat p \<le> unat q")
    case True
    then have "p + of_nat (unat q - unat p) = q"
      by (intro word_unat_eq_iff [THEN iffD2]) (use assms(3) lt in \<open>simp add: unat_plus_of_nat\<close>)
    moreover have "unat q - unat p < n" "0 < length bs" using True lt assms(5) by simp_all
    moreover have "m q = Some (bs ! 0)" using assms(1) \<open>0 < length bs\<close> by (cases bs) auto
    ultimately show False using assms(2) by fastforce
  next
    case False
    then have "q + of_nat (unat p - unat q) = p"
      by (intro word_unat_eq_iff [THEN iffD2]) (use assms(4) lt in \<open>simp add: unat_plus_of_nat\<close>)
    moreover have "unat p - unat q < length bs" using False lt by linarith
    ultimately have "m p \<noteq> None" using assms(1) unfolding stored_nth by (metis option.distinct(1))
    moreover have "m p = None" using assms(2,6) by fastforce
    ultimately show False by simp
  qed
qed

end
