(* ===== verification/Security.thy ===== *)
theory Security
  imports Mem
begin

text \<open>
  Security identifiers, security descriptors and access control lists of \<open>ntdll/sec.c\<close>. Identifiers and lists
  are bytes in the memory of \<open>Mem\<close>, because the code walks over them with addresses; a security
  descriptor is a record of its fields. An output parameter the function leaves alone is \<open>None\<close>.
  \<open>sizeof(SID)\<close> is 12, \<open>sizeof(ACL)\<close> 8 and \<open>sizeof(SECURITY_DESCRIPTOR)\<close> 20.
\<close>

section \<open>Constants\<close>

abbreviation code_SUCCESS :: ulong where "code_SUCCESS \<equiv> 0"
abbreviation code_BUFFER_OVERFLOW :: ulong where "code_BUFFER_OVERFLOW \<equiv> 0x80000005"
abbreviation code_INVALID_PARAMETER :: ulong where "code_INVALID_PARAMETER \<equiv> 0xC000000D"
abbreviation code_BUFFER_TOO_SMALL :: ulong where "code_BUFFER_TOO_SMALL \<equiv> 0xC0000023"
abbreviation code_UNKNOWN_REVISION :: ulong where "code_UNKNOWN_REVISION \<equiv> 0xC0000058"
abbreviation code_INVALID_SECURITY_DESCR :: ulong where "code_INVALID_SECURITY_DESCR \<equiv> 0xC0000079"
abbreviation ERROR_NOT_ENOUGH_MEMORY :: ulong where "ERROR_NOT_ENOUGH_MEMORY \<equiv> 8"

abbreviation SID_REVISION :: uchar where "SID_REVISION \<equiv> 1"
abbreviation SID_MAX_SUB_AUTHORITIES :: uchar where "SID_MAX_SUB_AUTHORITIES \<equiv> 15"
abbreviation SECURITY_DESCRIPTOR_REVISION :: ulong where "SECURITY_DESCRIPTOR_REVISION \<equiv> 1"
abbreviation ACL_REVISION :: ulong where "ACL_REVISION \<equiv> 2"

abbreviation SE_OWNER_DEFAULTED :: ushort where "SE_OWNER_DEFAULTED \<equiv> 0x0001"
abbreviation SE_GROUP_DEFAULTED :: ushort where "SE_GROUP_DEFAULTED \<equiv> 0x0002"
abbreviation SE_DACL_PRESENT :: ushort where "SE_DACL_PRESENT \<equiv> 0x0004"
abbreviation SE_DACL_DEFAULTED :: ushort where "SE_DACL_DEFAULTED \<equiv> 0x0008"
abbreviation SE_SACL_PRESENT :: ushort where "SE_SACL_PRESENT \<equiv> 0x0010"
abbreviation SE_SACL_DEFAULTED :: ushort where "SE_SACL_DEFAULTED \<equiv> 0x0020"
abbreviation SE_SELF_RELATIVE :: ushort where "SE_SELF_RELATIVE \<equiv> 0x8000"

section \<open>Security identifiers\<close>

text \<open>The fields: \<open>Revision\<close> at 0, \<open>SubAuthorityCount\<close> at 1, \<open>IdentifierAuthority\<close> at 2, \<open>SubAuthority\<close> at 8.\<close>

definition RtlIdentifierAuthoritySid :: "ulong \<Rightarrow> ulong" where
  "RtlIdentifierAuthoritySid pSid = pSid + 2"

definition RtlSubAuthoritySid :: "ulong \<Rightarrow> ulong \<Rightarrow> ulong" where
  "RtlSubAuthoritySid psid nr = psid + 8 + 4 * nr"

definition RtlSubAuthorityCountSid :: "ulong \<Rightarrow> ulong" where
  "RtlSubAuthorityCountSid psid = psid + 1"

definition RtlLengthRequiredSid :: "ulong \<Rightarrow> ulong" where
  "RtlLengthRequiredSid nrofsubauths = 4 * nrofsubauths + 12"

definition RtlLengthSid :: "mem \<Rightarrow> ulong \<Rightarrow> ulong res" where
  "RtlLengthSid m sid =
     (if sid = 0 then Inr 0 else bind_res (load8 m (sid + 1)) (\<lambda>count. Inr (4 * ucast count + 12)))"

definition RtlValidSid :: "mem \<Rightarrow> ulong \<Rightarrow> bool res" where
  "RtlValidSid m pSid =
     (if IsBadReadPtr m pSid 4 then Inr False
      else bind_res (load8 m (pSid + 1)) (\<lambda>count.
        if SID_MAX_SUB_AUTHORITIES < count then Inr False
        else if pSid = 0 then Inr False
        else bind_res (load8 m pSid) (\<lambda>revision. Inr (revision = SID_REVISION))))"

text \<open>The two tests both comparisons begin with: valid identifiers with as many sub authorities.\<close>

definition sids_comparable :: "mem \<Rightarrow> ulong \<Rightarrow> ulong \<Rightarrow> bool res" where
  "sids_comparable m pSid1 pSid2 =
     bind_res (RtlValidSid m pSid1) (\<lambda>v1. if \<not> v1 then Inr False else
     bind_res (RtlValidSid m pSid2) (\<lambda>v2. if \<not> v2 then Inr False else
     bind_res (load8 m (RtlSubAuthorityCountSid pSid1)) (\<lambda>c1.
     bind_res (load8 m (RtlSubAuthorityCountSid pSid2)) (\<lambda>c2. Inr (c1 = c2)))))"

definition RtlEqualSid :: "mem \<Rightarrow> ulong \<Rightarrow> ulong \<Rightarrow> bool res" where
  "RtlEqualSid m pSid1 pSid2 =
     bind_res (sids_comparable m pSid1 pSid2) (\<lambda>c. if \<not> c then Inr False else
     bind_res (RtlLengthSid m pSid1) (\<lambda>len. memcmp_eq m pSid1 pSid2 (unat len)))"

definition RtlEqualPrefixSid :: "mem \<Rightarrow> ulong \<Rightarrow> ulong \<Rightarrow> bool res" where
  "RtlEqualPrefixSid m pSid1 pSid2 =
     bind_res (sids_comparable m pSid1 pSid2) (\<lambda>c. if \<not> c then Inr False else
     bind_res (load8 m (pSid1 + 1)) (\<lambda>count.
       memcmp_eq m pSid1 pSid2 (unat (RtlLengthRequiredSid (ucast count - 1)))))"

definition RtlInitializeSid :: "mem \<Rightarrow> ulong \<Rightarrow> ulong \<Rightarrow> ulong \<Rightarrow> (mem \<times> ulong) res" where
  "RtlInitializeSid m psid psidauth c =
     (let a = ucast (c AND 0xff) :: uchar in
      if SID_MAX_SUB_AUTHORITIES \<le> a then Inr (m, ucast a)
      else
        bind_res (store8 m (psid + 1) a) (\<lambda>m.
        bind_res (store8 m psid SID_REVISION) (\<lambda>m.
        bind_res (memcpy m (psid + 2) psidauth 6) (\<lambda>m. Inr (m, code_SUCCESS)))))"

definition RtlCopySid :: "mem \<Rightarrow> ulong \<Rightarrow> ulong \<Rightarrow> ulong \<Rightarrow> (mem \<times> ulong) res" where
  "RtlCopySid m nDestinationSidLength pDestinationSid pSourceSid =
     bind_res (RtlValidSid m pSourceSid) (\<lambda>v. if \<not> v then Inr (m, code_INVALID_PARAMETER) else
     bind_res (RtlLengthSid m pSourceSid) (\<lambda>len.
       if nDestinationSidLength < len then Inr (m, code_BUFFER_TOO_SMALL)
       else bind_res (memcpy m pDestinationSid pSourceSid (unat len)) (\<lambda>m. Inr (m, code_SUCCESS))))"

text \<open>
  \<open>Heap_Alloc\<close> is the system's heap, a parameter that returns the address and the memory with the new
  block. The result holds the memory, \<open>*pSid\<close>, the code given to \<open>SetLastError\<close> and the return value.
\<close>

type_synonym heap_alloc = "mem \<Rightarrow> ulong \<Rightarrow> ulong \<times> mem"

definition store_sub :: "ulong \<Rightarrow> uchar \<Rightarrow> nat \<Rightarrow> ulong \<Rightarrow> mem \<Rightarrow> mem res" where
  "store_sub p n k v m = (if of_nat k < n then store32 m (p + 8 + 4 * of_nat k) v else Inr m)"

definition RtlAllocateAndInitializeSid ::
    "heap_alloc \<Rightarrow> mem \<Rightarrow> ulong \<Rightarrow> uchar \<Rightarrow> ulong \<Rightarrow> ulong \<Rightarrow> ulong \<Rightarrow> ulong \<Rightarrow> ulong \<Rightarrow> ulong \<Rightarrow> ulong \<Rightarrow> ulong \<Rightarrow>
     (mem \<times> ulong \<times> ulong option \<times> bool) res" where
  "RtlAllocateAndInitializeSid Heap_Alloc m pIdentifierAuthority n v0 v1 v2 v3 v4 v5 v6 v7 =
     (let (p, m) = Heap_Alloc m (12 + ucast n * 4) in
      if p = 0 then Inr (m, p, Some ERROR_NOT_ENOUGH_MEMORY, False)
      else
        bind_res (store8 m p SID_REVISION) (\<lambda>m.
        bind_res (store8 m (p + 1) n) (\<lambda>m.
        bind_res (store_sub p n 0 v0 m) (\<lambda>m.
        bind_res (store_sub p n 1 v1 m) (\<lambda>m.
        bind_res (store_sub p n 2 v2 m) (\<lambda>m.
        bind_res (store_sub p n 3 v3 m) (\<lambda>m.
        bind_res (store_sub p n 4 v4 m) (\<lambda>m.
        bind_res (store_sub p n 5 v5 m) (\<lambda>m.
        bind_res (store_sub p n 6 v6 m) (\<lambda>m.
        bind_res (store_sub p n 7 v7 m) (\<lambda>m.
        if pIdentifierAuthority \<noteq> 0
        then bind_res (memcpy m (p + 2) pIdentifierAuthority 6) (\<lambda>m. Inr (m, p, None, True))
        else Inr (m, p, None, True))))))))))))"

section \<open>Security descriptors\<close>

record SECURITY_DESCRIPTOR =
  Revision :: uchar
  Sbz1 :: uchar
  Control :: ushort
  Owner :: ulong
  Group :: ulong
  Sacl :: ulong
  Dacl :: ulong

definition RtlCreateSecurityDescriptor ::
    "SECURITY_DESCRIPTOR \<Rightarrow> ulong \<Rightarrow> SECURITY_DESCRIPTOR \<times> ulong" where
  "RtlCreateSecurityDescriptor sd revision =
     (if revision \<noteq> SECURITY_DESCRIPTOR_REVISION then (sd, code_UNKNOWN_REVISION)
      else (\<lparr>Revision = 1, Sbz1 = 0, Control = 0, Owner = 0, Group = 0, Sacl = 0, Dacl = 0\<rparr>, code_SUCCESS))"

text \<open>A null pointer to a descriptor is \<open>None\<close>.\<close>

definition RtlValidSecurityDescriptor :: "SECURITY_DESCRIPTOR option \<Rightarrow> ulong" where
  "RtlValidSecurityDescriptor lpsd =
     (case lpsd of None \<Rightarrow> code_INVALID_SECURITY_DESCR
      | Some sd \<Rightarrow> if ucast (Revision sd) \<noteq> SECURITY_DESCRIPTOR_REVISION then code_UNKNOWN_REVISION else code_SUCCESS)"

definition RtlLengthSecurityDescriptor :: "mem \<Rightarrow> SECURITY_DESCRIPTOR option \<Rightarrow> ulong res" where
  "RtlLengthSecurityDescriptor m lpsd =
     (case lpsd of None \<Rightarrow> Inr 0
      | Some sd \<Rightarrow>
          bind_res (if Owner sd \<noteq> 0 then bind_res (load8 m (Owner sd + 1)) (\<lambda>c. Inr (20 + ucast c)) else Inr 20) (\<lambda>Size.
          bind_res (if Group sd \<noteq> 0 then bind_res (load8 m (Group sd + 1)) (\<lambda>c. Inr (Size + ucast c)) else Inr Size) (\<lambda>Size.
          bind_res (if Sacl sd \<noteq> 0 then bind_res (load16 m (Sacl sd + 2)) (\<lambda>s. Inr (Size + ucast s)) else Inr Size) (\<lambda>Size.
          if Dacl sd \<noteq> 0 then bind_res (load16 m (Dacl sd + 2)) (\<lambda>s. Inr (Size + ucast s)) else Inr Size))))"

text \<open>
  What the functions that read an access control list out of a descriptor leave in their output parameters:
  whether it is present, its address, whether it is a default. \<open>self\<close> is the address of the descriptor.
\<close>

definition RtlGetDaclSecurityDescriptor ::
    "ulong \<Rightarrow> SECURITY_DESCRIPTOR \<Rightarrow> ulong \<times> bool option \<times> ulong option \<times> bool option" where
  "RtlGetDaclSecurityDescriptor self sd =
     (if ucast (Revision sd) \<noteq> SECURITY_DESCRIPTOR_REVISION then (code_UNKNOWN_REVISION, None, None, None)
      else
        let present = SE_DACL_PRESENT AND Control sd \<noteq> 0;
            pDacl = (if present
                     then Some (if SE_SELF_RELATIVE AND Control sd \<noteq> 0 then self + Dacl sd else Dacl sd)
                     else None)
        in (code_SUCCESS, Some present, pDacl, Some (SE_DACL_DEFAULTED AND Control sd \<noteq> 0)))"

definition RtlGetSaclSecurityDescriptor ::
    "ulong \<Rightarrow> SECURITY_DESCRIPTOR \<Rightarrow> ulong \<times> bool option \<times> ulong option \<times> bool option" where
  "RtlGetSaclSecurityDescriptor self sd =
     (if ucast (Revision sd) \<noteq> SECURITY_DESCRIPTOR_REVISION then (code_UNKNOWN_REVISION, None, None, None)
      else
        let present = SE_SACL_PRESENT AND Control sd \<noteq> 0;
            pSacl = (if present
                     then Some (if SE_SELF_RELATIVE AND Control sd \<noteq> 0 then self + Sacl sd else Sacl sd)
                     else None)
        in (code_SUCCESS, Some present, pSacl, Some (SE_SACL_DEFAULTED AND Control sd \<noteq> 0)))"

definition RtlSetDaclSecurityDescriptor ::
    "SECURITY_DESCRIPTOR \<Rightarrow> bool \<Rightarrow> ulong \<Rightarrow> bool \<Rightarrow> SECURITY_DESCRIPTOR \<times> ulong" where
  "RtlSetDaclSecurityDescriptor sd daclpresent dacl dacldefaulted =
     (if ucast (Revision sd) \<noteq> SECURITY_DESCRIPTOR_REVISION then (sd, code_UNKNOWN_REVISION)
      else if Control sd AND SE_SELF_RELATIVE \<noteq> 0 then (sd, code_INVALID_SECURITY_DESCR)
      else if \<not> daclpresent then (sd\<lparr>Control := Control sd AND NOT SE_DACL_PRESENT\<rparr>, 1)
      else
        let sd = sd\<lparr>Control := Control sd OR SE_DACL_PRESENT\<rparr>;
            sd = sd\<lparr>Dacl := dacl\<rparr>
        in (if dacldefaulted then sd\<lparr>Control := Control sd OR SE_DACL_DEFAULTED\<rparr>
            else sd\<lparr>Control := Control sd AND NOT SE_DACL_DEFAULTED\<rparr>, code_SUCCESS))"

definition RtlSetSaclSecurityDescriptor ::
    "SECURITY_DESCRIPTOR \<Rightarrow> bool \<Rightarrow> ulong \<Rightarrow> bool \<Rightarrow> SECURITY_DESCRIPTOR \<times> ulong" where
  "RtlSetSaclSecurityDescriptor sd saclpresent sacl sacldefaulted =
     (if ucast (Revision sd) \<noteq> SECURITY_DESCRIPTOR_REVISION then (sd, code_UNKNOWN_REVISION)
      else if Control sd AND SE_SELF_RELATIVE \<noteq> 0 then (sd, code_INVALID_SECURITY_DESCR)
      else if \<not> saclpresent then (sd\<lparr>Control := Control sd AND NOT SE_SACL_PRESENT\<rparr>, 0)
      else
        let sd = sd\<lparr>Control := Control sd OR SE_SACL_PRESENT\<rparr>;
            sd = sd\<lparr>Sacl := sacl\<rparr>
        in (if sacldefaulted then sd\<lparr>Control := Control sd OR SE_SACL_DEFAULTED\<rparr>
            else sd\<lparr>Control := Control sd AND NOT SE_SACL_DEFAULTED\<rparr>, code_SUCCESS))"

text \<open>\<open>outs\<close> says whether both output parameters were given.\<close>

definition RtlGetOwnerSecurityDescriptor ::
    "ulong \<Rightarrow> SECURITY_DESCRIPTOR option \<Rightarrow> bool \<Rightarrow> ulong \<times> ulong option \<times> bool option" where
  "RtlGetOwnerSecurityDescriptor self lpsd outs =
     (case lpsd of None \<Rightarrow> (code_INVALID_PARAMETER, None, None)
      | Some sd \<Rightarrow>
          if \<not> outs then (code_INVALID_PARAMETER, None, None)
          else
            let own = Owner sd;
                own = (if own \<noteq> 0 \<and> Control sd AND SE_SELF_RELATIVE \<noteq> 0 then self + Owner sd else own)
            in (code_SUCCESS, Some own,
                if own \<noteq> 0 then Some (Control sd AND SE_OWNER_DEFAULTED \<noteq> 0) else None))"

definition RtlGetGroupSecurityDescriptor ::
    "ulong \<Rightarrow> SECURITY_DESCRIPTOR option \<Rightarrow> bool \<Rightarrow> ulong \<times> ulong option \<times> bool option" where
  "RtlGetGroupSecurityDescriptor self lpsd outs =
     (case lpsd of None \<Rightarrow> (code_INVALID_PARAMETER, None, None)
      | Some sd \<Rightarrow>
          if \<not> outs then (code_INVALID_PARAMETER, None, None)
          else
            let grp = Group sd;
                grp = (if grp \<noteq> 0 \<and> Control sd AND SE_SELF_RELATIVE \<noteq> 0 then self + Group sd else grp)
            in (code_SUCCESS, Some grp,
                if grp \<noteq> 0 then Some (Control sd AND SE_GROUP_DEFAULTED \<noteq> 0) else None))"

definition RtlSetOwnerSecurityDescriptor ::
    "SECURITY_DESCRIPTOR \<Rightarrow> ulong \<Rightarrow> bool \<Rightarrow> SECURITY_DESCRIPTOR \<times> ulong" where
  "RtlSetOwnerSecurityDescriptor sd own ownerdefaulted =
     (if ucast (Revision sd) \<noteq> SECURITY_DESCRIPTOR_REVISION then (sd, code_UNKNOWN_REVISION)
      else if Control sd AND SE_SELF_RELATIVE \<noteq> 0 then (sd, code_INVALID_SECURITY_DESCR)
      else
        let sd = sd\<lparr>Owner := own\<rparr>
        in (if ownerdefaulted then sd\<lparr>Control := Control sd OR SE_OWNER_DEFAULTED\<rparr>
            else sd\<lparr>Control := Control sd AND NOT SE_OWNER_DEFAULTED\<rparr>, code_SUCCESS))"

definition RtlSetGroupSecurityDescriptor ::
    "SECURITY_DESCRIPTOR \<Rightarrow> ulong \<Rightarrow> bool \<Rightarrow> SECURITY_DESCRIPTOR \<times> ulong" where
  "RtlSetGroupSecurityDescriptor sd grp groupdefaulted =
     (if ucast (Revision sd) \<noteq> SECURITY_DESCRIPTOR_REVISION then (sd, code_UNKNOWN_REVISION)
      else if Control sd AND SE_SELF_RELATIVE \<noteq> 0 then (sd, code_INVALID_SECURITY_DESCR)
      else
        let sd = sd\<lparr>Group := grp\<rparr>
        in (if groupdefaulted then sd\<lparr>Control := Control sd OR SE_GROUP_DEFAULTED\<rparr>
            else sd\<lparr>Control := Control sd AND NOT SE_GROUP_DEFAULTED\<rparr>, code_SUCCESS))"

text \<open>The control word and the revision, each if there is a place for it.\<close>

definition RtlGetControlSecurityDescriptor ::
    "SECURITY_DESCRIPTOR \<Rightarrow> bool \<Rightarrow> bool \<Rightarrow> ulong \<times> ushort option \<times> ulong option" where
  "RtlGetControlSecurityDescriptor sd wantControl wantRevision =
     (code_SUCCESS, if wantControl then Some (Control sd) else None,
      if wantRevision then Some (ucast (Revision sd)) else None)"

section \<open>Access control lists\<close>

text \<open>
  The header of a list: \<open>AclRevision\<close> at 0, \<open>AclSize\<close> at 2, \<open>AceCount\<close> at 4; the entries follow at 8. The size of
  an entry is at 2 in its header.
\<close>

definition RtlCreateAcl :: "mem \<Rightarrow> ulong \<Rightarrow> ulong \<Rightarrow> ulong \<Rightarrow> (mem \<times> ulong) res" where
  "RtlCreateAcl m acl sz revision =
     (if revision \<noteq> ACL_REVISION then Inr (m, code_INVALID_PARAMETER)
      else if sz < 8 then Inr (m, code_BUFFER_TOO_SMALL)
      else if 0xFFFF < sz then Inr (m, code_INVALID_PARAMETER)
      else
        bind_res (memset_zero m acl 8) (\<lambda>m.
        bind_res (store8 m acl (ucast revision)) (\<lambda>m.
        bind_res (store16 m (acl + 2) (ucast sz)) (\<lambda>m.
        bind_res (store16 m (acl + 4) 0) (\<lambda>m. Inr (m, 0))))))"

text \<open>The walk over the entries from \<open>ace\<close> on; \<open>n\<close> entries are left. A null result is the end of the list.\<close>

fun ace_walk :: "mem \<Rightarrow> ulong \<Rightarrow> ulong \<Rightarrow> nat \<Rightarrow> ulong option res" where
  "ace_walk m limit ace 0 = Inr (if limit \<le> ace then None else Some ace)"
| "ace_walk m limit ace (Suc n) =
     (if limit \<le> ace then Inr None
      else bind_res (load16 m (ace + 2)) (\<lambda>AceSize. ace_walk m limit (ace + ucast AceSize) n))"

definition RtlFirstFreeAce :: "mem \<Rightarrow> ulong \<Rightarrow> (ulong \<times> bool) res" where
  "RtlFirstFreeAce m acl =
     bind_res (load16 m (acl + 2)) (\<lambda>AclSize.
     bind_res (load16 m (acl + 4)) (\<lambda>AceCount.
     bind_res (ace_walk m (acl + ucast AclSize) (acl + 8) (unat AceCount)) (\<lambda>x.
       Inr (case x of None \<Rightarrow> (0, False) | Some ace \<Rightarrow> (ace, True)))))"

text \<open>Counting the new entries. The loop has no bound of its own: \<open>None\<close> is that it does not end.\<close>

partial_function (option) count_aces ::
    "mem \<Rightarrow> ulong \<Rightarrow> ulong \<Rightarrow> ulong \<Rightarrow> nat \<Rightarrow> nat res option" where
  "count_aces m acestart acelen ace nrofaces =
     (if ace - acestart < acelen
      then (case load16 m (ace + 2) of
              Inl e \<Rightarrow> Some (Inl e)
            | Inr AceSize \<Rightarrow> count_aces m acestart acelen (ace + ucast AceSize) (nrofaces + 1))
      else Some (Inr nrofaces))"

definition RtlAddAce :: "mem \<Rightarrow> ulong \<Rightarrow> ulong \<Rightarrow> ulong \<Rightarrow> ulong \<Rightarrow> ulong \<Rightarrow> (mem \<times> ulong) res option" where
  "RtlAddAce m acl revision xnrofaces acestart acelen =
     (case load8 m acl of
        Inl e \<Rightarrow> Some (Inl e)
      | Inr AclRevision \<Rightarrow>
          if ucast AclRevision \<noteq> ACL_REVISION then Some (Inr (m, code_INVALID_PARAMETER))
          else
            (case RtlFirstFreeAce m acl of
               Inl e \<Rightarrow> Some (Inl e)
             | Inr (targetace, found) \<Rightarrow>
                 if \<not> found then Some (Inr (m, code_INVALID_PARAMETER))
                 else
                   (case count_aces m acestart acelen acestart 0 of
                      None \<Rightarrow> None
                    | Some (Inl e) \<Rightarrow> Some (Inl e)
                    | Some (Inr nrofaces) \<Rightarrow>
                        Some (bind_res (load16 m (acl + 2)) (\<lambda>AclSize.
                          if acl + ucast AclSize < targetace + acelen then Inr (m, code_INVALID_PARAMETER)
                          else
                            bind_res (memcpy m targetace acestart (unat acelen)) (\<lambda>m.
                            bind_res (load16 m (acl + 4)) (\<lambda>AceCount.
                            bind_res (store16 m (acl + 4) (AceCount + of_nat nrofaces)) (\<lambda>m.
                              Inr (m, code_SUCCESS)))))))))"

definition RtlGetAce :: "mem \<Rightarrow> ulong \<Rightarrow> ulong \<Rightarrow> (ulong \<times> ulong) res" where
  "RtlGetAce m pAcl dwAceIndex =
     bind_res (load16 m (pAcl + 4)) (\<lambda>AceCount.
       if ucast AceCount < dwAceIndex then Inr (0, code_INVALID_PARAMETER)
       else
         bind_res (load16 m (pAcl + 2)) (\<lambda>AclSize.
         bind_res (ace_walk m (pAcl + ucast AclSize) (pAcl + 8) (unat dwAceIndex)) (\<lambda>x.
           Inr (case x of None \<Rightarrow> (0, code_BUFFER_OVERFLOW) | Some ace \<Rightarrow> (ace, code_SUCCESS)))))"

text \<open>The functions of the file that only answer.\<close>

definition RtlAddAccessAllowedAce :: "mem \<Rightarrow> ulong \<Rightarrow> ulong \<Rightarrow> ulong \<Rightarrow> ulong \<Rightarrow> mem \<times> bool" where
  "RtlAddAccessAllowedAce m pAcl dwAceRevision AccessMask pSid = (m, True)"

text \<open>The status, what is left in \<open>*AccessStatus\<close> and what in \<open>*GrantedAccess\<close>.\<close>

definition NtAccessCheck :: "SECURITY_DESCRIPTOR \<Rightarrow> ulong \<Rightarrow> ulong \<Rightarrow> ulong \<times> bool \<times> ulong option" where
  "NtAccessCheck sd ClientToken DesiredAccess = (code_SUCCESS, True, None)"

end
