(* ===== verification/SidProps.thy ===== *)
theory SidProps
  imports Security
begin

text \<open>
  Security identifiers as values, and what the functions of \<open>Security\<close> do to the bytes of one. \<open>sid_bytes\<close> is
  the layout; a SID occupies 8 bytes and 4 for each sub authority.
\<close>

record sid =
  sidRevision :: uchar
  sidAuthority :: "uchar list"
  sidSubs :: "ulong list"

definition sid_bytes :: "sid \<Rightarrow> uchar list" where
  "sid_bytes s = [sidRevision s, of_nat (length (sidSubs s))] @ sidAuthority s @ concat (map le4 (sidSubs s))"

definition valid_sid :: "sid \<Rightarrow> bool" where
  "valid_sid s \<longleftrightarrow> sidRevision s = 1 \<and> length (sidAuthority s) = 6 \<and> length (sidSubs s) \<le> 15"

section \<open>The layout\<close>

lemma length_concat_le4 [simp]: "length (concat (map le4 vs)) = 4 * length vs"
  by (induction vs) auto

lemma length_sid_bytes: "valid_sid s \<Longrightarrow> length (sid_bytes s) = 8 + 4 * length (sidSubs s)"
  by (simp add: sid_bytes_def valid_sid_def)

lemma le4_inject: "le4 v = le4 w \<longleftrightarrow> v = w"
  by (metis of_le4_le4)

lemma concat_le4_inject: "length vs = length ws \<Longrightarrow> concat (map le4 vs) = concat (map le4 ws) \<longleftrightarrow> vs = ws"
  by (induction vs ws rule: list_induct2) (auto simp: le4_inject append_eq_append_conv)

lemma unat_count: "k \<le> 15 \<Longrightarrow> unat (of_nat k :: uchar) = k"
  by (simp add: unat_of_nat)

lemma of_nat_count_inject: "k \<le> 15 \<Longrightarrow> l \<le> 15 \<Longrightarrow> (of_nat k :: uchar) = of_nat l \<longleftrightarrow> k = l"
  by (metis unat_count)

lemma sid_bytes_inject:
  assumes "valid_sid s" "valid_sid t"
  shows "sid_bytes s = sid_bytes t \<longleftrightarrow> s = t"
proof
  assume eq: "sid_bytes s = sid_bytes t"
  then have len: "length (sidSubs s) = length (sidSubs t)"
    using assms by (auto simp: sid_bytes_def valid_sid_def of_nat_count_inject)
  with eq assms have "sidAuthority s = sidAuthority t" "sidSubs s = sidSubs t"
    by (auto simp: sid_bytes_def valid_sid_def append_eq_append_conv concat_le4_inject)
  with assms show "s = t" by (simp add: valid_sid_def)
qed simp

section \<open>Tests on a stored identifier\<close>

lemma stored_sid_head:
  assumes "stored m p (sid_bytes s)"
  shows "load8 m p = Inr (sidRevision s)" "load8 m (p + 1) = Inr (of_nat (length (sidSubs s)))"
  using assms by (simp_all add: sid_bytes_def)

lemma RtlValidSid_valid:
  assumes "stored m p (sid_bytes s)" "valid_sid s" "p \<noteq> 0"
  shows "RtlValidSid m p = Inr True"
proof -
  have "4 \<le> length (sid_bytes s)" unfolding length_sid_bytes [OF assms(2)] by simp
  then have "\<not> IsBadReadPtr m p 4" by (rule IsBadReadPtr_stored [OF assms(1)])
  moreover have "(of_nat (length (sidSubs s)) :: uchar) \<le> 15"
    using assms(2) by (simp add: word_le_nat_alt unat_count valid_sid_def)
  ultimately show ?thesis
    using assms(2,3) stored_sid_head [OF assms(1)] by (simp add: RtlValidSid_def valid_sid_def not_less)
qed

lemma sids_comparable_valid:
  assumes "stored m p (sid_bytes s)" "valid_sid s" "p \<noteq> 0"
    "stored m q (sid_bytes t)" "valid_sid t" "q \<noteq> 0"
  shows "sids_comparable m p q = Inr (length (sidSubs s) = length (sidSubs t))"
  using assms stored_sid_head [OF assms(1)] stored_sid_head [OF assms(4)]
  by (simp add: sids_comparable_def RtlValidSid_valid [of m p s] RtlValidSid_valid [of m q t]
      RtlSubAuthorityCountSid_def valid_sid_def of_nat_count_inject)

lemma ucast_count: "k \<le> 15 \<Longrightarrow> ucast (of_nat k :: uchar) = (of_nat k :: ulong)"
  by (metis unat_count of_nat_unat)

lemma unat_sid_length:
  assumes "k \<le> 15"
  shows "unat (12 + 4 * of_nat k :: ulong) = 12 + 4 * k" "unat (8 + 4 * of_nat k :: ulong) = 8 + 4 * k"
proof -
  have "unat (of_nat (c + 4 * k) :: ulong) = c + 4 * k" if "c \<le> 12" for c
    by (subst unat_of_nat) (use assms that in simp)
  from this [of 12] this [of 8] show "unat (12 + 4 * of_nat k :: ulong) = 12 + 4 * k"
    "unat (8 + 4 * of_nat k :: ulong) = 8 + 4 * k" by simp_all
qed

lemma RtlLengthSid_valid:
  assumes "stored m p (sid_bytes s)" "valid_sid s" "p \<noteq> 0"
  obtains len where "RtlLengthSid m p = Inr len" "unat len = length (sid_bytes s) + 4"
  using assms stored_sid_head(2) [OF assms(1)]
  by (simp add: RtlLengthSid_def length_sid_bytes ucast_count unat_sid_length valid_sid_def add.commute)

section \<open>Comparison\<close>

lemma RtlEqualSid_stored:
  assumes "stored m p (sid_bytes s @ xs)" "valid_sid s" "p \<noteq> 0" "length xs = 4"
    and "stored m q (sid_bytes t @ ys)" "valid_sid t" "q \<noteq> 0" "length ys = 4"
  shows "RtlEqualSid m p q = Inr (s = t \<and> xs = ys)"
proof (cases "length (sidSubs s) = length (sidSubs t)")
  have at: "stored m p (sid_bytes s)" "stored m q (sid_bytes t)"
    using assms by (simp_all add: stored_append)
  note comparable = sids_comparable_valid [OF at(1) assms(2,3) at(2) assms(6,7)]
  case False
  with comparable show ?thesis by (auto simp: RtlEqualSid_def)
next
  case True
  have at: "stored m p (sid_bytes s)" "stored m q (sid_bytes t)"
    using assms by (simp_all add: stored_append)
  note comparable = sids_comparable_valid [OF at(1) assms(2,3) at(2) assms(6,7)]
  obtain len where len: "RtlLengthSid m p = Inr len" "unat len = length (sid_bytes s) + 4"
    using at(1) assms(2,3) by (rule RtlLengthSid_valid)
  have "memcmp_eq m p q (unat len) = Inr (sid_bytes s @ xs = sid_bytes t @ ys)"
    using assms len True by (intro memcmp_eq_stored) (simp_all add: length_sid_bytes)
  then show ?thesis
    using True assms(2,4,6,8) len comparable
    by (simp add: RtlEqualSid_def append_eq_append_conv length_sid_bytes sid_bytes_inject)
qed

section \<open>Copying and building\<close>

text \<open>A block that holds a SID and four bytes more, while its fields are written.\<close>

definition sid_block :: "uchar \<Rightarrow> uchar \<Rightarrow> uchar list \<Rightarrow> ulong list \<Rightarrow> uchar list" where
  "sid_block r n a vs = [r, n] @ a @ concat (map le4 vs) @ [0, 0, 0, 0]"

lemma sid_block_bytes:
  "length vs = unat n \<Longrightarrow>
     sid_block 1 n a vs = sid_bytes \<lparr>sidRevision = 1, sidAuthority = a, sidSubs = vs\<rparr> @ [0, 0, 0, 0]"
  by (simp add: sid_block_def sid_bytes_def)

definition building :: "ulong \<Rightarrow> uchar \<Rightarrow> uchar list \<Rightarrow> mem \<Rightarrow> ulong list \<Rightarrow> mem \<Rightarrow> bool" where
  "building p n a m0 vs m \<longleftrightarrow>
     stored m p (sid_block 1 n a vs) \<and> changes_only p (12 + 4 * unat n) m0 m \<and>
     length a = 6 \<and> length vs = unat n"

lemma sid_block_length: "length (sid_block r n a vs) = 6 + length a + 4 * length vs"
  by (simp add: sid_block_def)

lemma sid_block_bound: "12 + 4 * unat (n :: uchar) < 2 ^ 32"
  using unsigned_less [of n, where 'a = nat] by simp

lemma building_sub:
  assumes "building p n a m0 vs m" "k < 8"
  shows "returns (store_sub p n k v m) (building p n a m0 (vs[k := v]))"
proof (cases "k < unat n")
  case False
  with assms(2) have "\<not> of_nat k < n" by (simp add: word_less_nat_alt unat_of_nat)
  moreover have "vs[k := v] = vs" using False assms(1) by (simp add: building_def list_update_beyond)
  ultimately show ?thesis using assms(1) by (simp add: store_sub_def)
next
  case True
  have len: "length a = 6" "length vs = unat n" and st: "stored m p (sid_block 1 n a vs)"
    and frame: "changes_only p (12 + 4 * unat n) m0 m" using assms(1) by (simp_all add: building_def)
  let ?xs = "[1, n] @ a @ concat (map le4 (take k vs))"
  let ?ys = "concat (map le4 (drop (Suc k) vs)) @ [0, 0, 0, 0]"
  have split: "sid_block 1 n a vs = ?xs @ le4 (vs ! k) @ ?ys"
    using True len by (subst id_take_nth_drop [of k vs]) (simp_all add: sid_block_def)
  have split': "sid_block 1 n a (vs[k := v]) = ?xs @ le4 v @ ?ys"
    using True len by (simp add: sid_block_def upd_conv_take_nth_drop)
  have "returns (store_bytes m (p + 8 + 4 * of_nat k) (le4 v))
      (\<lambda>m'. stored m' p (?xs @ le4 v @ ?ys) \<and> changes_only p (12 + 4 * unat n) m0 m')"
    using True len
    by (intro store_bytes_returns [OF st [unfolded split] _ _ _ sid_block_bound frame]) (simp_all add: min_def)
  moreover have "of_nat k < n" using True assms(2) by (simp add: word_less_nat_alt unat_of_nat)
  ultimately show ?thesis
    using len by (auto simp: store_sub_def store32_def split' building_def returns_def)
qed

lemma building_authority:
  assumes b: "building p n a m0 vs m"
    and src: "stored m0 auth bs" "length bs = 6" "apart p (12 + 4 * unat n) auth 6"
      "unat p + (12 + 4 * unat n) \<le> 2 ^ 32" "unat auth + 6 \<le> 2 ^ 32"
  shows "returns (memcpy m (p + 2) auth 6) (building p n bs m0 vs)"
proof -
  have len: "length a = 6" "length vs = unat n" and frame: "changes_only p (12 + 4 * unat n) m0 m"
    and st: "stored m p ([1, n] @ a @ concat (map le4 vs) @ [0, 0, 0, 0])"
    using b by (simp_all add: building_def sid_block_def)
  have "unat (p + of_nat 2) = unat p + 2" using src(4) by (intro unat_plus_of_nat) simp
  with src(3-5) have "\<not> overlaps (p + 2) auth 6" by (intro apart_overlaps) (auto simp: apart_def)
  moreover have "load_bytes m auth 6 = Inr bs"
    using src(2-5) by (intro load_bytes_stored changes_only_apart [OF frame src(1)]) simp_all
  moreover have "returns (store_bytes m (p + 2) bs) (\<lambda>m'. stored m' p ([1, n] @ bs @ concat (map le4 vs) @ [0, 0, 0, 0])
      \<and> changes_only p (12 + 4 * unat n) m0 m')"
    using len src(2) by (intro store_bytes_returns [OF st _ _ _ sid_block_bound frame]) simp_all
  ultimately show ?thesis
    using len src(2) by (auto simp: memcpy_def building_def sid_block_def returns_def)
qed

text \<open>What the heap's allocation is documented to do: a block of zeros, where nothing was mapped.\<close>

definition zeroed_block :: "mem \<Rightarrow> ulong \<Rightarrow> ulong \<Rightarrow> mem \<Rightarrow> bool" where
  "zeroed_block m n p m' \<longleftrightarrow>
     stored m' p (replicate (unat n) 0) \<and> unat p + unat n \<le> 2 ^ 32 \<and> changes_only p (unat n) m m' \<and>
     (\<forall>i < unat n. m (p + of_nat i) = None)"

definition sid_arguments :: "uchar \<Rightarrow> ulong list \<Rightarrow> ulong list" where
  "sid_arguments n vs = take (unat n) vs @ replicate (unat n - 8) 0"

lemma sid_arguments_updates:
  "(replicate (unat n) 0)[0 := v0, 1 := v1, 2 := v2, 3 := v3, 4 := v4, 5 := v5, 6 := v6, 7 := v7] =
     sid_arguments n [v0, v1, v2, v3, v4, v5, v6, v7]"
proof (cases "unat n < 8")
  case True
  then consider "unat n = 0" | "unat n = 1" | "unat n = 2" | "unat n = 3" | "unat n = 4" | "unat n = 5"
    | "unat n = 6" | "unat n = 7" by linarith
  then show ?thesis by cases (simp_all add: sid_arguments_def numeral_eq_Suc)
next
  case False
  then obtain k where "unat n = 8 + k" by (metis le_Suc_ex not_less)
  then show ?thesis by (simp add: sid_arguments_def numeral_eq_Suc)
qed

lemma unat_sid_alloc: "unat (12 + ucast (n :: uchar) * 4 :: ulong) = 12 + 4 * unat n"
proof -
  have "unat n < 2 ^ LENGTH(8)" by (rule unsigned_less)
  then have "unat (of_nat (12 + 4 * unat n) :: ulong) = 12 + 4 * unat n"
    by (subst unat_of_nat) simp
  moreover have "(12 + ucast n * 4 :: ulong) = of_nat (12 + 4 * unat n)"
    by (simp add: mult.commute of_nat_unat)
  ultimately show ?thesis by (simp only:)
qed

lemma zeros_block: "replicate (12 + 4 * k) 0 = sid_block 0 0 (replicate 6 0) (replicate k 0)"
proof -
  have "concat (map le4 (replicate k 0)) = replicate (4 * k) 0"
    by (induction k) (simp_all add: le4_def numeral_eq_Suc)
  then have "sid_block 0 0 (replicate 6 0) (replicate k 0) = replicate 8 0 @ replicate (4 * k) 0 @ replicate 4 0"
    by (simp add: sid_block_def numeral_eq_Suc)
  then show ?thesis by (simp flip: replicate_add)
qed

lemma building_start:
  assumes "stored m p (replicate (12 + 4 * unat n) 0)"
  shows "returns (store8 m p 1) (\<lambda>m'. returns (store8 m' (p + 1) n) (building p n (replicate 6 0) m (replicate (unat n) 0)))"
proof -
  let ?t = "replicate 6 0 @ concat (map le4 (replicate (unat n) 0)) @ [0, 0, 0, 0]"
  have st: "stored m p ([] @ [0] @ ([0] @ ?t))"
    using assms unfolding zeros_block by (simp add: sid_block_def)
  have "length ?t = 10 + 4 * unat n" by (simp del: map_replicate)
  then have len: "length ([] @ [b] @ ([c] @ ?t)) \<le> 12 + 4 * unat n" for b c by simp
  have second: "returns (store8 m' (p + 1) n) (building p n (replicate 6 0) m (replicate (unat n) 0))"
    if m': "stored m' p ([] @ [1] @ ([0] @ ?t))" "changes_only p (12 + 4 * unat n) m m'" for m'
  proof -
    have st': "stored m' p ([1] @ [0] @ ?t)" using m'(1) by (simp only: append.simps)
    have "returns (store_bytes m' (p + 1) [n]) (\<lambda>m''. stored m'' p ([1] @ [n] @ ?t) \<and> changes_only p (12 + 4 * unat n) m m'')"
      by (rule store_bytes_returns [OF st' _ _ _ sid_block_bound m'(2)]) (use len [of 1 0] in \<open>simp_all del: map_replicate\<close>)
    then show ?thesis
      unfolding store8_bytes by (rule returns_mono) (simp add: building_def sid_block_def)
  qed
  have "returns (store_bytes m p [1]) (\<lambda>m'. stored m' p ([] @ [1] @ ([0] @ ?t)) \<and> changes_only p (12 + 4 * unat n) m m')"
    by (rule store_bytes_returns [OF st _ _ len sid_block_bound]) simp_all
  then show ?thesis unfolding store8_bytes [of m p] by (rule returns_mono) (use second in blast)
qed

lemma length_sid_arguments: "length vs = 8 \<Longrightarrow> length (sid_arguments n vs) = unat n"
  by (simp add: sid_arguments_def)

lemma RtlValidSid_block:
  assumes "stored m p (sid_block 1 n a vs)" "p \<noteq> 0" "length a = 6"
  shows "RtlValidSid m p = Inr (n \<le> 15)"
proof -
  have "\<not> IsBadReadPtr m p 4"
    using assms(3) by (intro IsBadReadPtr_stored [OF assms(1)]) (simp add: sid_block_length)
  with assms show ?thesis by (auto simp: RtlValidSid_def sid_block_def dest: leD)
qed

text \<open>\<open>RtlInitializeSid\<close> writes the eight bytes in front of the sub authorities. It refuses fifteen of them, which
  \<open>RtlValidSid\<close> accepts, and then returns the number in place of a status.\<close>

theorem RtlInitializeSid_writes:
  assumes "stored m p old" "length old = 8" "stored m q auth" "length auth = 6"
    and "apart p 8 q 6" "unat p + 8 \<le> 2 ^ 32" "unat q + 6 \<le> 2 ^ 32"
  shows "if 15 \<le> c AND 0xff then RtlInitializeSid m p q c = Inr (m, c AND 0xff)
    else returns (RtlInitializeSid m p q c)
      (\<lambda>(m', st). st = code_SUCCESS \<and> stored m' p ([1, ucast c] @ auth) \<and> changes_only p 8 m m')"
proof -
  have mask: "c AND 0xff = take_bit 8 c" by (simp add: take_bit_eq_mask mask_eq_exp_minus_1)
  have small: "unat (c AND 0xff) < 256"
  proof -
    from mask have "unat (c AND 0xff) = take_bit 8 (unat c)" by (simp add: unsigned_take_bit_eq)
    then show ?thesis using take_bit_nat_less_exp [of 8 "unat c"] by simp
  qed
  have count: "ucast (ucast (c AND 0xff) :: uchar) = c AND 0xff"
    unfolding mask by (rule bit_word_eqI) (auto simp: bit_simps)
  have guard: "(15 :: uchar) \<le> ucast (c AND 0xff) \<longleftrightarrow> 15 \<le> c AND 0xff"
    using small by (simp add: word_le_nat_alt unsigned_ucast_eq take_bit_nat_eq_self)
  have same: "ucast (c AND 0xff) = (ucast c :: uchar)"
    unfolding mask by (rule bit_word_eqI) (auto simp: bit_simps)
  obtain r0 r1 rest where old: "old = [r0, r1] @ rest" "length rest = 6"
  proof (cases old)
    case (Cons r0 tl)
    with assms(2) that show ?thesis by (cases tl) auto
  qed (use assms(2) in simp)
  let ?a = "ucast c :: uchar"
  have st: "stored m p ([r0] @ [r1] @ rest)" using assms(1) old(1) by simp
  have s1: "returns (store8 m (p + 1) ?a) (\<lambda>m'. stored m' p ([r0] @ [?a] @ rest) \<and> changes_only p 8 m m')"
    unfolding store8_bytes by (rule store_bytes_returns [OF st]) (use old(2) in simp_all)
  have s2: "returns (store8 m1 p 1) (\<lambda>m'. stored m' p ([] @ [1] @ ([?a] @ rest)) \<and> changes_only p 8 m m')"
    if m1: "stored m1 p ([r0] @ [?a] @ rest) \<and> changes_only p 8 m m1" for m1
    unfolding store8_bytes
    by (rule store_bytes_returns [of m1 p "[]" "[r0]"]) (use old(2) m1 in simp_all)
  have "unat (p + of_nat 2) = unat p + 2" using assms(6) by (intro unat_plus_of_nat) simp
  with assms(5-7) have apart2: "\<not> overlaps (p + 2) q 6" by (intro apart_overlaps) (auto simp: apart_def)
  have s3: "returns (memcpy m1 (p + 2) q 6) (\<lambda>m'. stored m' p ([1, ?a] @ auth @ []) \<and> changes_only p 8 m m')"
    if m1: "stored m1 p ([] @ [1] @ ([?a] @ rest)) \<and> changes_only p 8 m m1" for m1
  proof -
    have "load_bytes m1 q 6 = Inr auth"
      using m1 assms(4-7) by (intro load_bytes_stored changes_only_apart [OF _ assms(3)]) auto
    moreover have "returns (store_bytes m1 (p + 2) auth) (\<lambda>m'. stored m' p ([1, ?a] @ auth @ []) \<and> changes_only p 8 m m')"
      by (rule store_bytes_returns [of m1 p "[1, ?a]" rest]) (use old(2) assms(4) m1 in simp_all)
    ultimately show ?thesis using apart2 by (simp add: memcpy_def)
  qed
  have "returns (bind_res (store8 m (p + 1) ?a) (\<lambda>m. bind_res (store8 m p 1) (\<lambda>m.
      bind_res (memcpy m (p + 2) q 6) (\<lambda>m. Inr (m, code_SUCCESS)))))
      (\<lambda>(m', st). st = code_SUCCESS \<and> stored m' p ([1, ?a] @ auth) \<and> changes_only p 8 m m')"
    by (rule returns_bind [OF s1], rule returns_bind [OF s2], assumption, rule returns_bind [OF s3], assumption)
      (simp del: stored.simps)
  then show ?thesis using guard count by (simp add: RtlInitializeSid_def same del: stored.simps)
qed

section \<open>Concrete identifiers\<close>

text \<open>The groups of the administrators and of the users of a machine, which differ in the last sub authority.\<close>

definition admins :: sid where
  "admins = \<lparr>sidRevision = 1, sidAuthority = [0, 0, 0, 0, 0, 5], sidSubs = [32, 544]\<rparr>"

definition users :: sid where
  "users = \<lparr>sidRevision = 1, sidAuthority = [0, 0, 0, 0, 0, 5], sidSubs = [32, 545]\<rparr>"

lemma valid_admins: "valid_sid admins" and valid_users: "valid_sid users"
  by (simp_all add: valid_sid_def admins_def users_def)

lemma sidSubs_admins: "length (sidSubs admins) = 2" and sidSubs_users: "length (sidSubs users) = 2"
  by (simp_all add: admins_def users_def)

lemma admins_users: "admins \<noteq> users"
  by (simp add: admins_def users_def)

text \<open>Two identifiers with four bytes behind each.\<close>

definition two_sids :: "sid \<Rightarrow> uchar list \<Rightarrow> sid \<Rightarrow> uchar list \<Rightarrow> mem" where
  "two_sids s xs t ys = mem_upd (mem_upd Map.empty 0x1000 (sid_bytes s @ xs)) 0x2000 (sid_bytes t @ ys)"

lemma two_sids_stored:
  assumes "valid_sid s" "valid_sid t" "length xs = 4" "length ys = 4"
  shows "stored (two_sids s xs t ys) 0x1000 (sid_bytes s @ xs)" "stored (two_sids s xs t ys) 0x2000 (sid_bytes t @ ys)"
proof -
  have "length (sid_bytes s @ xs) \<le> 72" "length (sid_bytes t @ ys) \<le> 72"
    using assms by (simp_all add: length_sid_bytes valid_sid_def)
  then show "stored (two_sids s xs t ys) 0x1000 (sid_bytes s @ xs)" "stored (two_sids s xs t ys) 0x2000 (sid_bytes t @ ys)"
    unfolding two_sids_def by (intro stored_apart stored_mem_upd; simp add: apart_def)+
qed

section \<open>Properties\<close>

text \<open>C32. \<open>RtlEqualPrefixSid\<close> decides whether two identifiers are equal, the last sub authority included:
  \<open>RtlLengthRequiredSid\<close> of one less is already the length of the whole identifier.\<close>

theorem RtlEqualPrefixSid_decides_equality:
  assumes "stored m p (sid_bytes s)" "valid_sid s" "p \<noteq> 0"
    and "stored m q (sid_bytes t)" "valid_sid t" "q \<noteq> 0"
  shows "RtlEqualPrefixSid m p q = Inr (s = t)"
proof (cases "length (sidSubs s) = length (sidSubs t)")
  case False
  with sids_comparable_valid [OF assms] show ?thesis by (auto simp: RtlEqualPrefixSid_def)
next
  case True
  have "unat (RtlLengthRequiredSid (ucast (of_nat (length (sidSubs s)) :: uchar) - 1)) = length (sid_bytes s)"
    using assms(2) by (simp add: RtlLengthRequiredSid_def length_sid_bytes ucast_count unat_sid_length valid_sid_def right_diff_distrib)
  with True assms sids_comparable_valid [OF assms] stored_sid_head [OF assms(1)] show ?thesis
    by (simp add: RtlEqualPrefixSid_def memcmp_eq_stored length_sid_bytes sid_bytes_inject)
qed

theorem RtlEqualPrefixSid_decides_equality_witness:
  "RtlEqualPrefixSid (two_sids admins [0, 0, 0, 0] users [0, 0, 0, 0]) 0x1000 0x2000 = Inr False"
  using RtlEqualPrefixSid_decides_equality [of _ "0x1000" admins "0x2000" users]
    two_sids_stored [OF valid_admins valid_users, of "[0, 0, 0, 0]" "[0, 0, 0, 0]"]
  by (simp add: valid_admins valid_users admins_users stored_append)

text \<open>C37. \<open>RtlEqualSid\<close> compares four bytes behind the identifiers: it accepts two of them exactly when they and
  those bytes are equal.\<close>

theorem RtlEqualSid_reads_behind:
  assumes "stored m p (sid_bytes s @ xs)" "valid_sid s" "p \<noteq> 0" "length xs = 4"
    and "stored m q (sid_bytes t @ ys)" "valid_sid t" "q \<noteq> 0" "length ys = 4"
  shows "RtlEqualSid m p q = Inr (s = t \<and> xs = ys)"
  using assms by (rule RtlEqualSid_stored)

theorem RtlEqualSid_reads_behind_witness:
  "RtlEqualSid (two_sids admins [0, 0, 0, 0] admins [1, 0, 0, 0]) 0x1000 0x2000 = Inr False \<and>
   RtlEqualSid (two_sids admins [0, 0, 0, 0] admins [0, 0, 0, 0]) 0x1000 0x2000 = Inr True"
proof
  show "RtlEqualSid (two_sids admins [0, 0, 0, 0] admins [1, 0, 0, 0]) 0x1000 0x2000 = Inr False"
    by (subst RtlEqualSid_reads_behind [OF two_sids_stored(1) valid_admins _ _ two_sids_stored(2) valid_admins])
      (simp_all add: valid_admins)
  show "RtlEqualSid (two_sids admins [0, 0, 0, 0] admins [0, 0, 0, 0]) 0x1000 0x2000 = Inr True"
    by (subst RtlEqualSid_reads_behind [OF two_sids_stored(1) valid_admins _ _ two_sids_stored(2) valid_admins])
      (simp_all add: valid_admins)
qed

text \<open>C33. \<open>RtlCopySid\<close> refuses a destination shorter than \<open>RtlLengthSid\<close> and leaves the memory alone, and otherwise
  copies the identifier (with the four bytes behind it) so that \<open>RtlEqualSid\<close> accepts the copy.\<close>

theorem RtlCopySid_copies:
  assumes "stored m q (sid_bytes s @ xs)" "valid_sid s" "q \<noteq> 0" "length xs = 4"
    and "stored m d old" "length old = length (sid_bytes s) + 4" "d \<noteq> 0"
    and "apart d (length old) q (length old)" "unat d + length old \<le> 2 ^ 32" "unat q + length old \<le> 2 ^ 32"
  shows "if unat n < length (sid_bytes s) + 4 then RtlCopySid m n d q = Inr (m, code_BUFFER_TOO_SMALL)
         else \<exists>m'. RtlCopySid m n d q = Inr (m', code_SUCCESS) \<and> stored m' d (sid_bytes s @ xs) \<and>
           changes_only d (length old) m m' \<and> RtlEqualSid m' d q = Inr True"
proof -
  have at: "stored m q (sid_bytes s)" using assms(1) by (simp add: stored_append)
  obtain len where len: "RtlLengthSid m q = Inr len" "unat len = length (sid_bytes s) + 4"
    using at assms(2,3) by (rule RtlLengthSid_valid)
  note valid = RtlValidSid_valid [OF at assms(2,3)]
  have "length (sid_bytes s @ xs) = length old" "length old < 2 ^ 32"
    using assms(2,4,6) by (simp_all add: length_sid_bytes [OF assms(2)] valid_sid_def)
  then obtain m' where m': "store_bytes m d (sid_bytes s @ xs) = Inr m'" "stored m' d (sid_bytes s @ xs)"
      "changes_only d (length old) m m'"
    by (rule store_bytes_whole [OF assms(5)])
  have "\<not> overlaps d q (length old)" using assms(8-10) by (rule apart_overlaps)
  moreover have "load_bytes m q (length old) = Inr (sid_bytes s @ xs)"
    using assms(4,6) by (intro load_bytes_stored [OF assms(1)]) simp
  moreover have "unat len = length old" using len(2) assms(6) by simp
  ultimately have copy: "memcpy m d q (unat len) = Inr m'" using m'(1) by (simp add: memcpy_def)
  have "stored m' q (sid_bytes s @ xs)"
    using assms(4,6,8-10) by (intro changes_only_apart [OF m'(3) assms(1)]) simp_all
  with m'(2) have "RtlEqualSid m' d q = Inr True"
    using assms(2-4,7) by (simp add: RtlEqualSid_stored)
  with len valid copy m' show ?thesis
    by (auto simp: RtlCopySid_def word_less_nat_alt)
qed

theorem RtlCopySid_copies_witness:
  "\<exists>m'. RtlCopySid (two_sids admins [0, 0, 0, 0] users [0, 0, 0, 0]) 20 0x2000 0x1000 = Inr (m', code_SUCCESS) \<and>
     RtlEqualSid m' 0x2000 0x1000 = Inr True"
  using RtlCopySid_copies [of "two_sids admins [0, 0, 0, 0] users [0, 0, 0, 0]" "0x1000" admins "[0, 0, 0, 0]" "0x2000"
      "sid_bytes users @ [0, 0, 0, 0]" 20]
    two_sids_stored [OF valid_admins valid_users, of "[0, 0, 0, 0]" "[0, 0, 0, 0]"]
  by (auto simp: valid_admins length_sid_bytes valid_users sidSubs_admins sidSubs_users apart_def)

text \<open>C31. \<open>RtlAllocateAndInitializeSid\<close> reports a failed allocation, and otherwise builds an identifier with the given
  authority and the first sub authorities given; above eight it leaves zeros, above fifteen it still returns
  TRUE for an identifier that is not valid. It writes only into the new block.\<close>

theorem RtlAllocateAndInitializeSid_builds:
  assumes alloc: "Heap_Alloc m (12 + ucast n * 4) = (p, m1)" "p \<noteq> 0 \<Longrightarrow> zeroed_block m (12 + ucast n * 4) p m1"
    and auth: "stored m auth bs" "length bs = 6" "auth \<noteq> 0" "unat auth + 6 \<le> 2 ^ 32"
  shows "returns (RtlAllocateAndInitializeSid Heap_Alloc m auth n v0 v1 v2 v3 v4 v5 v6 v7)
    (\<lambda>(m', pSid, error, ok). pSid = p \<and>
       (if p = 0 then m' = m1 \<and> error = Some ERROR_NOT_ENOUGH_MEMORY \<and> \<not> ok
        else error = None \<and> ok \<and> RtlValidSid m' p = Inr (n \<le> 15) \<and>
          changes_only p (12 + 4 * unat n) m m' \<and>
          stored m' p (sid_bytes \<lparr>sidRevision = 1, sidAuthority = bs,
            sidSubs = sid_arguments n [v0, v1, v2, v3, v4, v5, v6, v7]\<rparr> @ [0, 0, 0, 0])))"
proof (cases "p = 0")
  case True
  with alloc(1) show ?thesis by (simp add: RtlAllocateAndInitializeSid_def)
next
  case False
  let ?N = "12 + 4 * unat n" and ?vs = "sid_arguments n [v0, v1, v2, v3, v4, v5, v6, v7]"
  have z: "stored m1 p (replicate ?N 0)" "unat p + ?N \<le> 2 ^ 32" "changes_only p ?N m m1"
    "\<forall>i < ?N. m (p + of_nat i) = None"
    using alloc(2) [OF False] by (simp_all add: zeroed_block_def unat_sid_alloc)
  have ap: "apart p ?N auth 6"
    using apart_unmapped [OF auth(1) z(4)] z(2) auth(2,4) by fastforce
  have auth1: "stored m1 auth bs"
    using ap auth z(2) by (intro changes_only_apart [OF z(3) auth(1)]) simp_all
  have "returns (RtlAllocateAndInitializeSid Heap_Alloc m auth n v0 v1 v2 v3 v4 v5 v6 v7)
      (\<lambda>(m', q, e, b). q = p \<and> e = None \<and> b \<and> building p n bs m1 ?vs m')"
    unfolding RtlAllocateAndInitializeSid_def alloc(1) Let_def prod.case if_not_P [OF False]
      if_P [OF auth(3)] sid_arguments_updates [symmetric]
    by (rule returns_bind [OF building_start [OF z(1)]], rule returns_bind, assumption,
        (rule returns_bind [OF building_sub], assumption, simp)+,
        rule returns_bind [OF building_authority [OF _ auth1 auth(2) ap z(2) auth(4)]], assumption, simp)
  then show ?thesis
    by (rule returns_mono)
      (use False auth(2) z(3) in \<open>auto simp: building_def RtlValidSid_block length_sid_arguments
        simp flip: sid_block_bytes intro: changes_only_trans\<close>)
qed

text \<open>An allocator that hands out zeros at \<open>0x8000\<close>.\<close>

definition demo_alloc :: heap_alloc where
  "demo_alloc m n = (0x8000, mem_upd m 0x8000 (replicate (unat n) 0))"

theorem RtlAllocateAndInitializeSid_builds_witness:
  "returns (RtlAllocateAndInitializeSid demo_alloc (mem_upd Map.empty 0x1000 [0, 0, 0, 0, 0, 5]) 0x1000 2 32 544 0 0 0 0 0 0)
     (\<lambda>(m', p, error, ok). ok \<and> p = 0x8000 \<and> stored m' p (sid_bytes admins @ [0, 0, 0, 0]))"
proof -
  let ?m = "mem_upd Map.empty 0x1000 [0, 0, 0, 0, 0, 5] :: mem"
  let ?m1 = "mem_upd ?m 0x8000 (replicate 20 0)"
  have al: "demo_alloc ?m (12 + ucast (2 :: uchar) * 4) = (0x8000, ?m1)" by (simp add: demo_alloc_def)
  have "?m (0x8000 + of_nat i) = None" if "i < 20" for i
  proof -
    have "unat (0x8000 + of_nat i :: ulong) = unat (0x8000 :: ulong) + i" using that by (intro unat_plus_of_nat) simp
    then have "?m (0x8000 + of_nat i) = Map.empty (0x8000 + of_nat i :: ulong)" by (intro mem_upd_apart) simp_all
    then show ?thesis by simp
  qed
  then have z: "zeroed_block ?m (12 + ucast (2 :: uchar) * 4) 0x8000 ?m1"
    by (auto simp: zeroed_block_def changes_only_def stored_mem_upd mem_upd_outside)
  have st: "stored ?m 0x1000 [0, 0, 0, 0, 0, 5]" by (rule stored_mem_upd) simp
  have "sid_arguments 2 [32, 544, 0, 0, 0, 0, 0, 0] = [32, 544]"
    by (simp add: sid_arguments_def)
  then show ?thesis
    by (intro returns_mono [OF RtlAllocateAndInitializeSid_builds [where Heap_Alloc = demo_alloc and m = ?m and n = 2, OF al z st]]) (auto simp: admins_def)
qed

end
