(* ===== verification/AclProps.thy ===== *)
theory AclProps
  imports Security
begin

text \<open>
  Access control lists as values. \<open>acl_bytes\<close> is the layout of a list: its header, its entries one behind the
  other, the free bytes behind them. \<open>acl_at\<close> says that a list is stored at an address, \<open>add_aces\<close> is what adding
  entries means; the functions of \<open>Security\<close> are compared with them.
\<close>

record acl =
  AclRevision :: uchar
  AclSbz1 :: uchar
  AclSbz2 :: ushort
  Aces :: "uchar list list"
  Free :: "uchar list"

definition acl_size :: "acl \<Rightarrow> nat" where
  "acl_size a = 8 + length (concat (Aces a)) + length (Free a)"

definition acl_header :: "uchar \<Rightarrow> uchar \<Rightarrow> nat \<Rightarrow> nat \<Rightarrow> ushort \<Rightarrow> uchar list" where
  "acl_header r s1 sz n s2 = [r, s1] @ le2 (of_nat sz) @ le2 (of_nat n) @ le2 s2"

definition acl_bytes :: "acl \<Rightarrow> uchar list" where
  "acl_bytes a = acl_header (AclRevision a) (AclSbz1 a) (acl_size a) (length (Aces a)) (AclSbz2 a) @
     concat (Aces a) @ Free a"

text \<open>An entry holds its own size at 2.\<close>

definition ace_ok :: "uchar list \<Rightarrow> bool" where
  "ace_ok e \<longleftrightarrow> 4 \<le> length e \<and> length e < 65536 \<and> take 2 (drop 2 e) = le2 (of_nat (length e))"

definition acl_ok :: "acl \<Rightarrow> bool" where
  "acl_ok a \<longleftrightarrow> list_all ace_ok (Aces a) \<and> acl_size a < 65536"

definition acl_at :: "mem \<Rightarrow> ulong \<Rightarrow> acl \<Rightarrow> bool" where
  "acl_at m p a \<longleftrightarrow> stored m p (acl_bytes a) \<and> acl_ok a \<and> unat p + acl_size a < 2 ^ 32"

definition add_aces :: "acl \<Rightarrow> uchar list list \<Rightarrow> acl option" where
  "add_aces a es =
     (if AclRevision a = 2 \<and> Free a \<noteq> [] \<and> length (concat es) \<le> length (Free a)
      then Some (a\<lparr>Aces := Aces a @ es, Free := drop (length (concat es)) (Free a)\<rparr>)
      else None)"

section \<open>The layout\<close>

lemma length_acl_header [simp]: "length (acl_header r s1 sz n s2) = 8"
  by (simp add: acl_header_def)

lemma length_acl_bytes [simp]: "length (acl_bytes a) = acl_size a"
  by (simp add: acl_bytes_def acl_size_def)

lemma aces_le_length: "list_all ace_ok es \<Longrightarrow> 4 * length es \<le> length (concat es)"
  by (induction es) (auto simp: ace_ok_def)

lemma acl_count_small: "acl_ok a \<Longrightarrow> length (Aces a) < 16384"
  using aces_le_length [of "Aces a"] by (auto simp: acl_ok_def acl_size_def)

lemma ucast_ushort: "k < 65536 \<Longrightarrow> ucast (of_nat k :: ushort) = (of_nat k :: ulong)"
proof -
  assume "k < 65536"
  then have "unat (of_nat k :: ushort) = k" by (simp add: unat_of_nat)
  then show ?thesis by (metis of_nat_unat)
qed

lemma acl_fields:
  assumes "acl_at m p a"
  shows "load8 m p = Inr (AclRevision a)" "load16 m (p + 2) = Inr (of_nat (acl_size a))"
    "load16 m (p + 4) = Inr (of_nat (length (Aces a)))" "stored m (p + 8) (concat (Aces a) @ Free a)"
proof -
  have st: "stored m p (acl_bytes a)" using assms by (simp add: acl_at_def)
  then show "load8 m p = Inr (AclRevision a)" by (simp add: acl_bytes_def acl_header_def)
  from st have "stored m (p + 2) (le2 (of_nat (acl_size a)))" "stored m (p + 4) (le2 (of_nat (length (Aces a))))"
    by (simp_all add: acl_bytes_def acl_header_def stored_append add.commute add.left_commute)
  then show "load16 m (p + 2) = Inr (of_nat (acl_size a))" "load16 m (p + 4) = Inr (of_nat (length (Aces a)))"
    by (simp_all add: load16_stored)
  from st show "stored m (p + 8) (concat (Aces a) @ Free a)"
    unfolding acl_bytes_def stored_append length_acl_header by (simp add: stored_append)
qed

section \<open>Walking over entries\<close>

lemma load_AceSize:
  assumes "stored m p e" "ace_ok e"
  shows "load16 m (p + 2) = Inr (of_nat (length e))"
proof -
  have "e = take 2 e @ take 2 (drop 2 e) @ drop 4 e"
    by (metis append_take_drop_id drop_drop numeral_Bit0)
  moreover have "length (take 2 e) = 2" using assms(2) by (simp add: ace_ok_def)
  ultimately have "stored m (p + 2) (take 2 (drop 2 e))"
    using assms(1) by (metis of_nat_numeral stored_append)
  with assms(2) show ?thesis by (simp add: ace_ok_def load16_stored)
qed

lemma ace_walk_stored:
  assumes "stored m ace (concat es @ rest)" "list_all ace_ok es" "n \<le> length es"
    and "unat ace + length (concat es @ rest) = unat limit"
  shows "ace_walk m limit ace n =
    Inr (if concat (drop n es) @ rest = [] then None else Some (ace + of_nat (length (concat (take n es)))))"
  using assms
proof (induction n arbitrary: ace es)
  case 0
  have "limit \<le> ace \<longleftrightarrow> length (concat es @ rest) = 0" using 0(4) unfolding word_le_nat_alt by linarith
  then have "limit \<le> ace \<longleftrightarrow> concat es @ rest = []" by (simp only: length_0_conv)
  then show ?case by simp
next
  case (Suc n)
  then obtain e es' where es: "es = e # es'" by (cases es) auto
  with Suc.prems have e: "ace_ok e" "stored m ace e" by (simp_all add: stored_append)
  then have small: "4 \<le> length e" "length e < 65536" by (simp_all add: ace_ok_def)
  have lt: "unat ace + length e + length (concat es' @ rest) = unat limit" using Suc.prems(4) es by simp
  then have "\<not> limit \<le> ace" using small by (simp add: word_le_nat_alt)
  moreover have "unat (ace + of_nat (length e)) = unat ace + length e"
    using lt unsigned_less [of limit, where 'a = nat] by (intro unat_plus_of_nat) simp
  then have "ace_walk m limit (ace + of_nat (length e)) n = Inr (if concat (drop n es') @ rest = [] then None
      else Some (ace + of_nat (length e) + of_nat (length (concat (take n es')))))"
    using Suc.prems es lt by (intro Suc.IH) (simp_all add: stored_append)
  ultimately show ?case
    using es small by (simp add: load_AceSize [OF e(2,1)] ucast_ushort add.assoc)
qed

lemma count_aces_skip:
  assumes "stored m ace (concat es)" "list_all ace_ok es"
    and "unat (ace - start) + length (concat es) \<le> unat len"
  shows "count_aces m start len ace n =
    count_aces m start len (ace + of_nat (length (concat es))) (n + length es)"
  using assms
proof (induction es arbitrary: ace n)
  case (Cons e es)
  then have e: "ace_ok e" "stored m ace e" by (simp_all add: stored_append)
  then have small: "4 \<le> length e" "length e < 65536" by (simp_all add: ace_ok_def)
  have le: "unat (ace - start) + length e + length (concat es) \<le> unat len" using Cons.prems(3) by simp
  have "unat (ace - start + of_nat (length e)) = unat (ace - start) + length e"
    using le unsigned_less [of len, where 'a = nat] by (intro unat_plus_of_nat) simp
  then have "count_aces m start len (ace + of_nat (length e)) (n + 1) =
      count_aces m start len (ace + of_nat (length e) + of_nat (length (concat es))) (n + 1 + length es)"
    using Cons.prems le by (intro Cons.IH) (simp_all add: stored_append add_diff_eq diff_add_eq)
  moreover have "ace - start < len" using le small by (simp add: word_less_nat_alt)
  ultimately show ?case
    using small by (subst count_aces.simps) (simp add: load_AceSize [OF e(2,1)] ucast_ushort add.assoc)
qed simp

lemma count_aces_stored:
  assumes "stored m ace (concat es)" "list_all ace_ok es"
    and "unat (ace - start) + length (concat es) = unat len"
  shows "count_aces m start len ace n = Some (Inr (n + length es))"
proof -
  have "unat (ace - start + of_nat (length (concat es))) = unat len"
    using assms(3) unsigned_less [of len, where 'a = nat] by (subst unat_plus_of_nat) simp_all
  then have "\<not> ace + of_nat (length (concat es)) - start < len"
    by (simp add: word_less_nat_alt add_diff_eq diff_add_eq)
  then show ?thesis
    using assms by (simp add: count_aces_skip) (subst count_aces.simps, simp)
qed

text \<open>An entry of size 0 keeps the loop where it is.\<close>

lemma count_aces_stuck:
  assumes "load16 m (ace + 2) = Inr 0" "ace - start < len"
  shows "count_aces m start len ace n = None"
proof (rule ccontr)
  assume "count_aces m start len ace n \<noteq> None"
  then obtain r where ret: "count_aces m start len ace n = Some r" by auto
  have "load16 m (ace + 2) = Inr 0 \<longrightarrow> ace - start < len \<longrightarrow> False"
    by (rule count_aces.raw_induct
        [where P = "\<lambda>m start len ace n r. load16 m (ace + 2) = Inr 0 \<longrightarrow> ace - start < len \<longrightarrow> False", OF _ ret])
      (auto split: if_splits sum.splits)
  with assms show False by simp
qed

section \<open>Reading a list\<close>

lemma acl_limit:
  assumes "acl_at m p a" "k \<le> acl_size a"
  shows "unat (p + of_nat k) = unat p + k"
  using assms by (intro unat_plus_of_nat) (simp add: acl_at_def)

lemma acl_walk:
  assumes "acl_at m p a" "n \<le> length (Aces a)"
  shows "ace_walk m (p + of_nat (acl_size a)) (p + 8) n =
    Inr (if concat (drop n (Aces a)) @ Free a = [] then None
         else Some (p + 8 + of_nat (length (concat (take n (Aces a))))))"
proof (rule ace_walk_stored [OF acl_fields(4) [OF assms(1)] _ assms(2)])
  show "list_all ace_ok (Aces a)" using assms(1) by (simp add: acl_at_def acl_ok_def)
  show "unat (p + 8) + length (concat (Aces a) @ Free a) = unat (p + of_nat (acl_size a))"
    using acl_limit [OF assms(1), of 8] acl_limit [OF assms(1), of "acl_size a"] by (simp add: acl_size_def)
qed

lemma acl_small: "acl_at m p a \<Longrightarrow> acl_size a < 65536" "acl_at m p a \<Longrightarrow> length (Aces a) < 65536"
  using acl_count_small by (fastforce simp: acl_at_def acl_ok_def)+

lemma RtlFirstFreeAce_stored:
  assumes "acl_at m p a"
  shows "RtlFirstFreeAce m p =
    Inr (if Free a = [] then (0, False) else (p + 8 + of_nat (length (concat (Aces a))), True))"
  using acl_small [OF assms] acl_fields [OF assms] acl_walk [OF assms order_refl]
  by (simp add: RtlFirstFreeAce_def ucast_ushort unat_of_nat)

lemma RtlGetAce_stored:
  assumes "acl_at m p a"
  shows "RtlGetAce m p i =
    Inr (if length (Aces a) < unat i then (0, code_INVALID_PARAMETER)
         else if concat (drop (unat i) (Aces a)) @ Free a = [] then (0, code_BUFFER_OVERFLOW)
         else (p + 8 + of_nat (length (concat (take (unat i) (Aces a)))), code_SUCCESS))"
proof -
  have "ucast (of_nat (length (Aces a)) :: ushort) < i \<longleftrightarrow> length (Aces a) < unat i"
    using acl_small(2) [OF assms] by (simp add: ucast_ushort word_less_nat_alt unat_of_nat)
  then show ?thesis
    using acl_small(1) [OF assms] acl_fields [OF assms] acl_walk [OF assms, of "unat i"]
    by (auto simp: RtlGetAce_def ucast_ushort)
qed

lemma ace_at:
  assumes "acl_at m p a" "i < length (Aces a)"
  shows "stored m (p + 8 + of_nat (length (concat (take i (Aces a))))) (Aces a ! i)"
proof -
  have "concat (Aces a) = concat (take i (Aces a)) @ Aces a ! i @ concat (drop (Suc i) (Aces a))"
    using assms(2) by (subst id_take_nth_drop [of i]) simp_all
  with acl_fields(4) [OF assms(1)] show ?thesis by (simp add: stored_append)
qed

lemma ace_nonempty: "acl_ok a \<Longrightarrow> i < length (Aces a) \<Longrightarrow> concat (drop i (Aces a)) \<noteq> []"
  by (auto simp: acl_ok_def list_all_length ace_ok_def Cons_nth_drop_Suc [symmetric])

section \<open>Creating a list\<close>

definition empty_acl :: "uchar list \<Rightarrow> acl" where
  "empty_acl fr = \<lparr>AclRevision = 2, AclSbz1 = 0, AclSbz2 = 0, Aces = [], Free = fr\<rparr>"

lemma ucast_ACL_REVISION: "ucast (2 :: ulong) = (2 :: uchar)"
  by simp

lemma memset_zero_8: "memset_zero m p 8 = store_bytes m p [0, 0, 0, 0, 0, 0, 0, 0]"
  by (simp add: memset_zero_def numeral_eq_Suc)

lemma RtlCreateAcl_stored:
  assumes "stored m p old" "8 \<le> length old" "length old < 65536" "unat p + length old < 2 ^ 32"
  shows "returns (RtlCreateAcl m p (of_nat (length old)) 2)
    (\<lambda>(m', st). st = 0 \<and> acl_at m' p (empty_acl (drop 8 old)) \<and> changes_only p (length old) m m')"
proof -
  let ?N = "length old"
  have N: "unat (of_nat ?N :: ulong) = ?N" using assms(3) by (simp add: unat_of_nat)
  then have guards: "\<not> (of_nat ?N :: ulong) < 8" "\<not> 0xFFFF < (of_nat ?N :: ulong)"
    using assms(2,3) by (simp_all add: word_less_nat_alt)
  have u: "ucast (of_nat ?N :: ulong) = (of_nat ?N :: ushort)" by (metis N of_nat_unat)
  let ?r = "drop 8 old" and ?l = "ucast (of_nat ?N :: ushort) :: uchar" and ?h = "ucast (drop_bit 8 (of_nat ?N :: ushort)) :: uchar"
  have len: "length ?r = ?N - 8" "?N < 2 ^ 32" using assms(3) by simp_all
  have c1: "returns (memset_zero m p 8) (\<lambda>m'. stored m' p (0 # 0 # 0 # 0 # 0 # 0 # 0 # 0 # ?r) \<and> changes_only p ?N m m')"
    unfolding memset_zero_8
    using store_bytes_returns [of m p "[]" "take 8 old" ?r "[0, 0, 0, 0, 0, 0, 0, 0]" p ?N m] assms(1,2) len
    by (simp del: stored.simps store_bytes.simps)
  have c2: "returns (store8 m1 p 2) (\<lambda>m'. stored m' p (2 # 0 # 0 # 0 # 0 # 0 # 0 # 0 # ?r) \<and> changes_only p ?N m m')"
    if "stored m1 p (0 # 0 # 0 # 0 # 0 # 0 # 0 # 0 # ?r) \<and> changes_only p ?N m m1" for m1
    unfolding store8_bytes
    using store_bytes_returns [of m1 p "[]" "[0]" "0 # 0 # 0 # 0 # 0 # 0 # 0 # ?r" "[2]" p ?N m] that assms(2) len
    by (simp del: stored.simps store_bytes.simps)
  have c3: "returns (store16 m1 (p + 2) (of_nat ?N))
      (\<lambda>m'. stored m' p (2 # 0 # ?l # ?h # 0 # 0 # 0 # 0 # ?r) \<and> changes_only p ?N m m')"
    if "stored m1 p (2 # 0 # 0 # 0 # 0 # 0 # 0 # 0 # ?r) \<and> changes_only p ?N m m1" for m1
    unfolding store16_def le2_def
    using store_bytes_returns [of m1 p "[2, 0]" "[0, 0]" "0 # 0 # 0 # 0 # ?r" "[?l, ?h]" "p + 2" ?N m] that assms(2) len
    by (simp del: stored.simps store_bytes.simps)
  have c4: "returns (store16 m1 (p + 4) 0)
      (\<lambda>m'. stored m' p (2 # 0 # ?l # ?h # 0 # 0 # 0 # 0 # ?r) \<and> changes_only p ?N m m')"
    if "stored m1 p (2 # 0 # ?l # ?h # 0 # 0 # 0 # 0 # ?r) \<and> changes_only p ?N m m1" for m1
    unfolding store16_def le2_def
    using store_bytes_returns [of m1 p "[2, 0, ?l, ?h]" "[0, 0]" "0 # 0 # ?r" "[0, 0]" "p + 4" ?N m] that assms(2) len
    by (simp del: stored.simps store_bytes.simps)
  have "returns (RtlCreateAcl m p (of_nat ?N) 2) (\<lambda>(m', st). st = 0 \<and>
      stored m' p (2 # 0 # ?l # ?h # 0 # 0 # 0 # 0 # ?r) \<and> changes_only p ?N m m')"
    unfolding RtlCreateAcl_def if_not_P [OF guards(1)] if_not_P [OF guards(2)] u ucast_ACL_REVISION
    by (simp del: stored.simps, rule returns_bind [OF c1], rule returns_bind [OF c2], assumption,
        rule returns_bind [OF c3], assumption, rule returns_bind [OF c4], assumption, simp)
  then show ?thesis
    by (rule returns_mono)
      (use assms in \<open>auto simp: acl_at_def acl_ok_def empty_acl_def acl_bytes_def acl_header_def acl_size_def le2_def\<close>)
qed

section \<open>Adding entries\<close>

lemma add_aces_SomeD:
  assumes "add_aces a es = Some a'"
  shows "AclRevision a = 2" "Free a \<noteq> []" "length (concat es) \<le> length (Free a)" "acl_size a' = acl_size a"
    "a' = a\<lparr>Aces := Aces a @ es, Free := drop (length (concat es)) (Free a)\<rparr>"
  using assms by (auto simp: add_aces_def acl_size_def split: if_splits)

lemma add_writes:
  assumes "acl_at m p a" "add_aces a es = Some a'" "list_all ace_ok es"
    and "stored m q (concat es)" "apart p (acl_size a) q (length (concat es))" "unat q + length (concat es) \<le> 2 ^ 32"
  shows "returns (bind_res (memcpy m (p + 8 + of_nat (length (concat (Aces a)))) q (length (concat es))) (\<lambda>m.
      bind_res (load16 m (p + 4)) (\<lambda>AceCount.
      store16 m (p + 4) (AceCount + of_nat (length es))))) (\<lambda>m'. acl_at m' p a' \<and> changes_only p (acl_size a) m m')"
proof -
  note a' = add_aces_SomeD [OF assms(2)]
  let ?new = "concat es" and ?N = "acl_size a" and ?t = "p + 8 + of_nat (length (concat (Aces a)))"
  let ?h = "\<lambda>n. [AclRevision a, AclSbz1 a] @ le2 (of_nat ?N) @ le2 (of_nat n) @ le2 (AclSbz2 a)"
  let ?rest = "drop (length ?new) (Free a)"
  have st: "stored m p ((?h (length (Aces a)) @ concat (Aces a)) @ take (length ?new) (Free a) @ ?rest)"
    using assms(1) by (simp add: acl_at_def acl_bytes_def acl_header_def)
  have N: "?N < 2 ^ 32" using acl_small(1) [OF assms(1)] by simp
  have pos: "unat ?t = unat p + 8 + length (concat (Aces a))"
    using acl_limit [OF assms(1), of "8 + length (concat (Aces a))"] by (simp add: acl_size_def add.assoc)
  have "\<not> overlaps ?t q (length ?new)"
    using assms(1,5,6) a'(3) pos by (intro apart_overlaps) (auto simp: apart_def acl_at_def acl_size_def)
  then have copy: "returns (memcpy m ?t q (length ?new)) (\<lambda>m'. stored m' p ((?h (length (Aces a)) @ concat (Aces a)) @ ?new @ ?rest)
      \<and> changes_only p ?N m m')"
    unfolding memcpy_def using load_bytes_stored [OF assms(4) refl]
    by (simp, intro store_bytes_returns [OF st _ _ _ N, simplified]) (use a'(3) in \<open>simp_all add: acl_size_def ac_simps\<close>)
  have count: "returns (bind_res (load16 m1 (p + 4)) (\<lambda>AceCount. store16 m1 (p + 4) (AceCount + of_nat (length es))))
      (\<lambda>m'. acl_at m' p a' \<and> changes_only p ?N m m')"
    if m1: "stored m1 p ((?h (length (Aces a)) @ concat (Aces a)) @ ?new @ ?rest) \<and> changes_only p ?N m m1" for m1
  proof -
    let ?pre = "[AclRevision a, AclSbz1 a] @ le2 (of_nat ?N)" and ?post = "le2 (AclSbz2 a) @ concat (Aces a) @ ?new @ ?rest"
    have st1: "stored m1 p (?pre @ le2 (of_nat (length (Aces a))) @ ?post)" using m1 by simp
    then have "load16 m1 (p + 4) = Inr (of_nat (length (Aces a)))"
      by (intro load16_stored) (simp add: stored_append add.commute)
    moreover have "returns (store16 m1 (p + 4) (of_nat (length (Aces a)) + of_nat (length es)))
      (\<lambda>m'. stored m' p (?pre @ le2 (of_nat (length (Aces a)) + of_nat (length es)) @ ?post) \<and> changes_only p ?N m m')"
      unfolding store16_def using m1 a'(3) by (intro store_bytes_returns [OF st1 _ _ _ N]) (simp_all add: acl_size_def)
    then have "returns (store16 m1 (p + 4) (of_nat (length (Aces a)) + of_nat (length es)))
      (\<lambda>m'. acl_at m' p a' \<and> changes_only p ?N m m')"
      by (rule returns_mono) (use assms(1,3) a'(4) in \<open>auto simp: acl_at_def acl_ok_def acl_bytes_def acl_header_def a'(5)\<close>)
    ultimately show ?thesis by simp
  qed
  show ?thesis by (rule returns_bind [OF copy count])
qed

lemma RtlAddAce_stored:
  assumes acl: "acl_at m p a" and new: "list_all ace_ok es" "stored m q (concat es)"
    and place: "apart p (acl_size a) q (length (concat es))" "unat q + length (concat es) \<le> 2 ^ 32"
    and room: "unat p + acl_size a + length (concat es) < 2 ^ 32"
  shows "\<exists>r. RtlAddAce m p revision n q (of_nat (length (concat es))) = Some r \<and>
    returns r (\<lambda>(m', st). case add_aces a es of
        None \<Rightarrow> m' = m \<and> st = code_INVALID_PARAMETER
      | Some a' \<Rightarrow> st = code_SUCCESS \<and> acl_at m' p a' \<and> changes_only p (acl_size a) m m')"
proof (cases "AclRevision a = 2 \<and> Free a \<noteq> []")
  case False
  have "ucast (AclRevision a) = (2 :: ulong) \<longleftrightarrow> AclRevision a = 2" by (rule ucast_uchar_eq [of _ 2, simplified])
  with False show ?thesis
    using acl_fields(1) [OF acl] RtlFirstFreeAce_stored [OF acl]
    by (auto simp: RtlAddAce_def add_aces_def)
next
  case True
  let ?len = "length (concat es)" and ?t = "p + 8 + of_nat (length (concat (Aces a)))"
  have len: "unat (of_nat ?len :: ulong) = ?len" using room by (simp add: unat_of_nat)
  have count: "count_aces m q (of_nat ?len) q 0 = Some (Inr (length es))"
    using count_aces_stored [OF new(2,1), of q "of_nat ?len" 0] len by simp
  have "unat (p + of_nat (acl_size a)) = unat p + acl_size a" by (rule acl_limit [OF acl order_refl])
  moreover have "?t + of_nat ?len = p + of_nat (8 + length (concat (Aces a)) + ?len)" by simp
  moreover have "unat (p + of_nat (8 + length (concat (Aces a)) + ?len)) = unat p + (8 + length (concat (Aces a)) + ?len)"
    using room by (intro unat_plus_of_nat) (simp add: acl_size_def)
  ultimately have fits: "p + of_nat (acl_size a) < ?t + of_nat ?len \<longleftrightarrow> length (Free a) < ?len"
    by (simp only: word_less_nat_alt acl_size_def)  simp
  show ?thesis
  proof (cases "add_aces a es")
    case None
    with True have "length (Free a) < ?len" by (auto simp: add_aces_def split: if_splits)
    with True None fits show ?thesis
      using acl_fields [OF acl] RtlFirstFreeAce_stored [OF acl] count acl_small(1) [OF acl]
      by (simp add: RtlAddAce_def ucast_ushort)
  next
    case (Some a')
    then have "\<not> length (Free a) < ?len" using add_aces_SomeD(3) by fastforce
    with True Some fits show ?thesis
      using acl_fields [OF acl] RtlFirstFreeAce_stored [OF acl] count acl_small(1) [OF acl] len
        add_writes [OF acl Some new place]
      by (auto simp: RtlAddAce_def ucast_ushort returns_def bind_res_eq_Inr)
  qed
qed

lemma RtlAddAce_stuck:
  assumes acl: "acl_at m p a" "AclRevision a = 2" "Free a \<noteq> []"
    and new: "list_all ace_ok es" "stored m q (concat es @ [t, f, 0, 0])"
    and len: "length (concat es) < unat acelen"
  shows "RtlAddAce m p revision n q acelen = None"
proof -
  let ?z = "q + of_nat (length (concat es))"
  have small: "unat (of_nat (length (concat es)) :: ulong) = length (concat es)"
    using len unsigned_less [of acelen, where 'a = nat] by (simp add: unat_of_nat)
  have "stored m ?z [t, f, 0, 0]" using new(2) by (simp add: stored_append)
  then have "load16 m (?z + 2) = Inr 0"
    by (intro load16_stored) (simp add: le2_def ac_simps)
  moreover have "?z - q < acelen" using len small by (simp add: word_less_nat_alt)
  ultimately have "count_aces m q acelen ?z (length es) = None" by (rule count_aces_stuck)
  moreover have "count_aces m q acelen q 0 = count_aces m q acelen ?z (length es)"
    using count_aces_skip [of m q es q acelen 0] new len by (simp add: stored_append)
  ultimately show ?thesis
    using acl_fields(1) [OF acl(1)] RtlFirstFreeAce_stored [OF acl(1)] acl(2,3)
    by (simp add: RtlAddAce_def)
qed

end
