(* ===== verification/SdProps.thy ===== *)
theory SdProps
  imports Security
begin

text \<open>
  Security descriptors: what the functions that read them return after those that write them, for one call and
  for the descriptors a program can make with these functions (\<open>sd_step\<close>).
\<close>

section \<open>The control bits\<close>

lemma control_bits [simp]:
  fixes c :: ushort
  shows "SE_OWNER_DEFAULTED AND c = 0 \<longleftrightarrow> \<not> bit c 0" "c AND SE_OWNER_DEFAULTED = 0 \<longleftrightarrow> \<not> bit c 0"
    "SE_GROUP_DEFAULTED AND c = 0 \<longleftrightarrow> \<not> bit c 1" "c AND SE_GROUP_DEFAULTED = 0 \<longleftrightarrow> \<not> bit c 1"
    "SE_DACL_PRESENT AND c = 0 \<longleftrightarrow> \<not> bit c 2" "c AND SE_DACL_PRESENT = 0 \<longleftrightarrow> \<not> bit c 2"
    "SE_DACL_DEFAULTED AND c = 0 \<longleftrightarrow> \<not> bit c 3" "c AND SE_DACL_DEFAULTED = 0 \<longleftrightarrow> \<not> bit c 3"
    "SE_SACL_PRESENT AND c = 0 \<longleftrightarrow> \<not> bit c 4" "c AND SE_SACL_PRESENT = 0 \<longleftrightarrow> \<not> bit c 4"
    "SE_SACL_DEFAULTED AND c = 0 \<longleftrightarrow> \<not> bit c 5" "c AND SE_SACL_DEFAULTED = 0 \<longleftrightarrow> \<not> bit c 5"
    "SE_SELF_RELATIVE AND c = 0 \<longleftrightarrow> \<not> bit c 15" "c AND SE_SELF_RELATIVE = 0 \<longleftrightarrow> \<not> bit c 15"
  using and_exp_eq_0_iff_not_bit [of c 0] and_exp_eq_0_iff_not_bit [of c 1] and_exp_eq_0_iff_not_bit [of c 2]
    and_exp_eq_0_iff_not_bit [of c 3] and_exp_eq_0_iff_not_bit [of c 4] and_exp_eq_0_iff_not_bit [of c 5]
    and_exp_eq_0_iff_not_bit [of c 15]
  by (simp_all add: and.commute)

lemma ucast_uchar_1 [simp]: "ucast (r :: uchar) = (1 :: ulong) \<longleftrightarrow> r = 1"
  by (rule ucast_uchar_eq [of r 1, simplified])

text \<open>The descriptors the setters accept: of the right revision, with absolute pointers.\<close>

definition absolute_sd :: "SECURITY_DESCRIPTOR \<Rightarrow> bool" where
  "absolute_sd sd \<longleftrightarrow> Revision sd = 1 \<and> \<not> bit (Control sd) 15"

lemmas sd_setters = RtlSetDaclSecurityDescriptor_def RtlSetSaclSecurityDescriptor_def
  RtlSetOwnerSecurityDescriptor_def RtlSetGroupSecurityDescriptor_def

lemmas sd_getters = RtlGetDaclSecurityDescriptor_def RtlGetSaclSecurityDescriptor_def
  RtlGetOwnerSecurityDescriptor_def RtlGetGroupSecurityDescriptor_def

text \<open>What a program sees of a descriptor.\<close>

definition sd_view where
  "sd_view self sd =
     (RtlGetOwnerSecurityDescriptor self (Some sd) True, RtlGetGroupSecurityDescriptor self (Some sd) True,
      RtlGetDaclSecurityDescriptor self sd, RtlGetSaclSecurityDescriptor self sd)"

text \<open>A call of a setter.\<close>

datatype sd_call = SetOwner ulong bool | SetGroup ulong bool | SetDacl bool ulong bool | SetSacl bool ulong bool

fun sd_apply :: "sd_call \<Rightarrow> SECURITY_DESCRIPTOR \<Rightarrow> SECURITY_DESCRIPTOR \<times> ulong" where
  "sd_apply (SetOwner p d) sd = RtlSetOwnerSecurityDescriptor sd p d"
| "sd_apply (SetGroup p d) sd = RtlSetGroupSecurityDescriptor sd p d"
| "sd_apply (SetDacl pr p d) sd = RtlSetDaclSecurityDescriptor sd pr p d"
| "sd_apply (SetSacl pr p d) sd = RtlSetSaclSecurityDescriptor sd pr p d"

text \<open>What the readers return, as a function of the calls alone.\<close>

fun list_answer :: "bool \<Rightarrow> ulong \<Rightarrow> bool \<Rightarrow> ulong \<times> bool option \<times> ulong option \<times> bool option \<Rightarrow>
    ulong \<times> bool option \<times> ulong option \<times> bool option" where
  "list_answer True p d old = (code_SUCCESS, Some True, Some p, Some d)"
| "list_answer False p d (st, _, _, d') = (code_SUCCESS, Some False, None, d')"

definition sid_answer :: "ulong \<Rightarrow> bool \<Rightarrow> ulong \<times> ulong option \<times> bool option" where
  "sid_answer p d = (code_SUCCESS, Some p, if p \<noteq> 0 then Some d else None)"

fun sd_spec where
  "sd_spec (SetOwner p d) (own, grp, da, sa) = (sid_answer p d, grp, da, sa)"
| "sd_spec (SetGroup p d) (own, grp, da, sa) = (own, sid_answer p d, da, sa)"
| "sd_spec (SetDacl pr p d) (own, grp, da, sa) = (own, grp, list_answer pr p d da, sa)"
| "sd_spec (SetSacl pr p d) (own, grp, da, sa) = (own, grp, da, list_answer pr p d sa)"

lemma sd_apply_absolute: "absolute_sd sd \<Longrightarrow> absolute_sd (fst (sd_apply c sd))"
  by (cases c) (auto simp: absolute_sd_def sd_setters Let_def bit_simps)

lemma sd_apply_view: "absolute_sd sd \<Longrightarrow> sd_view self (fst (sd_apply c sd)) = sd_spec c (sd_view self sd)"
proof (cases c)
  case (SetDacl pr p d)
  moreover assume "absolute_sd sd"
  ultimately show ?thesis
    by (cases pr) (auto simp: absolute_sd_def sd_setters sd_getters sd_view_def Let_def bit_simps)
next
  case (SetSacl pr p d)
  moreover assume "absolute_sd sd"
  ultimately show ?thesis
    by (cases pr) (auto simp: absolute_sd_def sd_setters sd_getters sd_view_def Let_def bit_simps)
qed (auto simp: absolute_sd_def sd_setters sd_getters sd_view_def Let_def sid_answer_def bit_simps)

section \<open>Descriptors a program can make\<close>

definition new_sd :: SECURITY_DESCRIPTOR where
  "new_sd = \<lparr>Revision = 1, Sbz1 = 0, Control = 0, Owner = 0, Group = 0, Sacl = 0, Dacl = 0\<rparr>"

definition sd_run :: "sd_call list \<Rightarrow> SECURITY_DESCRIPTOR \<Rightarrow> SECURITY_DESCRIPTOR" where
  "sd_run cs sd = fold (\<lambda>c sd. fst (sd_apply c sd)) cs sd"

definition new_view where
  "new_view = ((code_SUCCESS, Some 0, None), (code_SUCCESS, Some 0, None),
     (code_SUCCESS, Some False, None, Some False), (code_SUCCESS, Some False, None, Some False))"

lemma RtlCreateSecurityDescriptor_new: "RtlCreateSecurityDescriptor sd 1 = (new_sd, code_SUCCESS)"
  by (simp add: RtlCreateSecurityDescriptor_def new_sd_def)

lemma new_sd_absolute: "absolute_sd new_sd"
  by (simp add: absolute_sd_def new_sd_def)

lemma new_sd_view: "sd_view self new_sd = new_view"
  by (simp add: sd_view_def new_view_def new_sd_def sd_getters Let_def)

lemma sd_run_absolute: "absolute_sd sd \<Longrightarrow> absolute_sd (sd_run cs sd)"
  unfolding sd_run_def by (induction cs arbitrary: sd) (simp_all add: sd_apply_absolute)

lemma sd_run_view: "absolute_sd sd \<Longrightarrow> sd_view self (sd_run cs sd) = fold sd_spec cs (sd_view self sd)"
  unfolding sd_run_def by (induction cs arbitrary: sd) (simp_all add: sd_apply_absolute sd_apply_view)

definition plain_sd :: "SECURITY_DESCRIPTOR \<Rightarrow> bool" where
  "plain_sd sd \<longleftrightarrow> absolute_sd sd \<and> Sbz1 sd = 0 \<and> (\<forall>n \<ge> 6. \<not> bit (Control sd) n)"

lemma small_numeral_bits:
  fixes n :: nat
  assumes "6 \<le> n"
  shows "\<not> bit (1 :: 'a :: semiring_bit_operations) n" "\<not> bit (2 :: 'a) n" "\<not> bit (4 :: 'a) n" "\<not> bit (8 :: 'a) n"
    "\<not> bit (0x10 :: 'a) n" "\<not> bit (0x20 :: 'a) n"
  using assms bit_exp_iff [of 0 n, where 'a = 'a] bit_exp_iff [of 1 n, where 'a = 'a]
    bit_exp_iff [of 2 n, where 'a = 'a] bit_exp_iff [of 3 n, where 'a = 'a]
    bit_exp_iff [of 4 n, where 'a = 'a] bit_exp_iff [of 5 n, where 'a = 'a]
  by simp_all

lemma sd_apply_plain: "plain_sd sd \<Longrightarrow> plain_sd (fst (sd_apply c sd))"
proof -
  assume plain: "plain_sd sd"
  then have "absolute_sd (fst (sd_apply c sd))" by (simp add: plain_sd_def sd_apply_absolute)
  moreover from plain have "Sbz1 (fst (sd_apply c sd)) = 0 \<and> (\<forall>n \<ge> 6. \<not> bit (Control (fst (sd_apply c sd))) n)"
    by (cases c)
      (auto simp: plain_sd_def absolute_sd_def sd_setters Let_def bit_or_iff bit_and_iff small_numeral_bits)
  ultimately show ?thesis by (simp add: plain_sd_def)
qed

lemma sd_run_plain: "plain_sd sd \<Longrightarrow> plain_sd (sd_run cs sd)"
  unfolding sd_run_def by (induction cs arbitrary: sd) (simp_all add: sd_apply_plain)

lemma new_sd_plain: "plain_sd new_sd"
  by (simp add: plain_sd_def new_sd_absolute) (simp add: new_sd_def)

section \<open>Properties\<close>

text \<open>C16. A descriptor made by \<open>RtlCreateSecurityDescriptor\<close> and any sequence of the four setters is read back as
  the calls say: each reader returns what the last call for its part wrote, an absent list keeps the
  mark whether it is a default.\<close>

theorem security_descriptor_refines:
  "sd_view self (sd_run cs (fst (RtlCreateSecurityDescriptor sd 1))) = fold sd_spec cs new_view"
  by (simp add: RtlCreateSecurityDescriptor_new sd_run_view new_sd_absolute new_sd_view)

text \<open>C34. Such a descriptor is well-formed: it passes \<open>RtlValidSecurityDescriptor\<close>, is absolute, and no control bit
  beyond the six that are defined is ever set.\<close>

theorem security_descriptor_wellformed:
  "let s = sd_run cs (fst (RtlCreateSecurityDescriptor sd 1)) in
     plain_sd s \<and> RtlValidSecurityDescriptor (Some s) = code_SUCCESS"
proof -
  have "plain_sd (sd_run cs new_sd)" by (rule sd_run_plain [OF new_sd_plain])
  then show ?thesis
    by (simp add: RtlCreateSecurityDescriptor_new RtlValidSecurityDescriptor_def plain_sd_def absolute_sd_def)
qed

text \<open>The setters refuse a descriptor of another revision or with relative pointers and leave it alone. On
  every other one they return \<open>STATUS_SUCCESS\<close>, except that removing the discretionary list returns 1.\<close>

theorem security_descriptor_status:
  "snd (sd_apply c sd) =
     (if Revision sd \<noteq> 1 then code_UNKNOWN_REVISION
      else if bit (Control sd) 15 then code_INVALID_SECURITY_DESCR
      else case c of SetDacl False p d \<Rightarrow> 1 | _ \<Rightarrow> code_SUCCESS) \<and>
   (absolute_sd sd \<or> fst (sd_apply c sd) = sd)"
  by (cases c) (auto simp: sd_setters absolute_sd_def Let_def ucast_uchar_1 split: bool.splits)

end
