(* ===== verification/SecurityProps.thy ===== *)
theory SecurityProps
  imports SidProps AclProps SdProps
begin

text \<open>
  The properties of access control lists: single calls, and lists that are created, filled by a sequence of calls
  and read back; the length of a descriptor; concrete identifiers and lists for the witnesses.
\<close>

section \<open>Sequences of calls\<close>

text \<open>A caller that adds entries from one place after the other; the statuses it gets.\<close>

fun add_calls :: "mem \<Rightarrow> ulong \<Rightarrow> (ulong \<times> ulong) list \<Rightarrow> (mem \<times> ulong list) res option" where
  "add_calls m p [] = Some (Inr (m, []))"
| "add_calls m p ((q, len) # cs) =
     (case RtlAddAce m p 2 0 q len of
        None \<Rightarrow> None
      | Some (Inl e) \<Rightarrow> Some (Inl e)
      | Some (Inr (m, st)) \<Rightarrow>
          (case add_calls m p cs of
             None \<Rightarrow> None
           | Some (Inl e) \<Rightarrow> Some (Inl e)
           | Some (Inr (m, sts)) \<Rightarrow> Some (Inr (m, st # sts))))"

fun add_spec :: "acl \<Rightarrow> uchar list list list \<Rightarrow> acl \<times> ulong list" where
  "add_spec a [] = (a, [])"
| "add_spec a (es # ess) =
     (case add_aces a es of
        None \<Rightarrow> let (b, sts) = add_spec a ess in (b, code_INVALID_PARAMETER # sts)
      | Some a \<Rightarrow> let (b, sts) = add_spec a ess in (b, code_SUCCESS # sts))"

text \<open>A place with well-formed entries, away from the list.\<close>

definition ace_source :: "mem \<Rightarrow> ulong \<Rightarrow> nat \<Rightarrow> ulong \<times> uchar list list \<Rightarrow> bool" where
  "ace_source m p k = (\<lambda>(q, es). list_all ace_ok es \<and> stored m q (concat es) \<and>
     apart p k q (length (concat es)) \<and> unat q + length (concat es) \<le> 2 ^ 32 \<and>
     unat p + k + length (concat es) < 2 ^ 32)"

definition source_call :: "ulong \<times> uchar list list \<Rightarrow> ulong \<times> ulong" where
  "source_call = (\<lambda>(q, es). (q, of_nat (length (concat es))))"

lemma ace_source_kept:
  assumes "ace_source m p k c" "changes_only p k m m'" "unat p + k \<le> 2 ^ 32"
  shows "ace_source m' p k c"
  using assms unfolding ace_source_def by (auto intro: changes_only_apart)

lemma add_calls_refines:
  assumes "acl_at m p a" "list_all (ace_source m p (acl_size a)) cs"
  shows "\<exists>m'. add_calls m p (map source_call cs) = Some (Inr (m', snd (add_spec a (map snd cs)))) \<and>
    acl_at m' p (fst (add_spec a (map snd cs))) \<and> changes_only p (acl_size a) m m'"
  using assms
proof (induction cs arbitrary: m a)
  case (Cons c cs)
  obtain q es where c: "c = (q, es)" by (cases c)
  have src: "list_all ace_ok es" "stored m q (concat es)" "apart p (acl_size a) q (length (concat es))"
    "unat q + length (concat es) \<le> 2 ^ 32" "unat p + acl_size a + length (concat es) < 2 ^ 32"
    using Cons.prems(2) by (simp_all add: c ace_source_def)
  have p: "unat p + acl_size a \<le> 2 ^ 32" using Cons.prems(1) by (simp add: acl_at_def)
  have keep: "list_all (ace_source m1 p (acl_size a)) cs" if "changes_only p (acl_size a) m m1" for m1
    using Cons.prems(2) ace_source_kept [OF _ that p] by (auto simp: list_all_iff)
  note step = RtlAddAce_stored [OF Cons.prems(1) src, of 2 0]
  show ?case
  proof (cases "add_aces a es")
    case None
    with step have add: "RtlAddAce m p 2 0 q (of_nat (length (concat es))) = Some (Inr (m, code_INVALID_PARAMETER))"
      by (auto simp: returns_def)
    show ?thesis
      using Cons.IH [OF Cons.prems(1)] Cons.prems(2) None add
      by (auto simp: c source_call_def split: prod.splits)
  next
    case (Some a')
    with step obtain m1 where add: "RtlAddAce m p 2 0 q (of_nat (length (concat es))) = Some (Inr (m1, code_SUCCESS))"
        and m1: "acl_at m1 p a'" "changes_only p (acl_size a) m m1"
      by (auto simp: returns_def)
    have sz: "acl_size a' = acl_size a" by (rule add_aces_SomeD(4) [OF Some])
    from Cons.IH [OF m1(1)] keep [OF m1(2)] obtain m2 where
      "add_calls m1 p (map source_call cs) = Some (Inr (m2, snd (add_spec a' (map snd cs))))"
      "acl_at m2 p (fst (add_spec a' (map snd cs)))" "changes_only p (acl_size a) m1 m2"
      unfolding sz by auto
    then show ?thesis
      using Some add changes_only_trans [OF m1(2)] by (auto simp: c source_call_def split: prod.splits)
  qed
qed simp

section \<open>Concrete lists\<close>

definition system_ace :: "uchar list" where
  "system_ace = [0, 0, 20, 0, 0, 0, 0, 16, 1, 1, 0, 0, 0, 0, 0, 5, 18, 0, 0, 0]"

definition demo_acl :: acl where
  "demo_acl = \<lparr>AclRevision = 2, AclSbz1 = 0, AclSbz2 = 0, Aces = [system_ace], Free = replicate 30 0\<rparr>"

text \<open>A list at \<open>0x1000\<close> and two entries to be added at \<open>0x2000\<close>.\<close>

definition demo_mem :: mem where
  "demo_mem = mem_upd (mem_upd Map.empty 0x1000 (acl_bytes demo_acl)) 0x2000 (system_ace @ [0, 0, 0, 0])"

lemma ace_ok_system: "ace_ok system_ace"
  by (simp add: ace_ok_def system_ace_def le2_def)

lemma demo_acl_size: "acl_size demo_acl = 58" "length system_ace = 20" "length (acl_bytes demo_acl) = 58"
  by (simp_all add: acl_size_def demo_acl_def system_ace_def)

lemma demo_acl_at: "acl_at demo_mem 0x1000 demo_acl"
proof -
  have "stored demo_mem 0x1000 (acl_bytes demo_acl)"
    unfolding demo_mem_def
    by (intro stored_apart stored_mem_upd) (simp_all add: demo_acl_size apart_def)
  moreover have "acl_ok demo_acl" by (simp add: acl_ok_def demo_acl_size) (simp add: demo_acl_def ace_ok_system)
  ultimately show ?thesis by (simp add: acl_at_def demo_acl_size)
qed

lemma demo_source: "stored demo_mem 0x2000 (system_ace @ [0, 0, 0, 0])"
  unfolding demo_mem_def by (intro stored_mem_upd) (simp add: demo_acl_size)

lemma demo_free: "Free demo_acl = replicate 30 0" "Aces demo_acl = [system_ace]" "AclRevision demo_acl = 2"
  by (simp_all add: demo_acl_def)

lemma demo_ace_source: "ace_source demo_mem 0x1000 58 (0x2000, [system_ace])"
  using demo_source by (simp add: ace_source_def ace_ok_system stored_append apart_def demo_acl_size)

section \<open>Properties\<close>

text \<open>C15. An access control list that is created in a buffer and filled by any sequence of calls of
  \<open>RtlAddAce\<close> behaves like the list \<open>add_spec\<close>: every call returns and reports whether its entries fitted,
  only the buffer is written, and \<open>RtlGetAce\<close> finds each entry afterwards.\<close>

theorem acl_build_and_read:
  assumes "stored m p old" "8 \<le> length old" "length old < 65536" "unat p + length old < 2 ^ 32"
    and "list_all (ace_source m p (length old)) cs"
  defines "spec \<equiv> add_spec (empty_acl (drop 8 old)) (map snd cs)"
  shows "returns (RtlCreateAcl m p (of_nat (length old)) 2) (\<lambda>(m1, st). st = 0 \<and>
    (\<exists>m2. add_calls m1 p (map source_call cs) = Some (Inr (m2, snd spec)) \<and> changes_only p (length old) m m2 \<and>
      (\<forall>i < length (Aces (fst spec)). \<exists>x. RtlGetAce m2 p (of_nat i) = Inr (x, code_SUCCESS) \<and>
         stored m2 x (Aces (fst spec) ! i))))"
proof -
  have sz: "acl_size (empty_acl (drop 8 old)) = length old"
    using assms(2) by (simp add: acl_size_def empty_acl_def)
  have find: "\<exists>x. RtlGetAce m2 p (of_nat i) = Inr (x, code_SUCCESS) \<and> stored m2 x (Aces b ! i)"
    if b: "acl_at m2 p b" "i < length (Aces b)" for m2 b i
  proof -
    have "unat (of_nat i :: ulong) = i" using b acl_small(2) [OF b(1)] by (simp add: unat_of_nat)
    moreover have "concat (drop i (Aces b)) \<noteq> []" using b by (intro ace_nonempty) (simp_all add: acl_at_def)
    ultimately show ?thesis using b(2) ace_at [OF b] by (simp add: RtlGetAce_stored [OF b(1)])
  qed
  have "\<exists>m2. add_calls m1 p (map source_call cs) = Some (Inr (m2, snd spec)) \<and> acl_at m2 p (fst spec) \<and>
      changes_only p (length old) m m2"
    if m1: "acl_at m1 p (empty_acl (drop 8 old))" "changes_only p (length old) m m1" for m1
  proof -
    have "list_all (ace_source m1 p (length old)) cs"
      using assms(4,5) ace_source_kept [OF _ m1(2)] by (auto simp: list_all_iff)
    with add_calls_refines [OF m1(1), unfolded sz, of cs] show ?thesis
      unfolding spec_def using changes_only_trans [OF m1(2)] by blast
  qed
  with find show ?thesis
    by (intro returns_mono [OF RtlCreateAcl_stored [OF assms(1-4)]]) fastforce
qed

theorem acl_build_and_read_witness:
  "returns (RtlCreateAcl demo_mem 0x1000 58 2) (\<lambda>(m1, st). st = 0 \<and>
    (\<exists>m2. add_calls m1 0x1000 [(0x2000, 20), (0x2000, 20), (0x2000, 20)] =
         Some (Inr (m2, [code_SUCCESS, code_SUCCESS, code_INVALID_PARAMETER])) \<and>
       (\<exists>x. RtlGetAce m2 0x1000 1 = Inr (x, code_SUCCESS) \<and> stored m2 x system_ace)))"
proof -
  let ?cs = "[(0x2000 :: ulong, [system_ace]), (0x2000, [system_ace]), (0x2000, [system_ace])]"
  let ?old = "acl_bytes demo_acl"
  let ?spec = "add_spec (empty_acl (drop 8 ?old)) (map snd ?cs)"
  have st: "stored demo_mem 0x1000 ?old" using demo_acl_at by (simp add: acl_at_def)
  have free: "length (drop 8 ?old) = 50" by (simp add: demo_acl_size)
  then have "drop 8 ?old \<noteq> []" by (metis length_0_conv zero_neq_numeral)
  moreover have "drop 28 ?old \<noteq> []" "length (drop 28 ?old) = 30" "length (drop 48 ?old) = 10" "drop 48 ?old \<noteq> []"
    by (simp_all add: demo_acl_size)
  ultimately have "snd ?spec = [code_SUCCESS, code_SUCCESS, code_INVALID_PARAMETER]"
    "Aces (fst ?spec) = [system_ace, system_ace]"
    using free by (simp_all add: add_aces_def empty_acl_def demo_acl_size)
  with acl_build_and_read [OF st, of ?cs] demo_ace_source show ?thesis
    by (simp add: demo_acl_size source_call_def) (auto elim!: returns_mono)
qed

text \<open>One call of \<open>RtlAddAce\<close> on a list: it adds all the entries or none, and leaves the memory as it was
  when it refuses them.\<close>

theorem RtlAddAce_refines:
  assumes "acl_at m p a" "list_all ace_ok es" "stored m q (concat es)"
    and "apart p (acl_size a) q (length (concat es))" "unat q + length (concat es) \<le> 2 ^ 32"
    and "unat p + acl_size a + length (concat es) < 2 ^ 32"
  shows "\<exists>r. RtlAddAce m p revision n q (of_nat (length (concat es))) = Some r \<and>
    returns r (\<lambda>(m', st). case add_aces a es of
        None \<Rightarrow> m' = m \<and> st = code_INVALID_PARAMETER
      | Some a' \<Rightarrow> st = code_SUCCESS \<and> acl_at m' p a' \<and> changes_only p (acl_size a) m m')"
  using assms by (rule RtlAddAce_stored)

theorem RtlAddAce_refines_witness:
  "\<exists>m'. RtlAddAce demo_mem 0x1000 2 0 0x2000 20 = Some (Inr (m', code_SUCCESS)) \<and>
     acl_at m' 0x1000 (demo_acl\<lparr>Aces := [system_ace, system_ace], Free := replicate 10 0\<rparr>)"
proof -
  have "add_aces demo_acl [system_ace] =
      Some (demo_acl\<lparr>Aces := [system_ace, system_ace], Free := replicate 10 0\<rparr>)"
    by (simp add: add_aces_def demo_free demo_acl_size)
  with RtlAddAce_refines [where es = "[system_ace]" and q = "0x2000" and revision = 2 and n = 0, OF demo_acl_at] demo_source show ?thesis
    by (auto simp: ace_ok_system stored_append apart_def demo_acl_size returns_def)
qed

text \<open>C36. \<open>RtlAddAce\<close> does not return when the new entries contain one of size 0: counting them has no other
  bound than the length passed in.\<close>

theorem RtlAddAce_does_not_return:
  assumes "acl_at m p a" "AclRevision a = 2" "Free a \<noteq> []"
    and "list_all ace_ok es" "stored m q (concat es @ [t, f, 0, 0])" "length (concat es) < unat acelen"
  shows "RtlAddAce m p revision n q acelen = None"
  using assms by (rule RtlAddAce_stuck)

theorem RtlAddAce_does_not_return_witness: "RtlAddAce demo_mem 0x1000 2 0 0x2000 24 = None"
  by (rule RtlAddAce_does_not_return [where es = "[system_ace]" and t = 0 and f = 0, OF demo_acl_at])
    (use demo_source in \<open>simp_all add: demo_free ace_ok_system demo_acl_size\<close>)

text \<open>C35. \<open>RtlGetAce\<close> finds the entry of every index below the count and refuses those above it. The index that is
  the count itself is accepted: it yields the free space behind the last entry, if there is any.\<close>

theorem RtlGetAce_finds:
  assumes "acl_at m p a"
  shows "case RtlGetAce m p i of Inl e \<Rightarrow> False
    | Inr (x, st) \<Rightarrow>
        if unat i < length (Aces a) then st = code_SUCCESS \<and> stored m x (Aces a ! unat i)
        else if length (Aces a) < unat i then st = code_INVALID_PARAMETER \<and> x = 0
        else if Free a = [] then st = code_BUFFER_OVERFLOW \<and> x = 0
        else st = code_SUCCESS \<and> x = p + 8 + of_nat (length (concat (Aces a)))"
proof -
  have "concat (drop (unat i) (Aces a)) \<noteq> []" if "unat i < length (Aces a)"
    using assms that by (intro ace_nonempty) (simp_all add: acl_at_def)
  then show ?thesis
    using ace_at [OF assms, of "unat i"] by (auto simp: RtlGetAce_stored [OF assms] not_less)
qed

theorem RtlGetAce_finds_witness:
  "\<exists>x. RtlGetAce demo_mem 0x1000 0 = Inr (x, code_SUCCESS) \<and> stored demo_mem x system_ace \<and>
     RtlGetAce demo_mem 0x1000 1 = Inr (0x101C, code_SUCCESS)"
  using RtlGetAce_finds [OF demo_acl_at, of 0] RtlGetAce_finds [OF demo_acl_at, of 1]
  by (auto simp: demo_free demo_acl_size split: sum.splits)

text \<open>\<open>RtlLengthSecurityDescriptor\<close> counts one byte for each sub authority of the owner and the group, not
  the length of the identifiers, so its result is too small for the parts of the descriptor.\<close>

theorem RtlLengthSecurityDescriptor_short:
  assumes "stored m (Owner sd) (sid_bytes s)" "valid_sid s" "Owner sd \<noteq> 0"
    and "stored m (Group sd) (sid_bytes t)" "valid_sid t" "Group sd \<noteq> 0"
    and "acl_at m (Sacl sd) a" "Sacl sd \<noteq> 0" "acl_at m (Dacl sd) d" "Dacl sd \<noteq> 0"
  shows "returns (RtlLengthSecurityDescriptor m (Some sd)) (\<lambda>n.
    unat n = 20 + length (sidSubs s) + length (sidSubs t) + acl_size a + acl_size d \<and>
    unat n + 16 \<le> 20 + length (sid_bytes s) + length (sid_bytes t) + acl_size a + acl_size d)"
proof -
  let ?n = "20 + length (sidSubs s) + length (sidSubs t) + acl_size a + acl_size d"
  have small: "length (sidSubs s) \<le> 15" "length (sidSubs t) \<le> 15" "acl_size a < 65536" "acl_size d < 65536"
    using assms(2,5) acl_small(1) [OF assms(7)] acl_small(1) [OF assms(9)] by (simp_all add: valid_sid_def)
  have "RtlLengthSecurityDescriptor m (Some sd) = Inr (of_nat ?n)"
    using assms stored_sid_head(2) [OF assms(1)] stored_sid_head(2) [OF assms(4)]
      acl_fields(2) [OF assms(7)] acl_fields(2) [OF assms(9)] small
    by (simp add: RtlLengthSecurityDescriptor_def ucast_count ucast_ushort)
  moreover have "unat (of_nat ?n :: ulong) = ?n" by (subst unat_of_nat) (use small in simp)
  ultimately show ?thesis
    using length_sid_bytes [OF assms(2)] length_sid_bytes [OF assms(5)] by simp
qed

theorem RtlLengthSecurityDescriptor_short_witness:
  "let sd = \<lparr>Revision = 1, Sbz1 = 0, Control = 0x14, Owner = 0x3000, Group = 0x3000, Sacl = 0x1000, Dacl = 0x1000\<rparr>;
       m = mem_upd demo_mem 0x3000 (sid_bytes admins)
   in RtlLengthSecurityDescriptor m (Some sd) = Inr 140 \<and> 140 < 20 + 2 * length (sid_bytes admins) + 2 * acl_size demo_acl"
proof -
  let ?sd = "\<lparr>Revision = 1, Sbz1 = 0, Control = 0x14, Owner = 0x3000, Group = 0x3000, Sacl = 0x1000, Dacl = 0x1000\<rparr>"
  let ?m = "mem_upd demo_mem 0x3000 (sid_bytes admins)"
  have sid: "stored ?m 0x3000 (sid_bytes admins)"
    by (intro stored_mem_upd) (simp add: length_sid_bytes valid_admins sidSubs_admins)
  have "stored ?m 0x1000 (acl_bytes demo_acl)"
    using demo_acl_at
    by (intro stored_apart) (simp_all add: acl_at_def apart_def demo_acl_size length_sid_bytes valid_admins sidSubs_admins)
  then have acl: "acl_at ?m 0x1000 demo_acl" using demo_acl_at by (simp add: acl_at_def)
  have "returns (RtlLengthSecurityDescriptor ?m (Some ?sd)) (\<lambda>n. unat n = 140)"
    by (rule returns_mono [OF RtlLengthSecurityDescriptor_short [of ?m ?sd admins admins demo_acl demo_acl]])
      (use sid acl in \<open>simp_all add: valid_admins demo_acl_size sidSubs_admins\<close>)
  then have "RtlLengthSecurityDescriptor ?m (Some ?sd) = Inr 140"
    by (auto simp: returns_def word_unat_eq_iff)
  then show ?thesis by (simp add: Let_def demo_acl_size length_sid_bytes valid_admins sidSubs_admins)
qed

end
