(* ===== verification/SList.thy ===== *)
theory SList
  imports Prelude
begin

text \<open>
  The interlocked singly linked lists of \<open>ntdll/rtl.c\<close> as a machine of interleaved threads. The header
  is a 64-bit cell that is read in two halves, in either order, and written only by
  \<open>interlocked_cmpxchg64\<close>. The \<open>Next\<close> fields of the entries are a map from addresses; an address
  that is not mapped stands for a page that faults, which the pop catches.
\<close>

section \<open>The header\<close>

record slist_header =
  Next :: ulong
  Depth :: ushort
  Sequence :: ushort

text \<open>The union member \<open>Alignment\<close>: all three fields in one 64-bit word.\<close>

definition Alignment :: "slist_header \<Rightarrow> ulonglong" where
  "Alignment h = word_cat (Sequence h) (word_cat (Depth h) (Next h) :: 48 word)"

lemma Alignment_eq_iff [simp]: "Alignment h = Alignment k \<longleftrightarrow> h = (k :: slist_header)"
proof
  assume "Alignment h = Alignment k"
  then have "(word_split (Alignment h) :: ushort \<times> 48 word) = word_split (Alignment k)" by simp
  moreover have split1: "(word_split (Alignment h) :: ushort \<times> 48 word) = (Sequence h, word_cat (Depth h) (Next h))" for h :: slist_header
    unfolding Alignment_def by (rule word_split_cat_alt) (simp_all add: word_size)
  moreover have split2: "(word_split (word_cat (Depth h) (Next h) :: 48 word) :: ushort \<times> ulong) = (Depth h, Next h)"
    for h :: slist_header
    by (rule word_split_cat_alt) (simp_all add: word_size)
  ultimately have "Sequence h = Sequence k" "(Depth h, Next h) = (Depth k, Next k)"
    by (metis Pair_inject)+
  then show "h = k" by simp
qed simp

definition RtlInitializeSListHead :: slist_header where
  "RtlInitializeSListHead = \<lparr>Next = 0, Depth = 0, Sequence = 0\<rparr>"

definition RtlQueryDepthSList :: "slist_header \<Rightarrow> ushort" where
  "RtlQueryDepthSList list = Depth list"

definition RtlFirstEntrySList :: "slist_header \<Rightarrow> ulong" where
  "RtlFirstEntrySList list = Next list"

text \<open>The shared memory. \<open>swaps\<close> counts the successful exchanges, which no code reads.\<close>

record slist_mem =
  hdr :: slist_header
  link :: "ulong \<Rightarrow> ulong option"
  swaps :: nat

definition interlocked_cmpxchg64 :: "slist_header \<Rightarrow> slist_header \<Rightarrow> slist_mem \<Rightarrow> bool \<times> slist_mem" where
  "interlocked_cmpxchg64 xchg compare m =
     (if Alignment (hdr m) = Alignment compare then (True, m\<lparr>hdr := xchg, swaps := Suc (swaps m)\<rparr>) else (False, m))"

section \<open>Threads\<close>

text \<open>
  Where a thread is: before the load of the header, between its two halves, with the old value loaded,
  before the exchange. The number beside a loaded sequence is \<open>swaps\<close> at its load.
\<close>

datatype slist_pc =
    SlIdle | SlCheck | SlLoad
  | SlNext ulong | SlDepth ushort ushort nat
  | SlLoaded slist_header nat
  | SlSwap slist_header nat

datatype slist_call = Push ulong | PushList ulong ulong ulong | Pop | Flush

text \<open>
  \<open>sl_new\<close> is the local variable \<open>new\<close>, uninitialised at the call. \<open>sl_mine\<close> names the entries that a
  push is about to publish.
\<close>

record slist_thread =
  sl_call :: slist_call
  sl_pc :: slist_pc
  sl_new :: slist_header
  sl_mine :: "ulong list"

text \<open>What a step does to the list, seen from outside; the value returned to the caller comes with it.\<close>

datatype slist_label = Silent | Pushed "ulong list" ulong | Popped ulong | Flushed ulong

text \<open>\<open>old = *list\<close>\<close>

fun slist_load :: "bool \<Rightarrow> slist_pc \<Rightarrow> slist_mem \<Rightarrow> slist_pc option" where
  "slist_load nextFirst SlLoad m =
     Some (if nextFirst then SlNext (Next (hdr m)) else SlDepth (Depth (hdr m)) (Sequence (hdr m)) (swaps m))"
| "slist_load nextFirst (SlNext p) m =
     Some (SlLoaded \<lparr>Next = p, Depth = Depth (hdr m), Sequence = Sequence (hdr m)\<rparr> (swaps m))"
| "slist_load nextFirst (SlDepth d q k) m = Some (SlLoaded \<lparr>Next = Next (hdr m), Depth = d, Sequence = q\<rparr> k)"
| "slist_load nextFirst _ m = None"

text \<open>The loop condition: exchange and return, or start again.\<close>

definition slist_swap :: "slist_label \<Rightarrow> slist_header \<Rightarrow> slist_thread \<Rightarrow> slist_mem \<Rightarrow> slist_label \<times> slist_thread \<times> slist_mem" where
  "slist_swap l old x m =
     (let (ok, m) = interlocked_cmpxchg64 (sl_new x) old m
      in if ok then (l, x\<lparr>sl_pc := SlIdle, sl_mine := []\<rparr>, m) else (Silent, x\<lparr>sl_pc := SlLoad\<rparr>, m))"

fun RtlInterlockedPushEntrySList ::
    "ulong \<Rightarrow> slist_thread \<Rightarrow> slist_mem \<Rightarrow> (slist_label \<times> slist_thread \<times> slist_mem) option" where
  "RtlInterlockedPushEntrySList entry x m =
     (case sl_pc x of
        SlLoaded old k \<Rightarrow> Some (Silent,
          x\<lparr>sl_new := \<lparr>Next = entry, Depth = Depth old + 1, Sequence = Sequence old + 1\<rparr>, sl_pc := SlSwap old k\<rparr>,
          m\<lparr>link := (link m)(entry \<mapsto> Next old)\<rparr>)
      | SlSwap old k \<Rightarrow> Some (slist_swap (Pushed (sl_mine x) (Next old)) old x m)
      | _ \<Rightarrow> None)"

fun RtlInterlockedPushListSList ::
    "ulong \<Rightarrow> ulong \<Rightarrow> ulong \<Rightarrow> slist_thread \<Rightarrow> slist_mem \<Rightarrow> (slist_label \<times> slist_thread \<times> slist_mem) option" where
  "RtlInterlockedPushListSList first lst count x m =
     (case sl_pc x of
        SlLoaded old k \<Rightarrow> Some (Silent,
          x\<lparr>sl_new := \<lparr>Next = first, Depth = ucast (ucast (Depth old) + count), Sequence = Sequence old + 1\<rparr>,
            sl_pc := SlSwap old k\<rparr>,
          m\<lparr>link := (link m)(lst \<mapsto> Next old)\<rparr>)
      | SlSwap old k \<Rightarrow> Some (slist_swap (Pushed (sl_mine x) (Next old)) old x m)
      | _ \<Rightarrow> None)"

text \<open>A fault in the read of \<open>entry->Next\<close> leaves \<open>new\<close> as it was. A null entry ends the pop.\<close>

fun RtlInterlockedPopEntrySList ::
    "slist_thread \<Rightarrow> slist_mem \<Rightarrow> (slist_label \<times> slist_thread \<times> slist_mem) option" where
  "RtlInterlockedPopEntrySList x m =
     (case sl_pc x of
        SlLoaded old k \<Rightarrow>
          if Next old = 0 then Some (Silent, x\<lparr>sl_pc := SlIdle\<rparr>, m)
          else (case link m (Next old) of
              None \<Rightarrow> Some (Silent, x\<lparr>sl_pc := SlSwap old k\<rparr>, m)
            | Some p \<Rightarrow> Some (Silent,
                x\<lparr>sl_new := \<lparr>Next = p, Depth = Depth old - 1, Sequence = Sequence old + 1\<rparr>, sl_pc := SlSwap old k\<rparr>, m))
      | SlSwap old k \<Rightarrow> Some (slist_swap (Popped (Next old)) old x m)
      | _ \<Rightarrow> None)"

fun RtlInterlockedFlushSList ::
    "slist_thread \<Rightarrow> slist_mem \<Rightarrow> (slist_label \<times> slist_thread \<times> slist_mem) option" where
  "RtlInterlockedFlushSList x m =
     (case sl_pc x of
        SlCheck \<Rightarrow>
          if Depth (hdr m) = 0 then Some (Flushed 0, x\<lparr>sl_pc := SlIdle\<rparr>, m) else Some (Silent, x\<lparr>sl_pc := SlLoad\<rparr>, m)
      | SlLoaded old k \<Rightarrow>
          Some (Silent, x\<lparr>sl_new := \<lparr>Next = 0, Depth = 0, Sequence = Sequence old + 1\<rparr>, sl_pc := SlSwap old k\<rparr>, m)
      | SlSwap old k \<Rightarrow> Some (slist_swap (Flushed (Next old)) old x m)
      | _ \<Rightarrow> None)"

text \<open>
  One step of a thread. A pop that loads a null \<open>Next\<close> is bound to return null, so the empty list is
  seen at that load.
\<close>

definition loads_null :: "slist_pc \<Rightarrow> slist_pc \<Rightarrow> bool" where
  "loads_null pc pc' = (case pc' of SlNext p \<Rightarrow> p = 0
     | SlLoaded old k \<Rightarrow> (case pc of SlDepth d q k \<Rightarrow> Next old = 0 | _ \<Rightarrow> False)
     | _ \<Rightarrow> False)"

definition slist_run :: "bool \<Rightarrow> slist_thread \<Rightarrow> slist_mem \<Rightarrow> (slist_label \<times> slist_thread \<times> slist_mem) option" where
  "slist_run nextFirst x m =
     (case slist_load nextFirst (sl_pc x) m of
        Some pc \<Rightarrow>
          Some (if sl_call x = Pop \<and> loads_null (sl_pc x) pc then Popped 0 else Silent,
            x\<lparr>sl_pc := pc\<rparr>, m)
      | None \<Rightarrow>
          (case sl_call x of
             Push entry \<Rightarrow> RtlInterlockedPushEntrySList entry x m
           | PushList first lst count \<Rightarrow> RtlInterlockedPushListSList first lst count x m
           | Pop \<Rightarrow> RtlInterlockedPopEntrySList x m
           | Flush \<Rightarrow> RtlInterlockedFlushSList x m))"

section \<open>The contents of the list\<close>

text \<open>Following the links from the header, for at most \<open>n\<close> entries.\<close>

fun slist_walk :: "nat \<Rightarrow> (ulong \<Rightarrow> ulong option) \<Rightarrow> ulong \<Rightarrow> ulong list" where
  "slist_walk 0 l p = []"
| "slist_walk (Suc n) l p =
     (if p = 0 then [] else p # (case l p of None \<Rightarrow> [] | Some q \<Rightarrow> slist_walk n l q))"

text \<open>\<open>Depth\<close> counts to 65535, longer lists are out of its range.\<close>

definition slist_contents :: "slist_mem \<Rightarrow> ulong list" where
  "slist_contents m = slist_walk (2 ^ 16) (link m) (Next (hdr m))"

section \<open>Interleaving\<close>

record slist_sys =
  sl_mem :: slist_mem
  sl_threads :: "nat \<Rightarrow> slist_thread"

definition slist_move :: "slist_sys \<Rightarrow> nat \<Rightarrow> slist_thread \<Rightarrow> slist_mem \<Rightarrow> slist_sys" where
  "slist_move s t x m = \<lparr>sl_mem = m, sl_threads = (sl_threads s)(t := x)\<rparr>"

text \<open>Entries that some thread is about to publish, and entries that are linked privately one to the next.\<close>

definition slist_reserved :: "nat set \<Rightarrow> slist_sys \<Rightarrow> ulong set" where
  "slist_reserved T s = (\<Union>u\<in>T. set (sl_mine (sl_threads s u)))"

fun linked :: "(ulong \<Rightarrow> ulong option) \<Rightarrow> ulong list \<Rightarrow> bool" where
  "linked l [] = True"
| "linked l [p] = True"
| "linked l (p # q # ps) = (l p = Some q \<and> linked l (q # ps))"

text \<open>
  A client pushes entries that are not in the list and that no other call publishes, already linked
  when it is more than one. Memory that is neither may change at any time, also vanish.
\<close>

inductive slist_step :: "nat set \<Rightarrow> slist_label \<Rightarrow> slist_sys \<Rightarrow> slist_sys \<Rightarrow> bool" for T :: "nat set" where
  call_push: "t \<in> T \<Longrightarrow> sl_pc (sl_threads s t) = SlIdle \<Longrightarrow> e \<noteq> 0 \<Longrightarrow>
     e \<notin> set (slist_contents (sl_mem s)) \<Longrightarrow> e \<notin> slist_reserved T s \<Longrightarrow>
     slist_step T Silent s
       (slist_move s t \<lparr>sl_call = Push e, sl_pc = SlLoad, sl_new = v, sl_mine = [e]\<rparr> (sl_mem s))"
| call_push_list: "t \<in> T \<Longrightarrow> sl_pc (sl_threads s t) = SlIdle \<Longrightarrow> es \<noteq> [] \<Longrightarrow> distinct es \<Longrightarrow> 0 \<notin> set es \<Longrightarrow>
     set es \<inter> set (slist_contents (sl_mem s)) = {} \<Longrightarrow> set es \<inter> slist_reserved T s = {} \<Longrightarrow>
     linked (link (sl_mem s)) es \<Longrightarrow> n = of_nat (length es) \<Longrightarrow>
     slist_step T Silent s
       (slist_move s t \<lparr>sl_call = PushList (hd es) (last es) n, sl_pc = SlLoad, sl_new = v, sl_mine = es\<rparr> (sl_mem s))"
| call_pop: "t \<in> T \<Longrightarrow> sl_pc (sl_threads s t) = SlIdle \<Longrightarrow>
     slist_step T Silent s (slist_move s t \<lparr>sl_call = Pop, sl_pc = SlLoad, sl_new = v, sl_mine = []\<rparr> (sl_mem s))"
| call_flush: "t \<in> T \<Longrightarrow> sl_pc (sl_threads s t) = SlIdle \<Longrightarrow>
     slist_step T Silent s (slist_move s t \<lparr>sl_call = Flush, sl_pc = SlCheck, sl_new = v, sl_mine = []\<rparr> (sl_mem s))"
| client_write: "a \<notin> set (slist_contents (sl_mem s)) \<Longrightarrow> a \<notin> slist_reserved T s \<Longrightarrow>
     slist_step T Silent s (s\<lparr>sl_mem := (sl_mem s)\<lparr>link := (link (sl_mem s))(a := v)\<rparr>\<rparr>)"
| run: "t \<in> T \<Longrightarrow> slist_run nextFirst (sl_threads s t) (sl_mem s) = Some (l, x, m) \<Longrightarrow>
     slist_step T l s (slist_move s t x m)"

definition slist_start :: slist_sys where
  "slist_start = \<lparr>sl_mem = \<lparr>hdr = RtlInitializeSListHead, link = (\<lambda>_. None), swaps = 0\<rparr>,
     sl_threads = (\<lambda>_. \<lparr>sl_call = Pop, sl_pc = SlIdle, sl_new = RtlInitializeSListHead, sl_mine = []\<rparr>)\<rparr>"

text \<open>
  A thread is in time when fewer than \<open>2 ^ 16\<close> exchanges succeeded since it loaded the sequence
  number: after that many the 16 bits of \<open>Sequence\<close> come round again.
\<close>

definition sl_loaded :: "slist_pc \<Rightarrow> nat option" where
  "sl_loaded pc = (case pc of SlDepth d q k \<Rightarrow> Some k | SlLoaded old k \<Rightarrow> Some k | SlSwap old k \<Rightarrow> Some k | _ \<Rightarrow> None)"

definition slist_in_time :: "nat set \<Rightarrow> slist_sys \<Rightarrow> bool" where
  "slist_in_time T s \<longleftrightarrow>
     (\<forall>t\<in>T. case sl_loaded (sl_pc (sl_threads s t)) of None \<Rightarrow> True | Some k \<Rightarrow> swaps (sl_mem s) - k < 2 ^ 16)"

text \<open>The sequential list that the machine is compared with, and what its operations return.\<close>

inductive stack_step :: "slist_label \<Rightarrow> ulong list \<Rightarrow> ulong list \<Rightarrow> bool" where
  silent: "stack_step Silent xs xs"
| push: "es \<noteq> [] \<Longrightarrow> stack_step (Pushed es (case xs of [] \<Rightarrow> 0 | x # _ \<Rightarrow> x)) xs (es @ xs)"
| pop: "stack_step (Popped x) (x # xs) xs"
| pop_empty: "stack_step (Popped 0) [] []"
| flush: "stack_step (Flushed (case xs of [] \<Rightarrow> 0 | x # _ \<Rightarrow> x)) xs []"

inductive slist_reachable :: "nat set \<Rightarrow> slist_sys \<Rightarrow> bool" for T :: "nat set" where
  sl_init: "slist_reachable T slist_start"
| sl_next: "slist_reachable T s \<Longrightarrow> slist_step T l s s' \<Longrightarrow> slist_in_time T s' \<Longrightarrow>
     length (slist_contents (sl_mem s')) < 2 ^ 16 \<Longrightarrow> slist_reachable T s'"

end
