(* ===== verification/SListInv.thy ===== *)
theory SListInv
  imports SList
begin

text \<open>
  The invariant of the interlocked lists: the links from the header form a chain without repetition, every
  thread's loaded sequence number tells how many exchanges succeeded before, and a prepared exchange
  that can still succeed describes the list as it is now.
\<close>

section \<open>Chains\<close>

fun chain :: "(ulong \<Rightarrow> ulong option) \<Rightarrow> ulong \<Rightarrow> ulong list \<Rightarrow> bool" where
  "chain l p [] \<longleftrightarrow> p = 0"
| "chain l p (x # xs) \<longleftrightarrow> p = x \<and> x \<noteq> 0 \<and> (case l x of None \<Rightarrow> False | Some q \<Rightarrow> chain l q xs)"

lemma chain_walk: "chain l p xs \<Longrightarrow> slist_walk n l p = take n xs"
proof (induction n arbitrary: p xs)
  case (Suc n)
  then show ?case by (cases xs) (auto split: option.splits)
qed simp

lemma chain_upd: "a \<notin> set xs \<Longrightarrow> chain (l(a := v)) p xs = chain l p xs"
  by (induction xs arbitrary: p) (auto split: option.splits)

lemma chain_head: "chain l p xs \<Longrightarrow> p = (case xs of [] \<Rightarrow> 0 | x # _ \<Rightarrow> x)"
  by (cases xs) auto

lemma chain_not_null: "chain l p xs \<Longrightarrow> 0 \<notin> set xs"
  by (induction xs arbitrary: p) (auto split: option.splits)

lemma linked_upd_last: "distinct es \<Longrightarrow> linked (l(last es := v)) es = linked l es"
proof (induction l es rule: linked.induct)
  case (3 l p q ps)
  have "p \<noteq> last (q # ps)" using 3(2) by (metis distinct.simps(2) last_in_set list.distinct(1))
  then show ?case using 3 by simp
qed auto

lemma linked_upd: "a \<notin> set es \<Longrightarrow> linked (l(a := v)) es = linked l es"
  by (induction l es rule: linked.induct) auto

lemma linked_chain:
  "linked l es \<Longrightarrow> es \<noteq> [] \<Longrightarrow> 0 \<notin> set es \<Longrightarrow> l (last es) = Some p \<Longrightarrow> chain l p xs \<Longrightarrow> chain l (hd es) (es @ xs)"
  by (induction l es rule: linked.induct) auto

section \<open>The invariant\<close>

definition sl_ready :: "slist_thread \<Rightarrow> slist_header \<Rightarrow> nat \<Rightarrow> slist_mem \<Rightarrow> bool" where
  "sl_ready x old k m =
     (case sl_call x of
        Pop \<Rightarrow> Next old \<noteq> 0 \<and> (swaps m = k \<and> Next (hdr m) = Next old \<longrightarrow>
          link m (Next old) = Some (Next (sl_new x)) \<and> Depth (sl_new x) = Depth old - 1 \<and> Sequence (sl_new x) = Sequence old + 1)
      | Flush \<Rightarrow> sl_new x = \<lparr>Next = 0, Depth = 0, Sequence = Sequence old + 1\<rparr>
      | _ \<Rightarrow> sl_new x = \<lparr>Next = hd (sl_mine x), Depth = Depth old + of_nat (length (sl_mine x)), Sequence = Sequence old + 1\<rparr> \<and>
          link m (last (sl_mine x)) = Some (Next old))"

definition sl_owns :: "slist_thread \<Rightarrow> slist_mem \<Rightarrow> bool" where
  "sl_owns x m =
     (if sl_pc x = SlIdle then sl_mine x = []
      else case sl_call x of Push e \<Rightarrow> sl_mine x = [e]
        | PushList p q n \<Rightarrow> sl_mine x \<noteq> [] \<and> p = hd (sl_mine x) \<and> q = last (sl_mine x) \<and> n = of_nat (length (sl_mine x)) \<and>
            linked (link m) (sl_mine x)
        | Pop \<Rightarrow> sl_mine x = [] | Flush \<Rightarrow> sl_mine x = [])"

definition sl_local :: "slist_thread \<Rightarrow> slist_mem \<Rightarrow> bool" where
  "sl_local x m \<longleftrightarrow> distinct (sl_mine x) \<and> 0 \<notin> set (sl_mine x) \<and> sl_owns x m \<and>
     (case sl_pc x of SlCheck \<Rightarrow> sl_call x = Flush
      | SlDepth d q k \<Rightarrow> k \<le> swaps m \<and> q = of_nat k
      | SlLoaded old k \<Rightarrow> k \<le> swaps m \<and> Sequence old = of_nat k
      | SlSwap old k \<Rightarrow> k \<le> swaps m \<and> Sequence old = of_nat k \<and> sl_ready x old k m
      | _ \<Rightarrow> True)"

definition slist_list :: "slist_mem \<Rightarrow> ulong list \<Rightarrow> bool" where
  "slist_list m xs \<longleftrightarrow> chain (link m) (Next (hdr m)) xs \<and> distinct xs \<and> Depth (hdr m) = of_nat (length xs) \<and>
     Sequence (hdr m) = of_nat (swaps m)"

definition slist_inv :: "nat set \<Rightarrow> slist_sys \<Rightarrow> ulong list \<Rightarrow> bool" where
  "slist_inv T s xs \<longleftrightarrow> slist_list (sl_mem s) xs \<and> length xs < 2 ^ 16 \<and>
     (\<forall>t\<in>T. sl_local (sl_threads s t) (sl_mem s) \<and> set (sl_mine (sl_threads s t)) \<inter> set xs = {} \<and>
        (\<forall>u\<in>T. u \<noteq> t \<longrightarrow> set (sl_mine (sl_threads s t)) \<inter> set (sl_mine (sl_threads s u)) = {}))"

lemma slist_inv_contents: "slist_inv T s xs \<Longrightarrow> slist_contents (sl_mem s) = xs"
  using chain_walk [of "link (sl_mem s)" "Next (hdr (sl_mem s))" xs "2 ^ 16"]
  by (simp add: slist_inv_def slist_list_def slist_contents_def)

section \<open>What the other threads keep\<close>

lemma sl_local_link:
  assumes "sl_local x m" and "a \<notin> set (sl_mine x)" and "a \<notin> set xs" and "slist_list m xs"
  shows "sl_local x (m\<lparr>link := (link m)(a := v)\<rparr>)"
proof -
  have "a \<noteq> Next (hdr m)" if "Next (hdr m) \<noteq> 0"
    using assms(3,4) that chain_head [of "link m" "Next (hdr m)" xs] by (cases xs) (auto simp: slist_list_def)
  moreover have "last (sl_mine x) \<noteq> a" if "sl_mine x \<noteq> []" using assms(2) that by auto
  ultimately show ?thesis
    using assms(1,2)
    by (auto simp: sl_local_def sl_owns_def sl_ready_def linked_upd split: slist_pc.splits slist_call.splits if_splits)
qed

lemma sl_local_swap:
  assumes "sl_local x m"
  shows "sl_local x (m\<lparr>hdr := h, swaps := Suc (swaps m)\<rparr>)"
  using assms by (auto simp: sl_local_def sl_owns_def sl_ready_def split: slist_pc.splits slist_call.splits if_splits)

lemma slist_list_link:
  "slist_list m xs \<Longrightarrow> a \<notin> set xs \<Longrightarrow> slist_list (m\<lparr>link := (link m)(a := v)\<rparr>) xs"
  by (simp add: slist_list_def chain_upd)

section \<open>The exchange\<close>

text \<open>In time, equal sequence numbers mean that nothing was exchanged in between.\<close>

lemma sequence_in_time:
  assumes "(of_nat k :: ushort) = of_nat n" and "k \<le> n" and "n - k < 2 ^ 16"
  shows "k = n"
proof -
  have "k mod 2 ^ 16 = n mod 2 ^ 16"
    using arg_cong [OF assms(1), of unat] by (simp add: unat_of_nat)
  then have "(n - k) mod 2 ^ 16 = 0" using assms(2) by (metis mod_eq_dvd_iff_nat dvd_imp_mod_0)
  then show ?thesis using assms(2,3) by simp
qed

lemma slist_push_list:
  assumes "slist_list m xs" and "linked (link m) es" "es \<noteq> []" "0 \<notin> set es" "distinct es" "set es \<inter> set xs = {}"
    and "link m (last es) = Some (Next (hdr m))"
  shows "slist_list (m\<lparr>hdr := \<lparr>Next = hd es, Depth = Depth (hdr m) + of_nat (length es), Sequence = Sequence (hdr m) + 1\<rparr>,
      swaps := Suc (swaps m)\<rparr>) (es @ xs)"
  using assms linked_chain [OF assms(2-4,7)] by (auto simp: slist_list_def)

lemma slist_pop_list:
  assumes "slist_list m xs" and "Next (hdr m) \<noteq> 0" and "link m (Next (hdr m)) = Some p"
  shows "slist_list (m\<lparr>hdr := \<lparr>Next = p, Depth = Depth (hdr m) - 1, Sequence = Sequence (hdr m) + 1\<rparr>,
      swaps := Suc (swaps m)\<rparr>) (tl xs) \<and> xs = Next (hdr m) # tl xs"
  using assms by (cases xs) (auto simp: slist_list_def)

lemma slist_flush_list:
  assumes "slist_list m xs"
  shows "slist_list (m\<lparr>hdr := \<lparr>Next = 0, Depth = 0, Sequence = Sequence (hdr m) + 1\<rparr>, swaps := Suc (swaps m)\<rparr>) []"
  using assms by (auto simp: slist_list_def)

lemma ucast_add_ushort: "(ucast (ucast (d :: ushort) + (of_nat n :: ulong)) :: ushort) = d + of_nat n"
proof -
  have "unat (ucast (ucast d + (of_nat n :: ulong)) :: ushort) = (unat d + n) mod 2 ^ 32 mod 2 ^ 16"
    by (simp add: unsigned_ucast_eq unat_word_ariths take_bit_eq_mod unat_of_nat mod_simps)
  also have "\<dots> = (unat d + n) mod 2 ^ 16" by (rule mod_mod_cancel) simp
  also have "\<dots> = unat (d + of_nat n)" by (simp add: unat_word_ariths unat_of_nat mod_simps)
  finally show ?thesis by (rule unsigned_word_eqI)
qed

text \<open>One step of a thread, given what it knows and that it is in time.\<close>

definition slist_run_ok :: "slist_label \<Rightarrow> slist_thread \<Rightarrow> slist_thread \<Rightarrow> slist_mem \<Rightarrow> slist_mem \<Rightarrow> ulong list \<Rightarrow> bool" where
  "slist_run_ok l x x' m m' xs \<longleftrightarrow>
     (\<exists>xs'. slist_list m' xs' \<and> stack_step l xs xs' \<and> sl_local x' m' \<and>
        set (sl_mine x') \<subseteq> set (sl_mine x) \<and> set (sl_mine x') \<inter> set xs' = {} \<and> set xs' \<subseteq> set xs \<union> set (sl_mine x)) \<and>
     (m' = m \<or> (\<exists>a v. a \<in> set (sl_mine x) \<and> m' = m\<lparr>link := (link m)(a := v)\<rparr>) \<or>
        (\<exists>h. m' = m\<lparr>hdr := h, swaps := Suc (swaps m)\<rparr>))"

lemma slist_run_ok_keepI:
  assumes "slist_list m' xs" and "stack_step l xs xs" and "sl_local x' m'"
    and "set (sl_mine x') \<subseteq> set (sl_mine x)" and "set (sl_mine x) \<inter> set xs = {}"
    and "m' = m \<or> (\<exists>a v. a \<in> set (sl_mine x) \<and> m' = m\<lparr>link := (link m)(a := v)\<rparr>)"
  shows "slist_run_ok l x x' m m' xs"
  using assms unfolding slist_run_ok_def by blast

lemma slist_swap_ok:
  assumes swap: "slist_swap l old x m = (l', x', m')" and pc: "sl_pc x = SlSwap old k"
    and loc: "sl_local x m" and list: "slist_list m xs" and disj: "set (sl_mine x) \<inter> set xs = {}"
    and time: "swaps m - k < 2 ^ 16"
    and l: "l = (case sl_call x of Pop \<Rightarrow> Popped (Next old) | Flush \<Rightarrow> Flushed (Next old) | _ \<Rightarrow> Pushed (sl_mine x) (Next old))"
  shows "slist_run_ok l' x x' m m' xs"
proof (cases "hdr m = old")
  case False
  then have "l' = Silent" "x' = x\<lparr>sl_pc := SlLoad\<rparr>" "m' = m"
    using swap by (auto simp: slist_swap_def interlocked_cmpxchg64_def)
  moreover have "sl_local (x\<lparr>sl_pc := SlLoad\<rparr>) m"
    using loc pc by (cases "sl_call x") (auto simp: sl_local_def sl_owns_def)
  ultimately show ?thesis
    using list disj by (intro slist_run_ok_keepI) (auto intro: stack_step.silent)
next
  case True
  then have r: "l' = l" "x' = x\<lparr>sl_pc := SlIdle, sl_mine := []\<rparr>" "m' = m\<lparr>hdr := sl_new x, swaps := Suc (swaps m)\<rparr>"
    using swap by (auto simp: slist_swap_def interlocked_cmpxchg64_def)
  have "k \<le> swaps m" "Sequence old = of_nat k" "sl_ready x old k m" using loc pc by (auto simp: sl_local_def)
  moreover from this have k: "k = swaps m"
    using True list time by (intro sequence_in_time) (auto simp: slist_list_def)
  ultimately have ready: "sl_ready x old (swaps m) m" by simp
  have loc': "sl_local x' m'" by (simp add: r sl_local_def sl_owns_def)
  have head: "Next old = (case xs of [] \<Rightarrow> 0 | y # _ \<Rightarrow> y)"
    using list True chain_head by (auto simp: slist_list_def)
  have mine: "distinct (sl_mine x)" "0 \<notin> set (sl_mine x)" "sl_owns x m" using loc by (auto simp: sl_local_def)
  have push: "slist_list m' (sl_mine x @ xs) \<and> stack_step l xs (sl_mine x @ xs)"
    if c: "sl_call x \<noteq> Pop" "sl_call x \<noteq> Flush" and es: "sl_mine x \<noteq> []" "linked (link m) (sl_mine x)"
  proof
    have new: "sl_new x = \<lparr>Next = hd (sl_mine x), Depth = Depth (hdr m) + of_nat (length (sl_mine x)),
        Sequence = Sequence (hdr m) + 1\<rparr>" "link m (last (sl_mine x)) = Some (Next (hdr m))"
      using ready c True by (cases "sl_call x"; simp add: sl_ready_def)+
    show "slist_list m' (sl_mine x @ xs)"
      unfolding r(3) new(1) by (rule slist_push_list [OF list es(2,1) mine(2,1) disj new(2)])
    have "l = Pushed (sl_mine x) (Next old)" using l c by (cases "sl_call x") simp_all
    then show "stack_step l xs (sl_mine x @ xs)" unfolding head using stack_step.push [OF es(1)] by simp
  qed
  have "\<exists>xs'. slist_list m' xs' \<and> stack_step l xs xs' \<and> set xs' \<subseteq> set xs \<union> set (sl_mine x)"
  proof (cases "sl_call x")
    case Pop
    then obtain p where p: "Next old \<noteq> 0" "link m (Next old) = Some p"
      "sl_new x = \<lparr>Next = p, Depth = Depth old - 1, Sequence = Sequence old + 1\<rparr>"
      using ready True by (cases "sl_new x") (auto simp: sl_ready_def)
    then have "slist_list m' (tl xs) \<and> xs = Next old # tl xs"
      using slist_pop_list [OF list, of p] True r(3) by simp
    moreover from this have "stack_step l xs (tl xs)"
      using stack_step.pop [of "Next old" "tl xs"] l Pop by simp
    moreover have "set (tl xs) \<subseteq> set xs" by (cases xs) auto
    ultimately show ?thesis by blast
  next
    case Flush
    then have "slist_list m' []"
      using slist_flush_list [OF list] ready True r(3) by (simp add: sl_ready_def)
    moreover have "stack_step l xs []" using l Flush head stack_step.flush by simp
    ultimately show ?thesis by force
  next
    case (Push e)
    then have "sl_mine x = [e]" using mine(3) pc by (simp add: sl_owns_def)
    then show ?thesis using push Push by (intro exI [of _ "sl_mine x @ xs"]) simp
  next
    case (PushList p q n)
    then have "sl_mine x \<noteq> []" "linked (link m) (sl_mine x)" using mine(3) pc by (simp_all add: sl_owns_def)
    then show ?thesis using push PushList by (intro exI [of _ "sl_mine x @ xs"]) simp
  qed
  then show ?thesis unfolding slist_run_ok_def using loc' r by auto
qed

lemma slist_load_ok:
  assumes load: "slist_load b (sl_pc x) m = Some pc"
    and loc: "sl_local x m" and list: "slist_list m xs" and disj: "set (sl_mine x) \<inter> set xs = {}"
    and l: "l = Silent \<or> l = Popped 0 \<and> Next (hdr m) = 0"
  shows "slist_run_ok l x (x\<lparr>sl_pc := pc\<rparr>) m m xs"
proof (rule slist_run_ok_keepI)
  have "xs = []" if "Next (hdr m) = 0" using list that by (cases xs) (auto simp: slist_list_def)
  then show "stack_step l xs xs" using l by (auto intro: stack_step.intros)
  show "sl_local (x\<lparr>sl_pc := pc\<rparr>) m"
    using load loc list by (cases "sl_pc x"; cases "sl_call x") (auto simp: sl_local_def sl_owns_def slist_list_def split: if_splits)
qed (use list disj in auto)

lemma slist_run_step_ok:
  assumes run: "slist_run b x m = Some (l, x', m')"
    and loc: "sl_local x m" and list: "slist_list m xs" and disj: "set (sl_mine x) \<inter> set xs = {}"
    and time: "\<And>k. sl_loaded (sl_pc x) = Some k \<Longrightarrow> swaps m - k < 2 ^ 16" and len: "length xs < 2 ^ 16"
  shows "slist_run_ok l x x' m m' xs"
proof (cases "slist_load b (sl_pc x) m")
  case (Some pc)
  have "l = Silent \<or> l = Popped 0 \<and> Next (hdr m) = 0" "x' = x\<lparr>sl_pc := pc\<rparr>" "m' = m"
    using run Some by (cases "sl_pc x"; auto simp: slist_run_def loads_null_def split: if_splits)+
  then show ?thesis using slist_load_ok [OF Some loc list disj] by simp
next
  case None
  then consider "sl_pc x = SlIdle" | "sl_pc x = SlCheck" | old k where "sl_pc x = SlLoaded old k"
    | old k where "sl_pc x = SlSwap old k" by (cases "sl_pc x") auto
  then show ?thesis
  proof cases
    case 1
    then show ?thesis using run by (auto simp: slist_run_def split: slist_call.splits)
  next
    case 2
    have flush: "sl_call x = Flush" "sl_mine x = []" using loc 2 by (auto simp: sl_local_def sl_owns_def)
    show ?thesis
    proof (cases "Depth (hdr m) = 0")
      case True
      then have "(of_nat (length xs) :: ushort) = of_nat 0" using list by (simp add: slist_list_def)
      then have "xs = []" using sequence_in_time [of 0 "length xs"] len by simp
      moreover have "l = Flushed 0" "x' = x\<lparr>sl_pc := SlIdle\<rparr>" "m' = m" using run True 2 flush by (auto simp: slist_run_def)
      ultimately show ?thesis
        using list flush stack_step.flush [of "[]"] by (intro slist_run_ok_keepI) (auto simp: sl_local_def sl_owns_def)
    next
      case False
      then have "l = Silent" "x' = x\<lparr>sl_pc := SlLoad\<rparr>" "m' = m" using run 2 flush by (auto simp: slist_run_def)
      then show ?thesis
        using list flush disj stack_step.silent by (intro slist_run_ok_keepI) (auto simp: sl_local_def sl_owns_def)
    qed
  next
    case (3 old k)
    have push: "slist_run_ok Silent x (x\<lparr>sl_new := \<lparr>Next = hd (sl_mine x), Depth = Depth old + of_nat (length (sl_mine x)),
        Sequence = Sequence old + 1\<rparr>, sl_pc := SlSwap old k\<rparr>) m (m\<lparr>link := (link m)(last (sl_mine x) \<mapsto> Next old)\<rparr>) xs"
      if "sl_mine x \<noteq> []" "sl_call x \<noteq> Pop" "sl_call x \<noteq> Flush"
    proof (rule slist_run_ok_keepI)
      have "last (sl_mine x) \<notin> set xs" using that(1) disj last_in_set by blast
      then show "slist_list (m\<lparr>link := (link m)(last (sl_mine x) \<mapsto> Next old)\<rparr>) xs" by (rule slist_list_link [OF list])
      show "m\<lparr>link := (link m)(last (sl_mine x) \<mapsto> Next old)\<rparr> = m \<or>
        (\<exists>a v. a \<in> set (sl_mine x) \<and> m\<lparr>link := (link m)(last (sl_mine x) \<mapsto> Next old)\<rparr> = m\<lparr>link := (link m)(a := v)\<rparr>)"
        using that(1) last_in_set by blast
      show "sl_local (x\<lparr>sl_new := \<lparr>Next = hd (sl_mine x), Depth = Depth old + of_nat (length (sl_mine x)),
        Sequence = Sequence old + 1\<rparr>, sl_pc := SlSwap old k\<rparr>) (m\<lparr>link := (link m)(last (sl_mine x) \<mapsto> Next old)\<rparr>)"
        using loc 3 that by (cases "sl_call x") (auto simp: sl_local_def sl_owns_def sl_ready_def linked_upd_last)
    qed (use disj stack_step.silent in auto)
    have loaded: "k \<le> swaps m" "Sequence old = of_nat k" and mine: "sl_owns x m" using loc 3 by (auto simp: sl_local_def)
    show ?thesis
    proof (cases "sl_call x")
      case (Push e)
      then show ?thesis using push run 3 mine by (auto simp: slist_run_def sl_owns_def)
    next
      case (PushList p q n)
      then have "sl_mine x \<noteq> []" "p = hd (sl_mine x)" "q = last (sl_mine x)" "n = of_nat (length (sl_mine x))"
        using mine 3 by (auto simp: sl_owns_def)
      then show ?thesis using push run 3 PushList by (auto simp: slist_run_def ucast_add_ushort)
    next
      case Flush
      then show ?thesis
        using run 3 list disj loc stack_step.silent
        by (intro slist_run_ok_keepI) (auto simp: slist_run_def sl_local_def sl_owns_def sl_ready_def)
    next
      case Pop
      then have none: "sl_mine x = []" using mine 3 by (simp add: sl_owns_def)
      have current: "link m (Next old) \<noteq> None" if "Next (hdr m) = Next old" "Next old \<noteq> 0"
        using list that by (cases xs) (auto simp: slist_list_def split: option.splits)
      have "l = Silent \<and> m' = m \<and> sl_mine x' = [] \<and> sl_local x' m"
        using run 3 Pop none loaded current
        by (auto simp: slist_run_def sl_local_def sl_owns_def sl_ready_def split: if_splits option.splits)
      then show ?thesis
        using list disj stack_step.silent by (intro slist_run_ok_keepI) auto
    qed
  next
    case (4 old k)
    have "slist_swap (case sl_call x of Pop \<Rightarrow> Popped (Next old) | Flush \<Rightarrow> Flushed (Next old) | _ \<Rightarrow> Pushed (sl_mine x) (Next old)) old x m
      = (l, x', m')" using run 4 by (auto simp: slist_run_def split: slist_call.splits)
    then show ?thesis using 4 loc list disj time by (intro slist_swap_ok) (auto simp: sl_loaded_def)
  qed
qed

section \<open>All threads\<close>

lemma slist_run_inv:
  assumes inv: "slist_inv T s xs" and t: "t \<in> T"
    and run: "slist_run b (sl_threads s t) (sl_mem s) = Some (l, x, m)"
    and time: "slist_in_time T s" and len: "length (slist_contents m) < 2 ^ 16"
  shows "\<exists>xs'. slist_inv T (slist_move s t x m) xs' \<and> stack_step l xs xs'"
proof -
  let ?old = "sl_threads s t" and ?m = "sl_mem s"
  have i: "slist_list ?m xs" "length xs < 2 ^ 16" "sl_local ?old ?m" "set (sl_mine ?old) \<inter> set xs = {}"
    and others: "\<And>u. u \<in> T \<Longrightarrow> sl_local (sl_threads s u) ?m \<and> set (sl_mine (sl_threads s u)) \<inter> set xs = {}"
    and apart: "\<And>u v. u \<in> T \<Longrightarrow> v \<in> T \<Longrightarrow> v \<noteq> u \<Longrightarrow> set (sl_mine (sl_threads s u)) \<inter> set (sl_mine (sl_threads s v)) = {}"
    using inv t by (auto simp: slist_inv_def)
  have time': "swaps ?m - k < 2 ^ 16" if "sl_loaded (sl_pc ?old) = Some k" for k
    using time t that by (force simp: slist_in_time_def)
  obtain xs' where xs': "slist_list m xs'" "stack_step l xs xs'" "sl_local x m" "set (sl_mine x) \<subseteq> set (sl_mine ?old)"
      "set (sl_mine x) \<inter> set xs' = {}" "set xs' \<subseteq> set xs \<union> set (sl_mine ?old)"
    and m: "m = ?m \<or> (\<exists>a v. a \<in> set (sl_mine ?old) \<and> m = ?m\<lparr>link := (link ?m)(a := v)\<rparr>) \<or>
        (\<exists>h. m = ?m\<lparr>hdr := h, swaps := Suc (swaps ?m)\<rparr>)"
    using slist_run_step_ok [OF run i(3,1,4) time' i(2)] unfolding slist_run_ok_def by blast
  have "take (2 ^ 16) xs' = slist_contents m"
    using xs'(1) chain_walk [of "link m" "Next (hdr m)" xs' "2 ^ 16"] by (simp add: slist_contents_def slist_list_def)
  then have len': "length xs' < 2 ^ 16" using len by (metis length_take min_less_iff_conj min_def nat_less_le)
  have keep: "sl_local (sl_threads s u) m" if "u \<in> T" "u \<noteq> t" for u
    using m
  proof (elim disjE exE conjE)
    fix a v
    assume a: "a \<in> set (sl_mine ?old)" and "m = ?m\<lparr>link := (link ?m)(a := v)\<rparr>"
    moreover have "a \<notin> set (sl_mine (sl_threads s u))" "a \<notin> set xs" using a apart [OF t that] i(4) by blast+
    ultimately show ?thesis using sl_local_link [OF _ _ _ i(1)] others [OF that(1)] by blast
  qed (use others [OF that(1)] sl_local_swap in auto)
  have disj: "set (sl_mine (sl_threads s u)) \<inter> set xs' = {}" if "u \<in> T" "u \<noteq> t" for u
    using xs'(6) others [OF that(1)] apart [OF t that] by blast
  have "slist_inv T (slist_move s t x m) xs'"
    unfolding slist_inv_def slist_move_def
    using xs' len' keep disj apart t by (auto; blast)
  then show ?thesis using xs'(2) by blast
qed

lemma slist_call_inv:
  assumes inv: "slist_inv T s xs" and t: "t \<in> T" and x: "sl_local x (sl_mem s)"
    and new: "set (sl_mine x) \<inter> set xs = {}" "set (sl_mine x) \<inter> slist_reserved T s = {}"
  shows "slist_inv T (slist_move s t x (sl_mem s)) xs"
  using assms unfolding slist_inv_def slist_move_def slist_reserved_def by (auto; blast)

lemma slist_step_inv:
  assumes step: "slist_step T l s s'" and inv: "slist_inv T s xs" and time: "slist_in_time T s"
    and len: "length (slist_contents (sl_mem s')) < 2 ^ 16"
  shows "\<exists>xs'. slist_inv T s' xs' \<and> stack_step l xs xs'"
  using step
proof (cases rule: slist_step.cases)
  case (run t b x m)
  then show ?thesis using slist_run_inv [OF inv run(2,3) time] len by (simp add: slist_move_def)
next
  case (client_write a v)
  have "sl_local (sl_threads s u) ((sl_mem s)\<lparr>link := (link (sl_mem s))(a := v)\<rparr>)" if "u \<in> T" for u
    using inv client_write(3,4) that slist_inv_contents [OF inv]
    by (intro sl_local_link [of _ _ _ xs]) (auto simp: slist_inv_def slist_reserved_def)
  then have "slist_inv T s' xs"
    using inv client_write slist_inv_contents [OF inv] slist_list_link unfolding slist_inv_def by simp
  then show ?thesis using client_write(1) stack_step.silent by blast
next
  case (call_push t e v)
  have "slist_inv T s' xs"
    unfolding call_push(2) using call_push slist_inv_contents [OF inv]
    by (intro slist_call_inv [OF inv]) (auto simp: sl_local_def sl_owns_def)
  then show ?thesis using call_push(1) stack_step.silent by blast
next
  case (call_push_list t es n v)
  have "slist_inv T s' xs"
    unfolding call_push_list(2) using call_push_list slist_inv_contents [OF inv]
    by (intro slist_call_inv [OF inv]) (auto simp: sl_local_def sl_owns_def)
  then show ?thesis using call_push_list(1) stack_step.silent by blast
next
  case (call_pop t v)
  have "slist_inv T s' xs"
    unfolding call_pop(2) using call_pop by (intro slist_call_inv [OF inv]) (auto simp: sl_local_def sl_owns_def)
  then show ?thesis using call_pop(1) stack_step.silent by blast
next
  case (call_flush t v)
  have "slist_inv T s' xs"
    unfolding call_flush(2) using call_flush by (intro slist_call_inv [OF inv]) (auto simp: sl_local_def sl_owns_def)
  then show ?thesis using call_flush(1) stack_step.silent by blast
qed

lemma slist_start_inv: "slist_inv T slist_start []"
  by (simp add: slist_inv_def slist_start_def slist_list_def RtlInitializeSListHead_def sl_local_def sl_owns_def)

lemma slist_reachable_inv: "slist_reachable T s \<Longrightarrow> slist_inv T s (slist_contents (sl_mem s)) \<and> slist_in_time T s"
proof (induction rule: slist_reachable.induct)
  case sl_init
  then show ?case
    using slist_start_inv [of T] slist_inv_contents [OF slist_start_inv [of T]]
    by (simp add: slist_in_time_def slist_start_def sl_loaded_def)
next
  case (sl_next s l s')
  then obtain xs' where "slist_inv T s' xs'" using slist_step_inv by blast
  then show ?case using slist_inv_contents sl_next by metis
qed

end
