(* ===== verification/SListProps.thy ===== *)
theory SListProps
  imports SListInv
begin

text \<open>
  The property of the interlocked lists, with schedules that run concrete threads, and the limit of
  the 16-bit depth.
\<close>

section \<open>Schedules\<close>

lemma slist_walk_fuel: "length (slist_walk n l p) < n \<Longrightarrow> n \<le> k \<Longrightarrow> slist_walk k l p = slist_walk n l p"
proof (induction n arbitrary: k p)
  case (Suc n)
  then obtain j where k: "k = Suc j" "n \<le> j" by (cases k) auto
  show ?case
  proof (cases "l p")
    case (Some q)
    then show ?thesis using Suc.IH [of q j] Suc.prems(1) k by (cases "p = 0") simp_all
  qed (simp add: k)
qed simp

text \<open>Schedules for lists of fewer than eight entries.\<close>

definition few :: "slist_mem \<Rightarrow> ulong list" where
  "few m = slist_walk 8 (link m) (Next (hdr m))"

lemma few_contents: "length (few m) < 8 \<Longrightarrow> slist_contents m = few m"
  unfolding few_def slist_contents_def by (rule slist_walk_fuel) simp_all

datatype slist_event = DoPush nat ulong | DoPop nat | DoFlush nat | DoRun nat bool

fun sl_do :: "nat list \<Rightarrow> slist_sys \<Rightarrow> slist_event \<Rightarrow> (slist_label \<times> nat \<times> slist_thread \<times> slist_mem) option" where
  "sl_do ts s (DoPush t e) =
     (if t \<in> set ts \<and> sl_pc (sl_threads s t) = SlIdle \<and> e \<noteq> 0 \<and> e \<notin> set (few (sl_mem s)) \<and>
         list_all (\<lambda>u. e \<notin> set (sl_mine (sl_threads s u))) ts
      then Some (Silent, t, \<lparr>sl_call = Push e, sl_pc = SlLoad, sl_new = RtlInitializeSListHead, sl_mine = [e]\<rparr>, sl_mem s)
      else None)"
| "sl_do ts s (DoPop t) =
     (if t \<in> set ts \<and> sl_pc (sl_threads s t) = SlIdle
      then Some (Silent, t, \<lparr>sl_call = Pop, sl_pc = SlLoad, sl_new = RtlInitializeSListHead, sl_mine = []\<rparr>, sl_mem s)
      else None)"
| "sl_do ts s (DoFlush t) =
     (if t \<in> set ts \<and> sl_pc (sl_threads s t) = SlIdle
      then Some (Silent, t, \<lparr>sl_call = Flush, sl_pc = SlCheck, sl_new = RtlInitializeSListHead, sl_mine = []\<rparr>, sl_mem s)
      else None)"
| "sl_do ts s (DoRun t b) =
     (if t \<in> set ts then map_option (\<lambda>(l, x, m). (l, t, x, m)) (slist_run b (sl_threads s t) (sl_mem s)) else None)"

definition sl_fine :: "nat list \<Rightarrow> slist_sys \<Rightarrow> bool" where
  "sl_fine ts s \<longleftrightarrow> length (few (sl_mem s)) < 8 \<and>
     list_all (\<lambda>t. case sl_loaded (sl_pc (sl_threads s t)) of None \<Rightarrow> True | Some k \<Rightarrow> swaps (sl_mem s) - k < 8) ts"

fun sl_play :: "nat list \<Rightarrow> slist_sys \<Rightarrow> slist_event list \<Rightarrow> slist_sys option" where
  "sl_play ts s [] = Some s"
| "sl_play ts s (e # es) = (case sl_do ts s e of None \<Rightarrow> None
     | Some (l, t, x, m) \<Rightarrow> (let s' = slist_move s t x m in if sl_fine ts s' then sl_play ts s' es else None))"

lemma sl_do_step:
  assumes "sl_do ts s e = Some (l, t, x, m)" and "sl_fine ts s"
  shows "slist_step (set ts) l s (slist_move s t x m)"
  using assms few_contents [of "sl_mem s"]
  by (cases e) (auto simp: sl_fine_def slist_reserved_def list_all_iff split: if_splits intro: slist_step.intros)

lemma sl_fine_reachable: "sl_fine ts s \<Longrightarrow> slist_in_time (set ts) s \<and> length (slist_contents (sl_mem s)) < 2 ^ 16"
  using few_contents [of "sl_mem s"]
  by (force simp: sl_fine_def slist_in_time_def list_all_iff split: option.splits)

lemma sl_play_reachable:
  "sl_play ts s es = Some s' \<Longrightarrow> slist_reachable (set ts) s \<Longrightarrow> sl_fine ts s \<Longrightarrow> slist_reachable (set ts) s' \<and> sl_fine ts s'"
proof (induction es arbitrary: s)
  case (Cons e es)
  then obtain l t x m where e: "sl_do ts s e = Some (l, t, x, m)" and f: "sl_fine ts (slist_move s t x m)"
    and rest: "sl_play ts (slist_move s t x m) es = Some s'"
    by (auto simp: Let_def split: option.splits if_splits)
  have "slist_reachable (set ts) (slist_move s t x m)"
    using slist_reachable.sl_next [OF Cons.prems(2) sl_do_step [OF e Cons.prems(3)]] sl_fine_reachable [OF f] by blast
  then show ?case using Cons.IH [OF rest _ f] by blast
qed simp

definition sl_run_of :: "slist_event list \<Rightarrow> slist_sys" where
  "sl_run_of es = (case sl_play [1, 2] slist_start es of None \<Rightarrow> slist_start | Some s \<Rightarrow> s)"

lemma sl_start_fine: "sl_fine [1, 2] slist_start"
  by code_simp

lemma sl_run_of_reachable: "slist_reachable {1, 2} (sl_run_of es) \<and> sl_fine [1, 2] (sl_run_of es)"
  using sl_play_reachable [of "[1, 2]" slist_start es] slist_reachable.sl_init [of "{1, 2}"] sl_start_fine
  by (auto simp: sl_run_of_def split: option.splits)

lemma sl_play_snoc:
  "sl_play ts s (es @ [e]) = Some s'' \<Longrightarrow> sl_fine ts s \<Longrightarrow>
     \<exists>s' l t x m. sl_play ts s es = Some s' \<and> sl_do ts s' e = Some (l, t, x, m) \<and> slist_step (set ts) l s' s''"
proof (induction es arbitrary: s)
  case Nil
  then show ?case using sl_do_step by (auto simp: Let_def split: option.splits if_splits)
next
  case (Cons d es)
  then show ?case by (auto simp: Let_def split: option.splits if_splits)
qed

lemma sl_run_of_step:
  assumes "sl_play [1, 2] slist_start (es @ [e]) \<noteq> None"
  shows "slist_step {1, 2} (fst (the (sl_do [1, 2] (sl_run_of es) e))) (sl_run_of es) (sl_run_of (es @ [e]))"
  using assms sl_play_snoc [of "[1, 2]" slist_start es e] sl_start_fine by (force simp: sl_run_of_def)

section \<open>Linearisation\<close>

text \<open>C12. The interlocked lists are a stack, for any interleaving of the loads and exchanges of any number of
  threads that push an entry, push a chain, pop and flush, with client memory that changes or
  vanishes at any time: every step either leaves the contents alone or is one operation on the sequential
  stack that also determines the value returned, and \<open>Depth\<close> is the number of entries. Fewer than
  \<open>2 ^ 16\<close> exchanges may succeed between the load and the exchange of one thread (the width of \<open>Sequence\<close>), and
  the list holds fewer than \<open>2 ^ 16\<close> entries (the width of \<open>Depth\<close>).\<close>
theorem slist_linearizable:
  assumes "slist_reachable T s" and "slist_step T l s s'" and "slist_in_time T s'"
    and "length (slist_contents (sl_mem s')) < 2 ^ 16"
  shows "stack_step l (slist_contents (sl_mem s)) (slist_contents (sl_mem s')) \<and>
    unat (RtlQueryDepthSList (hdr (sl_mem s'))) = length (slist_contents (sl_mem s'))"
proof -
  have inv: "slist_inv T s (slist_contents (sl_mem s))" "slist_in_time T s"
    using slist_reachable_inv [OF assms(1)] by blast+
  obtain xs where xs: "slist_inv T s' xs" "stack_step l (slist_contents (sl_mem s)) xs"
    using slist_step_inv [OF assms(2) inv assms(4)] by blast
  have "unat (Depth (hdr (sl_mem s'))) = length xs"
    using xs(1) by (simp add: slist_inv_def slist_list_def unat_of_nat)
  then show ?thesis using xs slist_inv_contents [OF xs(1)] by (simp add: RtlQueryDepthSList_def)
qed

theorem slist_linearizable_witness:
  "let es = [DoPush 1 0x20, DoRun 1 True, DoRun 1 True, DoRun 1 True,
             DoPush 2 0x30, DoRun 2 False, DoRun 2 False, DoRun 2 False, DoRun 2 False,
             DoRun 1 True, DoRun 1 True, DoRun 1 True, DoRun 1 True]
   in stack_step (Pushed [0x20] 0x30) (slist_contents (sl_mem (sl_run_of es)))
        (slist_contents (sl_mem (sl_run_of (es @ [DoRun 1 True])))) \<and>
      slist_contents (sl_mem (sl_run_of (es @ [DoRun 1 True]))) = [0x20, 0x30]"
proof -
  let ?es = "[DoPush 1 0x20, DoRun 1 True, DoRun 1 True, DoRun 1 True,
             DoPush 2 0x30, DoRun 2 False, DoRun 2 False, DoRun 2 False, DoRun 2 False,
             DoRun 1 True, DoRun 1 True, DoRun 1 True, DoRun 1 True]"
  let ?s = "sl_run_of ?es" and ?s' = "sl_run_of (?es @ [DoRun 1 True])"
  have "sl_play [1, 2] slist_start (?es @ [DoRun 1 True]) \<noteq> None" by code_simp
  then have step: "slist_step {1, 2} (fst (the (sl_do [1, 2] ?s (DoRun 1 True)))) ?s ?s'" by (rule sl_run_of_step)
  have label: "fst (the (sl_do [1, 2] ?s (DoRun 1 True))) = Pushed [0x20] 0x30" by code_simp
  have few: "few (sl_mem ?s') = [0x20, 0x30]" by code_simp
  have "slist_in_time {1, 2} ?s'" "length (slist_contents (sl_mem ?s')) < 2 ^ 16"
    using sl_run_of_reachable [of "?es @ [DoRun 1 True]"] sl_fine_reachable [of "[1, 2]" ?s'] by simp_all
  then have "stack_step (Pushed [0x20] 0x30) (slist_contents (sl_mem ?s)) (slist_contents (sl_mem ?s'))"
    using slist_linearizable [OF _ step [unfolded label]] sl_run_of_reachable [of ?es] by blast
  then show ?thesis using few_contents [of "sl_mem ?s'"] few by (simp add: Let_def)
qed

end
