(* ===== verification/Buffer.thy ===== *)
theory Buffer
  imports Prelude
begin

text \<open>
  Tables that are read and buffers that are written by index, where an access outside is a fault.
\<close>

definition lookup :: "'a list \<Rightarrow> nat \<Rightarrow> 'a res" where
  "lookup tab i = (if i < length tab then Inr (tab ! i) else Inl OutOfBounds)"

lemma lookup_inside [simp]: "i < length tab \<Longrightarrow> lookup tab i = Inr (tab ! i)"
  by (simp add: lookup_def)

lemma lookup_Inr: "lookup tab i = Inr x \<longleftrightarrow> i < length tab \<and> tab ! i = x"
  by (auto simp: lookup_def)

definition put :: "'a list \<Rightarrow> nat \<Rightarrow> 'a \<Rightarrow> 'a list res" where
  "put dst i v = (if i < length dst then Inr (dst[i := v]) else Inl OutOfBounds)"

text \<open>A buffer with its first elements, or those from an index on, replaced.\<close>

definition overwrite :: "'a list \<Rightarrow> nat \<Rightarrow> 'a list \<Rightarrow> 'a list" where
  "overwrite dst p xs = take p dst @ xs @ drop (p + length xs) dst"

lemma length_overwrite: "p + length xs \<le> length dst \<Longrightarrow> length (overwrite dst p xs) = length dst"
  by (simp add: overwrite_def)

lemma overwrite_Nil [simp]: "overwrite dst p [] = dst"
  by (simp add: overwrite_def)

lemma overwrite_append:
  "p + length xs + length ys \<le> length dst \<Longrightarrow>
     overwrite (overwrite dst p xs) (p + length xs) ys = overwrite dst p (xs @ ys)"
  by (simp add: overwrite_def ac_simps)

lemma overwrite_again:
  "length xs \<le> length ys \<Longrightarrow> p + length ys \<le> length dst \<Longrightarrow> overwrite (overwrite dst p xs) p ys = overwrite dst p ys"
  by (simp add: overwrite_def min_absorb2 drop_append add.commute)

lemma put_overwrite: "p < length dst \<Longrightarrow> put dst p v = Inr (overwrite dst p [v])"
  by (simp add: put_def overwrite_def upd_conv_take_nth_drop)

lemma put_overwrite_2:
  "p + 1 < length dst \<Longrightarrow> bind_res (put dst (p + 1) b) (\<lambda>dst. bind_res (put dst p a) f) = f (overwrite dst p [a, b])"
proof -
  assume p: "p + 1 < length dst"
  have "dst[p + 1 := b, p := a] = overwrite dst p [a, b]"
    using p by (intro nth_equalityI)
      (auto simp: overwrite_def nth_append nth_Cons nth_list_update split: nat.splits intro!: arg_cong [where f = "nth dst"])
  with p show ?thesis by (simp add: put_def)
qed

lemma put_overwrite_3:
  "p + 2 < length dst \<Longrightarrow>
     bind_res (put dst (p + 2) c) (\<lambda>dst. bind_res (put dst (p + 1) b) (\<lambda>dst. bind_res (put dst p a) f)) =
     f (overwrite dst p [a, b, c])"
proof -
  assume p: "p + 2 < length dst"
  have "dst[p + 2 := c, p + 1 := b, p := a] = overwrite dst p [a, b, c]"
    using p by (intro nth_equalityI)
      (auto simp: overwrite_def nth_append nth_Cons nth_list_update split: nat.splits intro!: arg_cong [where f = "nth dst"])
  with p show ?thesis by (simp add: put_def)
qed

text \<open>The whole pieces that fit into \<open>n\<close> elements.\<close>

fun fits :: "nat \<Rightarrow> 'a list list \<Rightarrow> 'a list" where
  "fits n [] = []"
| "fits n (x # xs) = (if length x \<le> n then x @ fits (n - length x) xs else [])"

lemma fits_all: "length (concat xs) \<le> n \<Longrightarrow> fits n xs = concat xs"
  by (induction n xs rule: fits.induct) auto

lemma length_fits: "length (fits n xs) \<le> n"
  by (induction n xs rule: fits.induct) auto

lemma fits_singles: "fits n (map (\<lambda>x. [x]) xs) = take n xs"
  by (induction xs arbitrary: n) (auto simp: take_Cons split: nat.splits)

section \<open>Parts of words\<close>

lemma unat_drop_bit: "unat (drop_bit k w :: 'a :: len word) = unat w div 2 ^ k"
proof -
  have "unat (drop_bit k w) = drop_bit k (unat w)"
    using unsigned_less [of w, where 'a = nat] by (simp only: unsigned_drop_bit_eq take_bit_nat_eq_self)
  then show ?thesis by (simp add: drop_bit_eq_div)
qed

lemma unat_and_mask: "unat (w AND mask k :: 'a :: len word) = unat w mod 2 ^ k"
  by (metis take_bit_eq_mask take_bit_eq_mod unsigned_take_bit_eq)

lemma unat_and_0f: "unat (w AND 0x0f :: 'a :: len word) = unat w mod 16"
  using unat_and_mask [of w 4] by (simp add: mask_eq_exp_minus_1)

lemma unat_and_ff: "unat (w AND 0xff :: 'a :: len word) = unat w mod 256"
  using unat_and_mask [of w 8] by (simp add: mask_eq_exp_minus_1)

lemma unat_drop_8: "unat (drop_bit 8 (w :: ushort)) < 256"
proof -
  have "unat w < 65536" using unsigned_less [of w] by simp
  then show ?thesis by (simp add: unat_drop_bit)
qed

end
