(* ===== verification/StrInt.thy ===== *)
theory StrInt
  imports NumStr Buffer
begin

text \<open>
  The conversions between integers and text of \<open>ntdll/rtlstr.c\<close>. Text is the characters in memory from the pointer
  on, the terminating 0 included; reading behind them is a fault. Plain \<open>char\<close> is signed.
\<close>

section \<open>Reading\<close>

definition digit_value :: "'a::len word \<Rightarrow> nat option" where
  "digit_value c =
     (if 48 \<le> c \<and> c \<le> 57 then Some (unat c - 48)
      else if 65 \<le> c \<and> c \<le> 90 then Some (unat c - 55)
      else if 97 \<le> c \<and> c \<le> 122 then Some (unat c - 87)
      else None)"

text \<open>Whether \<open>c\<close> is a digit of the base, and its value.\<close>

definition digit_in :: "ulong \<Rightarrow> 'a::len word \<Rightarrow> nat option" where
  "digit_in base c = (case digit_value c of None \<Rightarrow> None | Some d \<Rightarrow> if d < unat base then Some d else None)"

fun char_skip :: "uchar list \<Rightarrow> uchar list res" where
  "char_skip [] = Inl OutOfBounds"
| "char_skip (c # str) = (if c \<noteq> 0 \<and> sint c \<le> 32 then char_skip str else Inr (c # str))"

fun char_digits :: "ulong \<Rightarrow> uchar list \<Rightarrow> ulong \<Rightarrow> ulong res" where
  "char_digits base [] RunningTotal = Inl OutOfBounds"
| "char_digits base (c # str) RunningTotal =
     (if c = 0 then Inr RunningTotal
      else
        (case digit_in base c of
           None \<Rightarrow> Inr RunningTotal
         | Some digit \<Rightarrow> char_digits base str (RunningTotal * base + of_nat digit)))"

text \<open>The base and the rest of the text where base 0 is asked for.\<close>

definition char_base :: "uchar list \<Rightarrow> (ulong \<times> uchar list) res" where
  "char_base str =
     bind_res (lookup str 0) (\<lambda>c.
       if c = 48 then
         bind_res (lookup str 1) (\<lambda>d. Inr
           (if d = 98 then (2, drop 2 str) else if d = 111 then (8, drop 2 str) else if d = 120 then (16, drop 2 str)
            else (10, str)))
       else Inr (10, str))"

text \<open>The status and what is stored at \<open>value\<close>; \<open>value\<close> says whether the pointer is not null.\<close>

definition RtlCharToInteger :: "uchar list \<Rightarrow> ulong \<Rightarrow> bool \<Rightarrow> (ntstatus \<times> ulong option) res" where
  "RtlCharToInteger str base value =
     bind_res (char_skip str) (\<lambda>str.
     bind_res (lookup str 0) (\<lambda>c.
       let bMinus = (c = 45); str = (if c = 43 \<or> c = 45 then tl str else str) in
       if base \<notin> {0, 2, 8, 10, 16} then Inr (STATUS_INVALID_PARAMETER, None)
       else
         bind_res (if base = 0 then char_base str else Inr (base, str)) (\<lambda>(base, str).
           if \<not> value then Inr (STATUS_ACCESS_VIOLATION, None)
           else
             bind_res (char_digits base str 0) (\<lambda>RunningTotal.
               Inr (STATUS_SUCCESS, Some (if bMinus then - RunningTotal else RunningTotal))))))"

text \<open>The same on a counted string, of which \<open>n\<close> characters remain.\<close>

fun uni_skip :: "nat \<Rightarrow> ushort list \<Rightarrow> (nat \<times> ushort list) res" where
  "uni_skip 0 str = Inr (0, str)"
| "uni_skip (Suc n) [] = Inl OutOfBounds"
| "uni_skip (Suc n) (c # str) = (if c \<le> 32 then uni_skip n str else Inr (Suc n, c # str))"

fun uni_sign :: "nat \<Rightarrow> ushort list \<Rightarrow> (bool \<times> nat \<times> ushort list) res" where
  "uni_sign 0 str = Inr (False, 0, str)"
| "uni_sign (Suc n) [] = Inl OutOfBounds"
| "uni_sign (Suc n) (c # str) =
     Inr (if c = 43 then (False, n, str) else if c = 45 then (True, n, str) else (False, Suc n, c # str))"

definition uni_base :: "nat \<Rightarrow> ushort list \<Rightarrow> (ulong \<times> nat \<times> ushort list) res" where
  "uni_base n str =
     (if 2 \<le> n then
        bind_res (lookup str 0) (\<lambda>c.
          if c = 48 then
            bind_res (lookup str 1) (\<lambda>d. Inr
              (if d = 98 then (2, n - 2, drop 2 str) else if d = 111 then (8, n - 2, drop 2 str)
               else if d = 120 then (16, n - 2, drop 2 str) else (10, n, str)))
          else Inr (10, n, str))
      else Inr (10, n, str))"

fun uni_digits :: "ulong \<Rightarrow> nat \<Rightarrow> ushort list \<Rightarrow> ulong \<Rightarrow> ulong res" where
  "uni_digits base 0 str RunningTotal = Inr RunningTotal"
| "uni_digits base (Suc n) [] RunningTotal = Inl OutOfBounds"
| "uni_digits base (Suc n) (c # str) RunningTotal =
     (case digit_in base c of
        None \<Rightarrow> Inr RunningTotal
      | Some digit \<Rightarrow> uni_digits base n str (RunningTotal * base + of_nat digit))"

definition RtlUnicodeStringToInteger :: "unicode_string \<Rightarrow> ulong \<Rightarrow> bool \<Rightarrow> (ntstatus \<times> ulong option) res" where
  "RtlUnicodeStringToInteger str base value =
     (let chars = (case us_Buffer str of None \<Rightarrow> [] | Some buffer \<Rightarrow> buffer) in
      bind_res (uni_skip (unat (us_Length str) div 2) chars) (\<lambda>(n, chars).
      bind_res (uni_sign n chars) (\<lambda>(bMinus, n, chars).
        if base \<notin> {0, 2, 8, 10, 16} then Inr (STATUS_INVALID_PARAMETER, None)
        else
          bind_res (if base = 0 then uni_base n chars else Inr (base, n, chars)) (\<lambda>(base, n, chars).
            if \<not> value then Inr (STATUS_ACCESS_VIOLATION, None)
            else
              bind_res (uni_digits base n chars 0) (\<lambda>RunningTotal.
                Inr (STATUS_SUCCESS, Some (if bMinus then - RunningTotal else RunningTotal)))))))"

section \<open>Writing\<close>

text \<open>The status and the bytes at \<open>str\<close>, \<open>None\<close> for a null pointer.\<close>

definition RtlIntegerToChar :: "ulong \<Rightarrow> ulong \<Rightarrow> ulong \<Rightarrow> uchar list option \<Rightarrow> (ntstatus \<times> uchar list option) res" where
  "RtlIntegerToChar value base length' str =
     (if base \<notin> {0, 2, 8, 10, 16} then Inr (STATUS_INVALID_PARAMETER, str)
      else
        let base = (if base = 0 then 10 else base) in
        bind_res (digits_loop 65 base 32 value [0]) (\<lambda>pos.
          let len = length pos - 1 in
          if word_of_nat len > length' then Inr (STATUS_BUFFER_OVERFLOW, str)
          else
            (case str of
               None \<Rightarrow> Inr (STATUS_ACCESS_VIOLATION, None)
             | Some s \<Rightarrow>
                 let src = (if word_of_nat len = length' then take len pos else pos) in
                 if length src \<le> length s then Inr (STATUS_SUCCESS, Some (overwrite s 0 src))
                 else Inl OutOfBounds)))"

definition RtlIntegerToUnicodeString :: "ulong \<Rightarrow> ulong \<Rightarrow> unicode_string \<Rightarrow> (ntstatus \<times> unicode_string) res" where
  "RtlIntegerToUnicodeString value base str =
     (if base \<notin> {0, 2, 8, 10, 16} then Inr (STATUS_INVALID_PARAMETER, str)
      else
        let base = (if base = 0 then 10 else base) in
        bind_res (digits_loop 65 base 32 value [0]) (\<lambda>pos.
          let str = str\<lparr>us_Length := word_of_nat ((length pos - 1) * 2)\<rparr> in
          if us_MaximumLength str \<le> us_Length str then Inr (STATUS_BUFFER_OVERFLOW, str)
          else
            (case us_Buffer str of
               None \<Rightarrow> Inl NullDeref
             | Some buffer \<Rightarrow>
                 if length pos \<le> length buffer
                 then Inr (STATUS_SUCCESS, str\<lparr>us_Buffer := Some (overwrite buffer 0 (map ucast pos))\<rparr>)
                 else Inl OutOfBounds)))"

end
