(* ===== verification/StrIntProps.thy ===== *)
theory StrIntProps
  imports StrInt NumStrProps
begin

text \<open>
  What the conversions of \<open>StrInt\<close> read and write, in terms of the digits of a number.
\<close>

lemma digit_in_char:
  assumes "d < 16" "d < unat base"
  shows "digit_in base (digit_char 65 d) = Some d" "digit_in base (ucast (digit_char 65 d) :: ushort) = Some d"
    "digit_char 65 d \<notin> {0, 43, 45}" "\<not> sint (digit_char 65 d) \<le> 32" "ucast (digit_char 65 d) \<notin> {43, 45 :: ushort}"
    "\<not> (ucast (digit_char 65 d) :: ushort) \<le> 32"
proof -
  have all: "\<forall>d \<in> set [0..<16]. digit_value (digit_char 65 d) = Some d \<and> digit_value (ucast (digit_char 65 d) :: ushort) = Some d"
    "\<forall>d \<in> set [0..<16]. digit_char 65 d \<notin> {0, 43, 45} \<and> \<not> sint (digit_char 65 d) \<le> 32 \<and>
       ucast (digit_char 65 d) \<notin> {43, 45 :: ushort} \<and> \<not> (ucast (digit_char 65 d) :: ushort) \<le> 32"
    by code_simp+
  have d: "d \<in> set [0..<16]" using assms(1) by simp
  show "digit_in base (digit_char 65 d) = Some d" "digit_in base (ucast (digit_char 65 d) :: ushort) = Some d"
    using all(1) [THEN bspec, OF d] assms(2) unfolding digit_in_def by (simp_all only: option.simps if_True)
  show "digit_char 65 d \<notin> {0, 43, 45}" "\<not> sint (digit_char 65 d) \<le> 32" "ucast (digit_char 65 d) \<notin> {43, 45 :: ushort}"
    "\<not> (ucast (digit_char 65 d) :: ushort) \<le> 32"
    using all(2) [THEN bspec, OF d] by blast+
qed

lemma digit_in_0 [simp]: "digit_in base (0 :: uchar) = None" "digit_in base (0 :: ushort) = None"
  by (simp_all add: digit_in_def digit_value_def)

definition digits_ok :: "ulong \<Rightarrow> nat list \<Rightarrow> bool" where
  "digits_ok base ds \<longleftrightarrow> base \<in> {2, 8, 10, 16} \<and> (\<forall>d \<in> set ds. d < unat base)"

lemma digits_ok_Cons: "digits_ok base (d # ds) \<longleftrightarrow> d < 16 \<and> d < unat base \<and> digits_ok base ds"
  by (auto simp: digits_ok_def)

lemma step_value: "of_nat n * base + of_nat d = (of_nat (n * unat base + d) :: ulong)"
  by simp

lemma char_digits_value:
  assumes "digits_ok base ds" "digit_in base c = None"
  shows "char_digits base (map (digit_char 65) ds @ c # rest) (of_nat n) = Inr (of_nat (foldl (\<lambda>a d. a * unat base + d) n ds))"
  using assms
proof (induction ds arbitrary: n)
  case (Cons d ds)
  then have d: "d < 16" "d < unat base" "digits_ok base ds" by (simp_all add: digits_ok_Cons)
  show ?case
    using digit_in_char(1,3) [OF d(1,2)] Cons.IH [OF d(3) Cons.prems(2), of "n * unat base + d"]
    by (simp add: step_value del: of_nat_add of_nat_mult)
qed simp

lemma uni_digits_value:
  assumes "digits_ok base ds" "rest \<noteq> [] \<Longrightarrow> digit_in base (hd rest) = None"
  shows "uni_digits base (length ds + length rest) (map (\<lambda>d. ucast (digit_char 65 d)) ds @ rest @ behind) (of_nat n) =
    Inr (of_nat (foldl (\<lambda>a d. a * unat base + d) n ds))"
  using assms
proof (induction ds arbitrary: n)
  case Nil
  then show ?case by (cases rest) simp_all
next
  case (Cons d ds)
  then have d: "d < 16" "d < unat base" "digits_ok base ds" by (simp_all add: digits_ok_Cons)
  show ?case
    using digit_in_char(2) [OF d(1,2)] Cons.IH [OF d(3), of "n * unat base + d"] Cons.prems(2)
    by (simp add: step_value del: of_nat_add of_nat_mult)
qed

lemma char_skip_blanks: "\<forall>b \<in> set blanks. b \<noteq> 0 \<and> sint b \<le> 32 \<Longrightarrow> char_skip (blanks @ str) = char_skip str"
  by (induction blanks) auto

lemma RtlCharToInteger_reads:
  assumes "\<forall>b \<in> set blanks. b \<noteq> 0 \<and> sint b \<le> 32" "sign \<in> {[], [43], [45]}" "digits_ok base ds" "ds \<noteq> []"
    "digit_in base c = None"
  shows "RtlCharToInteger (blanks @ sign @ map (digit_char 65) ds @ c # rest) base True =
    Inr (STATUS_SUCCESS, Some (if sign = [45] then - of_nat (of_digs (unat base) ds) else of_nat (of_digs (unat base) ds)))"
proof -
  obtain d tail where ds: "ds = d # tail" using assms(4) by (cases ds) auto
  have d: "d < 16" "d < unat base" using assms(3) by (simp_all add: ds digits_ok_Cons)
  have base: "base \<noteq> 0" "base \<in> {2, 8, 10, 16}" using assms(3) by (auto simp: digits_ok_def)
  let ?text = "map (digit_char 65) ds @ c # rest"
  have digits: "char_digits base ?text 0 = Inr (of_nat (of_digs (unat base) ds))"
    using char_digits_value [OF assms(3,5), of rest 0] by (simp add: of_digs_def)
  have "char_skip (sign @ ?text) = Inr (sign @ ?text)"
    using assms(2) digit_in_char(3,4) [OF d] by (auto simp: ds)
  then show ?thesis
    using assms(2) digits base digit_in_char(3) [OF d]
    by (auto simp: RtlCharToInteger_def char_skip_blanks [OF assms(1)] Let_def ds)
qed

lemma RtlUnicodeStringToInteger_reads:
  assumes "digits_ok base ds" "ds \<noteq> []" "us_Buffer str = Some (map (\<lambda>d. ucast (digit_char 65 d)) ds @ behind)"
    "unat (us_Length str) div 2 = length ds"
  shows "RtlUnicodeStringToInteger str base True = Inr (STATUS_SUCCESS, Some (of_nat (of_digs (unat base) ds)))"
proof -
  obtain d tail where ds: "ds = d # tail" using assms(2) by (cases ds) auto
  have d: "d < 16" "d < unat base" using assms(1) by (simp_all add: ds digits_ok_Cons)
  have base: "base \<noteq> 0" "base \<in> {2, 8, 10, 16}" using assms(1) by (auto simp: digits_ok_def)
  have "uni_digits base (length ds) (map (\<lambda>d. ucast (digit_char 65 d)) ds @ behind) 0 = Inr (of_nat (of_digs (unat base) ds))"
    using uni_digits_value [OF assms(1), of "[]" behind 0] by (simp add: of_digs_def)
  then show ?thesis
    using base digit_in_char(5,6) [OF d] assms(3,4) by (simp add: RtlUnicodeStringToInteger_def Let_def ds)
qed

section \<open>Writing\<close>

text \<open>The digits that are written for a number, and the base they are in.\<close>

definition int_base :: "ulong \<Rightarrow> ulong" where
  "int_base base = (if base = 0 then 10 else base)"

definition int_digits :: "ulong \<Rightarrow> ulong \<Rightarrow> nat list" where
  "int_digits base value = digs (unat (int_base base)) (unat value)"

lemma int_digits_loop:
  assumes "base \<in> {0, 2, 8, 10, 16}"
  shows "digits_loop 65 (int_base base) 32 value [0] = Inr (map (digit_char 65) (int_digits base value) @ [0])"
    "length (int_digits base value) \<le> 32" "int_digits base value \<noteq> []" "digits_ok (int_base base) (int_digits base value)"
    "of_digs (unat (int_base base)) (int_digits base value) = unat value"
proof -
  have 2: "2 \<le> unat (int_base base)" and b: "int_base base \<in> {2, 8, 10, 16}" using assms by (auto simp: int_base_def)
  from digits_loop_32 [OF 2] show "digits_loop 65 (int_base base) 32 value [0] = Inr (map (digit_char 65) (int_digits base value) @ [0])"
    "length (int_digits base value) \<le> 32" by (simp_all add: int_digits_def)
  show "int_digits base value \<noteq> []" by (simp add: int_digits_def)
  show "digits_ok (int_base base) (int_digits base value)"
    unfolding digits_ok_def int_digits_def using b digs_less [OF 2] by blast
  show "of_digs (unat (int_base base)) (int_digits base value) = unat value"
    by (simp add: int_digits_def of_digs_digs [OF 2])
qed

lemma RtlIntegerToChar_writes:
  assumes "base \<in> {0, 2, 8, 10, 16}" "length (int_digits base value) \<le> unat n" "unat n \<le> length s"
  shows "RtlIntegerToChar value base n (Some s) = Inr (STATUS_SUCCESS,
    Some (overwrite s 0 (take (unat n) (map (digit_char 65) (int_digits base value) @ [0]))))"
proof -
  note loop = int_digits_loop [OF assms(1), of "value"]
  have len: "unat (word_of_nat (length (int_digits base value)) :: ulong) = length (int_digits base value)"
    by (subst unat_of_nat) (use loop(2) in simp)
  have "(word_of_nat (length (int_digits base value)) = n) = (length (int_digits base value) = unat n)"
    "(n < word_of_nat (length (int_digits base value))) = (unat n < length (int_digits base value))"
    using len by (simp_all add: word_unat_eq_iff word_less_nat_alt)
  then show ?thesis
    using assms loop(1) by (auto simp: RtlIntegerToChar_def Let_def int_base_def [symmetric] overwrite_def)
qed

lemma RtlIntegerToUnicodeString_writes:
  assumes "base \<in> {0, 2, 8, 10, 16}" "2 * length (int_digits base value) < unat (us_MaximumLength str)"
    "us_Buffer str = Some buffer" "length (int_digits base value) < length buffer"
  shows "RtlIntegerToUnicodeString value base str = Inr (STATUS_SUCCESS,
    str\<lparr>us_Length := word_of_nat (2 * length (int_digits base value)),
      us_Buffer := Some (overwrite buffer 0 (map (\<lambda>d. ucast (digit_char 65 d)) (int_digits base value) @ [0]))\<rparr>)"
proof -
  note loop = int_digits_loop [OF assms(1), of "value"]
  have "unat (word_of_nat (length (int_digits base value) * 2) :: ushort) = length (int_digits base value) * 2"
    by (subst unat_of_nat) (use loop(2) in simp)
  then have "\<not> us_MaximumLength str \<le> word_of_nat (length (int_digits base value) * 2)"
    using assms(2) by (simp add: word_le_nat_alt)
  then show ?thesis
    using assms loop(1) by (simp add: RtlIntegerToUnicodeString_def Let_def int_base_def [symmetric] comp_def mult.commute)
qed

text \<open>A number has no digit 0 in front, so base 0 reads it as a decimal number.\<close>

lemma digit_char_48: "d < 16 \<Longrightarrow> digit_char 65 d = 48 \<longleftrightarrow> d = 0" "d < 16 \<Longrightarrow> (ucast (digit_char 65 d) :: ushort) = 48 \<longleftrightarrow> d = 0"
proof -
  have "\<forall>d \<in> set [0..<16]. (digit_char 65 d = 48 \<longleftrightarrow> d = 0) \<and> ((ucast (digit_char 65 d) :: ushort) = 48 \<longleftrightarrow> d = 0)"
    by code_simp
  then show "d < 16 \<Longrightarrow> digit_char 65 d = 48 \<longleftrightarrow> d = 0" "d < 16 \<Longrightarrow> (ucast (digit_char 65 d) :: ushort) = 48 \<longleftrightarrow> d = 0"
    by (simp_all add: atLeast0LessThan)
qed

lemma digs_first:
  obtains d tail where "digs 10 n = d # tail" "d < 10" "d = 0 \<longrightarrow> tail = []"
proof (cases "n = 0")
  case True
  then show thesis by (intro that [of 0 "[]"]) (simp_all add: digs.simps [of 10 0])
next
  case False
  obtain d tail where "digs 10 n = d # tail" by (cases "digs 10 n") auto
  with digs_less [of 10 d n] digs_leading [of 10 n] False show thesis by (intro that [of d tail]) auto
qed

lemma char_base_digs: "char_base (map (digit_char 65) (digs 10 n) @ 0 # rest) = Inr (10, map (digit_char 65) (digs 10 n) @ 0 # rest)"
proof -
  obtain d tail where d: "digs 10 n = d # tail" "d < 10" "d = 0 \<longrightarrow> tail = []" by (rule digs_first)
  then show ?thesis using digit_char_48(1) [of d] by (auto simp: char_base_def)
qed

lemma uni_base_digs:
  "uni_base (length (digs 10 n)) (map (\<lambda>d. ucast (digit_char 65 d)) (digs 10 n) @ rest) =
     Inr (10, length (digs 10 n), map (\<lambda>d. ucast (digit_char 65 d)) (digs 10 n) @ rest)"
proof -
  obtain d tail where d: "digs 10 n = d # tail" "d < 10" "d = 0 \<longrightarrow> tail = []" by (rule digs_first)
  then show ?thesis using digit_char_48(2) [of d] by (auto simp: uni_base_def)
qed

lemma RtlCharToInteger_digits:
  assumes "base \<in> {0, 2, 8, 10, 16}"
  shows "RtlCharToInteger (map (digit_char 65) (int_digits base value) @ 0 # rest) base True = Inr (STATUS_SUCCESS, Some value)"
proof (cases "base = 0")
  case False
  then have "int_base base = base" by (simp add: int_base_def)
  with RtlCharToInteger_reads [of "[]" "[]" base "int_digits base value" 0 rest] int_digits_loop [OF assms, of "value"]
  show ?thesis by simp
next
  case True
  let ?ds = "digs 10 (unat value)"
  note loop = int_digits_loop [of 0 "value", simplified, unfolded int_digits_def int_base_def, simplified]
  obtain d tail where d: "?ds = d # tail" "d < 10" by (rule digs_first)
  then have first: "digit_char 65 d \<notin> {0, 43, 45}" "\<not> sint (digit_char 65 d) \<le> 32" by (simp_all add: digit_in_char [of d 10] del: insert_iff)
  have "char_digits 10 (map (digit_char 65) ?ds @ 0 # rest) 0 = Inr value"
    using char_digits_value [of 10 ?ds 0 rest 0] loop by (simp add: of_digs_def)
  then show ?thesis
    using True char_base_digs [of "unat value" rest] d(1) first
    by (auto simp: RtlCharToInteger_def int_digits_def int_base_def Let_def)
qed

lemma RtlUnicodeStringToInteger_digits:
  assumes "base \<in> {0, 2, 8, 10, 16}" "unat (us_Length str) div 2 = length (int_digits base value)"
    "us_Buffer str = Some (map (\<lambda>d. ucast (digit_char 65 d)) (int_digits base value) @ rest)"
  shows "RtlUnicodeStringToInteger str base True = Inr (STATUS_SUCCESS, Some value)"
proof (cases "base = 0")
  case False
  then have "int_base base = base" by (simp add: int_base_def)
  with RtlUnicodeStringToInteger_reads [of base "int_digits base value" str rest] int_digits_loop [OF assms(1), of "value"] assms
  show ?thesis by simp
next
  case True
  let ?ds = "digs 10 (unat value)" and ?text = "map (\<lambda>d. ucast (digit_char 65 d) :: ushort)"
  note loop = int_digits_loop [of 0 "value", simplified, unfolded int_digits_def int_base_def, simplified]
  obtain d tail where d: "?ds = d # tail" "d < 10" by (rule digs_first)
  then have first: "(ucast (digit_char 65 d) :: ushort) \<notin> {43, 45}" "\<not> (ucast (digit_char 65 d) :: ushort) \<le> 32"
    by (simp_all add: digit_in_char [of d 10] del: insert_iff)
  have "uni_digits 10 (length ?ds) (?text ?ds @ rest) 0 = Inr value"
    using uni_digits_value [of 10 ?ds "[]" rest 0] loop by (simp add: of_digs_def)
  then show ?thesis
    using True uni_base_digs [of "unat value" rest] d(1) first assms(2,3)
    by (auto simp: RtlUnicodeStringToInteger_def int_digits_def int_base_def Let_def)
qed

section \<open>Properties\<close>

text \<open>C1. A number that is written by \<open>RtlIntegerToChar\<close> or \<open>RtlIntegerToUnicodeString\<close> is read back by the function
  for the other direction, for every value and every base they accept.\<close>

theorem RtlInteger_roundtrip:
  assumes "base \<in> {0, 2, 8, 10, 16}" "length (int_digits base value) < unat n" "unat n \<le> length s"
    "2 * unat n < unat (us_MaximumLength str)" "us_Buffer str = Some buffer" "unat n < length buffer"
  shows "(case RtlIntegerToChar value base n (Some s) of
        Inr (STATUS_SUCCESS, Some s') \<Rightarrow> RtlCharToInteger s' base True = Inr (STATUS_SUCCESS, Some value) | _ \<Rightarrow> False) \<and>
    (case RtlIntegerToUnicodeString value base str of
        Inr (STATUS_SUCCESS, str') \<Rightarrow> RtlUnicodeStringToInteger str' base True = Inr (STATUS_SUCCESS, Some value) | _ \<Rightarrow> False)"
proof
  show "case RtlIntegerToChar value base n (Some s) of
      Inr (STATUS_SUCCESS, Some s') \<Rightarrow> RtlCharToInteger s' base True = Inr (STATUS_SUCCESS, Some value) | _ \<Rightarrow> False"
    using RtlIntegerToChar_writes [OF assms(1), of "value" n s] assms(2,3) RtlCharToInteger_digits [OF assms(1), of "value"]
    by (simp add: overwrite_def)
  have "unat (word_of_nat (2 * length (int_digits base value)) :: ushort) = 2 * length (int_digits base value)"
    by (subst unat_of_nat) (use int_digits_loop(2) [OF assms(1), of "value"] in simp)
  then show "case RtlIntegerToUnicodeString value base str of
      Inr (STATUS_SUCCESS, str') \<Rightarrow> RtlUnicodeStringToInteger str' base True = Inr (STATUS_SUCCESS, Some value) | _ \<Rightarrow> False"
    using RtlIntegerToUnicodeString_writes [OF assms(1) _ assms(5), of "value"] assms(2,4,6)
    by (simp add: overwrite_def RtlUnicodeStringToInteger_digits [OF assms(1)])
qed

theorem RtlInteger_roundtrip_witness:
  "(case RtlIntegerToChar 48879 16 5 (Some (replicate 5 0)) of
      Inr (STATUS_SUCCESS, Some s') \<Rightarrow> RtlCharToInteger s' 16 True = Inr (STATUS_SUCCESS, Some 48879) | _ \<Rightarrow> False) \<and>
   (case RtlIntegerToUnicodeString 48879 16 \<lparr>us_Length = 0, us_MaximumLength = 12, us_Buffer = Some (replicate 6 0)\<rparr> of
      Inr (STATUS_SUCCESS, str') \<Rightarrow> RtlUnicodeStringToInteger str' 16 True = Inr (STATUS_SUCCESS, Some 48879) | _ \<Rightarrow> False)"
proof -
  have "int_digits 16 48879 = [11, 14, 14, 15]"
    by (simp add: int_digits_def int_base_def digs.simps [of 16 48879] digs.simps [of 16 3054] digs.simps [of 16 190] digs.simps [of 16 11])
  then show ?thesis
    by (intro RtlInteger_roundtrip [where buffer = "replicate 6 0"]) simp_all
qed

text \<open>C2. \<open>RtlCharToInteger\<close> skips blanks, reads one sign and the digits of the base up to the first other
  character, and stores the number they form modulo 2^32, negated behind a minus sign.\<close>

theorem RtlCharToInteger_value:
  assumes "\<forall>b \<in> set blanks. b \<noteq> 0 \<and> sint b \<le> 32" "sign \<in> {[], [43], [45]}" "digits_ok base ds" "ds \<noteq> []"
    "digit_in base c = None"
  shows "RtlCharToInteger (blanks @ sign @ map (digit_char 65) ds @ c # rest) base True =
    Inr (STATUS_SUCCESS, Some (if sign = [45] then - of_nat (of_digs (unat base) ds) else of_nat (of_digs (unat base) ds)))"
  using assms by (rule RtlCharToInteger_reads)

theorem RtlCharToInteger_value_witness:
  "RtlCharToInteger [32, 0xe9, 45, 49, 50, 65, 0] 10 True = Inr (STATUS_SUCCESS, Some (- 12))"
  using RtlCharToInteger_value [of "[32, 0xe9]" "[45]" 10 "[1, 2]" 65 "[0]"]
  by (simp add: digits_ok_def digit_in_def digit_value_def digit_char_def of_digs_def)

end
