(* ===== verification/Time.thy ===== *)
theory Time
  imports NumStr
begin

text \<open>
  The calendar of \<open>src/src/ntdll/time.c\<close>: conversions between 100-nanosecond ticks since 1601, broken-down
  time, and seconds since 1970 and 1980, and the table of time zone names. C integers are \<open>int\<close>
  with the conversions to \<open>CSHORT\<close> and \<open>LONGLONG\<close> written out; \<open>/\<close> and \<open>%\<close> truncate toward zero.
\<close>

section \<open>Integers and constants\<close>

definition cshort :: "int \<Rightarrow> int" where
  "cshort x = signed_take_bit 15 x"

definition clonglong :: "int \<Rightarrow> int" where
  "clonglong x = signed_take_bit 63 x"

definition YearLengths :: "int list" where
  "YearLengths = [365, 366]"

definition MonthLengths :: "int list list" where
  "MonthLengths =
     [[31, 28, 31, 30, 31, 30, 31, 31, 30, 31, 30, 31],
      [31, 29, 31, 30, 31, 30, 31, 31, 30, 31, 30, 31]]"

definition IsLeapYear :: "int \<Rightarrow> nat" where
  "IsLeapYear Year =
     (if Year smod 4 = 0 \<and> (Year smod 100 \<noteq> 0 \<or> Year smod 400 = 0) then 1 else 0)"

record time_fields =
  tf_Year :: int
  tf_Month :: int
  tf_Day :: int
  tf_Hour :: int
  tf_Minute :: int
  tf_Second :: int
  tf_Milliseconds :: int
  tf_Weekday :: int

lemma IsLeapYear_cases: "IsLeapYear y = 0 \<or> IsLeapYear y = 1"
  by (simp add: IsLeapYear_def)

lemma YearLengths_pos: "365 \<le> YearLengths ! IsLeapYear y \<and> YearLengths ! IsLeapYear y \<le> 366"
  using IsLeapYear_cases [of y] by (auto simp: YearLengths_def)

lemma MonthLengths_length [simp]: "length (MonthLengths ! IsLeapYear y) = 12"
  using IsLeapYear_cases [of y] by (auto simp: MonthLengths_def)

lemma less_12: "m < 12 \<Longrightarrow> m \<in> {0,1,2,3,4,5,6,7,8,9,10,11 :: nat}"
  by simp arith

lemma MonthLengths_range: "m < 12 \<Longrightarrow> 28 \<le> MonthLengths ! IsLeapYear y ! m \<and> MonthLengths ! IsLeapYear y ! m \<le> 31"
  using IsLeapYear_cases [of y] by (drule_tac less_12) (auto simp: MonthLengths_def)

section \<open>Ticks to fields\<close>

function year_loop :: "int \<Rightarrow> int \<Rightarrow> int \<times> int" where
  "year_loop Days CurYear =
     (let LeapYear = IsLeapYear CurYear in
      if Days < YearLengths ! LeapYear then (CurYear, Days)
      else year_loop (Days - YearLengths ! LeapYear) (CurYear + 1))"
  by pat_completeness auto
termination
proof (relation "measure (\<lambda>(d, y). nat d)", goal_cases)
  case (2 d y x)
  then show ?case using YearLengths_pos [of y] by auto
qed simp

declare year_loop.simps [simp del]

function month_loop :: "int list \<Rightarrow> nat \<Rightarrow> int \<Rightarrow> (nat \<times> int) res" where
  "month_loop Months CurMonth Days =
     (if CurMonth < length Months then
        if Days \<ge> Months ! CurMonth then month_loop Months (CurMonth + 1) (Days - Months ! CurMonth)
        else Inr (CurMonth, Days)
      else Inl OutOfBounds)"
  by pat_completeness auto
termination by (relation "measure (\<lambda>(ms, m, d). length ms - m)") auto

declare month_loop.simps [simp del]

definition RtlTimeToTimeFields :: "int \<Rightarrow> time_fields res" where
  "RtlTimeToTimeFields liTime =
     (let Milliseconds = cshort ((liTime smod 10000000) sdiv 10000);
          Time = liTime sdiv 10000000;
          Days = Time sdiv 86400; SecondsInDay = Time smod 86400;
          Hour = cshort (SecondsInDay sdiv 3600);
          SecondsInDay = SecondsInDay smod 3600;
          Minute = cshort (SecondsInDay sdiv 60);
          Second = cshort (SecondsInDay smod 60);
          Weekday = cshort ((1 + Days) smod 7);
          (CurYear, Days) = year_loop Days 1601
      in bind_res (month_loop (MonthLengths ! IsLeapYear CurYear) 0 Days) (\<lambda>(CurMonth, Days).
           Inr \<lparr>tf_Year = cshort CurYear, tf_Month = cshort (int CurMonth + 1), tf_Day = cshort (Days + 1),
                tf_Hour = Hour, tf_Minute = Minute, tf_Second = Second,
                tf_Milliseconds = Milliseconds, tf_Weekday = Weekday\<rparr>))"

section \<open>Fields to ticks\<close>

definition NormalizeTimeFields :: "int \<Rightarrow> int \<Rightarrow> int \<Rightarrow> int \<times> int" where
  "NormalizeTimeFields FieldToNormalize CarryField Modulus =
     (cshort (FieldToNormalize - Modulus), cshort (CarryField + 1))"

lemma cshort_le: "0 \<le> x \<Longrightarrow> cshort x \<le> x"
  by (simp add: cshort_def signed_take_bit_int_less_eq_self_iff)

lemma cshort_self: "- 32768 \<le> x \<Longrightarrow> x < 32768 \<Longrightarrow> cshort x = x"
  by (simp add: cshort_def signed_take_bit_int_eq_self)

text \<open>\<open>while (field >= Modulus) NormalizeTimeFields(..)\<close>, for the positive moduli of the code; the
  result is the field and the next one.\<close>

function normalize_loop :: "int \<Rightarrow> int \<Rightarrow> int \<Rightarrow> int \<times> int" where
  "normalize_loop field carry Modulus =
     (if 0 < Modulus \<and> field \<ge> Modulus then
        (case NormalizeTimeFields field carry Modulus of (field, carry) \<Rightarrow> normalize_loop field carry Modulus)
      else (field, carry))"
  by pat_completeness auto
termination
proof (relation "measure (\<lambda>(f, c, m). nat f)", goal_cases)
  case (2 f c m x y)
  then have "x \<le> f - m" using cshort_le [of "f - m"] by (simp add: NormalizeTimeFields_def)
  then show ?case using 2 by (simp add: NormalizeTimeFields_def)
qed simp

declare normalize_loop.simps [simp del]

text \<open>The loop over the days, with the modulus 60 of the code.\<close>

function normalize_days :: "int \<Rightarrow> int \<Rightarrow> int \<Rightarrow> (int \<times> int) res" where
  "normalize_days Year Month Day =
     (if 1 \<le> Month \<and> Month \<le> 12 then
        if Day > MonthLengths ! IsLeapYear Year ! nat (Month - 1) then
          (case NormalizeTimeFields Day Month 60 of (Day, Month) \<Rightarrow> normalize_days Year Month Day)
        else Inr (Month, Day)
      else Inl OutOfBounds)"
  by pat_completeness auto
termination
proof (relation "measure (\<lambda>(y, m, d). nat d)", goal_cases)
  case (2 y m d x z)
  have "nat (m - 1) < 12" using 2(1) by arith
  then have d: "28 < d" using MonthLengths_range [of "nat (m - 1)" y] 2 by simp
  have "x \<le> d - 1"
  proof (cases "0 \<le> d - 60")
    case True
    then show ?thesis using 2 cshort_le [of "d - 60"] by (simp add: NormalizeTimeFields_def)
  next
    case False
    then show ?thesis using 2 d cshort_self [of "d - 60"] by (simp add: NormalizeTimeFields_def)
  qed
  then show ?case using d 2 by (simp add: NormalizeTimeFields_def)
qed simp

declare normalize_days.simps [simp del]

function normalize_months :: "int \<Rightarrow> int \<Rightarrow> int \<times> int" where
  "normalize_months Month Year =
     (if Month > 12 then
        (case NormalizeTimeFields Month Year 12 of (Month, Year) \<Rightarrow> normalize_months Month Year)
      else (Month, Year))"
  by pat_completeness auto
termination
proof (relation "measure (\<lambda>(m, y). nat m)", goal_cases)
  case (2 m y x z)
  then have "x \<le> m - 12" using cshort_le [of "m - 12"] by (simp add: NormalizeTimeFields_def)
  then show ?case using 2 by (simp add: NormalizeTimeFields_def)
qed simp

declare normalize_months.simps [simp del]

function years_sum :: "int \<Rightarrow> int \<Rightarrow> int \<Rightarrow> int \<times> int" where
  "years_sum CurYear Year rcTime =
     (if CurYear < Year then years_sum (CurYear + 1) Year (clonglong (rcTime + YearLengths ! IsLeapYear CurYear))
      else (CurYear, rcTime))"
  by pat_completeness auto
termination by (relation "measure (\<lambda>(c, y, _). nat (y - c))") auto

declare years_sum.simps [simp del]

function months_sum :: "int list \<Rightarrow> int \<Rightarrow> int \<Rightarrow> int \<Rightarrow> int res" where
  "months_sum Months CurMonth Month rcTime =
     (if CurMonth < Month then
        if 1 \<le> CurMonth \<and> nat (CurMonth - 1) < length Months
        then months_sum Months (CurMonth + 1) Month (clonglong (rcTime + Months ! nat (CurMonth - 1)))
        else Inl OutOfBounds
      else Inr rcTime)"
  by pat_completeness auto
termination by (relation "measure (\<lambda>(_, c, m, _). nat (m - c))") auto

declare months_sum.simps [simp del]

text \<open>The returned \<open>TRUE\<close> and \<open>Time->QuadPart\<close>.\<close>

definition RtlTimeFieldsToTime :: "time_fields \<Rightarrow> (bool \<times> int) res" where
  "RtlTimeFieldsToTime tf =
     (let (Second, Minute) = normalize_loop (tf_Second tf) (tf_Minute tf) 60;
          (Minute, Hour) = normalize_loop Minute (tf_Hour tf) 60;
          (Hour, Day) = normalize_loop Hour (tf_Day tf) 24
      in bind_res (normalize_days (tf_Year tf) (tf_Month tf) Day) (\<lambda>(Month, Day).
         let (Month, Year) = normalize_months Month (tf_Year tf);
             (CurYear, rcTime) = years_sum 1601 Year 0
         in bind_res (months_sum (MonthLengths ! IsLeapYear CurYear) 1 Month rcTime) (\<lambda>rcTime.
            let rcTime = clonglong (rcTime + (Day - 1));
                rcTime = clonglong (rcTime * 86400);
                rcTime = clonglong (rcTime + (Hour * 3600 + Minute * 60 + Second));
                rcTime = clonglong (rcTime * 10000000);
                rcTime = clonglong (rcTime + tf_Milliseconds tf * 10000)
            in Inr (True, rcTime))))"

section \<open>Seconds since 1970 and 1980\<close>

definition SECS_1601_TO_1970 :: ulonglong where
  "SECS_1601_TO_1970 = (369 * 365 + 89) * 86400"

definition SECS_1601_to_1980 :: ulonglong where
  "SECS_1601_to_1980 = (379 * 365 + 91) * 86400"

text \<open>\<open>None\<close> is \<open>FALSE\<close>, \<open>Some\<close> the \<open>TRUE\<close> with \<open>*res\<close>.\<close>

definition RtlTimeToSecondsSince1970 :: "ulonglong \<Rightarrow> ulong option res" where
  "RtlTimeToSecondsSince1970 time =
     bind_res (RtlLargeIntegerDivide time 10000000) (\<lambda>(tmp, _).
       let tmp = tmp - SECS_1601_TO_1970 in
       if tmp > 0xffffffff then Inr None else Inr (Some (ucast tmp)))"

definition RtlTimeToSecondsSince1980 :: "ulonglong \<Rightarrow> ulong option res" where
  "RtlTimeToSecondsSince1980 time =
     bind_res (RtlLargeIntegerDivide time 10000000) (\<lambda>(tmp, _).
       let tmp = tmp - SECS_1601_to_1980 in
       if tmp > 0xffffffff then Inr None else Inr (Some (ucast tmp)))"

definition RtlSecondsSince1970ToTime :: "ulong \<Rightarrow> ulonglong" where
  "RtlSecondsSince1970ToTime time =
     RtlExtendedIntegerMultiply (ucast time + SECS_1601_TO_1970) 10000000"

definition RtlSecondsSince1980ToTime :: "ulong \<Rightarrow> ulonglong" where
  "RtlSecondsSince1980ToTime time =
     RtlExtendedIntegerMultiply (ucast time + SECS_1601_to_1980) 10000000"

definition RtlTimeToElapsedTimeFields :: "ulonglong \<Rightarrow> time_fields \<Rightarrow> time_fields res" where
  "RtlTimeToElapsedTimeFields Time tf =
     bind_res (RtlExtendedLargeIntegerDivide Time 10000000) (\<lambda>(time, rem).
       let Milliseconds = cshort (uint (rem div 10000)) in
       bind_res (RtlExtendedLargeIntegerDivide time 86400) (\<lambda>(days, rem).
         let Day = cshort (sint days); Second = cshort (uint (rem mod 60)); rem = rem div 60 in
         Inr (tf\<lparr>tf_Year := 0, tf_Month := 0, tf_Day := Day, tf_Hour := cshort (uint (rem div 60)),
                 tf_Minute := cshort (uint (rem mod 60)), tf_Second := Second,
                 tf_Milliseconds := Milliseconds\<rparr>)))"

section \<open>Time zones\<close>

record tagTZ_INFO =
  psTZFromUnix :: string
  psTZWindows :: string
  tz_bias :: int
  tz_dst :: int

definition tz_entry :: "string \<Rightarrow> string \<Rightarrow> int \<Rightarrow> int \<Rightarrow> tagTZ_INFO" where
  "tz_entry u w b d = \<lparr>psTZFromUnix = u, psTZWindows = w, tz_bias = b, tz_dst = d\<rparr>"

definition TZ_INFO_1 :: "tagTZ_INFO list" where
  "TZ_INFO_1 =
     [tz_entry ''MHT'' ''Dateline Standard Time'' (-720) 0,
      tz_entry ''SST'' ''Samoa Standard Time'' 660 0,
      tz_entry ''HST'' ''Hawaiian Standard Time'' 600 0,
      tz_entry ''AKDT'' ''Alaskan Standard Time'' 480 1,
      tz_entry ''PDT'' ''Pacific Standard Time'' 420 1,
      tz_entry ''MST'' ''US Mountain Standard Time'' 420 0,
      tz_entry ''MDT'' ''Mountain Standard Time'' 360 1,
      tz_entry ''CST'' ''Central America Standard Time'' 360 0,
      tz_entry ''CDT'' ''Central Standard Time'' 300 1,
      tz_entry ''COT'' ''SA Pacific Standard Time'' 300 0,
      tz_entry ''EDT'' ''Eastern Standard Time'' 240 1,
      tz_entry ''EST'' ''US Eastern Standard Time'' 300 0,
      tz_entry ''ADT'' ''Atlantic Standard Time'' 180 1,
      tz_entry ''VET'' ''SA Western Standard Time'' 240 0,
      tz_entry ''CLT'' ''Pacific SA Standard Time'' 240 0,
      tz_entry ''NDT'' ''Newfoundland Standard Time'' 150 1,
      tz_entry ''BRT'' ''E. South America Standard Time'' 180 0,
      tz_entry ''ART'' ''SA Eastern Standard Time'' 180 0,
      tz_entry ''WGST'' ''Greenland Standard Time'' 120 1,
      tz_entry ''GST'' ''Mid-Atlantic Standard Time'' 120 0,
      tz_entry ''AZOST'' ''Azores Standard Time'' 0 1,
      tz_entry ''CVT'' ''Cape Verde Standard Time'' 60 0,
      tz_entry ''WET'' ''Greenwich Standard Time'' 0 0,
      tz_entry ''BST'' ''GMT Standard Time'' (-60) 1,
      tz_entry ''GMT'' ''GMT Standard Time'' 0 0,
      tz_entry ''CEST'' ''Central Europe Standard Time'' (-120) 1,
      tz_entry ''WAT'' ''W. Central Africa Standard Time'' (-60) 0,
      tz_entry ''EEST'' ''E. Europe Standard Time'' (-180) 1,
      tz_entry ''EET'' ''Egypt Standard Time'' (-120) 0,
      tz_entry ''CAT'' ''South Africa Standard Time'' (-120) 0,
      tz_entry ''IST'' ''Israel Standard Time'' (-120) 0,
      tz_entry ''ADT'' ''Arabic Standard Time'' (-240) 1,
      tz_entry ''AST'' ''Arab Standard Time'' (-180) 0,
      tz_entry ''MSD'' ''Russian Standard Time'' (-240) 1,
      tz_entry ''EAT'' ''E. Africa Standard Time'' (-180) 0,
      tz_entry ''IRST'' ''Iran Standard Time'' (-270) 1,
      tz_entry ''GST'' ''Arabian Standard Time'' (-240) 0,
      tz_entry ''AZST'' ''Caucasus Standard Time'' (-300) 1,
      tz_entry ''AFT'' ''Afghanistan Standard Time'' (-270) 0,
      tz_entry ''YEKST'' ''Ekaterinburg Standard Time'' (-360) 1,
      tz_entry ''PKT'' ''West Asia Standard Time'' (-300) 0,
      tz_entry ''IST'' ''India Standard Time'' (-330) 0,
      tz_entry ''NPT'' ''Nepal Standard Time'' (-345) 0,
      tz_entry ''ALMST'' ''N. Central Asia Standard Time'' (-420) 1,
      tz_entry ''BDT'' ''Central Asia Standard Time'' (-360) 0,
      tz_entry ''LKT'' ''Sri Lanka Standard Time'' (-360) 0,
      tz_entry ''MMT'' ''Myanmar Standard Time'' (-390) 0]"

definition TZ_INFO_2 :: "tagTZ_INFO list" where
  "TZ_INFO_2 =
     [tz_entry ''ICT'' ''SE Asia Standard Time'' (-420) 0,
      tz_entry ''KRAST'' ''North Asia Standard Time'' (-480) 1,
      tz_entry ''CST'' ''China Standard Time'' (-480) 0,
      tz_entry ''IRKST'' ''North Asia East Standard Time'' (-540) 1,
      tz_entry ''SGT'' ''Malay Peninsula Standard Time'' (-480) 0,
      tz_entry ''WST'' ''W. Australia Standard Time'' (-480) 0,
      tz_entry ''JST'' ''Tokyo Standard Time'' (-540) 0,
      tz_entry ''KST'' ''Korea Standard Time'' (-540) 0,
      tz_entry ''YAKST'' ''Yakutsk Standard Time'' (-600) 1,
      tz_entry ''CST'' ''Cen. Australia Standard Time'' (-570) 0,
      tz_entry ''EST'' ''E. Australia Standard Time'' (-600) 0,
      tz_entry ''GST'' ''West Pacific Standard Time'' (-600) 0,
      tz_entry ''VLAST'' ''Vladivostok Standard Time'' (-660) 1,
      tz_entry ''MAGST'' ''Central Pacific Standard Time'' (-720) 1,
      tz_entry ''NZST'' ''New Zealand Standard Time'' (-720) 0,
      tz_entry ''FJT'' ''Fiji Standard Time'' (-720) 0,
      tz_entry ''TOT'' ''Tonga Standard Time'' (-780) 0]"

definition TZ_INFO :: "tagTZ_INFO list" where
  "TZ_INFO = TZ_INFO_1 @ TZ_INFO_2"

text \<open>What the C library reports: the current time, the daylight flag of \<open>localtime\<close>, \<open>mktime\<close> of the
  \<open>gmtime\<close> fields under such a flag, and the zone name of \<open>strftime\<close> (\<open>None\<close> when it does not
  fit its 7 bytes).\<close>

record time_env =
  env_time :: "int \<times> int"
  env_isdst :: "int \<Rightarrow> int"
  env_gm_mktime :: "int \<Rightarrow> int \<Rightarrow> int"
  env_zone :: "int \<Rightarrow> string option"

definition NtQuerySystemTime :: "time_env \<Rightarrow> ulonglong" where
  "NtQuerySystemTime env =
     (case env_time env of (tv_sec, tv_usec) \<Rightarrow>
        RtlExtendedIntegerMultiply (word_of_int tv_sec + SECS_1601_TO_1970) 10000000 + word_of_int (tv_usec * 10))"

definition TIME_GetBias :: "time_env \<Rightarrow> int \<Rightarrow> int \<times> int" where
  "TIME_GetBias env utc =
     (let pdaylight = env_isdst env utc in
      (signed_take_bit 31 (utc - env_gm_mktime env utc pdaylight), pdaylight))"

definition TIME_GetTZAsStr :: "time_env \<Rightarrow> int \<Rightarrow> int \<Rightarrow> int \<Rightarrow> string option" where
  "TIME_GetTZAsStr env utc bias dst =
     (case env_zone env utc of
        None \<Rightarrow> None
      | Some psTZName \<Rightarrow>
          map_option psTZWindows
            (find (\<lambda>e. psTZFromUnix e = psTZName \<and> tz_bias e = bias \<and> tz_dst e = dst) TZ_INFO))"

record time_zone_information =
  tzi_Bias :: int
  tzi_StandardName :: string
  tzi_StandardBias :: int
  tzi_DaylightBias :: int

definition RtlQueryTimeZoneInformation :: "time_env \<Rightarrow> ntstatus \<times> time_zone_information" where
  "RtlQueryTimeZoneInformation env =
     (let gmt = fst (env_time env); (bias, daylight) = TIME_GetBias env gmt;
          Bias = signed_take_bit 31 (- bias) sdiv 60 in
      (STATUS_SUCCESS,
       \<lparr>tzi_Bias = Bias,
        tzi_StandardName = (case TIME_GetTZAsStr env gmt Bias daylight of None \<Rightarrow> [] | Some psTZ \<Rightarrow> psTZ),
        tzi_StandardBias = 0, tzi_DaylightBias = -60\<rparr>))"

definition RtlSetTimeZoneInformation :: "time_zone_information \<Rightarrow> ntstatus" where
  "RtlSetTimeZoneInformation tzinfo = STATUS_PRIVILEGE_NOT_HELD"

definition bias_ticks :: "time_env \<Rightarrow> int" where
  "bias_ticks env =
     signed_take_bit 31 (tzi_Bias (snd (RtlQueryTimeZoneInformation env)) * 60) * 10000000"

definition RtlLocalTimeToSystemTime :: "time_env \<Rightarrow> int \<Rightarrow> ntstatus \<times> int" where
  "RtlLocalTimeToSystemTime env LocalTime = (STATUS_SUCCESS, clonglong (LocalTime + bias_ticks env))"

definition RtlSystemTimeToLocalTime :: "time_env \<Rightarrow> int \<Rightarrow> int" where
  "RtlSystemTimeToLocalTime env SystemTime = clonglong (SystemTime - bias_ticks env)"

end
