(* ===== verification/TimeProps.thy ===== *)
theory TimeProps
  imports Time
begin

text \<open>
  The conversions of \<open>Time\<close> against the proleptic Gregorian calendar counted in days from 1601, and
  what goes wrong when a day has to be normalised.
\<close>

section \<open>Days of years and months\<close>

abbreviation year_len :: "int \<Rightarrow> int" where
  "year_len y \<equiv> YearLengths ! IsLeapYear y"

abbreviation month_lens :: "int \<Rightarrow> int list" where
  "month_lens y \<equiv> MonthLengths ! IsLeapYear y"

definition ydays :: "int \<Rightarrow> nat \<Rightarrow> int" where
  "ydays y0 k = (\<Sum>i<k. year_len (y0 + int i))"

definition mdays :: "int list \<Rightarrow> nat \<Rightarrow> nat \<Rightarrow> int" where
  "mdays ms m j = (\<Sum>i=m..<j. ms ! i)"

lemma ydays_0 [simp]: "ydays y 0 = 0"
  by (simp add: ydays_def)

lemma ydays_Suc: "ydays y (Suc k) = year_len y + ydays (y + 1) k"
  by (simp add: ydays_def sum.lessThan_Suc_shift algebra_simps del: sum.lessThan_Suc)

lemma ydays_ge: "365 * int k \<le> ydays y k"
proof (induction k)
  case (Suc k)
  then show ?case using YearLengths_pos [of "y + int k"] by (simp add: ydays_def)
qed simp

lemma mdays_same [simp]: "mdays ms m m = 0"
  by (simp add: mdays_def)

lemma mdays_step: "m < j \<Longrightarrow> mdays ms m j = ms ! m + mdays ms (Suc m) j"
  by (simp add: mdays_def sum.atLeast_Suc_lessThan)

lemma month_lens_sum: "mdays (month_lens y) 0 12 = year_len y"
  using IsLeapYear_cases [of y]
  by (auto simp: mdays_def MonthLengths_def YearLengths_def numeral_eq_Suc)

lemma mdays_nonneg: "j \<le> 12 \<Longrightarrow> 0 \<le> mdays (month_lens y) m j"
  unfolding mdays_def
proof (rule sum_nonneg)
  fix x assume "j \<le> 12" "x \<in> {m..<j}"
  then show "0 \<le> month_lens y ! x" using MonthLengths_range [of x y] by simp
qed

lemma year_loop_days:
  "0 \<le> d \<Longrightarrow> \<exists>k r. year_loop d y = (y + int k, r) \<and> d = ydays y k + r \<and> 0 \<le> r \<and> r < year_len (y + int k)"
proof (induction d y rule: year_loop.induct)
  case (1 d y)
  show ?case
  proof (cases "d < year_len y")
    case True
    then show ?thesis using 1(2) by (subst year_loop.simps) (auto intro!: exI [of _ 0])
  next
    case False
    then obtain k r where "year_loop (d - year_len y) (y + 1) = (y + 1 + int k, r)"
      "d - year_len y = ydays (y + 1) k + r" "0 \<le> r" "r < year_len (y + 1 + int k)"
      using 1 by (metis diff_ge_0_iff_ge not_less)
    then show ?thesis using False
      by (subst year_loop.simps) (auto simp: Let_def ydays_Suc algebra_simps intro!: exI [of _ "Suc k"])
  qed
qed

lemma month_loop_days:
  "m \<le> length ms \<Longrightarrow> 0 \<le> d \<Longrightarrow> d < mdays ms m (length ms) \<Longrightarrow>
   \<exists>j r. month_loop ms m d = Inr (j, r) \<and> m \<le> j \<and> j < length ms \<and> d = mdays ms m j + r \<and> 0 \<le> r \<and> r < ms ! j"
proof (induction ms m d rule: month_loop.induct)
  case (1 ms m d)
  have m: "m < length ms" using "1.prems" by (cases "m = length ms") auto
  show ?case
  proof (cases "d < ms ! m")
    case True
    then show ?thesis using m "1.prems" by (subst month_loop.simps) (auto intro!: exI [of _ m])
  next
    case False
    then have "ms ! m \<le> d" by simp
    moreover have "d - ms ! m < mdays ms (m + 1) (length ms)"
      using "1.prems"(3) m by (simp add: mdays_step)
    ultimately obtain j r where "month_loop ms (m + 1) (d - ms ! m) = Inr (j, r)" "m + 1 \<le> j" "j < length ms"
      "d - ms ! m = mdays ms (m + 1) j + r" "0 \<le> r" "r < ms ! j"
      using "1.IH" [OF m] m by auto
    then show ?thesis using m \<open>ms ! m \<le> d\<close>
      by (subst month_loop.simps) (auto simp: mdays_step intro!: exI [of _ j])
  qed
qed

lemma clonglong_self: "0 \<le> x \<Longrightarrow> x < 2 ^ 63 \<Longrightarrow> clonglong x = x"
  by (simp add: clonglong_def signed_take_bit_int_eq_self)

lemma years_sum_days:
  "0 \<le> acc \<Longrightarrow> acc + ydays y k < 2 ^ 63 \<Longrightarrow> years_sum y (y + int k) acc = (y + int k, acc + ydays y k)"
proof (induction k arbitrary: y acc)
  case 0
  then show ?case by (subst years_sum.simps) simp
next
  case (Suc k)
  have "0 \<le> ydays (y + 1) k" using ydays_ge [of k "y + 1"] by simp
  moreover have "0 \<le> acc + year_len y" using Suc.prems(1) YearLengths_pos [of y] by simp
  ultimately have "clonglong (acc + year_len y) = acc + year_len y"
    using Suc.prems(2) by (intro clonglong_self) (simp_all add: ydays_Suc)
  then show ?case using Suc.IH [of "acc + year_len y" "y + 1"] Suc.prems \<open>0 \<le> acc + year_len y\<close>
    by (subst years_sum.simps) (simp add: ydays_Suc algebra_simps)
qed

lemma months_sum_days:
  "m \<le> j \<Longrightarrow> j \<le> 12 \<Longrightarrow> 0 \<le> acc \<Longrightarrow> acc + mdays (month_lens y) m j < 2 ^ 63 \<Longrightarrow>
   months_sum (month_lens y) (int m + 1) (int j + 1) acc = Inr (acc + mdays (month_lens y) m j)"
proof (induction "j - m" arbitrary: m acc)
  case 0
  then show ?case by (subst months_sum.simps) simp
next
  case (Suc n)
  then have m: "m < j" by simp
  have "0 \<le> mdays (month_lens y) (Suc m) j" using Suc.prems by (intro mdays_nonneg)
  moreover have ge: "0 \<le> acc + month_lens y ! m" using Suc.prems m MonthLengths_range [of m y] by simp
  ultimately have "clonglong (acc + month_lens y ! m) = acc + month_lens y ! m"
    using Suc.prems m by (intro clonglong_self) (simp_all add: mdays_step)
  then show ?case using Suc.hyps(1) [of "Suc m" "acc + month_lens y ! m"] Suc.hyps(2) Suc.prems m ge
    by (subst months_sum.simps) (simp add: mdays_step algebra_simps)
qed

section \<open>The conversions and the calendar\<close>

text \<open>The date as a count of days and ticks.\<close>

definition date_days :: "time_fields \<Rightarrow> int" where
  "date_days f = ydays 1601 (nat (tf_Year f - 1601)) + mdays (month_lens (tf_Year f)) 0 (nat (tf_Month f - 1)) +
     (tf_Day f - 1)"

definition date_ticks :: "time_fields \<Rightarrow> int" where
  "date_ticks f =
     ((date_days f * 86400 + (tf_Hour f * 3600 + tf_Minute f * 60 + tf_Second f)) * 10000000) +
     tf_Milliseconds f * 10000"

definition date_ok :: "time_fields \<Rightarrow> bool" where
  "date_ok f \<longleftrightarrow> 1601 \<le> tf_Year f \<and> 1 \<le> tf_Month f \<and> tf_Month f \<le> 12 \<and> 1 \<le> tf_Day f \<and>
     tf_Day f \<le> month_lens (tf_Year f) ! nat (tf_Month f - 1) \<and>
     0 \<le> tf_Hour f \<and> tf_Hour f < 24 \<and> 0 \<le> tf_Minute f \<and> tf_Minute f < 60 \<and>
     0 \<le> tf_Second f \<and> tf_Second f < 60 \<and> 0 \<le> tf_Milliseconds f \<and> tf_Milliseconds f < 1000"

lemma sdiv_nonneg: "0 \<le> x \<Longrightarrow> 0 < n \<Longrightarrow> x sdiv n = x div (n :: int) \<and> x smod n = x mod n"
  by (cases "x = 0") (simp_all add: signed_divide_int_def signed_modulo_int_def)

text \<open>The time of day of a number of seconds within a day.\<close>

lemma time_of_day:
  fixes x :: int
  assumes "0 \<le> x" "x < 86400"
  defines "h \<equiv> x div 3600" and "m \<equiv> x mod 3600 div 60" and "s \<equiv> x mod 3600 mod 60"
  shows "0 \<le> h" "h < 24" "0 \<le> m" "m < 60" "0 \<le> s" "s < 60" "h * 3600 + m * 60 + s = x"
proof -
  show "0 \<le> h" "0 \<le> m" "0 \<le> s" "s < 60"
    using assms(1) by (simp_all add: h_def m_def s_def pos_imp_zdiv_nonneg_iff)
  have m: "x = h * 3600 + x mod 3600" "x mod 3600 = m * 60 + s" by (simp_all add: h_def m_def s_def)
  have "x mod 3600 < 3600" "0 \<le> x mod 3600" by simp_all
  then show "h < 24" "m < 60" using m \<open>0 \<le> s\<close> assms(2) by linarith+
  show "h * 3600 + m * 60 + s = x" using m by simp
qed

lemma cshort_range: "0 \<le> x \<Longrightarrow> x < n \<Longrightarrow> n \<le> 32768 \<Longrightarrow> cshort x = x"
  by (simp add: cshort_self)

lemma RtlTimeToTimeFields_date:
  assumes "0 \<le> t" "t < 2 ^ 63"
  shows "\<exists>f. RtlTimeToTimeFields t = Inr f \<and> date_ok f \<and> date_ticks f = t - t mod 10000 \<and>
    tf_Weekday f = (1 + date_days f) mod 7"
proof -
  define S where "S = t div 10000000"
  define D where "D = S div 86400"
  have S: "0 \<le> S" "t = S * 10000000 + t mod 10000000" using assms by (simp_all add: S_def)
  have D: "0 \<le> D" "S = D * 86400 + S mod 86400" using S(1) by (simp_all add: D_def)
  obtain k r where y: "year_loop D 1601 = (1601 + int k, r)" "D = ydays 1601 k + r" "0 \<le> r"
    "r < year_len (1601 + int k)" using year_loop_days [OF D(1), of 1601] by blast
  obtain j q where m: "month_loop (month_lens (1601 + int k)) 0 r = Inr (j, q)" "j < 12"
    "r = mdays (month_lens (1601 + int k)) 0 j + q" "0 \<le> q" "q < month_lens (1601 + int k) ! j"
    using month_loop_days [of 0 "month_lens (1601 + int k)" r] y(3,4) by (auto simp: month_lens_sum)
  have "365 * int k \<le> D" using ydays_ge [of k 1601] y(2,3) by linarith
  moreover have "D * 864000000000 \<le> t"
  proof -
    have "D * 86400 \<le> S" using D(2) by (metis add.commute le_add_same_cancel2 pos_mod_sign zero_less_numeral)
    moreover have "S * 10000000 \<le> t" using S(2) by (metis le_add_same_cancel1 pos_mod_sign zero_less_numeral)
    ultimately show ?thesis by linarith
  qed
  ultimately have k: "int k < 30000" using assms(2) by simp
  have q: "q < 31" using m(5) MonthLengths_range [OF m(2), of "1601 + int k"] by simp
  define f where "f = \<lparr>tf_Year = 1601 + int k, tf_Month = int j + 1, tf_Day = q + 1,
    tf_Hour = S mod 86400 div 3600, tf_Minute = S mod 86400 mod 3600 div 60, tf_Second = S mod 86400 mod 3600 mod 60,
    tf_Milliseconds = t mod 10000000 div 10000, tf_Weekday = (1 + D) mod 7\<rparr>"
  have x: "0 \<le> S mod 86400" "S mod 86400 < 86400" by simp_all
  note tod = time_of_day [OF x]
  have ms: "0 \<le> t mod 10000000 div 10000" "t mod 10000000 div 10000 < 1000"
  proof -
    have "t mod 10000000 = t mod 10000000 div 10000 * 10000 + t mod 10000000 mod 10000" by simp
    moreover have "t mod 10000000 < 10000000" "0 \<le> t mod 10000000 mod 10000" by simp_all
    ultimately show "t mod 10000000 div 10000 < 1000" by linarith
  qed (simp add: pos_imp_zdiv_nonneg_iff)
  have wd: "0 \<le> (1 + D) mod 7" "(1 + D) mod 7 < 7" by simp_all
  have cs: "cshort (S mod 86400 div 3600) = S mod 86400 div 3600"
    "cshort (S mod 86400 mod 3600 div 60) = S mod 86400 mod 3600 div 60"
    "cshort (S mod 86400 mod 3600 mod 60) = S mod 86400 mod 3600 mod 60"
    "cshort (t mod 10000000 div 10000) = t mod 10000000 div 10000"
    "cshort ((1 + D) mod 7) = (1 + D) mod 7" "cshort (1601 + int k) = 1601 + int k"
    "cshort (int j + 1) = int j + 1" "cshort (q + 1) = q + 1"
    by (rule cshort_range [OF tod(1) tod(2)], simp, rule cshort_range [OF tod(3) tod(4)], simp,
        rule cshort_range [OF tod(5) tod(6)], simp, rule cshort_range [OF ms], simp,
        rule cshort_range [OF wd], simp, rule cshort_range [of _ 31601], use k in simp_all,
        rule cshort_range [of _ 13], use m(2) in simp_all, rule cshort_range [of _ 32], use m(4) q in simp_all)
  have run: "RtlTimeToTimeFields t = Inr f"
  proof -
    have e: "t smod 10000000 = t mod 10000000" "(t mod 10000000) sdiv 10000 = t mod 10000000 div 10000"
      "t sdiv 10000000 = S" "S sdiv 86400 = D" "S smod 86400 = S mod 86400"
      "(S mod 86400) sdiv 3600 = S mod 86400 div 3600" "(S mod 86400) smod 3600 = S mod 86400 mod 3600"
      "(S mod 86400 mod 3600) sdiv 60 = S mod 86400 mod 3600 div 60"
      "(S mod 86400 mod 3600) smod 60 = S mod 86400 mod 3600 mod 60"
      "(1 + D) smod 7 = (1 + D) mod 7"
      unfolding S_def D_def using assms(1) S(1) D(1) x(1) [unfolded S_def]
      by (simp_all only: S_def sdiv_nonneg pos_mod_sign zero_less_numeral add_nonneg_nonneg zero_le_one)
    show ?thesis
      unfolding RtlTimeToTimeFields_def Let_def e cs y(1) prod.case m(1) bind_res_simps f_def ..
  qed
  moreover have days: "date_days f = D" using y(2) m(3) by (simp add: date_days_def f_def)
  moreover have "date_ok f"
  proof -
    have "1601 \<le> 1601 + int k" "1 \<le> int j + 1" "int j + 1 \<le> 12" "1 \<le> q + 1"
      "q + 1 \<le> month_lens (1601 + int k) ! nat (int j + 1 - 1)" using m(2,4,5) by simp_all
    then show ?thesis unfolding date_ok_def f_def time_fields.select_convs
      by (intro conjI tod(1-6) ms)
  qed
  moreover have "date_ticks f = t - t mod 10000"
  proof -
    have "date_ticks f = (D * 86400 + S mod 86400) * 10000000 + t mod 10000000 div 10000 * 10000"
      using days tod(7) by (simp add: date_ticks_def f_def)
    also have "\<dots> = S * 10000000 + (t mod 10000000 - t mod 10000000 mod 10000)"
      using D(2) by (simp add: minus_mod_eq_div_mult)
    also have "t mod 10000000 mod 10000 = t mod 10000" by (rule mod_mod_cancel) simp
    finally show ?thesis using S(2) by linarith
  qed
  moreover have "tf_Weekday f = (1 + date_days f) mod 7" unfolding days by (simp only: f_def time_fields.select_convs)
  ultimately show ?thesis by (intro exI [of _ f] conjI)
qed

lemma normalize_id: "f < m \<Longrightarrow> normalize_loop f c m = (f, c)"
  by (subst normalize_loop.simps) simp

lemma RtlTimeFieldsToTime_date:
  assumes "date_ok f" "date_ticks f < 2 ^ 63"
  shows "RtlTimeFieldsToTime f = Inr (True, date_ticks f)"
proof -
  note ok = assms(1) [unfolded date_ok_def]
  define k j where "k = nat (tf_Year f - 1601)" and "j = nat (tf_Month f - 1)"
  have kj: "tf_Year f = 1601 + int k" "tf_Month f = int j + 1" "j < 12" using ok by (auto simp: k_def j_def)
  define A B where "A = ydays 1601 k" and "B = mdays (month_lens (tf_Year f)) 0 j"
  have AB: "0 \<le> A" "0 \<le> B" using ydays_ge [of k 1601] mdays_nonneg [of j] kj(3) by (simp_all add: A_def B_def)
  have dd: "date_days f = A + B + (tf_Day f - 1)" by (simp add: date_days_def A_def B_def k_def j_def)
  define s where "s = tf_Hour f * 3600 + tf_Minute f * 60 + tf_Second f"
  have s: "0 \<le> s" using ok by (simp add: s_def)
  define D where "D = date_days f"
  have D: "0 \<le> D" "A + B \<le> D" using dd AB ok by (simp_all add: D_def)
  have t: "date_ticks f = (D * 86400 + s) * 10000000 + tf_Milliseconds f * 10000"
    by (simp add: date_ticks_def D_def s_def)
  have b: "(D * 86400 + s) * 10000000 < 2 ^ 63" using assms(2) t ok by linarith
  then have b2: "D * 86400 + s < 2 ^ 63" "D * 86400 < 2 ^ 63" "D < 2 ^ 63" "A + B < 2 ^ 63" "A < 2 ^ 63"
    using D s AB by simp_all
  have m: "normalize_months (tf_Month f) (tf_Year f) = (tf_Month f, tf_Year f)"
    using ok by (subst normalize_months.simps) simp
  have d: "normalize_days (tf_Year f) (tf_Month f) (tf_Day f) = Inr (tf_Month f, tf_Day f)"
    using ok by (subst normalize_days.simps) (simp add: not_less)
  have y: "years_sum 1601 (tf_Year f) 0 = (tf_Year f, A)"
    using years_sum_days [of 0 1601 k] b2 kj by (simp add: A_def)
  have ms: "months_sum (month_lens (tf_Year f)) 1 (tf_Month f) A = Inr (A + B)"
    using months_sum_days [of 0 j A "tf_Year f"] kj b2 AB by (simp add: B_def)
  have cl: "clonglong (A + B + (tf_Day f - 1)) = D" "clonglong (D * 86400) = D * 86400"
    "clonglong (D * 86400 + s) = D * 86400 + s"
    "clonglong ((D * 86400 + s) * 10000000) = (D * 86400 + s) * 10000000"
    "clonglong ((D * 86400 + s) * 10000000 + tf_Milliseconds f * 10000) = date_ticks f"
    using b b2 D s dd t assms(2) ok by (simp_all add: clonglong_self D_def)
  show ?thesis
    using ok m d y ms cl by (simp add: RtlTimeFieldsToTime_def normalize_id s_def [symmetric])
qed

section \<open>Properties\<close>

text \<open>C20. For every nonnegative time, \<open>RtlTimeToTimeFields\<close> returns a valid calendar date and time of day with
  the right day of the week, and \<open>RtlTimeFieldsToTime\<close> takes it back to the same time, cut to the
  millisecond.\<close>

theorem RtlTimeToTimeFields_roundtrip:
  assumes "0 \<le> t" "t < 2 ^ 63"
  shows "\<exists>f. RtlTimeToTimeFields t = Inr f \<and> date_ok f \<and> tf_Weekday f = (1 + date_days f) mod 7 \<and>
    RtlTimeFieldsToTime f = Inr (True, t - t mod 10000)"
proof -
  obtain f where f: "RtlTimeToTimeFields t = Inr f" "date_ok f" "date_ticks f = t - t mod 10000"
    "tf_Weekday f = (1 + date_days f) mod 7" using RtlTimeToTimeFields_date [OF assms] by blast
  have "0 \<le> t mod 10000" by simp
  then have "date_ticks f < 2 ^ 63" using assms(2) f(3) by linarith
  from RtlTimeFieldsToTime_date [OF f(2) this] show ?thesis using f by auto
qed

theorem RtlTimeToTimeFields_roundtrip_witness:
  "\<exists>f. RtlTimeToTimeFields 126227808001234567 = Inr f \<and> date_ok f \<and>
    RtlTimeFieldsToTime f = Inr (True, 126227808001230000)"
  using RtlTimeToTimeFields_roundtrip [of 126227808001234567] by auto

text \<open>\<open>RtlTimeFieldsToTime\<close> maps every valid date and time of day below the 64-bit limit to the ticks from
  the start of 1601: whole years and months before it, with leap years by the Gregorian rule.\<close>

theorem RtlTimeFieldsToTime_calendar:
  assumes "date_ok f" "date_ticks f < 2 ^ 63"
  shows "RtlTimeFieldsToTime f = Inr (True, date_ticks f)"
  by (rule RtlTimeFieldsToTime_date [OF assms])

definition date_example :: "int \<Rightarrow> int \<Rightarrow> int \<Rightarrow> time_fields" where
  "date_example y m d = \<lparr>tf_Year = y, tf_Month = m, tf_Day = d, tf_Hour = 0, tf_Minute = 0, tf_Second = 0,
     tf_Milliseconds = 0, tf_Weekday = 0\<rparr>"

theorem RtlTimeFieldsToTime_calendar_witness:
  "RtlTimeFieldsToTime (date_example 1604 2 29) = Inr (True, (3 * 365 + 31 + 28) * 864000000000)"
proof -
  have "date_ok (date_example 1604 2 29)" "date_ticks (date_example 1604 2 29) = (3 * 365 + 31 + 28) * 864000000000"
    by code_simp+
  then show ?thesis using RtlTimeFieldsToTime_calendar [of "date_example 1604 2 29"] by simp
qed

lemma ydays_le: "ydays y k \<le> 366 * int k"
proof (induction k)
  case (Suc k)
  then show ?case using YearLengths_pos [of "y + int k"] by (simp add: ydays_def)
qed simp

text \<open>A day past the end of its month is not carried over by the length of the month but by 60: for every
  year from 1601, day 32 of January is taken for January 3, and the call still reports success.\<close>

theorem RtlTimeFieldsToTime_day_overflow:
  assumes "1601 \<le> y" "y \<le> 30000"
  shows "RtlTimeFieldsToTime (date_example y 1 32) = Inr (True, date_ticks (date_example y 1 3))"
proof -
  define k where "k = nat (y - 1601)"
  have k: "y = 1601 + int k" using assms(1) by (simp add: k_def)
  define A where "A = ydays 1601 k"
  have "A \<le> 366 * int k" using ydays_le by (simp add: A_def)
  moreover have "0 \<le> A" using ydays_ge [of k 1601] by (simp add: A_def)
  ultimately have A: "0 \<le> A" "A \<le> 10395000" using k assms(2) by linarith+
  have l: "month_lens y ! 0 = 31" "month_lens y ! 1 \<ge> 28"
    using IsLeapYear_cases [of y] by (auto simp: MonthLengths_def)
  have d: "normalize_days y 1 32 = Inr (2, - 28)"
    using l by (subst normalize_days.simps, simp add: NormalizeTimeFields_def cshort_self)
      (subst normalize_days.simps, simp)
  have ys: "years_sum 1601 y 0 = (y, A)"
    using years_sum_days [of 0 1601 k] A k by (simp add: A_def)
  have ms: "months_sum (month_lens y) 1 2 A = Inr (A + 31)"
    using months_sum_days [of 0 1 A y] A l by (simp add: mdays_step)
  have mo: "normalize_months 2 y = (2, y)" by (subst normalize_months.simps) simp
  have "date_ticks (date_example y 1 3) = (A + 2) * 86400 * 10000000"
    using k by (simp add: date_ticks_def date_days_def date_example_def A_def)
  then show ?thesis
    using d ys ms mo A by (simp add: RtlTimeFieldsToTime_def date_example_def normalize_id clonglong_self)
qed

theorem RtlTimeFieldsToTime_day_overflow_witness:
  "RtlTimeFieldsToTime (date_example 2001 1 32) = Inr (True, date_ticks (date_example 2001 1 3))"
  using RtlTimeFieldsToTime_day_overflow [of 2001] by simp

lemma seconds_roundtrip:
  fixes w :: ulonglong
  assumes "unat w < 2 ^ 35"
  shows "RtlLargeIntegerDivide (RtlExtendedIntegerMultiply w 10000000) 10000000 = Inr (w, 0)"
proof -
  have "unat w * 10000000 < 2 ^ LENGTH(64)" using assms by simp
  then have "unat (w * 10000000) = unat w * 10000000" by (simp add: unat_word_ariths)
  then have "unat (w * 10000000 div 10000000) = unat w" by (simp add: unat_div)
  then have "w * 10000000 div 10000000 = w" by (rule unsigned_word_eqI)
  then show ?thesis by (simp add: RtlLargeIntegerDivide_def RtlExtendedIntegerMultiply_def Let_def)
qed

lemma seconds_offset:
  fixes s :: ulong and c :: ulonglong
  assumes "unat c < 2 ^ 34"
  shows "unat (ucast s + c) < 2 ^ 35" "ucast s + c - c = (ucast s :: ulonglong)"
    "\<not> (ucast s :: ulonglong) > 0xffffffff" "ucast (ucast s :: ulonglong) = s"
proof -
  have u: "unat (ucast s :: ulonglong) = unat s" using ulong_bound [of s] by (simp add: unsigned_ucast_eq take_bit_nat_def)
  then have "unat (ucast s :: ulonglong) + unat c < 2 ^ LENGTH(64)" using assms ulong_bound [of s] by simp
  then have "unat (ucast s + c) = unat s + unat c" using u by (simp only: unat_add_small)
  then show "unat (ucast s + c) < 2 ^ 35" using assms ulong_bound [of s] by simp
  show "\<not> (ucast s :: ulonglong) > 0xffffffff" using u ulong_bound [of s] by (simp add: word_less_nat_alt)
  have "unat (ucast x :: ulong) = unat x mod 2 ^ 32" for x :: ulonglong
    by (simp add: unsigned_ucast_eq take_bit_nat_def)
  from this [of "ucast s"] have "unat (ucast (ucast s :: ulonglong) :: ulong) = unat s"
    unfolding u using ulong_bound [of s] by simp
  then show "ucast (ucast s :: ulonglong) = s" by (rule unsigned_word_eqI)
qed simp

text \<open>Converting seconds since 1970 or since 1980 to a time and back returns the same seconds for every
  32-bit value.\<close>

theorem RtlSeconds_roundtrip:
  "RtlTimeToSecondsSince1970 (RtlSecondsSince1970ToTime s) = Inr (Some s) \<and>
   RtlTimeToSecondsSince1980 (RtlSecondsSince1980ToTime s) = Inr (Some s)"
proof -
  have c: "unat SECS_1601_TO_1970 < 2 ^ 34" "unat SECS_1601_to_1980 < 2 ^ 34"
    by (simp_all add: SECS_1601_TO_1970_def SECS_1601_to_1980_def)
  show ?thesis
    using seconds_offset [OF c(1), of s] seconds_offset [OF c(2), of s]
    by (simp add: RtlTimeToSecondsSince1970_def RtlTimeToSecondsSince1980_def RtlSecondsSince1970ToTime_def
        RtlSecondsSince1980ToTime_def seconds_roundtrip Let_def)
qed

text \<open>Converting local time to system time and back is the identity on 64-bit times, whatever the time zone.\<close>

theorem RtlLocalTime_roundtrip:
  assumes "- (2 ^ 63) \<le> t" "t < 2 ^ 63"
  shows "RtlSystemTimeToLocalTime env (snd (RtlLocalTimeToSystemTime env t)) = t"
proof -
  let ?b = "bias_ticks env"
  have "take_bit 64 (signed_take_bit 63 (t + ?b) - ?b) = take_bit 64 (take_bit 64 (signed_take_bit 63 (t + ?b)) - take_bit 64 ?b)"
    by (rule take_bit_diff [symmetric])
  also have "take_bit 64 (signed_take_bit 63 (t + ?b)) = take_bit 64 (t + ?b)"
    by (simp add: take_bit_signed_take_bit)
  also have "take_bit 64 (take_bit 64 (t + ?b) - take_bit 64 ?b) = take_bit 64 t"
    by (simp add: take_bit_diff)
  finally have "signed_take_bit 63 (signed_take_bit 63 (t + ?b) - ?b) = signed_take_bit 63 t"
    by (simp add: signed_take_bit_eq_iff_take_bit_eq)
  then show ?thesis using assms
    by (simp add: RtlSystemTimeToLocalTime_def RtlLocalTimeToSystemTime_def clonglong_def signed_take_bit_int_eq_self)
qed

definition utc_env :: time_env where
  "utc_env = \<lparr>env_time = (0, 0), env_isdst = (\<lambda>_. 0), env_gm_mktime = (\<lambda>utc _. utc - 3600), env_zone = (\<lambda>_. Some ''CET'')\<rparr>"

theorem RtlLocalTime_roundtrip_witness:
  "RtlSystemTimeToLocalTime utc_env (snd (RtlLocalTimeToSystemTime utc_env 5)) = 5"
  using RtlLocalTime_roundtrip [of 5 utc_env] by simp

text \<open>Every zone name of the table fits the 32 characters of \<open>StandardName\<close> with its terminator, and no two
  entries have the same abbreviation, bias and daylight flag, so the first match is the only one.\<close>

theorem TZ_INFO_wellformed:
  "list_all (\<lambda>e. length (psTZWindows e) < 32) TZ_INFO \<and>
   distinct (map (\<lambda>e. (psTZFromUnix e, tz_bias e, tz_dst e)) TZ_INFO)"
  by code_simp

end
