(* ===== verification/Utf8.thy ===== *)
theory Utf8
  imports Buffer
begin

text \<open>
  The UTF-8 conversions of \<open>lib/unicode/utf8.c\<close>. A source is the list of its characters, a destination a buffer
  that is written by index, where a write behind its end is a fault; \<open>dstlen\<close> is the length the caller
  gives. Results are those of the C functions, -1 on overflow and -2 on an invalid character.
\<close>

section \<open>The tables\<close>

definition utf8_length :: "nat list" where
  "utf8_length =
    [0,0,0,0,0,0,0,0,0,0,0,0,0,0,0,0,
     0,0,0,0,0,0,0,0,0,0,0,0,0,0,0,0,
     0,0,0,0,0,0,0,0,0,0,0,0,0,0,0,0,
     0,0,0,0,0,0,0,0,0,0,0,0,0,0,0,0,
     1,1,1,1,1,1,1,1,1,1,1,1,1,1,1,1,
     1,1,1,1,1,1,1,1,1,1,1,1,1,1,1,1,
     2,2,2,2,2,2,2,2,2,2,2,2,2,2,2,2,
     3,3,3,3,3,3,3,3,4,4,4,4,5,5,0,0]"

definition utf8_mask :: "uchar list" where
  "utf8_mask = [0x7f, 0x1f, 0x0f, 0x07, 0x03, 0x01]"

definition utf8_minval :: "ulong list" where
  "utf8_minval = [0x0, 0x80, 0x800, 0x10000, 0x200000, 0x4000000]"

section \<open>From 16-bit characters\<close>

fun get_length_wcs_utf8 :: "ushort list \<Rightarrow> int" where
  "get_length_wcs_utf8 [] = 0"
| "get_length_wcs_utf8 (ch # src) =
     (if 0x80 \<le> ch then (if 0x800 \<le> ch then 2 else 1) else 0) + 1 + get_length_wcs_utf8 src"

fun utf8_wcs_loop :: "int \<Rightarrow> ushort list \<Rightarrow> int \<Rightarrow> nat \<Rightarrow> uchar list \<Rightarrow> (int \<times> uchar list) res" where
  "utf8_wcs_loop ret [] dstlen p dst = Inr (ret, dst)"
| "utf8_wcs_loop ret (ch # src) dstlen p dst =
     (if ch < 0x80 then
        if dstlen = 0 then Inr (-1, dst)
        else bind_res (put dst p (ucast ch)) (\<lambda>dst. utf8_wcs_loop ret src (dstlen - 1) (p + 1) dst)
      else if ch < 0x800 then
        if dstlen - 2 < 0 then Inr (-1, dst)
        else
          bind_res (put dst (p + 1) (0x80 OR ucast (ch AND 0x3f))) (\<lambda>dst.
          bind_res (put dst p (0xc0 OR ucast (drop_bit 6 ch))) (\<lambda>dst.
            utf8_wcs_loop ret src (dstlen - 2) (p + 2) dst))
      else
        if dstlen - 3 < 0 then Inr (-1, dst)
        else
          bind_res (put dst (p + 2) (0x80 OR ucast (ch AND 0x3f))) (\<lambda>dst.
          bind_res (put dst (p + 1) (0x80 OR ucast (drop_bit 6 ch AND 0x3f))) (\<lambda>dst.
          bind_res (put dst p (0xe0 OR ucast (drop_bit 12 ch))) (\<lambda>dst.
            utf8_wcs_loop ret src (dstlen - 3) (p + 3) dst))))"

definition utf8_wcstombs :: "ushort list \<Rightarrow> uchar list \<Rightarrow> int \<Rightarrow> (int \<times> uchar list) res" where
  "utf8_wcstombs src dst dstlen =
     (if dstlen = 0 then Inr (get_length_wcs_utf8 src, dst)
      else utf8_wcs_loop (int (length src)) src dstlen 0 dst)"

section \<open>To 16-bit characters\<close>

text \<open>The cases of the switch fall through: \<open>n\<close> bytes are to follow. \<open>None\<close> is the end of the source in
  the middle of a character.\<close>

fun skip_following :: "nat \<Rightarrow> uchar list \<Rightarrow> uchar list option" where
  "skip_following 0 src = Some src"
| "skip_following (Suc n) [] = None"
| "skip_following (Suc n) (b # src) = (if 0x40 \<le> b XOR 0x80 then Some (b # src) else skip_following n src)"

lemma length_skip_following: "skip_following n src = Some rest \<Longrightarrow> length rest \<le> length src"
  by (induction n src rule: skip_following.induct) (auto split: if_splits)

function get_length_mbs_utf8 :: "int \<Rightarrow> uchar list \<Rightarrow> int" where
  "get_length_mbs_utf8 ret [] = ret"
| "get_length_mbs_utf8 ret (ch # src) =
     (if ch < 0xc0 then get_length_mbs_utf8 (ret + 1) src
      else
        (case skip_following (utf8_length ! unat (ch - 0x80)) src of
           None \<Rightarrow> ret
         | Some src \<Rightarrow> get_length_mbs_utf8 (ret + 1) src))"
  by pat_completeness auto

termination
  by (relation "measure (length \<circ> snd)") (auto dest: length_skip_following)

datatype following = Partial | Bad "uchar list" | Value ulong "uchar list"

fun get_following :: "nat \<Rightarrow> ulong \<Rightarrow> uchar list \<Rightarrow> following" where
  "get_following 0 r src = Value r src"
| "get_following (Suc n) r [] = Partial"
| "get_following (Suc n) r (b # src) =
     (let ch = b XOR 0x80 in
      if 0x40 \<le> ch then Bad (b # src) else get_following n (push_bit 6 r OR ucast ch) src)"

text \<open>One character behind its first byte \<open>ch\<close>, which is not below \<open>0x80\<close>.\<close>

definition utf8_char :: "uchar \<Rightarrow> uchar list \<Rightarrow> following" where
  "utf8_char ch src =
     (let len = utf8_length ! unat (ch - 0x80);
          r = ucast (ch AND utf8_mask ! len) :: ulong in
      if len = 0 then Bad src
      else
        (case get_following len r src of
           Value r rest \<Rightarrow> if r < utf8_minval ! len then Bad rest else if 0x10000 \<le> r then Bad rest else Value r rest
         | other \<Rightarrow> other))"

fun utf8_mbs_loop :: "bool \<Rightarrow> int \<Rightarrow> nat \<Rightarrow> uchar list \<Rightarrow> nat \<Rightarrow> ushort list \<Rightarrow> (int \<times> ushort list) res" where
  "utf8_mbs_loop strict dstlen 0 src p dst = Inr (if src \<noteq> [] then -1 else dstlen, dst)"
| "utf8_mbs_loop strict dstlen (Suc count) [] p dst = Inr (dstlen - int (Suc count), dst)"
| "utf8_mbs_loop strict dstlen (Suc count) (ch # src) p dst =
     (if ch < 0x80 then
        bind_res (put dst p (ucast ch)) (\<lambda>dst. utf8_mbs_loop strict dstlen count src (p + 1) dst)
      else
        (case utf8_char ch src of
           Partial \<Rightarrow> Inr (dstlen - int (Suc count), dst)
         | Value r rest \<Rightarrow>
             bind_res (put dst p (ucast r)) (\<lambda>dst. utf8_mbs_loop strict dstlen count rest (p + 1) dst)
         | Bad rest \<Rightarrow>
             if strict then Inr (-2, dst)
             else bind_res (put dst p 0x3f) (\<lambda>dst. utf8_mbs_loop strict dstlen count rest (p + 1) dst)))"

text \<open>\<open>strict\<close> is the flag \<open>MB_ERR_INVALID_CHARS\<close>.\<close>

definition utf8_mbstowcs :: "bool \<Rightarrow> uchar list \<Rightarrow> ushort list \<Rightarrow> nat \<Rightarrow> (int \<times> ushort list) res" where
  "utf8_mbstowcs strict src dst dstlen =
     (if dstlen = 0 then Inr (get_length_mbs_utf8 0 src, dst)
      else utf8_mbs_loop strict (int dstlen) dstlen src 0 dst)"

end
