(* ===== verification/Utf8Props.thy ===== *)
theory Utf8Props
  imports Utf8
begin

text \<open>
  UTF-8 as arithmetic (\<open>utf8_enc\<close>), and the conversions of \<open>Utf8\<close> compared with it.
\<close>

definition utf8_enc :: "ushort \<Rightarrow> uchar list" where
  "utf8_enc ch =
     (let n = unat ch in
      map of_nat
        (if n < 0x80 then [n]
         else if n < 0x800 then [0xC0 + n div 64, 0x80 + n mod 64]
         else [0xE0 + n div 4096, 0x80 + n div 64 mod 64, 0x80 + n mod 64]))"

section \<open>Bytes\<close>

lemma byte_80: "x < 64 \<Longrightarrow> (0x80 OR of_nat x :: uchar) = of_nat (0x80 + x)"
proof -
  have "\<forall>x \<in> set [0..<64]. (0x80 OR of_nat x :: uchar) = of_nat (0x80 + x)"
    by code_simp
  then show "x < 64 \<Longrightarrow> (0x80 OR of_nat x :: uchar) = of_nat (0x80 + x)" by simp
qed

lemma byte_xor_80: "x < 64 \<Longrightarrow> (of_nat (0x80 + x) XOR 0x80 :: uchar) = of_nat x"
proof -
  have "\<forall>x \<in> set [0..<64]. (of_nat (0x80 + x) XOR 0x80 :: uchar) = of_nat x"
    by code_simp
  then show "x < 64 \<Longrightarrow> (of_nat (0x80 + x) XOR 0x80 :: uchar) = of_nat x" by simp
qed

lemma byte_c0: "x < 32 \<Longrightarrow> (0xc0 OR of_nat x :: uchar) = of_nat (0xC0 + x) \<and> (of_nat (0xC0 + x) AND 0x1f :: uchar) = of_nat x"
proof -
  have "\<forall>x \<in> set [0..<32]. (0xc0 OR of_nat x :: uchar) = of_nat (0xC0 + x) \<and> (of_nat (0xC0 + x) AND 0x1f :: uchar) = of_nat x"
    by code_simp
  then show "x < 32 \<Longrightarrow> ?thesis" by simp
qed

lemma byte_e0: "x < 16 \<Longrightarrow> (0xe0 OR of_nat x :: uchar) = of_nat (0xE0 + x) \<and> (of_nat (0xE0 + x) AND 0x0f :: uchar) = of_nat x"
proof -
  have "\<forall>x \<in> set [0..<16]. (0xe0 OR of_nat x :: uchar) = of_nat (0xE0 + x) \<and> (of_nat (0xE0 + x) AND 0x0f :: uchar) = of_nat x"
    by code_simp
  then show "x < 16 \<Longrightarrow> ?thesis" by simp
qed

lemma utf8_length_nth:
  "n < 128 \<Longrightarrow> utf8_length ! n =
     (if n < 64 then 0 else if n < 96 then 1 else if n < 112 then 2 else if n < 120 then 3 else if n < 124 then 4
      else if n < 126 then 5 else 0)"
proof -
  have "\<forall>n \<in> set [0..<128]. utf8_length ! n =
     (if n < 64 then 0 else if n < 96 then 1 else if n < 112 then 2 else if n < 120 then 3 else if n < 124 then 4
      else if n < 126 then 5 else 0)"
    by code_simp
  then show "n < 128 \<Longrightarrow> ?thesis" by simp
qed

lemma ucast_ushort_nat: "(ucast (w :: ushort) :: 'a :: len word) = of_nat (unat w)"
  by (simp add: of_nat_unat)

lemma unat_and_3f: "unat (w AND 0x3f :: ushort) = unat w mod 64"
proof -
  have "w AND 0x3f = take_bit 6 w" by (simp add: take_bit_eq_mask mask_eq_exp_minus_1)
  then have "unat (w AND 0x3f) = take_bit 6 (unat w)" by (simp only: unsigned_take_bit_eq)
  then show ?thesis by (simp add: take_bit_eq_mod)
qed

lemma enc_bytes:
  fixes ch :: ushort
  shows "0x80 OR ucast (ch AND 0x3f) = (of_nat (0x80 + unat ch mod 64) :: uchar)"
    and "0x80 OR ucast (drop_bit 6 ch AND 0x3f) = (of_nat (0x80 + unat ch div 64 mod 64) :: uchar)"
    and "ch < 0x800 \<Longrightarrow> 0xc0 OR ucast (drop_bit 6 ch) = (of_nat (0xC0 + unat ch div 64) :: uchar)"
    and "0xe0 OR ucast (drop_bit 12 ch) = (of_nat (0xE0 + unat ch div 4096) :: uchar)"
proof -
  show "0x80 OR ucast (ch AND 0x3f) = (of_nat (0x80 + unat ch mod 64) :: uchar)"
    by (simp only: ucast_ushort_nat unat_and_3f byte_80 mod_less_divisor)
  show "0x80 OR ucast (drop_bit 6 ch AND 0x3f) = (of_nat (0x80 + unat ch div 64 mod 64) :: uchar)"
    unfolding ucast_ushort_nat unat_and_3f unat_drop_bit by (subst byte_80) simp_all
  show "0xc0 OR ucast (drop_bit 6 ch) = (of_nat (0xC0 + unat ch div 64) :: uchar)" if "ch < 0x800"
  proof -
    have "unat ch div 2 ^ 6 < 32" using that by (simp add: word_less_nat_alt less_mult_imp_div_less)
    from byte_c0 [OF this] show ?thesis unfolding ucast_ushort_nat unat_drop_bit by simp
  qed
  have "unat ch < 2 ^ LENGTH(16)" by (rule unsigned_less)
  then have "unat ch div 2 ^ 12 < 16" by (simp add: less_mult_imp_div_less)
  from byte_e0 [OF this] show "0xe0 OR ucast (drop_bit 12 ch) = (of_nat (0xE0 + unat ch div 4096) :: uchar)"
    unfolding ucast_ushort_nat unat_drop_bit by simp
qed

section \<open>From 16-bit characters\<close>

definition utf8_text :: "ushort list \<Rightarrow> uchar list" where
  "utf8_text s = concat (map utf8_enc s)"

lemma utf8_text_simps [simp]:
  "utf8_text [] = []" "utf8_text (ch # s) = utf8_enc ch @ utf8_text s"
  by (simp_all add: utf8_text_def)

text \<open>The whole encodings that fit into \<open>n\<close> bytes.\<close>

abbreviation utf8_fill :: "nat \<Rightarrow> ushort list \<Rightarrow> uchar list" where
  "utf8_fill n s \<equiv> fits n (map utf8_enc s)"

lemma utf8_fill_all: "length (utf8_text s) \<le> n \<Longrightarrow> utf8_fill n s = utf8_text s"
  unfolding utf8_text_def by (rule fits_all)

lemma utf8_enc_cases:
  obtains "ch < 0x80" "utf8_enc ch = [ucast ch]"
  | "\<not> ch < 0x80" "ch < 0x800" "utf8_enc ch = [0xc0 OR ucast (drop_bit 6 ch), 0x80 OR ucast (ch AND 0x3f)]"
  | "\<not> ch < 0x800" "\<not> ch < 0x80" "utf8_enc ch = [0xe0 OR ucast (drop_bit 12 ch), 0x80 OR ucast (drop_bit 6 ch AND 0x3f),
      0x80 OR ucast (ch AND 0x3f)]"
proof -
  have u: "ch < 0x80 \<longleftrightarrow> unat ch < 0x80" "ch < 0x800 \<longleftrightarrow> unat ch < 0x800" by (simp_all add: word_less_nat_alt)
  consider "ch < 0x80" | "\<not> ch < 0x80" "ch < 0x800" | "\<not> ch < 0x80" "\<not> ch < 0x800" by blast
  then show thesis
  proof cases
    case 1
    then have "utf8_enc ch = [ucast ch]" by (simp only: u utf8_enc_def Let_def if_True list.map ucast_ushort_nat)
    with 1 show thesis by (rule that(1))
  next
    case 2
    then have "utf8_enc ch = [0xc0 OR ucast (drop_bit 6 ch), 0x80 OR ucast (ch AND 0x3f)]"
      by (simp only: u utf8_enc_def Let_def if_True if_False list.map enc_bytes(1) enc_bytes(3) [OF 2(2)])
    with 2 show thesis by (rule that(2))
  next
    case 3
    then have "utf8_enc ch = [0xe0 OR ucast (drop_bit 12 ch), 0x80 OR ucast (drop_bit 6 ch AND 0x3f), 0x80 OR ucast (ch AND 0x3f)]"
      by (simp only: u utf8_enc_def Let_def if_False list.map enc_bytes(1) [of ch] enc_bytes(2) [of ch] enc_bytes(4) [of ch])
    with 3(2,1) show thesis by (rule that(3))
  qed
qed

lemma get_length_wcs_utf8_text: "get_length_wcs_utf8 s = int (length (utf8_text s))"
proof (induction s)
  case (Cons ch s)
  show ?case
  proof (cases ch rule: utf8_enc_cases)
    case 1
    then have "\<not> 0x80 \<le> ch" by (simp only: not_le)
    with 1 Cons show ?thesis by simp
  next
    case 2
    then have "\<not> 0x800 \<le> ch" "0x80 \<le> ch" by (simp_all only: not_le not_less)
    with 2 Cons show ?thesis by simp
  next
    case 3
    then have "0x800 \<le> ch" "0x80 \<le> ch" by (simp_all only: not_less)
    with 3 Cons show ?thesis by simp
  qed
qed simp

lemma utf8_wcs_loop_fills:
  assumes "p + n \<le> length dst"
  shows "utf8_wcs_loop ret src (int n) p dst =
    Inr (if length (utf8_text src) \<le> n then ret else -1, overwrite dst p (utf8_fill n src))"
  using assms
proof (induction src arbitrary: n p dst)
  case (Cons ch src)
  have step: "utf8_wcs_loop ret src (int (n - k)) (p + k) (overwrite dst p xs) =
      Inr (if length (utf8_text src) \<le> n - k then ret else -1, overwrite dst p (xs @ utf8_fill (n - k) src))"
    if "length xs = k" "k \<le> n" for k xs
    using that Cons.prems length_fits [of "n - k" "map utf8_enc src"]
    by (subst Cons.IH) (auto simp: length_overwrite overwrite_append [of p xs, symmetric])
  show ?case
  proof (cases ch rule: utf8_enc_cases)
    case 1
    then show ?thesis
      using step [of "[ucast ch]" 1] Cons.prems by (cases n) (auto simp: put_overwrite)
  next
    case 2
    show ?thesis
    proof (cases "n < 2")
      case True
      with 2 show ?thesis by auto
    next
      case False
      let ?e = "[0xc0 OR ucast (drop_bit 6 ch), 0x80 OR ucast (ch AND 0x3f)] :: uchar list"
      have "utf8_wcs_loop ret (ch # src) (int n) p dst = utf8_wcs_loop ret src (int (n - 2)) (p + 2) (overwrite dst p ?e)"
        using False 2(1,2) Cons.prems put_overwrite_2 [of p dst] by (simp add: of_nat_diff)
      moreover have len: "length (utf8_enc ch) = 2" by (simp add: 2(3))
      then have "utf8_fill n (ch # src) = ?e @ utf8_fill (n - 2) src" using False by (simp add: 2(3) numeral_2_eq_2)
      ultimately show ?thesis
        using step [of ?e 2] False len by (simp only: utf8_text_simps length_append) auto
    qed
  next
    case 3
    show ?thesis
    proof (cases "n < 3")
      case True
      with 3 show ?thesis by auto
    next
      case False
      let ?e = "[0xe0 OR ucast (drop_bit 12 ch), 0x80 OR ucast (drop_bit 6 ch AND 0x3f), 0x80 OR ucast (ch AND 0x3f)] :: uchar list"
      have "utf8_wcs_loop ret (ch # src) (int n) p dst = utf8_wcs_loop ret src (int (n - 3)) (p + 3) (overwrite dst p ?e)"
        using False 3(1,2) Cons.prems put_overwrite_3 [of p dst] by (simp add: of_nat_diff)
      moreover have len: "length (utf8_enc ch) = 3" by (simp add: 3(3))
      then have "utf8_fill n (ch # src) = ?e @ utf8_fill (n - 3) src" using False by (simp add: 3(3) numeral_3_eq_3)
      ultimately show ?thesis
        using step [of ?e 3] False len by (simp only: utf8_text_simps length_append) auto
    qed
  qed
qed simp

section \<open>To 16-bit characters\<close>

lemma ucast_byte: "n < 256 \<Longrightarrow> ucast (of_nat n :: uchar) = (of_nat n :: ulong)"
proof -
  assume "n < 256"
  then have "unat (of_nat n :: uchar) = n" by (simp add: unat_of_nat)
  then show ?thesis by (metis of_nat_unat)
qed

lemma push_or:
  assumes "c < 64" "n * 64 + c < 2 ^ 32"
  shows "push_bit 6 (of_nat n) OR of_nat c = (of_nat (n * 64 + c) :: ulong)"
proof -
  have "take_bit 6 (of_nat c :: ulong) = of_nat c"
    using assms(1) by (simp add: take_bit_of_nat take_bit_nat_eq_self)
  then have "\<not> bit (push_bit 6 (of_nat n :: ulong)) k \<or> \<not> bit (of_nat c :: ulong) k" for k
    by (metis bit_push_bit_iff bit_take_bit_iff not_le)
  then have "push_bit 6 (of_nat n) OR of_nat c = push_bit 6 (of_nat n) + (of_nat c :: ulong)"
    by (rule disjunctive_add [symmetric])
  then show ?thesis by (simp add: push_bit_eq_mult mult.commute)
qed

lemma following_byte: "c < 64 \<Longrightarrow>
  get_following (Suc n) r (of_nat (0x80 + c) # src) = get_following n (push_bit 6 r OR of_nat c) src"
proof -
  assume c: "c < 64"
  then have "\<not> 0x40 \<le> (of_nat c :: uchar)" "ucast (of_nat c :: uchar) = (of_nat c :: ulong)"
    by (simp add: word_le_nat_alt unat_of_nat, intro ucast_byte) simp
  then show ?thesis
    unfolding get_following.simps byte_xor_80 [OF c] Let_def by simp
qed



lemma lead_byte:
  assumes "x < 128" "b = of_nat (0x80 + x)"
  shows "utf8_char b src = (let len = utf8_length ! x; r = ucast (b AND utf8_mask ! len) in
      if len = 0 then Bad src
      else (case get_following len r src of
              Value r rest \<Rightarrow> if r < utf8_minval ! len then Bad rest else if 0x10000 \<le> r then Bad rest else Value r rest
            | other \<Rightarrow> other))"
proof -
  have "b - 0x80 = of_nat x" using assms(2) by simp
  moreover have "unat (of_nat x :: uchar) = x" using assms(1) by (simp add: unat_of_nat)
  ultimately show ?thesis by (simp add: utf8_char_def)
qed

lemma lead_byte_2:
  assumes "x < 32"
  shows "utf8_char (of_nat (0xC0 + x)) src =
    (case get_following 1 (of_nat x) src of
       Value r rest \<Rightarrow> if r < 0x80 \<or> 0x10000 \<le> r then Bad rest else Value r rest | other \<Rightarrow> other)"
proof -
  have "utf8_length ! (0x40 + x) = 1" using assms by (simp add: utf8_length_nth)
  moreover have "ucast (of_nat (0xC0 + x) AND 0x1f :: uchar) = (of_nat x :: ulong)"
    using byte_c0 [OF assms] assms by (simp only: ucast_byte)
  ultimately show ?thesis
    using assms by (subst lead_byte [of "0x40 + x"]) (auto simp: utf8_mask_def utf8_minval_def Let_def split: following.splits)
qed

lemma lead_byte_3:
  assumes "x < 16"
  shows "utf8_char (of_nat (0xE0 + x)) src =
    (case get_following 2 (of_nat x) src of
       Value r rest \<Rightarrow> if r < 0x800 \<or> 0x10000 \<le> r then Bad rest else Value r rest | other \<Rightarrow> other)"
proof -
  have "utf8_length ! (0x60 + x) = 2" using assms by (simp add: utf8_length_nth)
  moreover have "ucast (of_nat (0xE0 + x) AND 0x0f :: uchar) = (of_nat x :: ulong)"
    using byte_e0 [OF assms] assms by (simp only: ucast_byte)
  ultimately show ?thesis
    using assms by (subst lead_byte [of "0x60 + x"]) (auto simp: utf8_mask_def utf8_minval_def Let_def split: following.splits)
qed

text \<open>What the encoder writes is read back.\<close>

lemma ushort_of_nat: "ucast (of_nat n :: ulong) = (of_nat n :: ushort)" if "n < 2 ^ 32"
proof -
  have "unat (of_nat n :: ulong) = n" by (subst unat_of_nat) (use that in simp)
  then show ?thesis by (metis of_nat_unat)
qed

lemma div_4096: "n div 4096 = n div 64 div (64 :: nat)"
  by (simp add: div_mult2_eq [symmetric])

lemma utf8_char_enc:
  assumes "\<not> ch < 0x80"
  obtains b bs where "utf8_enc ch = b # bs" "\<not> b < 0x80"
    "\<And>rest. utf8_char b (bs @ rest) = Value (of_nat (unat ch)) rest"
proof -
  have n: "\<not> unat ch < 0x80" "unat ch < 65536"
    using assms unsigned_less [of ch, where 'a = nat] by (simp_all add: word_less_nat_alt)
  have un: "unat (of_nat (unat ch) :: ulong) = unat ch" by (subst unat_of_nat) (use n in simp)
  show thesis
  proof (cases "unat ch < 0x800")
    case True
    let ?x = "unat ch div 64" and ?c = "unat ch mod 64"
    have x: "?x < 32" using True by (simp add: less_mult_imp_div_less)
    have c: "?c < 64" by simp
    have eq: "?x * 64 + ?c = unat ch" by simp
    have v: "push_bit 6 (of_nat ?x) OR of_nat ?c = (of_nat (unat ch) :: ulong)"
      using push_or [OF c, of ?x] unfolding eq using n(2) by simp
    have range: "\<not> (of_nat (unat ch) :: ulong) < 0x80" "\<not> 0x10000 \<le> (of_nat (unat ch) :: ulong)"
      unfolding word_less_nat_alt word_le_nat_alt un using n by simp_all
    show thesis
    proof (rule that)
      show "utf8_enc ch = of_nat (0xC0 + ?x) # [of_nat (0x80 + ?c)]"
        using n True by (simp add: utf8_enc_def Let_def)
      show "\<not> (of_nat (0xC0 + ?x) :: uchar) < 0x80"
        unfolding word_less_nat_alt by (subst unat_of_nat) (use x in simp)
      show "utf8_char (of_nat (0xC0 + ?x)) ([of_nat (0x80 + ?c)] @ rest) = Value (of_nat (unat ch)) rest" for rest
        unfolding lead_byte_2 [OF x] One_nat_def append_Cons append_Nil following_byte [OF c] v
        using range by simp
    qed
  next
    case False
    let ?x = "unat ch div 4096" and ?d = "unat ch div 64 mod 64" and ?c = "unat ch mod 64"
    have x: "?x < 16" using n(2) by (simp add: less_mult_imp_div_less)
    have c: "?c < 64" and d: "?d < 64" by simp_all
    have eq: "?x * 64 + ?d = unat ch div 64"
      unfolding div_4096 by simp
    have eq': "unat ch div 64 * 64 + ?c = unat ch" by simp
    have v: "push_bit 6 (push_bit 6 (of_nat ?x) OR of_nat ?d) OR of_nat ?c = (of_nat (unat ch) :: ulong)"
    proof -
      have lt: "unat ch div 64 < 2 ^ 32" "unat ch < 2 ^ 32"
        using n(2) le_less_trans [OF div_le_dividend [of "unat ch" 64], of "2 ^ 32"] by simp_all
      have "push_bit 6 (of_nat ?x) OR of_nat ?d = (of_nat (unat ch div 64) :: ulong)"
        using push_or [OF d, of ?x] unfolding eq using lt by blast
      moreover have "push_bit 6 (of_nat (unat ch div 64)) OR of_nat ?c = (of_nat (unat ch) :: ulong)"
        using push_or [OF c, of "unat ch div 64"] unfolding eq' using lt by blast
      ultimately show ?thesis by (simp only:)
    qed
    have range: "\<not> (of_nat (unat ch) :: ulong) < 0x800" "\<not> 0x10000 \<le> (of_nat (unat ch) :: ulong)"
      unfolding word_less_nat_alt word_le_nat_alt un using n False by simp_all
    show thesis
    proof (rule that)
      show "utf8_enc ch = of_nat (0xE0 + ?x) # [of_nat (0x80 + ?d), of_nat (0x80 + ?c)]"
        using n False by (simp add: utf8_enc_def Let_def)
      show "\<not> (of_nat (0xE0 + ?x) :: uchar) < 0x80"
        unfolding word_less_nat_alt by (subst unat_of_nat) (use x in simp)
      show "utf8_char (of_nat (0xE0 + ?x)) ([of_nat (0x80 + ?d), of_nat (0x80 + ?c)] @ rest) = Value (of_nat (unat ch)) rest" for rest
        unfolding lead_byte_3 [OF x] numeral_2_eq_2 append_Cons append_Nil following_byte [OF c] following_byte [OF d] v
        using range by simp
    qed
  qed
qed





section \<open>The whole source\<close>

lemma length_get_following:
  "(case get_following n r src of Partial \<Rightarrow> True | Bad rest \<Rightarrow> length rest \<le> length src | Value r rest \<Rightarrow> length rest \<le> length src)"
  by (induction n r src rule: get_following.induct) (auto simp: Let_def split: following.splits)

lemma length_utf8_char:
  "utf8_char b src = Bad rest \<Longrightarrow> length rest \<le> length src" "utf8_char b src = Value r rest \<Longrightarrow> length rest \<le> length src"
  using length_get_following [where n = "utf8_length ! unat (b - 0x80)" and src = src
      and r = "ucast (b AND utf8_mask ! (utf8_length ! unat (b - 0x80)))"]
  by (auto simp: utf8_char_def Let_def split: following.splits if_splits)

text \<open>The characters of a source, \<open>None\<close> where it is not well-formed, and whether it ends within one.\<close>

function utf8_decode :: "uchar list \<Rightarrow> ushort option list \<times> bool" where
  "utf8_decode [] = ([], False)"
| "utf8_decode (b # src) =
     (if b < 0x80 then apfst (Cons (Some (ucast b))) (utf8_decode src)
      else
        (case utf8_char b src of
           Partial \<Rightarrow> ([], True)
         | Bad rest \<Rightarrow> apfst (Cons None) (utf8_decode rest)
         | Value r rest \<Rightarrow> apfst (Cons (Some (ucast r))) (utf8_decode rest)))"
  by pat_completeness auto

termination
  by (relation "measure length") (auto dest: length_utf8_char simp: less_Suc_eq_le)

lemma utf8_decode_Nil: "utf8_decode src = ([], False) \<longleftrightarrow> src = []"
  by (cases src) (auto split: following.splits simp: apfst_def map_prod_def split: prod.splits)





text \<open>The characters the conversion writes: up to the first bad one if it is \<open>strict\<close>, else \<open>?\<close> for those.\<close>

definition utf8_written :: "bool \<Rightarrow> ushort option list \<Rightarrow> ushort list" where
  "utf8_written strict cs = map (case_option 0x3f id) (if strict then takeWhile (\<lambda>c. c \<noteq> None) cs else cs)"

lemma utf8_written_simps [simp]:
  "utf8_written strict [] = []"
  "utf8_written strict (Some ch # cs) = ch # utf8_written strict cs"
  "utf8_written strict (None # cs) = (if strict then [] else 0x3f # utf8_written strict cs)"
  by (simp_all add: utf8_written_def)

definition utf8_result :: "bool \<Rightarrow> nat \<Rightarrow> ushort option list \<times> bool \<Rightarrow> int" where
  "utf8_result strict count d =
     (if strict \<and> None \<in> set (take count (fst d)) then -2
      else if length (fst d) < count \<or> length (fst d) = count \<and> \<not> snd d then int (length (fst d))
      else -1)"

lemma utf8_result_Cons:
  "utf8_result strict (Suc count) (apfst (Cons (Some ch)) d) =
     (let r = utf8_result strict count d in if r < 0 then r else r + 1)"
  "utf8_result False (Suc count) (apfst (Cons None) d) =
     (let r = utf8_result False count d in if r < 0 then r else r + 1)"
  by (cases d; simp add: utf8_result_def Let_def)+

lemma utf8_mbs_loop_decode:
  assumes "p + count \<le> length dst"
  shows "utf8_mbs_loop strict (int (p + count)) count src p dst =
    (let d = utf8_decode src; r = utf8_result strict count d in
     Inr (if r < 0 then r else int p + r, overwrite dst p (take count (utf8_written strict (fst d)))))"
  using assms
proof (induction count arbitrary: src p dst)
  case 0
  have "utf8_result strict 0 (utf8_decode src) = (if src = [] then 0 else -1)"
    using utf8_decode_Nil [of src] by (cases "utf8_decode src") (auto simp: utf8_result_def)
  then show ?case by (auto simp: Let_def)
next
  case (Suc count)
  have step: "bind_res (put dst p v) (\<lambda>dst. utf8_mbs_loop strict (int (p + Suc count)) count rest (p + 1) dst) =
    (let d = utf8_decode rest; r = utf8_result strict count d in
     Inr (if r < 0 then r else int p + 1 + r, overwrite dst p (v # take count (utf8_written strict (fst d)))))" for v rest
    using Suc.IH [of "p + 1" "overwrite dst p [v]" rest] Suc.prems
      overwrite_append [of p "[v]" "take count (utf8_written strict (fst (utf8_decode rest)))" dst]
    by (simp add: put_overwrite length_overwrite Let_def)
  show ?case
  proof (cases src)
    case Nil
    then show ?thesis by (simp add: utf8_result_def Let_def)
  next
    case (Cons b src')
    show ?thesis
    proof (cases "b < 0x80")
      case True
      then show ?thesis
        using step [of "ucast b" src'] Cons by (auto simp: utf8_result_Cons Let_def)
    next
      case False
      show ?thesis
      proof (cases "utf8_char b src'")
        case Partial
        with False Cons show ?thesis by (simp add: utf8_result_def Let_def)
      next
        case (Bad rest)
        with False Cons show ?thesis
          using step [of "0x3f" rest] by (cases strict) (auto simp: utf8_result_Cons Let_def utf8_result_def [of True])
      next
        case (Value r rest)
        with False Cons show ?thesis
          using step [of "ucast r" rest] by (auto simp: utf8_result_Cons Let_def)
      qed
    qed
  qed
qed

lemma utf8_decode_text: "utf8_decode (utf8_text s @ rest) = apfst (append (map Some s)) (utf8_decode rest)"
proof (induction s)
  case Nil
  show ?case by (cases "utf8_decode rest") simp
next
  case (Cons ch s)
  show ?case
  proof (cases "ch < 0x80")
    case True
    then have e: "utf8_enc ch = [ucast ch]" by (cases ch rule: utf8_enc_cases) auto
    have lt: "unat ch < 0x80" using True by (simp add: word_less_nat_alt)
    then have u: "unat (ucast ch :: uchar) = unat ch" by (simp add: unsigned_ucast_eq take_bit_nat_eq_self)
    then have "(ucast ch :: uchar) < 0x80" using lt by (simp add: word_less_nat_alt)
    moreover have "ucast (ucast ch :: uchar) = ch"
    proof -
      have "ucast (ucast ch :: uchar) = (of_nat (unat (ucast ch :: uchar)) :: ushort)" by (simp only: of_nat_unat)
      then show ?thesis unfolding u by simp
    qed
    ultimately show ?thesis using Cons e by (cases "utf8_decode rest") simp
  next
    case False
    obtain b bs where b: "utf8_enc ch = b # bs" "\<not> b < 0x80"
        "\<And>rest. utf8_char b (bs @ rest) = Value (of_nat (unat ch)) rest"
      using utf8_char_enc [OF False] by blast
    have "ucast (of_nat (unat ch) :: ulong) = ch"
      using ushort_of_nat [of "unat ch"] unsigned_less [of ch, where 'a = nat] by simp
    with b Cons show ?thesis by (cases "utf8_decode rest") (simp del: of_nat_unat)
  qed
qed


lemma utf8_written_all [simp]: "utf8_written strict (map Some s) = s"
  by (induction s) simp_all

lemma utf8_mbstowcs_decode:
  assumes "0 < n" "n \<le> length dst"
  shows "utf8_mbstowcs strict src dst n =
    (let d = utf8_decode src in
     Inr (utf8_result strict n d, overwrite dst 0 (take n (utf8_written strict (fst d)))))"
  using assms utf8_mbs_loop_decode [of 0 n dst strict src] by (auto simp: utf8_mbstowcs_def Let_def)

section \<open>Properties\<close>

text \<open>C17. Text converted to UTF-8 and back is the same text, for every string of 16-bit characters, with or without
  the check for invalid characters, in buffers that are large enough.\<close>

theorem utf8_roundtrip:
  assumes "s \<noteq> []" "length (utf8_text s) \<le> n" "n \<le> length dst" "length s \<le> m" "m \<le> length wdst"
  shows "case utf8_wcstombs s dst (int n) of Inl e \<Rightarrow> False
    | Inr (r, bytes) \<Rightarrow> 0 \<le> r \<and>
        utf8_mbstowcs strict (take (nat (get_length_wcs_utf8 s)) bytes) wdst m = Inr (int (length s), overwrite wdst 0 s)"
proof -
  have pos: "0 < n" "0 < m"
    using assms by (cases s; simp add: utf8_enc_def Let_def split: if_splits)+
  then have "utf8_wcstombs s dst (int n) = Inr (int (length s), overwrite dst 0 (utf8_text s))"
    using utf8_wcs_loop_fills [of 0 n dst "int (length s)" s] assms(2,3) by (simp add: utf8_wcstombs_def utf8_fill_all)
  moreover have "take (nat (get_length_wcs_utf8 s)) (overwrite dst 0 (utf8_text s)) = utf8_text s"
    by (simp add: get_length_wcs_utf8_text overwrite_def)
  moreover have "utf8_decode (utf8_text s) = (map Some s, False)" using utf8_decode_text [of s "[]"] by simp
  moreover have "None \<notin> set (take m (map Some s))" using set_take_subset [of m "map Some s"] by auto
  ultimately show ?thesis
    using utf8_mbstowcs_decode [OF pos(2) assms(5), of strict "utf8_text s"] assms(4)
    by (auto simp: Let_def utf8_result_def)
qed

theorem utf8_roundtrip_witness:
  "case utf8_wcstombs [0x41, 0xe9, 0x20ac] (replicate 8 0) 8 of Inl e \<Rightarrow> False
    | Inr (r, bytes) \<Rightarrow> 0 \<le> r \<and>
        utf8_mbstowcs True (take (nat (get_length_wcs_utf8 [0x41, 0xe9, 0x20ac])) bytes) (replicate 4 0) 4 =
          Inr (3, overwrite (replicate 4 0) 0 [0x41, 0xe9, 0x20ac])"
  using utf8_roundtrip [of "[0x41, 0xe9, 0x20ac]" 8 "replicate 8 0" 4 "replicate 4 0" True]
  by (auto simp: utf8_enc_def split: sum.splits)





text \<open>C30. The conversion to UTF-8 writes the whole encodings that fit, never behind \<open>dstlen\<close>. It returns the number of
  characters of the source, where the size query returns the number of bytes.\<close>

theorem utf8_wcstombs_fills:
  assumes "0 < n" "n \<le> length dst"
  shows "utf8_wcstombs src dst (int n) =
      Inr (if length (utf8_text src) \<le> n then int (length src) else -1, overwrite dst 0 (utf8_fill n src)) \<and>
    utf8_wcstombs src dst 0 = Inr (int (length (utf8_text src)), dst)"
  using assms utf8_wcs_loop_fills [of 0 n dst "int (length src)" src]
  by (simp add: utf8_wcstombs_def get_length_wcs_utf8_text)

theorem utf8_wcstombs_fills_witness:
  "utf8_wcstombs [0x20ac, 0x41] (replicate 4 0) 4 = Inr (2, [0xe2, 0x82, 0xac, 0x41]) \<and>
   utf8_wcstombs [0x20ac, 0x41] (replicate 4 0) 0 = Inr (4, replicate 4 0)"
  using utf8_wcstombs_fills [of 4 "replicate 4 0" "[0x20ac, 0x41]"]
  by (simp add: utf8_enc_def overwrite_def)

end
