(* ===== verification/CodePage.thy ===== *)
theory CodePage
  imports Buffer
begin

text \<open>
  The code page conversions of \<open>lib/unicode/mbtowc.c\<close> and \<open>lib/unicode/wctomb.c\<close>. The tables of a code page and the
  Unicode tables for composed characters are arguments, and a read outside a table is a fault. A source is
  the list of its characters, so its length is \<open>srclen\<close>; a destination is written by index. A length or an overflow is
  what the C functions return, an overflow being -1 and an invalid character -2.
\<close>

section \<open>Tables\<close>

record cp_info =
  codepage :: ulong
  char_size :: ulong
  def_char :: ushort
  def_unicode_char :: ushort
  cp_name :: string

record sbcs_table =
  sb_info :: cp_info
  sb_cp2uni :: "ushort list"
  sb_uni2cp_low :: "uchar list"
  sb_uni2cp_high :: "ushort list"

record dbcs_table =
  db_info :: cp_info
  db_cp2uni :: "ushort list"
  db_cp2uni_leadbytes :: "uchar list"
  db_uni2cp_low :: "ushort list"
  db_uni2cp_high :: "ushort list"

text \<open>The union is read by its tag \<open>char_size\<close>, 1 or 2.\<close>

datatype cptable = Sbcs sbcs_table | Dbcs dbcs_table

text \<open>The tables of \<open>compose.c\<close>.\<close>

record unicode_tables =
  unicode_compose_table :: "ushort list"
  unicode_compose_table_size :: nat
  unicode_decompose_table :: "ushort list"

section \<open>Flags\<close>

definition MB_COMPOSITE :: ulong where "MB_COMPOSITE = 0x00000002"
definition MB_ERR_INVALID_CHARS :: ulong where "MB_ERR_INVALID_CHARS = 0x00000008"
definition WC_DISCARDNS :: ulong where "WC_DISCARDNS = 0x00000010"
definition WC_DEFAULTCHAR :: ulong where "WC_DEFAULTCHAR = 0x00000040"
definition WC_COMPOSITECHECK :: ulong where "WC_COMPOSITECHECK = 0x00000200"
definition WC_NO_BEST_FIT_CHARS :: ulong where "WC_NO_BEST_FIT_CHARS = 0x00000400"

section \<open>The unrolled copy loop\<close>

text \<open>The switch with its cases from 16 down to 1 falling through, on the elements from \<open>i\<close> on.\<close>

fun copy_down :: "('a \<Rightarrow> 'b res) \<Rightarrow> 'a list \<Rightarrow> nat \<Rightarrow> nat \<Rightarrow> 'b list \<Rightarrow> 'b list res" where
  "copy_down f src i 0 dst = Inr dst"
| "copy_down f src i (Suc k) dst =
     bind_res (lookup src (i + k)) (\<lambda>ch.
     bind_res (f ch) (\<lambda>v.
     bind_res (put dst (i + k) v) (\<lambda>dst. copy_down f src i k dst)))"

function copy_loop :: "('a \<Rightarrow> 'b res) \<Rightarrow> 'a list \<Rightarrow> nat \<Rightarrow> nat \<Rightarrow> 'b list \<Rightarrow> 'b list res" where
  "copy_loop f src i srclen dst =
     bind_res (copy_down f src i (min srclen 16) dst) (\<lambda>dst.
       if srclen < 16 then Inr dst else copy_loop f src (i + 16) (srclen - 16) dst)"
  by pat_completeness auto

termination
  by (relation "measure (\<lambda>(f, src, i, srclen, dst). srclen)") auto

declare copy_loop.simps [simp del]

section \<open>To 16-bit characters\<close>

text \<open>The index of the decomposition of a character.\<close>

definition decompose_index :: "ushort list \<Rightarrow> ushort \<Rightarrow> nat res" where
  "decompose_index tab src =
     bind_res (lookup tab (unat (drop_bit 8 src))) (\<lambda>a.
     bind_res (lookup tab (unat a + unat (drop_bit 4 src AND 0x0f))) (\<lambda>b.
       Inr (unat b + 2 * unat (src AND 0x0f))))"

function get_decomposition :: "ushort list \<Rightarrow> ushort \<Rightarrow> ushort list \<Rightarrow> nat \<Rightarrow> nat \<Rightarrow> (nat \<times> ushort list) res" where
  "get_decomposition tab src dst p dstlen =
     bind_res (put dst p src) (\<lambda>dst.
     bind_res (decompose_index tab src) (\<lambda>i.
     bind_res (lookup tab i) (\<lambda>first.
       if first = 0 then Inr (1, dst)
       else if dstlen \<le> 1 then Inr (0, dst)
       else
         bind_res (get_decomposition tab first dst p (dstlen - 1)) (\<lambda>(n, dst).
           if n = 0 then Inr (0, dst)
           else
             bind_res (lookup tab (i + 1)) (\<lambda>second.
             bind_res (put dst (p + n) second) (\<lambda>dst. Inr (n + 1, dst)))))))"
  by pat_completeness auto

termination
  by (relation "measure (\<lambda>(tab, src, dst, p, dstlen). dstlen)") auto

declare get_decomposition.simps [simp del]

subsection \<open>Single-byte code pages\<close>

definition sb_to_wc :: "sbcs_table \<Rightarrow> uchar \<Rightarrow> ushort res" where
  "sb_to_wc table ch = lookup (sb_cp2uni table) (unat ch)"

fun check_invalid_chars_sbcs :: "sbcs_table \<Rightarrow> uchar list \<Rightarrow> nat res" where
  "check_invalid_chars_sbcs table [] = Inr 0"
| "check_invalid_chars_sbcs table (ch # src) =
     bind_res (sb_to_wc table ch) (\<lambda>wch.
       if wch = def_unicode_char (sb_info table) \<and> ucast ch \<noteq> def_char (sb_info table) then Inr (length (ch # src))
       else check_invalid_chars_sbcs table src)"

definition mbstowcs_sbcs :: "sbcs_table \<Rightarrow> uchar list \<Rightarrow> ushort list \<Rightarrow> nat \<Rightarrow> (int \<times> ushort list) res" where
  "mbstowcs_sbcs table src dst dstlen =
     (let (srclen, ret) = (if dstlen < length src then (dstlen, -1) else (length src, int (length src))) in
      bind_res (copy_loop (sb_to_wc table) src 0 srclen dst) (\<lambda>dst. Inr (ret, dst)))"

text \<open>The length of the decompositions, each written to a dummy of four characters.\<close>

definition decomposed_length :: "ushort list \<Rightarrow> ushort \<Rightarrow> nat res" where
  "decomposed_length tab wch = bind_res (get_decomposition tab wch [0, 0, 0, 0] 0 4) (\<lambda>(n, _). Inr n)"

fun sbcs_decomposed_length :: "unicode_tables \<Rightarrow> sbcs_table \<Rightarrow> nat \<Rightarrow> uchar list \<Rightarrow> nat res" where
  "sbcs_decomposed_length ut table len [] = Inr len"
| "sbcs_decomposed_length ut table len (ch # src) =
     bind_res (sb_to_wc table ch) (\<lambda>wch.
     bind_res (decomposed_length (unicode_decompose_table ut) wch) (\<lambda>n.
       sbcs_decomposed_length ut table (len + n) src))"

fun sbcs_decompose_loop ::
  "unicode_tables \<Rightarrow> sbcs_table \<Rightarrow> uchar list \<Rightarrow> nat \<Rightarrow> nat \<Rightarrow> nat \<Rightarrow> ushort list \<Rightarrow> (int \<times> ushort list) res"
where
  "sbcs_decompose_loop ut table [] dstlen len p dst = Inr (int dstlen - int len, dst)"
| "sbcs_decompose_loop ut table (ch # src) dstlen len p dst =
     (if len = 0 then Inr (-1, dst)
      else
        bind_res (sb_to_wc table ch) (\<lambda>wch.
        bind_res (get_decomposition (unicode_decompose_table ut) wch dst p len) (\<lambda>(n, dst).
          if n = 0 then Inr (-1, dst)
          else sbcs_decompose_loop ut table src dstlen (len - n) (p + n) dst)))"

definition mbstowcs_sbcs_decompose ::
  "unicode_tables \<Rightarrow> sbcs_table \<Rightarrow> uchar list \<Rightarrow> ushort list \<Rightarrow> nat \<Rightarrow> (int \<times> ushort list) res"
where
  "mbstowcs_sbcs_decompose ut table src dst dstlen =
     (if dstlen = 0 then bind_res (sbcs_decomposed_length ut table 0 src) (\<lambda>len. Inr (int len, dst))
      else sbcs_decompose_loop ut table src dstlen dstlen 0 dst)"

subsection \<open>Double-byte code pages\<close>

text \<open>The next character of a source, behind its first byte \<open>ch\<close>: the character and the rest, or \<open>None\<close> for
  a lead byte at the end.\<close>

definition db_next :: "dbcs_table \<Rightarrow> uchar \<Rightarrow> uchar list \<Rightarrow> (ushort \<times> uchar list) option res" where
  "db_next table ch src =
     bind_res (lookup (db_cp2uni_leadbytes table) (unat ch)) (\<lambda>off.
       if off \<noteq> 0 then
         (case src of
            [] \<Rightarrow> Inr None
          | trail # src \<Rightarrow>
              bind_res (lookup (db_cp2uni table) (unat off * 256 + unat trail)) (\<lambda>wch. Inr (Some (wch, src))))
       else bind_res (lookup (db_cp2uni table) (unat ch)) (\<lambda>wch. Inr (Some (wch, src))))"

fun get_length_mb_dbcs :: "dbcs_table \<Rightarrow> nat \<Rightarrow> uchar list \<Rightarrow> nat res" where
  "get_length_mb_dbcs table len [] = Inr len"
| "get_length_mb_dbcs table len (ch # src) =
     bind_res (lookup (db_cp2uni_leadbytes table) (unat ch)) (\<lambda>off.
       if off \<noteq> 0 then
         (case src of [] \<Rightarrow> Inr len | trail # src \<Rightarrow> get_length_mb_dbcs table (len + 1) src)
       else get_length_mb_dbcs table (len + 1) src)"

fun check_invalid_chars_dbcs :: "dbcs_table \<Rightarrow> uchar list \<Rightarrow> nat res" where
  "check_invalid_chars_dbcs table [] = Inr 0"
| "check_invalid_chars_dbcs table (ch # src) =
     bind_res (lookup (db_cp2uni_leadbytes table) (unat ch)) (\<lambda>off.
       if off \<noteq> 0 then
         (case src of
            [] \<Rightarrow> Inr 1
          | trail # rest \<Rightarrow>
              bind_res (lookup (db_cp2uni table) (unat off * 256 + unat trail)) (\<lambda>wch.
                if wch = def_unicode_char (db_info table) \<and>
                    (push_bit 8 (ucast ch) OR ucast trail :: ulong) \<noteq> ucast (def_char (db_info table))
                then Inr (length (ch # src))
                else check_invalid_chars_dbcs table rest))
       else
         bind_res (lookup (db_cp2uni table) (unat ch)) (\<lambda>wch.
           if wch = def_unicode_char (db_info table) \<and> ucast ch \<noteq> def_char (db_info table) then Inr (length (ch # src))
           else check_invalid_chars_dbcs table src))"

lemma db_next_shorter: "db_next table ch src = Inr (Some (wch, rest)) \<Longrightarrow> length rest \<le> length src"
  by (auto simp: db_next_def bind_res_eq_Inr split: if_splits list.splits)

function mbstowcs_dbcs_loop ::
  "dbcs_table \<Rightarrow> uchar list \<Rightarrow> nat \<Rightarrow> nat \<Rightarrow> nat \<Rightarrow> ushort list \<Rightarrow> (int \<times> ushort list) res"
where
  "mbstowcs_dbcs_loop table [] dstlen len p dst = Inr (int dstlen - int len, dst)"
| "mbstowcs_dbcs_loop table (ch # src) dstlen len p dst =
     (if len = 0 then Inr (-1, dst)
      else
        (case db_next table ch src of
           Inl e \<Rightarrow> Inl e
         | Inr None \<Rightarrow> Inr (int dstlen - int len, dst)
         | Inr (Some (wch, src)) \<Rightarrow>
             bind_res (put dst p wch) (\<lambda>dst. mbstowcs_dbcs_loop table src dstlen (len - 1) (p + 1) dst)))"
  by pat_completeness auto

termination
  by (relation "measure (\<lambda>(table, src, dstlen, len, p, dst). length src)") (auto dest: db_next_shorter)

definition mbstowcs_dbcs :: "dbcs_table \<Rightarrow> uchar list \<Rightarrow> ushort list \<Rightarrow> nat \<Rightarrow> (int \<times> ushort list) res" where
  "mbstowcs_dbcs table src dst dstlen =
     (if dstlen = 0 then bind_res (get_length_mb_dbcs table 0 src) (\<lambda>len. Inr (int len, dst))
      else mbstowcs_dbcs_loop table src dstlen dstlen 0 dst)"

function dbcs_decomposed_length :: "unicode_tables \<Rightarrow> dbcs_table \<Rightarrow> nat \<Rightarrow> uchar list \<Rightarrow> nat res" where
  "dbcs_decomposed_length ut table len [] = Inr len"
| "dbcs_decomposed_length ut table len (ch # src) =
     (case db_next table ch src of
        Inl e \<Rightarrow> Inl e
      | Inr None \<Rightarrow> Inr len
      | Inr (Some (wch, src)) \<Rightarrow>
          bind_res (decomposed_length (unicode_decompose_table ut) wch) (\<lambda>n.
            dbcs_decomposed_length ut table (len + n) src))"
  by pat_completeness auto

termination
  by (relation "measure (\<lambda>(ut, table, len, src). length src)") (auto dest: db_next_shorter)

function dbcs_decompose_loop ::
  "unicode_tables \<Rightarrow> dbcs_table \<Rightarrow> uchar list \<Rightarrow> nat \<Rightarrow> nat \<Rightarrow> nat \<Rightarrow> ushort list \<Rightarrow> (int \<times> ushort list) res"
where
  "dbcs_decompose_loop ut table [] dstlen len p dst = Inr (int dstlen - int len, dst)"
| "dbcs_decompose_loop ut table (ch # src) dstlen len p dst =
     (if len = 0 then Inr (-1, dst)
      else
        (case db_next table ch src of
           Inl e \<Rightarrow> Inl e
         | Inr None \<Rightarrow> Inr (int dstlen - int len, dst)
         | Inr (Some (wch, src)) \<Rightarrow>
             bind_res (get_decomposition (unicode_decompose_table ut) wch dst p len) (\<lambda>(n, dst).
               if n = 0 then Inr (-1, dst)
               else dbcs_decompose_loop ut table src dstlen (len - n) (p + n) dst)))"
  by pat_completeness auto

termination
  by (relation "measure (\<lambda>(ut, table, src, dstlen, len, p, dst). length src)") (auto dest: db_next_shorter)

definition mbstowcs_dbcs_decompose ::
  "unicode_tables \<Rightarrow> dbcs_table \<Rightarrow> uchar list \<Rightarrow> ushort list \<Rightarrow> nat \<Rightarrow> (int \<times> ushort list) res"
where
  "mbstowcs_dbcs_decompose ut table src dst dstlen =
     (if dstlen = 0 then bind_res (dbcs_decomposed_length ut table 0 src) (\<lambda>len. Inr (int len, dst))
      else dbcs_decompose_loop ut table src dstlen dstlen 0 dst)"

definition cp_mbstowcs ::
  "unicode_tables \<Rightarrow> cptable \<Rightarrow> ulong \<Rightarrow> uchar list option \<Rightarrow> ushort list \<Rightarrow> nat \<Rightarrow> (int \<times> ushort list) res"
where
  "cp_mbstowcs ut table flags src dst dstlen =
     (case src of
        None \<Rightarrow> Inr (-2, dst)
      | Some src \<Rightarrow>
          (case table of
             Sbcs t \<Rightarrow>
               bind_res
                 (if flags AND MB_ERR_INVALID_CHARS \<noteq> 0 then check_invalid_chars_sbcs t src else Inr 0)
                 (\<lambda>invalid.
                    if invalid \<noteq> 0 then Inr (-2, dst)
                    else if flags AND MB_COMPOSITE = 0 then
                      if dstlen = 0 then Inr (int (length src), dst) else mbstowcs_sbcs t src dst dstlen
                    else mbstowcs_sbcs_decompose ut t src dst dstlen)
           | Dbcs t \<Rightarrow>
               bind_res
                 (if flags AND MB_ERR_INVALID_CHARS \<noteq> 0 then check_invalid_chars_dbcs t src else Inr 0)
                 (\<lambda>invalid.
                    if invalid \<noteq> 0 then Inr (-2, dst)
                    else if flags AND MB_COMPOSITE = 0 then mbstowcs_dbcs t src dst dstlen
                    else mbstowcs_dbcs_decompose ut t src dst dstlen)))"

end
