(* ===== verification/WcToMb.thy ===== *)
theory WcToMb
  imports CodePage
begin

text \<open>
  The conversions from 16-bit characters of \<open>lib/unicode/wctomb.c\<close>. \<open>defchar\<close> is the caller's default character,
  \<open>None\<close> for a null pointer and else the string it points to; the flag in the results says whether \<open>*used\<close> is set.
  Plain \<open>char\<close> is signed, as in the compiler the library is built with.
\<close>

section \<open>Composition\<close>

definition lookup_int :: "'a list \<Rightarrow> int \<Rightarrow> 'a res" where
  "lookup_int tab i = (if 0 \<le> i then lookup tab (nat i) else Inl OutOfBounds)"

function binary_search :: "ushort list \<Rightarrow> ushort \<Rightarrow> int \<Rightarrow> int \<Rightarrow> int res" where
  "binary_search tab ch low high =
     (if low \<le> high then
        let pos = (low + high) div 2 in
        bind_res (lookup_int tab (2 * pos)) (\<lambda>entry.
          if entry < ch then binary_search tab ch (pos + 1) high
          else if ch < entry then binary_search tab ch low (pos - 1)
          else Inr pos)
      else Inr (-1))"
  by pat_completeness auto

termination
  by (relation "measure (\<lambda>(tab, ch, low, high). nat (high - low + 1))") auto

declare binary_search.simps [simp del]

text \<open>The loop goes twice, over the second character and then over the first.\<close>

definition compose :: "unicode_tables \<Rightarrow> ushort \<Rightarrow> ushort \<Rightarrow> ushort res" where
  "compose ut first second =
     (let tab = unicode_compose_table ut in
      bind_res (binary_search tab second 0 (int (unicode_compose_table_size ut) - 1)) (\<lambda>pos.
        if pos = -1 then Inr 0
        else
          bind_res (lookup_int tab (2 * pos + 1)) (\<lambda>low.
          bind_res (lookup_int tab (2 * pos + 3)) (\<lambda>next.
          bind_res (binary_search tab first (uint low) (uint next - 1)) (\<lambda>pos.
            if pos = -1 then Inr 0 else lookup_int tab (2 * pos + 1))))))"

text \<open>The composition of a character with the next one, 0 where there is none or it is not asked for.\<close>

definition composed_char :: "unicode_tables \<Rightarrow> ulong \<Rightarrow> ushort \<Rightarrow> ushort list \<Rightarrow> ushort res" where
  "composed_char ut flags wch src =
     (case src of
        next # _ \<Rightarrow> if flags AND WC_COMPOSITECHECK \<noteq> 0 then compose ut wch next else Inr 0
      | [] \<Rightarrow> Inr 0)"

section \<open>Single-byte code pages\<close>

definition sb_from_wc :: "sbcs_table \<Rightarrow> ushort \<Rightarrow> uchar res" where
  "sb_from_wc table wch =
     bind_res (lookup (sb_uni2cp_high table) (unat (drop_bit 8 wch))) (\<lambda>high.
       lookup (sb_uni2cp_low table) (unat high + unat (wch AND 0xff)))"

definition is_valid_sbcs_mapping :: "sbcs_table \<Rightarrow> ulong \<Rightarrow> ushort \<Rightarrow> uchar \<Rightarrow> bool res" where
  "is_valid_sbcs_mapping table flags wch ch =
     (if flags AND WC_NO_BEST_FIT_CHARS \<noteq> 0 then bind_res (lookup (sb_cp2uni table) (unat ch)) (\<lambda>u. Inr (u = wch))
      else if ch \<noteq> ucast (def_char (sb_info table)) then Inr True
      else Inr (wch = def_unicode_char (sb_info table)))"

text \<open>The loop of the length query, on more than one character.\<close>

fun sbcs_length_loop :: "unicode_tables \<Rightarrow> sbcs_table \<Rightarrow> ulong \<Rightarrow> nat \<Rightarrow> ushort list \<Rightarrow> nat res" where
  "sbcs_length_loop ut table flags ret [] = Inr ret"
| "sbcs_length_loop ut table flags ret [ch] = Inr (ret + 1)"
| "sbcs_length_loop ut table flags ret (first # second # src) =
     bind_res (compose ut first second) (\<lambda>composed.
       if composed = 0 then sbcs_length_loop ut table flags (ret + 1) (second # src)
       else if flags AND (WC_DEFAULTCHAR OR WC_DISCARDNS) = 0 then
         bind_res (sb_from_wc table composed) (\<lambda>ch.
         bind_res (is_valid_sbcs_mapping table flags composed ch) (\<lambda>ok.
           if \<not> ok then sbcs_length_loop ut table flags (ret + 1) (second # src)
           else sbcs_length_loop ut table flags (ret + 1) src))
       else sbcs_length_loop ut table flags (ret + 1) src)"

definition get_length_sbcs :: "unicode_tables \<Rightarrow> sbcs_table \<Rightarrow> ulong \<Rightarrow> ushort list \<Rightarrow> nat res" where
  "get_length_sbcs ut table flags src =
     (if flags AND WC_COMPOSITECHECK \<noteq> 0 then sbcs_length_loop ut table flags 0 src else Inr (length src))"

definition wcstombs_sbcs :: "sbcs_table \<Rightarrow> ushort list \<Rightarrow> uchar list \<Rightarrow> nat \<Rightarrow> (int \<times> uchar list) res" where
  "wcstombs_sbcs table src dst dstlen =
     (let (srclen, ret) = (if dstlen < length src then (dstlen, -1) else (length src, int (length src))) in
      bind_res (copy_loop (sb_from_wc table) src 0 srclen dst) (\<lambda>dst. Inr (ret, dst)))"

section \<open>One character with the flags\<close>

text \<open>What both slow conversions do with the character \<open>wch\<close> in front of \<open>src\<close>: the code they put out, whether it is
  the default character, and the rest of the source.\<close>

definition slow_char ::
  "unicode_tables \<Rightarrow> (ushort \<Rightarrow> 'c res) \<Rightarrow> (ushort \<Rightarrow> 'c \<Rightarrow> bool res) \<Rightarrow> ulong \<Rightarrow> 'c \<Rightarrow> ushort \<Rightarrow> ushort list \<Rightarrow>
     ('c \<times> bool \<times> ushort list) res"
where
  "slow_char ut from_wc valid flags defchar wch src =
     (let plain = (\<lambda>src.
        bind_res (from_wc wch) (\<lambda>res.
        bind_res (valid wch res) (\<lambda>ok. Inr (if ok then (res, False, src) else (defchar, True, src)))))
      in
        bind_res (composed_char ut flags wch src) (\<lambda>composed.
          if composed = 0 then plain src
          else
            bind_res (from_wc composed) (\<lambda>res.
            bind_res (valid composed res) (\<lambda>ok.
              if ok then Inr (res, False, tl src)
              else if flags AND WC_DEFAULTCHAR \<noteq> 0 then Inr (defchar, True, tl src)
              else if flags AND WC_DISCARDNS \<noteq> 0 then plain (tl src)
              else plain src))))"

lemma slow_char_shorter:
  "slow_char ut from_wc valid flags defchar wch src = Inr (res, used, rest) \<Longrightarrow> length rest \<le> length src"
  by (auto simp: slow_char_def Let_def bind_res_eq_Inr split: if_splits)

function sbcs_slow_loop ::
  "unicode_tables \<Rightarrow> sbcs_table \<Rightarrow> ulong \<Rightarrow> uchar \<Rightarrow> ushort list \<Rightarrow> nat \<Rightarrow> nat \<Rightarrow> nat \<Rightarrow> uchar list \<Rightarrow> bool \<Rightarrow>
     (int \<times> uchar list \<times> bool) res"
where
  "sbcs_slow_loop ut table flags defchar [] dstlen len p dst used = Inr (int dstlen - int len, dst, used)"
| "sbcs_slow_loop ut table flags defchar (wch # src) dstlen len p dst used =
     (if len = 0 then Inr (-1, dst, used)
      else
        (case slow_char ut (sb_from_wc table) (is_valid_sbcs_mapping table flags) flags defchar wch src of
           Inl e \<Rightarrow> Inl e
         | Inr (ch, dflt, src) \<Rightarrow>
             bind_res (put dst p ch) (\<lambda>dst.
               sbcs_slow_loop ut table flags defchar src dstlen (len - 1) (p + 1) dst (used \<or> dflt))))"
  by pat_completeness auto

termination
  by (relation "measure (\<lambda>(ut, table, flags, defchar, src, _). length src)") (auto dest: slow_char_shorter)

definition wcstombs_sbcs_slow ::
  "unicode_tables \<Rightarrow> sbcs_table \<Rightarrow> ulong \<Rightarrow> ushort list \<Rightarrow> uchar list \<Rightarrow> nat \<Rightarrow> uchar list option \<Rightarrow>
     (int \<times> uchar list \<times> bool) res"
where
  "wcstombs_sbcs_slow ut table flags src dst dstlen defchar =
     bind_res (case defchar of None \<Rightarrow> Inr (ucast (def_char (sb_info table) AND 0xff)) | Some s \<Rightarrow> lookup s 0) (\<lambda>c.
       sbcs_slow_loop ut table flags c src dstlen dstlen 0 dst False)"

section \<open>Double-byte code pages\<close>

definition db_from_wc :: "dbcs_table \<Rightarrow> ushort \<Rightarrow> ushort res" where
  "db_from_wc table wch =
     bind_res (lookup (db_uni2cp_high table) (unat (drop_bit 8 wch))) (\<lambda>high.
       lookup (db_uni2cp_low table) (unat high + unat (wch AND 0xff)))"

definition is_valid_dbcs_mapping :: "dbcs_table \<Rightarrow> ulong \<Rightarrow> ushort \<Rightarrow> ushort \<Rightarrow> bool res" where
  "is_valid_dbcs_mapping table flags wch ch =
     (if ch = def_char (db_info table) \<and> wch \<noteq> def_unicode_char (db_info table) then Inr False
      else if flags AND WC_NO_BEST_FIT_CHARS \<noteq> 0 then
        if ch AND 0xff00 \<noteq> 0 then
          bind_res (lookup (db_cp2uni_leadbytes table) (unat (drop_bit 8 ch))) (\<lambda>off.
          bind_res (lookup (db_cp2uni table) (unat off * 256 + unat (ch AND 0xff))) (\<lambda>u. Inr (u = wch)))
        else bind_res (lookup (db_cp2uni table) (unat (ch AND 0xff))) (\<lambda>u. Inr (u = wch))
      else Inr True)"

text \<open>The value of the default character: two bytes if the string has two.\<close>

definition defchar_value :: "dbcs_table \<Rightarrow> uchar list option \<Rightarrow> ushort res" where
  "defchar_value table defchar =
     (case defchar of
        None \<Rightarrow> Inr (def_char (db_info table))
      | Some s \<Rightarrow>
          bind_res (lookup s 1) (\<lambda>second.
          bind_res (lookup s 0) (\<lambda>first.
            Inr (if second \<noteq> 0 then push_bit 8 (scast first) OR scast second else scast first))))"

fun dbcs_fast_length :: "dbcs_table \<Rightarrow> nat \<Rightarrow> ushort list \<Rightarrow> nat res" where
  "dbcs_fast_length table len [] = Inr len"
| "dbcs_fast_length table len (wch # src) =
     bind_res (db_from_wc table wch) (\<lambda>res. dbcs_fast_length table (if res AND 0xff00 \<noteq> 0 then len + 2 else len + 1) src)"

function dbcs_slow_length ::
  "unicode_tables \<Rightarrow> dbcs_table \<Rightarrow> ulong \<Rightarrow> ushort \<Rightarrow> nat \<Rightarrow> ushort list \<Rightarrow> nat res"
where
  "dbcs_slow_length ut table flags defchar len [] = Inr len"
| "dbcs_slow_length ut table flags defchar len (wch # src) =
     (case slow_char ut (db_from_wc table) (is_valid_dbcs_mapping table flags) flags defchar wch src of
        Inl e \<Rightarrow> Inl e
      | Inr (res, dflt, src) \<Rightarrow>
          dbcs_slow_length ut table flags defchar (if res AND 0xff00 \<noteq> 0 then len + 2 else len + 1) src)"
  by pat_completeness auto

termination
  by (relation "measure (\<lambda>(ut, table, flags, defchar, len, src). length src)") (auto dest: slow_char_shorter)

definition get_length_wc_dbcs ::
  "unicode_tables \<Rightarrow> dbcs_table \<Rightarrow> ulong \<Rightarrow> ushort list \<Rightarrow> uchar list option \<Rightarrow> nat res"
where
  "get_length_wc_dbcs ut table flags src defchar =
     (if defchar = None \<and> flags AND WC_COMPOSITECHECK = 0 then dbcs_fast_length table 0 src
      else bind_res (defchar_value table defchar) (\<lambda>d. dbcs_slow_length ut table flags d 0 src))"

text \<open>Writing one code, \<open>None\<close> where only its first byte would fit.\<close>

definition put_code :: "uchar list \<Rightarrow> nat \<Rightarrow> nat \<Rightarrow> ushort \<Rightarrow> (nat \<times> nat \<times> uchar list) option res" where
  "put_code dst p len res =
     (if res AND 0xff00 \<noteq> 0 then
        if len = 1 then Inr None
        else
          bind_res (put dst p (ucast (drop_bit 8 res))) (\<lambda>dst.
          bind_res (put dst (p + 1) (ucast res)) (\<lambda>dst. Inr (Some (p + 2, len - 2, dst))))
      else bind_res (put dst p (ucast res)) (\<lambda>dst. Inr (Some (p + 1, len - 1, dst))))"

fun wcstombs_dbcs_loop :: "dbcs_table \<Rightarrow> ushort list \<Rightarrow> nat \<Rightarrow> nat \<Rightarrow> nat \<Rightarrow> uchar list \<Rightarrow> (int \<times> uchar list) res" where
  "wcstombs_dbcs_loop table [] dstlen len p dst = Inr (int dstlen - int len, dst)"
| "wcstombs_dbcs_loop table (wch # src) dstlen len p dst =
     (if len = 0 then Inr (-1, dst)
      else
        bind_res (db_from_wc table wch) (\<lambda>res.
        bind_res (put_code dst p len res) (\<lambda>out.
          case out of
            None \<Rightarrow> Inr (-1, dst)
          | Some (p, len, dst) \<Rightarrow> wcstombs_dbcs_loop table src dstlen len p dst)))"

definition wcstombs_dbcs :: "dbcs_table \<Rightarrow> ushort list \<Rightarrow> uchar list \<Rightarrow> nat \<Rightarrow> (int \<times> uchar list) res" where
  "wcstombs_dbcs table src dst dstlen = wcstombs_dbcs_loop table src dstlen dstlen 0 dst"

function dbcs_slow_loop ::
  "unicode_tables \<Rightarrow> dbcs_table \<Rightarrow> ulong \<Rightarrow> ushort \<Rightarrow> ushort list \<Rightarrow> nat \<Rightarrow> nat \<Rightarrow> nat \<Rightarrow> uchar list \<Rightarrow> bool \<Rightarrow>
     (int \<times> uchar list \<times> bool) res"
where
  "dbcs_slow_loop ut table flags defchar [] dstlen len p dst used = Inr (int dstlen - int len, dst, used)"
| "dbcs_slow_loop ut table flags defchar (wch # src) dstlen len p dst used =
     (if len = 0 then Inr (-1, dst, used)
      else
        (case slow_char ut (db_from_wc table) (is_valid_dbcs_mapping table flags) flags defchar wch src of
           Inl e \<Rightarrow> Inl e
         | Inr (res, dflt, src) \<Rightarrow>
             bind_res (put_code dst p len res) (\<lambda>out.
               case out of
                 None \<Rightarrow> Inr (-1, dst, used \<or> dflt)
               | Some (p, len, dst) \<Rightarrow> dbcs_slow_loop ut table flags defchar src dstlen len p dst (used \<or> dflt))))"
  by pat_completeness auto

termination
  by (relation "measure (\<lambda>(ut, table, flags, defchar, src, _). length src)") (auto dest: slow_char_shorter)

definition wcstombs_dbcs_slow ::
  "unicode_tables \<Rightarrow> dbcs_table \<Rightarrow> ulong \<Rightarrow> ushort list \<Rightarrow> uchar list \<Rightarrow> nat \<Rightarrow> uchar list option \<Rightarrow>
     (int \<times> uchar list \<times> bool) res"
where
  "wcstombs_dbcs_slow ut table flags src dst dstlen defchar =
     bind_res (defchar_value table defchar) (\<lambda>d. dbcs_slow_loop ut table flags d src dstlen dstlen 0 dst False)"

section \<open>The conversion\<close>

text \<open>\<open>report\<close> says whether the caller passes \<open>used\<close>.\<close>

definition cp_wcstombs ::
  "unicode_tables \<Rightarrow> cptable \<Rightarrow> ulong \<Rightarrow> ushort list \<Rightarrow> uchar list \<Rightarrow> nat \<Rightarrow> uchar list option \<Rightarrow> bool \<Rightarrow>
     (int \<times> uchar list \<times> bool) res"
where
  "cp_wcstombs ut table flags src dst dstlen defchar report =
     (let slow = (flags \<noteq> 0 \<or> defchar \<noteq> None \<or> report) in
      case table of
        Sbcs t \<Rightarrow>
          if dstlen = 0 then bind_res (get_length_sbcs ut t flags src) (\<lambda>n. Inr (int n, dst, False))
          else if slow then wcstombs_sbcs_slow ut t flags src dst dstlen defchar
          else bind_res (wcstombs_sbcs t src dst dstlen) (\<lambda>(ret, dst). Inr (ret, dst, False))
      | Dbcs t \<Rightarrow>
          if dstlen = 0 then bind_res (get_length_wc_dbcs ut t flags src defchar) (\<lambda>n. Inr (int n, dst, False))
          else if slow then wcstombs_dbcs_slow ut t flags src dst dstlen defchar
          else bind_res (wcstombs_dbcs t src dst dstlen) (\<lambda>(ret, dst). Inr (ret, dst, False)))"

end
