(* ===== verification/CodePageProps.thy ===== *)
theory CodePageProps
  imports CodePage
begin

text \<open>
  The conversions of \<open>CodePage\<close> on well-formed tables, compared with the characters a source stands for.
\<close>

section \<open>The unrolled copy loop is a map\<close>

lemma copy_down_map:
  assumes "\<forall>x \<in> set (take k (drop i src)). f x = Inr (g x)" "i + k \<le> length src" "i + k \<le> length dst"
  shows "copy_down f src i k dst = Inr (overwrite dst i (map g (take k (drop i src))))"
  using assms
proof (induction k arbitrary: dst)
  case (Suc k)
  have k: "take (Suc k) (drop i src) = take k (drop i src) @ [src ! (i + k)]"
    using Suc.prems(2) by (simp add: take_Suc_conv_app_nth)
  with Suc.prems have "f (src ! (i + k)) = Inr (g (src ! (i + k)))" "\<forall>x \<in> set (take k (drop i src)). f x = Inr (g x)"
    by auto
  moreover from this Suc.IH [of "dst[i + k := g (src ! (i + k))]"] Suc.prems
  have "copy_down f src i k (dst[i + k := g (src ! (i + k))]) =
      Inr (overwrite (dst[i + k := g (src ! (i + k))]) i (map g (take k (drop i src))))" by simp
  moreover have "overwrite (dst[i + k := g (src ! (i + k))]) i (map g (take k (drop i src))) =
      overwrite dst i (map g (take (Suc k) (drop i src)))"
    using Suc.prems(2,3) unfolding k by (simp add: overwrite_def upd_conv_take_nth_drop min_def)
  ultimately show ?case using Suc.prems(2,3) by (simp add: put_def)
qed simp

lemma copy_loop_map:
  assumes "\<forall>x \<in> set (take n (drop i src)). f x = Inr (g x)" "i + n \<le> length src" "i + n \<le> length dst"
  shows "copy_loop f src i n dst = Inr (overwrite dst i (map g (take n (drop i src))))"
  using assms
proof (induction f src i n dst rule: copy_loop.induct)
  case (1 f src i n dst)
  let ?k = "min n 16"
  have down: "copy_down f src i ?k dst = Inr (overwrite dst i (map g (take ?k (drop i src))))"
    using 1(2-4) set_take_subset_set_take [of ?k n "drop i src"] by (intro copy_down_map) auto
  show ?case
  proof (cases "n < 16")
    case True
    with down show ?thesis by (simp add: copy_loop.simps [of f src i n] min_def)
  next
    case False
    then have n: "take n (drop i src) = take 16 (drop i src) @ take (n - 16) (drop (i + 16) src)"
      using take_add [of 16 "n - 16" "drop i src"] by (simp add: add.commute)
    have "copy_loop f src (i + 16) (n - 16) (overwrite dst i (map g (take 16 (drop i src)))) =
        Inr (overwrite (overwrite dst i (map g (take 16 (drop i src)))) (i + 16)
          (map g (take (n - 16) (drop (i + 16) src))))"
      using 1(2-4) False by (intro 1(1)) (auto simp: n length_overwrite)
    also have "\<dots> = Inr (overwrite dst i (map g (take n (drop i src))))"
      using 1(3,4) False overwrite_append [of i "map g (take 16 (drop i src))" "map g (take (n - 16) (drop (i + 16) src))" dst]
      by (simp add: n)
    finally show ?thesis using False down by (simp add: copy_loop.simps [of f src i n] min_absorb2)
  qed
qed

section \<open>Decompositions\<close>

text \<open>The characters that a character stands for, \<open>None\<close> if they are more than \<open>n\<close>.\<close>

fun decomposition :: "ushort list \<Rightarrow> nat \<Rightarrow> ushort \<Rightarrow> ushort list option" where
  "decomposition tab 0 c = None"
| "decomposition tab (Suc n) c =
     (case decompose_index tab c of
        Inl e \<Rightarrow> None
      | Inr i \<Rightarrow>
          if tab ! i = 0 then Some [c]
          else map_option (\<lambda>cs. cs @ [tab ! (i + 1)]) (decomposition tab n (tab ! i)))"

text \<open>Every index the walk through the table can reach is inside.\<close>

definition decompose_ok :: "ushort list \<Rightarrow> bool" where
  "decompose_ok tab \<longleftrightarrow> 256 \<le> length tab \<and>
     (\<forall>a \<in> set (take 256 tab). unat a + 16 \<le> length tab \<and>
        (\<forall>b \<in> set (take 16 (drop (unat a) tab)). unat b + 32 \<le> length tab))"

lemma decompose_index_ok:
  assumes "decompose_ok tab"
  obtains i where "decompose_index tab c = Inr i" "i + 1 < length tab"
proof -
  let ?a = "tab ! unat (drop_bit 8 c)" and ?m = "unat (drop_bit 4 c AND 0x0f)"
  let ?b = "tab ! (unat ?a + ?m)"
  have a: "unat ?a + 16 \<le> length tab" "\<forall>b \<in> set (take 16 (drop (unat ?a) tab)). unat b + 32 \<le> length tab"
    using assms unat_drop_8 [of c] nth_mem [of "unat (drop_bit 8 c)" "take 256 tab"] by (auto simp: decompose_ok_def)
  have m: "?m < 16" by (simp add: unat_and_0f)
  then have "?b \<in> set (take 16 (drop (unat ?a) tab))"
    using a(1) nth_mem [of ?m "take 16 (drop (unat ?a) tab)"] by simp
  with a(2) have "unat ?b + 32 \<le> length tab" by blast
  moreover have "unat (c AND 0x0f) < 16" by (simp add: unat_and_0f)
  ultimately show thesis
    using that [of "unat ?b + 2 * unat (c AND 0x0f)"] a m assms unat_drop_8 [of c]
    by (simp add: decompose_index_def decompose_ok_def)
qed

lemma decomposition_length: "decomposition tab n c = Some cs \<Longrightarrow> cs \<noteq> [] \<and> length cs \<le> n"
  by (induction tab n c arbitrary: cs rule: decomposition.induct)
    (auto split: sum.splits if_splits)

lemma get_decomposition_some:
  assumes "decompose_ok tab" "decomposition tab n c = Some cs" "p + n \<le> length dst"
  shows "get_decomposition tab c dst p n = Inr (length cs, overwrite dst p cs)"
  using assms(2,3)
proof (induction n arbitrary: c cs dst)
  case (Suc n)
  obtain i where i: "decompose_index tab c = Inr i" "i + 1 < length tab"
    using decompose_index_ok [OF assms(1)] by blast
  show ?case
  proof (cases "tab ! i = 0")
    case True
    with Suc.prems i show ?thesis by (auto simp: get_decomposition.simps [of _ c] put_overwrite)
  next
    case False
    with Suc.prems i obtain fs where fs: "decomposition tab n (tab ! i) = Some fs" "cs = fs @ [tab ! (i + 1)]"
      by auto
    have len: "fs \<noteq> []" "length fs \<le> n" using decomposition_length [OF fs(1)] by auto
    then have n: "0 < n" by (cases fs) auto
    have "get_decomposition tab (tab ! i) (overwrite dst p [c]) p n = Inr (length fs, overwrite (overwrite dst p [c]) p fs)"
      using Suc.prems by (intro Suc.IH fs) (simp add: length_overwrite)
    also have "overwrite (overwrite dst p [c]) p fs = overwrite dst p fs"
      using len Suc.prems by (intro overwrite_again) (cases fs, simp_all)
    finally show ?thesis
      using False Suc.prems i n len overwrite_append [of p fs "[tab ! (i + 1)]" dst]
      by (simp add: get_decomposition.simps [of _ c] put_overwrite length_overwrite fs(2))
  qed
qed simp

text \<open>Characters that decompose into more than \<open>n\<close> only leave something at their own place.\<close>

lemma get_decomposition_none:
  assumes "decompose_ok tab" "decomposition tab n c = None" "p + n \<le> length dst" "0 < n"
  shows "\<exists>x. get_decomposition tab c dst p n = Inr (0, dst[p := x])"
  using assms(2-4)
proof (induction n arbitrary: c dst)
  case (Suc n)
  obtain i where i: "decompose_index tab c = Inr i" "i + 1 < length tab"
    using decompose_index_ok [OF assms(1)] by blast
  with Suc.prems have none: "tab ! i \<noteq> 0" "decomposition tab n (tab ! i) = None" by (auto split: if_splits)
  show ?case
  proof (cases "n = 0")
    case True
    with none i Suc.prems show ?thesis by (auto simp: get_decomposition.simps [of _ c] put_def)
  next
    case False
    with Suc.IH [OF none(2), of "dst[p := c]"] Suc.prems
    obtain x where "get_decomposition tab (tab ! i) (dst[p := c]) p n = Inr (0, dst[p := c, p := x])" by auto
    with none i Suc.prems False show ?thesis by (auto simp: get_decomposition.simps [of _ c] put_def)
  qed
qed simp

lemma decomposition_SucE:
  assumes "decomposition tab (Suc n) c = Some cs"
  obtains i where "decompose_index tab c = Inr i" "tab ! i = 0" "cs = [c]"
  | i fs where "decompose_index tab c = Inr i" "tab ! i \<noteq> 0" "decomposition tab n (tab ! i) = Some fs"
      "cs = fs @ [tab ! (i + 1)]"
  using assms by (auto split: sum.splits if_splits)

lemma decomposition_more: "decomposition tab n c = Some cs \<Longrightarrow> n \<le> m \<Longrightarrow> decomposition tab m c = Some cs"
proof (induction n arbitrary: c cs m)
  case (Suc n)
  obtain k where m: "m = Suc k" "n \<le> k" using Suc.prems(2) by (cases m) auto
  show ?case using Suc.prems(1)
  proof (cases rule: decomposition_SucE)
    case (2 i fs)
    with Suc.IH [OF 2(3) m(2)] show ?thesis by (simp add: m)
  qed (simp add: m)
qed simp

lemma decomposition_less: "decomposition tab m c = Some cs \<Longrightarrow> length cs \<le> n \<Longrightarrow> decomposition tab n c = Some cs"
proof (induction m arbitrary: c cs n)
  case (Suc m)
  obtain k where n: "n = Suc k" using Suc.prems(2) decomposition_length [OF Suc.prems(1)] by (cases n) auto
  show ?case using Suc.prems(1)
  proof (cases rule: decomposition_SucE)
    case (2 i fs)
    with Suc.IH [OF 2(3), of k] Suc.prems(2) show ?thesis by (simp add: n)
  qed (simp add: n)
qed simp

lemma get_decomposition_step:
  assumes "decompose_ok tab" "decomposition tab 4 c = Some cs" "p + len \<le> length dst" "0 < len"
  shows "if length cs \<le> len then get_decomposition tab c dst p len = Inr (length cs, overwrite dst p cs)
    else \<exists>x. get_decomposition tab c dst p len = Inr (0, dst[p := x])"
proof (cases "length cs \<le> len")
  case True
  with assms show ?thesis using get_decomposition_some [OF assms(1) decomposition_less [OF assms(2) True] assms(3)] by simp
next
  case False
  then have "decomposition tab len c = None"
    using assms(2) decomposition_length [of tab len c] decomposition_more [of tab len c _ "max len 4"]
      decomposition_more [OF assms(2), of "max len 4"] by (cases "decomposition tab len c") auto
  with False show ?thesis using get_decomposition_none [OF assms(1) _ assms(3,4)] by simp
qed

lemma decomposed_length_parts:
  assumes "decompose_ok tab" "decomposition tab 4 c = Some cs"
  shows "decomposed_length tab c = Inr (length cs)"
  using get_decomposition_some [OF assms, of 0 "[0, 0, 0, 0]"] by (simp add: decomposed_length_def)

section \<open>The characters of a source\<close>

text \<open>Well-formed tables have an entry at every index the conversions can reach.\<close>

definition sb_ok :: "sbcs_table \<Rightarrow> bool" where
  "sb_ok t \<longleftrightarrow> length (sb_cp2uni t) = 256 \<and> length (sb_uni2cp_high t) = 256 \<and>
     (\<forall>h \<in> set (sb_uni2cp_high t). unat h + 256 \<le> length (sb_uni2cp_low t))"

definition db_ok :: "dbcs_table \<Rightarrow> bool" where
  "db_ok t \<longleftrightarrow> length (db_cp2uni_leadbytes t) = 256 \<and> 256 \<le> length (db_cp2uni t) \<and>
     (\<forall>off \<in> set (db_cp2uni_leadbytes t). unat off * 256 + 256 \<le> length (db_cp2uni t)) \<and>
     length (db_uni2cp_high t) = 256 \<and> (\<forall>h \<in> set (db_uni2cp_high t). unat h + 256 \<le> length (db_uni2cp_low t))"

definition sb_uni :: "sbcs_table \<Rightarrow> uchar \<Rightarrow> ushort" where
  "sb_uni t ch = sb_cp2uni t ! unat ch"

definition db_off :: "dbcs_table \<Rightarrow> uchar \<Rightarrow> nat" where
  "db_off t ch = unat (db_cp2uni_leadbytes t ! unat ch)"

fun db_decode :: "dbcs_table \<Rightarrow> uchar list \<Rightarrow> ushort list \<times> bool" where
  "db_decode t [] = ([], False)"
| "db_decode t (ch # src) =
     (if db_off t ch = 0 then apfst (Cons (db_cp2uni t ! unat ch)) (db_decode t src)
      else
        (case src of
           [] \<Rightarrow> ([], True)
         | trail # src \<Rightarrow> apfst (Cons (db_cp2uni t ! (db_off t ch * 256 + unat trail))) (db_decode t src)))"

declare db_decode.simps(2) [simp del]

lemma apfst_Cons [simp]: "apfst (Cons x) y = (zs, b) \<longleftrightarrow> (\<exists>xs. y = (xs, b) \<and> zs = x # xs)"
  by (cases y) auto

text \<open>The characters and whether the source ends in a lead byte.\<close>

fun cp_decode :: "cptable \<Rightarrow> uchar list \<Rightarrow> ushort list \<times> bool" where
  "cp_decode (Sbcs t) src = (map (sb_uni t) src, False)"
| "cp_decode (Dbcs t) src = db_decode t src"

fun cp_ok :: "cptable \<Rightarrow> bool" where
  "cp_ok (Sbcs t) = sb_ok t"
| "cp_ok (Dbcs t) = db_ok t"

lemma byte_less: "unat (b :: uchar) < 256"
  using unsigned_less [of b] by simp

lemma sb_to_wc_ok [simp]: "sb_ok t \<Longrightarrow> sb_to_wc t ch = Inr (sb_uni t ch)"
  using byte_less [of ch] by (simp add: sb_to_wc_def sb_ok_def sb_uni_def)

lemma db_lookups [simp]:
  assumes "db_ok t"
  shows "lookup (db_cp2uni_leadbytes t) (unat ch) = Inr (db_cp2uni_leadbytes t ! unat ch)"
    "lookup (db_cp2uni t) (unat (ch :: uchar)) = Inr (db_cp2uni t ! unat ch)"
    "lookup (db_cp2uni t) (unat (db_cp2uni_leadbytes t ! unat ch) * 256 + unat (trail :: uchar)) =
       Inr (db_cp2uni t ! (db_off t ch * 256 + unat trail))"
proof -
  have "db_cp2uni_leadbytes t ! unat ch \<in> set (db_cp2uni_leadbytes t)"
    using assms byte_less [of ch] by (simp add: db_ok_def)
  then have "unat (db_cp2uni_leadbytes t ! unat ch) * 256 + 256 \<le> length (db_cp2uni t)"
    using assms unfolding db_ok_def by blast
  then show "lookup (db_cp2uni t) (unat (db_cp2uni_leadbytes t ! unat ch) * 256 + unat trail) =
       Inr (db_cp2uni t ! (db_off t ch * 256 + unat trail))"
    using byte_less [of trail] by (simp add: db_off_def)
  show "lookup (db_cp2uni_leadbytes t) (unat ch) = Inr (db_cp2uni_leadbytes t ! unat ch)"
    "lookup (db_cp2uni t) (unat ch) = Inr (db_cp2uni t ! unat ch)"
    using assms byte_less [of ch] by (simp_all add: db_ok_def)
qed

lemma db_next_ok:
  assumes "db_ok t"
  shows "db_next t ch src = Inr
    (if db_off t ch = 0 then Some (db_cp2uni t ! unat ch, src)
     else (case src of [] \<Rightarrow> None | trail # src \<Rightarrow> Some (db_cp2uni t ! (db_off t ch * 256 + unat trail), src)))"
  using assms by (auto simp: db_next_def db_off_def unat_eq_0 split: list.splits)

text \<open>The conversions follow the characters one by one: a rule to prove facts on \<open>db_decode\<close> with.\<close>

lemma db_decode_cases:
  assumes "db_ok t"
  obtains "db_next t ch src = Inr None" "db_decode t (ch # src) = ([], True)"
  | wch rest where "db_next t ch src = Inr (Some (wch, rest))" "length rest \<le> length src"
      "db_decode t (ch # src) = apfst (Cons wch) (db_decode t rest)"
  using assms by (cases "db_off t ch = 0"; cases src) (simp_all add: db_next_ok db_decode.simps(2))

lemma db_decode_empty: "db_decode t src = ([], False) \<longleftrightarrow> src = []"
  by (cases src) (auto simp: db_decode.simps(2) split: list.splits)

section \<open>The conversions\<close>

text \<open>What a conversion into \<open>n\<close> characters returns: an overflow also for a lead byte behind them.\<close>

definition wide_result :: "nat \<Rightarrow> ushort list \<times> bool \<Rightarrow> int" where
  "wide_result n d = (if length (fst d) < n \<or> length (fst d) = n \<and> \<not> snd d then int (length (fst d)) else -1)"

lemma mbstowcs_sbcs_decode:
  assumes "sb_ok t" "n \<le> length dst"
  shows "mbstowcs_sbcs t src dst n =
    Inr (wide_result n (map (sb_uni t) src, False), overwrite dst 0 (take n (map (sb_uni t) src)))"
  using assms copy_loop_map [of "min n (length src)" 0 src "sb_to_wc t" "sb_uni t" dst]
  by (auto simp: mbstowcs_sbcs_def wide_result_def Let_def min_def take_map)

declare get_length_mb_dbcs.simps(2) [simp del] mbstowcs_dbcs_loop.simps(2) [simp del]

lemma get_length_mb_dbcs_decode:
  assumes "db_ok t"
  shows "get_length_mb_dbcs t len src = Inr (len + length (fst (db_decode t src)))"
proof (induction "length src" arbitrary: len src rule: less_induct)
  case less
  show ?case
  proof (cases src)
    case (Cons ch rest)
    with less assms show ?thesis
      by (cases rest; cases "db_off t ch = 0")
        (auto simp: get_length_mb_dbcs.simps(2) [of t len ch] db_decode.simps(2) [of t ch] db_off_def unat_eq_0)
  qed simp
qed

lemma wide_result_range: "wide_result n d = -1 \<or> 0 \<le> wide_result n d"
  by (simp add: wide_result_def)

lemma wide_result_Cons:
  "0 < n \<Longrightarrow> wide_result n (apfst (Cons x) d) = (if wide_result (n - 1) d = -1 then -1 else wide_result (n - 1) d + 1)"
  by (cases d) (auto simp: wide_result_def)

lemma mbstowcs_dbcs_loop_decode:
  assumes "db_ok t" "len \<le> dstlen" "p + len \<le> length dst"
  shows "mbstowcs_dbcs_loop t src dstlen len p dst =
    Inr (if wide_result len (db_decode t src) = -1 then -1 else int (dstlen - len) + wide_result len (db_decode t src),
      overwrite dst p (take len (fst (db_decode t src))))"
  using assms(2,3)
proof (induction "length src" arbitrary: src len p dst rule: less_induct)
  case less
  show ?case
  proof (cases src)
    case Nil
    with less.prems show ?thesis by (auto simp: wide_result_def of_nat_diff)
  next
    case (Cons ch rest)
    show ?thesis
    proof (cases "len = 0")
      case True
      with Cons db_decode_empty [of t src] show ?thesis
        by (cases "db_decode t src") (auto simp: mbstowcs_dbcs_loop.simps(2) wide_result_def)
    next
      case False
      from assms(1) show ?thesis
      proof (cases rule: db_decode_cases [of t ch rest])
        case 1
        with False Cons less.prems show ?thesis by (simp add: mbstowcs_dbcs_loop.simps(2) wide_result_def)
      next
        case (2 wch s)
        let ?d = "db_decode t s"
        have "mbstowcs_dbcs_loop t s dstlen (len - 1) (p + 1) (overwrite dst p [wch]) =
            Inr (if wide_result (len - 1) ?d = -1 then -1 else int (dstlen - (len - 1)) + wide_result (len - 1) ?d,
              overwrite (overwrite dst p [wch]) (p + 1) (take (len - 1) (fst ?d)))"
          using less.prems False Cons 2(2) by (intro less.hyps) (auto simp: length_overwrite)
        also have "overwrite (overwrite dst p [wch]) (p + 1) (take (len - 1) (fst ?d)) =
            overwrite dst p (wch # take (len - 1) (fst ?d))"
          using less.prems False overwrite_append [of p "[wch]" "take (len - 1) (fst ?d)" dst] by simp
        finally show ?thesis
          using False Cons less.prems 2 wide_result_range [of "len - 1" ?d]
          by (auto simp: mbstowcs_dbcs_loop.simps(2) wide_result_Cons put_overwrite take_Cons' of_nat_diff)
      qed
    qed
  qed
qed

subsection \<open>With decomposition\<close>

definition wide_parts :: "ushort list \<Rightarrow> ushort list \<Rightarrow> ushort list" where
  "wide_parts tab ws = concat (map (\<lambda>w. the (decomposition tab 4 w)) ws)"

lemma wide_parts_simps [simp]:
  "wide_parts tab [] = []" "wide_parts tab (w # ws) = the (decomposition tab 4 w) @ wide_parts tab ws"
  by (simp_all add: wide_parts_def)

definition decomposable :: "ushort list \<Rightarrow> ushort list \<Rightarrow> bool" where
  "decomposable tab ws \<longleftrightarrow> (\<forall>w \<in> set ws. decomposition tab 4 w \<noteq> None)"

lemma decomposable_simps [simp]:
  "decomposable tab []" "decomposable tab (w # ws) \<longleftrightarrow> decomposition tab 4 w \<noteq> None \<and> decomposable tab ws"
  by (auto simp: decomposable_def)

text \<open>The result of writing the parts of \<open>d\<close> from \<open>p\<close> on, where \<open>len\<close> characters are left.\<close>

definition parts_written ::
  "ushort list \<Rightarrow> ushort list \<times> bool \<Rightarrow> nat \<Rightarrow> nat \<Rightarrow> nat \<Rightarrow> ushort list \<Rightarrow> (int \<times> ushort list) res \<Rightarrow> bool"
where
  "parts_written tab d dstlen len p dst r \<longleftrightarrow>
     (let out = wide_parts tab (fst d) in
      if length out < len \<or> length out = len \<and> \<not> snd d then
        r = Inr (int (dstlen - len) + int (length out), overwrite dst p out)
      else \<exists>dst'. r = Inr (-1, dst') \<and> length dst' = length dst \<and> take p dst' = take p dst \<and>
        drop (p + len) dst' = drop (p + len) dst)"

lemma parts_written_Cons:
  assumes "decompose_ok tab" "decomposition tab 4 w = Some cs" "p + len \<le> length dst" "0 < len" "len \<le> dstlen"
    "\<And>dst'. length dst' = length dst \<Longrightarrow> length cs \<le> len \<Longrightarrow>
       parts_written tab d dstlen (len - length cs) (p + length cs) dst' (K (len - length cs) (p + length cs) dst')"
  shows "parts_written tab (apfst (Cons w) d) dstlen len p dst
    (bind_res (get_decomposition tab w dst p len) (\<lambda>(n, dst). if n = 0 then Inr (-1, dst) else K (len - n) (p + n) dst))"
proof (cases "length cs \<le> len")
  case True
  let ?dst = "overwrite dst p cs"
  let ?n = "len - length cs" and ?p = "p + length cs" and ?out = "wide_parts tab (fst d)"
  have cs: "cs \<noteq> []" using decomposition_length [OF assms(2)] by simp
  have len: "length ?dst = length dst" using True assms(3) by (simp add: length_overwrite)
  have step: "bind_res (get_decomposition tab w dst p len)
      (\<lambda>(n, dst). if n = 0 then Inr (-1, dst) else K (len - n) (p + n) dst) = K ?n ?p ?dst"
    using get_decomposition_step [OF assms(1-4)] True cs by simp
  have out: "wide_parts tab (fst (apfst (Cons w) d)) = cs @ ?out" by (cases d) (simp add: assms(2))
  have K: "parts_written tab d dstlen ?n ?p ?dst (K ?n ?p ?dst)" using assms(6) len True by simp
  show ?thesis
  proof (cases "length ?out < ?n \<or> length ?out = ?n \<and> \<not> snd d")
    case fit: True
    then have "overwrite ?dst ?p ?out = overwrite dst p (cs @ ?out)"
      using assms(3) True by (intro overwrite_append) auto
    moreover have "length (cs @ ?out) < len \<or> length (cs @ ?out) = len \<and> \<not> snd (apfst (Cons w) d)"
      using fit True by auto
    ultimately show ?thesis
      using K fit True assms(5) unfolding parts_written_def Let_def step out by (simp add: of_nat_diff)
  next
    case over: False
    with K obtain dst' where dst': "K ?n ?p ?dst = Inr (-1, dst')" "length dst' = length ?dst" "take ?p dst' = take ?p ?dst"
        "drop (?p + ?n) dst' = drop (?p + ?n) ?dst"
      unfolding parts_written_def Let_def by (auto split: if_splits)
    have "take p dst' = take p dst" using arg_cong [OF dst'(3), of "take p"] True assms(3) by (simp add: overwrite_def)
    moreover have "drop (p + len) dst' = drop (p + len) dst"
      using dst'(4) True assms(3) by (simp add: overwrite_def add.commute)
    moreover have "\<not> (length (cs @ ?out) < len \<or> length (cs @ ?out) = len \<and> \<not> snd (apfst (Cons w) d))"
      using over True by auto
    ultimately show ?thesis
      using dst'(1,2) len unfolding parts_written_def Let_def step out by simp
  qed
next
  case False
  with get_decomposition_step [OF assms(1-4)] obtain x where
    "get_decomposition tab w dst p len = Inr (0, dst[p := x])" by auto
  with False assms show ?thesis by (cases d) (simp add: parts_written_def)
qed

lemma sbcs_decompose_loop_parts:
  assumes "decompose_ok (unicode_decompose_table ut)" "sb_ok t"
    "decomposable (unicode_decompose_table ut) (map (sb_uni t) src)" "len \<le> dstlen" "p + len \<le> length dst"
  shows "parts_written (unicode_decompose_table ut) (map (sb_uni t) src, False) dstlen len p dst
    (sbcs_decompose_loop ut t src dstlen len p dst)"
  using assms(3-5)
proof (induction src arbitrary: len p dst)
  case Nil
  then show ?case by (simp add: parts_written_def of_nat_diff)
next
  case (Cons ch src)
  let ?tab = "unicode_decompose_table ut"
  from Cons.prems obtain cs where cs: "decomposition ?tab 4 (sb_uni t ch) = Some cs" by auto
  have "cs \<noteq> []" using decomposition_length [OF cs] by simp
  show ?case
  proof (cases "len = 0")
    case True
    with \<open>cs \<noteq> []\<close> cs show ?thesis by (simp add: parts_written_def)
  next
    case False
    with parts_written_Cons [OF assms(1) cs, of p len dst dstlen "(map (sb_uni t) src, False)" "sbcs_decompose_loop ut t src dstlen"]
      Cons assms(2)
    show ?thesis by auto
  qed
qed

declare dbcs_decompose_loop.simps(2) [simp del] dbcs_decomposed_length.simps(2) [simp del]

lemma dbcs_decompose_loop_parts:
  assumes "decompose_ok (unicode_decompose_table ut)" "db_ok t"
    "decomposable (unicode_decompose_table ut) (fst (db_decode t src))" "len \<le> dstlen" "p + len \<le> length dst"
  shows "parts_written (unicode_decompose_table ut) (db_decode t src) dstlen len p dst
    (dbcs_decompose_loop ut t src dstlen len p dst)"
  using assms(3-5)
proof (induction "length src" arbitrary: src len p dst rule: less_induct)
  case less
  let ?tab = "unicode_decompose_table ut"
  show ?case
  proof (cases src)
    case Nil
    with less.prems show ?thesis by (simp add: parts_written_def of_nat_diff)
  next
    case (Cons ch rest)
    from assms(2) show ?thesis
    proof (cases rule: db_decode_cases [of t ch rest])
      case 1
      with Cons less.prems show ?thesis by (simp add: dbcs_decompose_loop.simps(2) parts_written_def of_nat_diff)
    next
      case (2 wch s)
      with Cons less.prems obtain cs where cs: "decomposition ?tab 4 wch = Some cs" by (cases "db_decode t s") auto
      have "cs \<noteq> []" using decomposition_length [OF cs] by simp
      show ?thesis
      proof (cases "len = 0")
        case True
        with 2 Cons \<open>cs \<noteq> []\<close> cs show ?thesis
          by (cases "db_decode t s") (simp add: parts_written_def dbcs_decompose_loop.simps(2))
      next
        case False
        have "parts_written ?tab (db_decode t s) dstlen (len - length cs) (p + length cs) dst'
            (dbcs_decompose_loop ut t s dstlen (len - length cs) (p + length cs) dst')"
          if "length dst' = length dst" "length cs \<le> len" for dst'
          using less.prems 2 Cons that by (intro less.hyps) (cases "db_decode t s", auto)+
        with parts_written_Cons [OF assms(1) cs, of p len dst dstlen "db_decode t s" "dbcs_decompose_loop ut t s dstlen"]
          False Cons less.prems 2
        show ?thesis by (simp add: dbcs_decompose_loop.simps(2))
      qed
    qed
  qed
qed

lemma sbcs_decomposed_length_parts:
  assumes "decompose_ok (unicode_decompose_table ut)" "sb_ok t" "decomposable (unicode_decompose_table ut) (map (sb_uni t) src)"
  shows "sbcs_decomposed_length ut t len src =
    Inr (len + length (wide_parts (unicode_decompose_table ut) (map (sb_uni t) src)))"
  using assms by (induction src arbitrary: len) (auto simp: decomposed_length_parts)

lemma dbcs_decomposed_length_parts:
  assumes "decompose_ok (unicode_decompose_table ut)" "db_ok t" "decomposable (unicode_decompose_table ut) (fst (db_decode t src))"
  shows "dbcs_decomposed_length ut t len src =
    Inr (len + length (wide_parts (unicode_decompose_table ut) (fst (db_decode t src))))"
  using assms(3)
proof (induction "length src" arbitrary: src len rule: less_induct)
  case less
  show ?case
  proof (cases src)
    case (Cons ch rest)
    from assms(2) show ?thesis
    proof (cases rule: db_decode_cases [of t ch rest])
      case 1
      with Cons show ?thesis by (simp add: dbcs_decomposed_length.simps(2))
    next
      case (2 wch s)
      with Cons less.prems obtain cs where cs: "decomposition (unicode_decompose_table ut) 4 wch = Some cs"
        "decomposable (unicode_decompose_table ut) (fst (db_decode t s))" by (cases "db_decode t s") auto
      with less.hyps [of s "len + length cs"] 2 Cons assms(1) show ?thesis
        by (cases "db_decode t s") (simp add: dbcs_decomposed_length.simps(2) decomposed_length_parts)
    qed
  qed simp
qed

subsection \<open>Invalid characters\<close>

text \<open>The codes of the characters of a source, and whether one of them has no character of its own.\<close>

fun db_codes :: "dbcs_table \<Rightarrow> uchar list \<Rightarrow> ushort list" where
  "db_codes t [] = []"
| "db_codes t (ch # src) =
     (if db_off t ch = 0 then ucast ch # db_codes t src
      else (case src of [] \<Rightarrow> [] | trail # src \<Rightarrow> (push_bit 8 (ucast ch) OR ucast trail) # db_codes t src))"

declare db_codes.simps(2) [simp del] check_invalid_chars_dbcs.simps(2) [simp del]

fun cp_codes :: "cptable \<Rightarrow> uchar list \<Rightarrow> ushort list" where
  "cp_codes (Sbcs t) src = map ucast src"
| "cp_codes (Dbcs t) src = db_codes t src"

fun info_of :: "cptable \<Rightarrow> cp_info" where
  "info_of (Sbcs t) = sb_info t"
| "info_of (Dbcs t) = db_info t"

definition cp_invalid :: "cptable \<Rightarrow> uchar list \<Rightarrow> bool" where
  "cp_invalid table src \<longleftrightarrow> snd (cp_decode table src) \<or>
     (\<exists>(code, wch) \<in> set (zip (cp_codes table src) (fst (cp_decode table src))).
        wch = def_unicode_char (info_of table) \<and> code \<noteq> def_char (info_of table))"

lemma check_invalid_chars_sbcs_iff:
  assumes "sb_ok t"
  shows "\<exists>n. check_invalid_chars_sbcs t src = Inr n \<and> (n \<noteq> 0 \<longleftrightarrow> cp_invalid (Sbcs t) src)"
  using assms by (induction src) (auto simp: cp_invalid_def)

lemma two_byte_code:
  "(push_bit 8 (ucast ch) OR ucast trail :: ulong) = ucast d \<longleftrightarrow> (push_bit 8 (ucast ch) OR ucast trail :: ushort) = d"
  for ch trail :: uchar
proof -
  have "(push_bit 8 (ucast ch) OR ucast trail :: ulong) = ucast (push_bit 8 (ucast ch) OR ucast trail :: ushort)"
    by (rule bit_word_eqI) (auto simp: bit_simps dest: bit_imp_le_length)
  moreover have "unat (ucast x :: ulong) = unat x" for x :: ushort
    using unsigned_less [of x, where 'a = nat] by (simp add: unsigned_ucast_eq take_bit_nat_eq_self)
  then have "(ucast x :: ulong) = ucast y \<longleftrightarrow> x = y" for x y :: ushort by (simp add: word_unat_eq_iff)
  ultimately show ?thesis by simp
qed

lemma cp_invalid_dbcs:
  "cp_invalid (Dbcs t) []  \<longleftrightarrow> False"
  "db_off t ch = 0 \<Longrightarrow> cp_invalid (Dbcs t) (ch # src) \<longleftrightarrow>
     db_cp2uni t ! unat ch = def_unicode_char (db_info t) \<and> ucast ch \<noteq> def_char (db_info t) \<or> cp_invalid (Dbcs t) src"
  "db_off t ch \<noteq> 0 \<Longrightarrow> cp_invalid (Dbcs t) [ch]"
  "db_off t ch \<noteq> 0 \<Longrightarrow> cp_invalid (Dbcs t) (ch # trail # src) \<longleftrightarrow>
     db_cp2uni t ! (db_off t ch * 256 + unat trail) = def_unicode_char (db_info t) \<and>
       push_bit 8 (ucast ch) OR ucast trail \<noteq> def_char (db_info t) \<or> cp_invalid (Dbcs t) src"
  by (cases "db_decode t src"; auto simp: cp_invalid_def db_decode.simps(2) [of t ch] db_codes.simps(2) [of t ch])+

lemma check_invalid_chars_dbcs_iff:
  assumes "db_ok t"
  shows "\<exists>n. check_invalid_chars_dbcs t src = Inr n \<and> (n \<noteq> 0 \<longleftrightarrow> cp_invalid (Dbcs t) src)"
proof (induction "length src" arbitrary: src rule: less_induct)
  case less
  show ?case
  proof (cases src)
    case (Cons ch rest)
    note step = check_invalid_chars_dbcs.simps(2) [of t ch] db_lookups [OF assms, folded db_off_def] db_off_def [symmetric] two_byte_code
    have IH: "\<exists>n. check_invalid_chars_dbcs t s = Inr n \<and> (n \<noteq> 0 \<longleftrightarrow> cp_invalid (Dbcs t) s)" if "length s \<le> length rest" for s
      using less that Cons by simp
    consider "db_off t ch = 0" | "db_off t ch \<noteq> 0" "rest = []" | trail s where "db_off t ch \<noteq> 0" "rest = trail # s"
      by (cases rest) auto
    then show ?thesis
    proof cases
      case 1
      moreover from this have "db_cp2uni_leadbytes t ! unat ch = 0" by (simp add: db_off_def unat_eq_0)
      ultimately show ?thesis using IH [of rest] Cons by (auto simp: step cp_invalid_dbcs)
    next
      case 2
      moreover from this have "db_cp2uni_leadbytes t ! unat ch \<noteq> 0" by (simp add: db_off_def unat_eq_0)
      ultimately show ?thesis using Cons by (simp add: step cp_invalid_dbcs)
    next
      case (3 trail s)
      moreover from this have "db_cp2uni_leadbytes t ! unat ch \<noteq> 0" by (simp add: db_off_def unat_eq_0)
      ultimately show ?thesis using IH [of s] Cons by (auto simp: step cp_invalid_dbcs)
    qed
  qed (simp add: cp_invalid_dbcs)
qed

lemma cp_check_invalid:
  assumes "cp_ok table"
  shows "cp_mbstowcs ut table flags (Some src) dst n =
    (if flags AND MB_ERR_INVALID_CHARS \<noteq> 0 \<and> cp_invalid table src then Inr (-2, dst)
     else
       (case table of
          Sbcs t \<Rightarrow>
            if flags AND MB_COMPOSITE = 0 then
              if n = 0 then Inr (int (length src), dst) else mbstowcs_sbcs t src dst n
            else mbstowcs_sbcs_decompose ut t src dst n
        | Dbcs t \<Rightarrow>
            if flags AND MB_COMPOSITE = 0 then mbstowcs_dbcs t src dst n else mbstowcs_dbcs_decompose ut t src dst n))"
proof (cases table)
  case (Sbcs t)
  with assms check_invalid_chars_sbcs_iff [of t src] show ?thesis by (auto simp: cp_mbstowcs_def)
next
  case (Dbcs t)
  with assms check_invalid_chars_dbcs_iff [of t src] show ?thesis by (auto simp: cp_mbstowcs_def)
qed

lemma cp_mbstowcs_plain:
  assumes "cp_ok table" "flags AND MB_COMPOSITE = 0" "n \<le> length dst"
  shows "cp_mbstowcs ut table flags (Some src) dst n =
    (if flags AND MB_ERR_INVALID_CHARS \<noteq> 0 \<and> cp_invalid table src then Inr (-2, dst)
     else if n = 0 then Inr (int (length (fst (cp_decode table src))), dst)
     else Inr (wide_result n (cp_decode table src), overwrite dst 0 (take n (fst (cp_decode table src)))))"
proof (cases table)
  case (Sbcs t)
  with assms show ?thesis unfolding cp_check_invalid [OF assms(1)] by (simp add: mbstowcs_sbcs_decode)
next
  case (Dbcs t)
  with assms wide_result_range [of n "db_decode t src"] show ?thesis
    unfolding cp_check_invalid [OF assms(1)]
    by (auto simp: mbstowcs_dbcs_def get_length_mb_dbcs_decode mbstowcs_dbcs_loop_decode)
qed

lemma cp_mbstowcs_decomposed:
  assumes "cp_ok table" "decompose_ok (unicode_decompose_table ut)"
    "decomposable (unicode_decompose_table ut) (fst (cp_decode table src))" "n \<le> length dst"
  shows "if n = 0 then
      cp_mbstowcs ut table MB_COMPOSITE (Some src) dst n =
        Inr (int (length (wide_parts (unicode_decompose_table ut) (fst (cp_decode table src)))), dst)
    else parts_written (unicode_decompose_table ut) (cp_decode table src) n n 0 dst
      (cp_mbstowcs ut table MB_COMPOSITE (Some src) dst n)"
proof -
  have flags: "MB_COMPOSITE AND MB_ERR_INVALID_CHARS = 0" "MB_COMPOSITE AND MB_COMPOSITE \<noteq> 0"
    by (simp_all add: MB_COMPOSITE_def MB_ERR_INVALID_CHARS_def)
  show ?thesis
  proof (cases table)
    case (Sbcs t)
    with assms flags sbcs_decompose_loop_parts [of ut t src n n 0 dst] show ?thesis
      by (simp add: cp_check_invalid mbstowcs_sbcs_decompose_def sbcs_decomposed_length_parts)
  next
    case (Dbcs t)
    with assms flags dbcs_decompose_loop_parts [of ut t src n n 0 dst] show ?thesis
      by (simp add: cp_check_invalid mbstowcs_dbcs_decompose_def dbcs_decomposed_length_parts)
  qed
qed

end
