(* ===== verification/WcToMbProps.thy ===== *)
theory WcToMbProps
  imports WcToMb CodePageProps
begin

text \<open>
  The conversions of \<open>WcToMb\<close>: the search for compositions is a lookup in a list of pairs, and both the
  conversions and the length queries put out the codes of the source one by one.
\<close>

section \<open>Compositions\<close>

lemma lookup_int_even: "lookup_int tab (2 * int i) = lookup tab (2 * i)"
  by (simp add: lookup_int_def nat_mult_distrib)

lemma lookup_int_odd: "lookup_int tab (2 * int i + 1) = lookup tab (2 * i + 1)" "lookup_int tab (2 * int i + 3) = lookup tab (2 * i + 3)"
  by (simp_all add: lookup_int_def nat_add_distrib nat_mult_distrib)

text \<open>The search between \<open>low\<close> and \<open>high\<close> (exclusive) finds the place of the character if it has one.\<close>

definition found_at :: "ushort list \<Rightarrow> ushort \<Rightarrow> nat \<Rightarrow> nat \<Rightarrow> int res \<Rightarrow> bool" where
  "found_at tab ch low high r \<longleftrightarrow>
     (\<exists>i. low \<le> i \<and> i < high \<and> tab ! (2 * i) = ch \<and> r = Inr (int i)) \<or>
     (\<forall>i. low \<le> i \<longrightarrow> i < high \<longrightarrow> tab ! (2 * i) \<noteq> ch) \<and> r = Inr (-1)"

lemma binary_search_finds:
  assumes "low \<le> high" "low < high \<Longrightarrow> 2 * high \<le> length tab + 1"
    "\<And>i j. low \<le> i \<Longrightarrow> i < j \<Longrightarrow> j < high \<Longrightarrow> tab ! (2 * i) < tab ! (2 * j)"
  shows "found_at tab ch low high (binary_search tab ch (int low) (int high - 1))"
  using assms
proof (induction "high - low" arbitrary: low high rule: less_induct)
  case less
  show ?case
  proof (cases "low = high")
    case True
    then show ?thesis by (simp add: binary_search.simps found_at_def)
  next
    case False
    define m where "m = (low + high - 1) div 2"
    have m: "low \<le> m" "m < high" "2 * m < length tab" using False less.prems(1,2) by (auto simp: m_def)
    have pos: "(int low + (int high - 1)) div 2 = int m" using False less.prems(1) by (simp add: m_def zdiv_int)
    let ?e = "tab ! (2 * m)"
    have step: "binary_search tab ch (int low) (int high - 1) =
        (if ?e < ch then binary_search tab ch (int m + 1) (int high - 1)
         else if ch < ?e then binary_search tab ch (int low) (int m - 1) else Inr (int m))"
      using m False less.prems(1) by (subst binary_search.simps) (simp add: pos Let_def lookup_int_even)
    consider "?e = ch" | "?e < ch" | "ch < ?e" by (rule linorder_cases)
    then show ?thesis
    proof cases
      case 1
      with m show ?thesis by (auto simp: step found_at_def)
    next
      case 2
      have "tab ! (2 * i) \<noteq> ch" if "low \<le> i" "i \<le> m" for i
        using that 2 m less.prems(3) [of i m] by (cases "i = m") auto
      moreover have "found_at tab ch (Suc m) high (binary_search tab ch (int (Suc m)) (int high - 1))"
        using m less.prems by (intro less.hyps) auto
      ultimately show ?thesis
        using 2 m by (auto simp: step found_at_def not_le Suc_le_eq add.commute dest: leI)
    next
      case 3
      have "tab ! (2 * i) \<noteq> ch" if "m \<le> i" "i < high" for i
        using that 3 m less.prems(3) [of m i] by (cases "i = m") auto
      moreover have "found_at tab ch low m (binary_search tab ch (int low) (int m - 1))"
        using m less.prems by (intro less.hyps) auto
      ultimately show ?thesis
        using 3 m by (auto simp: step found_at_def not_less dest: leI)
    qed
  qed
qed

text \<open>The entries with an index from \<open>low\<close> on, and the pairs of the table with their compositions.\<close>

definition search_keys :: "ushort list \<Rightarrow> nat \<Rightarrow> nat \<Rightarrow> ushort list" where
  "search_keys tab low high = map (\<lambda>i. tab ! (2 * i)) [low..<high]"

definition compose_low :: "unicode_tables \<Rightarrow> nat \<Rightarrow> nat" where
  "compose_low ut pos = unat (unicode_compose_table ut ! (2 * pos + 1))"

definition compose_high :: "unicode_tables \<Rightarrow> nat \<Rightarrow> nat" where
  "compose_high ut pos = unat (unicode_compose_table ut ! (2 * pos + 3))"

definition compose_ok :: "unicode_tables \<Rightarrow> bool" where
  "compose_ok ut \<longleftrightarrow>
     (let tab = unicode_compose_table ut; size = unicode_compose_table_size ut in
      2 * size + 1 < length tab \<and> sorted_wrt (<) (search_keys tab 0 size) \<and>
      (\<forall>pos \<in> set [0..<size].
         compose_low ut pos \<le> compose_high ut pos \<and> 2 * compose_high ut pos \<le> length tab \<and>
         sorted_wrt (<) (search_keys tab (compose_low ut pos) (compose_high ut pos))))"

definition compositions :: "unicode_tables \<Rightarrow> ((ushort \<times> ushort) \<times> ushort) list" where
  "compositions ut =
     (let tab = unicode_compose_table ut in
      [((tab ! (2 * i), tab ! (2 * pos)), tab ! (2 * i + 1)).
         pos \<leftarrow> [0..<unicode_compose_table_size ut], i \<leftarrow> [compose_low ut pos..<compose_high ut pos]])"

lemma search_keys_less:
  assumes "sorted_wrt (<) (search_keys tab low high)" "low \<le> i" "i < j" "j < high"
  shows "tab ! (2 * i) < tab ! (2 * j)"
proof -
  have nth: "search_keys tab low high ! (k - low) = tab ! (2 * k)" if "low \<le> k" "k < high" for k
    using that by (simp add: search_keys_def diff_less_mono)
  have "search_keys tab low high ! (i - low) < search_keys tab low high ! (j - low)"
    using assms by (intro sorted_wrt_nth_less [OF assms(1)]) (auto simp: search_keys_def)
  then show ?thesis using nth [of i] nth [of j] assms(2-4) by simp
qed

lemma search_keys_place:
  assumes "sorted_wrt (<) (search_keys tab low high)" "low \<le> i" "i < high" "low \<le> j" "j < high" "tab ! (2 * i) = tab ! (2 * j)"
  shows "i = j"
  using search_keys_less [OF assms(1), of i j] search_keys_less [OF assms(1), of j i] assms(2-6)
  by (cases i j rule: linorder_cases) auto

lemma set_compositions:
  "((a, b), c) \<in> set (compositions ut) \<longleftrightarrow>
     (\<exists>pos i. pos < unicode_compose_table_size ut \<and> compose_low ut pos \<le> i \<and> i < compose_high ut pos \<and>
        a = unicode_compose_table ut ! (2 * i) \<and> b = unicode_compose_table ut ! (2 * pos) \<and>
        c = unicode_compose_table ut ! (2 * i + 1))"
  unfolding compositions_def Let_def by (rule iffI) (clarsimp, blast, force)

lemma compose_okD:
  assumes "compose_ok ut"
  shows "2 * unicode_compose_table_size ut + 1 < length (unicode_compose_table ut)"
    "sorted_wrt (<) (search_keys (unicode_compose_table ut) 0 (unicode_compose_table_size ut))"
    "pos < unicode_compose_table_size ut \<Longrightarrow> compose_low ut pos \<le> compose_high ut pos"
    "pos < unicode_compose_table_size ut \<Longrightarrow> 2 * compose_high ut pos \<le> length (unicode_compose_table ut)"
    "pos < unicode_compose_table_size ut \<Longrightarrow>
       sorted_wrt (<) (search_keys (unicode_compose_table ut) (compose_low ut pos) (compose_high ut pos))"
  using assms by (auto simp: compose_ok_def Let_def)

lemma compose_finds:
  assumes "compose_ok ut"
  shows "compose ut first second = Inr (case map_of (compositions ut) (first, second) of None \<Rightarrow> 0 | Some c \<Rightarrow> c)"
proof -
  let ?tab = "unicode_compose_table ut" and ?size = "unicode_compose_table_size ut"
  note ok = compose_okD [OF assms]
  have same: "pos = pos' \<and> i = i'" if "pos < ?size" "pos' < ?size" "?tab ! (2 * pos) = ?tab ! (2 * pos')"
    "compose_low ut pos \<le> i" "i < compose_high ut pos" "compose_low ut pos' \<le> i'" "i' < compose_high ut pos'"
    "?tab ! (2 * i) = ?tab ! (2 * i')" for pos pos' i i'
    using search_keys_place [OF ok(2), of pos pos'] search_keys_place [OF ok(5) [OF that(1)], of i i'] that by auto
  have some: "map_of (compositions ut) (first, second) = Some (?tab ! (2 * i + 1))"
    if "pos < ?size" "?tab ! (2 * pos) = second" "compose_low ut pos \<le> i" "i < compose_high ut pos" "?tab ! (2 * i) = first"
    for pos i
  proof -
    have "((first, second), ?tab ! (2 * i + 1)) \<in> set (compositions ut)" using that by (auto simp: set_compositions)
    then obtain c where c: "map_of (compositions ut) (first, second) = Some c" by (meson weak_map_of_SomeI)
    then have "((first, second), c) \<in> set (compositions ut)" by (rule map_of_SomeD)
    then show ?thesis using same that c by (auto simp: set_compositions)
  qed
  have "found_at ?tab second 0 ?size (binary_search ?tab second 0 (int ?size - 1))"
    using binary_search_finds [of 0 ?size ?tab second] ok(1) search_keys_less [OF ok(2)] by simp
  then consider pos where "pos < ?size" "?tab ! (2 * pos) = second" "binary_search ?tab second 0 (int ?size - 1) = Inr (int pos)"
    | "\<forall>pos < ?size. ?tab ! (2 * pos) \<noteq> second" "binary_search ?tab second 0 (int ?size - 1) = Inr (-1)"
    by (auto simp: found_at_def)
  then show ?thesis
  proof cases
    case (1 pos)
    let ?low = "compose_low ut pos" and ?high = "compose_high ut pos"
    have "compose ut first second = bind_res (binary_search ?tab first (int ?low) (int ?high - 1)) (\<lambda>pos.
        if pos = -1 then Inr 0 else lookup_int ?tab (2 * pos + 1))"
      using 1 ok(1) by (simp add: compose_def Let_def lookup_int_odd compose_low_def compose_high_def)
    moreover have "found_at ?tab first ?low ?high (binary_search ?tab first (int ?low) (int ?high - 1))"
      using ok(3,4) [OF 1(1)] search_keys_less [OF ok(5) [OF 1(1)]] by (intro binary_search_finds) auto
    moreover have "map_of (compositions ut) (first, second) = None"
      if none: "\<forall>i. ?low \<le> i \<longrightarrow> i < ?high \<longrightarrow> ?tab ! (2 * i) \<noteq> first"
    proof -
      have "((first, second), c) \<notin> set (compositions ut)" for c
      proof
        assume "((first, second), c) \<in> set (compositions ut)"
        then obtain pos' i where "pos' < ?size" "compose_low ut pos' \<le> i" "i < compose_high ut pos'"
          "first = ?tab ! (2 * i)" "second = ?tab ! (2 * pos')" unfolding set_compositions by blast
        moreover from this have "pos' = pos" using search_keys_place [OF ok(2), of pos' pos] 1(1,2) by simp
        ultimately show False using none by auto
      qed
      then show ?thesis by (force simp: map_of_eq_None_iff)
    qed
    ultimately show ?thesis using 1(1,2) ok(4) [OF 1(1)] some [OF 1(1,2)] by (auto simp: found_at_def lookup_int_odd)
  next
    case 2
    then have "map_of (compositions ut) (first, second) = None"
      by (auto simp: map_of_eq_None_iff set_compositions image_iff)
    with 2 show ?thesis by (simp add: compose_def Let_def)
  qed
qed

section \<open>The codes of a source\<close>

definition sb_code :: "sbcs_table \<Rightarrow> ushort \<Rightarrow> uchar" where
  "sb_code t wch = sb_uni2cp_low t ! (unat (sb_uni2cp_high t ! unat (drop_bit 8 wch)) + unat (wch AND 0xff))"

definition db_code :: "dbcs_table \<Rightarrow> ushort \<Rightarrow> ushort" where
  "db_code t wch = db_uni2cp_low t ! (unat (db_uni2cp_high t ! unat (drop_bit 8 wch)) + unat (wch AND 0xff))"

lemma uni2cp_index:
  assumes "length high = 256" "\<forall>h \<in> set high. unat h + 256 \<le> length low"
  shows "unat (high ! unat (drop_bit 8 (wch :: ushort)) :: ushort) + unat (wch AND 0xff) < length (low :: 'a list)"
proof -
  have "high ! unat (drop_bit 8 wch) \<in> set high" using assms(1) unat_drop_8 [of wch] by simp
  with assms(2) have "unat (high ! unat (drop_bit 8 wch)) + 256 \<le> length low" by blast
  then show ?thesis by (simp add: unat_and_ff)
qed

lemma sb_from_wc_ok: "sb_ok t \<Longrightarrow> sb_from_wc t wch = Inr (sb_code t wch)"
  using uni2cp_index [of "sb_uni2cp_high t" "sb_uni2cp_low t" wch] unat_drop_8 [of wch]
  by (simp add: sb_from_wc_def sb_code_def sb_ok_def)

lemma db_from_wc_ok: "db_ok t \<Longrightarrow> db_from_wc t wch = Inr (db_code t wch)"
  using uni2cp_index [of "db_uni2cp_high t" "db_uni2cp_low t" wch] unat_drop_8 [of wch]
  by (simp add: db_from_wc_def db_code_def db_ok_def)

definition sb_valid :: "sbcs_table \<Rightarrow> ulong \<Rightarrow> ushort \<Rightarrow> uchar \<Rightarrow> bool" where
  "sb_valid t flags wch ch =
     (if flags AND WC_NO_BEST_FIT_CHARS \<noteq> 0 then sb_uni t ch = wch
      else ch \<noteq> ucast (def_char (sb_info t)) \<or> wch = def_unicode_char (sb_info t))"

text \<open>The character that \<open>is_valid_dbcs_mapping\<close> reads for a code.\<close>

definition db_back :: "dbcs_table \<Rightarrow> ushort \<Rightarrow> ushort" where
  "db_back t ch =
     (if ch AND 0xff00 \<noteq> 0 then db_cp2uni t ! (db_off t (ucast (drop_bit 8 ch)) * 256 + unat (ch AND 0xff))
      else db_cp2uni t ! unat (ch AND 0xff))"

definition db_valid :: "dbcs_table \<Rightarrow> ulong \<Rightarrow> ushort \<Rightarrow> ushort \<Rightarrow> bool" where
  "db_valid t flags wch ch \<longleftrightarrow> \<not> (ch = def_char (db_info t) \<and> wch \<noteq> def_unicode_char (db_info t)) \<and>
     (flags AND WC_NO_BEST_FIT_CHARS \<noteq> 0 \<longrightarrow> db_back t ch = wch)"

lemma is_valid_sbcs_mapping_ok: "sb_ok t \<Longrightarrow> is_valid_sbcs_mapping t flags wch ch = Inr (sb_valid t flags wch ch)"
  using byte_less [of ch] by (simp add: is_valid_sbcs_mapping_def sb_valid_def sb_ok_def sb_uni_def)

lemma unat_high_byte: "unat (ucast (drop_bit 8 ch) :: uchar) = unat (drop_bit 8 (ch :: ushort))"
  using unat_drop_8 [of ch] by (simp add: unsigned_ucast_eq take_bit_nat_eq_self)

lemma unat_low_byte: "unat (ucast ch :: uchar) = unat (ch AND 0xff :: ushort)"
  by (simp add: unat_and_ff unsigned_ucast_eq take_bit_eq_mod)

lemma is_valid_dbcs_mapping_ok: "db_ok t \<Longrightarrow> is_valid_dbcs_mapping t flags wch ch = Inr (db_valid t flags wch ch)"
  using db_lookups(1) [of t "ucast (drop_bit 8 ch)"] db_lookups(2) [of t "ucast ch"]
    db_lookups(3) [of t "ucast (drop_bit 8 ch)" "ucast ch"]
  unfolding is_valid_dbcs_mapping_def db_valid_def db_back_def db_off_def unat_high_byte unat_low_byte [of ch] by auto

text \<open>The codes that the slow conversions put out, with a mark on the default character.\<close>

function slow_codes ::
  "unicode_tables \<Rightarrow> (ushort \<Rightarrow> 'c) \<Rightarrow> (ushort \<Rightarrow> 'c \<Rightarrow> bool) \<Rightarrow> ulong \<Rightarrow> 'c \<Rightarrow> ushort list \<Rightarrow> ('c \<times> bool) list"
where
  "slow_codes ut code valid flags d [] = []"
| "slow_codes ut code valid flags d (wch # src) =
     (case slow_char ut (\<lambda>w. Inr (code w)) (\<lambda>w c. Inr (valid w c)) flags d wch src of
        Inl e \<Rightarrow> []
      | Inr (c, b, rest) \<Rightarrow> (c, b) # slow_codes ut code valid flags d rest)"
  by pat_completeness auto

termination
  by (relation "measure (\<lambda>(ut, code, valid, flags, d, src). length src)") (auto dest: slow_char_shorter)

declare slow_codes.simps(2) [simp del] sbcs_slow_loop.simps(2) [simp del] dbcs_slow_length.simps(2) [simp del]
  dbcs_slow_loop.simps(2) [simp del]

lemma slow_char_total:
  assumes "compose_ok ut"
  obtains c b rest where
    "slow_char ut (\<lambda>w. Inr (code w)) (\<lambda>w c. Inr (valid w c)) flags d wch src = Inr (c, b, rest)" "length rest \<le> length src"
    "slow_codes ut code valid flags d (wch # src) = (c, b) # slow_codes ut code valid flags d rest"
proof -
  obtain x where x: "composed_char ut flags wch src = Inr x"
    using assms by (cases src; cases "flags AND WC_COMPOSITECHECK = 0") (auto simp: composed_char_def compose_finds)
  have "\<exists>y. slow_char ut (\<lambda>w. Inr (code w)) (\<lambda>w c. Inr (valid w c)) flags d wch src = Inr y"
    by (auto simp: slow_char_def x Let_def)
  then obtain c b rest where r: "slow_char ut (\<lambda>w. Inr (code w)) (\<lambda>w c. Inr (valid w c)) flags d wch src = Inr (c, b, rest)"
    by auto
  then show thesis by (intro that [of c b rest] slow_char_shorter [OF r]) (simp_all add: slow_codes.simps(2))
qed

lemma slow_char_sb: "sb_ok t \<Longrightarrow> slow_char ut (sb_from_wc t) (is_valid_sbcs_mapping t flags) flags d wch src =
    slow_char ut (\<lambda>w. Inr (sb_code t w)) (\<lambda>w c. Inr (sb_valid t flags w c)) flags d wch src"
proof -
  assume ok: "sb_ok t"
  then have "sb_from_wc t = (\<lambda>w. Inr (sb_code t w))" "is_valid_sbcs_mapping t flags = (\<lambda>w c. Inr (sb_valid t flags w c))"
    by (simp_all add: fun_eq_iff sb_from_wc_ok is_valid_sbcs_mapping_ok)
  then show ?thesis by simp
qed

lemma slow_char_db: "db_ok t \<Longrightarrow> slow_char ut (db_from_wc t) (is_valid_dbcs_mapping t flags) flags d wch src =
    slow_char ut (\<lambda>w. Inr (db_code t w)) (\<lambda>w c. Inr (db_valid t flags w c)) flags d wch src"
proof -
  assume ok: "db_ok t"
  then have "db_from_wc t = (\<lambda>w. Inr (db_code t w))" "is_valid_dbcs_mapping t flags = (\<lambda>w c. Inr (db_valid t flags w c))"
    by (simp_all add: fun_eq_iff db_from_wc_ok is_valid_dbcs_mapping_ok)
  then show ?thesis by simp
qed

abbreviation sb_slow_codes where
  "sb_slow_codes ut t flags d src \<equiv> slow_codes ut (sb_code t) (sb_valid t flags) flags d src"

abbreviation db_slow_codes where
  "db_slow_codes ut t flags d src \<equiv> slow_codes ut (db_code t) (db_valid t flags) flags d src"

lemma sbcs_slow_loop_codes:
  assumes "compose_ok ut" "sb_ok t" "len \<le> dstlen" "p + len \<le> length dst"
  shows "sbcs_slow_loop ut t flags d src dstlen len p dst used =
    (let cs = sb_slow_codes ut t flags d src in
     Inr (if length cs \<le> len then int (dstlen - len) + int (length cs) else -1, overwrite dst p (take len (map fst cs)),
       used \<or> (\<exists>c \<in> set (take len cs). snd c)))"
  using assms(3,4)
proof (induction "length src" arbitrary: src len p dst used rule: less_induct)
  case less
  show ?case
  proof (cases src)
    case Nil
    with less.prems show ?thesis by (simp add: of_nat_diff)
  next
    case (Cons wch rest)
    from assms(1) obtain c b s where
      s: "slow_char ut (\<lambda>w. Inr (sb_code t w)) (\<lambda>w c. Inr (sb_valid t flags w c)) flags d wch rest = Inr (c, b, s)"
        "length s \<le> length rest" "sb_slow_codes ut t flags d (wch # rest) = (c, b) # sb_slow_codes ut t flags d s"
      by (rule slow_char_total)
    show ?thesis
    proof (cases "len = 0")
      case True
      with Cons s show ?thesis by (simp add: sbcs_slow_loop.simps(2))
    next
      case False
      then obtain l where l: "len = Suc l" by (cases len) auto
      have "overwrite (overwrite dst p [c]) (Suc p) (take l xs) = overwrite dst p (c # take l xs)" for xs
        using less.prems l overwrite_append [of p "[c]" "take l xs" dst] by simp
      moreover note less.hyps [of s l "p + 1" "overwrite dst p [c]" "used \<or> b"]
      ultimately show ?thesis
        using less.prems Cons s l assms(2)
        by (simp add: sbcs_slow_loop.simps(2) slow_char_sb put_overwrite length_overwrite Let_def of_nat_diff disj_assoc)
    qed
  qed
qed

section \<open>Double-byte codes\<close>

definition code_bytes :: "ushort \<Rightarrow> uchar list" where
  "code_bytes c = (if c AND 0xff00 \<noteq> 0 then [ucast (drop_bit 8 c), ucast c] else [ucast c])"

lemma length_code_bytes: "length (code_bytes c) = (if c AND 0xff00 \<noteq> 0 then 2 else 1)"
  by (simp add: code_bytes_def)

lemma put_code_bytes:
  assumes "p + len \<le> length dst" "0 < len"
  shows "put_code dst p len c =
    Inr (if length (code_bytes c) \<le> len
         then Some (p + length (code_bytes c), len - length (code_bytes c), overwrite dst p (code_bytes c)) else None)"
proof -
  have two: "overwrite (overwrite dst p [a]) (Suc p) [b] = overwrite dst p [a, b]" if "len \<noteq> 1" for a b
    using assms that overwrite_append [of p "[a]" "[b]" dst] by simp
  show ?thesis
    using assms by (auto simp: put_code_def code_bytes_def put_overwrite length_overwrite two)
qed

lemma length_fits_full: "\<not> length (concat xs) \<le> n \<Longrightarrow> length (fits n xs) \<le> n"
  by (rule length_fits)

lemma wcstombs_dbcs_loop_codes:
  assumes "db_ok t" "len \<le> dstlen" "p + len \<le> length dst"
  shows "wcstombs_dbcs_loop t src dstlen len p dst =
    (let bytes = map (code_bytes \<circ> db_code t) src; n = length (concat bytes) in
     Inr (if n \<le> len then int (dstlen - len) + int n else -1, overwrite dst p (fits len bytes)))"
  using assms(2,3)
proof (induction src arbitrary: len p dst)
  case Nil
  then show ?case by (simp add: of_nat_diff)
next
  case (Cons wch src)
  let ?b = "code_bytes (db_code t wch)"
  show ?case
  proof (cases "length ?b \<le> len")
    case True
    then have "len \<noteq> 0" by (cases len) (simp_all add: length_code_bytes split: if_splits)
    moreover have "length ?b + n \<le> len \<longleftrightarrow> n \<le> len - length ?b" for n using True by auto
    moreover have "overwrite (overwrite dst p ?b) (p + length ?b) (fits (len - length ?b) xs) =
        overwrite dst p (?b @ fits (len - length ?b) xs)" for xs
      using Cons.prems True length_fits [of "len - length ?b" xs] by (intro overwrite_append) simp
    ultimately show ?thesis
      using Cons.prems True Cons.IH [of "len - length ?b" "p + length ?b" "overwrite dst p ?b"] assms(1)
      by (simp add: db_from_wc_ok put_code_bytes length_overwrite Let_def of_nat_diff) 
  next
    case False
    with Cons.prems assms(1) show ?thesis
      by (cases "len = 0") (simp_all add: db_from_wc_ok put_code_bytes Let_def)
  qed
qed

lemma dbcs_slow_loop_codes:
  assumes "compose_ok ut" "db_ok t" "len \<le> dstlen" "p + len \<le> length dst"
  shows "\<exists>u. dbcs_slow_loop ut t flags d src dstlen len p dst used =
    (let cs = db_slow_codes ut t flags d src; bytes = map (code_bytes \<circ> fst) cs; n = length (concat bytes) in
     Inr (if n \<le> len then int (dstlen - len) + int n else -1, overwrite dst p (fits len bytes),
       if n \<le> len then used \<or> (\<exists>c \<in> set cs. snd c) else u))"
  using assms(3,4)
proof (induction "length src" arbitrary: src len p dst used rule: less_induct)
  case less
  show ?case
  proof (cases src)
    case Nil
    with less.prems show ?thesis by (simp add: of_nat_diff)
  next
    case (Cons wch rest)
    from assms(1) obtain c b s where
      s: "slow_char ut (\<lambda>w. Inr (db_code t w)) (\<lambda>w c. Inr (db_valid t flags w c)) flags d wch rest = Inr (c, b, s)"
        "length s \<le> length rest" "db_slow_codes ut t flags d (wch # rest) = (c, b) # db_slow_codes ut t flags d s"
      by (rule slow_char_total)
    let ?b = "code_bytes c"
    show ?thesis
    proof (cases "length ?b \<le> len")
      case True
      then have "len \<noteq> 0" by (cases len) (simp_all add: length_code_bytes split: if_splits)
    moreover have "length ?b + n \<le> len \<longleftrightarrow> n \<le> len - length ?b" for n using True by auto
      moreover have "overwrite (overwrite dst p ?b) (p + length ?b) (fits (len - length ?b) xs) =
          overwrite dst p (?b @ fits (len - length ?b) xs)" for xs
        using less.prems True length_fits [of "len - length ?b" xs] by (intro overwrite_append) simp
        moreover have "length s < length src" "len - length ?b \<le> dstlen"
          "p + length ?b + (len - length ?b) \<le> length (overwrite dst p ?b)"
        using less.prems True Cons s(2) by (simp_all add: length_overwrite)
      note less.hyps [OF this, of "used \<or> b"]
      ultimately show ?thesis
        using less.prems True Cons s assms(2)
        by (cases "length (concat (map (code_bytes \<circ> fst) (db_slow_codes ut t flags d s))) \<le> len - length ?b")
          (auto simp: dbcs_slow_loop.simps(2) slow_char_db put_code_bytes Let_def of_nat_diff disj_assoc)
    next
      case False
      with less.prems assms(2) Cons s show ?thesis
        by (cases "len = 0") (simp_all add: dbcs_slow_loop.simps(2) slow_char_db put_code_bytes Let_def)
    qed
  qed
qed

lemma dbcs_fast_length_codes:
  "db_ok t \<Longrightarrow> dbcs_fast_length t len src = Inr (len + length (concat (map (code_bytes \<circ> db_code t) src)))"
  by (induction src arbitrary: len) (simp_all add: db_from_wc_ok length_code_bytes)

lemma dbcs_slow_length_codes:
  assumes "compose_ok ut" "db_ok t"
  shows "dbcs_slow_length ut t flags d len src =
    Inr (len + length (concat (map (code_bytes \<circ> fst) (db_slow_codes ut t flags d src))))"
proof (induction "length src" arbitrary: src len rule: less_induct)
  case less
  show ?case
  proof (cases src)
    case (Cons wch rest)
    from assms(1) obtain c b s where
      s: "slow_char ut (\<lambda>w. Inr (db_code t w)) (\<lambda>w c. Inr (db_valid t flags w c)) flags d wch rest = Inr (c, b, s)"
        "length s \<le> length rest" "db_slow_codes ut t flags d (wch # rest) = (c, b) # db_slow_codes ut t flags d s"
      by (rule slow_char_total)
    with less.hyps [of s] Cons assms(2) show ?thesis
      by (simp add: dbcs_slow_length.simps(2) slow_char_db length_code_bytes)
  qed simp
qed

section \<open>The length query of the single-byte code pages\<close>

lemma slow_codes_plain:
  "flags AND WC_COMPOSITECHECK = 0 \<Longrightarrow>
     slow_codes ut code valid flags d src = map (\<lambda>w. if valid w (code w) then (code w, False) else (d, True)) src"
proof (induction src)
  case (Cons wch src)
  then have "composed_char ut flags wch src = Inr 0" by (cases src) (simp_all add: composed_char_def)
  then show ?case using Cons by (simp add: slow_codes.simps(2) slow_char_def Let_def)
qed simp

lemma composite_codes:
  assumes "compose ut first second = Inr x" "flags AND WC_COMPOSITECHECK \<noteq> 0"
  shows "length (slow_codes ut code valid flags d (first # second # src)) =
    (if x = 0 \<or> flags AND (WC_DEFAULTCHAR OR WC_DISCARDNS) = 0 \<and> \<not> valid x (code x)
     then Suc (length (slow_codes ut code valid flags d (second # src)))
     else Suc (length (slow_codes ut code valid flags d src)))"
proof -
  have flags: "flags AND (WC_DEFAULTCHAR OR WC_DISCARDNS) = 0 \<longleftrightarrow> flags AND WC_DEFAULTCHAR = 0 \<and> flags AND WC_DISCARDNS = 0"
    by (simp add: bit.conj_disj_distrib or_eq_0_iff)
  have "composed_char ut flags first (second # src) = Inr x" using assms by (simp add: composed_char_def)
  then show ?thesis by (simp add: slow_codes.simps(2) [of ut code valid flags d first] slow_char_def Let_def flags)
qed

lemma sbcs_length_loop_codes:
  assumes "compose_ok ut" "sb_ok t" "flags AND WC_COMPOSITECHECK \<noteq> 0"
  shows "sbcs_length_loop ut t flags ret src = Inr (ret + length (sb_slow_codes ut t flags d src))"
proof (induction "length src" arbitrary: ret src rule: less_induct)
  case less
  consider "src = []" | ch where "src = [ch]" | first second rest where "src = first # second # rest"
    by (metis list.exhaust)
  then show ?case
  proof cases
    case 2
    then show ?thesis by (simp add: slow_codes.simps(2) slow_char_def composed_char_def Let_def)
  next
    case (3 first second rest)
    obtain x where x: "compose ut first second = Inr x" using assms(1) by (simp add: compose_finds)
    from 3 less.hyps [of "second # rest" "ret + 1"] less.hyps [of rest "ret + 1"] assms show ?thesis
      by (simp add: x composite_codes [OF x assms(3)] sb_from_wc_ok is_valid_sbcs_mapping_ok)
  qed simp
qed

lemma get_length_sbcs_codes:
  assumes "compose_ok ut" "sb_ok t"
  shows "get_length_sbcs ut t flags src = Inr (length (sb_slow_codes ut t flags d src))"
  using assms by (simp add: get_length_sbcs_def sbcs_length_loop_codes [of ut t flags _ _ d] slow_codes_plain)

section \<open>The conversions\<close>

definition defchar_code :: "cptable \<Rightarrow> uchar list option \<Rightarrow> ushort" where
  "defchar_code table defchar =
     (case defchar of
        None \<Rightarrow> def_char (info_of table)
      | Some s \<Rightarrow> if s ! 1 \<noteq> 0 then push_bit 8 (scast (s ! 0)) OR scast (s ! 1) else scast (s ! 0))"

text \<open>The bytes that each character is converted to, with a mark on the default character.\<close>

fun cp_encode :: "unicode_tables \<Rightarrow> cptable \<Rightarrow> ulong \<Rightarrow> uchar list option \<Rightarrow> ushort list \<Rightarrow> (uchar list \<times> bool) list" where
  "cp_encode ut (Sbcs t) flags defchar src =
     map (\<lambda>(c, b). ([c], b))
       (sb_slow_codes ut t flags (case defchar of None \<Rightarrow> ucast (def_char (sb_info t) AND 0xff) | Some s \<Rightarrow> s ! 0) src)"
| "cp_encode ut (Dbcs t) flags defchar src =
     map (\<lambda>(c, b). (code_bytes c, b)) (db_slow_codes ut t flags (defchar_code (Dbcs t) defchar) src)"

abbreviation cp_bytes where
  "cp_bytes ut table flags defchar src \<equiv> concat (map fst (cp_encode ut table flags defchar src))"

definition wc_result :: "nat \<Rightarrow> nat \<Rightarrow> int" where
  "wc_result n k = (if k \<le> n then int k else -1)"

fun plain_bytes :: "cptable \<Rightarrow> ushort list \<Rightarrow> uchar list list" where
  "plain_bytes (Sbcs t) src = map (\<lambda>w. [sb_code t w]) src"
| "plain_bytes (Dbcs t) src = map (code_bytes \<circ> db_code t) src"

lemma concat_singles [simp]: "concat (map (\<lambda>x. [f x]) xs) = map f xs"
  by (induction xs) auto

lemma fits_map_singles: "fits n (map (\<lambda>x. [f x]) xs) = take n (map f xs)"
  using fits_singles [of n "map f xs"] by (simp add: comp_def)

lemma cp_wcstombs_fast:
  assumes "cp_ok table" "0 < n" "n \<le> length dst"
  shows "cp_wcstombs ut table 0 src dst n None False =
    Inr (wc_result n (length (concat (plain_bytes table src))), overwrite dst 0 (fits n (plain_bytes table src)), False)"
proof (cases table)
  case (Sbcs t)
  with assms copy_loop_map [of n 0 src "sb_from_wc t" "sb_code t" dst]
    copy_loop_map [of "length src" 0 src "sb_from_wc t" "sb_code t" dst]
  show ?thesis
    by (cases "n < length src")
      (simp_all add: cp_wcstombs_def wcstombs_sbcs_def wc_result_def sb_from_wc_ok Let_def fits_map_singles take_map)
next
  case (Dbcs t)
  with assms show ?thesis
    by (simp add: cp_wcstombs_def wcstombs_dbcs_def wc_result_def wcstombs_dbcs_loop_codes Let_def comp_def)
qed

lemma cp_wcstombs_slow:
  assumes "cp_ok table" "compose_ok ut" "\<forall>s. defchar = Some s \<longrightarrow> 2 \<le> length s" "flags \<noteq> 0 \<or> defchar \<noteq> None \<or> report"
    "0 < n" "n \<le> length dst"
  shows "\<exists>u. cp_wcstombs ut table flags src dst n defchar report =
    Inr (wc_result n (length (cp_bytes ut table flags defchar src)),
      overwrite dst 0 (fits n (map fst (cp_encode ut table flags defchar src))),
      if length (cp_bytes ut table flags defchar src) \<le> n then \<exists>c \<in> set (cp_encode ut table flags defchar src). snd c else u)"
proof (cases table)
  case (Sbcs t)
  let ?d = "case defchar of None \<Rightarrow> ucast (def_char (sb_info t) AND 0xff) | Some s \<Rightarrow> s ! 0"
  have "(case defchar of None \<Rightarrow> Inr (ucast (def_char (sb_info t) AND 0xff)) | Some s \<Rightarrow> lookup s 0) = Inr ?d"
    using assms(3) by (cases defchar) (auto simp: lookup_def)
  with Sbcs assms sbcs_slow_loop_codes [of ut t n n 0 dst flags ?d src False] show ?thesis
    by (auto simp: cp_wcstombs_def wcstombs_sbcs_slow_def wc_result_def Let_def comp_def case_prod_beta fits_map_singles)
next
  case (Dbcs t)
  have "defchar_value t defchar = Inr (defchar_code table defchar)"
    using Dbcs assms(3) by (cases defchar) (auto simp: defchar_value_def defchar_code_def lookup_def)
  with Dbcs assms dbcs_slow_loop_codes [of ut t n n 0 dst flags "defchar_code table defchar" src False] show ?thesis
    by (auto simp: cp_wcstombs_def wcstombs_dbcs_slow_def wc_result_def Let_def comp_def case_prod_beta)
qed

text \<open>Without the two flags that ask for more, the codes are those of the table.\<close>

lemma ucast_low_byte: "ucast (w AND 0xff :: ushort) = (ucast w :: uchar)"
  by (rule word_unat_eq_iff [THEN iffD2]) (simp add: unsigned_ucast_eq unat_and_ff take_bit_eq_mod)

lemma cp_encode_plain:
  assumes "flags AND WC_COMPOSITECHECK = 0" "flags AND WC_NO_BEST_FIT_CHARS = 0"
  shows "map fst (cp_encode ut table flags None src) = plain_bytes table src"
proof (cases table)
  case (Sbcs t)
  have "\<not> sb_valid t flags w (sb_code t w) \<Longrightarrow> ucast (def_char (sb_info t)) = sb_code t w" for w
    using assms(2) by (simp add: sb_valid_def)
  with Sbcs assms(1) show ?thesis
    by (auto simp: slow_codes_plain comp_def case_prod_beta ucast_low_byte split: if_splits)
next
  case (Dbcs t)
  have "\<not> db_valid t flags w (db_code t w) \<Longrightarrow> def_char (db_info t) = db_code t w" for w
    using assms(2) by (simp add: db_valid_def)
  with Dbcs assms(1) show ?thesis
    by (auto simp: slow_codes_plain comp_def case_prod_beta defchar_code_def split: if_splits)
qed

text \<open>The one case where the length query does not follow the flags.\<close>

fun size_ignores_flags :: "cptable \<Rightarrow> ulong \<Rightarrow> uchar list option \<Rightarrow> bool" where
  "size_ignores_flags (Sbcs t) flags defchar = False"
| "size_ignores_flags (Dbcs t) flags defchar =
     (defchar = None \<and> flags AND WC_COMPOSITECHECK = 0 \<and> flags AND WC_NO_BEST_FIT_CHARS \<noteq> 0)"

lemma cp_wcstombs_size:
  assumes "cp_ok table" "compose_ok ut" "\<forall>s. defchar = Some s \<longrightarrow> 2 \<le> length s"
  shows "cp_wcstombs ut table flags src dst 0 defchar report =
    Inr (int (length (if size_ignores_flags table flags defchar then concat (plain_bytes table src)
                      else cp_bytes ut table flags defchar src)), dst, False)"
proof (cases table)
  case (Sbcs t)
  let ?d = "case defchar of None \<Rightarrow> ucast (def_char (sb_info t) AND 0xff) | Some s \<Rightarrow> s ! 0"
  show ?thesis
    using Sbcs assms get_length_sbcs_codes [of ut t flags src ?d]
    by (simp add: cp_wcstombs_def comp_def case_prod_beta length_concat)
next
  case (Dbcs t)
  show ?thesis
  proof (cases "defchar = None \<and> flags AND WC_COMPOSITECHECK = 0")
    case True
    then have "flags AND WC_NO_BEST_FIT_CHARS = 0 \<Longrightarrow> map fst (cp_encode ut (Dbcs t) flags defchar src) = plain_bytes (Dbcs t) src"
      by (simp add: cp_encode_plain del: cp_encode.simps plain_bytes.simps)
    with True Dbcs assms show ?thesis
      by (auto simp: cp_wcstombs_def get_length_wc_dbcs_def dbcs_fast_length_codes simp del: cp_encode.simps)
  next
    case False
    have "defchar_value t defchar = Inr (defchar_code table defchar)"
      using Dbcs assms(3) by (cases defchar) (auto simp: defchar_value_def defchar_code_def lookup_def)
    with False Dbcs assms show ?thesis
      by (auto simp: cp_wcstombs_def get_length_wc_dbcs_def dbcs_slow_length_codes comp_def case_prod_beta)
  qed
qed

section \<open>Codes that convert back\<close>

text \<open>The codes of a table start with a lead byte exactly if they have two bytes.\<close>

definition db_lead_ok :: "dbcs_table \<Rightarrow> bool" where
  "db_lead_ok t \<longleftrightarrow> (\<forall>c \<in> set (db_uni2cp_low t).
     if c AND 0xff00 \<noteq> 0 then db_off t (ucast (drop_bit 8 c)) \<noteq> 0 else db_off t (ucast c) = 0)"

fun cp_lead_ok :: "cptable \<Rightarrow> bool" where
  "cp_lead_ok (Sbcs t) = True"
| "cp_lead_ok (Dbcs t) = db_lead_ok t"

lemma db_decode_code:
  assumes "db_ok t" "db_lead_ok t"
  shows "db_decode t (code_bytes (db_code t w) @ rest) = apfst (Cons (db_back t (db_code t w))) (db_decode t rest)"
proof -
  let ?c = "db_code t w"
  have "?c \<in> set (db_uni2cp_low t)"
    using assms(1) uni2cp_index [of "db_uni2cp_high t" "db_uni2cp_low t" w] by (simp add: db_code_def db_ok_def)
  with assms(2) have "if ?c AND 0xff00 \<noteq> 0 then db_off t (ucast (drop_bit 8 ?c)) \<noteq> 0 else db_off t (ucast ?c) = 0"
    unfolding db_lead_ok_def by blast
  then show ?thesis
    unfolding code_bytes_def db_back_def unat_low_byte [symmetric] by (auto simp: db_decode.simps(2) split: if_splits)
qed

lemma cp_encode_back:
  assumes "cp_ok table" "cp_lead_ok table" "flags AND WC_COMPOSITECHECK = 0" "flags AND WC_NO_BEST_FIT_CHARS \<noteq> 0"
    "\<forall>c \<in> set (cp_encode ut table flags defchar src). \<not> snd c"
  shows "cp_decode table (cp_bytes ut table flags defchar src) = (src, False)"
  using assms(5)
proof (induction src)
  case Nil
  then show ?case by (cases table) simp_all
next
  case (Cons w src)
  show ?case
  proof (cases table)
    case (Sbcs t)
    with Cons assms(3,4) show ?thesis
      by (auto simp: slow_codes_plain sb_valid_def comp_def split: if_splits)
  next
    case (Dbcs t)
    with Cons assms show ?thesis
      by (auto simp: slow_codes_plain db_decode_code db_valid_def split: if_splits)
  qed
qed

end
