(* ===== verification/Spec2Isabelle.thy ===== *)
theory Spec2Isabelle
  imports AvlProps BitmapProps LockProps NtErrorProps NumStrProps ResHeapMain Rtl SecurityProps SListProps StrIntProps TimeProps Utf8Props WcToMbProps
begin

text \<open>
  A verification development of Odin32, the Win32 run-time for OS/2 (the C code under \<open>src/src\<close>).

  \<^bold>\<open>What is modelled.\<close> The data structures and conversions that the run-time itself computes, each in
  its own group of theories:

  \<^item> \<open>Prelude\<close>: C integers as words, faults (failed assertion, access outside a buffer, null pointer,
    division by zero) as the left side of a sum, \<open>bind_res\<close> for early exits.
  \<^item> \<open>Avl\<close>, \<open>AvlCorrect\<close>, \<open>AvlQuery\<close>, \<open>AvlProps\<close>: \<open>win32k/misc/avl.c\<close>, the height-balanced tree the ring-0
    heap and module lists are indexed by. A tree is a value with the stored heights; the stack of
    pointers to slots that the code keeps is a list of frames (a zipper), so writing through a slot is
    plugging a subtree back.
  \<^item> \<open>AvlIndex\<close>: the surgery on stored nodes (a node shrunk or moved in place, its key or address
    rewritten), and the locales \<open>ordered_index\<close> and \<open>editable_index\<close>: what a client of the tree relies on,
    interpreted on the model of \<open>avl.c\<close>.
  \<^item> \<open>ResHeap\<close>, \<open>ResHeapInv\<close>, \<open>ResHeapProps\<close>, \<open>ResHeapRealloc\<close>, \<open>ResHeapReach\<close>, \<open>ResHeapMain\<close>:
    \<open>win32k/misc/rmalloc_avl.c\<close>, the resident heap of the ring-0 driver. The block headers are a map from
    addresses to sizes and signatures; an anchor is a record with its used tree and its free-size tree,
    which are values of \<open>Avl\<close> and are changed only through its operations; the chain of anchors is a list.
    The memory that \<open>D32Hlp_VMAlloc\<close> hands out is a parameter. \<open>heap_step\<close> is the step relation of the
    calls a client may make, \<open>heap_reachable\<close> its reachable heaps.
  \<^item> \<open>ResCheck\<close>: the statistics and consistency checks of the same file (\<open>_res_state\<close>, \<open>_res_dump_subheaps\<close>,
    \<open>_res_heap_check\<close>).
  \<^item> \<open>CritSect\<close>, \<open>RwLock\<close>, \<open>RwLockInv\<close>, \<open>RwLockProps\<close>, \<open>LockProps\<close>: \<open>kernel32/critsection.cpp\<close> and the resource lock
    of \<open>ntdll/rtl.c\<close>, as machines of interleaved threads. A thread is its place in the code with its local
    variables; \<open>cs_step\<close> and \<open>rw_step\<close> let any thread of a set make its next access to the shared structure.
    The critical section refines the mutex \<open>mutex_enter\<close>/\<open>mutex_leave\<close>; the resource lock uses that
    mutex through the locale \<open>section_interface\<close>. Semaphores are the documented objects.
  \<^item> \<open>SList\<close>, \<open>SListInv\<close>, \<open>SListProps\<close>: the interlocked lists of \<open>ntdll/rtl.c\<close>, likewise interleaved, over a
    header of 64 bits that is loaded in two halves and exchanged as a whole.
  \<^item> \<open>Mem\<close>, \<open>Security\<close>, \<open>SidProps\<close>, \<open>AclProps\<close>, \<open>SdProps\<close>, \<open>SecurityProps\<close>: \<open>ntdll/sec.c\<close>. Security identifiers and
    access control lists are bytes in a memory of 32-bit addresses (\<open>Mem\<close>), which the code walks over; a
    security descriptor is a record. \<open>IsBadReadPtr\<close> and the process heap are documented functions of
    \<open>kernel32\<close>, the heap a parameter. The loop of \<open>RtlAddAce\<close> that may not end is a partial function.
  \<^item> \<open>Rtl\<close>: the checksum and memory functions of \<open>ntdll/rtl.c\<close>.
  \<^item> \<open>Bitmap\<close>, \<open>BitmapCorrect\<close>, \<open>BitmapScan\<close>, \<open>BitmapRuns\<close>, \<open>BitmapProps\<close>: \<open>ntdll/rtlbitmap.c\<close>. A bitmap is
    its size and its byte buffer, every byte access is checked against the buffer.
  \<^item> \<open>ErrorCodes\<close>, \<open>NtError\<close>, \<open>NtErrorProps\<close>: \<open>ntdll/error.c\<close> with all its tables.
  \<^item> \<open>LargeInt\<close>, \<open>NumStr\<close>, \<open>NumStrProps\<close>: \<open>ntdll/large_int.c\<close> and \<open>ntdll/string.c\<close>.
  \<^item> \<open>Time\<close>, \<open>TimeProps\<close>: \<open>ntdll/time.c\<close>; the C library is the parameter \<open>time_env\<close>.
  \<^item> \<open>Utf8\<close>, \<open>Utf8Props\<close>: \<open>lib/unicode/utf8.c\<close>. A source is the list of its characters, a destination a buffer
    that is written by index.

  \<^bold>\<open>What is shown.\<close> The tree refines a sorted list of keys for every sequence of operations and keeps
  the balance invariant; its lookups and its enumeration are complete. The heap refines a map from the
  addresses of the used blocks to their sizes: on every reachable heap the operations run without a fault
  and change that map as their contract says, the anchors stay tiled by their blocks, neighbouring
  free blocks are merged, and the code's own check accepts the heap. The locks exclude,
  lose no wake-up and return to their initial state; the interlocked lists linearise to a sequential
  stack; the checksum table is the bitwise division. Access control lists that are created, filled by any sequence
  of calls and read back are lists of entries, descriptors return what was put into them, and the
  comparisons of identifiers are stated with the bytes they really compare. The bitmap operations change and
  test exactly the bits of their range, the searches return the first run in their order, the counts
  are exact. The error conversion is total and equals a flat list of pairs. Decimal text and calendar
  time convert back to what they came from, and so does text in UTF-8, whose checked decoder accepts
  nothing but canonical encodings. Where the code has a limit or a defect, a theorem states
  it: the tree's assertion at 17710 nodes, the pointer check of the heap that accepts nothing, the sizes
  for which a request wraps or the new anchor is too small, the byte written behind an exact buffer, the misplaced run,
  the day carried over by 60, the entry behind the last one, the loop over an entry of size 0, the sizes
  that the conversions to and from UTF-8 report.

  \<^bold>\<open>Bounds and fuel.\<close> Recursions are structural or have a measure. The only fuel is in \<open>find_runs_loop\<close>
  (one round more than there are bits), in the enumeration loop of \<open>AvlQuery\<close> (one round more than
  there are nodes) and in the walk over the blocks of an anchor in \<open>ResCheck\<close> (the number of nodes of both
  trees, which is the number of blocks when the heap is well-formed). The heap theorems assume
  that a tree has fewer than 17710 nodes (\<open>heap_room\<close>, the limit of the code's own stack), that the system
  hands out memory not in use (\<open>vm_fresh\<close>) and that sizes stay below the point where they wrap (\<open>request_ok\<close>);
  what happens at the last point is stated separately. The reachable states of the locks are those in which the
  entries fit the 32-bit counters, with at most 65535 threads (the maximum count of the
  semaphores); those of the interlocked lists are those in which \<open>Depth\<close> and \<open>Sequence\<close> do not wrap
  round under a thread.

  \<^bold>\<open>Not modelled.\<close> The user interface, graphics, sound, loaders and drivers are C++ or assembler over
  the OS/2 API; \<open>crypt32\<close>, \<open>rsaenh\<close>, \<open>ole32\<close>, \<open>opengl\<close> and others are third-party code kept in the tree.
  Of the heap, the contents of user data are not part of the state, nor are the hex dumps the checks
  print and the back links \<open>pPrev\<close>/\<open>phaLast\<close>, which are determined by the list of anchors.
  Of the other modelled files, \<open>NtSetSystemTime\<close> and \<open>_splitpath\<close> are left out.
\<close>

end
